(* ===== verification/Prelude.thy ===== *)
theory Prelude
  imports Main "HOL-Library.Word"
begin

text \<open>
  What every component of the model shares: the names of the C integer types, the errors a
  kernel operation can end in, the result type of an operation that may end in one of them
  (with its sequencing operator), and array access with the bounds written out.

  An \<^verbatim>\<open>ASSERT\<close> of \<^verbatim>\<open>kernel/debug.h\<close> is active in the build (\<^verbatim>\<open>NDEBUG\<close> is not set in the
  makefile): a failed one calls \<^verbatim>\<open>panic_spin\<close>, which never returns.
\<close>

unbundle bit_operations_syntax

type_synonym u8 = "8 word"
type_synonym u16 = "16 word"
type_synonym u32 = "32 word"

text \<open>
  The ways an operation ends without a result. \<open>Assertion\<close>: a failed \<^verbatim>\<open>ASSERT\<close>.
  \<open>Panic\<close>: an explicit \<^verbatim>\<open>PANIC\<close>. \<open>Out_of_bounds\<close>: an access outside the object the
  model knows. \<open>Page_fault\<close>: an access through an address the page tables do not map.
  \<open>Hang\<close>: a loop that never ends.
\<close>

datatype error = Assertion | Panic | Out_of_bounds | Page_fault | Hang

type_synonym 'a res = "error + 'a"

definition rbind :: "'a res \<Rightarrow> ('a \<Rightarrow> 'b res) \<Rightarrow> 'b res" where
  "rbind m f = (case m of Inl e \<Rightarrow> Inl e | Inr x \<Rightarrow> f x)"

definition guard :: "error \<Rightarrow> bool \<Rightarrow> unit res" where
  "guard e b = (if b then Inr () else Inl e)"

abbreviation c_assert :: "bool \<Rightarrow> unit res" where
  "c_assert b \<equiv> guard Assertion b"

text \<open>A loop that may not end returns an option; not ending is the error \<open>Hang\<close>.\<close>

definition ends :: "'a option \<Rightarrow> 'a res" where
  "ends r = (case r of None \<Rightarrow> Inl Hang | Some x \<Rightarrow> Inr x)"

lemma rbind_simps [simp]:
  "rbind (Inl e) f = Inl e"
  "rbind (Inr x) f = f x"
  by (simp_all add: rbind_def)

lemma guard_simps [simp]:
  "guard e True = Inr ()"
  "guard e False = Inl e"
  by (simp_all add: guard_def)

lemma ends_simps [simp]:
  "ends None = Inl Hang"
  "ends (Some x) = Inr x"
  by (simp_all add: ends_def)

lemma rbind_Inr_iff: "rbind m f = Inr y \<longleftrightarrow> (\<exists>x. m = Inr x \<and> f x = Inr y)"
  by (cases m) simp_all

lemma rbind_InrE:
  assumes "rbind m f = Inr y"
  obtains x where "m = Inr x" and "f x = Inr y"
  using assms by (auto simp: rbind_Inr_iff)

lemma guard_Inr_iff [simp]: "guard e b = Inr u \<longleftrightarrow> b"
  by (simp add: guard_def)

lemma ends_Inr_iff [simp]: "ends r = Inr x \<longleftrightarrow> r = Some x"
  by (cases r) simp_all

lemma rbind_cong [fundef_cong]:
  "m = m' \<Longrightarrow> (\<And>x. m' = Inr x \<Longrightarrow> f x = g x) \<Longrightarrow> rbind m f = rbind m' g"
  by (cases m') simp_all

lemma rbind_assoc: "rbind (rbind m f) g = rbind m (\<lambda>x. rbind (f x) g)"
  by (cases m) simp_all

text \<open>
  What holds of a result, if there is one: the rules follow the sequencing, so that a property every
  operation keeps is proved along the definitions. The collection \<open>seq\<close> holds them.
\<close>

named_theorems seq

definition returns :: "('a \<Rightarrow> bool) \<Rightarrow> 'a res \<Rightarrow> bool" where
  "returns P m \<longleftrightarrow> (\<forall>x. m = Inr x \<longrightarrow> P x)"

lemma returns_Inl [simp, seq]: "returns P (Inl e)"
  by (simp add: returns_def)

lemma returns_Inr [simp]: "returns P (Inr x) \<longleftrightarrow> P x"
  by (simp add: returns_def)

lemma returnsD: "returns P m \<Longrightarrow> m = Inr x \<Longrightarrow> P x"
  by (simp add: returns_def)

lemma returns_rbind: "returns Q m \<Longrightarrow> (\<And>x. Q x \<Longrightarrow> returns P (f x)) \<Longrightarrow> returns P (rbind m f)"
  by (auto simp: returns_def rbind_Inr_iff)

lemma returns_rbind_eq: "(\<And>x. m = Inr x \<Longrightarrow> returns P (f x)) \<Longrightarrow> returns P (rbind m f)"
  by (auto simp: returns_def rbind_Inr_iff)

lemma returns_rbind_any: "(\<And>x. returns P (f x)) \<Longrightarrow> returns P (rbind m f)"
  by (auto simp: returns_def rbind_Inr_iff)

lemma returns_if [seq]: "(c \<Longrightarrow> returns P a) \<Longrightarrow> (\<not> c \<Longrightarrow> returns P b) \<Longrightarrow> returns P (if c then a else b)"
  by simp

lemma returns_option [seq]:
  "(x = None \<Longrightarrow> returns P a) \<Longrightarrow> (\<And>y. x = Some y \<Longrightarrow> returns P (f y)) \<Longrightarrow>
    returns P (case x of None \<Rightarrow> a | Some y \<Rightarrow> f y)"
  by (cases x) simp_all

section \<open>Arrays\<close>

definition aread :: "'a list \<Rightarrow> nat \<Rightarrow> 'a res" where
  "aread xs i = (if i < length xs then Inr (xs ! i) else Inl Out_of_bounds)"

definition awrite :: "'a list \<Rightarrow> nat \<Rightarrow> 'a \<Rightarrow> 'a list res" where
  "awrite xs i v = (if i < length xs then Inr (xs[i := v]) else Inl Out_of_bounds)"

lemma aread_in [simp]: "i < length xs \<Longrightarrow> aread xs i = Inr (xs ! i)"
  by (simp add: aread_def)

lemma aread_out [simp]: "\<not> i < length xs \<Longrightarrow> aread xs i = Inl Out_of_bounds"
  by (simp add: aread_def)

lemma aread_Inr_iff: "aread xs i = Inr v \<longleftrightarrow> i < length xs \<and> xs ! i = v"
  by (auto simp: aread_def)

lemma awrite_in [simp]: "i < length xs \<Longrightarrow> awrite xs i v = Inr (xs[i := v])"
  by (simp add: awrite_def)

lemma awrite_out [simp]: "\<not> i < length xs \<Longrightarrow> awrite xs i v = Inl Out_of_bounds"
  by (simp add: awrite_def)

lemma awrite_Inr_iff: "awrite xs i v = Inr ys \<longleftrightarrow> i < length xs \<and> ys = xs[i := v]"
  by (auto simp: awrite_def)

section \<open>Bits of a byte\<close>

lemma bit_u8_less: "bit (b :: u8) i \<Longrightarrow> i < 8"
  using bit_imp_le_length [of b i] by simp

lemma mask_and_eq_0_iff: "(b :: 'a :: len word) AND push_bit i 1 = 0 \<longleftrightarrow> \<not> bit b i"
  by (simp add: bit_iff_and_push_bit_not_eq_0)

lemma mask_and_eq_0_iff': "push_bit i 1 AND (b :: 'a :: len word) = 0 \<longleftrightarrow> \<not> bit b i"
  by (metis and.commute mask_and_eq_0_iff)

lemma u8_all_ones_iff: "(b :: u8) = 255 \<longleftrightarrow> (\<forall>i < 8. bit b i)"
proof
  assume "b = 255"
  then have "b = - 1" by simp
  then show "\<forall>i < 8. bit b i" by simp
next
  assume "\<forall>i < 8. bit b i"
  then have "b = - 1" by (auto simp: bit_eq_iff)
  then show "b = 255" by simp
qed

section \<open>The bit masks of the kernel's address arithmetic\<close>

lemma u32_masks:
  "(0x0000FFFF :: u32) = mask 16"
  "(0xFFFF0000 :: u32) = NOT (mask 16)"
  "(0x00000FFF :: u32) = mask 12"
  "(0xFFFFF000 :: u32) = NOT (mask 12)"
  "(0xFFC00000 :: u32) = NOT (mask 22)"
  "(0x003FF000 :: u32) = push_bit 12 (mask 10)"
  by (simp_all add: mask_eq_exp_minus_1 push_bit_eq_mult)

lemma bit_u32_less: "bit (w :: u32) i \<Longrightarrow> i < 32"
  using bit_imp_le_length [of w i] by simp

lemma unat_word_of_nat32: "n < 2 ^ 32 \<Longrightarrow> unat (word_of_nat n :: u32) = n"
  by (simp add: unsigned_of_nat take_bit_nat_eq_self)

lemma word_of_nat_inj32:
  "(word_of_nat a :: u32) = word_of_nat b \<Longrightarrow> a < 2 ^ 32 \<Longrightarrow> b < 2 ^ 32 \<Longrightarrow> a = b"
  by (metis unat_word_of_nat32)

lemmas word_bit_simps =
  bit_or_iff bit_and_iff bit_xor_iff bit_not_iff bit_push_bit_iff bit_drop_bit_eq bit_ucast_iff
  bit_mask_iff

section \<open>Pages\<close>

definition PG_SIZE :: u32 where "PG_SIZE = 4096"

text \<open>The page of an address, \<^verbatim>\<open>addr & 0xfffff000\<close>, and the addresses that start one.\<close>

definition page :: "u32 \<Rightarrow> u32" where
  "page a = a AND 0xfffff000"

definition aligned :: "u32 \<Rightarrow> bool" where
  "aligned a \<longleftrightarrow> a AND 0xfff = 0"

lemma page_bits: "bit (page a) i \<longleftrightarrow> bit a i \<and> 12 \<le> i"
  using bit_u32_less by (auto simp: page_def u32_masks word_bit_simps)

lemma aligned_bits: "aligned a \<longleftrightarrow> (\<forall>i < 12. \<not> bit a i)"
  using bit_u32_less by (fastforce simp: aligned_def u32_masks bit_eq_iff word_bit_simps)

lemma aligned_unat: "aligned a \<longleftrightarrow> unat a mod 4096 = 0"
proof -
  have "aligned a \<longleftrightarrow> unat (take_bit 12 a) = 0"
    by (simp add: aligned_def u32_masks take_bit_eq_mask unat_eq_zero)
  also have "\<dots> \<longleftrightarrow> unat a mod 4096 = 0" unfolding unsigned_take_bit_eq by (simp add: take_bit_eq_mod)
  finally show ?thesis .
qed

lemma aligned_page [simp]: "aligned (page a)"
  by (simp add: aligned_bits page_bits)

lemma page_aligned [simp]: "aligned a \<Longrightarrow> page a = a"
  by (rule bit_eqI) (auto simp: page_bits aligned_bits not_less)

lemma small_bits: "k < 2 ^ n \<Longrightarrow> bit (k :: u32) i \<Longrightarrow> i < n"
proof (rule ccontr)
  assume k: "k < 2 ^ n" and b: "bit k i" and n: "\<not> i < n"
  have "i < 32" by (rule bit_u32_less [OF b])
  with n have "n < 32" by simp
  then have "unat (2 ^ n :: u32) = 2 ^ n"
    using unat_word_of_nat32 [of "2 ^ n"] power_strict_increasing [of n 32 "2 :: nat"] by simp
  with k have "unat k < 2 ^ n" by (simp add: word_less_nat_alt)
  also have "(2 :: nat) ^ n \<le> 2 ^ i" using n by (simp add: power_increasing)
  finally have "\<not> bit (unat k) i" by (simp add: bit_iff_odd)
  with b show False by (simp add: bit_unsigned_iff)
qed

lemma less_of_bits:
  assumes "\<And>i. bit (k :: u32) i \<Longrightarrow> i < n" and "n < 32"
  shows "k < 2 ^ n"
proof -
  have "k = take_bit n k" using assms(1) by (intro bit_eqI) (auto simp: bit_take_bit_iff)
  then have "unat k = take_bit n (unat k)" by (metis unsigned_take_bit_eq)
  then have "unat k < 2 ^ n" by (metis take_bit_nat_less_exp)
  moreover have "unat (2 ^ n :: u32) = 2 ^ n"
    using unat_word_of_nat32 [of "2 ^ n"] power_strict_increasing [of n 32 "2 :: nat"] assms(2) by simp
  ultimately show ?thesis by (simp add: word_less_nat_alt)
qed

text \<open>An offset below the page size only sets the low bits.\<close>

lemma aligned_add_or: "aligned a \<Longrightarrow> k < 4096 \<Longrightarrow> a + k = a OR k"
  using small_bits [of k 12]
  by (intro disjunctive_add_eq_or) (auto simp: bit_eq_iff word_bit_simps aligned_bits)

lemma page_add: "aligned a \<Longrightarrow> k < 4096 \<Longrightarrow> page (a + k) = a"
  using small_bits [of k 12]
  by (intro bit_eqI) (force simp: aligned_add_or page_bits word_bit_simps aligned_bits not_less)

lemma offset_add: "aligned a \<Longrightarrow> k < 4096 \<Longrightarrow> (a + k) AND 0xfff = k"
  using small_bits [of k 12]
  by (intro bit_eqI) (auto simp: aligned_add_or word_bit_simps aligned_bits u32_masks)

lemma page_offset: "page a + (a AND 0xfff) = a"
proof -
  have "page a + (a AND 0xfff) = page a OR (a AND 0xfff)"
    by (intro disjunctive_add_eq_or) (auto simp: bit_eq_iff word_bit_simps page_bits u32_masks)
  also have "\<dots> = a" by (intro bit_eqI) (auto simp: page_bits word_bit_simps u32_masks)
  finally show ?thesis .
qed

lemma offset_less: "a AND 0xfff < (4096 :: u32)"
proof -
  have "a AND 0xfff \<le> (0xfff :: u32)" by (rule word_and_le1)
  also have "\<dots> < 4096" by simp
  finally show ?thesis .
qed

text \<open>A small word read as a signed number.\<close>

lemma sint_small: "unat (x :: u32) < 2 ^ 31 \<Longrightarrow> sint x = int (unat x)"
proof -
  assume x: "unat x < 2 ^ 31"
  have "uint x = int (unat x)" by simp
  then have "uint x < 2 ^ 31" using x by (metis of_nat_less_iff of_nat_numeral of_nat_power)
  moreover have "- (2 ^ 31) \<le> uint x" by (rule order_trans [of _ 0]) simp_all
  ultimately have "signed_take_bit 31 (uint x) = uint x" by (intro signed_take_bit_int_eq_self)
  then show ?thesis by (simp add: sint_uint)
qed

end
