(* ===== verification/Bitmap.thy ===== *)
theory Bitmap
  imports Prelude
begin

text \<open>
  \<^verbatim>\<open>lib/kernel/bitmap.c\<close>: the bitmaps that manage physical pages, virtual pages, disk blocks
  and inodes.

  A \<^verbatim>\<open>struct bitmap\<close> is a length in bytes and a pointer. The field \<open>bits\<close> is the memory
  from that pointer on, as far as it belongs to a known object: it is usually exactly
  \<open>btmp_bytes_len\<close> bytes, and more where the bitmap is followed by other data (the three
  bitmaps of \<^verbatim>\<open>mem_pool_init\<close> are adjacent). A read past \<open>bits\<close> is \<open>Out_of_bounds\<close>.
  Indices are natural numbers: no arithmetic of this file wraps while the length is below
  \<open>2 ^ 28\<close> bytes, and the largest bitmap the kernel makes has \<open>2 ^ 15\<close>.
\<close>

section \<open>The code\<close>

record bitmap =
  btmp_bytes_len :: nat
  bits :: "u8 list"

definition bitmap_init :: "bitmap \<Rightarrow> bitmap res" where
  "bitmap_init m =
     (if btmp_bytes_len m \<le> length (bits m)
      then Inr (m\<lparr>bits := replicate (btmp_bytes_len m) 0 @ drop (btmp_bytes_len m) (bits m)\<rparr>)
      else Inl Out_of_bounds)"

definition bitmap_scan_test :: "bitmap \<Rightarrow> nat \<Rightarrow> bool res" where
  "bitmap_scan_test m bit_idx =
     (let byte_idx = bit_idx div 8; bit_odd = bit_idx mod 8
      in rbind (aread (bits m) byte_idx) (\<lambda>b. Inr (b AND push_bit bit_odd 1 \<noteq> 0)))"

text \<open>The first loop of \<^verbatim>\<open>bitmap_scan\<close>: it reads the byte before it compares the index.\<close>

function scan_bytes :: "u8 list \<Rightarrow> nat \<Rightarrow> nat \<Rightarrow> nat res" where
  "scan_bytes bs len idx_byte =
     (if idx_byte < length bs
      then if bs ! idx_byte = 0xff \<and> idx_byte < len then scan_bytes bs len (Suc idx_byte)
           else Inr idx_byte
      else Inl Out_of_bounds)"
  by pat_completeness auto
termination
  by (relation "measure (\<lambda>(bs, len, i). len - i)") auto

text \<open>The second loop: the first clear bit of the byte; \<^verbatim>\<open>(uint8_t)(1 << i)\<close> is 0 from 8 on.\<close>

function scan_bit :: "u8 \<Rightarrow> nat \<Rightarrow> nat" where
  "scan_bit b idx_bit =
     (if push_bit idx_bit 1 AND b \<noteq> 0 then scan_bit b (Suc idx_bit) else idx_bit)"
  by pat_completeness auto
termination
proof (relation "measure (\<lambda>(b, i). 8 - i)")
  fix b :: u8 and i :: nat
  assume "push_bit i 1 AND b \<noteq> 0"
  then have "i < 8" by (simp add: mask_and_eq_0_iff' bit_u8_less del: push_bit_of_1)
  then show "((b, Suc i), (b, i)) \<in> measure (\<lambda>(b, i). 8 - i)" by simp
qed simp

text \<open>The third loop: \<open>bit_left\<close> tests from \<open>bit_next\<close> on, with the current run's length.\<close>

fun scan_run :: "bitmap \<Rightarrow> nat \<Rightarrow> nat \<Rightarrow> nat \<Rightarrow> nat \<Rightarrow> int res" where
  "scan_run m cnt 0 bit_next count = Inr (- 1)"
| "scan_run m cnt (Suc bit_left) bit_next count =
     rbind (bitmap_scan_test m bit_next) (\<lambda>used.
       let count' = (if \<not> used then count + 1 else 0)
       in if count' = cnt then Inr (int bit_next - int cnt + 1)
          else scan_run m cnt bit_left (Suc bit_next) count')"

definition bitmap_scan :: "bitmap \<Rightarrow> nat \<Rightarrow> int res" where
  "bitmap_scan m cnt =
     rbind (scan_bytes (bits m) (btmp_bytes_len m) 0) (\<lambda>idx_byte.
     rbind (c_assert (idx_byte < btmp_bytes_len m)) (\<lambda>_.
     if idx_byte = btmp_bytes_len m then Inr (- 1)
     else rbind (aread (bits m) idx_byte) (\<lambda>b.
       let bit_idx_start = idx_byte * 8 + scan_bit b 0
       in if cnt = 1 then Inr (int bit_idx_start)
          else scan_run m cnt (btmp_bytes_len m * 8 - bit_idx_start) (bit_idx_start + 1) 1)))"

definition bitmap_set :: "bitmap \<Rightarrow> nat \<Rightarrow> int \<Rightarrow> bitmap res" where
  "bitmap_set m bit_idx val =
     rbind (c_assert (val = 0 \<or> val = 1)) (\<lambda>_.
     let byte_idx = bit_idx div 8; bit_odd = bit_idx mod 8
     in rbind (aread (bits m) byte_idx) (\<lambda>b.
        Inr (m\<lparr>bits := (bits m)[byte_idx :=
          (if val \<noteq> 0 then b OR push_bit bit_odd 1 else b AND NOT (push_bit bit_odd 1))]\<rparr>)))"

text \<open>
  The callers' loop \<^verbatim>\<open>while (cnt < pg_cnt) bitmap_set(.., bit_idx_start + cnt++, value)\<close> of
  \<^verbatim>\<open>vaddr_get\<close> and \<^verbatim>\<open>vaddr_remove\<close>.
\<close>

fun bitmap_set_range :: "bitmap \<Rightarrow> nat \<Rightarrow> nat \<Rightarrow> int \<Rightarrow> bitmap res" where
  "bitmap_set_range m start 0 val = Inr m"
| "bitmap_set_range m start (Suc n) val =
     rbind (bitmap_set m start val) (\<lambda>m'. bitmap_set_range m' (Suc start) n val)"

declare scan_bytes.simps [simp del] scan_bit.simps [simp del]

section \<open>The bits of a bitmap as a predicate\<close>

definition used :: "bitmap \<Rightarrow> nat \<Rightarrow> bool" where
  "used m i = bit (bits m ! (i div 8)) (i mod 8)"

definition backed :: "bitmap \<Rightarrow> nat \<Rightarrow> bool" where
  "backed m i \<longleftrightarrow> i div 8 < length (bits m)"

text \<open>A well-formed bitmap: the memory covers the declared length.\<close>

definition wf_bitmap :: "bitmap \<Rightarrow> bool" where
  "wf_bitmap m \<longleftrightarrow> btmp_bytes_len m \<le> length (bits m)"

lemma wf_backed: "wf_bitmap m \<Longrightarrow> i < btmp_bytes_len m * 8 \<Longrightarrow> backed m i"
  by (auto simp: wf_bitmap_def backed_def)

lemma backed_mono: "backed m j \<Longrightarrow> i \<le> j \<Longrightarrow> backed m i"
  unfolding backed_def using div_le_mono le_less_trans by blast

lemma scan_test_backed [simp]: "backed m i \<Longrightarrow> bitmap_scan_test m i = Inr (used m i)"
  by (simp add: bitmap_scan_test_def backed_def used_def Let_def mask_and_eq_0_iff
        del: push_bit_of_1)

lemma scan_test_unbacked [simp]: "\<not> backed m i \<Longrightarrow> bitmap_scan_test m i = Inl Out_of_bounds"
  by (simp add: bitmap_scan_test_def backed_def Let_def)


section \<open>The loops\<close>

lemma scan_bytes_result:
  assumes "scan_bytes bs len i = Inr j"
  shows "i \<le> j \<and> j < length bs \<and> (\<forall>k. i \<le> k \<and> k < j \<longrightarrow> bs ! k = 0xff)
    \<and> (j < len \<longrightarrow> bs ! j \<noteq> 0xff) \<and> (i \<le> len \<longrightarrow> j \<le> len)"
  using assms
proof (induction bs len i rule: scan_bytes.induct)
  case (1 bs len i)
  show ?case
  proof (cases "i < length bs \<and> bs ! i = 0xff \<and> i < len")
    case True
    with "1.prems" have "scan_bytes bs len (Suc i) = Inr j"
      by (simp add: scan_bytes.simps [of bs len i])
    with True "1.IH" show ?thesis
      by (metis Suc_leD Suc_leI le_neq_implies_less)
  next
    case False
    with "1.prems" show ?thesis
      by (auto simp: scan_bytes.simps [of bs len i] split: if_splits)
  qed
qed

lemma scan_bytes_finds:
  assumes "len \<le> length bs" and "i \<le> k" and "k < len" and "bs ! k \<noteq> 0xff"
  shows "\<exists>j. scan_bytes bs len i = Inr j \<and> j < len"
  using assms
proof (induction bs len i rule: scan_bytes.induct)
  case (1 bs len i)
  show ?case
  proof (cases "bs ! i = 0xff")
    case True
    with "1.prems" have "Suc i \<le> k" by (metis Suc_leI le_neq_implies_less)
    with True "1.prems" "1.IH" show ?thesis
      by (simp add: scan_bytes.simps [of bs len i])
  next
    case False
    with "1.prems" show ?thesis by (simp add: scan_bytes.simps [of bs len i])
  qed
qed

lemma scan_bytes_full:
  assumes "\<forall>k. i \<le> k \<and> k < len \<longrightarrow> bs ! k = 0xff" and "i \<le> len" and "len \<le> length bs"
  shows "scan_bytes bs len i = (if len < length bs then Inr len else Inl Out_of_bounds)"
  using assms
proof (induction bs len i rule: scan_bytes.induct)
  case (1 bs len i)
  then show ?case
    by (cases "i < len") (auto simp: scan_bytes.simps [of bs len i] scan_bytes.simps [of bs len len])
qed

lemma scan_bit_result:
  assumes "\<exists>k. i \<le> k \<and> k < 8 \<and> \<not> bit b k"
  shows "i \<le> scan_bit b i \<and> scan_bit b i < 8 \<and> \<not> bit b (scan_bit b i)
    \<and> (\<forall>k. i \<le> k \<and> k < scan_bit b i \<longrightarrow> bit b k)"
  using assms
proof (induction b i rule: scan_bit.induct)
  case (1 b i)
  show ?case
  proof (cases "bit b i")
    case True
    with "1.prems" have "\<exists>k. Suc i \<le> k \<and> k < 8 \<and> \<not> bit b k"
      by (metis Suc_leI le_neq_implies_less)
    with True "1.IH" have IH: "Suc i \<le> scan_bit b (Suc i) \<and> scan_bit b (Suc i) < 8
        \<and> \<not> bit b (scan_bit b (Suc i)) \<and> (\<forall>k. Suc i \<le> k \<and> k < scan_bit b (Suc i) \<longrightarrow> bit b k)"
      by (simp add: mask_and_eq_0_iff' del: push_bit_of_1)
    have "scan_bit b i = scan_bit b (Suc i)"
      using True by (simp add: scan_bit.simps [of b i] mask_and_eq_0_iff' del: push_bit_of_1)
    with IH True show ?thesis by (metis Suc_leD Suc_leI le_neq_implies_less)
  next
    case False
    with "1.prems" show ?thesis
      by (auto simp: scan_bit.simps [of b i] mask_and_eq_0_iff' simp del: push_bit_of_1)
  qed
qed

text \<open>A run of \<open>cnt\<close> clear bits from \<open>s\<close> on, and the reference search for the first one.\<close>

definition run_free :: "bitmap \<Rightarrow> nat \<Rightarrow> nat \<Rightarrow> bool" where
  "run_free m s cnt \<longleftrightarrow> (\<forall>i < cnt. \<not> used m (s + i))"

definition first_fit :: "bitmap \<Rightarrow> nat \<Rightarrow> nat \<Rightarrow> int" where
  "first_fit m cnt limit =
     (case find (\<lambda>s. run_free m s cnt) [0..<limit + 1 - cnt] of None \<Rightarrow> - 1 | Some s \<Rightarrow> int s)"

lemma first_fit_SomeI:
  assumes "run_free m s cnt" and "s + cnt \<le> limit" and "\<forall>t < s. \<not> run_free m t cnt"
  shows "first_fit m cnt limit = int s"
proof -
  have "find (\<lambda>s. run_free m s cnt) [0..<limit + 1 - cnt] = Some s"
    using assms by (auto simp: find_Some_iff intro!: exI [of _ s])
  then show ?thesis by (simp add: first_fit_def)
qed

lemma first_fit_NoneI:
  assumes "\<forall>t. t + cnt \<le> limit \<longrightarrow> \<not> run_free m t cnt"
  shows "first_fit m cnt limit = - 1"
proof -
  have "find (\<lambda>s. run_free m s cnt) [0..<limit + 1 - cnt] = None"
    using assms by (auto simp: find_None_iff)
  then show ?thesis by (simp add: first_fit_def)
qed

lemma run_free_extend:
  "run_free m (n - c) c \<Longrightarrow> c \<le> n \<Longrightarrow> \<not> used m n \<Longrightarrow> run_free m (n - c) (Suc c)"
  by (auto simp: run_free_def less_Suc_eq)

lemma run_blocked: "used m j \<Longrightarrow> t \<le> j \<Longrightarrow> j < t + cnt \<Longrightarrow> \<not> run_free m t cnt"
  unfolding run_free_def by (metis add_less_cancel_left le_Suc_ex)

lemma scan_run_step_windows:
  assumes clear: "\<forall>t. t + cnt \<le> n \<longrightarrow> \<not> run_free m t cnt"
    and c: "c \<le> n" "Suc c < cnt" and edge: "c = n \<or> used m (n - c - 1)"
  shows "\<forall>t. t + cnt \<le> Suc n \<longrightarrow> \<not> run_free m t cnt"
proof (intro allI impI)
  fix t assume t: "t + cnt \<le> Suc n"
  show "\<not> run_free m t cnt"
  proof (cases "t + cnt \<le> n")
    case True
    with clear show ?thesis by blast
  next
    case False
    with t c have "c < n" and "t \<le> n - c - 1" and "n - c - 1 < t + cnt" by linarith+
    with edge show ?thesis using run_blocked by blast
  qed
qed

lemma scan_run_result:
  assumes "c < cnt" and "c \<le> n" and "run_free m (n - c) c"
    and "c = n \<or> used m (n - c - 1)"
    and "\<forall>t. t + cnt \<le> n \<longrightarrow> \<not> run_free m t cnt"
  shows "(\<exists>s. scan_run m cnt left n c = Inr (int s) \<and> s + cnt \<le> n + left \<and> run_free m s cnt
             \<and> (\<forall>t < s. \<not> run_free m t cnt) \<and> backed m (s + cnt - 1))
    \<or> (scan_run m cnt left n c = Inr (- 1) \<and> (\<forall>t. t + cnt \<le> n + left \<longrightarrow> \<not> run_free m t cnt))
    \<or> (scan_run m cnt left n c = Inl Out_of_bounds \<and> \<not> backed m (n + left - 1))"
  using assms
proof (induction left arbitrary: n c)
  case 0
  then show ?case by simp
next
  case (Suc left)
  show ?case
  proof (cases "backed m n")
    case False
    then have "\<not> backed m (n + left)" using backed_mono le_add1 by blast
    with False show ?thesis by simp
  next
    case bk: True
    show ?thesis
    proof (cases "used m n")
      case True
      have "\<forall>t. t + cnt \<le> Suc n \<longrightarrow> \<not> run_free m t cnt"
        using Suc.prems True run_blocked [OF True] by (metis add.commute le_Suc_eq le_add2 lessI
            less_add_same_cancel2 less_imp_le_nat add_le_cancel_right not_less_eq_eq gr_zeroI not_less0)
      with Suc.IH [of 0 "Suc n"] Suc.prems True bk show ?thesis
        by (simp add: run_free_def Let_def)
    next
      case free: False
      show ?thesis
      proof (cases "Suc c = cnt")
        case True
        have "int n - int cnt + 1 = int (n - c)" using True Suc.prems(2) by linarith
        moreover have "run_free m (n - c) cnt"
          using run_free_extend [OF Suc.prems(3,2) free] by (simp only: True)
        moreover have "\<forall>t < n - c. \<not> run_free m t cnt"
          using Suc.prems(5) True by (simp add: less_diff_conv)
        ultimately show ?thesis
          using True bk free Suc.prems(2) by (auto simp: Let_def intro!: exI [of _ "n - c"])
      next
        case False
        with Suc.prems(1) have c: "Suc c < cnt" by simp
        have "run_free m (Suc n - Suc c) (Suc c)"
          unfolding diff_Suc_Suc by (rule run_free_extend [OF Suc.prems(3,2) free])
        moreover have "\<forall>t. t + cnt \<le> Suc n \<longrightarrow> \<not> run_free m t cnt"
          by (rule scan_run_step_windows [OF Suc.prems(5,2) c Suc.prems(4)])
        ultimately show ?thesis
          using Suc.IH [of "Suc c" "Suc n"] Suc.prems(2,4) c bk free False by (simp add: Let_def)
      qed
    qed
  qed
qed

text \<open>What precedes the third loop: the first clear bit of the whole bitmap.\<close>

lemma first_clear_bit:
  assumes wf: "wf_bitmap m" and k: "k < btmp_bytes_len m * 8" and free: "\<not> used m k"
  obtains j where "scan_bytes (bits m) (btmp_bytes_len m) 0 = Inr j"
    and "j < btmp_bytes_len m"
    and "\<not> used m (j * 8 + scan_bit (bits m ! j) 0)"
    and "j * 8 + scan_bit (bits m ! j) 0 < btmp_bytes_len m * 8"
    and "\<forall>i < j * 8 + scan_bit (bits m ! j) 0. used m i"
proof -
  let ?len = "btmp_bytes_len m"
  from free have "bits m ! (k div 8) \<noteq> 0xff"
    by (auto simp: used_def u8_all_ones_iff intro!: exI [of _ "k mod 8"])
  moreover from k have "k div 8 < ?len" by auto
  ultimately obtain j where j: "scan_bytes (bits m) ?len 0 = Inr j" "j < ?len"
    using scan_bytes_finds [of ?len "bits m" 0 "k div 8"] wf by (auto simp: wf_bitmap_def)
  note res = scan_bytes_result [OF j(1)]
  let ?b = "scan_bit (bits m ! j) 0"
  from res j(2) have "\<exists>k. 0 \<le> k \<and> k < 8 \<and> \<not> bit (bits m ! j) k"
    by (auto simp: u8_all_ones_iff)
  note sb = scan_bit_result [OF this]
  have dm: "(j * 8 + ?b) div 8 = j" "(j * 8 + ?b) mod 8 = ?b" using sb by auto
  show ?thesis
  proof (rule that [OF j])
    show "\<not> used m (j * 8 + ?b)" unfolding used_def dm using sb by simp
    show "j * 8 + ?b < ?len * 8" using sb j(2) by linarith
    show "\<forall>i < j * 8 + ?b. used m i"
    proof (intro allI impI)
      fix i assume i: "i < j * 8 + ?b"
      show "used m i"
      proof (cases "i div 8 < j")
        case True
        with res have "bits m ! (i div 8) = 0xff" by simp
        then have "\<forall>n < 8. bit (bits m ! (i div 8)) n" by (simp add: u8_all_ones_iff)
        then show ?thesis by (simp add: used_def)
      next
        case False
        with i sb have eq: "i div 8 = j" by linarith
        with i have "i mod 8 < ?b" by (metis div_mult_mod_eq nat_add_left_cancel_less)
        with sb eq show ?thesis by (simp add: used_def)
      qed
    qed
  qed
qed

lemma run_free_one: "run_free m s 1 \<longleftrightarrow> \<not> used m s"
  by (auto simp: run_free_def)

lemma bitmap_scan_result:
  assumes wf: "wf_bitmap m" and k: "k < btmp_bytes_len m * 8" "\<not> used m k" and cnt: "0 < cnt"
  defines "limit \<equiv> (if cnt = 1 then btmp_bytes_len m * 8 else btmp_bytes_len m * 8 + 1)"
  shows "(\<exists>s. bitmap_scan m cnt = Inr (int s) \<and> s + cnt \<le> limit \<and> run_free m s cnt
             \<and> (\<forall>t < s. \<not> run_free m t cnt) \<and> backed m (s + cnt - 1))
    \<or> (bitmap_scan m cnt = Inr (- 1) \<and> (\<forall>t. t + cnt \<le> limit \<longrightarrow> \<not> run_free m t cnt))
    \<or> (bitmap_scan m cnt = Inl Out_of_bounds \<and> \<not> backed m (limit - 1))"
proof -
  obtain j where j: "scan_bytes (bits m) (btmp_bytes_len m) 0 = Inr j" "j < btmp_bytes_len m"
    and free: "\<not> used m (j * 8 + scan_bit (bits m ! j) 0)"
    and lt: "j * 8 + scan_bit (bits m ! j) 0 < btmp_bytes_len m * 8"
    and below: "\<forall>i < j * 8 + scan_bit (bits m ! j) 0. used m i"
    by (rule first_clear_bit [OF wf k])
  let ?s = "j * 8 + scan_bit (bits m ! j) 0"
  have jl: "j < length (bits m)" using j(2) wf by (simp add: wf_bitmap_def)
  show ?thesis
  proof (cases "cnt = 1")
    case True
    have "bitmap_scan m cnt = Inr (int ?s)" using j jl True by (simp add: bitmap_scan_def)
    moreover have "\<forall>t < ?s. \<not> run_free m t cnt" "run_free m ?s cnt"
      unfolding True run_free_one using below free by blast+
    ultimately show ?thesis
      using True lt wf_backed [OF wf lt] by (intro disjI1 exI [of _ ?s]) (simp add: limit_def)
  next
    case False
    let ?left = "btmp_bytes_len m * 8 - ?s"
    have eq: "bitmap_scan m cnt = scan_run m cnt ?left (?s + 1) 1"
      using j jl False by (simp add: bitmap_scan_def Let_def)
    have "\<forall>t. t + cnt \<le> ?s + 1 \<longrightarrow> \<not> run_free m t cnt"
    proof (intro allI impI)
      fix t assume "t + cnt \<le> ?s + 1"
      with False cnt have t: "t < ?s" by linarith
      with below show "\<not> run_free m t cnt" using run_blocked [of m t t cnt] cnt by simp
    qed
    moreover have "1 = ?s + 1 \<or> used m (?s + 1 - 1 - 1)" using below by (cases "?s = 0") auto
    ultimately have "(\<exists>s. scan_run m cnt ?left (?s + 1) 1 = Inr (int s)
          \<and> s + cnt \<le> ?s + 1 + ?left \<and> run_free m s cnt
          \<and> (\<forall>t < s. \<not> run_free m t cnt) \<and> backed m (s + cnt - 1))
        \<or> (scan_run m cnt ?left (?s + 1) 1 = Inr (- 1)
          \<and> (\<forall>t. t + cnt \<le> ?s + 1 + ?left \<longrightarrow> \<not> run_free m t cnt))
        \<or> (scan_run m cnt ?left (?s + 1) 1 = Inl Out_of_bounds
          \<and> \<not> backed m (?s + 1 + ?left - 1))"
      using False cnt free by (intro scan_run_result) (simp_all add: run_free_def)
    moreover have e: "?s + 1 + ?left = limit" using lt False by (simp add: limit_def)
    ultimately show ?thesis unfolding eq e by blast
  qed
qed

lemma bitmap_scan_full:
  assumes "wf_bitmap m" and "\<forall>k < btmp_bytes_len m * 8. used m k"
  shows "bitmap_scan m cnt
    = Inl (if backed m (btmp_bytes_len m * 8) then Assertion else Out_of_bounds)"
proof -
  have "bits m ! k = 0xff" if "k < btmp_bytes_len m" for k
  proof -
    have "bit (bits m ! k) n" if "n < 8" for n
      using assms(2)[rule_format, of "k * 8 + n"] \<open>k < _\<close> that by (simp add: used_def)
    then show ?thesis by (simp add: u8_all_ones_iff)
  qed
  then have "scan_bytes (bits m) (btmp_bytes_len m) 0
      = (if btmp_bytes_len m < length (bits m) then Inr (btmp_bytes_len m) else Inl Out_of_bounds)"
    using assms(1) by (intro scan_bytes_full) (auto simp: wf_bitmap_def)
  then show ?thesis by (simp add: bitmap_scan_def backed_def)
qed

section \<open>What the operations promise\<close>

text \<open>
  C34. On a bitmap with a clear bit, \<^verbatim>\<open>bitmap_scan\<close> is a first-fit search: it returns the least start of a run of \<open>cnt\<close> clear
  bits, and -1 when there is none. (Without a clear bit an assertion fails, see below.) The range it searches is the bitmap for one bit, and one bit more than the bitmap for
  longer runs: the loop tests the bit after the last one, so for these that bit is required to be readable.
\<close>

theorem bitmap_scan_first_fit:
  assumes "wf_bitmap m" and "\<exists>k < btmp_bytes_len m * 8. \<not> used m k" and "0 < cnt"
    and "cnt = 1 \<or> backed m (btmp_bytes_len m * 8)"
  shows "bitmap_scan m cnt
    = Inr (first_fit m cnt (btmp_bytes_len m * 8 + (if cnt = 1 then 0 else 1)))"
proof -
  from assms(2) obtain k where k: "k < btmp_bytes_len m * 8" "\<not> used m k" by blast
  have "backed m (btmp_bytes_len m * 8 - 1)"
    using wf_backed [OF assms(1), of "btmp_bytes_len m * 8 - 1"] k(1) by simp
  with assms(4) bitmap_scan_result [OF assms(1) k assms(3)] show ?thesis
    by (auto simp: first_fit_SomeI first_fit_NoneI split: if_splits)
qed

lemma bitmap_scan_first_fit_witness:
  "bitmap_scan \<lparr>btmp_bytes_len = 1, bits = [0x27, 0]\<rparr> 3
    = Inr (first_fit \<lparr>btmp_bytes_len = 1, bits = [0x27, 0]\<rparr> 3 9)"
proof -
  let ?m = "\<lparr>btmp_bytes_len = 1, bits = [0x27, 0]\<rparr>"
  have "wf_bitmap ?m" "\<exists>k < btmp_bytes_len ?m * 8. \<not> used ?m k" "backed ?m (btmp_bytes_len ?m * 8)"
    by (auto simp: wf_bitmap_def used_def backed_def intro!: exI [of _ 3])
  then show ?thesis using bitmap_scan_first_fit [of ?m 3] by simp
qed

text \<open>
  Whatever start \<^verbatim>\<open>bitmap_scan\<close> returns, the whole run is clear, and it lies inside the
  bitmap unless the bit after the bitmap can be read and is clear.
\<close>

theorem bitmap_scan_sound:
  assumes "wf_bitmap m" and "bitmap_scan m cnt = Inr r" and "r \<noteq> - 1" and "0 < cnt"
  shows "0 \<le> r \<and> run_free m (nat r) cnt
    \<and> (nat r + cnt \<le> btmp_bytes_len m * 8
       \<or> nat r + cnt = btmp_bytes_len m * 8 + 1 \<and> 1 < cnt
         \<and> backed m (btmp_bytes_len m * 8) \<and> \<not> used m (btmp_bytes_len m * 8))"
proof -
  obtain k where k: "k < btmp_bytes_len m * 8" "\<not> used m k"
    using bitmap_scan_full [OF assms(1), of cnt] assms(2) by fastforce
  from bitmap_scan_result [OF assms(1) k assms(4)] assms(2,3) obtain s where
    s: "r = int s" "run_free m s cnt" "backed m (s + cnt - 1)"
    and le: "s + cnt \<le> (if cnt = 1 then btmp_bytes_len m * 8 else btmp_bytes_len m * 8 + 1)"
    by auto
  have "\<not> used m (s + (cnt - 1))" using s(2) [unfolded run_free_def, rule_format, of "cnt - 1"] assms(4) by simp
  show ?thesis
  proof (cases "s + cnt \<le> btmp_bytes_len m * 8")
    case True
    with s show ?thesis by simp
  next
    case False
    with le have "s + cnt - 1 = btmp_bytes_len m * 8" "1 < cnt" using assms(4) by (auto split: if_splits)
    with s \<open>\<not> used m (s + (cnt - 1))\<close> assms(4) show ?thesis by auto
  qed
qed

lemma bitmap_scan_sound_witness:
  "run_free \<lparr>btmp_bytes_len = 1, bits = [0x27]\<rparr> 3 2"
proof -
  let ?m = "\<lparr>btmp_bytes_len = 1, bits = [0x27]\<rparr>"
  have "bitmap_scan ?m 2 = Inr 3" by code_simp
  moreover have "wf_bitmap ?m" by (simp add: wf_bitmap_def)
  ultimately show ?thesis using bitmap_scan_sound [of ?m 2 3] by simp
qed

text \<open>
  The search over-runs the bitmap by one bit: on a bitmap of one byte whose last bit only is
  free, a search for two bits succeeds with a run whose second bit is not of the bitmap.
\<close>

theorem bitmap_scan_overrun:
  "bitmap_scan \<lparr>btmp_bytes_len = 1, bits = [0x7f, 0x00]\<rparr> 2 = Inr 7"
  by code_simp

text \<open>
  C35. A full bitmap never yields -1: the search ends in the failed \<^verbatim>\<open>ASSERT\<close>, or has read past
  the memory of the bitmap where nothing follows it.
\<close>

theorem bitmap_scan_full_panics:
  assumes "wf_bitmap m" and "\<forall>k < btmp_bytes_len m * 8. used m k"
  shows "bitmap_scan m cnt
    = Inl (if backed m (btmp_bytes_len m * 8) then Assertion else Out_of_bounds)"
  by (rule bitmap_scan_full [OF assms])

lemma bitmap_scan_full_panics_witness:
  "bitmap_scan \<lparr>btmp_bytes_len = 1, bits = [0xff, 0x00]\<rparr> 1 = Inl Assertion"
proof -
  have "\<forall>k < 8. used \<lparr>btmp_bytes_len = 1, bits = [0xff, 0x00]\<rparr> k"
    using u8_all_ones_iff [of 255] by (simp add: used_def)
  then show ?thesis
    using bitmap_scan_full_panics [of "\<lparr>btmp_bytes_len = 1, bits = [0xff, 0x00]\<rparr>" 1]
    by (simp add: wf_bitmap_def backed_def)
qed

section \<open>Setting bits\<close>

lemma bitmap_set_backed:
  assumes "backed m i" and "v = 0 \<or> v = 1"
  shows "\<exists>m'. bitmap_set m i v = Inr m' \<and> btmp_bytes_len m' = btmp_bytes_len m
    \<and> length (bits m') = length (bits m) \<and> (\<forall>j. used m' j = (if j = i then v = 1 else used m j))"
proof -
  let ?b = "bits m ! (i div 8)"
  let ?b' = "if v \<noteq> 0 then ?b OR push_bit (i mod 8) 1 else ?b AND NOT (push_bit (i mod 8) 1)"
  have bit: "bit ?b' n = (if n = i mod 8 then v = 1 else bit ?b n)" if "n < 8" for n
    using that assms(2)
    by (auto simp: bit_or_iff bit_and_iff bit_not_iff bit_push_bit_iff bit_1_iff
        simp del: push_bit_of_1)
  let ?m' = "m\<lparr>bits := (bits m)[i div 8 := ?b']\<rparr>"
  have "bitmap_set m i v = Inr ?m'"
    using assms by (simp add: bitmap_set_def Let_def backed_def del: push_bit_of_1)
  moreover have "used ?m' j = (if j = i then v = 1 else used m j)" for j
  proof (cases "j div 8 = i div 8")
    case True
    moreover have "j mod 8 = i mod 8 \<longleftrightarrow> j = i"
      using True by (metis div_mult_mod_eq)
    ultimately show ?thesis
      using bit [of "j mod 8"] assms(1) by (auto simp: used_def backed_def)
  next
    case False
    then show ?thesis by (auto simp: used_def)
  qed
  ultimately show ?thesis by (intro exI [of _ ?m']) simp
qed

text \<open>Setting a range of bits one by one, as \<^verbatim>\<open>vaddr_get\<close> and \<^verbatim>\<open>vaddr_remove\<close> do.\<close>

lemma bitmap_set_range_backed:
  assumes "n = 0 \<or> backed m (s + n - 1)" and "v = 0 \<or> v = 1"
  shows "\<exists>m'. bitmap_set_range m s n v = Inr m' \<and> btmp_bytes_len m' = btmp_bytes_len m
    \<and> length (bits m') = length (bits m)
    \<and> (\<forall>j. used m' j = (if s \<le> j \<and> j < s + n then v = 1 else used m j))"
  using assms
proof (induction n arbitrary: m s)
  case 0
  then show ?case by auto
next
  case (Suc n)
  have "backed m s" using Suc.prems(1) backed_mono by fastforce
  then obtain m1 where m1: "bitmap_set m s v = Inr m1" "btmp_bytes_len m1 = btmp_bytes_len m"
    "length (bits m1) = length (bits m)" "\<forall>j. used m1 j = (if j = s then v = 1 else used m j)"
    using bitmap_set_backed [OF _ Suc.prems(2)] by blast
  have "n = 0 \<or> backed m1 (Suc s + n - 1)" using Suc.prems(1) m1(3) by (auto simp: backed_def)
  from Suc.IH [OF this Suc.prems(2)] m1 show ?case
    by (auto simp: Suc_le_eq le_less)
qed

text \<open>Reading a bit back after \<^verbatim>\<open>bitmap_set\<close>: the written value, every other bit as before.\<close>

theorem bitmap_set_test:
  assumes "bitmap_set m i v = Inr m'" and "backed m j"
  shows "bitmap_scan_test m' j = Inr (if j = i then v = 1 else used m j)"
proof -
  from assms(1) have "v = 0 \<or> v = 1" and "backed m i"
    by (auto simp: bitmap_set_def Let_def rbind_Inr_iff aread_Inr_iff backed_def)
  with bitmap_set_backed [of m i v] assms show ?thesis by (auto simp: backed_def)
qed

lemma bitmap_set_test_witness:
  "bitmap_scan_test \<lparr>btmp_bytes_len = 2, bits = [0, 4]\<rparr> 10 = Inr True"
proof -
  have "bitmap_set \<lparr>btmp_bytes_len = 2, bits = [0, 0]\<rparr> 10 1
      = Inr \<lparr>btmp_bytes_len = 2, bits = [0, 4]\<rparr>"
    by code_simp
  from bitmap_set_test [OF this, of 10] show ?thesis by (simp add: backed_def)
qed

end
