(* ===== verification/Interrupt.thy ===== *)
theory Interrupt
  imports Prelude
begin

text \<open>
  The interrupt flag, \<^verbatim>\<open>kernel/interrupt.c\<close>: \<^verbatim>\<open>intr_enable\<close>, \<^verbatim>\<open>intr_disable\<close>,
  \<^verbatim>\<open>intr_set_status\<close>, \<^verbatim>\<open>intr_get_status\<close>, over the one bit of EFLAGS they read and write
  (\<^verbatim>\<open>sti\<close> sets it, \<^verbatim>\<open>cli\<close> clears it); and the tables of interrupt gates and handlers.

  The record is the root of the kernel's state: the other components extend it.
\<close>

section \<open>The interrupt flag\<close>

record cpu =
  eflags_if :: bool

datatype intr_status = INTR_OFF | INTR_ON

definition intr_get_status :: "'a cpu_scheme \<Rightarrow> intr_status" where
  "intr_get_status s = (if eflags_if s then INTR_ON else INTR_OFF)"

definition intr_enable :: "'a cpu_scheme \<Rightarrow> intr_status \<times> 'a cpu_scheme" where
  "intr_enable s =
     (if INTR_ON = intr_get_status s then (INTR_ON, s)
      else (INTR_OFF, s\<lparr>eflags_if := True\<rparr>))"

definition intr_disable :: "'a cpu_scheme \<Rightarrow> intr_status \<times> 'a cpu_scheme" where
  "intr_disable s =
     (if INTR_ON = intr_get_status s then (INTR_ON, s\<lparr>eflags_if := False\<rparr>)
      else (INTR_OFF, s))"

definition intr_set_status :: "intr_status \<Rightarrow> 'a cpu_scheme \<Rightarrow> intr_status \<times> 'a cpu_scheme" where
  "intr_set_status st s = (if st = INTR_ON then intr_enable s else intr_disable s)"

lemma intr_get_status_iff [simp]:
  "intr_get_status s = INTR_ON \<longleftrightarrow> eflags_if s"
  "INTR_ON = intr_get_status s \<longleftrightarrow> eflags_if s"
  "intr_get_status s = INTR_OFF \<longleftrightarrow> \<not> eflags_if s"
  by (simp_all add: intr_get_status_def)

lemma intr_enable_eq: "intr_enable s = (intr_get_status s, s\<lparr>eflags_if := True\<rparr>)"
  by (cases s) (simp add: intr_enable_def intr_get_status_def)

lemma intr_disable_eq: "intr_disable s = (intr_get_status s, s\<lparr>eflags_if := False\<rparr>)"
  by (cases s) (simp add: intr_disable_def intr_get_status_def)

lemma intr_set_status_eq:
  "intr_set_status st s = (intr_get_status s, s\<lparr>eflags_if := (st = INTR_ON)\<rparr>)"
  by (cases st) (simp_all add: intr_set_status_def intr_enable_eq intr_disable_eq)

lemmas intr_eqs = intr_enable_eq intr_disable_eq intr_set_status_eq

text \<open>A critical section: the status that was saved comes back.\<close>

lemma intr_restore: "eflags_if (snd (intr_set_status (intr_get_status s) t)) = eflags_if s"
  by (simp add: intr_set_status_eq intr_get_status_def)

section \<open>The interrupt descriptor table\<close>

record gate_desc =
  func_offset_low_word :: u16
  selector :: u16
  dcount :: u8
  attribute :: u8
  func_offset_high_word :: u16

definition SELECTOR_K_CODE :: u16 where
  "SELECTOR_K_CODE = push_bit 3 1 + push_bit 2 0 + 0"

definition make_idt_desc :: "u8 \<Rightarrow> u32 \<Rightarrow> gate_desc" where
  "make_idt_desc attr handler =
     \<lparr>func_offset_low_word = ucast (handler AND 0x0000FFFF),
      selector = SELECTOR_K_CODE, dcount = 0, attribute = attr,
      func_offset_high_word = ucast (drop_bit 16 (handler AND 0xFFFF0000))\<rparr>"

text \<open>The address the processor jumps to for a gate: the two halves put together.\<close>

definition gate_offset :: "gate_desc \<Rightarrow> u32" where
  "gate_offset g = push_bit 16 (ucast (func_offset_high_word g)) OR ucast (func_offset_low_word g)"

definition IDT_DESC_CNT :: nat where "IDT_DESC_CNT = 0x81"
definition IDT_DESC_ATTR_DPL0 :: u8 where
  "IDT_DESC_ATTR_DPL0 = push_bit 7 1 + push_bit 5 0 + 0xE"
definition IDT_DESC_ATTR_DPL3 :: u8 where
  "IDT_DESC_ATTR_DPL3 = push_bit 7 1 + push_bit 5 3 + 0xE"

text \<open>
  \<^verbatim>\<open>idt_desc_init\<close>: a gate for every entry of \<^verbatim>\<open>intr_entry_table\<close>, then the last one over
  again for \<^verbatim>\<open>syscall_handler\<close>, callable from privilege level 3.
\<close>

definition idt_desc_init :: "(nat \<Rightarrow> u32) \<Rightarrow> u32 \<Rightarrow> gate_desc list" where
  "idt_desc_init intr_entry_table syscall_handler =
     (map (\<lambda>i. make_idt_desc IDT_DESC_ATTR_DPL0 (intr_entry_table i)) [0..<IDT_DESC_CNT])
       [IDT_DESC_CNT - 1 := make_idt_desc IDT_DESC_ATTR_DPL3 syscall_handler]"

text \<open>\<^verbatim>\<open>register_handler\<close>: an index past the table is an access out of bounds.\<close>

definition register_handler :: "'h list \<Rightarrow> nat \<Rightarrow> 'h \<Rightarrow> 'h list res" where
  "register_handler idt_table vector_no handler = awrite idt_table vector_no handler"

lemma gate_offset_make [simp]: "gate_offset (make_idt_desc attr f) = f"
  by (rule bit_word_eqI)
     (auto simp: gate_offset_def make_idt_desc_def u32_masks word_bit_simps)

end
