(* ===== verification/Klist.thy ===== *)
theory Klist
  imports Interrupt
begin

text \<open>
  \<^verbatim>\<open>lib/kernel/list.c\<close>: the intrusive doubly linked lists that hold the ready queue, the thread
  list, the waiters of semaphores, the free memory blocks, the partitions and the open inodes.

  The nodes are \<^verbatim>\<open>struct list_elem\<close> objects anywhere in memory, so the model keeps the memory of
  all \<open>prev\<close> and \<open>next\<close> fields as two functions on addresses (address 0 is mapped in the
  kernel: an access through NULL does not trap). A \<^verbatim>\<open>struct list\<close> at address \<open>l\<close> has its
  \<^verbatim>\<open>head\<close> at \<open>l\<close> and its \<^verbatim>\<open>tail\<close> at \<open>l + 8\<close>. Loops follow \<open>next\<close> fields, which may run in
  a circle, so they are partial functions and not returning is \<open>None\<close>.

  The section on the abstraction relates a list in memory to a HOL list of node addresses
  (\<open>dlist\<close>), and shows each operation as the list operation it stands for, with a frame rule
  for every other list. The locale at the end states this contract once for the clients.
\<close>

section \<open>The code\<close>

record mem = cpu +
  prv :: "u32 \<Rightarrow> u32"
  nxt :: "u32 \<Rightarrow> u32"

abbreviation tail_of :: "u32 \<Rightarrow> u32" where
  "tail_of l \<equiv> l + 8"

definition list_init :: "u32 \<Rightarrow> 'a mem_scheme \<Rightarrow> 'a mem_scheme" where
  "list_init l s =
     s\<lparr>prv := (prv s)(l := 0, tail_of l := l), nxt := (nxt s)(l := tail_of l, tail_of l := 0)\<rparr>"

definition list_insert_before :: "u32 \<Rightarrow> u32 \<Rightarrow> 'a mem_scheme \<Rightarrow> 'a mem_scheme" where
  "list_insert_before before elem s0 =
     (let (old_status, s) = intr_disable s0;
          s = s\<lparr>nxt := (nxt s)(prv s before := elem)\<rparr>;
          s = s\<lparr>prv := (prv s)(elem := prv s before)\<rparr>;
          s = s\<lparr>nxt := (nxt s)(elem := before)\<rparr>;
          s = s\<lparr>prv := (prv s)(before := elem)\<rparr>
      in snd (intr_set_status old_status s))"

definition list_push :: "u32 \<Rightarrow> u32 \<Rightarrow> 'a mem_scheme \<Rightarrow> 'a mem_scheme" where
  "list_push plist elem s = list_insert_before (nxt s plist) elem s"

definition list_append :: "u32 \<Rightarrow> u32 \<Rightarrow> 'a mem_scheme \<Rightarrow> 'a mem_scheme" where
  "list_append plist elem s = list_insert_before (tail_of plist) elem s"

definition list_remove :: "u32 \<Rightarrow> 'a mem_scheme \<Rightarrow> 'a mem_scheme" where
  "list_remove pelem s0 =
     (let (old_status, s) = intr_disable s0;
          s = s\<lparr>nxt := (nxt s)(prv s pelem := nxt s pelem)\<rparr>;
          s = s\<lparr>prv := (prv s)(nxt s pelem := prv s pelem)\<rparr>
      in snd (intr_set_status old_status s))"

definition list_pop :: "u32 \<Rightarrow> 'a mem_scheme \<Rightarrow> u32 \<times> 'a mem_scheme" where
  "list_pop plist s = (let elem = nxt s plist in (elem, list_remove elem s))"

partial_function (option) elem_find_from :: "(u32 \<Rightarrow> u32) \<Rightarrow> u32 \<Rightarrow> u32 \<Rightarrow> u32 \<Rightarrow> bool option" where
  "elem_find_from nx stop obj_elem elem =
     (if elem \<noteq> stop
      then if elem = obj_elem then Some True else elem_find_from nx stop obj_elem (nx elem)
      else Some False)"

definition elem_find :: "u32 \<Rightarrow> u32 \<Rightarrow> 'a mem_scheme \<Rightarrow> bool res" where
  "elem_find plist obj_elem s = ends (elem_find_from (nxt s) (tail_of plist) obj_elem (nxt s plist))"

definition list_empty :: "u32 \<Rightarrow> 'a mem_scheme \<Rightarrow> bool" where
  "list_empty plist s \<longleftrightarrow> nxt s plist = tail_of plist"

text \<open>\<^verbatim>\<open>list_traversal\<close>: the callback may change the state; NULL is 0.\<close>

partial_function (option) list_traversal_from ::
  "(u32 \<Rightarrow> 'a mem_scheme \<Rightarrow> bool \<times> 'a mem_scheme) \<Rightarrow> u32 \<Rightarrow> u32 \<Rightarrow> 'a mem_scheme
    \<Rightarrow> (u32 \<times> 'a mem_scheme) option" where
  "list_traversal_from func stop elem s =
     (if elem \<noteq> stop
      then let (b, s') = func elem s
           in if b then Some (elem, s') else list_traversal_from func stop (nxt s' elem) s'
      else Some (0, s))"

definition list_traversal ::
  "u32 \<Rightarrow> (u32 \<Rightarrow> 'a mem_scheme \<Rightarrow> bool \<times> 'a mem_scheme) \<Rightarrow> 'a mem_scheme
    \<Rightarrow> (u32 \<times> 'a mem_scheme) res" where
  "list_traversal plist func s =
     (if list_empty plist s then Inr (0, s)
      else ends (list_traversal_from func (tail_of plist) (nxt s plist) s))"

partial_function (option) list_len_from :: "(u32 \<Rightarrow> u32) \<Rightarrow> u32 \<Rightarrow> u32 \<Rightarrow> u32 \<Rightarrow> u32 option" where
  "list_len_from nx stop elem len =
     (if elem \<noteq> stop then list_len_from nx stop (nx elem) (len + 1) else Some len)"

definition list_len :: "u32 \<Rightarrow> 'a mem_scheme \<Rightarrow> u32 res" where
  "list_len plist s = ends (list_len_from (nxt s) (tail_of plist) (nxt s plist) 0)"

section \<open>Closed forms\<close>

lemma list_insert_before_eq:
  "list_insert_before before elem s =
     s\<lparr>prv := (prv s)(elem := prv s before, before := elem),
       nxt := (nxt s)(prv s before := elem, elem := before)\<rparr>"
  by (simp add: list_insert_before_def intr_eqs Let_def)

lemma list_remove_eq:
  "list_remove e s =
     s\<lparr>nxt := (nxt s)(prv s e := nxt s e),
       prv := (prv s)(nxt s e := prv s e)\<rparr>"
  by (simp add: list_remove_def intr_eqs Let_def)

lemmas list_op_eqs = list_push_def list_append_def list_insert_before_eq list_pop_def
  list_remove_eq Let_def

lemma list_op_fields [simp]:
  "eflags_if (list_insert_before b e s) = eflags_if s"
  "eflags_if (list_push l e s) = eflags_if s"
  "eflags_if (list_append l e s) = eflags_if s"
  "eflags_if (list_remove e s) = eflags_if s"
  "eflags_if (snd (list_pop l s)) = eflags_if s"
  "mem.more (list_insert_before b e s) = mem.more s"
  "mem.more (list_push l e s) = mem.more s"
  "mem.more (list_append l e s) = mem.more s"
  "mem.more (list_remove e s) = mem.more s"
  "mem.more (snd (list_pop l s)) = mem.more s"
  by (simp_all add: list_op_eqs)

section \<open>The abstraction: a list in memory and the HOL list of its nodes\<close>

fun linked :: "(u32 \<Rightarrow> u32) \<Rightarrow> (u32 \<Rightarrow> u32) \<Rightarrow> u32 list \<Rightarrow> bool" where
  "linked nx pv (a # b # r) = (nx a = b \<and> pv b = a \<and> linked nx pv (b # r))"
| "linked nx pv _ = True"

definition cells :: "u32 \<Rightarrow> u32 list \<Rightarrow> u32 list" where
  "cells l xs = l # xs @ [tail_of l]"

definition dlist :: "'a mem_scheme \<Rightarrow> u32 \<Rightarrow> u32 list \<Rightarrow> bool" where
  "dlist s l xs \<longleftrightarrow> linked (nxt s) (prv s) (cells l xs) \<and> distinct (cells l xs)"

lemma linked_append:
  "linked nx pv (xs @ a # ys) \<longleftrightarrow> linked nx pv (xs @ [a]) \<and> linked nx pv (a # ys)"
  by (induction nx pv xs rule: linked.induct) auto

lemma linked_cong:
  assumes "\<And>x. x \<in> set (butlast xs) \<Longrightarrow> nx' x = nx x" and "\<And>x. x \<in> set (List.tl xs) \<Longrightarrow> pv' x = pv x"
  shows "linked nx' pv' xs = linked nx pv xs"
  using assms by (induction nx pv xs rule: linked.induct) auto

text \<open>Between two neighbours \<open>a\<close> and \<open>b\<close>: inserting a fresh node, removing the one there.\<close>

lemma linked_insert:
  assumes "linked nx pv (xs @ a # b # ys)" and "distinct (xs @ a # b # ys)"
    and "e \<notin> set (xs @ a # b # ys)"
  shows "linked (nx(a := e, e := b)) (pv(e := a, b := e)) (xs @ a # e # b # ys)"
proof -
  have "linked nx pv (xs @ [a])" "linked nx pv (b # ys)"
    using assms(1) linked_append [of nx pv xs a "b # ys"] by simp_all
  moreover have "linked (nx(a := e, e := b)) (pv(e := a, b := e)) (xs @ [a]) = linked nx pv (xs @ [a])"
    using assms(2,3) by (intro linked_cong) (auto simp: tl_append split: list.splits)
  moreover have "linked (nx(a := e, e := b)) (pv(e := a, b := e)) (b # ys) = linked nx pv (b # ys)"
    using assms(2,3) by (intro linked_cong) (auto dest: in_set_butlastD split: if_splits)
  ultimately show ?thesis
    using assms(2,3) linked_append [of "nx(a := e, e := b)" "pv(e := a, b := e)" xs a "e # b # ys"] by auto
qed

lemma linked_unlink:
  assumes "linked nx pv (xs @ a # e # b # ys)" and "distinct (xs @ a # e # b # ys)"
  shows "linked (nx(a := b)) (pv(b := a)) (xs @ a # b # ys)"
proof -
  have "linked nx pv (xs @ [a])" "linked nx pv (b # ys)"
    using assms(1) linked_append [of nx pv xs a "e # b # ys"] by simp_all
  moreover have "linked (nx(a := b)) (pv(b := a)) (xs @ [a]) = linked nx pv (xs @ [a])"
    using assms(2) by (intro linked_cong) (auto simp: tl_append split: list.splits)
  moreover have "linked (nx(a := b)) (pv(b := a)) (b # ys) = linked nx pv (b # ys)"
    using assms(2) by (intro linked_cong) (auto dest: in_set_butlastD split: if_splits)
  ultimately show ?thesis
    using assms(2) linked_append [of "nx(a := b)" "pv(b := a)" xs a "b # ys"] by auto
qed

lemma linked_neighbours:
  "linked nx pv (xs @ a # b # ys) \<Longrightarrow> nx a = b \<and> pv b = a"
  using linked_append [of nx pv xs a "b # ys"] by simp

text \<open>A node of the list, with its neighbours.\<close>

lemma cells_split:
  assumes "e \<in> set (xs @ [tail_of l])"
  obtains ys a zs where "cells l xs = ys @ a # e # zs"
proof -
  from assms obtain us vs where uv: "xs @ [tail_of l] = us @ e # vs" by (metis split_list)
  then have c: "cells l xs = (l # us) @ e # vs" by (simp add: cells_def)
  have "l # us = butlast (l # us) @ [last (l # us)]" by simp
  with c show thesis using that [of "butlast (l # us)" "last (l # us)" vs]
    by (metis append.assoc append_Cons append_Nil)
qed

lemma dlist_insert_before:
  assumes d: "dlist s l (xs @ ys)" and e: "e \<notin> set (cells l (xs @ ys))"
  shows "dlist (list_insert_before (hd (ys @ [tail_of l])) e s) l (xs @ e # ys)"
proof -
  let ?b = "hd (ys @ [tail_of l])"
  obtain zs where zs: "ys @ [tail_of l] = ?b # zs" by (cases ys) auto
  obtain us a where us: "l # xs = us @ [a]" by (metis append_butlast_last_id list.distinct(1))
  have c: "cells l (xs @ ys) = us @ a # ?b # zs"
    unfolding cells_def using us zs by (metis append.assoc append_Cons append_Nil)
  have c': "cells l (xs @ e # ys) = us @ a # e # ?b # zs"
    unfolding cells_def using us zs by (metis append.assoc append_Cons append_Nil)
  from d have lk: "linked (nxt s) (prv s) (us @ a # ?b # zs)" and ds: "distinct (us @ a # ?b # zs)"
    unfolding dlist_def c by simp_all
  have pb: "prv s ?b = a" using linked_neighbours [OF lk] by simp
  have "linked ((nxt s)(a := e, e := ?b)) ((prv s)(e := a, ?b := e)) (us @ a # e # ?b # zs)"
    by (rule linked_insert [OF lk ds]) (use e in \<open>simp add: c\<close>)
  then show ?thesis
    using ds e unfolding dlist_def list_insert_before_eq c c' pb by auto
qed

lemma dlist_append:
  "dlist s l xs \<Longrightarrow> e \<notin> set (cells l xs) \<Longrightarrow> dlist (list_append l e s) l (xs @ [e])"
  using dlist_insert_before [of s l xs "[]" e] by (simp add: list_append_def)

lemma dlist_first: "dlist s l xs \<Longrightarrow> nxt s l = hd (xs @ [tail_of l])"
  by (cases xs) (auto simp: dlist_def cells_def)

lemma dlist_push:
  "dlist s l xs \<Longrightarrow> e \<notin> set (cells l xs) \<Longrightarrow> dlist (list_push l e s) l (e # xs)"
  using dlist_insert_before [of s l "[]" xs e] by (simp add: list_push_def dlist_first)

lemma dlist_remove:
  assumes d: "dlist s l (xs @ e # ys)"
  shows "dlist (list_remove e s) l (xs @ ys)"
proof -
  obtain b zs where zs: "ys @ [tail_of l] = b # zs" by (cases ys) auto
  obtain us a where us: "l # xs = us @ [a]" by (metis append_butlast_last_id list.distinct(1))
  have c: "cells l (xs @ e # ys) = us @ a # e # b # zs"
    unfolding cells_def using us zs by (metis append.assoc append_Cons append_Nil)
  have c': "cells l (xs @ ys) = us @ a # b # zs"
    unfolding cells_def using us zs by (metis append.assoc append_Cons append_Nil)
  from d have lk: "linked (nxt s) (prv s) (us @ a # e # b # zs)" and ds: "distinct (us @ a # e # b # zs)"
    unfolding dlist_def c by simp_all
  have "prv s e = a" "nxt s e = b"
    using linked_neighbours [OF lk] linked_neighbours [of _ _ "us @ [a]" e b zs] lk by simp_all
  then show ?thesis
    using linked_unlink [OF lk ds] ds unfolding dlist_def list_remove_eq c' by auto
qed

lemma dlist_pop:
  assumes "dlist s l (x # xs)"
  shows "fst (list_pop l s) = x \<and> dlist (snd (list_pop l s)) l xs"
  using assms dlist_remove [of s l "[]" x xs] dlist_first [OF assms] by (simp add: list_pop_def Let_def)

lemma dlist_distinct: "dlist s l xs \<Longrightarrow> distinct (cells l xs)"
  by (simp add: dlist_def)

lemma dlist_init: "dlist (list_init l s) l []"
  by (simp add: dlist_def cells_def list_init_def)

lemma set_cells: "set (cells l xs) = insert l (insert (tail_of l) (set xs))"
  by (auto simp: cells_def)

lemma dlist_empty: "dlist s l xs \<Longrightarrow> list_empty l s \<longleftrightarrow> xs = []"
  by (cases xs) (auto simp: list_empty_def dlist_first dlist_def cells_def)

text \<open>The neighbours of a node are nodes of its list.\<close>

lemma dlist_neighbours:
  assumes d: "dlist s l xs" and e: "e \<in> set (xs @ [tail_of l])"
  shows "prv s e \<in> set (cells l xs) \<and> nxt s (prv s e) = e"
proof -
  obtain ys a zs where c: "cells l xs = ys @ a # e # zs" by (rule cells_split [OF e])
  with d have "linked (nxt s) (prv s) (ys @ a # e # zs)" by (simp add: dlist_def)
  from linked_neighbours [OF this] c show ?thesis by auto
qed

lemma dlist_next:
  assumes d: "dlist s l (xs @ e # ys)"
  shows "nxt s e = hd (ys @ [tail_of l])"
proof -
  obtain b zs where zs: "ys @ [tail_of l] = b # zs" by (cases ys) auto
  from d have "linked (nxt s) (prv s) ((l # xs) @ e # b # zs)"
    by (simp add: dlist_def cells_def flip: zs)
  from linked_neighbours [OF this] zs show ?thesis by simp
qed

lemma dlist_frame:
  assumes "\<And>x. x \<in> set (cells l xs) \<Longrightarrow> nxt s' x = nxt s x \<and> prv s' x = prv s x"
  shows "dlist s' l xs \<longleftrightarrow> dlist s l xs"
proof -
  have "linked (nxt s') (prv s') (cells l xs) = linked (nxt s) (prv s) (cells l xs)"
    by (rule linked_cong) (use assms in \<open>auto simp: cells_def dest: in_set_butlastD\<close>)
  then show ?thesis by (simp add: dlist_def)
qed

lemma dlist_insert_before_other:
  assumes "dlist s l xs" and "b \<in> set (xs @ [tail_of l])"
    and "set (cells l' ys) \<inter> insert e (set (cells l xs)) = {}"
  shows "dlist (list_insert_before b e s) l' ys \<longleftrightarrow> dlist s l' ys"
proof (rule dlist_frame)
  fix x assume "x \<in> set (cells l' ys)"
  moreover have "b \<in> set (cells l xs)" using assms(2) by (auto simp: set_cells)
  ultimately have "x \<noteq> e" "x \<noteq> b" "x \<noteq> prv s b"
    using assms(3) dlist_neighbours [OF assms(1,2)] by auto
  then show "nxt (list_insert_before b e s) x = nxt s x \<and> prv (list_insert_before b e s) x = prv s x"
    by (simp add: list_insert_before_eq)
qed

lemma dlist_append_other:
  "dlist s l xs \<Longrightarrow> set (cells l' ys) \<inter> insert e (set (cells l xs)) = {} \<Longrightarrow>
    dlist (list_append l e s) l' ys \<longleftrightarrow> dlist s l' ys"
  unfolding list_append_def by (rule dlist_insert_before_other) auto

lemma dlist_push_other:
  "dlist s l xs \<Longrightarrow> set (cells l' ys) \<inter> insert e (set (cells l xs)) = {} \<Longrightarrow>
    dlist (list_push l e s) l' ys \<longleftrightarrow> dlist s l' ys"
  unfolding list_push_def
  by (rule dlist_insert_before_other) (auto simp: dlist_first hd_append)

lemma dlist_remove_other:
  assumes d: "dlist s l xs" and e: "e \<in> set xs" and other: "set (cells l' ys) \<inter> set (cells l xs) = {}"
  shows "dlist (list_remove e s) l' ys \<longleftrightarrow> dlist s l' ys"
proof (rule dlist_frame)
  fix x assume x: "x \<in> set (cells l' ys)"
  from e obtain us vs where uv: "xs = us @ e # vs" by (metis split_list)
  with d have "nxt s e = hd (vs @ [tail_of l])" using dlist_next by blast
  then have "nxt s e \<in> set (cells l xs)" using uv by (cases vs) (auto simp: set_cells)
  with x other dlist_neighbours [OF d, of e] e have "x \<noteq> nxt s e" "x \<noteq> prv s e" by auto
  then show "nxt (list_remove e s) x = nxt s x \<and> prv (list_remove e s) x = prv s x"
    by (simp add: list_remove_eq)
qed

lemma dlist_pop_other:
  "dlist s l (x # xs) \<Longrightarrow> set (cells l' ys) \<inter> set (cells l (x # xs)) = {} \<Longrightarrow>
    dlist (snd (list_pop l s)) l' ys \<longleftrightarrow> dlist s l' ys"
  by (simp add: list_pop_def Let_def dlist_first) (rule dlist_remove_other; simp)

section \<open>The loops on a well-formed list\<close>

lemma dlist_Cons_next: "linked nx pv (x # ys @ [t]) \<Longrightarrow> nx x = hd (ys @ [t])"
  by (cases ys) auto

lemma elem_find_from_linked:
  assumes "linked nx pv (xs @ [t])" and "t \<notin> set xs"
  shows "elem_find_from nx t obj (hd (xs @ [t])) = Some (obj \<in> set xs)"
  using assms
proof (induction xs)
  case Nil
  then show ?case by (simp add: elem_find_from.simps)
next
  case (Cons x xs)
  then have "nx x = hd (xs @ [t])" "linked nx pv (xs @ [t])"
    using dlist_Cons_next [of nx pv x xs t] by (auto, cases xs, auto)
  with Cons show ?case by (subst elem_find_from.simps) auto
qed

lemma list_len_from_linked:
  assumes "linked nx pv (xs @ [t])" and "t \<notin> set xs"
  shows "list_len_from nx t (hd (xs @ [t])) n = Some (n + of_nat (length xs))"
  using assms
proof (induction xs arbitrary: n)
  case Nil
  then show ?case by (simp add: list_len_from.simps)
next
  case (Cons x xs)
  then have "nx x = hd (xs @ [t])" "linked nx pv (xs @ [t])"
    using dlist_Cons_next [of nx pv x xs t] by (auto, cases xs, auto)
  with Cons show ?case by (subst list_len_from.simps) (auto simp: algebra_simps)
qed

lemma dlist_suffix:
  assumes "dlist s l xs"
  shows "linked (nxt s) (prv s) (xs @ [tail_of l]) \<and> tail_of l \<notin> set xs
    \<and> nxt s l = hd (xs @ [tail_of l])"
proof -
  have "linked (nxt s) (prv s) (l # xs @ [tail_of l])" "distinct (l # xs @ [tail_of l])"
    using assms by (simp_all add: dlist_def cells_def)
  then show ?thesis using dlist_first [OF assms] by (cases xs) auto
qed

lemma dlist_elem_find: "dlist s l xs \<Longrightarrow> elem_find l e s = Inr (e \<in> set xs)"
  using dlist_suffix [of s l xs] elem_find_from_linked [of "nxt s" "prv s" xs "tail_of l" e]
  by (simp add: elem_find_def)

lemma dlist_list_len: "dlist s l xs \<Longrightarrow> list_len l s = Inr (of_nat (length xs))"
  using dlist_suffix [of s l xs] list_len_from_linked [of "nxt s" "prv s" xs "tail_of l" 0]
  by (simp add: list_len_def)

lemma list_traversal_from_linked:
  assumes "linked (nxt s) pv (xs @ [t])" and "t \<notin> set xs" and "\<And>e. func e s = (P e, s)"
  shows "list_traversal_from func t (hd (xs @ [t])) s
    = Some (case find P xs of None \<Rightarrow> 0 | Some e \<Rightarrow> e, s)"
  using assms
proof (induction xs)
  case Nil
  then show ?case by (simp add: list_traversal_from.simps)
next
  case (Cons x xs)
  then have "nxt s x = hd (xs @ [t])" "linked (nxt s) pv (xs @ [t])"
    using dlist_Cons_next [of "nxt s" pv x xs t] by (auto, cases xs, auto)
  with Cons show ?case by (subst list_traversal_from.simps) auto
qed

lemma dlist_list_traversal:
  assumes "dlist s l xs" and "\<And>e. func e s = (P e, s)"
  shows "list_traversal l func s = Inr (case find P xs of None \<Rightarrow> 0 | Some e \<Rightarrow> e, s)"
  using assms dlist_suffix [OF assms(1)] list_traversal_from_linked [of s "prv s" xs "tail_of l" func P]
  by (cases xs) (simp_all add: list_traversal_def dlist_empty)

section \<open>The contract of a queue of tags\<close>

text \<open>
  What the scheduler, the semaphores and the allocator rely on: a queue object in a store stands
  for a sequence of elements, and appending, pushing, popping and removing act on the sequence.
\<close>

locale tag_queue =
  fixes rep :: "'s \<Rightarrow> 'q \<Rightarrow> 'e list \<Rightarrow> bool"
    and nodes :: "'q \<Rightarrow> 'e list \<Rightarrow> 'e list"
    and append :: "'q \<Rightarrow> 'e \<Rightarrow> 's \<Rightarrow> 's"
    and push :: "'q \<Rightarrow> 'e \<Rightarrow> 's \<Rightarrow> 's"
    and pop :: "'q \<Rightarrow> 's \<Rightarrow> 'e \<times> 's"
    and remove :: "'e \<Rightarrow> 's \<Rightarrow> 's"
  assumes nodes_append: "set (nodes q (xs @ ys)) = set (nodes q xs) \<union> set ys"
    and rep_distinct: "rep s q xs \<Longrightarrow> distinct (nodes q xs)"
    and nodes_part: "distinct (nodes q (xs @ y # ys)) \<Longrightarrow> y \<notin> set (nodes q (xs @ ys))"
    and rep_append: "rep s q xs \<Longrightarrow> e \<notin> set (nodes q xs) \<Longrightarrow> rep (append q e s) q (xs @ [e])"
    and rep_push: "rep s q xs \<Longrightarrow> e \<notin> set (nodes q xs) \<Longrightarrow> rep (push q e s) q (e # xs)"
    and rep_pop: "rep s q (x # xs) \<Longrightarrow> fst (pop q s) = x \<and> rep (snd (pop q s)) q xs"
    and rep_remove: "rep s q (xs @ e # ys) \<Longrightarrow> rep (remove e s) q (xs @ ys)"

primrec pop_many :: "('s \<Rightarrow> 'e \<times> 's) \<Rightarrow> nat \<Rightarrow> 's \<Rightarrow> 'e list \<times> 's" where
  "pop_many pop1 0 s = ([], s)"
| "pop_many pop1 (Suc n) s =
     (let (x, s1) = pop1 s; (xs, s2) = pop_many pop1 n s1 in (x # xs, s2))"

context tag_queue
begin

lemma rotate:
  assumes "rep s q (x # xs)"
  shows "rep (append q x (snd (pop q s))) q (xs @ [x])"
  using rep_pop [OF assms] rep_append nodes_part [of q "[]" x xs] rep_distinct [OF assms] by simp

lemma push_pop:
  assumes "rep s q xs" and "e \<notin> set (nodes q xs)"
  shows "fst (pop q (push q e s)) = e \<and> rep (snd (pop q (push q e s))) q xs"
  by (rule rep_pop [OF rep_push [OF assms]])

lemma append_all:
  assumes "rep s q xs" and "set es \<inter> set (nodes q xs) = {}" and "distinct es"
  shows "rep (fold (append q) es s) q (xs @ es)"
  using assms
proof (induction es arbitrary: s xs)
  case Nil
  then show ?case by simp
next
  case (Cons e es)
  then have "rep (append q e s) q (xs @ [e])" by (intro rep_append) auto
  moreover have "set es \<inter> set (nodes q (xs @ [e])) = {}"
    using Cons.prems(2,3) by (auto simp: nodes_append)
  ultimately show ?case using Cons.IH [of "append q e s" "xs @ [e]"] Cons.prems(3) by simp
qed

lemma pop_all: "rep s q xs \<Longrightarrow> fst (pop_many (pop q) (length xs) s) = xs"
proof (induction xs arbitrary: s)
  case Nil
  then show ?case by simp
next
  case (Cons x xs)
  from rep_pop [OF Cons.prems] Cons.IH show ?case
    by (simp add: Let_def split_beta)
qed

text \<open>First in, first out.\<close>

lemma fifo:
  assumes "rep s q []" and "set es \<inter> set (nodes q []) = {}" and "distinct es"
  shows "fst (pop_many (pop q) (length es) (fold (append q) es s)) = es"
  using append_all [OF assms] pop_all by simp

end

interpretation kl: tag_queue dlist cells list_append list_push list_pop list_remove
proof unfold_locales
  show "set (cells q (xs @ ys)) = set (cells q xs) \<union> set ys" for q xs ys
    by (auto simp: set_cells)
  show "distinct (cells q (xs @ y # ys)) \<Longrightarrow> y \<notin> set (cells q (xs @ ys))" for q xs y ys
    by (auto simp: cells_def)
qed (simp_all add: dlist_distinct dlist_append dlist_push dlist_pop dlist_remove)

section \<open>What the operations promise\<close>

text \<open>
  C29. On a well-formed list, \<^verbatim>\<open>list_append\<close> and \<^verbatim>\<open>list_push\<close> add a fresh node at the end and at
  the front, leave the interrupt flag as it was, and change no list that shares no node.
\<close>

theorem list_insert_refines:
  assumes "dlist s l xs" and "e \<notin> set (cells l xs)"
  shows "dlist (list_append l e s) l (xs @ [e]) \<and> dlist (list_push l e s) l (e # xs)
    \<and> eflags_if (list_append l e s) = eflags_if s \<and> eflags_if (list_push l e s) = eflags_if s
    \<and> (\<forall>l' ys. set (cells l' ys) \<inter> insert e (set (cells l xs)) = {} \<longrightarrow>
        dlist (list_append l e s) l' ys = dlist s l' ys
        \<and> dlist (list_push l e s) l' ys = dlist s l' ys)"
  using assms by (simp add: dlist_append dlist_push dlist_append_other dlist_push_other)

lemma list_insert_refines_witness:
  "dlist (list_append 16 100 (list_init 16 \<lparr>eflags_if = True, prv = (\<lambda>_. 0), nxt = (\<lambda>_. 0)\<rparr>)) 16 [100]"
  using list_insert_refines [OF dlist_init [of 16 "\<lparr>eflags_if = True, prv = (\<lambda>_. 0), nxt = (\<lambda>_. 0)\<rparr>"], of 100]
  by (simp add: cells_def)

text \<open>
  C30. On every well-formed list, the empty one too, \<^verbatim>\<open>list_empty\<close> is true exactly if the list has no node, \<^verbatim>\<open>list_len\<close> ends with
  the number of nodes and \<^verbatim>\<open>elem_find\<close> with the answer whether the node is one of them. \<^verbatim>\<open>list_remove\<close> unlinks a node
  wherever it stands and \<^verbatim>\<open>list_pop\<close> the first one, which it returns; both leave the interrupt flag and every list that shares
  no node as they were.
\<close>

theorem list_remove_find_refines:
  assumes d: "dlist s l xs"
  shows "list_empty l s = (xs = []) \<and> list_len l s = Inr (of_nat (length xs)) \<and> (\<forall>e. elem_find l e s = Inr (e \<in> set xs))
    \<and> (\<forall>ys e zs. xs = ys @ e # zs \<longrightarrow> dlist (list_remove e s) l (ys @ zs) \<and> e \<notin> set (ys @ zs))
    \<and> (\<forall>e ys. xs = e # ys \<longrightarrow> fst (list_pop l s) = e \<and> dlist (snd (list_pop l s)) l ys)
    \<and> (\<forall>e. eflags_if (list_remove e s) = eflags_if s) \<and> eflags_if (snd (list_pop l s)) = eflags_if s
    \<and> (\<forall>l' ws. set (cells l' ws) \<inter> set (cells l xs) = {} \<longrightarrow>
        (\<forall>e \<in> set xs. dlist (list_remove e s) l' ws = dlist s l' ws) \<and> (xs \<noteq> [] \<longrightarrow> dlist (snd (list_pop l s)) l' ws = dlist s l' ws))"
proof (intro conjI allI impI ballI)
  fix ys e zs assume xs: "xs = ys @ e # zs"
  show "dlist (list_remove e s) l (ys @ zs)" using d dlist_remove unfolding xs by blast
  show "e \<notin> set (ys @ zs)" using dlist_distinct [OF d] by (simp add: xs cells_def)
next
  fix l' ws assume o: "set (cells l' ws) \<inter> set (cells l xs) = {}"
  show "dlist (list_remove e s) l' ws = dlist s l' ws" if "e \<in> set xs" for e by (rule dlist_remove_other [OF d that o])
  assume "xs \<noteq> []"
  then obtain z zs where "xs = z # zs" by (cases xs) auto
  then show "dlist (snd (list_pop l s)) l' ws = dlist s l' ws" using dlist_pop_other [of s l z zs l' ws] d o by simp
qed (use d dlist_pop [of s l] in \<open>simp_all add: dlist_empty dlist_list_len dlist_elem_find\<close>)

lemma list_remove_find_refines_witness:
  "let s0 = list_init 16 \<lparr>eflags_if = True, prv = (\<lambda>_. 0), nxt = (\<lambda>_. 0)\<rparr>; s1 = list_append 16 100 s0
   in list_empty 16 s0 \<and> \<not> list_empty 16 s1 \<and> dlist (list_remove 100 s1) 16 [] \<and> fst (list_pop 16 s1) = 100"
proof -
  let ?s0 = "list_init 16 \<lparr>eflags_if = True, prv = (\<lambda>_. 0), nxt = (\<lambda>_. 0)\<rparr>"
  have "dlist (list_append 16 100 ?s0) 16 [100]"
    using dlist_append [OF dlist_init, of 100 16] by (simp add: cells_def)
  note r = list_remove_find_refines [OF this]
  have "dlist (list_remove 100 (list_append 16 100 ?s0)) 16 []"
    using r [THEN conjunct2, THEN conjunct2, THEN conjunct2, THEN conjunct1, rule_format, of "[]" 100 "[]"] by simp
  moreover have "fst (list_pop 16 (list_append 16 100 ?s0)) = 100" "\<not> list_empty 16 (list_append 16 100 ?s0)" using r by simp_all
  moreover have "list_empty 16 ?s0" using list_remove_find_refines [OF dlist_init] by blast
  ultimately show ?thesis by (simp add: Let_def)
qed

text \<open>A kernel list is a first-in first-out queue: what was appended is popped in that order.\<close>

theorem list_fifo:
  assumes "dlist s l []" and "l \<notin> set es" and "tail_of l \<notin> set es" and "distinct es"
  shows "fst (pop_many (list_pop l) (length es) (fold (list_append l) es s)) = es"
  by (rule kl.fifo) (use assms in \<open>auto simp: set_cells\<close>)

lemma list_fifo_witness:
  "fst (pop_many (list_pop 16) (length [100, 200 :: u32]) (fold (list_append 16) [100, 200]
      (list_init 16 \<lparr>eflags_if = True, prv = (\<lambda>_. 0), nxt = (\<lambda>_. 0)\<rparr>))) = [100, 200]"
  by (rule list_fifo [OF dlist_init]) simp_all

end
