(* ===== verification/Cstring.thy ===== *)
theory Cstring
  imports Prelude
begin

text \<open>
  \<^verbatim>\<open>lib/string.c\<close>: the kernel's memory and string routines, over a flat byte memory, a function
  on 32-bit addresses (NULL is 0). Addresses wrap around, and a loop that looks for the
  terminating zero is a partial function: \<open>None\<close> when it never finds one. \<^verbatim>\<open>char\<close> is signed on
  i386, so a comparison of \<^verbatim>\<open>char\<close> values reads the bytes as two's complement.
\<close>

section \<open>The code\<close>

type_synonym bytes = "u32 \<Rightarrow> u8"

definition schar :: "u8 \<Rightarrow> int" where
  "schar b = sint b"

fun memset_loop :: "bytes \<Rightarrow> u32 \<Rightarrow> u8 \<Rightarrow> nat \<Rightarrow> bytes" where
  "memset_loop m dst val 0 = m"
| "memset_loop m dst val (Suc n) = memset_loop (m(dst := val)) (dst + 1) val n"

definition memset :: "bytes \<Rightarrow> u32 \<Rightarrow> u8 \<Rightarrow> u32 \<Rightarrow> bytes res" where
  "memset m dst0 val sz = rbind (c_assert (dst0 \<noteq> 0)) (\<lambda>_. Inr (memset_loop m dst0 val (unat sz)))"

fun memcpy_loop :: "bytes \<Rightarrow> u32 \<Rightarrow> u32 \<Rightarrow> nat \<Rightarrow> bytes" where
  "memcpy_loop m dst src 0 = m"
| "memcpy_loop m dst src (Suc n) = memcpy_loop (m(dst := m src)) (dst + 1) (src + 1) n"

definition memcpy :: "bytes \<Rightarrow> u32 \<Rightarrow> u32 \<Rightarrow> u32 \<Rightarrow> bytes res" where
  "memcpy m dst0 src0 sz =
     rbind (c_assert (dst0 \<noteq> 0 \<and> src0 \<noteq> 0)) (\<lambda>_. Inr (memcpy_loop m dst0 src0 (unat sz)))"

fun memcmp_loop :: "bytes \<Rightarrow> u32 \<Rightarrow> u32 \<Rightarrow> nat \<Rightarrow> int" where
  "memcmp_loop m a b 0 = 0"
| "memcmp_loop m a b (Suc n) =
     (if m a \<noteq> m b then if schar (m a) > schar (m b) then 1 else - 1
      else memcmp_loop m (a + 1) (b + 1) n)"

definition memcmp :: "bytes \<Rightarrow> u32 \<Rightarrow> u32 \<Rightarrow> u32 \<Rightarrow> int res" where
  "memcmp m a0 b0 sz =
     rbind (c_assert (a0 \<noteq> 0 \<and> b0 \<noteq> 0)) (\<lambda>_. Inr (memcmp_loop m a0 b0 (unat sz)))"

partial_function (option) strcpy_loop :: "bytes \<Rightarrow> u32 \<Rightarrow> u32 \<Rightarrow> bytes option" where
  "strcpy_loop m dst src =
     (let m' = m(dst := m src)
      in if m src \<noteq> 0 then strcpy_loop m' (dst + 1) (src + 1) else Some m')"

definition strcpy :: "bytes \<Rightarrow> u32 \<Rightarrow> u32 \<Rightarrow> (u32 \<times> bytes) res" where
  "strcpy m dst0 src0 =
     rbind (c_assert (dst0 \<noteq> 0 \<and> src0 \<noteq> 0)) (\<lambda>_.
     rbind (ends (strcpy_loop m dst0 src0)) (\<lambda>m'. Inr (dst0, m')))"

text \<open>\<^verbatim>\<open>while (*p++);\<close> ends one past the terminating zero.\<close>

partial_function (option) skip_string :: "bytes \<Rightarrow> u32 \<Rightarrow> u32 option" where
  "skip_string m p = (if m p \<noteq> 0 then skip_string m (p + 1) else Some (p + 1))"

definition strlen :: "bytes \<Rightarrow> u32 \<Rightarrow> u32 res" where
  "strlen m str =
     rbind (c_assert (str \<noteq> 0)) (\<lambda>_.
     rbind (ends (skip_string m str)) (\<lambda>p. Inr (p - str - 1)))"

partial_function (option) strcmp_loop :: "bytes \<Rightarrow> u32 \<Rightarrow> u32 \<Rightarrow> int option" where
  "strcmp_loop m a b =
     (if m a \<noteq> 0 \<and> m a = m b then strcmp_loop m (a + 1) (b + 1)
      else Some (if schar (m a) < schar (m b) then - 1
                 else if schar (m a) > schar (m b) then 1 else 0))"

definition strcmp :: "bytes \<Rightarrow> u32 \<Rightarrow> u32 \<Rightarrow> int res" where
  "strcmp m a b = rbind (c_assert (a \<noteq> 0 \<and> b \<noteq> 0)) (\<lambda>_. ends (strcmp_loop m a b))"

text \<open>\<^verbatim>\<open>*str == ch\<close> compares a signed \<^verbatim>\<open>char\<close> with an unsigned \<^verbatim>\<open>uint8_t\<close>, both as \<^verbatim>\<open>int\<close>.\<close>

definition char_eq :: "u8 \<Rightarrow> u8 \<Rightarrow> bool" where
  "char_eq c ch \<longleftrightarrow> schar c = uint ch"

partial_function (option) strchr_loop :: "bytes \<Rightarrow> u32 \<Rightarrow> u8 \<Rightarrow> u32 option" where
  "strchr_loop m str ch =
     (if m str \<noteq> 0
      then if char_eq (m str) ch then Some str else strchr_loop m (str + 1) ch
      else Some 0)"

definition strchr :: "bytes \<Rightarrow> u32 \<Rightarrow> u8 \<Rightarrow> u32 res" where
  "strchr m str ch = rbind (c_assert (str \<noteq> 0)) (\<lambda>_. ends (strchr_loop m str ch))"

partial_function (option) strrchr_loop :: "bytes \<Rightarrow> u32 \<Rightarrow> u8 \<Rightarrow> u32 \<Rightarrow> u32 option" where
  "strrchr_loop m str ch last_char =
     (if m str \<noteq> 0
      then strrchr_loop m (str + 1) ch (if char_eq (m str) ch then str else last_char)
      else Some last_char)"

definition strrchr :: "bytes \<Rightarrow> u32 \<Rightarrow> u8 \<Rightarrow> u32 res" where
  "strrchr m str ch = rbind (c_assert (str \<noteq> 0)) (\<lambda>_. ends (strrchr_loop m str ch 0))"

definition strcat :: "bytes \<Rightarrow> u32 \<Rightarrow> u32 \<Rightarrow> (u32 \<times> bytes) res" where
  "strcat m dst0 src0 =
     rbind (c_assert (dst0 \<noteq> 0 \<and> src0 \<noteq> 0)) (\<lambda>_.
     rbind (ends (skip_string m dst0)) (\<lambda>str.
     rbind (ends (strcpy_loop m (str - 1) src0)) (\<lambda>m'. Inr (dst0, m'))))"

partial_function (option) strchrs_loop :: "bytes \<Rightarrow> u32 \<Rightarrow> u8 \<Rightarrow> u32 \<Rightarrow> u32 option" where
  "strchrs_loop m p ch ch_cnt =
     (if m p \<noteq> 0
      then strchrs_loop m (p + 1) ch (if char_eq (m p) ch then ch_cnt + 1 else ch_cnt)
      else Some ch_cnt)"

definition strchrs :: "bytes \<Rightarrow> u32 \<Rightarrow> u8 \<Rightarrow> u32 res" where
  "strchrs m str ch = rbind (c_assert (str \<noteq> 0)) (\<lambda>_. ends (strchrs_loop m str ch 0))"

section \<open>Byte regions and C strings in memory\<close>

definition region :: "u32 \<Rightarrow> nat \<Rightarrow> u32 set" where
  "region p n = (\<lambda>i. p + word_of_nat i) ` {..<n}"

fun holds :: "bytes \<Rightarrow> u32 \<Rightarrow> u8 list \<Rightarrow> bool" where
  "holds m p [] = True"
| "holds m p (c # s) = (m p = c \<and> holds m (p + 1) s)"

fun cstr :: "bytes \<Rightarrow> u32 \<Rightarrow> u8 list \<Rightarrow> bool" where
  "cstr m p [] = (m p = 0)"
| "cstr m p (c # s) = (c \<noteq> 0 \<and> m p = c \<and> cstr m (p + 1) s)"

lemma region_0 [simp]: "region p 0 = {}"
  by (simp add: region_def)

lemma region_Suc: "region p (Suc n) = insert p (region (p + 1) n)"
proof -
  have "{..<Suc n} = insert 0 (Suc ` {..<n})" by (auto simp: less_Suc_eq_0_disj)
  then show ?thesis by (auto simp: region_def image_image algebra_simps)
qed

lemma start_notin_region:
  assumes "n < 2 ^ 32" shows "p \<notin> region (p + 1) n"
proof
  assume "p \<in> region (p + 1) n"
  then obtain i where i: "i < n" "p = p + 1 + word_of_nat i" by (auto simp: region_def)
  then have "word_of_nat (Suc i) = (0 :: u32)" by (simp add: add.assoc)
  then have "2 ^ 32 dvd Suc i" by (simp add: word_of_nat_eq_0_iff del: of_nat_Suc)
  then have "2 ^ 32 \<le> Suc i" by (rule dvd_imp_le) simp
  with i(1) assms show False by simp
qed

lemma region_UNIV: "2 ^ 32 \<le> n \<Longrightarrow> region p n = UNIV"
proof (intro equalityI subsetI UNIV_I)
  fix x :: u32 assume n: "2 ^ 32 \<le> n"
  have "unat (x - p) < 2 ^ 32" using unsigned_less [of "x - p"] by simp
  then show "x \<in> region p n" using n
    unfolding region_def by (intro image_eqI [of _ _ "unat (x - p)"]) simp_all
qed

lemma region_bound: "region p n \<inter> X = {} \<Longrightarrow> x \<in> X \<Longrightarrow> n < 2 ^ 32"
  using region_UNIV [of n p] by fastforce

lemma cstr_nonzero: "cstr m p s \<Longrightarrow> 0 \<notin> set s"
  by (induction m p s rule: cstr.induct) auto

lemma cstr_frame:
  "(\<And>x. x \<in> region p (Suc (length s)) \<Longrightarrow> m' x = m x) \<Longrightarrow> cstr m' p s = cstr m p s"
  by (induction m p s rule: cstr.induct) (simp_all add: region_Suc)

lemma holds_frame: "(\<And>x. x \<in> region p (length s) \<Longrightarrow> m' x = m x) \<Longrightarrow> holds m' p s = holds m p s"
  by (induction m p s rule: holds.induct) (simp_all add: region_Suc)

lemma cstr_upd: "x \<notin> region p (Suc (length s)) \<Longrightarrow> cstr (m(x := v)) p s = cstr m p s"
  by (rule cstr_frame) auto

lemma cstr_unique: "cstr m p s \<Longrightarrow> cstr m p t \<Longrightarrow> s = t"
proof (induction m p s arbitrary: t rule: cstr.induct)
  case (1 m p)
  then show ?case by (cases t) auto
next
  case (2 m p c s)
  then show ?case by (cases t) auto
qed

section \<open>The loops on terminated strings and byte regions\<close>

lemma memset_loop_spec:
  "n \<le> 2 ^ 32 \<Longrightarrow> memset_loop m p v n = (\<lambda>x. if x \<in> region p n then v else m x)"
proof (induction m p v n rule: memset_loop.induct)
  case (2 m p v n)
  then have "n < 2 ^ 32" by simp
  have "memset_loop (m(p := v)) (p + 1) v n
      = (\<lambda>x. if x \<in> region (p + 1) n then v else (m(p := v)) x)"
    by (rule "2.IH") (use "2.prems" in simp)
  with start_notin_region [OF \<open>n < 2 ^ 32\<close>, of p] show ?case
    by (simp add: fun_eq_iff region_Suc)
qed simp

text \<open>One step of a copy: the first byte is written, and is outside the rest of both regions.\<close>

lemma copy_step:
  assumes "region q (Suc n) \<inter> region p (Suc n) = {}"
  shows "q \<notin> region (p + 1) n" and "q \<notin> region (q + 1) n" and "q \<noteq> p"
    and "region (q + 1) n \<inter> region (p + 1) n = {}"
proof -
  have "p \<in> region p (Suc n)" by (simp add: region_Suc)
  from region_bound [OF assms this] have "n < 2 ^ 32" by simp
  from start_notin_region [OF this] show "q \<notin> region (q + 1) n" .
  show "q \<notin> region (p + 1) n" "q \<noteq> p" "region (q + 1) n \<inter> region (p + 1) n = {}"
    using assms unfolding region_Suc by blast+
qed

lemma memcpy_loop_spec:
  assumes "region q (length xs) \<inter> region p (length xs) = {}" and "holds m p xs"
  shows "holds (memcpy_loop m q p (length xs)) q xs
    \<and> (\<forall>x. x \<notin> region q (length xs) \<longrightarrow> memcpy_loop m q p (length xs) x = m x)"
  using assms
proof (induction xs arbitrary: m p q)
  case Nil
  then show ?case by simp
next
  case (Cons c xs)
  let ?m = "m(q := c)"
  note st = copy_step [OF Cons.prems(1) [unfolded length_Cons]]
  have "holds ?m (p + 1) xs = holds m (p + 1) xs" by (rule holds_frame) (use st(1) in auto)
  with Cons.prems(2) have "holds ?m (p + 1) xs" by simp
  from Cons.IH [OF st(4) this]
  have IH: "holds (memcpy_loop ?m (q + 1) (p + 1) (length xs)) (q + 1) xs"
    "\<And>x. x \<notin> region (q + 1) (length xs) \<Longrightarrow> memcpy_loop ?m (q + 1) (p + 1) (length xs) x = ?m x"
    by blast+
  have "memcpy_loop m q p (length (c # xs)) = memcpy_loop ?m (q + 1) (p + 1) (length xs)"
    using Cons.prems(2) by simp
  with IH IH(2) [OF st(2)] show ?case by (simp add: region_Suc)
qed

lemma memcmp_loop_zero:
  "holds m p xs \<Longrightarrow> holds m q ys \<Longrightarrow> length ys = length xs \<Longrightarrow>
    memcmp_loop m p q (length xs) = 0 \<longleftrightarrow> xs = ys"
proof (induction xs arbitrary: p q ys)
  case Nil
  then show ?case by simp
next
  case (Cons x xs)
  then show ?case by (cases ys) auto
qed

lemma strcpy_loop_spec:
  assumes "region q (Suc (length s)) \<inter> region p (Suc (length s)) = {}" and "cstr m p s"
  shows "\<exists>m'. strcpy_loop m q p = Some m' \<and> cstr m' q s
    \<and> (\<forall>x. x \<notin> region q (Suc (length s)) \<longrightarrow> m' x = m x)"
  using assms
proof (induction s arbitrary: m p q)
  case Nil
  then show ?case by (subst strcpy_loop.simps) (simp add: region_Suc)
next
  case (Cons c s)
  let ?m = "m(q := c)"
  note st = copy_step [OF Cons.prems(1) [unfolded length_Cons]]
  have "cstr ?m (p + 1) s" using Cons.prems(2) cstr_upd [OF st(1)] by simp
  from Cons.IH [OF st(4) this] obtain m' where
    m': "strcpy_loop ?m (q + 1) (p + 1) = Some m'" "cstr m' (q + 1) s"
    "\<And>x. x \<notin> region (q + 1) (Suc (length s)) \<Longrightarrow> m' x = ?m x"
    by blast
  have "strcpy_loop m q p = Some m'"
    using m'(1) Cons.prems(2) by (subst strcpy_loop.simps) (simp add: Let_def)
  with m' m'(3) [OF st(2)] Cons.prems(2) show ?case
    by (simp add: region_Suc [of q "Suc (length s)"])
qed

lemma skip_string_spec: "cstr m p s \<Longrightarrow> skip_string m p = Some (p + word_of_nat (length s) + 1)"
  by (induction m p s rule: cstr.induct) (simp_all add: skip_string.simps algebra_simps)

text \<open>The order of \<^verbatim>\<open>strcmp\<close>: the first different byte decides, as signed \<^verbatim>\<open>char\<close>; zero ends.\<close>

fun strcmp_spec :: "u8 list \<Rightarrow> u8 list \<Rightarrow> int" where
  "strcmp_spec [] [] = 0"
| "strcmp_spec [] (d # t) = (if 0 < schar d then - 1 else 1)"
| "strcmp_spec (c # s) [] = (if schar c < 0 then - 1 else 1)"
| "strcmp_spec (c # s) (d # t) =
     (if c = d then strcmp_spec s t else if schar c < schar d then - 1 else 1)"

lemma schar_eq_iff [simp]: "schar c = schar d \<longleftrightarrow> c = d"
  by (simp add: schar_def flip: word_eq_iff_signed)

lemma schar_0 [simp]: "schar 0 = 0"
  by (simp add: schar_def)

lemma schar_cases: "c \<noteq> d \<Longrightarrow> schar c < schar d \<or> schar d < schar c"
  using schar_eq_iff [of c d] by linarith

lemma strcmp_loop_spec: "cstr m p s \<Longrightarrow> cstr m q t \<Longrightarrow> strcmp_loop m p q = Some (strcmp_spec s t)"
proof (induction s t arbitrary: p q rule: strcmp_spec.induct)
  case 1
  then show ?case by (subst strcmp_loop.simps) simp
next
  case (2 d t)
  with schar_cases [of d 0] show ?case by (subst strcmp_loop.simps) auto
next
  case (3 c s)
  with schar_cases [of c 0] show ?case by (subst strcmp_loop.simps) auto
next
  case (4 c s d t)
  with schar_cases [of c d] show ?case by (subst strcmp_loop.simps) auto
qed

lemma strcmp_spec_0: "strcmp_spec s t = 0 \<longleftrightarrow> s = t"
  by (induction s t rule: strcmp_spec.induct) auto

text \<open>A byte that a signed \<^verbatim>\<open>char\<close> can be compared with: below 128.\<close>

lemma char_eq_iff: "char_eq c ch \<longleftrightarrow> c = ch \<and> unat ch < 128"
proof
  assume "char_eq c ch"
  then have eq: "sint c = uint ch" by (simp add: char_eq_def schar_def)
  have "c = word_of_int (sint c)" by simp
  also have "\<dots> = ch" by (simp add: eq)
  finally have ch: "c = ch" .
  have "sint c < 2 ^ (LENGTH(8) - 1)" by (rule sint_lt)
  with eq have "uint ch < 128" by simp
  moreover have "int (unat ch) = uint ch" by simp
  ultimately have "unat ch < 128" by linarith
  with ch show "c = ch \<and> unat ch < 128" by simp
next
  assume r: "c = ch \<and> unat ch < 128"
  then have "int (unat ch) < 128" by linarith
  moreover have "int (unat ch) = uint ch" by simp
  ultimately have "uint ch < 128" by linarith
  with r have "uint c < 2 ^ 7" by simp
  moreover have "- (2 ^ 7) \<le> uint c" by (rule order_trans [OF _ uint_ge_0]) simp
  ultimately have "sint c = uint c"
    unfolding sint_uint by (intro signed_take_bit_int_eq_self) simp_all
  with r show "char_eq c ch" by (simp add: char_eq_def schar_def)
qed

definition first_at :: "u32 \<Rightarrow> u8 list \<Rightarrow> u8 \<Rightarrow> u32" where
  "first_at p s ch =
     (if ch \<in> set s \<and> unat ch < 128 then p + word_of_nat (length (takeWhile (\<lambda>c. c \<noteq> ch) s))
      else 0)"

lemma strchr_loop_spec: "cstr m p s \<Longrightarrow> strchr_loop m p ch = Some (first_at p s ch)"
  by (induction m p s rule: cstr.induct)
     (auto simp: strchr_loop.simps first_at_def char_eq_iff algebra_simps)

definition last_at :: "u32 \<Rightarrow> u8 list \<Rightarrow> u8 \<Rightarrow> u32 \<Rightarrow> u32" where
  "last_at p s ch none =
     (if ch \<in> set s \<and> unat ch < 128
      then p + word_of_nat (length s - 1 - length (takeWhile (\<lambda>c. c \<noteq> ch) (rev s))) else none)"

lemma length_takeWhile_member: "x \<in> set xs \<Longrightarrow> length (takeWhile (\<lambda>c. c \<noteq> x) xs) < length xs"
  by (induction xs) auto

lemma last_at_Cons:
  "last_at p (c # s) ch none = last_at (p + 1) s ch (if char_eq c ch then p else none)"
proof (cases "ch \<in> set s")
  case True
  have "length (takeWhile (\<lambda>c. c \<noteq> ch) (rev s)) < length s"
    using length_takeWhile_member [of ch "rev s"] True by simp
  moreover have "takeWhile (\<lambda>c. c \<noteq> ch) (rev s @ [c]) = takeWhile (\<lambda>c. c \<noteq> ch) (rev s)"
    using True by (intro takeWhile_append1 [of ch]) auto
  ultimately show ?thesis
    using True by (auto simp: last_at_def char_eq_iff algebra_simps of_nat_diff
        simp flip: of_nat_Suc)
next
  case False
  then have "takeWhile (\<lambda>c. c \<noteq> ch) (rev s @ [c]) = rev s @ takeWhile (\<lambda>c. c \<noteq> ch) [c]"
    by (intro takeWhile_append2) auto
  with False show ?thesis by (auto simp: last_at_def char_eq_iff)
qed

lemma strrchr_loop_spec: "cstr m p s \<Longrightarrow> strrchr_loop m p ch none = Some (last_at p s ch none)"
proof (induction m p s arbitrary: none rule: cstr.induct)
  case (1 m p)
  then show ?case by (simp add: strrchr_loop.simps last_at_def)
next
  case (2 m p c s)
  then show ?case by (simp add: strrchr_loop.simps [of m p] last_at_Cons)
qed

lemma strchrs_loop_spec:
  "cstr m p s \<Longrightarrow>
    strchrs_loop m p ch n = Some (n + (if unat ch < 128 then word_of_nat (count_list s ch) else 0))"
  by (induction m p s arbitrary: n rule: cstr.induct)
     (auto simp: strchrs_loop.simps char_eq_iff)

section \<open>What the routines promise\<close>

lemma strlen_cstr: "cstr m p s \<Longrightarrow> p \<noteq> 0 \<Longrightarrow> strlen m p = Inr (word_of_nat (length s))"
  by (simp add: strlen_def skip_string_spec)

lemma strcpy_cstr:
  assumes "cstr m src s" and "region dst (Suc (length s)) \<inter> region src (Suc (length s)) = {}"
    and "dst \<noteq> 0" and "src \<noteq> 0"
  shows "\<exists>m'. strcpy m dst src = Inr (dst, m') \<and> cstr m' dst s
    \<and> (\<forall>x. x \<notin> region dst (Suc (length s)) \<longrightarrow> m' x = m x)"
  using strcpy_loop_spec [OF assms(2,1)] assms(3,4) by (auto simp: strcpy_def)

lemma cstr_append:
  "holds m p s \<Longrightarrow> 0 \<notin> set s \<Longrightarrow> cstr m (p + word_of_nat (length s)) t \<Longrightarrow> cstr m p (s @ t)"
  by (induction m p s rule: holds.induct) (auto simp: algebra_simps)

lemma cstr_holds: "cstr m p s \<Longrightarrow> holds m p s"
  by (induction m p s rule: cstr.induct) auto

lemma region_prefix:
  "region (p + word_of_nat k) n \<subseteq> region p (k + n)"
  unfolding region_def by (auto simp: add.assoc simp flip: of_nat_add)

lemma region_prefix_disjoint:
  assumes "k + n < 2 ^ 32"
  shows "region p k \<inter> region (p + word_of_nat k) n = {}"
proof (rule ccontr)
  assume "region p k \<inter> region (p + word_of_nat k) n \<noteq> {}"
  then obtain i j where ij: "i < k" "j < n"
    "p + word_of_nat i = p + word_of_nat k + word_of_nat j"
    by (auto simp: region_def)
  then have "word_of_nat i = (word_of_nat (k + j) :: u32)" by (simp add: add.assoc)
  then have "i = k + j"
    by (rule word_of_nat_inj32) (use ij assms in simp_all)
  with ij(1) show False by simp
qed

text \<open>
  \<^verbatim>\<open>strcat\<close> appends: with room after the first string that does not overlap the second,
  the destination then holds the two strings one after the other, and no other byte changed.
\<close>

theorem strcat_appends:
  assumes "cstr m dst s" and "cstr m src t" and "dst \<noteq> 0" and "src \<noteq> 0"
    and "region dst (length s + Suc (length t)) \<inter> region src (Suc (length t)) = {}"
  shows "\<exists>m'. strcat m dst src = Inr (dst, m') \<and> cstr m' dst (s @ t)
    \<and> (\<forall>x. x \<notin> region (dst + word_of_nat (length s)) (Suc (length t)) \<longrightarrow> m' x = m x)"
proof -
  let ?e = "dst + word_of_nat (length s)"
  have "src \<in> region src (Suc (length t))" by (simp add: region_Suc)
  from region_bound [OF assms(5) this] have bound: "length s + Suc (length t) < 2 ^ 32" .
  have "region ?e (Suc (length t)) \<inter> region src (Suc (length t)) = {}"
    using assms(5) region_prefix by blast
  from strcpy_loop_spec [OF this assms(2)] obtain m' where
    m': "strcpy_loop m ?e src = Some m'" "cstr m' ?e t"
    "\<forall>x. x \<notin> region ?e (Suc (length t)) \<longrightarrow> m' x = m x"
    by blast
  have "holds m' dst s = holds m dst s"
    by (rule holds_frame) (use m'(3) region_prefix_disjoint [OF bound, of dst] in blast)
  with m' assms show ?thesis
    using cstr_append [of m' dst s t] cstr_nonzero [OF assms(1)] cstr_holds [OF assms(1)]
    by (simp add: strcat_def skip_string_spec)
qed

lemma strcat_appends_witness:
  "\<exists>m'. strcat ((\<lambda>_. 0)(8 := 97, 16 := 98)) 8 16 = Inr (8, m') \<and> cstr m' 8 [97, 98]"
proof -
  let ?m = "(\<lambda>_. 0)(8 := 97, 16 := 98) :: bytes"
  have "cstr ?m 8 [97]" "cstr ?m 16 [98]" by simp_all
  moreover have "region 8 (length [97 :: u8] + Suc (length [98 :: u8]))
      \<inter> region 16 (Suc (length [98 :: u8])) = {}"
    by (simp add: region_Suc)
  ultimately show ?thesis using strcat_appends [of ?m 8 "[97]" 16 "[98]"] by fastforce
qed

text \<open>
  \<^verbatim>\<open>strcmp\<close> ends on two strings with the sign of their first difference as signed characters,
  and its result is 0 exactly for equal strings.
\<close>

theorem strcmp_correct:
  assumes "cstr m a s" and "cstr m b t" and "a \<noteq> 0" and "b \<noteq> 0"
  shows "strcmp m a b = Inr (strcmp_spec s t) \<and> (strcmp m a b = Inr 0 \<longleftrightarrow> s = t)"
  using assms by (simp add: strcmp_def strcmp_loop_spec strcmp_spec_0)

lemma strcmp_correct_witness:
  "strcmp ((\<lambda>_. 0)(8 := 97, 16 := 200)) 8 16 = Inr 1"
  using strcmp_correct [of "(\<lambda>_. 0)(8 := 97, 16 := 200)" 8 "[97]" 16 "[200]"]
  by (simp add: schar_def)

text \<open>
  \<^verbatim>\<open>strchr\<close>, \<^verbatim>\<open>strrchr\<close> and \<^verbatim>\<open>strchrs\<close> end on a string with the address of the first and of the
  last occurrence and with the number of occurrences, for a byte below 128; a byte from 128 on is
  never found, even where the string contains it.
\<close>

theorem strchr_finds:
  assumes "cstr m p s" and "p \<noteq> 0"
  shows "strchr m p ch = Inr (first_at p s ch) \<and> strrchr m p ch = Inr (last_at p s ch 0)
    \<and> strchrs m p ch = Inr (if unat ch < 128 then word_of_nat (count_list s ch) else 0)"
  using assms
  by (simp add: strchr_def strrchr_def strchrs_def strchr_loop_spec strrchr_loop_spec
      strchrs_loop_spec)

lemma strchr_finds_witness:
  "strchr ((\<lambda>_. 0)(8 := 47, 9 := 200)) 8 47 = Inr 8 \<and> strchr ((\<lambda>_. 0)(8 := 47, 9 := 200)) 8 200 = Inr 0"
  using strchr_finds [of "(\<lambda>_. 0)(8 := 47, 9 := 200)" 8 "[47, 200]" 47]
    strchr_finds [of "(\<lambda>_. 0)(8 := 47, 9 := 200)" 8 "[47, 200]" 200]
  by (simp add: first_at_def)

end
