(* ===== verification/Paging.thy ===== *)
theory Paging
  imports Bitmap Klist
begin

text \<open>
  The memory pools and the page tables of \<^verbatim>\<open>kernel/memory.c\<close>: \<^verbatim>\<open>palloc\<close>, \<^verbatim>\<open>pfree\<close>,
  \<^verbatim>\<open>pte_ptr\<close>, \<^verbatim>\<open>pde_ptr\<close>, \<^verbatim>\<open>page_table_add\<close>, \<^verbatim>\<open>page_table_pte_remove\<close>, \<^verbatim>\<open>addr_v2p\<close>,
  \<^verbatim>\<open>mem_pool_init\<close>.

  The hardware side is the 32-bit two-level page walk (\<open>walk\<close>) over a physical memory of
  32-bit words, so that the code's accesses through \<^verbatim>\<open>*pde\<close> and \<^verbatim>\<open>*pte\<close> are accesses through the
  very tables they change: the page directory's last entry points to the directory itself.
  \<open>tlb\<close> holds the translations the processor may have cached; the accesses of the model use
  the tables, which is what the processor does as long as \<open>tlb_coherent\<close> holds.
\<close>

section \<open>The state\<close>

record pool =
  pool_bitmap :: bitmap
  phy_addr_start :: u32
  pool_size :: u32

record virtual_addr =
  vaddr_bitmap :: bitmap
  vaddr_start :: u32

record vm = mem +
  pmem :: "u32 \<Rightarrow> u32"
  cr3 :: u32
  tlb :: "u32 \<Rightarrow> u32 option"
  kernel_pool :: pool
  user_pool :: pool
  kernel_vaddr :: virtual_addr

section \<open>The processor's page walk\<close>

definition PDE_IDX :: "u32 \<Rightarrow> u32" where
  "PDE_IDX addr = drop_bit 22 (addr AND 0xffc00000)"

definition PTE_IDX :: "u32 \<Rightarrow> u32" where
  "PTE_IDX addr = drop_bit 12 (addr AND 0x003ff000)"

definition present :: "u32 \<Rightarrow> bool" where
  "present e \<longleftrightarrow> e AND 1 \<noteq> 0"

definition pde_at :: "'a vm_scheme \<Rightarrow> u32 \<Rightarrow> u32" where
  "pde_at s v = page (cr3 s) + PDE_IDX v * 4"

definition pte_at :: "'a vm_scheme \<Rightarrow> u32 \<Rightarrow> u32" where
  "pte_at s v = page (pmem s (pde_at s v)) + PTE_IDX v * 4"

definition walk :: "'a vm_scheme \<Rightarrow> u32 \<Rightarrow> u32 option" where
  "walk s v =
     (if present (pmem s (pde_at s v)) \<and> present (pmem s (pte_at s v))
      then Some (page (pmem s (pte_at s v)) + (v AND 0xfff)) else None)"

definition load :: "u32 \<Rightarrow> 'a vm_scheme \<Rightarrow> u32 res" where
  "load v s = (case walk s v of None \<Rightarrow> Inl Page_fault | Some p \<Rightarrow> Inr (pmem s p))"

definition store :: "u32 \<Rightarrow> u32 \<Rightarrow> 'a vm_scheme \<Rightarrow> 'a vm_scheme res" where
  "store v x s =
     (case walk s v of None \<Rightarrow> Inl Page_fault | Some p \<Rightarrow> Inr (s\<lparr>pmem := (pmem s)(p := x)\<rparr>))"

text \<open>\<^verbatim>\<open>memset(v, 0, 4 * n)\<close> on words.\<close>

primrec clear_words :: "u32 \<Rightarrow> nat \<Rightarrow> 'a vm_scheme \<Rightarrow> 'a vm_scheme res" where
  "clear_words v 0 s = Inr s"
| "clear_words v (Suc n) s = rbind (store v 0 s) (clear_words (v + 4) n)"

section \<open>The code\<close>

definition K_HEAP_START :: u32 where "K_HEAP_START = 0xc0100000"
definition MEM_BITMAP_BASE :: u32 where "MEM_BITMAP_BASE = 0xc009a000"

definition PG_P_1 :: u32 where "PG_P_1 = 1"
definition PG_RW_W :: u32 where "PG_RW_W = 2"
definition PG_US_U :: u32 where "PG_US_U = 4"

definition pte_ptr :: "u32 \<Rightarrow> u32" where
  "pte_ptr vaddr = 0xffc00000 + drop_bit 10 (vaddr AND 0xffc00000) + PTE_IDX vaddr * 4"

definition pde_ptr :: "u32 \<Rightarrow> u32" where
  "pde_ptr vaddr = 0xfffff000 + PDE_IDX vaddr * 4"

definition palloc :: "pool \<Rightarrow> (u32 \<times> pool) res" where
  "palloc m_pool =
     rbind (bitmap_scan (pool_bitmap m_pool) 1) (\<lambda>bit_idx.
     if bit_idx = - 1 then Inr (0, m_pool)
     else rbind (bitmap_set (pool_bitmap m_pool) (nat bit_idx) 1) (\<lambda>m.
       let page_phyaddr = word_of_int bit_idx * PG_SIZE + phy_addr_start m_pool
       in Inr (page_phyaddr, m_pool\<lparr>pool_bitmap := m\<rparr>)))"

text \<open>
  The branch of a page directory entry that is present, and the one that has to make the page
  table first: \<^verbatim>\<open>*pte\<close> may only be touched after \<^verbatim>\<open>*pde\<close> is written.
\<close>

definition page_table_add :: "u32 \<Rightarrow> u32 \<Rightarrow> 'a vm_scheme \<Rightarrow> 'a vm_scheme res" where
  "page_table_add vaddr page_phyaddr s =
     (let pde = pde_ptr vaddr; pte = pte_ptr vaddr
      in rbind (load pde s) (\<lambda>e.
         if e AND 1 \<noteq> 0
         then rbind (load pte s) (\<lambda>t.
              rbind (c_assert (\<not> (t AND 1 \<noteq> 0))) (\<lambda>_.
              rbind (load pte s) (\<lambda>t'.
              if \<not> (t' AND 1 \<noteq> 0) then store pte (page_phyaddr OR PG_US_U OR PG_RW_W OR PG_P_1) s
              else Inl Panic)))
         else rbind (palloc (kernel_pool s)) (\<lambda>(pde_phyaddr, kp).
              let s = s\<lparr>kernel_pool := kp\<rparr>
              in rbind (store pde (pde_phyaddr OR PG_US_U OR PG_RW_W OR PG_P_1) s) (\<lambda>s.
                 rbind (clear_words (page pte) 1024 s) (\<lambda>s.
                 rbind (load pte s) (\<lambda>t.
                 rbind (c_assert (\<not> (t AND 1 \<noteq> 0))) (\<lambda>_.
                 store pte (page_phyaddr OR PG_US_U OR PG_RW_W OR PG_P_1) s)))))))"

definition addr_v2p :: "u32 \<Rightarrow> 'a vm_scheme \<Rightarrow> u32 res" where
  "addr_v2p vaddr s =
     rbind (load (pte_ptr vaddr) s) (\<lambda>pte. Inr ((pte AND 0xfffff000) + (vaddr AND 0xfff)))"

text \<open>The operand of \<^verbatim>\<open>invlpg\<close> is the address whose page is dropped from the cache.\<close>

definition invlpg :: "u32 \<Rightarrow> 'a vm_scheme \<Rightarrow> 'a vm_scheme" where
  "invlpg a s = s\<lparr>tlb := (tlb s)(page a := None)\<rparr>"

text \<open>
  \<^verbatim>\<open>asm volatile ("invlpg %0" : : "m" (vaddr) : "memory")\<close> gives the instruction the memory
  operand that is the C variable \<^verbatim>\<open>vaddr\<close> itself; \<open>var\<close> is the address of that variable, on the
  kernel stack of the running thread, where the compiler put it.
\<close>

definition page_table_pte_remove :: "u32 \<Rightarrow> u32 \<Rightarrow> 'a vm_scheme \<Rightarrow> 'a vm_scheme res" where
  "page_table_pte_remove var vaddr s =
     (let pte = pte_ptr vaddr
      in rbind (load pte s) (\<lambda>t. rbind (store pte (t AND 0) s) (\<lambda>s. Inr (invlpg var s))))"

definition pfree :: "u32 \<Rightarrow> 'a vm_scheme \<Rightarrow> 'a vm_scheme res" where
  "pfree pg_phy_addr s =
     (if phy_addr_start (user_pool s) \<le> pg_phy_addr
      then let index = (pg_phy_addr - phy_addr_start (user_pool s)) div PG_SIZE
           in rbind (bitmap_set (pool_bitmap (user_pool s)) (unat index) 0) (\<lambda>m.
              Inr (s\<lparr>user_pool := (user_pool s)\<lparr>pool_bitmap := m\<rparr>\<rparr>))
      else let index = (pg_phy_addr - phy_addr_start (kernel_pool s)) div PG_SIZE
           in rbind (bitmap_set (pool_bitmap (kernel_pool s)) (unat index) 0) (\<lambda>m.
              Inr (s\<lparr>kernel_pool := (kernel_pool s)\<lparr>pool_bitmap := m\<rparr>\<rparr>)))"

text \<open>
  \<^verbatim>\<open>mem_pool_init\<close> splits the memory above the first 2 MB; \<open>region\<close> is the memory at
  \<^verbatim>\<open>MEM_BITMAP_BASE\<close>, where the three bitmaps follow each other; each bitmap gets its own
  bytes of it. The page counts are \<^verbatim>\<open>uint16_t\<close>.
\<close>

definition mem_pool_init :: "u32 \<Rightarrow> u8 list \<Rightarrow> 'a vm_scheme \<Rightarrow> 'a vm_scheme res" where
  "mem_pool_init all_mem region s =
     (let page_table_size = PG_SIZE * 256;
          used_mem = page_table_size + 0x100000;
          free_mem = all_mem - used_mem;
          all_free_pages = ucast (free_mem div PG_SIZE) :: u16;
          kernel_free_pages = all_free_pages div 2;
          user_free_pages = all_free_pages - kernel_free_pages;
          kbm_length = unat kernel_free_pages div 8;
          ubm_length = unat user_free_pages div 8;
          kp_start = used_mem;
          up_start = kp_start + ucast kernel_free_pages * PG_SIZE;
          kbits = take kbm_length region;
          ubits = take ubm_length (drop kbm_length region);
          vbits = take kbm_length (drop (kbm_length + ubm_length) region)
      in rbind (bitmap_init \<lparr>btmp_bytes_len = kbm_length, bits = kbits\<rparr>) (\<lambda>kb.
         rbind (bitmap_init \<lparr>btmp_bytes_len = ubm_length, bits = ubits\<rparr>) (\<lambda>ub.
         rbind (bitmap_init \<lparr>btmp_bytes_len = kbm_length, bits = vbits\<rparr>) (\<lambda>vb.
         Inr (s\<lparr>kernel_pool := \<lparr>pool_bitmap = kb, phy_addr_start = kp_start,
                                pool_size = ucast kernel_free_pages * PG_SIZE\<rparr>,
                user_pool := \<lparr>pool_bitmap = ub, phy_addr_start = up_start,
                              pool_size = ucast user_free_pages * PG_SIZE\<rparr>,
                kernel_vaddr := \<lparr>vaddr_bitmap = vb, vaddr_start = K_HEAP_START\<rparr>\<rparr>)))))"

section \<open>The bits of the addresses\<close>

lemma present_bit: "present e \<longleftrightarrow> bit e 0"
  by (simp add: present_def and_one_eq odd_iff_mod_2_eq_one bit_0)

lemma times_4: "(k :: u32) * 4 = push_bit 2 k"
  by (simp add: push_bit_eq_mult mult.commute)

lemma bit_PDE_IDX: "bit (PDE_IDX v) i \<longleftrightarrow> bit v (i + 22)"
  using bit_u32_less [of v "i + 22"] by (auto simp: PDE_IDX_def u32_masks word_bit_simps add.commute)

lemma bit_PTE_IDX: "bit (PTE_IDX v) i \<longleftrightarrow> i < 10 \<and> bit v (i + 12)"
  by (auto simp: PTE_IDX_def u32_masks word_bit_simps add.commute)

lemma idx_less: "PDE_IDX v < 1024" "PTE_IDX v < 1024"
proof -
  have "bit (PDE_IDX v) i \<Longrightarrow> i < 10" "bit (PTE_IDX v) i \<Longrightarrow> i < 10" for i
    using bit_u32_less [of v "i + 22"] by (auto simp: bit_PDE_IDX bit_PTE_IDX)
  then show "PDE_IDX v < 1024" "PTE_IDX v < 1024"
    using less_of_bits [of "PDE_IDX v" 10] less_of_bits [of "PTE_IDX v" 10] by auto
qed

lemma slot_less: "k < 1024 \<Longrightarrow> k * 4 < (4096 :: u32)"
  by (simp add: word_less_nat_alt unat_word_ariths)

lemma slot_inj: "j < 1024 \<Longrightarrow> k < 1024 \<Longrightarrow> j * 4 = k * (4 :: u32) \<longleftrightarrow> j = k"
  by (auto simp: word_less_nat_alt unat_word_ariths word_unat_eq_iff)

lemma slots_less: "PDE_IDX v * 4 < 4096" "PTE_IDX v * 4 < 4096"
  by (simp_all add: slot_less idx_less)

lemma aligned_add_inj:
  "aligned a \<Longrightarrow> aligned b \<Longrightarrow> j < 4096 \<Longrightarrow> k < 4096 \<Longrightarrow> a + j = b + k \<longleftrightarrow> a = b \<and> j = k"
  by (metis page_add offset_add)

lemma page_pde_at [simp]: "page (pde_at s v) = page (cr3 s)"
  by (simp add: pde_at_def page_add slots_less)

lemma page_pte_at [simp]: "page (pte_at s v) = page (pmem s (pde_at s v))"
  by (simp add: pte_at_def page_add slots_less)

lemma idx_eqD: "PDE_IDX v = PDE_IDX w \<Longrightarrow> PTE_IDX v = PTE_IDX w \<Longrightarrow> page v = page w"
proof (rule bit_eqI)
  fix i assume e: "PDE_IDX v = PDE_IDX w" "PTE_IDX v = PTE_IDX w"
  have "bit v (j + 22) = bit w (j + 22)" for j using e(1) by (metis bit_PDE_IDX)
  moreover have "j < 10 \<longrightarrow> bit v (j + 12) = bit w (j + 12)" for j using e(2) by (metis bit_PTE_IDX)
  ultimately show "bit (page v) i = bit (page w) i"
    by (cases "22 \<le> i"; cases "12 \<le> i") (auto simp: page_bits dest!: le_Suc_ex simp: add.commute)
qed

text \<open>The addresses of the entries, as page and offset.\<close>

lemma pde_ptr_parts:
  "PDE_IDX (pde_ptr v) = 1023" "PTE_IDX (pde_ptr v) = 1023" "pde_ptr v AND 0xfff = PDE_IDX v * 4"
proof -
  have al: "aligned 0xfffff000" by (simp add: aligned_def)
  then show "pde_ptr v AND 0xfff = PDE_IDX v * 4"
    by (simp add: pde_ptr_def offset_add slots_less)
  have "page (pde_ptr v) = 0xfffff000" using al by (simp add: pde_ptr_def page_add slots_less)
  then have b: "12 \<le> i \<Longrightarrow> bit (pde_ptr v) i \<longleftrightarrow> i < 32" for i
    using page_bits [of "pde_ptr v" i] by (auto simp: u32_masks word_bit_simps)
  have n: "(1023 :: u32) = mask 10" by (simp add: mask_eq_exp_minus_1)
  show "PDE_IDX (pde_ptr v) = 1023" "PTE_IDX (pde_ptr v) = 1023" unfolding n
    by (rule bit_eqI; auto simp: bit_PDE_IDX bit_PTE_IDX b bit_mask_iff)+
qed

lemma pte_ptr_bits: "bit (pte_ptr v) i \<longleftrightarrow> i < 32 \<and> (22 \<le> i \<or> 2 \<le> i \<and> bit v (i + 10))"
proof -
  have "pte_ptr v = 0xffc00000 OR drop_bit 10 (v AND 0xffc00000) OR PTE_IDX v * 4"
    unfolding pte_ptr_def using bit_u32_less [of v]
    by (subst disjunctive_add_eq_or; (subst disjunctive_add_eq_or)?)
      (force simp: bit_eq_iff word_bit_simps u32_masks times_4 bit_PTE_IDX)+
  then show ?thesis
    using bit_u32_less [of v "i + 10"]
    by (auto simp: word_bit_simps u32_masks times_4 bit_PTE_IDX add.commute)
qed

lemma pte_ptr_parts:
  "PDE_IDX (pte_ptr v) = 1023" "PTE_IDX (pte_ptr v) = PDE_IDX v" "pte_ptr v AND 0xfff = PTE_IDX v * 4"
proof -
  have n: "(1023 :: u32) = mask 10" by (simp add: mask_eq_exp_minus_1)
  show "PDE_IDX (pte_ptr v) = 1023" unfolding n
    by (rule bit_eqI) (auto simp: bit_PDE_IDX pte_ptr_bits bit_mask_iff)
  show "PTE_IDX (pte_ptr v) = PDE_IDX v"
  proof (rule bit_eqI)
    fix i show "bit (PTE_IDX (pte_ptr v)) i = bit (PDE_IDX v) i"
      using bit_u32_less [of v "i + 22"] by (auto simp: bit_PDE_IDX bit_PTE_IDX pte_ptr_bits add.commute)
  qed
  show "pte_ptr v AND 0xfff = PTE_IDX v * 4"
    by (rule bit_eqI) (auto simp: pte_ptr_bits times_4 bit_PTE_IDX word_bit_simps u32_masks add.commute)
qed

section \<open>The self map\<close>

definition self_mapped :: "'a vm_scheme \<Rightarrow> bool" where
  "self_mapped s \<longleftrightarrow> present (pmem s (page (cr3 s) + 4092))
     \<and> page (pmem s (page (cr3 s) + 4092)) = page (cr3 s)"

lemma walk_pde_ptr: "self_mapped s \<Longrightarrow> walk s (pde_ptr v) = Some (pde_at s v)"
  by (simp add: walk_def pte_at_def pde_at_def pde_ptr_parts self_mapped_def)

lemma walk_pte_ptr:
  "self_mapped s \<Longrightarrow>
    walk s (pte_ptr v) = (if present (pmem s (pde_at s v)) then Some (pte_at s v) else None)"
  by (simp add: walk_def pte_at_def pde_at_def pte_ptr_parts self_mapped_def)

lemma load_pde [simp]: "self_mapped s \<Longrightarrow> load (pde_ptr v) s = Inr (pmem s (pde_at s v))"
  by (simp add: load_def walk_pde_ptr)

lemma load_pte [simp]:
  "self_mapped s \<Longrightarrow> present (pmem s (pde_at s v)) \<Longrightarrow> load (pte_ptr v) s = Inr (pmem s (pte_at s v))"
  by (simp add: load_def walk_pte_ptr)

lemma store_pte [simp]:
  "self_mapped s \<Longrightarrow> present (pmem s (pde_at s v)) \<Longrightarrow>
    store (pte_ptr v) x s = Inr (s\<lparr>pmem := (pmem s)(pte_at s v := x)\<rparr>)"
  by (simp add: store_def walk_pte_ptr)

lemma store_pde [simp]:
  "self_mapped s \<Longrightarrow> store (pde_ptr v) x s = Inr (s\<lparr>pmem := (pmem s)(pde_at s v := x)\<rparr>)"
  by (simp add: store_def walk_pde_ptr)

text \<open>
  The tables are well formed: the directory maps itself in its last entry, and two present
  entries share a frame only as the boot code made it, the first entry and entry 768.
\<close>

definition tables_wf :: "'a vm_scheme \<Rightarrow> bool" where
  "tables_wf s \<longleftrightarrow> self_mapped s
     \<and> (\<forall>i < 1024. \<forall>j < 1024. present (pmem s (page (cr3 s) + i * 4)) \<and> present (pmem s (page (cr3 s) + j * 4))
          \<and> page (pmem s (page (cr3 s) + i * 4)) = page (pmem s (page (cr3 s) + j * 4))
          \<longrightarrow> i = j \<or> {i, j} = {0, 768})"

text \<open>Two addresses whose translations sit in the same table entry.\<close>

definition aliases :: "u32 \<Rightarrow> u32 \<Rightarrow> bool" where
  "aliases v w \<longleftrightarrow> PTE_IDX v = PTE_IDX w
     \<and> (PDE_IDX v = PDE_IDX w \<or> {PDE_IDX v, PDE_IDX w} = {0, 768})"

lemma tables_wfD:
  assumes "tables_wf s" and "i < 1024" and "j < 1024"
    and "present (pmem s (page (cr3 s) + i * 4))" and "present (pmem s (page (cr3 s) + j * 4))"
    and "page (pmem s (page (cr3 s) + i * 4)) = page (pmem s (page (cr3 s) + j * 4))"
  shows "i = j \<or> {i, j} = {0, 768}"
  using assms unfolding tables_wf_def by blast

lemma tables_wf_self: "tables_wf s \<Longrightarrow> self_mapped s"
  by (simp add: tables_wf_def)

lemma aliases_page: "page v = page w \<Longrightarrow> aliases v w"
proof -
  assume "page v = page w"
  then have b: "12 \<le> i \<Longrightarrow> bit v i = bit w i" for i using page_bits [of v i] page_bits [of w i] by simp
  have "PDE_IDX v = PDE_IDX w" "PTE_IDX v = PTE_IDX w"
    by (rule bit_eqI, simp only: bit_PDE_IDX bit_PTE_IDX b)+
  then show ?thesis by (simp add: aliases_def)
qed

text \<open>A table entry is not an entry of the directory, and entries are shared by aliases only.\<close>

lemma pte_not_pde:
  assumes "tables_wf s" and "present (pmem s (pde_at s v))" and "PDE_IDX v \<noteq> 1023"
  shows "pte_at s v \<noteq> pde_at s w"
proof
  assume "pte_at s v = pde_at s w"
  then have e: "page (pmem s (pde_at s v)) = page (cr3 s)" by (metis page_pde_at page_pte_at)
  have "self_mapped s" by (rule tables_wf_self [OF assms(1)])
  then have "present (pmem s (page (cr3 s) + 1023 * 4))"
    "page (pmem s (page (cr3 s) + 1023 * 4)) = page (cr3 s)"
    by (simp_all add: self_mapped_def)
  with assms(1,2) e have "PDE_IDX v = 1023 \<or> {PDE_IDX v, 1023} = {0, 768 :: u32}"
    using idx_less(1) [of v] tables_wfD [of s "PDE_IDX v" 1023] by (simp add: pde_at_def)
  then show False using assms(3) by (auto simp: doubleton_eq_iff)
qed

lemma pte_at_eq_aliases:
  assumes "tables_wf s" and "present (pmem s (pde_at s v))" and "present (pmem s (pde_at s w))"
    and "pte_at s v = pte_at s w"
  shows "aliases v w"
proof -
  have "page (pmem s (pde_at s v)) = page (pmem s (pde_at s w))" and "PTE_IDX v * 4 = PTE_IDX w * 4"
    using assms(4) aligned_add_inj [OF aligned_page aligned_page slots_less(2) slots_less(2)]
    unfolding pte_at_def by blast+
  with assms show ?thesis
    using idx_less [of v] idx_less [of w] slot_inj [of "PTE_IDX v" "PTE_IDX w"]
      tables_wfD [of s "PDE_IDX v" "PDE_IDX w"]
    by (simp add: aliases_def pde_at_def)
qed

section \<open>Adding a translation\<close>

abbreviation entry :: "u32 \<Rightarrow> u32" where
  "entry f \<equiv> f OR PG_US_U OR PG_RW_W OR PG_P_1"

lemma entry_flags: "present (entry f)" "aligned f \<Longrightarrow> page (entry f) = f"
proof -
  show "present (entry f)" by (simp add: present_bit word_bit_simps PG_P_1_def)
  assume "aligned f"
  moreover have "PG_US_U OR PG_RW_W OR PG_P_1 = mask 3"
    by (simp add: PG_US_U_def PG_RW_W_def PG_P_1_def mask_eq_exp_minus_1)
  ultimately show "page (entry f) = f"
    by (intro bit_eqI) (auto simp: page_bits word_bit_simps aligned_bits or.assoc not_less
        intro: leI)
qed

lemma idx_page: "PDE_IDX (page v) = PDE_IDX v" "PTE_IDX (page v) = PTE_IDX v"
  by (rule bit_eqI; simp add: bit_PDE_IDX bit_PTE_IDX page_bits)+

lemma page_idx: "page v = page w \<Longrightarrow> PDE_IDX v = PDE_IDX w \<and> PTE_IDX v = PTE_IDX w"
  by (metis idx_page)

lemma not_in_frame: "page a \<noteq> f \<Longrightarrow> aligned f \<Longrightarrow> k < 4096 \<Longrightarrow> a \<noteq> f + k"
  by (metis page_add)

text \<open>Clearing a page table through the self map.\<close>

lemma walk_in_table:
  assumes "self_mapped s" and "present (pmem s (pde_at s v))" and "k < 4096"
  shows "walk s (page (pte_ptr v) + k) = Some (page (pmem s (pde_at s v)) + k)"
proof -
  have "page (page (pte_ptr v) + k) = page (pte_ptr v)" by (simp add: page_add assms(3))
  then have i: "PDE_IDX (page (pte_ptr v) + k) = 1023" "PTE_IDX (page (pte_ptr v) + k) = PDE_IDX v"
    using page_idx pte_ptr_parts(1,2) by metis+
  with assms show ?thesis
    by (simp add: walk_def pte_at_def pde_at_def self_mapped_def offset_add)
qed

definition words_at :: "u32 \<Rightarrow> nat \<Rightarrow> nat \<Rightarrow> u32 set" where
  "words_at f k n = (\<lambda>i. f + of_nat i * 4) ` {k ..< n}"

lemma words_at_simps:
  "k < n \<Longrightarrow> words_at f k n = insert (f + of_nat k * 4) (words_at f (Suc k) n)"
  "words_at f k k = {}"
proof -
  assume "k < n"
  then have "{k ..< n} = insert k {Suc k ..< n}" by auto
  then show "words_at f k n = insert (f + of_nat k * 4) (words_at f (Suc k) n)"
    by (simp add: words_at_def)
qed (simp add: words_at_def)

lemma words_at_page:
  "aligned f \<Longrightarrow> n \<le> 1024 \<Longrightarrow> a \<in> words_at f k n \<Longrightarrow> page a = f"
  unfolding words_at_def
  by (auto intro!: page_add slot_less simp: word_less_nat_alt unat_word_of_nat32)

lemma words_at_slot: "i < 1024 \<Longrightarrow> f + i * 4 \<in> words_at f 0 1024"
  unfolding words_at_def by (rule image_eqI [of _ _ "unat i"]) (simp_all add: word_less_nat_alt)

lemma clear_table:
  assumes "self_mapped s" and "present (pmem s (pde_at s v))"
    and "page (pmem s (pde_at s v)) = f" and "f \<noteq> page (cr3 s)" and "k + n \<le> 1024"
  shows "clear_words (page (pte_ptr v) + of_nat k * 4) n s
    = Inr (s\<lparr>pmem := (\<lambda>a. if a \<in> words_at f k (k + n) then 0 else pmem s a)\<rparr>)"
  using assms
proof (induction n arbitrary: k s)
  case 0
  then show ?case by (simp add: words_at_simps)
next
  case (Suc n)
  let ?a = "f + of_nat k * 4" and ?s = "s\<lparr>pmem := (pmem s)(f + of_nat k * 4 := 0)\<rparr>"
  have al: "aligned f" using Suc.prems(3) by auto
  have k: "(of_nat k :: u32) * 4 < 4096"
    using Suc.prems(5) by (intro slot_less) (simp add: word_less_nat_alt unat_word_of_nat32)
  then have pa: "page ?a = f" by (rule page_add [OF al])
  have st: "store (page (pte_ptr v) + of_nat k * 4) 0 s = Inr ?s"
    using walk_in_table [OF Suc.prems(1,2) k] Suc.prems(3) by (simp add: store_def)
  have dir: "page b = page (cr3 s) \<Longrightarrow> b \<noteq> ?a" for b using pa Suc.prems(4) by auto
  have ne: "page (cr3 s) + 4092 \<noteq> ?a" by (rule dir) (simp add: page_add)
  have pd: "pmem ?s (pde_at s v) = pmem s (pde_at s v)" using dir [of "pde_at s v"] by simp
  have sm: "self_mapped ?s"
    using Suc.prems(1) ne by (auto simp: self_mapped_def)
  have at: "pde_at ?s v = pde_at s v" by (simp add: pde_at_def)
  have "clear_words (page (pte_ptr v) + of_nat (Suc k) * 4) n ?s
    = Inr (?s\<lparr>pmem := (\<lambda>a. if a \<in> words_at f (Suc k) (Suc k + n) then 0 else pmem ?s a)\<rparr>)"
    by (rule Suc.IH) (use sm pd at Suc.prems in \<open>simp_all\<close>)
  moreover have "(\<lambda>a. if a \<in> words_at f k (k + Suc n) then 0 else pmem s a)
      = (\<lambda>a. if a \<in> words_at f (Suc k) (Suc k + n) then 0 else pmem ?s a)"
    by (auto simp: words_at_simps(1) [of k])
  ultimately show ?case by (simp add: st algebra_simps)
qed

text \<open>A frame that is no page table and not the directory.\<close>

definition fresh_table :: "'a vm_scheme \<Rightarrow> u32 \<Rightarrow> bool" where
  "fresh_table s f \<longleftrightarrow> aligned f \<and> f \<noteq> page (cr3 s)
     \<and> (\<forall>v. present (pmem s (pde_at s v)) \<longrightarrow> page (pmem s (pde_at s v)) \<noteq> f)"

lemma dir_entry:
  assumes "i < 1024"
  obtains v where "PDE_IDX v = i" and "pde_at (s :: 'a vm_scheme) v = page (cr3 s) + i * 4"
proof
  have "bit i j \<Longrightarrow> j < 10" for j using small_bits [of i 10] assms by simp
  then show "PDE_IDX (push_bit 22 i) = i" by (intro bit_eqI) (auto simp: bit_PDE_IDX word_bit_simps)
  then show "pde_at s (push_bit 22 i) = page (cr3 s) + i * 4" by (simp add: pde_at_def)
qed

lemma page_table_add_present:
  assumes "self_mapped s" and "present (pmem s (pde_at s v))"
  shows "page_table_add v p s =
    (if present (pmem s (pte_at s v)) then Inl Assertion
     else Inr (s\<lparr>pmem := (pmem s)(pte_at s v := entry p)\<rparr>))"
  using assms by (simp add: page_table_add_def present_def)

text \<open>The tables once the new page table is in place and cleared.\<close>

definition with_table :: "'a vm_scheme \<Rightarrow> u32 \<Rightarrow> u32 \<Rightarrow> u32 \<Rightarrow> u32" where
  "with_table s v f a = (if a = pde_at s v then entry f
     else if a \<in> words_at f 0 1024 then 0 else pmem s a)"

lemma page_table_add_absent:
  assumes sm: "self_mapped s" and ab: "\<not> present (pmem s (pde_at s v))"
    and pa: "palloc (kernel_pool s) = Inr (f, kp)" and fr: "fresh_table s f"
  shows "page_table_add v p s
    = Inr (s\<lparr>kernel_pool := kp, pmem := (with_table s v f)(f + PTE_IDX v * 4 := entry p)\<rparr>)"
proof -
  let ?s1 = "s\<lparr>kernel_pool := kp, pmem := (pmem s)(pde_at s v := entry f)\<rparr>"
  let ?s2 = "s\<lparr>kernel_pool := kp, pmem := with_table s v f\<rparr>"
  have f: "aligned f" "f \<noteq> page (cr3 s)" using fr by (simp_all add: fresh_table_def)
  have at: "pde_at ?s1 w = pde_at s w" "pde_at ?s2 w = pde_at s w"
    "pde_at (s\<lparr>kernel_pool := kp\<rparr>) w = pde_at s w" for w
    by (simp_all add: pde_at_def)
  have d: "page a = page (cr3 s) \<Longrightarrow> a \<notin> words_at f 0 1024" for a
    using f words_at_page [of f 1024] by auto
  have last: "pde_at s v \<noteq> page (cr3 s) + 4092" using sm ab by (auto simp: self_mapped_def)
  have z: "page (page (cr3 s) + 4092) = page (cr3 s)" by (simp add: page_add)
  have sm0: "self_mapped (s\<lparr>kernel_pool := kp\<rparr>)" using sm by (simp add: self_mapped_def)
  have sm1: "self_mapped ?s1" using sm last by (simp add: self_mapped_def)
  have sm2: "self_mapped ?s2" using sm last d [OF z] by (auto simp: self_mapped_def with_table_def)
  have pr: "present (pmem ?s1 (pde_at ?s1 v))" "page (pmem ?s1 (pde_at ?s1 v)) = f"
    "present (pmem ?s2 (pde_at ?s2 v))" "page (pmem ?s2 (pde_at ?s2 v)) = f"
    unfolding at using entry_flags f(1) by (simp_all add: with_table_def)
  have "(\<lambda>a. if a \<in> words_at f 0 1024 then 0 else pmem ?s1 a) = with_table s v f"
    using d [of "pde_at s v"] by (auto simp: with_table_def)
  then have cl: "clear_words (page (pte_ptr v)) 1024 ?s1 = Inr ?s2"
    using clear_table [OF sm1 pr(1,2), of 0 1024] f by simp
  have t: "pte_at ?s2 v = f + PTE_IDX v * 4" by (simp only: pte_at_def pr(4))
  have w: "f + PTE_IDX v * 4 \<in> words_at f 0 1024" by (rule words_at_slot [OF idx_less(2)])
  with d [of "pde_at s v"] have "with_table s v f (f + PTE_IDX v * 4) = 0"
    by (auto simp: with_table_def)
  then have ld: "load (pte_ptr v) ?s2 = Inr 0" using load_pte [OF sm2 pr(3)] t by simp
  have st: "store (pde_ptr v) (entry f) (s\<lparr>kernel_pool := kp\<rparr>) = Inr ?s1"
    using store_pde [OF sm0, of v] by (simp add: at)
  have st2: "store (pte_ptr v) (entry p) ?s2
      = Inr (?s2\<lparr>pmem := (with_table s v f)(f + PTE_IDX v * 4 := entry p)\<rparr>)"
    using store_pte [OF sm2 pr(3)] t by simp
  show ?thesis
    using ab sm pa by (simp add: page_table_add_def present_def st cl ld st2)
qed

lemma tables_wfI:
  assumes "self_mapped s"
    and "\<And>v w. present (pmem s (pde_at s v)) \<Longrightarrow> present (pmem s (pde_at s w)) \<Longrightarrow>
      page (pmem s (pde_at s v)) = page (pmem s (pde_at s w)) \<Longrightarrow>
      PDE_IDX v = PDE_IDX w \<or> {PDE_IDX v, PDE_IDX w} = {0, 768}"
  shows "tables_wf s"
  unfolding tables_wf_def by (metis assms dir_entry)

lemma tables_wf_pdeD:
  "tables_wf s \<Longrightarrow> present (pmem s (pde_at s v)) \<Longrightarrow> present (pmem s (pde_at s w)) \<Longrightarrow>
    page (pmem s (pde_at s v)) = page (pmem s (pde_at s w)) \<Longrightarrow>
    PDE_IDX v = PDE_IDX w \<or> {PDE_IDX v, PDE_IDX w} = {0, 768}"
  using tables_wfD [of s "PDE_IDX v" "PDE_IDX w"] idx_less unfolding pde_at_def by blast

lemma tables_wf_cong:
  assumes "tables_wf s" and "cr3 s' = cr3 s"
    and "\<And>v. present (pmem s' (pde_at s v)) = present (pmem s (pde_at s v))
      \<and> page (pmem s' (pde_at s v)) = page (pmem s (pde_at s v))"
  shows "tables_wf s'"
proof -
  have "i < 1024 \<Longrightarrow> present (pmem s' (page (cr3 s') + i * 4)) = present (pmem s (page (cr3 s) + i * 4))
      \<and> page (pmem s' (page (cr3 s') + i * 4)) = page (pmem s (page (cr3 s) + i * 4))" for i
    using assms(2,3) dir_entry [of i s] by metis
  moreover from this [of 1023] have "self_mapped s'"
    using tables_wf_self [OF assms(1)] assms(2) by (simp add: self_mapped_def)
  ultimately show ?thesis
    using assms(1) unfolding tables_wf_def by (metis (no_types, lifting))
qed

text \<open>A write to one table entry of \<open>v\<close>: the directory and the other entries stay.\<close>

lemma write_pte:
  fixes s :: "'a vm_scheme" and x :: u32
  assumes wf: "tables_wf s" and pr: "present (pmem s (pde_at s v))" and n: "PDE_IDX v \<noteq> 1023"
  defines "s' \<equiv> s\<lparr>pmem := (pmem s)(pte_at s v := x)\<rparr>"
  shows "tables_wf s'"
    and "aliases v w \<Longrightarrow> PDE_IDX v = PDE_IDX w \<Longrightarrow>
      walk s' w = (if present x then Some (page x + (w AND 0xfff)) else None)"
    and "PDE_IDX w \<noteq> 1023 \<Longrightarrow> \<not> aliases v w \<Longrightarrow> walk s' w = walk s w"
proof -
  have d: "pde_at s' w = pde_at s w" for w by (simp add: s'_def pde_at_def)
  have e: "pmem s' (pde_at s w) = pmem s (pde_at s w)" for w
    using pte_not_pde [OF wf pr n, of w] by (auto simp: s'_def)
  have t: "pte_at s' w = pte_at s w" for w by (simp add: pte_at_def d e)
  show "tables_wf s'" by (rule tables_wf_cong [OF wf]) (simp_all add: e, simp add: s'_def)
  show "walk s' w = (if present x then Some (page x + (w AND 0xfff)) else None)"
    if "aliases v w" "PDE_IDX v = PDE_IDX w" for w
  proof -
    have "pde_at s w = pde_at s v" "pte_at s w = pte_at s v"
      using that by (simp_all add: aliases_def pde_at_def pte_at_def)
    then show ?thesis using pr by (simp add: walk_def d e t) (simp add: s'_def)
  qed
  show "walk s' w = walk s w" if "PDE_IDX w \<noteq> 1023" "\<not> aliases v w" for w
  proof (cases "present (pmem s (pde_at s w))")
    case True
    with pte_at_eq_aliases [OF wf pr True] that(2) have "pte_at s w \<noteq> pte_at s v" by auto
    then show ?thesis by (simp add: walk_def d e t) (simp add: s'_def)
  qed (simp add: walk_def d e)
qed

lemma write_table:
  fixes s :: "'a vm_scheme" and x :: u32 and kp :: pool
  assumes wf: "tables_wf s" and ab: "\<not> present (pmem s (pde_at s v))" and fr: "fresh_table s f"
  defines "s' \<equiv> s\<lparr>kernel_pool := kp, pmem := (with_table s v f)(f + PTE_IDX v * 4 := x)\<rparr>"
  shows "tables_wf s'"
    and "page w = page v \<Longrightarrow>
      walk s' w = (if present x then Some (page x + (w AND 0xfff)) else None)"
    and "PDE_IDX w \<noteq> 1023 \<Longrightarrow> \<not> aliases v w \<Longrightarrow> walk s' w = walk s w"
proof -
  have f: "aligned f" "f \<noteq> page (cr3 s)" using fr by (simp_all add: fresh_table_def)
  have sm: "self_mapped s" by (rule tables_wf_self [OF wf])
  have d: "pde_at s' w = pde_at s w" for w by (simp add: s'_def pde_at_def)
  have w: "f + PTE_IDX w * 4 \<in> words_at f 0 1024" for w by (rule words_at_slot [OF idx_less(2)])
  have inf: "a \<in> words_at f 0 1024 \<Longrightarrow> page a = f" for a by (rule words_at_page [OF f(1) order_refl])
  have dne: "pde_at s u \<noteq> f + PTE_IDX v * 4" "pde_at s u \<notin> words_at f 0 1024" for u
    using inf [OF w [of v]] inf [of "pde_at s u"] f(2) by (metis page_pde_at)+
  have dir: "pmem s' (pde_at s w) = (if pde_at s w = pde_at s v then entry f else pmem s (pde_at s w))" for w
    using dne [of w] by (simp add: s'_def with_table_def)
  have fresh: "present (pmem s (pde_at s w)) \<Longrightarrow> page (pmem s (pde_at s w)) \<noteq> f" for w
    using fr by (simp add: fresh_table_def)
  have at: "pde_at s w = pde_at s v \<longleftrightarrow> PDE_IDX w = PDE_IDX v" for w
    using aligned_add_inj [OF aligned_page aligned_page slots_less(1) slots_less(1)]
      slot_inj [OF idx_less(1) idx_less(1)] unfolding pde_at_def by blast
  have v: "PDE_IDX v \<noteq> 1023" using sm ab by (auto simp: self_mapped_def pde_at_def)
  show "tables_wf s'"
  proof (rule tables_wfI)
    obtain z where z: "PDE_IDX z = 1023" "pde_at s z = page (cr3 s) + 4092" using dir_entry [of 1023 s] by auto
    show "self_mapped s'"
      using sm dir [of z] z v at [of z] by (simp add: self_mapped_def) (simp add: s'_def)
    show "PDE_IDX x = PDE_IDX y \<or> {PDE_IDX x, PDE_IDX y} = {0, 768}"
      if "present (pmem s' (pde_at s' x))" "present (pmem s' (pde_at s' y))"
        "page (pmem s' (pde_at s' x)) = page (pmem s' (pde_at s' y))" for x y
      using that fresh [of x] fresh [of y] tables_wf_pdeD [OF wf, of x y] entry_flags(2) [OF f(1)]
      by (cases "pde_at s x = pde_at s v"; cases "pde_at s y = pde_at s v") (simp_all add: d dir at)
  qed
  show "walk s' u = (if present x then Some (page x + (u AND 0xfff)) else None)" if "page u = page v" for u
  proof -
    have i: "PDE_IDX u = PDE_IDX v" "PTE_IDX u = PTE_IDX v" using page_idx [OF that] by simp_all
    then have "pmem s' (pde_at s u) = entry f" using at dir [of u] by simp
    moreover from this have "pte_at s' u = f + PTE_IDX v * 4"
      by (simp add: pte_at_def d i entry_flags f(1))
    moreover have "pmem s' (f + PTE_IDX v * 4) = x" by (simp add: s'_def)
    ultimately show ?thesis by (simp add: walk_def d entry_flags)
  qed
  show "walk s' u = walk s u" if "PDE_IDX u \<noteq> 1023" "\<not> aliases v u" for u
  proof (cases "PDE_IDX u = PDE_IDX v")
    case True
    then have "pmem s' (pde_at s u) = entry f" using at dir [of u] by simp
    then have pt: "pte_at s' u = f + PTE_IDX u * 4" by (simp add: pte_at_def d entry_flags f(1))
    have "PTE_IDX u \<noteq> PTE_IDX v" using that True by (auto simp: aliases_def)
    then have "f + PTE_IDX u * 4 \<noteq> f + PTE_IDX v * 4"
      using slot_inj [OF idx_less(2) idx_less(2)] by auto
    moreover have "f + PTE_IDX u * 4 \<noteq> pde_at s v" using inf [OF w [of u]] f(2) by (metis page_pde_at)
    ultimately have "pmem s' (pte_at s' u) = 0" using w [of u] by (simp add: pt) (simp add: s'_def with_table_def)
    moreover have "pde_at s u = pde_at s v" using True at by blast
    ultimately show ?thesis using ab by (simp add: walk_def d present_def)
  next
    case False
    then have e: "pmem s' (pde_at s u) = pmem s (pde_at s u)" using at dir [of u] by simp
    show ?thesis
    proof (cases "present (pmem s (pde_at s u))")
      case True
      have pg: "page (pte_at s u) \<noteq> f" using fresh [OF True] by simp
      have ne: "pte_at s u \<noteq> pde_at s v" by (rule pte_not_pde [OF wf True that(1)])
      have "pte_at s u \<noteq> f + PTE_IDX v * 4" "pte_at s u \<notin> words_at f 0 1024"
        using pg inf [of "pte_at s u"] inf [OF w [of v]] by metis+
      then have "pmem s' (pte_at s u) = pmem s (pte_at s u)"
        using ne by (simp add: s'_def with_table_def)
      moreover have "pte_at s' u = pte_at s u" by (simp add: pte_at_def d e)
      ultimately show ?thesis by (simp add: walk_def d e)
    qed (simp add: walk_def d e)
  qed
qed

section \<open>What the operations promise\<close>

lemma walk_None_pte: "walk s v = None \<Longrightarrow> present (pmem s (pde_at s v)) \<Longrightarrow> \<not> present (pmem s (pte_at s v))"
  by (simp add: walk_def split: if_splits)

lemma addr_v2p_walk:
  assumes "self_mapped s" and "walk s v = Some p"
  shows "addr_v2p v s = Inr p"
  using assms by (simp add: addr_v2p_def walk_def page_def split: if_splits)

lemma page_table_add_cases:
  assumes wf: "tables_wf s" and v: "PDE_IDX v \<noteq> 1023" and un: "walk s v = None"
    and pa: "\<not> present (pmem s (pde_at s v)) \<Longrightarrow> palloc (kernel_pool s) = Inr (f, kp) \<and> fresh_table s f"
  obtains s' where "page_table_add v p s = Inr s'" and "tables_wf s'"
    and "\<And>w. page w = page v \<Longrightarrow> walk s' w = Some (page (entry p) + (w AND 0xfff))"
    and "\<And>w. PDE_IDX w \<noteq> 1023 \<Longrightarrow> \<not> aliases v w \<Longrightarrow> walk s' w = walk s w"
proof (cases "present (pmem s (pde_at s v))")
  case True
  note sm = tables_wf_self [OF wf]
  let ?s = "s\<lparr>pmem := (pmem s)(pte_at s v := entry p)\<rparr>"
  from un True have "\<not> present (pmem s (pte_at s v))" by (simp add: walk_def split: if_splits)
  then have "page_table_add v p s = Inr ?s" by (simp add: page_table_add_present [OF sm True])
  moreover have "walk ?s w = Some (page (entry p) + (w AND 0xfff))" if "page w = page v" for w
    using write_pte(2) [OF wf True v aliases_page [OF that [symmetric]], of "entry p"]
      page_idx [OF that] entry_flags(1) [of p] by simp
  ultimately show thesis
    using that [of ?s] write_pte(1,3) [OF wf True v] by blast
next
  case False
  note sm = tables_wf_self [OF wf] and fr = pa [OF False]
  let ?s = "s\<lparr>kernel_pool := kp, pmem := (with_table s v f)(f + PTE_IDX v * 4 := entry p)\<rparr>"
  have "page_table_add v p s = Inr ?s" using page_table_add_absent [OF sm False] fr by blast
  moreover have "walk ?s w = Some (page (entry p) + (w AND 0xfff))" if "page w = page v" for w
    using write_table(2) [OF wf False, of f w] fr that by (simp add: entry_flags)
  ultimately show thesis
    using that [of ?s] write_table(1,3) [OF wf False] fr by blast
qed

text \<open>
  C5. \<^verbatim>\<open>page_table_add\<close> maps exactly the page it is asked to map: through the self map it reaches
  the right entry (making and clearing a page table when the directory has none), after which
  every address of the page translates into the frame, \<^verbatim>\<open>addr_v2p\<close> returns that translation,
  the tables are well formed, and no other translation has changed.
\<close>

theorem page_table_add_maps:
  assumes "tables_wf s" and "PDE_IDX v \<noteq> 1023" and "aligned p" and "walk s v = None"
    and "\<not> present (pmem s (pde_at s v)) \<longrightarrow>
      (\<exists>f kp. palloc (kernel_pool s) = Inr (f, kp) \<and> fresh_table s f)"
  shows "\<exists>s'. page_table_add v p s = Inr s' \<and> tables_wf s'
    \<and> (\<forall>k < 4096. walk s' (page v + k) = Some (p + k) \<and> addr_v2p (page v + k) s' = Inr (p + k))
    \<and> (\<forall>w. PDE_IDX w \<noteq> 1023 \<and> \<not> aliases v w \<longrightarrow> walk s' w = walk s w)"
proof -
  obtain f kp where "\<not> present (pmem s (pde_at s v)) \<Longrightarrow> palloc (kernel_pool s) = Inr (f, kp) \<and> fresh_table s f"
    using assms(5) by blast
  from page_table_add_cases [OF assms(1,2,4) this, of p] obtain s' where
    s': "page_table_add v p s = Inr s'" "tables_wf s'"
      "\<And>w. page w = page v \<Longrightarrow> walk s' w = Some (page (entry p) + (w AND 0xfff))"
      "\<And>w. PDE_IDX w \<noteq> 1023 \<Longrightarrow> \<not> aliases v w \<Longrightarrow> walk s' w = walk s w" by blast
  have "walk s' (page v + k) = Some (p + k)" if "k < 4096" for k
    using s'(3) [of "page v + k"] that assms(3) by (simp add: page_add offset_add entry_flags)
  with s' show ?thesis
    by (intro exI [of _ s']) (simp add: addr_v2p_walk [OF tables_wf_self])
qed

text \<open>A small memory to evaluate on, with the three entries the boot code makes for the low megabyte.\<close>

definition boot_pmem :: "u32 \<Rightarrow> u32" where
  "boot_pmem a = (if a = 0x100ffc then 0x100007
     else if a = 0x100000 \<or> a = 0x100c00 then 0x101007 else 0)"

definition boot_vm :: vm where
  "boot_vm = \<lparr>eflags_if = False, prv = (\<lambda>_. 0), nxt = (\<lambda>_. 0), pmem = boot_pmem, cr3 = 0x100000,
     tlb = (\<lambda>_. None),
     kernel_pool = \<lparr>pool_bitmap = \<lparr>btmp_bytes_len = 1, bits = [0]\<rparr>, phy_addr_start = 0x200000,
       pool_size = 0x8000\<rparr>,
     user_pool = \<lparr>pool_bitmap = \<lparr>btmp_bytes_len = 1, bits = [0]\<rparr>, phy_addr_start = 0x208000,
       pool_size = 0x8000\<rparr>,
     kernel_vaddr = \<lparr>vaddr_bitmap = \<lparr>btmp_bytes_len = 1, bits = [0]\<rparr>, vaddr_start = K_HEAP_START\<rparr>\<rparr>"

lemma boot_entry:
  "pmem boot_vm (pde_at boot_vm v) = (if PDE_IDX v = 1023 then 0x100007
     else if PDE_IDX v = 0 \<or> PDE_IDX v = 768 then 0x101007 else 0)"
proof -
  have al: "aligned (0x100000 :: u32)" by (simp add: aligned_def)
  have "k < 1024 \<Longrightarrow> 0x100000 + PDE_IDX v * 4 = 0x100000 + k * 4 \<longleftrightarrow> PDE_IDX v = k" for k
    using aligned_add_inj [OF al al slots_less(1) slot_less, of k] slot_inj [OF idx_less(1), of k] by auto
  from this [of 1023] this [of 0] this [of 768] show ?thesis
    by (simp add: pde_at_def boot_vm_def boot_pmem_def page_def)
qed

lemma boot_tables_wf: "tables_wf boot_vm"
proof (rule tables_wfI)
  show "self_mapped boot_vm"
    by (simp add: self_mapped_def boot_vm_def boot_pmem_def page_def present_def)
  show "PDE_IDX v = PDE_IDX w \<or> {PDE_IDX v, PDE_IDX w} = {0, 768}"
    if "present (pmem boot_vm (pde_at boot_vm v))" "present (pmem boot_vm (pde_at boot_vm w))"
      "page (pmem boot_vm (pde_at boot_vm v)) = page (pmem boot_vm (pde_at boot_vm w))" for v w
    using that by (auto simp: boot_entry present_def page_def split: if_splits)
qed

lemma boot_fresh: "fresh_table boot_vm 0x200000"
  by (auto simp: fresh_table_def boot_entry aligned_def page_def present_def split: if_splits)
    (simp add: boot_vm_def)

lemma page_table_add_maps_witness:
  "\<exists>s'. page_table_add 0x08048000 0x300000 boot_vm = Inr s' \<and> walk s' 0x08048123 = Some 0x300123"
proof -
  have un: "\<not> present (pmem boot_vm (pde_at boot_vm 0x08048000))"
    by (simp add: boot_entry PDE_IDX_def present_def)
  have "\<exists>kp. palloc (kernel_pool boot_vm) = Inr (0x200000, kp)"
    unfolding boot_vm_def by (rule exI) code_simp
  with un have "\<exists>s'. page_table_add 0x08048000 0x300000 boot_vm = Inr s' \<and> tables_wf s'
    \<and> (\<forall>k < 4096. walk s' (page 0x08048000 + k) = Some (0x300000 + k)
         \<and> addr_v2p (page 0x08048000 + k) s' = Inr (0x300000 + k))
    \<and> (\<forall>w. PDE_IDX w \<noteq> 1023 \<and> \<not> aliases 0x08048000 w \<longrightarrow> walk s' w = walk boot_vm w)"
    using boot_fresh boot_tables_wf
    by (intro page_table_add_maps) (auto simp: PDE_IDX_def aligned_def walk_def)
  then obtain s' where s': "page_table_add 0x08048000 0x300000 boot_vm = Inr s'"
    "\<forall>k < 4096. walk s' (page 0x08048000 + k) = Some (0x300000 + k)" by blast
  from s'(2) [rule_format, of "0x123"] s'(1) show ?thesis by (simp add: page_def)
qed

text \<open>
  A page that is mapped cannot be mapped again: the second \<^verbatim>\<open>page_table_add\<close> ends in the failed
  \<^verbatim>\<open>ASSERT\<close>, whatever the frame.
\<close>

theorem page_table_add_twice:
  assumes "self_mapped s" and "walk s v = Some q"
  shows "page_table_add v p s = Inl Assertion"
  using assms by (simp add: page_table_add_present walk_def split: if_splits)

lemma page_table_add_twice_witness: "page_table_add 0xfffff000 0 boot_vm = Inl Assertion"
proof -
  have "walk boot_vm 0xfffff000 = Some 0x100000"
    by (simp add: walk_def pte_at_def pde_at_def PDE_IDX_def PTE_IDX_def boot_vm_def boot_pmem_def
        page_def present_def)
  then show ?thesis by (rule page_table_add_twice [OF tables_wf_self [OF boot_tables_wf]])
qed

lemma page_table_pte_remove_eq:
  assumes "self_mapped s" and "present (pmem s (pde_at s v))"
  shows "page_table_pte_remove var v s
    = Inr (invlpg var (s\<lparr>pmem := (pmem s)(pte_at s v := 0)\<rparr>))"
  using assms by (simp add: page_table_pte_remove_def)

text \<open>
  C38. \<^verbatim>\<open>page_table_pte_remove\<close> takes exactly the page's translation away: no address of the page
  translates any more, every other translation stays, and the page can be mapped again.
\<close>

theorem pte_remove_unmaps:
  assumes "tables_wf s" and "PDE_IDX v \<noteq> 1023" and "walk s v = Some p"
  shows "\<exists>s'. page_table_pte_remove var v s = Inr s' \<and> tables_wf s'
    \<and> (\<forall>w. page w = page v \<longrightarrow> walk s' w = None)
    \<and> (\<forall>w. PDE_IDX w \<noteq> 1023 \<and> \<not> aliases v w \<longrightarrow> walk s' w = walk s w)
    \<and> (\<exists>s2. page_table_add v q s' = Inr s2)"
proof -
  have pr: "present (pmem s (pde_at s v))" using assms(3) by (simp add: walk_def split: if_splits)
  let ?t = "s\<lparr>pmem := (pmem s)(pte_at s v := 0)\<rparr>"
  let ?s = "invlpg var ?t"
  note w = write_pte [OF assms(1) pr assms(2), where x = 0]
  have same: "walk ?s u = walk ?t u" "tables_wf ?s = tables_wf ?t" for u
    by (simp_all add: walk_def pde_at_def pte_at_def invlpg_def tables_wf_def self_mapped_def)
  have un: "walk ?t u = None" if "page u = page v" for u
    using w(2) [OF aliases_page [OF that [symmetric]]] page_idx [OF that] by (simp add: present_def)
  have "pmem ?s (pde_at ?s v) = pmem s (pde_at s v)"
    using pte_not_pde [OF assms(1) pr assms(2), of v] by (simp add: invlpg_def pde_at_def)
  with pr have "page_table_add v q ?s = Inr (?s\<lparr>pmem := (pmem ?s)(pte_at ?s v := entry q)\<rparr>)"
    using walk_None_pte [of ?s v] un [of v] tables_wf_self [of ?s] w(1) same
    by (simp add: page_table_add_present)
  then show ?thesis
    using page_table_pte_remove_eq [OF tables_wf_self [OF assms(1)] pr, of var] w(1,3) un same
    by (intro exI [of _ ?s]) simp
qed

lemma boot_mapped:
  "\<exists>s. page_table_add 0x08048000 0x300000 boot_vm = Inr s \<and> tables_wf s
    \<and> (\<forall>w. page w = 0x08048000 \<longrightarrow> walk s w = Some (0x300000 + (w AND 0xfff)))"
proof -
  have un: "\<not> present (pmem boot_vm (pde_at boot_vm 0x08048000))"
    by (simp add: boot_entry PDE_IDX_def present_def)
  then have un': "walk boot_vm 0x08048000 = None" by (simp add: walk_def)
  obtain kp where pa: "palloc (kernel_pool boot_vm) = Inr (0x200000, kp)"
  proof
    show "palloc (kernel_pool boot_vm) = Inr (0x200000,
        \<lparr>pool_bitmap = \<lparr>btmp_bytes_len = 1, bits = [1]\<rparr>, phy_addr_start = 0x200000, pool_size = 0x8000\<rparr>)"
      unfolding boot_vm_def by code_simp
  qed
  have v: "PDE_IDX 0x08048000 \<noteq> 1023" by (simp add: PDE_IDX_def)
  have e: "page (entry 0x300000) = 0x300000" by (rule entry_flags) (simp add: aligned_def)
  have p8: "page 0x08048000 = 0x08048000" by (simp add: page_def)
  show ?thesis
    using page_table_add_cases [OF boot_tables_wf v un' conjI [OF pa boot_fresh], where p = "0x300000"]
    unfolding e p8 by metis
qed

lemma pte_remove_unmaps_witness:
  "\<exists>s'. page_table_add 0x08048000 0x300000 boot_vm = Inr s'
    \<and> (\<exists>s''. page_table_pte_remove 0xc009ee00 0x08048000 s' = Inr s'' \<and> walk s'' 0x08048123 = None)"
proof -
  have p8: "page 0x08048000 = 0x08048000" "page 0x08048123 = 0x08048000" by (simp_all add: page_def)
  obtain s where s: "page_table_add 0x08048000 0x300000 boot_vm = Inr s" "tables_wf s"
    "\<And>w. page w = 0x08048000 \<Longrightarrow> walk s w = Some (0x300000 + (w AND 0xfff))"
    using boot_mapped by blast
  have v: "PDE_IDX 0x08048000 \<noteq> 1023" by (simp add: PDE_IDX_def)
  from s(1) pte_remove_unmaps [OF s(2) v s(3) [OF p8(1)], of "0xc009ee00"] p8 show ?thesis by metis
qed

text \<open>The cached translations agree with the tables.\<close>

definition tlb_coherent :: "'a vm_scheme \<Rightarrow> bool" where
  "tlb_coherent s \<longleftrightarrow> (\<forall>v f. tlb s (page v) = Some f \<longrightarrow> walk s v = Some (f + (v AND 0xfff)))"

text \<open>
  C39. \<^verbatim>\<open>page_table_pte_remove\<close> drops the wrong page from the translation cache. The operand of its \<^verbatim>\<open>invlpg\<close> is the
  variable that holds the address, which lies on the kernel stack: the cached translation of the variable's page is gone
  afterwards, and every other one is as it was, that of the page whose entry was cleared among them. That page has no
  translation in the tables any more, so the cache disagrees with them.
\<close>

theorem pte_remove_leaves_stale_tlb:
  assumes "tables_wf s" and "PDE_IDX v \<noteq> 1023" and "walk s v = Some p"
    and "tlb s (page v) = Some f" and "page var \<noteq> page v"
  shows "\<exists>s'. page_table_pte_remove var v s = Inr s' \<and> tlb s' = (tlb s)(page var := None)
    \<and> tlb s' (page v) = Some f \<and> walk s' v = None \<and> \<not> tlb_coherent s'"
proof -
  from pte_remove_unmaps [OF assms(1-3), of var] obtain s' where
    s': "page_table_pte_remove var v s = Inr s'" "walk s' v = None" by blast
  have pr: "present (pmem s (pde_at s v))" using assms(3) by (simp add: walk_def split: if_splits)
  have t: "tlb s' = (tlb s)(page var := None)"
    using s'(1) page_table_pte_remove_eq [OF tables_wf_self [OF assms(1)] pr, of var] by (auto simp: invlpg_def)
  then have "tlb s' (page v) = Some f" using assms(4,5) by simp
  with s' t show ?thesis by (metis option.discI tlb_coherent_def)
qed

lemma pte_remove_leaves_stale_tlb_witness:
  "\<exists>(s :: vm) s'. tlb_coherent s \<and> page_table_pte_remove 0xc009ee00 0x08048000 s = Inr s' \<and> \<not> tlb_coherent s'"
proof -
  have p8: "page 0x08048000 = 0x08048000" "page 0xc009ee00 = 0xc009e000" by (simp_all add: page_def)
  obtain s where s: "page_table_add 0x08048000 0x300000 boot_vm = Inr s" "tables_wf s"
    "\<And>w. page w = 0x08048000 \<Longrightarrow> walk s w = Some (0x300000 + (w AND 0xfff))"
    using boot_mapped by blast
  let ?s = "s\<lparr>tlb := [0x08048000 \<mapsto> 0x300000]\<rparr>"
  have same: "walk ?s u = walk s u" "tables_wf ?s = tables_wf s" for u
    by (simp_all add: walk_def pde_at_def pte_at_def tables_wf_def self_mapped_def)
  have v: "PDE_IDX 0x08048000 \<noteq> 1023" by (simp add: PDE_IDX_def)
  have "tlb_coherent ?s" using s(3) unfolding tlb_coherent_def same by (auto split: if_splits)
  moreover have "\<exists>s'. page_table_pte_remove 0xc009ee00 0x08048000 ?s = Inr s'
      \<and> tlb s' = (tlb ?s)(page 0xc009ee00 := None) \<and> tlb s' (page 0x08048000) = Some 0x300000
      \<and> walk s' 0x08048000 = None \<and> \<not> tlb_coherent s'"
    by (rule pte_remove_leaves_stale_tlb [OF _ v])
      (use s(2) s(3) [OF p8(1)] p8 in \<open>simp_all only: same\<close>, simp_all)
  ultimately show ?thesis by blast
qed

end
