(* ===== verification/Allocator.thy ===== *)
theory Allocator
  imports Bitmap
begin

text \<open>
  The contract of an allocator of identifiers backed by a bitmap, stated once: what the physical
  page pools, the inode bitmap and the block bitmap promise to the code that takes from them.
\<close>

locale id_allocator =
  fixes ok :: "'s \<Rightarrow> bool"
    and universe :: "'s \<Rightarrow> 'i set"
    and live :: "'s \<Rightarrow> 'i set"
    and alloc :: "'s \<Rightarrow> ('i \<times> 's) res"
    and release :: "'i \<Rightarrow> 's \<Rightarrow> 's res"
  assumes alloc_fresh: "ok s \<Longrightarrow> alloc s = Inr (i, s') \<Longrightarrow>
      ok s' \<and> i \<in> universe s \<and> i \<notin> live s \<and> live s' = insert i (live s) \<and> universe s' = universe s"
    and alloc_room: "ok s \<Longrightarrow> \<not> universe s \<subseteq> live s \<Longrightarrow> \<exists>r. alloc s = Inr r"
    and alloc_full: "ok s \<Longrightarrow> universe s \<subseteq> live s \<Longrightarrow> \<exists>e. alloc s = Inl e"
    and release_live: "ok s \<Longrightarrow> i \<in> universe s \<Longrightarrow>
      \<exists>s'. release i s = Inr s' \<and> ok s' \<and> live s' = live s - {i} \<and> universe s' = universe s"

primrec alloc_many :: "('s \<Rightarrow> ('i \<times> 's) res) \<Rightarrow> nat \<Rightarrow> 's \<Rightarrow> ('i list \<times> 's) res" where
  "alloc_many alloc1 0 s = Inr ([], s)"
| "alloc_many alloc1 (Suc n) s =
     rbind (alloc1 s) (\<lambda>(i, s1). rbind (alloc_many alloc1 n s1) (\<lambda>(is, s2). Inr (i # is, s2)))"

context id_allocator
begin

lemma alloc_iff: "ok s \<Longrightarrow> (\<exists>r. alloc s = Inr r) \<longleftrightarrow> \<not> universe s \<subseteq> live s"
  by (metis alloc_full alloc_room sum.distinct(1))

text \<open>No identifier is handed out twice, and no more are handed out than there are.\<close>

lemma alloc_many_distinct:
  assumes "ok s" and "alloc_many alloc n s = Inr (is, s')"
  shows "distinct is \<and> length is = n \<and> set is \<inter> live s = {} \<and> set is \<subseteq> universe s
    \<and> ok s' \<and> live s' = live s \<union> set is \<and> universe s' = universe s"
  using assms
proof (induction n arbitrary: s "is" s')
  case 0
  then show ?case by simp
next
  case (Suc n)
  then obtain i s1 js where a: "alloc s = Inr (i, s1)" and m: "alloc_many alloc n s1 = Inr (js, s')"
    and i: "is = i # js"
    by (auto simp: rbind_Inr_iff)
  from alloc_fresh [OF Suc.prems(1) a] Suc.IH [OF _ m] i show ?case by auto
qed

lemma alloc_many_room:
  assumes "ok s" and "finite (universe s)" and "n \<le> card (universe s - live s)"
  shows "\<exists>is s'. alloc_many alloc n s = Inr (is, s')"
  using assms
proof (induction n arbitrary: s)
  case 0
  then show ?case by simp
next
  case (Suc n)
  from Suc.prems(3) have "\<not> universe s \<subseteq> live s" by (metis Diff_eq_empty_iff card.empty not_less_eq_eq zero_le)
  with alloc_room [OF Suc.prems(1)] obtain i s1 where a: "alloc s = Inr (i, s1)" by force
  note f = alloc_fresh [OF Suc.prems(1) a]
  then have "universe s1 - live s1 = (universe s - live s) - {i}" by auto
  moreover have "card ((universe s - live s) - {i}) = card (universe s - live s) - 1"
    using f Suc.prems(2) by (intro card_Diff_singleton) auto
  ultimately have "n \<le> card (universe s1 - live s1)" using Suc.prems(3) by simp
  with Suc.IH [of s1] f Suc.prems(2) a show ?case by fastforce
qed

text \<open>What is released can be handed out again.\<close>

lemma release_alloc:
  assumes "ok s" and "i \<in> universe s"
  shows "\<exists>s' r. release i s = Inr s' \<and> alloc s' = Inr r"
  using release_live [OF assms] assms(2) alloc_room by (metis Diff_iff singletonI subsetD)

lemma alloc_release:
  assumes "ok s" and "alloc s = Inr (i, s1)"
  shows "\<exists>s2. release i s1 = Inr s2 \<and> live s2 = live s"
  using alloc_fresh [OF assms] release_live by (metis Diff_insert_absorb)

end

text \<open>The bitmap itself: \<^verbatim>\<open>bitmap_scan\<close> for one bit, then \<^verbatim>\<open>bitmap_set\<close>.\<close>

definition bit_alloc :: "bitmap \<Rightarrow> (nat \<times> bitmap) res" where
  "bit_alloc m = rbind (bitmap_scan m 1) (\<lambda>r. rbind (bitmap_set m (nat r) 1) (\<lambda>m'. Inr (nat r, m')))"

definition bit_ids :: "bitmap \<Rightarrow> nat set" where
  "bit_ids m = {i. i < btmp_bytes_len m * 8}"

definition bit_live :: "bitmap \<Rightarrow> nat set" where
  "bit_live m = {i \<in> bit_ids m. used m i}"

lemma scan_one:
  assumes "wf_bitmap m"
  shows "if \<exists>k < btmp_bytes_len m * 8. \<not> used m k
    then \<exists>i. bitmap_scan m 1 = Inr (int i) \<and> i < btmp_bytes_len m * 8 \<and> \<not> used m i
      \<and> (\<forall>j < i. used m j)
    else \<exists>e. bitmap_scan m 1 = Inl e"
proof (cases "\<exists>k < btmp_bytes_len m * 8. \<not> used m k")
  case True
  then obtain k where k: "k < btmp_bytes_len m * 8" "\<not> used m k" by blast
  have "backed m (btmp_bytes_len m * 8 - 1)"
    using wf_backed [OF assms, of "btmp_bytes_len m * 8 - 1"] k(1) by simp
  moreover have "\<not> (\<forall>t. t + 1 \<le> btmp_bytes_len m * 8 \<longrightarrow> \<not> run_free m t 1)"
    using k by (metis Suc_eq_plus1 Suc_leI run_free_one)
  ultimately obtain i where "bitmap_scan m 1 = Inr (int i)" "i + 1 \<le> btmp_bytes_len m * 8"
    "run_free m i 1" "\<forall>t < i. \<not> run_free m t 1"
    using bitmap_scan_result [OF assms k zero_less_one] unfolding if_P [OF refl] by blast
  then show ?thesis using True unfolding run_free_one by auto
next
  case False
  then show ?thesis using bitmap_scan_full [OF assms] by auto
qed

lemma bit_alloc_spec:
  assumes "wf_bitmap m"
  shows "if \<exists>k < btmp_bytes_len m * 8. \<not> used m k
    then \<exists>i m'. bitmap_scan m 1 = Inr (int i) \<and> bitmap_set m i 1 = Inr m' \<and> bit_alloc m = Inr (i, m')
      \<and> i < btmp_bytes_len m * 8 \<and> \<not> used m i
      \<and> (\<forall>j < i. used m j) \<and> btmp_bytes_len m' = btmp_bytes_len m \<and> length (bits m') = length (bits m)
      \<and> (\<forall>j. used m' j \<longleftrightarrow> j = i \<or> used m j)
    else \<exists>e. bitmap_scan m 1 = Inl e \<and> bit_alloc m = Inl e"
proof (cases "\<exists>k < btmp_bytes_len m * 8. \<not> used m k")
  case True
  with scan_one [OF assms] obtain i where i: "bitmap_scan m 1 = Inr (int i)"
    "i < btmp_bytes_len m * 8" "\<not> used m i" "\<forall>j < i. used m j" by auto
  from bitmap_set_backed [OF wf_backed [OF assms i(2)], of 1] obtain m' where
    "bitmap_set m i 1 = Inr m'" "btmp_bytes_len m' = btmp_bytes_len m"
    "length (bits m') = length (bits m)" "\<forall>j. used m' j \<longleftrightarrow> j = i \<or> used m j" by auto
  with i True show ?thesis by (simp add: bit_alloc_def)
next
  case False
  with scan_one [OF assms] have "\<exists>e. bitmap_scan m 1 = Inl e" by auto
  with False show ?thesis by (auto simp: bit_alloc_def)
qed

interpretation bm: id_allocator wf_bitmap bit_ids bit_live bit_alloc "\<lambda>i m. bitmap_set m i 0"
proof
  fix m i m' assume wf: "wf_bitmap m" and a: "bit_alloc m = Inr (i, m')"
  from bit_alloc_spec [OF wf] a wf
  show "wf_bitmap m' \<and> i \<in> bit_ids m \<and> i \<notin> bit_live m \<and> bit_live m' = insert i (bit_live m)
      \<and> bit_ids m' = bit_ids m"
    by (auto simp: bit_ids_def bit_live_def wf_bitmap_def split: if_splits)
next
  fix m assume "wf_bitmap m" and "\<not> bit_ids m \<subseteq> bit_live m"
  with bit_alloc_spec [of m] show "\<exists>r. bit_alloc m = Inr r"
    by (auto simp: bit_ids_def bit_live_def split: if_splits)
next
  fix m assume "wf_bitmap m" and "bit_ids m \<subseteq> bit_live m"
  with bit_alloc_spec [of m] show "\<exists>e. bit_alloc m = Inl e"
    by (auto simp: bit_ids_def bit_live_def split: if_splits)
next
  fix m i assume wf: "wf_bitmap m" and i: "i \<in> bit_ids m"
  then have "i < btmp_bytes_len m * 8" by (simp add: bit_ids_def)
  from bitmap_set_backed [OF wf_backed [OF wf this], of 0] wf
  show "\<exists>m'. bitmap_set m i 0 = Inr m' \<and> wf_bitmap m' \<and> bit_live m' = bit_live m - {i}
      \<and> bit_ids m' = bit_ids m"
    by (auto simp: bit_ids_def bit_live_def wf_bitmap_def)
qed

end
