(* ===== verification/Pools.thy ===== *)
theory Pools
  imports Paging Allocator
begin

text \<open>
  The two pools of physical pages as allocators of frames: \<^verbatim>\<open>palloc\<close> and \<^verbatim>\<open>pfree\<close> of
  \<^verbatim>\<open>kernel/memory.c\<close> on the pools that \<^verbatim>\<open>mem_pool_init\<close> makes. \<^verbatim>\<open>pfree\<close> finds the pool of a
  frame by comparing with the start of the user pool, so the contract needs the kernel pool to
  end where the user pool starts (\<open>wf_pools\<close>), which \<^verbatim>\<open>mem_pool_init\<close> establishes.
\<close>

section \<open>The frames of a pool\<close>

definition frame :: "pool \<Rightarrow> nat \<Rightarrow> u32" where
  "frame P i = phy_addr_start P + of_nat i * PG_SIZE"

definition frame_count :: "pool \<Rightarrow> nat" where
  "frame_count P = btmp_bytes_len (pool_bitmap P) * 8"

definition frames :: "pool \<Rightarrow> u32 set" where
  "frames P = frame P ` {i. i < frame_count P}"

definition used_frames :: "pool \<Rightarrow> u32 set" where
  "used_frames P = frame P ` {i. i < frame_count P \<and> used (pool_bitmap P) i}"

definition wf_pool :: "pool \<Rightarrow> bool" where
  "wf_pool P \<longleftrightarrow> wf_bitmap (pool_bitmap P) \<and> aligned (phy_addr_start P)
     \<and> unat (phy_addr_start P) + frame_count P * 4096 \<le> 2 ^ 32"

definition wf_pools :: "'a vm_scheme \<Rightarrow> bool" where
  "wf_pools s \<longleftrightarrow> wf_pool (kernel_pool s) \<and> wf_pool (user_pool s)
     \<and> unat (phy_addr_start (kernel_pool s)) + frame_count (kernel_pool s) * 4096
         \<le> unat (phy_addr_start (user_pool s))"

lemma frame_unat:
  assumes "wf_pool P" and "i < frame_count P"
  shows "unat (frame P i) = unat (phy_addr_start P) + i * 4096"
proof -
  have "unat (phy_addr_start P) + i * 4096 < 2 ^ 32" using assms by (simp add: wf_pool_def)
  moreover have "frame P i = of_nat (unat (phy_addr_start P) + i * 4096)"
    by (simp add: frame_def PG_SIZE_def)
  ultimately show ?thesis by (simp only: unat_word_of_nat32)
qed

lemma frame_inj:
  "wf_pool P \<Longrightarrow> i < frame_count P \<Longrightarrow> j < frame_count P \<Longrightarrow> frame P i = frame P j \<longleftrightarrow> i = j"
  by (metis add_left_cancel frame_unat mult_cancel2 zero_neq_numeral)

lemma frame_index:
  assumes "wf_pool P" and "i < frame_count P"
  shows "unat ((frame P i - phy_addr_start P) div PG_SIZE) = i"
proof -
  have "i * 4096 < 2 ^ 32" using assms by (simp add: wf_pool_def)
  then have "unat (of_nat i * 4096 :: u32) = i * 4096"
    using unat_word_of_nat32 [of "i * 4096"] by simp
  then show ?thesis by (simp add: frame_def PG_SIZE_def unat_div)
qed

lemma used_frame_iff:
  "wf_pool P \<Longrightarrow> i < frame_count P \<Longrightarrow> frame P i \<in> used_frames P \<longleftrightarrow> used (pool_bitmap P) i"
  using frame_inj [of P i] by (auto simp: used_frames_def)

lemma frame_aligned: "wf_pool P \<Longrightarrow> i < frame_count P \<Longrightarrow> aligned (frame P i)"
  by (simp add: aligned_unat frame_unat wf_pool_def)

section \<open>The allocator of one pool\<close>

lemma palloc_spec:
  assumes "wf_pool P"
  shows "if frames P \<subseteq> used_frames P then \<exists>e. palloc P = Inl e
    else \<exists>f P'. palloc P = Inr (f, P') \<and> wf_pool P' \<and> f \<in> frames P \<and> f \<notin> used_frames P
      \<and> used_frames P' = insert f (used_frames P) \<and> frames P' = frames P
      \<and> phy_addr_start P' = phy_addr_start P \<and> frame_count P' = frame_count P"
proof -
  have wf: "wf_bitmap (pool_bitmap P)" using assms by (simp add: wf_pool_def)
  note spec = bit_alloc_spec [OF wf]
  have room: "frames P \<subseteq> used_frames P \<longleftrightarrow> \<not> (\<exists>k < frame_count P. \<not> used (pool_bitmap P) k)"
    using used_frame_iff [OF assms] by (auto simp: frames_def)
  show ?thesis
  proof (cases "\<exists>k < frame_count P. \<not> used (pool_bitmap P) k")
    case False
    with spec room show ?thesis by (auto simp: palloc_def frame_count_def split: if_splits)
  next
    case True
    with spec obtain i m' where i: "bitmap_scan (pool_bitmap P) 1 = Inr (int i)"
      "bitmap_set (pool_bitmap P) i 1 = Inr m'" "i < frame_count P" "\<not> used (pool_bitmap P) i"
      "btmp_bytes_len m' = btmp_bytes_len (pool_bitmap P)" "length (bits m') = length (bits (pool_bitmap P))"
      "\<forall>j. used m' j \<longleftrightarrow> j = i \<or> used (pool_bitmap P) j"
      by (auto simp: frame_count_def)
    let ?P = "P\<lparr>pool_bitmap := m'\<rparr>"
    have fr: "frame ?P j = frame P j" "frame_count ?P = frame_count P" for j
      using i(5) by (simp_all add: frame_def frame_count_def)
    have "palloc P = Inr (frame P i, ?P)"
      using i(1,2) by (simp add: palloc_def frame_def add.commute)
    moreover have "wf_pool ?P" using assms i(5,6) by (simp add: wf_pool_def wf_bitmap_def frame_count_def)
    moreover have "used_frames ?P = insert (frame P i) (used_frames P)"
      using i(3,7) unfolding used_frames_def fr by auto
    moreover have "frames ?P = frames P" unfolding frames_def fr ..
    ultimately show ?thesis
      using True room i(3,4) used_frame_iff [OF assms i(3)] fr(2) by (auto simp: frames_def)
  qed
qed

definition pool_free :: "u32 \<Rightarrow> pool \<Rightarrow> pool res" where
  "pool_free f P =
     rbind (bitmap_set (pool_bitmap P) (unat ((f - phy_addr_start P) div PG_SIZE)) 0) (\<lambda>m.
     Inr (P\<lparr>pool_bitmap := m\<rparr>))"

lemma pool_free_spec:
  assumes wf: "wf_pool P" and f: "f \<in> frames P"
  shows "\<exists>P'. pool_free f P = Inr P' \<and> wf_pool P' \<and> used_frames P' = used_frames P - {f}
    \<and> frames P' = frames P \<and> phy_addr_start P' = phy_addr_start P \<and> frame_count P' = frame_count P"
proof -
  from f obtain i where i: "i < frame_count P" "f = frame P i" by (auto simp: frames_def)
  have "wf_bitmap (pool_bitmap P)" "i < btmp_bytes_len (pool_bitmap P) * 8"
    using wf i by (simp_all add: wf_pool_def frame_count_def)
  from bitmap_set_backed [OF wf_backed [OF this], of 0] obtain m' where
    m': "bitmap_set (pool_bitmap P) i 0 = Inr m'"
      "btmp_bytes_len m' = btmp_bytes_len (pool_bitmap P)" "length (bits m') = length (bits (pool_bitmap P))"
      "\<forall>j. used m' j = (if j = i then False else used (pool_bitmap P) j)" by auto
  let ?P = "P\<lparr>pool_bitmap := m'\<rparr>"
  have fr: "frame ?P j = frame P j" "frame_count ?P = frame_count P" for j
    using m'(2) by (simp_all add: frame_def frame_count_def)
  have "pool_free f P = Inr ?P" using m'(1) i frame_index [OF wf i(1)] by (simp add: pool_free_def)
  moreover have "wf_pool ?P" using wf m' by (simp add: wf_pool_def wf_bitmap_def frame_count_def)
  moreover have "used_frames ?P = used_frames P - {f}"
    using m'(4) frame_inj [OF wf] i unfolding used_frames_def fr by auto
  moreover have "frames ?P = frames P" unfolding frames_def fr ..
  ultimately show ?thesis using fr(2) by auto
qed

section \<open>The two pools in the kernel's state\<close>

text \<open>The call \<^verbatim>\<open>palloc(mem_pool)\<close> as \<^verbatim>\<open>malloc_page\<close> and \<^verbatim>\<open>get_a_page\<close> make it.\<close>

definition palloc_kernel :: "'a vm_scheme \<Rightarrow> (u32 \<times> 'a vm_scheme) res" where
  "palloc_kernel s = rbind (palloc (kernel_pool s)) (\<lambda>(f, P). Inr (f, s\<lparr>kernel_pool := P\<rparr>))"

definition palloc_user :: "'a vm_scheme \<Rightarrow> (u32 \<times> 'a vm_scheme) res" where
  "palloc_user s = rbind (palloc (user_pool s)) (\<lambda>(f, P). Inr (f, s\<lparr>user_pool := P\<rparr>))"

lemma frames_range:
  assumes "wf_pool P" and "f \<in> frames P"
  shows "unat (phy_addr_start P) \<le> unat f \<and> unat f < unat (phy_addr_start P) + frame_count P * 4096"
proof -
  from assms(2) obtain i where "i < frame_count P" "f = frame P i" by (auto simp: frames_def)
  with frame_unat [OF assms(1)] show ?thesis by simp
qed

lemma frames_disjoint:
  assumes "wf_pools s"
  shows "frames (kernel_pool s) \<inter> frames (user_pool s) = {}"
proof -
  have "f \<notin> frames (user_pool s)" if "f \<in> frames (kernel_pool s)" for f
    using frames_range [of "kernel_pool s" f] frames_range [of "user_pool s" f] that assms
    unfolding wf_pools_def by linarith
  then show ?thesis by auto
qed

lemma pfree_pool:
  assumes "wf_pools s"
  shows "f \<in> frames (user_pool s) \<Longrightarrow>
      pfree f s = rbind (pool_free f (user_pool s)) (\<lambda>P. Inr (s\<lparr>user_pool := P\<rparr>))"
    and "f \<in> frames (kernel_pool s) \<Longrightarrow>
      pfree f s = rbind (pool_free f (kernel_pool s)) (\<lambda>P. Inr (s\<lparr>kernel_pool := P\<rparr>))"
proof -
  show "pfree f s = rbind (pool_free f (user_pool s)) (\<lambda>P. Inr (s\<lparr>user_pool := P\<rparr>))"
    if "f \<in> frames (user_pool s)"
    using frames_range [OF _ that] assms
    by (simp add: pfree_def pool_free_def wf_pools_def word_le_nat_alt rbind_assoc)
  show "pfree f s = rbind (pool_free f (kernel_pool s)) (\<lambda>P. Inr (s\<lparr>kernel_pool := P\<rparr>))"
    if "f \<in> frames (kernel_pool s)"
    using frames_range [OF _ that] assms
    by (simp add: pfree_def pool_free_def wf_pools_def word_le_nat_alt rbind_assoc)
qed

interpretation upool: id_allocator wf_pools "\<lambda>s. frames (user_pool s)" "\<lambda>s. used_frames (user_pool s)"
  palloc_user pfree
proof
  fix s s' :: "'a vm_scheme" and i
  assume wf: "wf_pools s" and a: "palloc_user s = Inr (i, s')"
  with palloc_spec [of "user_pool s"] show "wf_pools s' \<and> i \<in> frames (user_pool s)
      \<and> i \<notin> used_frames (user_pool s) \<and> used_frames (user_pool s') = insert i (used_frames (user_pool s))
      \<and> frames (user_pool s') = frames (user_pool s)"
    by (auto simp: palloc_user_def wf_pools_def rbind_Inr_iff split: if_splits)
next
  fix s :: "'a vm_scheme" assume "wf_pools s" "\<not> frames (user_pool s) \<subseteq> used_frames (user_pool s)"
  with palloc_spec [of "user_pool s"] show "\<exists>r. palloc_user s = Inr r"
    by (auto simp: palloc_user_def wf_pools_def)
next
  fix s :: "'a vm_scheme" assume "wf_pools s" "frames (user_pool s) \<subseteq> used_frames (user_pool s)"
  with palloc_spec [of "user_pool s"] show "\<exists>e. palloc_user s = Inl e"
    by (auto simp: palloc_user_def wf_pools_def)
next
  fix s :: "'a vm_scheme" and i assume wf: "wf_pools s" and i: "i \<in> frames (user_pool s)"
  with pool_free_spec [of "user_pool s" i] show "\<exists>s'. pfree i s = Inr s' \<and> wf_pools s'
      \<and> used_frames (user_pool s') = used_frames (user_pool s) - {i}
      \<and> frames (user_pool s') = frames (user_pool s)"
    by (auto simp: pfree_pool wf_pools_def)
qed

interpretation kpool: id_allocator wf_pools "\<lambda>s. frames (kernel_pool s)" "\<lambda>s. used_frames (kernel_pool s)"
  palloc_kernel pfree
proof
  fix s s' :: "'a vm_scheme" and i
  assume wf: "wf_pools s" and a: "palloc_kernel s = Inr (i, s')"
  with palloc_spec [of "kernel_pool s"] show "wf_pools s' \<and> i \<in> frames (kernel_pool s)
      \<and> i \<notin> used_frames (kernel_pool s)
      \<and> used_frames (kernel_pool s') = insert i (used_frames (kernel_pool s))
      \<and> frames (kernel_pool s') = frames (kernel_pool s)"
    by (auto simp: palloc_kernel_def wf_pools_def rbind_Inr_iff split: if_splits)
next
  fix s :: "'a vm_scheme" assume "wf_pools s" "\<not> frames (kernel_pool s) \<subseteq> used_frames (kernel_pool s)"
  with palloc_spec [of "kernel_pool s"] show "\<exists>r. palloc_kernel s = Inr r"
    by (auto simp: palloc_kernel_def wf_pools_def)
next
  fix s :: "'a vm_scheme" assume "wf_pools s" "frames (kernel_pool s) \<subseteq> used_frames (kernel_pool s)"
  with palloc_spec [of "kernel_pool s"] show "\<exists>e. palloc_kernel s = Inl e"
    by (auto simp: palloc_kernel_def wf_pools_def)
next
  fix s :: "'a vm_scheme" and i assume wf: "wf_pools s" and i: "i \<in> frames (kernel_pool s)"
  with pool_free_spec [of "kernel_pool s" i] show "\<exists>s'. pfree i s = Inr s' \<and> wf_pools s'
      \<and> used_frames (kernel_pool s') = used_frames (kernel_pool s) - {i}
      \<and> frames (kernel_pool s') = frames (kernel_pool s)"
    by (auto simp: pfree_pool wf_pools_def)
qed

section \<open>How the pools start\<close>

lemma bitmap_init_clear:
  assumes "length xs = n"
  shows "bitmap_init \<lparr>btmp_bytes_len = n, bits = xs\<rparr> = Inr \<lparr>btmp_bytes_len = n, bits = replicate n 0\<rparr>"
  using assms by (simp add: bitmap_init_def)

lemma clear_unused: "i < n * 8 \<Longrightarrow> \<not> used \<lparr>btmp_bytes_len = n, bits = replicate n 0\<rparr> i"
  by (simp add: used_def)

lemma clear_pool:
  fixes start size :: u32 and n :: nat
  defines "P \<equiv> \<lparr>pool_bitmap = \<lparr>btmp_bytes_len = n, bits = replicate n 0\<rparr>, phy_addr_start = start, pool_size = size\<rparr>"
  assumes "aligned start" and "unat start + n * 8 * 4096 \<le> 2 ^ 32"
  shows "wf_pool P \<and> used_frames P = {} \<and> frame_count P = n * 8"
  using assms(2,3) by (auto simp: P_def wf_pool_def wf_bitmap_def frame_count_def used_frames_def clear_unused)

lemma mem_pool_init_eq:
  assumes "0x200000 \<le> unat all_mem" and "unat all_mem < 0x10200000" and "0x4000 \<le> length region"
  defines "n \<equiv> (unat all_mem - 0x200000) div 4096"
  defines "k \<equiv> n div 2 div 8" and "u \<equiv> (n - n div 2) div 8"
  shows "\<exists>kp up kv. mem_pool_init all_mem region s
      = Inr (s\<lparr>kernel_pool := kp, user_pool := up, kernel_vaddr := kv\<rparr>)
    \<and> kp = \<lparr>pool_bitmap = \<lparr>btmp_bytes_len = k, bits = replicate k 0\<rparr>,
          phy_addr_start = 0x200000, pool_size = of_nat (n div 2 * 4096)\<rparr>
    \<and> up = \<lparr>pool_bitmap = \<lparr>btmp_bytes_len = u, bits = replicate u 0\<rparr>,
          phy_addr_start = of_nat (0x200000 + n div 2 * 4096), pool_size = of_nat ((n - n div 2) * 4096)\<rparr>
    \<and> kv = \<lparr>vaddr_bitmap = \<lparr>btmp_bytes_len = k, bits = replicate k 0\<rparr>, vaddr_start = K_HEAP_START\<rparr>"
proof -
  define m where "m = (ucast ((all_mem - 0x200000) div 4096) :: u16)"
  have n: "n < 65536" using assms(2) by (simp add: n_def less_mult_imp_div_less)
  have "unat ((all_mem - 0x200000) div 4096) = n"
    using assms(1) by (simp add: n_def unat_div unat_sub word_le_nat_alt)
  then have m: "unat m = n" using n by (simp add: m_def unsigned_ucast_eq take_bit_nat_eq_self)
  then have m2: "unat (m div 2) = n div 2" by (simp add: unat_div)
  have "m div 2 \<le> m" using m m2 by (simp add: word_le_nat_alt)
  then have m3: "unat (m - m div 2) = n - n div 2" using m m2 by (simp add: unat_sub)
  have c: "(ucast x :: u32) = of_nat (unat x)" for x :: u16 by simp
  have len: "length (take k region) = k" "length (take u (drop k region)) = u"
    "length (take k (drop (k + u) region)) = k"
    using n assms(3) by (simp_all add: k_def u_def)
  have used: "PG_SIZE * 256 + 0x100000 = 0x200000" by (simp add: PG_SIZE_def)
  show ?thesis
    unfolding mem_pool_init_def Let_def used
    unfolding PG_SIZE_def
    unfolding m_def [symmetric] m2 m3 c
    unfolding k_def [symmetric] u_def [symmetric]
    by (simp add: bitmap_init_clear [OF len(1)] bitmap_init_clear [OF len(2)] bitmap_init_clear [OF len(3)])
qed

text \<open>
  C36. \<^verbatim>\<open>mem_pool_init\<close> sets up the memory of a machine with between 2 and 258 MB: both pools are
  well formed and empty, the kernel pool ends before the user pool, every frame lies in the memory
  above the first 2 MB, and the kernel's virtual pool has one bit for each frame of the kernel pool.
\<close>

theorem mem_pool_init_layout:
  assumes "0x200000 \<le> unat all_mem" and "unat all_mem < 0x10200000" and "0x4000 \<le> length region"
  shows "\<exists>s'. mem_pool_init all_mem region s = Inr s' \<and> wf_pools s'
    \<and> used_frames (kernel_pool s') = {} \<and> used_frames (user_pool s') = {}
    \<and> (\<forall>f \<in> frames (kernel_pool s') \<union> frames (user_pool s').
         0x200000 \<le> unat f \<and> unat f + 4096 \<le> unat all_mem)
    \<and> btmp_bytes_len (vaddr_bitmap (kernel_vaddr s')) * 8 = frame_count (kernel_pool s')"
proof -
  define n where "n = (unat all_mem - 0x200000) div 4096"
  define k where "k = n div 2 div 8"
  define u where "u = (n - n div 2) div 8"
  obtain kp up kv where s': "mem_pool_init all_mem region s
      = Inr (s\<lparr>kernel_pool := kp, user_pool := up, kernel_vaddr := kv\<rparr>)"
    and kp: "kp = \<lparr>pool_bitmap = \<lparr>btmp_bytes_len = k, bits = replicate k 0\<rparr>,
          phy_addr_start = 0x200000, pool_size = of_nat (n div 2 * 4096)\<rparr>"
    and up: "up = \<lparr>pool_bitmap = \<lparr>btmp_bytes_len = u, bits = replicate u 0\<rparr>,
          phy_addr_start = of_nat (0x200000 + n div 2 * 4096), pool_size = of_nat ((n - n div 2) * 4096)\<rparr>"
    and kv: "kv = \<lparr>vaddr_bitmap = \<lparr>btmp_bytes_len = k, bits = replicate k 0\<rparr>, vaddr_start = K_HEAP_START\<rparr>"
    using mem_pool_init_eq [OF assms] unfolding n_def k_def u_def by blast
  have n: "0x200000 + n * 4096 \<le> unat all_mem" "n < 65536"
    using assms by (simp_all add: n_def less_mult_imp_div_less)
  have ku: "k * 8 \<le> n div 2" "u * 8 \<le> n - n div 2" by (simp_all add: k_def u_def)
  have st: "unat (of_nat (0x200000 + n div 2 * 4096) :: u32) = 0x200000 + n div 2 * 4096"
    using n(2) by (intro unat_word_of_nat32) simp
  have wk: "wf_pool kp \<and> used_frames kp = {} \<and> frame_count kp = k * 8"
    unfolding kp using ku n by (intro clear_pool) (simp_all add: aligned_def)
  have wu: "wf_pool up \<and> used_frames up = {} \<and> frame_count up = u * 8"
    unfolding up by (intro clear_pool; unfold aligned_unat st) (use ku n in auto)
  have "0x200000 \<le> unat f \<and> unat f + 4096 \<le> unat all_mem" if f: "f \<in> frames kp \<union> frames up" for f
  proof -
    from f obtain P i where P: "P = kp \<or> P = up" "i < frame_count P" "f = frame P i"
      by (auto simp: frames_def)
    with wk wu frame_unat have "unat f = unat (phy_addr_start P) + i * 4096" by metis
    moreover have "unat (phy_addr_start kp) = 0x200000"
      "unat (phy_addr_start up) = 0x200000 + n div 2 * 4096" using st by (simp_all only: kp up) simp_all
    moreover have "P = kp \<Longrightarrow> i < n div 2" "P = up \<Longrightarrow> i < n - n div 2" using P(2) wk wu ku by auto
    ultimately show ?thesis using P(1) n(1) by auto
  qed
  moreover have "wf_pools (s\<lparr>kernel_pool := kp, user_pool := up, kernel_vaddr := kv\<rparr>)"
    using wk wu ku st by (simp add: wf_pools_def) (simp add: kp up)
  ultimately show ?thesis
    using s' wk wu by (intro exI [of _ "s\<lparr>kernel_pool := kp, user_pool := up, kernel_vaddr := kv\<rparr>"])
      (simp add: kv)
qed

lemma mem_pool_init_layout_witness:
  "\<exists>s'. mem_pool_init 0x2000000 (replicate 0x4000 0xff) boot_vm = Inr s' \<and> wf_pools s'"
proof -
  have "\<exists>s'. mem_pool_init 0x2000000 (replicate 0x4000 0xff) boot_vm = Inr s' \<and> wf_pools s'
    \<and> used_frames (kernel_pool s') = {} \<and> used_frames (user_pool s') = {}
    \<and> (\<forall>f \<in> frames (kernel_pool s') \<union> frames (user_pool s').
         0x200000 \<le> unat f \<and> unat f + 4096 \<le> unat (0x2000000 :: u32))
    \<and> btmp_bytes_len (vaddr_bitmap (kernel_vaddr s')) * 8 = frame_count (kernel_pool s')"
    by (rule mem_pool_init_layout) simp_all
  then show ?thesis by blast
qed

text \<open>
  The page count is a \<^verbatim>\<open>uint16_t\<close>: on a machine with 258 MB the number of free pages is
  truncated to 0, and both pools are empty (the comment on the bitmap area promises 512 MB).
\<close>

theorem mem_pool_init_truncates:
  "\<exists>s'. mem_pool_init 0x10200000 region s = Inr s' \<and> frame_count (kernel_pool s') = 0
    \<and> frame_count (user_pool s') = 0 \<and> pool_size (kernel_pool s') = 0"
  by (simp add: mem_pool_init_def Let_def PG_SIZE_def bitmap_init_def frame_count_def)

text \<open>
  C27. Frames are never shared: any number of \<^verbatim>\<open>palloc\<close> calls on the user pool return distinct
  page-aligned frames that were free, none of them a frame of the kernel pool; and as many calls
  succeed as there are free frames.
\<close>

theorem palloc_no_sharing:
  assumes "wf_pools s"
  shows "(\<forall>fs s'. alloc_many palloc_user n s = Inr (fs, s') \<longrightarrow>
      distinct fs \<and> length fs = n \<and> set fs \<inter> used_frames (user_pool s) = {}
      \<and> set fs \<inter> frames (kernel_pool s) = {} \<and> (\<forall>f \<in> set fs. aligned f)
      \<and> wf_pools s' \<and> used_frames (user_pool s') = used_frames (user_pool s) \<union> set fs)
    \<and> (n \<le> card (frames (user_pool s) - used_frames (user_pool s)) \<longrightarrow>
      (\<exists>fs s'. alloc_many palloc_user n s = Inr (fs, s')))"
proof (intro conjI allI impI)
  fix fs s' assume a: "alloc_many palloc_user n s = Inr (fs, s')"
  note d = upool.alloc_many_distinct [OF assms a]
  show "distinct fs" "length fs = n" "set fs \<inter> used_frames (user_pool s) = {}" "wf_pools s'"
    "used_frames (user_pool s') = used_frames (user_pool s) \<union> set fs"
    using d by auto
  show "set fs \<inter> frames (kernel_pool s) = {}" using d frames_disjoint [OF assms] by auto
  show "\<forall>f \<in> set fs. aligned f"
    using d frame_aligned assms by (auto simp: frames_def wf_pools_def)
next
  assume "n \<le> card (frames (user_pool s) - used_frames (user_pool s))"
  then show "\<exists>fs s'. alloc_many palloc_user n s = Inr (fs, s')"
    by (intro upool.alloc_many_room [OF assms]) (simp_all add: frames_def)
qed

lemma boot_pools: "wf_pools boot_vm"
  by (simp add: wf_pools_def wf_pool_def boot_vm_def wf_bitmap_def frame_count_def aligned_def)

lemma palloc_no_sharing_witness:
  "\<exists>fs s'. alloc_many palloc_user 3 boot_vm = Inr (fs, s') \<and> distinct fs"
proof -
  let ?P = "user_pool boot_vm"
  have c: "frame_count ?P = 8" by (simp add: boot_vm_def frame_count_def)
  have "used_frames ?P = {}"
    by (auto simp: boot_vm_def used_frames_def frame_count_def used_def)
  moreover have "inj_on (frame ?P) {i. i < 8}"
    using frame_inj [of ?P] boot_pools c by (auto simp: wf_pools_def inj_on_def)
  then have "card (frames ?P) = 8" unfolding frames_def c by (simp add: card_image)
  ultimately have "3 \<le> card (frames ?P - used_frames ?P)" by simp
  with palloc_no_sharing [OF boot_pools, of 3] show ?thesis by blast
qed

text \<open>
  C28. \<^verbatim>\<open>pfree\<close> undoes \<^verbatim>\<open>palloc\<close>: a frame taken from either pool and freed is back in that pool,
  which has the free frames it had, and the other pool is as it was.
\<close>

theorem palloc_pfree:
  assumes "wf_pools s"
  shows "(\<forall>f s1. palloc_user s = Inr (f, s1) \<longrightarrow> (\<exists>s2. pfree f s1 = Inr s2
        \<and> used_frames (user_pool s2) = used_frames (user_pool s) \<and> kernel_pool s2 = kernel_pool s))
    \<and> (\<forall>f s1. palloc_kernel s = Inr (f, s1) \<longrightarrow> (\<exists>s2. pfree f s1 = Inr s2
        \<and> used_frames (kernel_pool s2) = used_frames (kernel_pool s) \<and> user_pool s2 = user_pool s))"
proof (intro conjI allI impI)
  fix f s1 assume a: "palloc_user s = Inr (f, s1)"
  note fr = upool.alloc_fresh [OF assms a]
  from a have "kernel_pool s1 = kernel_pool s" by (auto simp: palloc_user_def rbind_Inr_iff)
  moreover obtain s2 where s2: "pfree f s1 = Inr s2" "used_frames (user_pool s2) = used_frames (user_pool s)"
    using upool.alloc_release [OF assms a] by blast
  moreover from s2 fr have "kernel_pool s2 = kernel_pool s1"
    by (auto simp: pfree_pool rbind_Inr_iff)
  ultimately show "\<exists>s2. pfree f s1 = Inr s2
      \<and> used_frames (user_pool s2) = used_frames (user_pool s) \<and> kernel_pool s2 = kernel_pool s" by auto
next
  fix f s1 assume a: "palloc_kernel s = Inr (f, s1)"
  note fr = kpool.alloc_fresh [OF assms a]
  from a have "user_pool s1 = user_pool s" by (auto simp: palloc_kernel_def rbind_Inr_iff)
  moreover obtain s2 where s2: "pfree f s1 = Inr s2" "used_frames (kernel_pool s2) = used_frames (kernel_pool s)"
    using kpool.alloc_release [OF assms a] by blast
  moreover from s2 fr have "user_pool s2 = user_pool s1"
    by (auto simp: pfree_pool rbind_Inr_iff)
  ultimately show "\<exists>s2. pfree f s1 = Inr s2
      \<and> used_frames (kernel_pool s2) = used_frames (kernel_pool s) \<and> user_pool s2 = user_pool s" by auto
qed

lemma palloc_pfree_witness:
  "\<exists>s1 s2. palloc_user boot_vm = Inr (0x208000, s1) \<and> pfree 0x208000 s1 = Inr s2"
proof -
  have "\<exists>s1. palloc_user boot_vm = Inr (0x208000, s1)"
    unfolding palloc_user_def boot_vm_def
    by (rule exI) (simp add: palloc_def, code_simp)
  then show ?thesis using palloc_pfree [OF boot_pools] by blast
qed

end
