(* ===== verification/Sched.thy ===== *)
theory Sched
  imports Pools
begin

text \<open>
  Threads and the scheduler: the process control block of \<^verbatim>\<open>thread/thread.h\<close>, the context
  switch of \<^verbatim>\<open>thread/switch.S\<close>, \<^verbatim>\<open>schedule\<close>, \<^verbatim>\<open>thread_block\<close>, \<^verbatim>\<open>thread_unblock\<close> and
  \<^verbatim>\<open>thread_yield\<close> of \<^verbatim>\<open>thread/thread.c\<close>, the page directory switch of
  \<^verbatim>\<open>userprog/process.c\<close> with \<^verbatim>\<open>update_tss_esp\<close>, and the timer's handler of
  \<^verbatim>\<open>device/timer.c\<close>, all on one record of the kernel's state.

  A thread is the address of the page its control block starts; the fields of the blocks are
  \<open>tasks\<close>. The two list nodes of a block are the addresses 68 and 76 bytes into it, so the
  ready list and the list of all threads are lists in the memory of \<open>Klist\<close>. The words on the
  kernel stacks are \<open>stk\<close>. The running thread is found as the code finds it, from \<^verbatim>\<open>esp\<close>.
\<close>

section \<open>The state\<close>

datatype task_status =
  TASK_RUNNING | TASK_READY | TASK_BLOCKED | TASK_WAITING | TASK_HANGING | TASK_DIED

record task_struct =
  self_kstack :: u32
  pid :: u16
  status :: task_status
  task_name :: "u8 list"
  priority :: u8
  ticks :: u8
  elapsed_ticks :: u32
  fd_table :: "u32 list"
  pgdir :: u32
  userprog_vaddr :: virtual_addr
  cwd_inode_nr :: u32
  parent_pid :: u16
  stack_magic :: u32

text \<open>The registers a function call preserves.\<close>

record regs =
  ebp :: u32
  ebx :: u32
  edi :: u32
  esi :: u32

record kernel = vm +
  tasks :: "u32 \<Rightarrow> task_struct"
  regs :: regs
  esp :: u32
  eip :: u32
  stk :: "u32 \<Rightarrow> u32"
  tss_esp0 :: u32
  old_status :: "u32 \<Rightarrow> intr_status"
  thread_ready_list :: u32
  thread_all_list :: u32
  main_thread :: u32
  idle_thread :: u32
  total_ticks :: u32
  next_pid :: u16
  sem_value :: "u32 \<Rightarrow> u8"
  lock_holder :: "u32 \<Rightarrow> u32"
  lock_repeat :: "u32 \<Rightarrow> u32"

abbreviation upd_task :: "u32 \<Rightarrow> (task_struct \<Rightarrow> task_struct) \<Rightarrow> kernel \<Rightarrow> kernel" where
  "upd_task t f s \<equiv> s\<lparr>tasks := (tasks s)(t := f (tasks s t))\<rparr>"

text \<open>The offsets of the two list nodes in \<^verbatim>\<open>struct task_struct\<close>.\<close>

definition general_tag :: "u32 \<Rightarrow> u32" where "general_tag t = t + 68"
definition all_list_tag :: "u32 \<Rightarrow> u32" where "all_list_tag t = t + 76"

section \<open>The code\<close>

definition running_thread :: "kernel \<Rightarrow> u32" where
  "running_thread s = page (esp s)"

text \<open>
  \<^verbatim>\<open>switch_to(cur, next)\<close>: \<open>ret\<close> is the return address the call has pushed. The callee-saved
  registers go below it, \<^verbatim>\<open>self_kstack\<close> keeps the stack pointer, and the new thread's frame is
  popped.
\<close>

definition push_word :: "u32 \<Rightarrow> kernel \<Rightarrow> kernel" where
  "push_word x s = s\<lparr>esp := esp s - 4, stk := (stk s)(esp s - 4 := x)\<rparr>"

definition pop_word :: "kernel \<Rightarrow> u32 \<times> kernel" where
  "pop_word s = (stk s (esp s), s\<lparr>esp := esp s + 4\<rparr>)"

definition switch_out :: "u32 \<Rightarrow> u32 \<Rightarrow> kernel \<Rightarrow> kernel" where
  "switch_out cur ret s =
     (let s = push_word ret s;
          s = push_word (esi (regs s)) s;
          s = push_word (edi (regs s)) s;
          s = push_word (ebx (regs s)) s;
          s = push_word (ebp (regs s)) s
      in upd_task cur (\<lambda>t. t\<lparr>self_kstack := esp s\<rparr>) s)"

definition switch_in :: "u32 \<Rightarrow> kernel \<Rightarrow> kernel" where
  "switch_in next s =
     (let s = s\<lparr>esp := self_kstack (tasks s next)\<rparr>;
          (bp, s) = pop_word s;
          (bx, s) = pop_word s;
          (di, s) = pop_word s;
          (si, s) = pop_word s;
          (ip, s) = pop_word s
      in s\<lparr>regs := \<lparr>ebp = bp, ebx = bx, edi = di, esi = si\<rparr>, eip := ip\<rparr>)"

definition switch_to :: "u32 \<Rightarrow> u32 \<Rightarrow> u32 \<Rightarrow> kernel \<Rightarrow> kernel" where
  "switch_to cur next ret s = switch_in next (switch_out cur ret s)"

definition page_dir_activate :: "u32 \<Rightarrow> kernel \<Rightarrow> kernel res" where
  "page_dir_activate p_thread s =
     rbind (if pgdir (tasks s p_thread) \<noteq> 0 then addr_v2p (pgdir (tasks s p_thread)) s else Inr 0x100000)
       (\<lambda>pagedir_phy_addr. Inr (s\<lparr>cr3 := pagedir_phy_addr, tlb := (\<lambda>_. None)\<rparr>))"

definition update_tss_esp :: "u32 \<Rightarrow> kernel \<Rightarrow> kernel" where
  "update_tss_esp pthread s = s\<lparr>tss_esp0 := pthread + PG_SIZE\<rparr>"

definition process_activate :: "u32 \<Rightarrow> kernel \<Rightarrow> kernel res" where
  "process_activate p_thread s =
     rbind (c_assert (p_thread \<noteq> 0)) (\<lambda>_.
     rbind (page_dir_activate p_thread s) (\<lambda>s.
     Inr (if pgdir (tasks s p_thread) \<noteq> 0 then update_tss_esp p_thread s else s)))"

definition thread_unblock :: "u32 \<Rightarrow> kernel \<Rightarrow> kernel res" where
  "thread_unblock pthread s0 =
     (let (old, s) = intr_disable s0;
          st = status (tasks s pthread)
      in rbind (c_assert (st = TASK_BLOCKED \<or> st = TASK_WAITING \<or> st = TASK_HANGING)) (\<lambda>_.
         rbind (if st \<noteq> TASK_READY
                then rbind (elem_find (thread_ready_list s) (general_tag pthread) s) (\<lambda>found.
                     rbind (c_assert (\<not> found)) (\<lambda>_.
                     rbind (elem_find (thread_ready_list s) (general_tag pthread) s) (\<lambda>again.
                     if again then Inl Panic
                     else Inr (upd_task pthread (\<lambda>t. t\<lparr>status := TASK_READY\<rparr>)
                            (list_push (thread_ready_list s) (general_tag pthread) s)))))
                else Inr s) (\<lambda>s.
         Inr (snd (intr_set_status old s)))))"

definition schedule :: "u32 \<Rightarrow> kernel \<Rightarrow> kernel res" where
  "schedule ret s =
     rbind (c_assert (intr_get_status s = INTR_OFF)) (\<lambda>_.
     let cur = running_thread s
     in rbind (if status (tasks s cur) = TASK_RUNNING
               then rbind (elem_find (thread_ready_list s) (general_tag cur) s) (\<lambda>found.
                    rbind (c_assert (\<not> found)) (\<lambda>_.
                    Inr (upd_task cur (\<lambda>t. t\<lparr>ticks := priority t, status := TASK_READY\<rparr>)
                          (list_append (thread_ready_list s) (general_tag cur) s))))
               else Inr s) (\<lambda>s.
        rbind (if list_empty (thread_ready_list s) s then thread_unblock (idle_thread s) s else Inr s) (\<lambda>s.
        rbind (c_assert (\<not> list_empty (thread_ready_list s) s)) (\<lambda>_.
        let (thread_tag, s) = list_pop (thread_ready_list s) s;
            next = page thread_tag;
            s = upd_task next (\<lambda>t. t\<lparr>status := TASK_RUNNING\<rparr>) s
        in rbind (process_activate next s) (\<lambda>s.
           Inr (switch_to cur next ret s))))))"

text \<open>
  What the thread that got the processor does next: it returns from its own call of
  \<^verbatim>\<open>schedule\<close> and restores the interrupt status it had saved in its local \<^verbatim>\<open>old_status\<close>. A new
  thread enters \<^verbatim>\<open>kernel_thread\<close>, which enables interrupts, and a thread that was preempted by
  the timer returns from the interrupt with them enabled: their \<open>old_status\<close> is \<open>INTR_ON\<close>.
\<close>

definition resume :: "kernel \<Rightarrow> kernel" where
  "resume s = snd (intr_set_status (old_status s (running_thread s)) s)"

definition thread_yield :: "u32 \<Rightarrow> kernel \<Rightarrow> kernel res" where
  "thread_yield ret s0 =
     (let cur = running_thread s0;
          (old, s) = intr_disable s0;
          s = s\<lparr>old_status := (old_status s)(cur := old)\<rparr>
      in rbind (elem_find (thread_ready_list s) (general_tag cur) s) (\<lambda>found.
         rbind (c_assert (\<not> found)) (\<lambda>_.
         let s = list_append (thread_ready_list s) (general_tag cur) s;
             s = upd_task cur (\<lambda>t. t\<lparr>status := TASK_READY\<rparr>) s
         in rbind (schedule ret s) (\<lambda>s. Inr (resume s)))))"

definition thread_block :: "task_status \<Rightarrow> u32 \<Rightarrow> kernel \<Rightarrow> kernel res" where
  "thread_block stat ret s0 =
     rbind (c_assert (stat = TASK_BLOCKED \<or> stat = TASK_WAITING \<or> stat = TASK_HANGING)) (\<lambda>_.
     let (old, s) = intr_disable s0;
         cur_thread = running_thread s;
         s = s\<lparr>old_status := (old_status s)(cur_thread := old)\<rparr>;
         s = upd_task cur_thread (\<lambda>t. t\<lparr>status := stat\<rparr>) s
     in rbind (schedule ret s) (\<lambda>s. Inr (resume s)))"

text \<open>The timer's interrupt: the gate has cleared the interrupt flag, the return sets it again.\<close>

definition intr_timer_handler :: "u32 \<Rightarrow> kernel \<Rightarrow> kernel res" where
  "intr_timer_handler ret s0 =
     (let cur = running_thread s0;
          s = s0\<lparr>eflags_if := False, old_status := (old_status s0)(cur := INTR_ON)\<rparr>
      in rbind (c_assert (stack_magic (tasks s cur) = 0x12345678)) (\<lambda>_.
         let s = upd_task cur (\<lambda>t. t\<lparr>elapsed_ticks := elapsed_ticks t + 1\<rparr>) s;
             s = s\<lparr>total_ticks := total_ticks s + 1\<rparr>
         in rbind (if ticks (tasks s cur) = 0 then schedule ret s
                   else Inr (upd_task cur (\<lambda>t. t\<lparr>ticks := ticks t - 1\<rparr>) s)) (\<lambda>s. Inr (resume s))))"

section \<open>The context switch\<close>

lemma frame_steps:
  "(x :: u32) - 20 + 4 = x - 16" "x - 20 + 8 = x - 12" "x - 20 + 12 = x - 8" "x - 20 + 16 = x - 4"
  "x - 4 - 4 = x - 8" "x - 8 - 4 = x - 12" "x - 12 - 4 = x - 16" "x - 16 - 4 = x - 20"
  "x + 4 + 4 = x + 8" "x + 8 + 4 = x + 12" "x + 12 + 4 = x + 16" "x + 16 + 4 = x + 20"
  by simp_all

lemma switch_out_eq:
  "switch_out c ret s = s\<lparr>esp := esp s - 20,
     stk := (stk s)(esp s - 4 := ret, esp s - 8 := esi (regs s), esp s - 12 := edi (regs s),
       esp s - 16 := ebx (regs s), esp s - 20 := ebp (regs s)),
     tasks := (tasks s)(c := (tasks s c)\<lparr>self_kstack := esp s - 20\<rparr>)\<rparr>"
  by (simp add: switch_out_def push_word_def Let_def frame_steps)

lemma stk_switch_out:
  "stk (switch_out c ret s) = (stk s)(esp s - 4 := ret, esp s - 8 := esi (regs s),
     esp s - 12 := edi (regs s), esp s - 16 := ebx (regs s), esp s - 20 := ebp (regs s))"
  by (simp add: switch_out_eq)

lemma switch_in_eq:
  "switch_in n s = (let k = self_kstack (tasks s n) in s\<lparr>esp := k + 20,
     regs := \<lparr>ebp = stk s (k + 0), ebx = stk s (k + 4), edi = stk s (k + 8), esi = stk s (k + 12)\<rparr>,
     eip := stk s (k + 16)\<rparr>)"
  by (simp add: switch_in_def pop_word_def Let_def frame_steps) (simp add: add.commute)

lemma switch_to_fields:
  "esp (switch_to c n ret s) = (if n = c then esp s - 20 else self_kstack (tasks s n)) + 20"
  "tasks (switch_to c n ret s) = (tasks s)(c := (tasks s c)\<lparr>self_kstack := esp s - 20\<rparr>)"
  "nxt (switch_to c n ret s) = nxt s" "prv (switch_to c n ret s) = prv s"
  "eflags_if (switch_to c n ret s) = eflags_if s" "pmem (switch_to c n ret s) = pmem s"
  "cr3 (switch_to c n ret s) = cr3 s" "tlb (switch_to c n ret s) = tlb s"
  "tss_esp0 (switch_to c n ret s) = tss_esp0 s" "old_status (switch_to c n ret s) = old_status s"
  "thread_ready_list (switch_to c n ret s) = thread_ready_list s"
  "thread_all_list (switch_to c n ret s) = thread_all_list s"
  "idle_thread (switch_to c n ret s) = idle_thread s" "sem_value (switch_to c n ret s) = sem_value s"
  "lock_holder (switch_to c n ret s) = lock_holder s" "lock_repeat (switch_to c n ret s) = lock_repeat s"
  by (simp_all add: switch_to_def switch_out_eq switch_in_eq Let_def)

text \<open>The frame that \<^verbatim>\<open>switch_to\<close> leaves on the stack of the thread it suspends.\<close>

definition saved_frame :: "kernel \<Rightarrow> u32 \<Rightarrow> regs \<Rightarrow> u32 \<Rightarrow> bool" where
  "saved_frame s sp r ret \<longleftrightarrow> stk s (sp + 0) = ebp r \<and> stk s (sp + 4) = ebx r \<and> stk s (sp + 8) = edi r
     \<and> stk s (sp + 12) = esi r \<and> stk s (sp + 16) = ret"

lemma switch_to_saves:
  "saved_frame (switch_to c n ret s) (esp s - 20) (regs s) ret"
  by (simp add: saved_frame_def switch_to_def switch_out_eq switch_in_eq Let_def frame_steps)

lemma page_between:
  assumes "page (x + 20) = page x" and "k \<le> 20"
  shows "page (x + k) = page x"
proof -
  define q where "q = (x AND 0xfff)"
  define r where "r = ((x + 20) AND 0xfff)"
  have x: "page x + q = x" unfolding q_def by (rule page_offset)
  have "page x + r = x + 20" using page_offset [of "x + 20"] unfolding assms(1) r_def .
  then have "page x + r = page x + (q + 20)" using x by (metis add.assoc)
  then have r: "r = q + 20" by simp
  have "q < 4096" "r < 4096" unfolding q_def r_def by (rule offset_less)+
  then have u: "unat q < 4096" "unat (q + 20) < 4096" unfolding r by (simp_all add: word_less_nat_alt)
  have "unat (q + 20) = unat q + 20" using u(1) by (simp add: unat_word_ariths)
  then have "unat q + unat k < 4096" using u(2) assms(2) by (simp add: word_le_nat_alt)
  then have "q + k < 4096" by (simp add: word_less_nat_alt unat_word_ariths)
  then have "page (page x + (q + k)) = page x" by (simp add: page_add)
  then show ?thesis using x by (metis add.assoc)
qed

lemma frame_untouched:
  fixes k e :: u32
  assumes "\<And>i j. i \<le> 20 \<Longrightarrow> j \<le> 20 \<Longrightarrow> k + i \<noteq> e - 20 + j" and "i \<le> 20"
  shows "(f(e - 4 := a, e - 8 := b, e - 12 := c, e - 16 := d, e - 20 := g)) (k + i) = f (k + i)"
proof -
  have "k + i \<noteq> e - 4" "k + i \<noteq> e - 8" "k + i \<noteq> e - 12" "k + i \<noteq> e - 16" "k + i \<noteq> e - 20"
    using assms(1) [OF assms(2), of 16] assms(1) [OF assms(2), of 12] assms(1) [OF assms(2), of 8]
      assms(1) [OF assms(2), of 4] assms(1) [OF assms(2), of 0] by simp_all
  then show ?thesis by simp
qed

text \<open>The suspended thread's frame comes back into the registers, with its return address.\<close>

lemma switch_to_restores:
  assumes "n \<noteq> c" and fr: "saved_frame s (self_kstack (tasks s n)) r ip"
    and ne: "page (self_kstack (tasks s n)) \<noteq> page (esp s)" and c: "page (esp s - 20) = page (esp s)"
    and n: "page (self_kstack (tasks s n) + 20) = page (self_kstack (tasks s n))"
  shows "regs (switch_to c n ret s) = r \<and> eip (switch_to c n ret s) = ip"
proof -
  let ?k = "self_kstack (tasks s n)"
  have "page (?k + i) = page ?k" if "i \<le> 20" for i by (rule page_between [OF n that])
  moreover have "page (esp s - 20 + j) = page (esp s)" if "j \<le> 20" for j
    using page_between [of "esp s - 20" j] c that by simp
  ultimately have ne: "?k + i \<noteq> esp s - 20 + j" if "i \<le> 20" "j \<le> 20" for i j using ne that by metis
  show ?thesis
  proof -
    let ?s = "switch_out c ret s"
    have k: "self_kstack (tasks ?s n) = ?k" using assms(1) by (simp add: switch_out_eq)
    have u: "stk ?s (?k + i) = stk s (?k + i)" if "i \<le> 20" for i
      unfolding stk_switch_out by (rule frame_untouched [OF ne that])
    have "stk ?s (?k + 0) = ebp r" "stk ?s (?k + 4) = ebx r" "stk ?s (?k + 8) = edi r"
      "stk ?s (?k + 12) = esi r" "stk ?s (?k + 16) = ip"
      using fr u [of 0] u [of 4] u [of 8] u [of 12] u [of 16] unfolding saved_frame_def
      by (auto simp: word_le_nat_alt)
    then show ?thesis by (simp add: switch_to_def switch_in_eq Let_def k)
  qed
qed

section \<open>The tags\<close>

lemma tag_page:
  assumes "aligned t"
  shows "page (general_tag t) = t" "page (all_list_tag t) = t"
  using assms by (simp_all add: general_tag_def all_list_tag_def page_add)

lemma tag_inj:
  "general_tag t = general_tag u \<longleftrightarrow> t = u" "all_list_tag t = all_list_tag u \<longleftrightarrow> t = u"
  by (simp_all add: general_tag_def all_list_tag_def)

lemma tag_kinds: "aligned t \<Longrightarrow> aligned u \<Longrightarrow> general_tag t \<noteq> all_list_tag u"
  using aligned_add_inj [of t u 68 76] by (simp add: general_tag_def all_list_tag_def)

section \<open>What a list operation can change\<close>

definition lists_kept :: "'a mem_scheme \<Rightarrow> 'a mem_scheme \<Rightarrow> u32 set \<Rightarrow> bool" where
  "lists_kept s s' X \<longleftrightarrow> (\<forall>x. x \<notin> X \<longrightarrow> nxt s' x = nxt s x \<and> prv s' x = prv s x)"

lemma lists_kept_dlist:
  "lists_kept s s' X \<Longrightarrow> set (cells l xs) \<inter> X = {} \<Longrightarrow> dlist s' l xs \<longleftrightarrow> dlist s l xs"
  by (rule dlist_frame) (auto simp: lists_kept_def)

lemma lists_kept_trans:
  "lists_kept s s' X \<Longrightarrow> lists_kept s' s'' X \<Longrightarrow> lists_kept s s'' X"
  by (simp add: lists_kept_def)

lemma lists_kept_mono: "lists_kept s s' X \<Longrightarrow> X \<subseteq> Y \<Longrightarrow> lists_kept s s' Y"
  by (auto simp: lists_kept_def)

lemma lists_kept_refl [simp]: "lists_kept s s X"
  by (simp add: lists_kept_def)

lemma kept_append: "dlist s l xs \<Longrightarrow> lists_kept s (list_append l e s) (insert e (set (cells l xs)))"
  using dlist_neighbours [of s l xs "tail_of l"]
  by (auto simp: lists_kept_def list_op_eqs set_cells)

lemma kept_push: "dlist s l xs \<Longrightarrow> lists_kept s (list_push l e s) (insert e (set (cells l xs)))"
  using dlist_neighbours [of s l xs "hd (xs @ [tail_of l])"] dlist_first [of s l xs]
  by (cases xs) (auto simp: lists_kept_def list_op_eqs set_cells)

lemma kept_pop:
  assumes "dlist s l (x # xs)"
  shows "lists_kept s (snd (list_pop l s)) (set (cells l (x # xs)))"
proof -
  have "nxt s l = x" using dlist_first [OF assms] by simp
  moreover have "nxt s x = hd (xs @ [tail_of l])" using dlist_next [of s l "[]" x xs] assms by simp
  then have "nxt s x \<in> set (cells l (x # xs))" by (cases xs) (auto simp: set_cells)
  moreover have "prv s x \<in> set (cells l (x # xs))" using dlist_neighbours [OF assms, of x] by simp
  ultimately show ?thesis by (auto simp: lists_kept_def list_op_eqs)
qed

section \<open>The address spaces of the threads\<close>

text \<open>
  Every page directory in use maps itself and maps the directory pages of all processes: they are
  kernel pages, which all address spaces share. \<open>dir t\<close> is the physical address of the
  directory of process \<open>t\<close>.
\<close>

definition roots :: "kernel \<Rightarrow> u32 set \<Rightarrow> (u32 \<Rightarrow> u32) \<Rightarrow> u32 set" where
  "roots s ts dir = insert 0x100000 (dir ` {t \<in> ts. pgdir (tasks s t) \<noteq> 0})"

definition spaces_ok :: "kernel \<Rightarrow> u32 set \<Rightarrow> (u32 \<Rightarrow> u32) \<Rightarrow> bool" where
  "spaces_ok s ts dir \<longleftrightarrow> cr3 s \<in> roots s ts dir
     \<and> (\<forall>r \<in> roots s ts dir. self_mapped (s\<lparr>cr3 := r\<rparr>)
         \<and> (\<forall>t \<in> ts. pgdir (tasks s t) \<noteq> 0 \<longrightarrow> walk (s\<lparr>cr3 := r\<rparr>) (pgdir (tasks s t)) = Some (dir t)))"

lemma walk_cong:
  "pmem s' = pmem s \<Longrightarrow> cr3 s' = cr3 s \<Longrightarrow> walk s' v = walk s v"
  "pmem s' = pmem s \<Longrightarrow> cr3 s' = cr3 s \<Longrightarrow> self_mapped s' = self_mapped s"
  by (simp_all add: walk_def pde_at_def pte_at_def self_mapped_def)

lemma spaces_ok_cong:
  assumes "spaces_ok s ts dir" and "pmem s' = pmem s" and "cr3 s' \<in> roots s ts dir"
    and "\<And>t. t \<in> ts \<Longrightarrow> pgdir (tasks s' t) = pgdir (tasks s t)"
  shows "spaces_ok s' ts dir"
proof -
  have r: "roots s' ts dir = roots s ts dir" using assms(4) by (auto simp: roots_def)
  have "walk (s'\<lparr>cr3 := x\<rparr>) v = walk (s\<lparr>cr3 := x\<rparr>) v" "self_mapped (s'\<lparr>cr3 := x\<rparr>) = self_mapped (s\<lparr>cr3 := x\<rparr>)"
    for x v
    by (rule walk_cong; simp add: assms(2))+
  with assms show ?thesis by (simp add: spaces_ok_def r)
qed

definition space_of :: "kernel \<Rightarrow> u32 \<Rightarrow> (u32 \<Rightarrow> u32) \<Rightarrow> u32" where
  "space_of s t dir = (if pgdir (tasks s t) = 0 then 0x100000 else dir t)"

lemma page_dir_activate_ok:
  assumes "spaces_ok s ts dir" and "t \<in> ts"
  shows "page_dir_activate t s = Inr (s\<lparr>cr3 := space_of s t dir, tlb := (\<lambda>_. None)\<rparr>)"
    and "space_of s t dir \<in> roots s ts dir"
proof -
  show "space_of s t dir \<in> roots s ts dir" using assms(2) by (auto simp: space_of_def roots_def)
  have same: "s\<lparr>cr3 := cr3 s\<rparr> = s" by simp
  from assms have "self_mapped s"
    "pgdir (tasks s t) \<noteq> 0 \<Longrightarrow> walk s (pgdir (tasks s t)) = Some (dir t)"
    unfolding spaces_ok_def using same by metis+
  then show "page_dir_activate t s = Inr (s\<lparr>cr3 := space_of s t dir, tlb := (\<lambda>_. None)\<rparr>)"
    by (simp add: page_dir_activate_def space_of_def addr_v2p_walk)
qed

section \<open>The scheduler's invariant\<close>

definition list_heads :: "kernel \<Rightarrow> u32 set" where
  "list_heads s = {thread_ready_list s, tail_of (thread_ready_list s),
     thread_all_list s, tail_of (thread_all_list s)}"

definition sched_lists :: "kernel \<Rightarrow> u32 list \<Rightarrow> u32 list \<Rightarrow> bool" where
  "sched_lists s rs ts \<longleftrightarrow>
     dlist s (thread_ready_list s) (map general_tag rs)
     \<and> dlist s (thread_all_list s) (map all_list_tag ts)
     \<and> distinct rs \<and> set rs \<subseteq> set ts
     \<and> (\<forall>t \<in> set ts. aligned t \<and> t \<noteq> 0)
     \<and> (\<forall>a \<in> list_heads s. page a \<notin> set ts)
     \<and> {thread_ready_list s, tail_of (thread_ready_list s)} \<inter> {thread_all_list s, tail_of (thread_all_list s)} = {}"

definition sched_states :: "kernel \<Rightarrow> u32 list \<Rightarrow> u32 list \<Rightarrow> bool" where
  "sched_states s rs ts \<longleftrightarrow>
     running_thread s \<in> set ts \<and> idle_thread s \<in> set ts
     \<and> (\<forall>t \<in> set ts. status (tasks s t) = TASK_READY \<longleftrightarrow> t \<in> set rs)
     \<and> (\<forall>t \<in> set ts. status (tasks s t) = TASK_RUNNING \<longrightarrow> t = running_thread s)
     \<and> status (tasks s (idle_thread s)) \<in> {TASK_RUNNING, TASK_READY, TASK_BLOCKED}"

definition sched_stacks :: "kernel \<Rightarrow> u32 list \<Rightarrow> bool" where
  "sched_stacks s ts \<longleftrightarrow> page (esp s - 20) = running_thread s
     \<and> (\<forall>t \<in> set ts. t \<noteq> running_thread s \<longrightarrow>
         page (self_kstack (tasks s t)) = t \<and> page (self_kstack (tasks s t) + 20) = t)"

definition sched_inv :: "kernel \<Rightarrow> u32 list \<Rightarrow> u32 list \<Rightarrow> (u32 \<Rightarrow> u32) \<Rightarrow> bool" where
  "sched_inv s rs ts dir \<longleftrightarrow> sched_lists s rs ts \<and> sched_states s rs ts \<and> sched_stacks s ts
     \<and> spaces_ok s (set ts) dir"

section \<open>The ready list as a list of threads\<close>

lemma list_op_kernel [simp]:
  fixes s :: kernel
  shows "tasks (list_append l e s) = tasks s" "tasks (list_push l e s) = tasks s"
    "tasks (snd (list_pop l s)) = tasks s"
    "pmem (list_append l e s) = pmem s" "pmem (list_push l e s) = pmem s" "pmem (snd (list_pop l s)) = pmem s"
    "cr3 (list_append l e s) = cr3 s" "cr3 (list_push l e s) = cr3 s" "cr3 (snd (list_pop l s)) = cr3 s"
    "esp (list_append l e s) = esp s" "esp (list_push l e s) = esp s" "esp (snd (list_pop l s)) = esp s"
    "thread_ready_list (list_append l e s) = thread_ready_list s"
    "thread_ready_list (list_push l e s) = thread_ready_list s"
    "thread_ready_list (snd (list_pop l s)) = thread_ready_list s"
    "thread_all_list (list_append l e s) = thread_all_list s"
    "thread_all_list (list_push l e s) = thread_all_list s"
    "thread_all_list (snd (list_pop l s)) = thread_all_list s"
    "idle_thread (list_append l e s) = idle_thread s" "idle_thread (list_push l e s) = idle_thread s"
    "idle_thread (snd (list_pop l s)) = idle_thread s"
    "old_status (list_append l e s) = old_status s" "old_status (list_push l e s) = old_status s"
    "old_status (snd (list_pop l s)) = old_status s"
    "sem_value (list_append l e s) = sem_value s" "sem_value (list_push l e s) = sem_value s"
    "sem_value (snd (list_pop l s)) = sem_value s"
    "lock_holder (list_append l e s) = lock_holder s" "lock_holder (list_push l e s) = lock_holder s"
    "lock_holder (snd (list_pop l s)) = lock_holder s"
    "lock_repeat (list_append l e s) = lock_repeat s" "lock_repeat (list_push l e s) = lock_repeat s"
    "lock_repeat (snd (list_pop l s)) = lock_repeat s"
  by (simp_all add: list_op_eqs)

lemma dlist_fields:
  "nxt s' = nxt s \<Longrightarrow> prv s' = prv s \<Longrightarrow> dlist s' l xs \<longleftrightarrow> dlist s l xs"
  by (simp add: dlist_def)

lemma sched_lists_cong:
  assumes "nxt s' = nxt s" and "prv s' = prv s"
    and "thread_ready_list s' = thread_ready_list s" and "thread_all_list s' = thread_all_list s"
  shows "sched_lists s' rs ts \<longleftrightarrow> sched_lists s rs ts"
  using assms by (simp add: sched_lists_def list_heads_def dlist_fields [of s' s])

lemma sched_lists_upd [simp]:
  "sched_lists (s\<lparr>tasks := a\<rparr>) rs ts = sched_lists s rs ts"
  "sched_lists (s\<lparr>eflags_if := b\<rparr>) rs ts = sched_lists s rs ts"
  "sched_lists (s\<lparr>cr3 := c\<rparr>) rs ts = sched_lists s rs ts"
  "sched_lists (s\<lparr>tlb := d\<rparr>) rs ts = sched_lists s rs ts"
  "sched_lists (s\<lparr>tss_esp0 := c\<rparr>) rs ts = sched_lists s rs ts"
  "sched_lists (s\<lparr>old_status := e\<rparr>) rs ts = sched_lists s rs ts"
  "sched_lists (s\<lparr>total_ticks := c\<rparr>) rs ts = sched_lists s rs ts"
  "sched_lists (s\<lparr>esp := c\<rparr>) rs ts = sched_lists s rs ts"
  by (rule sched_lists_cong; simp)+

lemma sched_lists_switch [simp]: "sched_lists (switch_to c n ret s) rs ts = sched_lists s rs ts"
  by (rule sched_lists_cong) (simp_all add: switch_to_fields)

abbreviation ready_cells :: "kernel \<Rightarrow> u32 list \<Rightarrow> u32 set" where
  "ready_cells s rs \<equiv> set (cells (thread_ready_list s) (map general_tag rs))"

lemma sched_lists_tags:
  assumes "sched_lists s rs ts" and "t \<in> set ts"
  shows "general_tag t \<notin> list_heads s" "all_list_tag t \<notin> list_heads s"
    "general_tag t \<in> ready_cells s rs \<longleftrightarrow> t \<in> set rs" "page (general_tag t) = t"
proof -
  have al: "aligned t" using assms by (auto simp: sched_lists_def)
  show h: "general_tag t \<notin> list_heads s" "all_list_tag t \<notin> list_heads s"
    using tag_page [OF al] assms by (auto simp: sched_lists_def)
  show "general_tag t \<in> ready_cells s rs \<longleftrightarrow> t \<in> set rs"
    using h by (auto simp: set_cells list_heads_def tag_inj)
  show "page (general_tag t) = t" by (rule tag_page [OF al])
qed

lemma all_cells_disjoint:
  assumes "sched_lists s rs ts" and "t \<in> set ts"
  shows "set (cells (thread_all_list s) (map all_list_tag ts)) \<inter> insert (general_tag t) (ready_cells s rs) = {}"
proof -
  have "general_tag u \<noteq> all_list_tag v" if "u \<in> set ts" "v \<in> set ts" for u v
    using assms(1) that tag_kinds [of u v] by (simp add: sched_lists_def)
  then have g: "general_tag u \<notin> set (cells (thread_all_list s) (map all_list_tag ts))" if "u \<in> set ts" for u
    using that sched_lists_tags(1) [OF assms(1) that] by (auto simp: set_cells list_heads_def)
  have h: "a \<notin> all_list_tag ` set ts" if "a \<in> list_heads s" for a
    using that sched_lists_tags(2) [OF assms(1)] by blast
  have "a \<notin> set (cells (thread_all_list s) (map all_list_tag ts))"
    if "a = thread_ready_list s \<or> a = tail_of (thread_ready_list s)" for a
    using that h [of a] assms(1) unfolding sched_lists_def list_heads_def set_cells by auto
  then have "a \<notin> set (cells (thread_all_list s) (map all_list_tag ts))"
    if "a \<in> insert (general_tag t) (ready_cells s rs)" for a
    using that g assms by (auto simp: sched_lists_def set_cells [of "thread_ready_list s"])
  then show ?thesis by (simp add: disjoint_iff) metis
qed

lemma ready_find:
  "sched_lists s rs ts \<Longrightarrow> t \<in> set ts \<Longrightarrow>
    elem_find (thread_ready_list s) (general_tag t) s = Inr (t \<in> set rs)"
  using dlist_elem_find [of s "thread_ready_list s" "map general_tag rs"]
  by (auto simp: sched_lists_def tag_inj)

lemma ready_empty: "sched_lists s rs ts \<Longrightarrow> list_empty (thread_ready_list s) s \<longleftrightarrow> rs = []"
  using dlist_empty [of s "thread_ready_list s" "map general_tag rs"] by (simp add: sched_lists_def)

lemma ready_append:
  assumes s: "sched_lists s rs ts" and t: "t \<in> set ts" "t \<notin> set rs"
  shows "sched_lists (list_append (thread_ready_list s) (general_tag t) s) (rs @ [t]) ts"
proof -
  have d: "dlist s (thread_ready_list s) (map general_tag rs)" using s by (simp add: sched_lists_def)
  have f: "general_tag t \<notin> ready_cells s rs" using sched_lists_tags(3) [OF s t(1)] t(2) by simp
  show ?thesis
    using s t dlist_append [OF d f] dlist_append_other [OF d all_cells_disjoint [OF s t(1)]]
    by (simp add: sched_lists_def list_heads_def)
qed

lemma ready_push:
  assumes s: "sched_lists s rs ts" and t: "t \<in> set ts" "t \<notin> set rs"
  shows "sched_lists (list_push (thread_ready_list s) (general_tag t) s) (t # rs) ts"
proof -
  have d: "dlist s (thread_ready_list s) (map general_tag rs)" using s by (simp add: sched_lists_def)
  have f: "general_tag t \<notin> ready_cells s rs" using sched_lists_tags(3) [OF s t(1)] t(2) by simp
  show ?thesis
    using s t dlist_push [OF d f] dlist_push_other [OF d all_cells_disjoint [OF s t(1)]]
    by (simp add: sched_lists_def list_heads_def)
qed

lemma ready_pop:
  assumes s: "sched_lists s (t # rs) ts"
  shows "fst (list_pop (thread_ready_list s) s) = general_tag t"
    and "sched_lists (snd (list_pop (thread_ready_list s) s)) rs ts"
proof -
  have d: "dlist s (thread_ready_list s) (general_tag t # map general_tag rs)" and t: "t \<in> set ts"
    using s by (auto simp: sched_lists_def)
  have o: "set (cells (thread_all_list s) (map all_list_tag ts))
      \<inter> set (cells (thread_ready_list s) (general_tag t # map general_tag rs)) = {}"
    using all_cells_disjoint [OF s t] by auto
  show "fst (list_pop (thread_ready_list s) s) = general_tag t" using dlist_pop [OF d] by simp
  show "sched_lists (snd (list_pop (thread_ready_list s) s)) rs ts"
    using s dlist_pop [OF d] dlist_pop_other [OF d o] by (simp add: sched_lists_def list_heads_def)
qed

section \<open>What the operations do to the threads\<close>

text \<open>What no scheduling operation touches.\<close>

definition rest_kept :: "kernel \<Rightarrow> kernel \<Rightarrow> bool" where
  "rest_kept s s' \<longleftrightarrow> pmem s' = pmem s \<and> thread_ready_list s' = thread_ready_list s
     \<and> thread_all_list s' = thread_all_list s \<and> idle_thread s' = idle_thread s
     \<and> sem_value s' = sem_value s \<and> lock_holder s' = lock_holder s \<and> lock_repeat s' = lock_repeat s
     \<and> (\<forall>t. pgdir (tasks s' t) = pgdir (tasks s t) \<and> stack_magic (tasks s' t) = stack_magic (tasks s t))"

lemma rest_kept_refl [simp]: "rest_kept s s"
  by (simp add: rest_kept_def)

lemma rest_kept_trans: "rest_kept s s' \<Longrightarrow> rest_kept s' s'' \<Longrightarrow> rest_kept s s''"
  by (simp add: rest_kept_def)

lemma thread_unblock_eq:
  assumes "sched_lists s rs ts" and "t \<in> set ts" and "t \<notin> set rs"
    and "status (tasks s t) \<in> {TASK_BLOCKED, TASK_WAITING, TASK_HANGING}"
  shows "thread_unblock t s = Inr (upd_task t (\<lambda>x. x\<lparr>status := TASK_READY\<rparr>)
    (list_push (thread_ready_list s) (general_tag t) s))"
proof -
  have "sched_lists (s\<lparr>eflags_if := False\<rparr>) rs ts" using assms(1) by simp
  from ready_find [OF this assms(2)] assms(3)
  have f: "elem_find (thread_ready_list s) (general_tag t) (s\<lparr>eflags_if := False\<rparr>) = Inr False" by simp
  have n: "status (tasks s t) \<noteq> TASK_READY" using assms(4) by auto
  have a: "status (tasks s t) = TASK_BLOCKED \<or> status (tasks s t) = TASK_WAITING
      \<or> status (tasks s t) = TASK_HANGING" using assms(4) by auto
  show ?thesis
    using n a f by (simp add: thread_unblock_def intr_disable_eq) (simp add: intr_set_status_eq list_op_eqs)
qed

lemma thread_unblock_refuses:
  assumes "status (tasks s t) \<in> {TASK_RUNNING, TASK_READY, TASK_DIED}"
  shows "thread_unblock t s = Inl Assertion"
  using assms by (auto simp: thread_unblock_def intr_eqs)

lemma thread_unblock_inv:
  assumes inv: "sched_inv s rs ts dir" and t: "t \<in> set ts"
    and st: "status (tasks s t) \<in> {TASK_BLOCKED, TASK_WAITING, TASK_HANGING}"
  shows "\<exists>s'. thread_unblock t s = Inr s' \<and> sched_inv s' (t # rs) ts dir
    \<and> tasks s' = (tasks s)(t := (tasks s t)\<lparr>status := TASK_READY\<rparr>)
    \<and> running_thread s' = running_thread s \<and> eflags_if s' = eflags_if s \<and> old_status s' = old_status s
    \<and> esp s' = esp s \<and> cr3 s' = cr3 s
    \<and> rest_kept s s' \<and> lists_kept s s' (insert (general_tag t) (ready_cells s rs))"
proof -
  from inv have l: "sched_lists s rs ts" and ss: "sched_states s rs ts" and sk: "sched_stacks s ts"
    and sp: "spaces_ok s (set ts) dir" by (simp_all add: sched_inv_def)
  from ss st t have n: "t \<notin> set rs" by (auto simp: sched_states_def)
  let ?p = "list_push (thread_ready_list s) (general_tag t) s"
  let ?s = "upd_task t (\<lambda>x. x\<lparr>status := TASK_READY\<rparr>) ?p"
  have rt: "running_thread ?s = running_thread s" by (simp add: running_thread_def)
  have "sched_lists ?s (t # rs) ts" using ready_push [OF l t n] by simp
  moreover have "sched_states ?s (t # rs) ts"
    using ss t st unfolding sched_states_def rt by auto
  moreover have "sched_stacks ?s ts" using sk unfolding sched_stacks_def rt by simp
  moreover have "spaces_ok ?s (set ts) dir"
    using sp by (intro spaces_ok_cong [OF sp]) (auto simp: spaces_ok_def)
  moreover have "lists_kept s ?s (insert (general_tag t) (ready_cells s rs))"
    using kept_push [of s "thread_ready_list s" "map general_tag rs" "general_tag t"] l
    by (simp add: sched_lists_def lists_kept_def)
  ultimately show ?thesis
    using thread_unblock_eq [OF l t n st] rt by (simp add: sched_inv_def rest_kept_def)
qed

section \<open>Scheduling\<close>

text \<open>What stays as it is until the context switch.\<close>

definition cpu_kept :: "kernel \<Rightarrow> kernel \<Rightarrow> bool" where
  "cpu_kept s s' \<longleftrightarrow> rest_kept s s' \<and> eflags_if s' = eflags_if s \<and> old_status s' = old_status s
     \<and> esp s' = esp s \<and> cr3 s' = cr3 s \<and> (\<forall>t. self_kstack (tasks s' t) = self_kstack (tasks s t))"

lemma cpu_kept_refl [simp]: "cpu_kept s s"
  by (simp add: cpu_kept_def)

lemma cpu_kept_trans: "cpu_kept s s' \<Longrightarrow> cpu_kept s' s'' \<Longrightarrow> cpu_kept s s''"
  by (auto simp: cpu_kept_def intro: rest_kept_trans)

definition statuses :: "kernel \<Rightarrow> u32 \<Rightarrow> task_status" where
  "statuses s t = status (tasks s t)"

text \<open>The first part of \<^verbatim>\<open>schedule\<close>: a thread that still runs goes to the end of the ready list.\<close>

definition enqueue_cur :: "kernel \<Rightarrow> kernel res" where
  "enqueue_cur s =
     (let cur = running_thread s
      in if status (tasks s cur) = TASK_RUNNING
         then rbind (elem_find (thread_ready_list s) (general_tag cur) s) (\<lambda>found.
              rbind (c_assert (\<not> found)) (\<lambda>_.
              Inr (upd_task cur (\<lambda>t. t\<lparr>ticks := priority t, status := TASK_READY\<rparr>)
                    (list_append (thread_ready_list s) (general_tag cur) s))))
         else Inr s)"

definition ready_after :: "kernel \<Rightarrow> u32 list \<Rightarrow> u32 list" where
  "ready_after s rs = (if statuses s (running_thread s) = TASK_RUNNING then rs @ [running_thread s] else rs)"

text \<open>The list node the first part moves, when it moves one.\<close>

definition moved :: "kernel \<Rightarrow> u32 set" where
  "moved s = (if statuses s (running_thread s) = TASK_RUNNING then {general_tag (running_thread s)} else {})"

lemma enqueue_cur_spec:
  assumes inv: "sched_inv s rs ts dir"
  shows "\<exists>s'. enqueue_cur s = Inr s' \<and> sched_lists s' (ready_after s rs) ts
    \<and> statuses s' = (statuses s)(running_thread s :=
        (if statuses s (running_thread s) = TASK_RUNNING then TASK_READY else statuses s (running_thread s)))
    \<and> cpu_kept s s' \<and> lists_kept s s' (moved s \<union> ready_cells s rs)"
proof (cases "status (tasks s (running_thread s)) = TASK_RUNNING")
  case True
  let ?c = "running_thread s"
  let ?s = "upd_task ?c (\<lambda>t. t\<lparr>ticks := priority t, status := TASK_READY\<rparr>)
    (list_append (thread_ready_list s) (general_tag ?c) s)"
  from inv have l: "sched_lists s rs ts" and ss: "sched_states s rs ts" by (simp_all add: sched_inv_def)
  from ss have c: "?c \<in> set ts" by (simp add: sched_states_def)
  have "?c \<in> set rs \<longleftrightarrow> status (tasks s ?c) = TASK_READY"
    using ss c unfolding sched_states_def by blast
  then have n: "?c \<notin> set rs" using True by simp
  have "enqueue_cur s = Inr ?s" using True ready_find [OF l c] n by (simp add: enqueue_cur_def Let_def)
  moreover have "lists_kept s ?s (moved s \<union> ready_cells s rs)"
    using kept_append [of s "thread_ready_list s" "map general_tag rs" "general_tag ?c"] l True
    by (simp add: sched_lists_def lists_kept_def moved_def statuses_def)
  moreover have "sched_lists ?s (ready_after s rs) ts"
    using ready_append [OF l c n] True by (simp add: ready_after_def statuses_def)
  moreover have "statuses ?s = (statuses s)(?c := TASK_READY)" by (auto simp: statuses_def)
  moreover have "cpu_kept s ?s" by (simp add: cpu_kept_def rest_kept_def)
  moreover have "statuses s ?c = TASK_RUNNING" using True by (simp add: statuses_def)
  ultimately show ?thesis by (intro exI [of _ ?s]) (simp only: if_True simp_thms refl)
next
  case False
  then have "enqueue_cur s = Inr s" "ready_after s rs = rs" "statuses s (running_thread s) \<noteq> TASK_RUNNING"
    by (simp_all add: enqueue_cur_def ready_after_def statuses_def)
  then show ?thesis using inv by (intro exI [of _ s]) (simp add: sched_inv_def fun_upd_triv)
qed

text \<open>The second part: when no thread is ready, the idle thread is made ready.\<close>

definition with_idle :: "kernel \<Rightarrow> u32 list \<Rightarrow> u32 list" where
  "with_idle s q = (if q = [] then [idle_thread s] else q)"

lemma wake_idle_spec:
  assumes l: "sched_lists s q ts" and i: "idle_thread s \<in> set ts"
    and st: "q = [] \<Longrightarrow> statuses s (idle_thread s) = TASK_BLOCKED"
  shows "\<exists>s'. (if list_empty (thread_ready_list s) s then thread_unblock (idle_thread s) s else Inr s) = Inr s'
    \<and> sched_lists s' (with_idle s q) ts
    \<and> statuses s' = (if q = [] then (statuses s)(idle_thread s := TASK_READY) else statuses s)
    \<and> cpu_kept s s' \<and> lists_kept s s' (insert (general_tag (idle_thread s)) (ready_cells s q))"
proof (cases "q = []")
  case True
  let ?i = "idle_thread s"
  have b: "status (tasks s ?i) \<in> {TASK_BLOCKED, TASK_WAITING, TASK_HANGING}"
    using st [OF True] by (simp add: statuses_def)
  have n: "?i \<notin> set q" using True by simp
  let ?s = "upd_task ?i (\<lambda>x. x\<lparr>status := TASK_READY\<rparr>) (list_push (thread_ready_list s) (general_tag ?i) s)"
  have "lists_kept s ?s (insert (general_tag ?i) (ready_cells s q))"
    using kept_push [of s "thread_ready_list s" "map general_tag q" "general_tag ?i"] l
    by (simp add: sched_lists_def lists_kept_def)
  moreover have "(if list_empty (thread_ready_list s) s then thread_unblock ?i s else Inr s) = Inr ?s"
    using ready_empty [OF l] True thread_unblock_eq [OF l i n b] by simp
  moreover have "sched_lists ?s (with_idle s q) ts"
    using ready_push [OF l i n] by (simp add: with_idle_def True)
  moreover have "statuses ?s = (statuses s)(?i := TASK_READY)" by (auto simp: statuses_def)
  moreover have "cpu_kept s ?s" by (simp add: cpu_kept_def rest_kept_def)
  ultimately show ?thesis unfolding if_P [OF True] by blast
next
  case False
  then have "\<not> list_empty (thread_ready_list s) s" using ready_empty [OF l] by simp
  then show ?thesis using False l by (intro exI [of _ s]) (simp add: with_idle_def)
qed

text \<open>The last part: the first thread of the ready list gets the processor.\<close>

definition dispatch :: "u32 \<Rightarrow> u32 \<Rightarrow> kernel \<Rightarrow> kernel res" where
  "dispatch cur ret s =
     (let (thread_tag, s) = list_pop (thread_ready_list s) s;
          next = page thread_tag;
          s = upd_task next (\<lambda>t. t\<lparr>status := TASK_RUNNING\<rparr>) s
      in rbind (process_activate next s) (\<lambda>s. Inr (switch_to cur next ret s)))"

lemma schedule_parts:
  "schedule ret s = rbind (c_assert (intr_get_status s = INTR_OFF)) (\<lambda>_.
     rbind (enqueue_cur s) (\<lambda>s'.
     rbind (if list_empty (thread_ready_list s') s' then thread_unblock (idle_thread s') s' else Inr s') (\<lambda>s''.
     rbind (c_assert (\<not> list_empty (thread_ready_list s'') s'')) (\<lambda>_.
     dispatch (running_thread s) ret s''))))"
  by (simp add: schedule_def enqueue_cur_def dispatch_def Let_def)

lemma process_activate_ok:
  assumes "spaces_ok s ts dir" and "t \<in> ts" and "t \<noteq> 0"
  shows "\<exists>e. process_activate t s = Inr (s\<lparr>cr3 := space_of s t dir, tlb := (\<lambda>_. None), tss_esp0 := e\<rparr>)
    \<and> e = (if pgdir (tasks s t) \<noteq> 0 then t + PG_SIZE else tss_esp0 s)"
  using page_dir_activate_ok [OF assms(1,2)] assms(3)
  by (simp add: process_activate_def update_tss_esp_def)

lemma dispatch_spec:
  assumes l: "sched_lists s (x # q) ts" and sp: "spaces_ok s (set ts) dir"
  shows "\<exists>s'. dispatch c ret s = Inr s' \<and> sched_lists s' q ts
    \<and> statuses s' = (statuses s)(x := TASK_RUNNING)
    \<and> rest_kept s s' \<and> eflags_if s' = eflags_if s \<and> old_status s' = old_status s
    \<and> esp s' = (if x = c then esp s - 20 else self_kstack (tasks s x)) + 20
    \<and> (\<forall>t. self_kstack (tasks s' t) = (if t = c then esp s - 20 else self_kstack (tasks s t)))
    \<and> cr3 s' = space_of s x dir \<and> (pgdir (tasks s x) \<noteq> 0 \<longrightarrow> tss_esp0 s' = x + PG_SIZE)
    \<and> lists_kept s s' (ready_cells s (x # q))"
proof -
  have x: "x \<in> set ts" "x \<noteq> 0" "dlist s (thread_ready_list s) (general_tag x # map general_tag q)"
    using l by (auto simp: sched_lists_def)
  let ?p = "snd (list_pop (thread_ready_list s) s)"
  let ?s3 = "upd_task x (\<lambda>t. t\<lparr>status := TASK_RUNNING\<rparr>) ?p"
  have pg: "page (general_tag x) = x" by (rule sched_lists_tags [OF l x(1)])
  have same: "pgdir (tasks ?s3 t) = pgdir (tasks s t)" for t by simp
  have "spaces_ok ?s3 (set ts) dir"
    using sp by (intro spaces_ok_cong [OF sp]) (auto simp: spaces_ok_def)
  from process_activate_ok [OF this x(1,2)] obtain e where
    pa: "process_activate x ?s3 = Inr (?s3\<lparr>cr3 := space_of ?s3 x dir, tlb := (\<lambda>_. None), tss_esp0 := e\<rparr>)"
    and e: "pgdir (tasks s x) \<noteq> 0 \<Longrightarrow> e = x + PG_SIZE" unfolding same by metis
  let ?s4 = "?s3\<lparr>cr3 := space_of ?s3 x dir, tlb := (\<lambda>_. None), tss_esp0 := e\<rparr>"
  let ?s5 = "switch_to c x ret ?s4"
  have "dispatch c ret s = Inr ?s5"
    using ready_pop(1) [OF l] pg pa by (simp add: dispatch_def Let_def split_beta)
  moreover have "sched_lists ?s5 q ts"
    using ready_pop(2) [OF l] by simp
  moreover have "statuses ?s5 = (statuses s)(x := TASK_RUNNING)"
    by (auto simp: statuses_def switch_to_fields)
  moreover have "rest_kept s ?s5" by (simp add: rest_kept_def switch_to_fields)
  moreover have "lists_kept s ?s5 (ready_cells s (x # q))"
    using kept_pop [of s "thread_ready_list s" "general_tag x" "map general_tag q"] x(3)
    by (simp add: lists_kept_def switch_to_fields)
  moreover have "space_of ?s3 x dir = space_of s x dir" by (simp add: space_of_def)
  moreover have "eflags_if ?p = eflags_if s" by simp
  ultimately show ?thesis
    using e by (intro exI [of _ ?s5]) (simp add: switch_to_fields)
qed

text \<open>The thread \<^verbatim>\<open>schedule\<close> picks, and the ready list it leaves.\<close>

definition picked :: "kernel \<Rightarrow> u32 list \<Rightarrow> u32" where
  "picked s rs = hd (with_idle s (ready_after s rs))"

definition left_ready :: "kernel \<Rightarrow> u32 list \<Rightarrow> u32 list" where
  "left_ready s rs = List.tl (with_idle s (ready_after s rs))"

lemma sched_statesI:
  assumes "running_thread s \<in> set ts" and "idle_thread s \<in> set ts"
    and "\<And>t. t \<in> set ts \<Longrightarrow> statuses s t = TASK_READY \<longleftrightarrow> t \<in> set rs"
    and "\<And>t. t \<in> set ts \<Longrightarrow> statuses s t = TASK_RUNNING \<Longrightarrow> t = running_thread s"
    and "statuses s (idle_thread s) \<in> {TASK_RUNNING, TASK_READY, TASK_BLOCKED}"
  shows "sched_states s rs ts"
  using assms by (simp add: sched_states_def statuses_def)

lemma sched_statesD:
  assumes "sched_states s rs ts"
  shows "running_thread s \<in> set ts" and "idle_thread s \<in> set ts"
    and "\<And>t. t \<in> set ts \<Longrightarrow> statuses s t = TASK_READY \<longleftrightarrow> t \<in> set rs"
    and "\<And>t. t \<in> set ts \<Longrightarrow> statuses s t = TASK_RUNNING \<Longrightarrow> t = running_thread s"
    and "statuses s (idle_thread s) \<in> {TASK_RUNNING, TASK_READY, TASK_BLOCKED}"
  using assms unfolding sched_states_def statuses_def by blast+

lemma rest_keptD:
  assumes "rest_kept s s'"
  shows "pmem s' = pmem s" "thread_ready_list s' = thread_ready_list s"
    "thread_all_list s' = thread_all_list s" "idle_thread s' = idle_thread s"
    "sem_value s' = sem_value s" "lock_holder s' = lock_holder s" "lock_repeat s' = lock_repeat s"
    "pgdir (tasks s' t) = pgdir (tasks s t)" "stack_magic (tasks s' t) = stack_magic (tasks s t)"
  using assms by (simp_all add: rest_kept_def)

lemma idle_blocked:
  assumes "sched_states s rs ts" and "ready_after s rs = []"
  shows "statuses s (idle_thread s) = TASK_BLOCKED" and "statuses s (running_thread s) \<noteq> TASK_RUNNING"
proof -
  note d = sched_statesD [OF assms(1)]
  show r: "statuses s (running_thread s) \<noteq> TASK_RUNNING"
    using assms(2) by (auto simp: ready_after_def split: if_splits)
  have "rs = []" using assms(2) by (auto simp: ready_after_def split: if_splits)
  then have "statuses s (idle_thread s) \<noteq> TASK_READY" using d(3) [OF d(2)] by simp
  moreover have "statuses s (idle_thread s) \<noteq> TASK_RUNNING" using d(4) [OF d(2)] r by metis
  ultimately show "statuses s (idle_thread s) = TASK_BLOCKED" using d(5) by auto
qed

text \<open>The statuses after the choice: the chosen thread runs, a preempted one is ready.\<close>

definition next_statuses :: "kernel \<Rightarrow> u32 list \<Rightarrow> u32 \<Rightarrow> task_status" where
  "next_statuses s rs = (\<lambda>t. if t = picked s rs then TASK_RUNNING
     else if t = running_thread s \<and> statuses s t = TASK_RUNNING then TASK_READY else statuses s t)"

lemma ready_cells_cong:
  "thread_ready_list s' = thread_ready_list s \<Longrightarrow> ready_cells s' rs = ready_cells s rs"
  by simp

lemma schedule_effect:
  assumes inv: "sched_inv s rs ts dir" and off: "\<not> eflags_if s"
  defines "x \<equiv> picked s rs" and "c \<equiv> running_thread s"
  shows "\<exists>s'. schedule ret s = Inr s' \<and> sched_lists s' (left_ready s rs) ts
    \<and> statuses s' = next_statuses s rs
    \<and> rest_kept s s' \<and> \<not> eflags_if s' \<and> old_status s' = old_status s
    \<and> esp s' = (if x = c then esp s - 20 else self_kstack (tasks s x)) + 20
    \<and> (\<forall>t. self_kstack (tasks s' t) = (if t = c then esp s - 20 else self_kstack (tasks s t)))
    \<and> cr3 s' = space_of s x dir \<and> (pgdir (tasks s x) \<noteq> 0 \<longrightarrow> tss_esp0 s' = x + PG_SIZE)
    \<and> lists_kept s s' (moved s \<union> {general_tag (idle_thread s)} \<union> ready_cells s rs)"
proof -
  from inv have l: "sched_lists s rs ts" and ss: "sched_states s rs ts" and sp: "spaces_ok s (set ts) dir"
    by (simp_all add: sched_inv_def)
  let ?q = "ready_after s rs" and ?w = "with_idle s (ready_after s rs)"
  obtain s1 where s1: "enqueue_cur s = Inr s1" "sched_lists s1 ?q ts" "cpu_kept s s1"
    "lists_kept s s1 (moved s \<union> ready_cells s rs)"
    "statuses s1 = (statuses s)(c := (if statuses s c = TASK_RUNNING then TASK_READY else statuses s c))"
    using enqueue_cur_spec [OF inv] unfolding c_def by blast
  note k1 = s1(3) [unfolded cpu_kept_def]
  note r1 = rest_keptD [OF conjunct1 [OF k1]]
  have i1: "idle_thread s1 = idle_thread s" "idle_thread s1 \<in> set ts" using r1 sched_statesD(2) [OF ss] by simp_all
  have b1: "?q = [] \<Longrightarrow> statuses s1 (idle_thread s1) = TASK_BLOCKED"
    using idle_blocked [OF ss] s1(5) i1 unfolding c_def by auto
  obtain s2 where s2: "(if list_empty (thread_ready_list s1) s1 then thread_unblock (idle_thread s1) s1 else Inr s1) = Inr s2"
    "sched_lists s2 (with_idle s1 ?q) ts" "cpu_kept s1 s2"
    "statuses s2 = (if ?q = [] then (statuses s1)(idle_thread s1 := TASK_READY) else statuses s1)"
    "lists_kept s1 s2 (insert (general_tag (idle_thread s1)) (ready_cells s1 ?q))"
    using wake_idle_spec [OF s1(2) i1(2) b1] by blast
  have w: "with_idle s1 ?q = ?w" "?w \<noteq> []" using i1 by (simp_all add: with_idle_def)
  then have xq: "?w = x # left_ready s rs" by (simp add: x_def picked_def left_ready_def)
  note k2 = cpu_kept_trans [OF s1(3) s2(3), unfolded cpu_kept_def]
  note r2 = rest_keptD [OF conjunct1 [OF k2]]
  have l2: "sched_lists s2 (x # left_ready s rs) ts" using s2(2) w xq by simp
  have "spaces_ok s2 (set ts) dir" using sp k2 r2 by (intro spaces_ok_cong [OF sp]) (auto simp: spaces_ok_def)
  from dispatch_spec [OF l2 this, of c ret] obtain s3 where
    s3: "dispatch c ret s2 = Inr s3" "sched_lists s3 (left_ready s rs) ts"
    "statuses s3 = (statuses s2)(x := TASK_RUNNING)" "rest_kept s2 s3" "eflags_if s3 = eflags_if s2"
    "old_status s3 = old_status s2"
    "esp s3 = (if x = c then esp s2 - 20 else self_kstack (tasks s2 x)) + 20"
    "\<forall>t. self_kstack (tasks s3 t) = (if t = c then esp s2 - 20 else self_kstack (tasks s2 t))"
    "cr3 s3 = space_of s2 x dir" "pgdir (tasks s2 x) \<noteq> 0 \<longrightarrow> tss_esp0 s3 = x + PG_SIZE"
    "lists_kept s2 s3 (ready_cells s2 (x # left_ready s rs))" by blast
  have "\<not> list_empty (thread_ready_list s2) s2" using ready_empty [OF l2] by simp
  then have "schedule ret s = Inr s3"
    using s1(1) s2(1) s3(1) off unfolding schedule_parts c_def by simp
  moreover have "statuses s3 = next_statuses s rs"
    using s1(5) s2(4) s3(3) xq i1(1) unfolding next_statuses_def x_def [symmetric] c_def [symmetric]
    by (auto simp: with_idle_def split: if_splits)
  moreover have "rest_kept s s3" using rest_kept_trans [OF conjunct1 [OF k2] s3(4)] .
  moreover have "lists_kept s s3 (moved s \<union> {general_tag (idle_thread s)} \<union> ready_cells s rs)"
  proof -
    let ?X = "moved s \<union> {general_tag (idle_thread s)} \<union> ready_cells s rs"
    have q: "ready_cells s ?q \<subseteq> ?X" "ready_cells s ?w \<subseteq> ?X"
      by (auto simp: ready_after_def with_idle_def set_cells moved_def)
    have "lists_kept s s1 ?X" using s1(4) by (rule lists_kept_mono) auto
    moreover have "lists_kept s1 s2 ?X" using s2(5) q(1) r1(2) i1(1)
      by (intro lists_kept_mono [OF s2(5)]) auto
    moreover have "lists_kept s2 s3 ?X" using q(2) r2(2) unfolding xq
      by (intro lists_kept_mono [OF s3(11)]) simp
    ultimately show ?thesis using lists_kept_trans by blast
  qed
  moreover have "space_of s2 x dir = space_of s x dir" using r2 by (simp add: space_of_def)
  ultimately show ?thesis
    using s3 k2 r2 off by (intro exI [of _ s3]) simp
qed

lemma running_thread_upd [simp]:
  "running_thread (s\<lparr>tasks := a\<rparr>) = running_thread s"
  "running_thread (s\<lparr>eflags_if := b\<rparr>) = running_thread s"
  "running_thread (s\<lparr>old_status := e\<rparr>) = running_thread s"
  "running_thread (s\<lparr>total_ticks := d\<rparr>) = running_thread s"
  "running_thread (s\<lparr>sem_value := f\<rparr>) = running_thread s"
  "running_thread (s\<lparr>lock_holder := g\<rparr>) = running_thread s"
  "running_thread (s\<lparr>lock_repeat := g\<rparr>) = running_thread s"
  "running_thread (list_append l x s) = running_thread s"
  "running_thread (list_push l x s) = running_thread s"
  "running_thread (snd (list_pop l s)) = running_thread s"
  by (simp_all add: running_thread_def)

lemma picked_in:
  assumes "sched_inv s rs ts dir"
  shows "picked s rs \<in> set ts" and "set (left_ready s rs) \<subseteq> set ts"
    and "distinct (picked s rs # left_ready s rs)"
    and "\<And>t. t \<in> set ts \<Longrightarrow> next_statuses s rs t = TASK_READY \<longleftrightarrow> t \<in> set (left_ready s rs)"
proof -
  from assms have l: "sched_lists s rs ts" and ss: "sched_states s rs ts"
    by (simp_all add: sched_inv_def)
  note d = sched_statesD [OF ss]
  let ?w = "with_idle s (ready_after s rs)"
  have w: "?w = picked s rs # left_ready s rs" by (simp add: picked_def left_ready_def with_idle_def)
  have sub: "set ?w \<subseteq> set ts" "distinct rs"
    using l d(1,2) by (auto simp: with_idle_def ready_after_def sched_lists_def)
  have c: "statuses s (running_thread s) = TASK_RUNNING \<Longrightarrow> running_thread s \<notin> set rs"
    using d(3) [OF d(1)] by auto
  have dw: "distinct ?w" using sub(2) c by (auto simp: with_idle_def ready_after_def)
  show "picked s rs \<in> set ts" "set (left_ready s rs) \<subseteq> set ts" "distinct (picked s rs # left_ready s rs)"
    using sub dw unfolding w by auto
  have mem: "t \<in> set ?w \<longleftrightarrow> (t = picked s rs \<or> t \<in> set (left_ready s rs))" for t unfolding w by auto
  fix t assume t: "t \<in> set ts"
  show "next_statuses s rs t = TASK_READY \<longleftrightarrow> t \<in> set (left_ready s rs)"
  proof (cases "t = picked s rs")
    case True
    then show ?thesis using dw unfolding w by (simp add: next_statuses_def)
  next
    case False
    then have m: "t \<in> set (left_ready s rs) \<longleftrightarrow> t \<in> set ?w" using mem by simp
    have e: "ready_after s rs = [] \<Longrightarrow> picked s rs = idle_thread s \<and> set ?w = {idle_thread s}"
      by (simp add: picked_def with_idle_def)
    show ?thesis
    proof (cases "ready_after s rs = []")
      case True
      with e False m idle_blocked(2) [OF ss True] d(3) [OF t] show ?thesis
        by (auto simp: next_statuses_def ready_after_def split: if_splits)
    next
      case nonempty: False
      then have "set ?w = set (ready_after s rs)" by (simp add: with_idle_def)
      then show ?thesis using False m d(3) [OF t] by (auto simp: next_statuses_def ready_after_def)
    qed
  qed
qed

lemma schedule_inv:
  assumes inv: "sched_inv s rs ts dir" and off: "\<not> eflags_if s"
  shows "\<exists>s'. schedule ret s = Inr s' \<and> sched_inv s' (left_ready s rs) ts dir
    \<and> running_thread s' = picked s rs \<and> statuses s' = next_statuses s rs
    \<and> rest_kept s s' \<and> \<not> eflags_if s' \<and> old_status s' = old_status s
    \<and> cr3 s' = space_of s (picked s rs) dir
    \<and> (pgdir (tasks s (picked s rs)) \<noteq> 0 \<longrightarrow> tss_esp0 s' = picked s rs + PG_SIZE)
    \<and> lists_kept s s' (moved s \<union> {general_tag (idle_thread s)} \<union> ready_cells s rs)"
proof -
  let ?c = "running_thread s" and ?x = "picked s rs"
  from schedule_effect [OF inv off, of ret] obtain s' where
    s': "schedule ret s = Inr s'" "sched_lists s' (left_ready s rs) ts" "statuses s' = next_statuses s rs"
    "rest_kept s s'" "\<not> eflags_if s'" "old_status s' = old_status s"
    "esp s' = (if ?x = ?c then esp s - 20 else self_kstack (tasks s ?x)) + 20"
    "\<forall>t. self_kstack (tasks s' t) = (if t = ?c then esp s - 20 else self_kstack (tasks s t))"
    "cr3 s' = space_of s ?x dir" "pgdir (tasks s ?x) \<noteq> 0 \<longrightarrow> tss_esp0 s' = ?x + PG_SIZE"
    "lists_kept s s' (moved s \<union> {general_tag (idle_thread s)} \<union> ready_cells s rs)" by blast
  from inv have ss: "sched_states s rs ts" and sk: "sched_stacks s ts" and sp: "spaces_ok s (set ts) dir"
    by (simp_all add: sched_inv_def)
  note x = picked_in [OF inv] and d = sched_statesD [OF ss] and r = rest_keptD [OF s'(4)]
  have st: "page (esp s - 20) = ?c"
    "\<And>t. t \<in> set ts \<Longrightarrow> t \<noteq> ?c \<Longrightarrow> page (self_kstack (tasks s t)) = t \<and> page (self_kstack (tasks s t) + 20) = t"
    using sk unfolding sched_stacks_def by blast+
  have pe: "page (esp s) = ?c" by (simp only: running_thread_def)
  have e20: "esp s - 20 + 20 = esp s" "k + 20 - 20 = k" for k :: u32 by simp_all
  have rt: "running_thread s' = ?x"
  proof (cases "?x = ?c")
    case True
    then show ?thesis by (simp only: running_thread_def [of s'] s'(7) if_True refl e20(1) pe)
  next
    case False
    with st(2) [OF x(1) False] show ?thesis by (simp only: running_thread_def [of s'] s'(7) if_False)
  qed
  have "page (esp s' - 20) = ?x"
  proof (cases "?x = ?c")
    case True
    then show ?thesis by (simp only: s'(7) if_True refl e20(2) st(1))
  next
    case False
    with st(2) [OF x(1) False] show ?thesis by (simp only: s'(7) if_False e20(2))
  qed
  moreover have "page (self_kstack (tasks s' t)) = t \<and> page (self_kstack (tasks s' t) + 20) = t"
    if "t \<in> set ts" "t \<noteq> ?x" for t
  proof (cases "t = ?c")
    case True
    then show ?thesis by (simp only: s'(8) [rule_format] if_True refl e20(1) st(1) pe simp_thms)
  next
    case False
    with st(2) [OF that(1) False] show ?thesis by (simp only: s'(8) [rule_format] if_False simp_thms)
  qed
  ultimately have "sched_stacks s' ts" unfolding sched_stacks_def rt by blast
  moreover have "sched_states s' (left_ready s rs) ts"
  proof (rule sched_statesI)
    show "running_thread s' \<in> set ts" using rt x(1) by simp
    show "idle_thread s' \<in> set ts" using r d(2) by simp
    show "statuses s' t = TASK_READY \<longleftrightarrow> t \<in> set (left_ready s rs)" if "t \<in> set ts" for t
      using x(4) [OF that] s'(3) by simp
    show "t = running_thread s'" if "t \<in> set ts" "statuses s' t = TASK_RUNNING" for t
    proof (rule ccontr)
      assume "t \<noteq> running_thread s'"
      then have "statuses s t = TASK_RUNNING" "t \<noteq> ?c \<or> statuses s t \<noteq> TASK_RUNNING"
        using that(2) unfolding s'(3) rt next_statuses_def by (simp_all split: if_splits)
      then show False using d(4) [OF that(1)] by blast
    qed
    show "statuses s' (idle_thread s') \<in> {TASK_RUNNING, TASK_READY, TASK_BLOCKED}"
      using d(5) r unfolding s'(3) next_statuses_def by auto
  qed
  moreover have "spaces_ok s' (set ts) dir"
    using page_dir_activate_ok(2) [OF sp x(1)] s'(9) r by (intro spaces_ok_cong [OF sp]) simp_all
  ultimately show ?thesis using s' rt by (intro exI [of _ s']) (simp add: sched_inv_def)
qed

end
