(* ===== verification/Scheduler.thy ===== *)
theory Scheduler
  imports Sched
begin

text \<open>
  What the scheduler promises: blocking, yielding, unblocking and the timer keep the invariant
  of the thread system from every state it can reach, none of their assertions can fail, ready
  threads take turns, and a context switch brings a suspended thread back where it was.
\<close>

section \<open>The states between the calls\<close>

text \<open>A thread runs: the invariant with the running thread's status, and the stack guards.\<close>

definition run_inv :: "kernel \<Rightarrow> u32 list \<Rightarrow> u32 list \<Rightarrow> (u32 \<Rightarrow> u32) \<Rightarrow> bool" where
  "run_inv s rs ts dir \<longleftrightarrow> sched_inv s rs ts dir \<and> statuses s (running_thread s) = TASK_RUNNING
     \<and> (\<forall>t \<in> set ts. stack_magic (tasks s t) = 0x12345678)"

lemma run_invD:
  assumes "run_inv s rs ts dir"
  shows "sched_inv s rs ts dir" and "running_thread s \<in> set ts" and "running_thread s \<notin> set rs"
    and "statuses s (running_thread s) = TASK_RUNNING"
proof -
  from assms have i: "sched_inv s rs ts dir" and r: "statuses s (running_thread s) = TASK_RUNNING"
    by (simp_all add: run_inv_def)
  then have ss: "sched_states s rs ts" by (simp add: sched_inv_def)
  show "sched_inv s rs ts dir" "statuses s (running_thread s) = TASK_RUNNING" by (rule i, rule r)
  show m: "running_thread s \<in> set ts" by (rule sched_statesD [OF ss])
  show "running_thread s \<notin> set rs" using sched_statesD(3) [OF ss m] r by simp
qed

text \<open>The invariant does not look at the interrupt flag or the saved statuses.\<close>

lemma sched_inv_upd:
  assumes "sched_lists s rs ts" and "statuses s' = statuses s" and "sched_states s rs ts"
    and "sched_stacks s ts" and "spaces_ok s (set ts) dir"
    and "nxt s' = nxt s" "prv s' = prv s" "rest_kept s s'" "esp s' = esp s" "cr3 s' = cr3 s"
    and "\<And>t. self_kstack (tasks s' t) = self_kstack (tasks s t)"
  shows "sched_inv s' rs ts dir"
proof -
  note r = rest_keptD [OF assms(8)]
  have rt: "running_thread s' = running_thread s" by (simp add: running_thread_def assms(9))
  have st: "status (tasks s' t) = status (tasks s t)" for t
    using fun_cong [OF assms(2), of t] by (simp add: statuses_def)
  have "sched_lists s' rs ts" using sched_lists_cong [OF assms(6,7) r(2,3)] assms(1) by blast
  moreover have "sched_states s' rs ts" using assms(3) unfolding sched_states_def rt st r(4) .
  moreover have "sched_stacks s' ts" using assms(4) unfolding sched_stacks_def rt assms(9,11) .
  moreover have "spaces_ok s' (set ts) dir"
    using assms(5,10) r by (intro spaces_ok_cong [OF assms(5)]) (simp_all add: spaces_ok_def)
  ultimately show ?thesis by (simp add: sched_inv_def)
qed

text \<open>The running thread changes its status, to anything but running or ready.\<close>

lemma set_status_inv:
  assumes run: "run_inv s rs ts dir" and st: "stat \<notin> {TASK_RUNNING, TASK_READY}"
    and i: "running_thread s = idle_thread s \<Longrightarrow> stat = TASK_BLOCKED"
  shows "sched_inv (upd_task (running_thread s) (\<lambda>t. t\<lparr>status := stat\<rparr>) s) rs ts dir"
proof -
  let ?c = "running_thread s" and ?s = "upd_task (running_thread s) (\<lambda>t. t\<lparr>status := stat\<rparr>) s"
  note r = run_invD [OF run]
  from r(1) have l: "sched_lists s rs ts" and ss: "sched_states s rs ts" and sk: "sched_stacks s ts"
    and sp: "spaces_ok s (set ts) dir" by (simp_all add: sched_inv_def)
  note d = sched_statesD [OF ss]
  have e: "statuses ?s = (statuses s)(?c := stat)" by (auto simp: statuses_def)
  have "sched_states ?s rs ts"
  proof (rule sched_statesI)
    show "running_thread ?s \<in> set ts" "idle_thread ?s \<in> set ts" using d(1,2) by simp_all
    show "statuses ?s t = TASK_READY \<longleftrightarrow> t \<in> set rs" if "t \<in> set ts" for t
      using d(3) [OF that] st r(3) unfolding e by auto
    show "t = running_thread ?s" if "t \<in> set ts" "statuses ?s t = TASK_RUNNING" for t
      using d(4) [OF that(1)] that(2) st unfolding e by (auto split: if_splits)
    show "statuses ?s (idle_thread ?s) \<in> {TASK_RUNNING, TASK_READY, TASK_BLOCKED}"
      using d(5) i unfolding e by auto
  qed
  moreover have "sched_stacks ?s ts" using sk by (simp add: sched_stacks_def)
  moreover have "spaces_ok ?s (set ts) dir"
    using sp by (intro spaces_ok_cong [OF sp]) (simp_all add: spaces_ok_def)
  ultimately show ?thesis using l by (simp add: sched_inv_def)
qed

lemma resume_eq: "resume s = s\<lparr>eflags_if := (old_status s (running_thread s) = INTR_ON)\<rparr>"
  by (simp add: resume_def intr_set_status_eq)

lemma sched_inv_eflags [simp]: "sched_inv (s\<lparr>eflags_if := b\<rparr>) rs ts dir = sched_inv s rs ts dir"
proof -
  have "spaces_ok (s\<lparr>eflags_if := b\<rparr>) (set ts) dir = spaces_ok s (set ts) dir"
    by (rule iffI; rule spaces_ok_cong, assumption) (auto simp: spaces_ok_def roots_def)
  then show ?thesis by (simp add: sched_inv_def sched_states_def sched_stacks_def)
qed

lemma sched_inv_old_status [simp]: "sched_inv (s\<lparr>old_status := b\<rparr>) rs ts dir = sched_inv s rs ts dir"
proof -
  have "spaces_ok (s\<lparr>old_status := b\<rparr>) (set ts) dir = spaces_ok s (set ts) dir"
    by (rule iffI; rule spaces_ok_cong, assumption) (auto simp: spaces_ok_def roots_def)
  then show ?thesis by (simp add: sched_inv_def sched_states_def sched_stacks_def)
qed

text \<open>After \<^verbatim>\<open>schedule\<close> and the return into the chosen thread.\<close>

definition switched :: "kernel \<Rightarrow> u32 list \<Rightarrow> kernel \<Rightarrow> (u32 \<Rightarrow> u32) \<Rightarrow> bool" where
  "switched s rs s' dir \<longleftrightarrow> running_thread s' = picked s rs \<and> statuses s' = next_statuses s rs
     \<and> rest_kept s s' \<and> eflags_if s' = (old_status s (picked s rs) = INTR_ON)
     \<and> old_status s' = old_status s \<and> cr3 s' = space_of s (picked s rs) dir
     \<and> (pgdir (tasks s (picked s rs)) \<noteq> 0 \<longrightarrow> tss_esp0 s' = picked s rs + PG_SIZE)
     \<and> lists_kept s s' (moved s \<union> {general_tag (idle_thread s)} \<union> ready_cells s rs)"

lemma schedule_resume:
  assumes inv: "sched_inv s rs ts dir" and off: "\<not> eflags_if s"
    and magic: "\<forall>t \<in> set ts. stack_magic (tasks s t) = 0x12345678"
  shows "\<exists>s'. rbind (schedule ret s) (\<lambda>s. Inr (resume s)) = Inr s'
    \<and> run_inv s' (left_ready s rs) ts dir \<and> switched s rs s' dir"
proof -
  from schedule_inv [OF inv off, of ret] obtain s' where
    s': "schedule ret s = Inr s'" "sched_inv s' (left_ready s rs) ts dir"
    "running_thread s' = picked s rs" "statuses s' = next_statuses s rs"
    "rest_kept s s'" "\<not> eflags_if s'" "old_status s' = old_status s"
    "cr3 s' = space_of s (picked s rs) dir"
    "pgdir (tasks s (picked s rs)) \<noteq> 0 \<longrightarrow> tss_esp0 s' = picked s rs + PG_SIZE"
    "lists_kept s s' (moved s \<union> {general_tag (idle_thread s)} \<union> ready_cells s rs)"
    by blast
  note r = rest_keptD [OF s'(5)]
  have st: "statuses (s'\<lparr>eflags_if := b\<rparr>) = statuses s'" for b by (auto simp: statuses_def)
  have "run_inv (resume s') (left_ready s rs) ts dir"
    unfolding run_inv_def resume_eq
    using s'(2,3,4) magic r by (simp add: st next_statuses_def)
  moreover have "switched s rs (resume s') dir"
    unfolding switched_def resume_eq
    using s' by (simp add: st) (simp add: rest_kept_def lists_kept_def)
  ultimately show ?thesis using s'(1) by simp
qed

text \<open>What a call has done before it enters \<^verbatim>\<open>schedule\<close>: only the caller's own data changed.\<close>

definition prepared :: "kernel \<Rightarrow> u32 list \<Rightarrow> kernel \<Rightarrow> intr_status \<Rightarrow> bool" where
  "prepared s rs k v \<longleftrightarrow> running_thread k = running_thread s \<and> rest_kept s k
     \<and> old_status k = (old_status s)(running_thread s := v)
     \<and> lists_kept s k (insert (general_tag (running_thread s)) (ready_cells s rs))
     \<and> (\<forall>t. t \<noteq> running_thread s \<longrightarrow> statuses k t = statuses s t)"

section \<open>The calls\<close>

lemma thread_block_run:
  assumes run: "run_inv s rs ts dir" and st: "stat \<in> {TASK_BLOCKED, TASK_WAITING, TASK_HANGING}"
    and i: "running_thread s = idle_thread s \<Longrightarrow> stat = TASK_BLOCKED"
  shows "\<exists>s' b. thread_block stat ret s = Inr s' \<and> run_inv s' (left_ready b rs) ts dir
    \<and> prepared s rs b (intr_get_status s) \<and> statuses b (running_thread s) = stat \<and> switched b rs s' dir
    \<and> lists_kept s b {}"
proof -
  define b where "b = upd_task (running_thread s) (\<lambda>t. t\<lparr>status := stat\<rparr>)
    (s\<lparr>eflags_if := False, old_status := (old_status s)(running_thread s := intr_get_status s)\<rparr>)"
  let ?c = "running_thread s"
  let ?o = "s\<lparr>eflags_if := False, old_status := (old_status s)(?c := intr_get_status s)\<rparr>"
  have o: "statuses ?o = statuses s" by (auto simp: statuses_def)
  have ro: "run_inv ?o rs ts dir"
    using run unfolding run_inv_def by (simp add: o)
  have "stat \<notin> {TASK_RUNNING, TASK_READY}" using st by auto
  from set_status_inv [OF ro this] i have inv: "sched_inv b rs ts dir" by (simp add: b_def)
  have off: "\<not> eflags_if b" by (simp add: b_def)
  have magic: "\<forall>t \<in> set ts. stack_magic (tasks b t) = 0x12345678"
    using run by (simp add: b_def run_inv_def)
  have a: "stat = TASK_BLOCKED \<or> stat = TASK_WAITING \<or> stat = TASK_HANGING" using st by simp
  have "thread_block stat ret s = rbind (schedule ret b) (\<lambda>s. Inr (resume s))"
    using a by (simp add: thread_block_def intr_disable_eq b_def Let_def)
  moreover have "prepared s rs b (intr_get_status s)" "statuses b ?c = stat" "lists_kept s b {}"
    by (auto simp: prepared_def b_def rest_kept_def lists_kept_def statuses_def)
  ultimately show ?thesis using schedule_resume [OF inv off magic, of ret] by metis
qed

lemma yield_inv:
  assumes run: "run_inv s rs ts dir"
  defines "y \<equiv> upd_task (running_thread s) (\<lambda>t. t\<lparr>status := TASK_READY\<rparr>)
    (list_append (thread_ready_list s) (general_tag (running_thread s))
      (s\<lparr>eflags_if := False, old_status := (old_status s)(running_thread s := intr_get_status s)\<rparr>))"
  shows "sched_inv y (rs @ [running_thread s]) ts dir"
    and "thread_yield ret s = rbind (schedule ret y) (\<lambda>s. Inr (resume s))"
proof -
  let ?c = "running_thread s"
  let ?o = "s\<lparr>eflags_if := False, old_status := (old_status s)(?c := intr_get_status s)\<rparr>"
  note r = run_invD [OF run]
  from r(1) have ss: "sched_states s rs ts" and sk: "sched_stacks s ts"
    and sp: "spaces_ok s (set ts) dir" and l: "sched_lists ?o rs ts" by (simp_all add: sched_inv_def)
  note d = sched_statesD [OF ss]
  have e: "statuses y = (statuses s)(?c := TASK_READY)" by (auto simp: y_def statuses_def)
  have rt: "running_thread y = ?c" "idle_thread y = idle_thread s"
    by (simp_all add: y_def)
  have "sched_lists y (rs @ [?c]) ts" using ready_append [OF l r(2,3)] by (simp add: y_def)
  moreover have "sched_states y (rs @ [?c]) ts"
  proof (rule sched_statesI)
    show "running_thread y \<in> set ts" "idle_thread y \<in> set ts" using d(1,2) rt by simp_all
    show "statuses y t = TASK_READY \<longleftrightarrow> t \<in> set (rs @ [?c])" if "t \<in> set ts" for t
      using d(3) [OF that] unfolding e by simp
    show "t = running_thread y" if "t \<in> set ts" "statuses y t = TASK_RUNNING" for t
      using d(4) [OF that(1)] that(2) rt unfolding e by (auto split: if_splits)
    show "statuses y (idle_thread y) \<in> {TASK_RUNNING, TASK_READY, TASK_BLOCKED}"
      using d(5) rt unfolding e by auto
  qed
  moreover have "sched_stacks y ts" using sk unfolding sched_stacks_def rt by (simp add: y_def)
  moreover have "spaces_ok y (set ts) dir"
    using sp by (intro spaces_ok_cong [OF sp]) (simp_all add: spaces_ok_def y_def)
  ultimately show "sched_inv y (rs @ [?c]) ts dir" by (simp add: sched_inv_def)
  show "thread_yield ret s = rbind (schedule ret y) (\<lambda>s. Inr (resume s))"
    using ready_find [OF l r(2)] r(3) by (simp add: thread_yield_def intr_disable_eq y_def Let_def)
qed

lemma thread_yield_run:
  assumes run: "run_inv s rs ts dir"
  shows "\<exists>s' y. thread_yield ret s = Inr s' \<and> run_inv s' (List.tl (rs @ [running_thread s])) ts dir
    \<and> running_thread s' = hd (rs @ [running_thread s])
    \<and> prepared s rs y (intr_get_status s) \<and> switched y (rs @ [running_thread s]) s' dir
    \<and> statuses y (running_thread s) = TASK_READY"
proof -
  let ?y = "upd_task (running_thread s) (\<lambda>t. t\<lparr>status := TASK_READY\<rparr>)
    (list_append (thread_ready_list s) (general_tag (running_thread s))
      (s\<lparr>eflags_if := False, old_status := (old_status s)(running_thread s := intr_get_status s)\<rparr>))"
  have off: "\<not> eflags_if ?y" by simp
  have magic: "\<forall>t \<in> set ts. stack_magic (tasks ?y t) = 0x12345678" using run by (simp add: run_inv_def)
  have rt: "running_thread ?y = running_thread s" by (simp add: running_thread_def)
  have "statuses ?y (running_thread ?y) = TASK_READY" unfolding rt by (simp add: statuses_def)
  then have q: "with_idle ?y (ready_after ?y (rs @ [running_thread s])) = rs @ [running_thread s]"
    by (simp add: ready_after_def with_idle_def)
  have l: "dlist s (thread_ready_list s) (map general_tag rs)"
    using run_invD(1) [OF run] by (simp add: sched_inv_def sched_lists_def)
  have "lists_kept s ?y (insert (general_tag (running_thread s)) (ready_cells s rs))"
    using kept_append [of "s\<lparr>eflags_if := False, old_status := (old_status s)(running_thread s := intr_get_status s)\<rparr>"
        "thread_ready_list s" "map general_tag rs" "general_tag (running_thread s)"] l
    by (simp add: lists_kept_def dlist_def)
  then have pr: "prepared s rs ?y (intr_get_status s)" "statuses ?y (running_thread s) = TASK_READY"
    by (auto simp: prepared_def rt rest_kept_def statuses_def)
  from schedule_resume [OF yield_inv(1) [OF run] off magic, of ret] obtain s' where
    s': "thread_yield ret s = Inr s'" "run_inv s' (List.tl (rs @ [running_thread s])) ts dir"
      "switched ?y (rs @ [running_thread s]) s' dir"
    unfolding yield_inv(2) [OF run] left_ready_def q by blast
  then have "running_thread s' = hd (rs @ [running_thread s])" unfolding switched_def picked_def q by simp
  with s' pr show ?thesis by blast
qed

lemma timer_run:
  assumes run: "run_inv s rs ts dir"
  defines "c \<equiv> running_thread s"
  shows "\<exists>s'. intr_timer_handler ret s = Inr s'
    \<and> (if ticks (tasks s c) = 0
       then run_inv s' (List.tl (rs @ [c])) ts dir \<and> running_thread s' = hd (rs @ [c])
         \<and> (\<exists>k. prepared s rs k INTR_ON \<and> switched k rs s' dir \<and> statuses k c = TASK_RUNNING)
       else run_inv s' rs ts dir \<and> running_thread s' = c \<and> ticks (tasks s' c) = ticks (tasks s c) - 1
         \<and> elapsed_ticks (tasks s' c) = elapsed_ticks (tasks s c) + 1
         \<and> prepared s rs s' INTR_ON \<and> eflags_if s' \<and> statuses s' c = TASK_RUNNING)"
proof -
  let ?k = "(upd_task c (\<lambda>t. t\<lparr>elapsed_ticks := elapsed_ticks t + 1\<rparr>)
    (s\<lparr>eflags_if := False, old_status := (old_status s)(c := INTR_ON)\<rparr>))\<lparr>total_ticks := total_ticks s + 1\<rparr>"
  note r = run_invD [OF run]
  from r(1) have ss: "sched_states s rs ts" and sk: "sched_stacks s ts"
    and sp: "spaces_ok s (set ts) dir" and l: "sched_lists s rs ts" by (simp_all add: sched_inv_def)
  have k: "sched_inv ?k rs ts dir"
    by (rule sched_inv_upd [OF l _ ss sk sp]) (auto simp: statuses_def rest_kept_def)
  have magic: "\<forall>t \<in> set ts. stack_magic (tasks ?k t) = 0x12345678" "stack_magic (tasks s c) = 0x12345678"
    using run r(2) by (simp_all add: run_inv_def c_def)
  have rt: "running_thread ?k = c" "statuses ?k c = TASK_RUNNING"
    using r(4) by (simp_all add: c_def statuses_def)
  show ?thesis
  proof (cases "ticks (tasks s c) = 0")
    case True
    have e: "intr_timer_handler ret s = rbind (schedule ret ?k) (\<lambda>s. Inr (resume s))"
      using True magic(2) by (simp add: intr_timer_handler_def Let_def flip: c_def)
    have q: "with_idle ?k (ready_after ?k rs) = rs @ [c]"
      unfolding ready_after_def rt with_idle_def by simp
    have off: "\<not> eflags_if ?k" by simp
    from schedule_resume [OF k off magic(1), of ret] obtain s' where
      s': "intr_timer_handler ret s = Inr s'" "run_inv s' (List.tl (rs @ [c])) ts dir"
      "switched ?k rs s' dir"
      unfolding e left_ready_def q by blast
    then have h: "running_thread s' = hd (rs @ [c])" unfolding switched_def picked_def q by simp
    have "prepared s rs ?k INTR_ON" using rt(1)
      by (auto simp: prepared_def rest_kept_def lists_kept_def statuses_def c_def)
    with s' h True rt(2) show ?thesis by auto
  next
    case False
    let ?s = "resume (upd_task c (\<lambda>t. t\<lparr>ticks := ticks t - 1\<rparr>) ?k)"
    have e: "intr_timer_handler ret s = Inr ?s"
      using False magic(2) by (simp add: intr_timer_handler_def Let_def flip: c_def)
    have i: "sched_inv ?s rs ts dir"
      unfolding resume_eq sched_inv_eflags
      by (rule sched_inv_upd [OF l _ ss sk sp]) (auto simp: statuses_def rest_kept_def)
    have "run_inv ?s rs ts dir"
      unfolding run_inv_def using i rt run by (simp add: resume_eq statuses_def run_inv_def flip: c_def)
    moreover have "prepared s rs ?s INTR_ON" "statuses ?s c = TASK_RUNNING"
      using rt r(4) by (auto simp: prepared_def rest_kept_def lists_kept_def statuses_def resume_eq c_def)
    ultimately show ?thesis using False unfolding e by (simp add: resume_eq flip: c_def)
  qed
qed

lemma thread_unblock_run:
  assumes run: "run_inv s rs ts dir" and t: "t \<in> set ts"
    and st: "statuses s t \<in> {TASK_BLOCKED, TASK_WAITING, TASK_HANGING}"
  shows "\<exists>s'. thread_unblock t s = Inr s' \<and> run_inv s' (t # rs) ts dir
    \<and> running_thread s' = running_thread s \<and> statuses s' = (statuses s)(t := TASK_READY)
    \<and> eflags_if s' = eflags_if s \<and> old_status s' = old_status s \<and> rest_kept s s' \<and> esp s' = esp s
    \<and> lists_kept s s' (insert (general_tag t) (ready_cells s rs))"
proof -
  note r = run_invD [OF run]
  from thread_unblock_inv [OF r(1) t] st obtain s' where
    s': "thread_unblock t s = Inr s'" "sched_inv s' (t # rs) ts dir"
    "tasks s' = (tasks s)(t := (tasks s t)\<lparr>status := TASK_READY\<rparr>)"
    "running_thread s' = running_thread s" "eflags_if s' = eflags_if s" "rest_kept s s'" "esp s' = esp s"
    "old_status s' = old_status s" "lists_kept s s' (insert (general_tag t) (ready_cells s rs))"
    unfolding statuses_def by blast
  have e: "statuses s' = (statuses s)(t := TASK_READY)" by (auto simp: s'(3) statuses_def)
  have "t \<noteq> running_thread s" using st r(4) by auto
  then have "run_inv s' (t # rs) ts dir"
    using run s'(2,4) rest_keptD(9) [OF s'(6)] r(4) unfolding run_inv_def by (simp add: e)
  with s' e show ?thesis by blast
qed

section \<open>The thread system as a transition system\<close>

text \<open>
  What the running thread, or the timer while it runs, can do: compute (its registers and its
  stack pointer change, within its stack), yield, block itself, wake another thread, be
  interrupted by the timer. Only the idle thread runs \<^verbatim>\<open>idle\<close>, which blocks with
  \<^verbatim>\<open>TASK_BLOCKED\<close> only.
\<close>

inductive kstep :: "u32 list \<Rightarrow> kernel \<Rightarrow> kernel \<Rightarrow> bool" for ts where
  compute: "page e = running_thread s \<Longrightarrow> page (e - 20) = running_thread s \<Longrightarrow>
    kstep ts s (s\<lparr>esp := e, regs := r, eip := i, eflags_if := b\<rparr>)"
| yield: "thread_yield ret s = Inr s' \<Longrightarrow> kstep ts s s'"
| block: "stat \<in> {TASK_BLOCKED, TASK_WAITING, TASK_HANGING} \<Longrightarrow>
    (running_thread s = idle_thread s \<longrightarrow> stat = TASK_BLOCKED) \<Longrightarrow>
    thread_block stat ret s = Inr s' \<Longrightarrow> kstep ts s s'"
| unblock: "t \<in> set ts \<Longrightarrow> statuses s t \<in> {TASK_BLOCKED, TASK_WAITING, TASK_HANGING} \<Longrightarrow>
    thread_unblock t s = Inr s' \<Longrightarrow> kstep ts s s'"
| tick: "eflags_if s \<Longrightarrow> intr_timer_handler ret s = Inr s' \<Longrightarrow> kstep ts s s'"

inductive_cases kstepE: "kstep ts s s'"

lemma compute_inv:
  assumes run: "run_inv s rs ts dir" and e: "page e = running_thread s" "page (e - 20) = running_thread s"
  shows "run_inv (s\<lparr>esp := e, regs := r, eip := i, eflags_if := b\<rparr>) rs ts dir"
proof -
  let ?s = "s\<lparr>esp := e, regs := r, eip := i, eflags_if := b\<rparr>"
  from run_invD(1) [OF run] have l: "sched_lists s rs ts" and ss: "sched_states s rs ts"
    and sk: "sched_stacks s ts" and sp: "spaces_ok s (set ts) dir" by (simp_all add: sched_inv_def)
  have rt: "running_thread ?s = running_thread s" unfolding running_thread_def [of ?s] using e(1) by simp
  have "sched_lists ?s rs ts" using l by (subst sched_lists_cong [of _ s]) simp_all
  moreover have same: "idle_thread ?s = idle_thread s" "tasks ?s = tasks s" by simp_all
  have "sched_states ?s rs ts" using ss unfolding sched_states_def rt same .
  moreover have "sched_stacks ?s ts" using sk e unfolding sched_stacks_def rt by simp
  moreover have "spaces_ok ?s (set ts) dir"
    using sp by (intro spaces_ok_cong [OF sp]) (simp_all add: spaces_ok_def)
  ultimately show ?thesis
    using run unfolding run_inv_def sched_inv_def rt by (simp add: statuses_def)
qed

lemma kstep_inv:
  assumes "kstep ts s s'" and run: "run_inv s rs ts dir"
  shows "\<exists>rs'. run_inv s' rs' ts dir"
  using assms(1)
proof cases
  case compute
  then show ?thesis using compute_inv [OF run compute(2,3)] by blast
next
  case (yield ret)
  then show ?thesis using thread_yield_run [OF run, of ret] by auto
next
  case (block stat ret)
  then show ?thesis using thread_block_run [OF run, of stat ret] by auto
next
  case (unblock t)
  then show ?thesis using thread_unblock_run [OF run unblock(1,2)] by auto
next
  case (tick ret)
  then show ?thesis using timer_run [OF run, of ret] by (auto split: if_splits)
qed

inductive reachable :: "u32 list \<Rightarrow> kernel \<Rightarrow> kernel \<Rightarrow> bool" for ts s0 where
  start: "reachable ts s0 s0"
| step: "reachable ts s0 s \<Longrightarrow> kstep ts s s' \<Longrightarrow> reachable ts s0 s'"

lemma reachable_inv:
  assumes "reachable ts s0 s" and "run_inv s0 rs ts dir"
  shows "\<exists>rs'. run_inv s rs' ts dir"
  using assms by (induction rule: reachable.induct) (use kstep_inv in blast)+

section \<open>What the scheduler promises\<close>

text \<open>
  C2. In every state the thread system can reach, exactly one thread has the status running and it
  is the one whose stack the processor uses; the ready list in memory holds exactly the ready
  threads, each once; and the list of all threads is intact.
\<close>

theorem threads_safe:
  assumes "run_inv s0 rs ts dir" and "reachable ts s0 s"
  shows "\<exists>rs'. dlist s (thread_ready_list s) (map general_tag rs') \<and> distinct rs'
    \<and> dlist s (thread_all_list s) (map all_list_tag ts)
    \<and> (\<forall>t \<in> set ts. status (tasks s t) = TASK_READY \<longleftrightarrow> t \<in> set rs')
    \<and> (\<forall>t \<in> set ts. status (tasks s t) = TASK_RUNNING \<longleftrightarrow> t = running_thread s)"
proof -
  obtain rs' where run: "run_inv s rs' ts dir" using reachable_inv [OF assms(2,1)] by blast
  from run_invD(1) [OF run] have l: "sched_lists s rs' ts" and ss: "sched_states s rs' ts"
    by (simp_all add: sched_inv_def)
  note d = sched_statesD [OF ss, unfolded statuses_def]
  have "status (tasks s t) = TASK_RUNNING \<longleftrightarrow> t = running_thread s" if "t \<in> set ts" for t
    using d(4) [OF that] run_invD(4) [OF run, unfolded statuses_def] by blast
  with l d(3) show ?thesis unfolding sched_lists_def by blast
qed

text \<open>
  C13. No assertion of the thread system fails: in every reachable state, yielding, blocking with a
  blocked status, waking a thread that is blocked and taking a timer interrupt all return, and the
  panic of \<^verbatim>\<open>thread_unblock\<close> is never reached.
\<close>

theorem threads_never_panic:
  assumes "run_inv s0 rs ts dir" and "reachable ts s0 s"
  shows "(\<exists>s'. thread_yield ret s = Inr s')
    \<and> (\<forall>stat. stat \<in> {TASK_BLOCKED, TASK_WAITING, TASK_HANGING}
         \<and> (running_thread s = idle_thread s \<longrightarrow> stat = TASK_BLOCKED) \<longrightarrow>
         (\<exists>s'. thread_block stat ret s = Inr s'))
    \<and> (\<forall>t \<in> set ts. status (tasks s t) \<in> {TASK_BLOCKED, TASK_WAITING, TASK_HANGING} \<longrightarrow>
         (\<exists>s'. thread_unblock t s = Inr s'))
    \<and> (\<exists>s'. intr_timer_handler ret s = Inr s')"
proof -
  obtain rs' where run: "run_inv s rs' ts dir" using reachable_inv [OF assms(2,1)] by blast
  show ?thesis
    using thread_yield_run [OF run, of ret] thread_block_run [OF run, of _ ret]
      thread_unblock_run [OF run, unfolded statuses_def] timer_run [OF run, of ret]
    by blast
qed

text \<open>
  C24. \<^verbatim>\<open>schedule\<close> is a queue discipline: a thread that still runs goes behind the ready threads
  with its priority as new time slice, the first ready thread runs next (the idle thread when
  there is none), its page directory is in \<^verbatim>\<open>cr3\<close> and, for a user process, the ring 0 stack of
  the TSS is the top of its page; the other threads keep their status.
\<close>

theorem schedule_picks:
  assumes "sched_inv s rs ts dir" and "\<not> eflags_if s"
  defines "c \<equiv> running_thread s"
  defines "q \<equiv> (if status (tasks s c) = TASK_RUNNING then rs @ [c] else rs)"
  defines "x \<equiv> (if q = [] then idle_thread s else hd q)"
  shows "\<exists>s'. schedule ret s = Inr s' \<and> running_thread s' = x
    \<and> dlist s' (thread_ready_list s) (map general_tag (List.tl q))
    \<and> status (tasks s' x) = TASK_RUNNING
    \<and> (\<forall>t. t \<noteq> x \<longrightarrow> status (tasks s' t)
        = (if t = c \<and> status (tasks s c) = TASK_RUNNING then TASK_READY else status (tasks s t)))
    \<and> cr3 s' = (if pgdir (tasks s x) = 0 then 0x100000 else dir x)
    \<and> (pgdir (tasks s x) \<noteq> 0 \<longrightarrow> tss_esp0 s' = x + PG_SIZE)"
proof -
  have q: "ready_after s rs = q" by (simp add: ready_after_def q_def c_def statuses_def)
  have x: "picked s rs = x" "left_ready s rs = List.tl q"
    unfolding picked_def left_ready_def q by (simp_all add: with_idle_def x_def)
  from schedule_inv [OF assms(1,2), of ret] obtain s' where
    s': "schedule ret s = Inr s'" "sched_inv s' (List.tl q) ts dir" "running_thread s' = x"
    "statuses s' = next_statuses s rs" "rest_kept s s'" "cr3 s' = space_of s x dir"
    "pgdir (tasks s x) \<noteq> 0 \<longrightarrow> tss_esp0 s' = x + PG_SIZE"
    unfolding x by blast
  have st: "status (tasks s' t) = (if t = x then TASK_RUNNING
      else if t = c \<and> status (tasks s c) = TASK_RUNNING then TASK_READY else status (tasks s t))" for t
    using fun_cong [OF s'(4), of t] unfolding next_statuses_def statuses_def x(1) c_def [symmetric] by auto
  have "dlist s' (thread_ready_list s) (map general_tag (List.tl q))"
    using s'(2) rest_keptD(2) [OF s'(5)] by (simp add: sched_inv_def sched_lists_def)
  then show ?thesis using s' st by (intro exI [of _ s']) (simp add: space_of_def)
qed

text \<open>Yielding \<open>n\<close> times.\<close>

fun yields :: "u32 \<Rightarrow> nat \<Rightarrow> kernel \<Rightarrow> kernel res" where
  "yields ret 0 s = Inr s"
| "yields ret (Suc n) s = rbind (thread_yield ret s) (yields ret n)"

lemma yields_rotate:
  "run_inv s rs ts dir \<Longrightarrow> n \<le> length rs \<Longrightarrow>
    \<exists>s'. yields ret n s = Inr s' \<and> running_thread s' = (rs @ [running_thread s]) ! (if n = 0 then length rs else n - 1)
      \<and> run_inv s' (drop n rs @ take n (running_thread s # rs)) ts dir"
proof (induction n arbitrary: s rs)
  case 0
  then show ?case by simp
next
  case (Suc n)
  from Suc.prems obtain x xs where rs: "rs = x # xs" by (cases rs) auto
  from thread_yield_run [OF Suc.prems(1), of ret] obtain s1 where
    s1: "thread_yield ret s = Inr s1" "run_inv s1 (xs @ [running_thread s]) ts dir" "running_thread s1 = x"
    by (auto simp: rs)
  have n: "n \<le> length xs" using Suc.prems(2) rs by simp
  then have "n \<le> length (xs @ [running_thread s])" by simp
  from Suc.IH [OF s1(2) this] obtain s' where
    s': "yields ret n s1 = Inr s'" "running_thread s' = ((xs @ [running_thread s]) @ [x])
      ! (if n = 0 then length (xs @ [running_thread s]) else n - 1)"
    "run_inv s' (drop n (xs @ [running_thread s]) @ take n (x # xs @ [running_thread s])) ts dir"
    unfolding s1(3) by auto
  have "take n (x # xs @ [running_thread s]) = take n (x # xs)" using n by (cases n) auto
  then have "drop n (xs @ [running_thread s]) @ take n (x # xs @ [running_thread s])
      = drop (Suc n) rs @ take (Suc n) (running_thread s # rs)" using n rs by simp
  moreover have "running_thread s' = (rs @ [running_thread s]) ! n"
    using s'(2) n rs by (cases n) (auto simp: nth_append)
  ultimately show ?case using s1(1) s'(1,3) by simp
qed

text \<open>
  C25. Ready threads take turns: when every running thread yields, the thread in position \<open>i\<close> of the
  ready list runs after exactly \<open>i + 1\<close> yields, and the first thread is back after as many
  yields as there are threads in the round.
\<close>

theorem yield_round_robin:
  assumes "run_inv s rs ts dir"
  shows "(\<forall>i < length rs. \<exists>s'. yields ret (i + 1) s = Inr s' \<and> running_thread s' = rs ! i)
    \<and> (\<exists>s'. yields ret (length rs + 1) s = Inr s' \<and> running_thread s' = running_thread s)"
proof (intro conjI allI impI)
  fix i assume i: "i < length rs"
  then have "i + 1 \<le> length rs" by simp
  from yields_rotate [OF assms this, of ret] i
  show "\<exists>s'. yields ret (i + 1) s = Inr s' \<and> running_thread s' = rs ! i"
    by (auto simp: nth_append)
next
  have add: "yields ret (n + 1) s = rbind (yields ret n s) (thread_yield ret)" for n s
  proof (induction n arbitrary: s)
    case 0
    have "rbind (thread_yield ret s) (yields ret 0) = thread_yield ret s"
      by (cases "thread_yield ret s") simp_all
    then show ?case by simp
  next
    case (Suc n)
    then show ?case by (cases "thread_yield ret s") simp_all
  qed
  from yields_rotate [OF assms order_refl, of ret] obtain s1 where
    s1: "yields ret (length rs) s = Inr s1" "run_inv s1 (take (length rs) (running_thread s # rs)) ts dir"
    "running_thread s1 = (rs @ [running_thread s]) ! (if rs = [] then length rs else length rs - 1)"
    by auto
  from thread_yield_run [OF s1(2), of ret] s1(1,3)
  show "\<exists>s'. yields ret (length rs + 1) s = Inr s' \<and> running_thread s' = running_thread s"
    unfolding add by (cases rs) auto
qed

text \<open>
  C12. A context switch can be undone: a thread that \<^verbatim>\<open>switch_to\<close> suspended comes back, when another
  thread switches to it, with the registers, the stack pointer and the return address it had,
  provided its stack and the saved pointer in its control block were left alone.
\<close>

theorem context_switch_roundtrip:
  assumes "page (esp s - 20) = a" and "page (esp s) = a"
    and "self_kstack (tasks s2 a) = self_kstack (tasks (switch_to a b ret s) a)"
    and "\<And>x. page x = a \<Longrightarrow> stk s2 x = stk (switch_to a b ret s) x"
    and "c \<noteq> a" and "page (esp s2) = c" and "page (esp s2 - 20) = c"
  shows "regs (switch_to c a ret2 s2) = regs s \<and> esp (switch_to c a ret2 s2) = esp s
    \<and> eip (switch_to c a ret2 s2) = ret"
proof -
  let ?s1 = "switch_to a b ret s" and ?k = "esp s - 20"
  have k: "self_kstack (tasks s2 a) = ?k" using assms(3) by (simp add: switch_to_fields)
  have "?k + 20 = esp s" by simp
  then have p20: "page (?k + 20) = page ?k" using assms(1,2) by metis
  have pg: "page (?k + i) = a" if "i \<le> 20" for i using page_between [OF p20 that] assms(1) by metis
  have same: "stk s2 (?k + i) = stk ?s1 (?k + i)" if "i \<le> 20" for i by (rule assms(4) [OF pg [OF that]])
  have "saved_frame s2 ?k (regs s) ret"
    using switch_to_saves [of a b ret s] same [of 0] same [of 4] same [of 8] same [of 12] same [of 16]
    by (simp add: saved_frame_def word_le_nat_alt)
  moreover have "page (self_kstack (tasks s2 a)) \<noteq> page (esp s2)" using k assms(1,5,6) by metis
  ultimately have "regs (switch_to c a ret2 s2) = regs s \<and> eip (switch_to c a ret2 s2) = ret"
    using assms(5-7) p20 k by (intro switch_to_restores) simp_all
  then show ?thesis using assms(5) k by (simp add: switch_to_fields)
qed

section \<open>The thread system as the boot code leaves it\<close>

definition boot_task :: "u32 \<Rightarrow> task_status \<Rightarrow> task_struct" where
  "boot_task k st = \<lparr>self_kstack = k, pid = 1, status = st, task_name = [], priority = 31, ticks = 31,
     elapsed_ticks = 0, fd_table = [0, 1, 2], pgdir = 0,
     userprog_vaddr = \<lparr>vaddr_bitmap = \<lparr>btmp_bytes_len = 0, bits = []\<rparr>, vaddr_start = 0\<rparr>,
     cwd_inode_nr = 0, parent_pid = - 1, stack_magic = 0x12345678\<rparr>"

definition boot_threads :: kernel where
  "boot_threads = vm.extend boot_vm
    \<lparr>tasks = (\<lambda>t. if t = 0xc009e000 then boot_task 0xc009f000 TASK_RUNNING
       else boot_task 0xc0101e50 TASK_READY),
     regs = \<lparr>ebp = 0, ebx = 0, edi = 0, esi = 0\<rparr>, esp = 0xc009ef00, eip = 0, stk = (\<lambda>_. 0), tss_esp0 = 0,
     old_status = (\<lambda>_. INTR_ON), thread_ready_list = 0xc0010000, thread_all_list = 0xc0010010,
     main_thread = 0xc009e000, idle_thread = 0xc0101000, total_ticks = 0, next_pid = 2,
     sem_value = (\<lambda>_. 1), lock_holder = (\<lambda>_. 0), lock_repeat = (\<lambda>_. 0)\<rparr>"

definition boot_kernel :: kernel where
  "boot_kernel = list_append 0xc0010010 (all_list_tag 0xc0101000) (list_append 0xc0010010 (all_list_tag 0xc009e000)
     (list_append 0xc0010000 (general_tag 0xc0101000)
       (list_init 0xc0010010 (list_init 0xc0010000 boot_threads))))"

lemma boot_kernel_fields:
  "tasks boot_kernel = tasks boot_threads" "esp boot_kernel = 0xc009ef00" "cr3 boot_kernel = 0x100000"
  "pmem boot_kernel = boot_pmem" "thread_ready_list boot_kernel = 0xc0010000"
  "thread_all_list boot_kernel = 0xc0010010" "idle_thread boot_kernel = 0xc0101000"
  by (simp_all add: boot_kernel_def list_init_def boot_threads_def vm.extend_def boot_vm_def)

lemma boot_lists:
  "dlist boot_kernel 0xc0010000 [general_tag 0xc0101000]"
  "dlist boot_kernel 0xc0010010 [all_list_tag 0xc009e000, all_list_tag 0xc0101000]"
  unfolding boot_kernel_def
  by (simp_all add: dlist_def cells_def list_init_def list_op_eqs general_tag_def all_list_tag_def)

lemma boot_run_inv: "run_inv boot_kernel [0xc0101000] [0xc009e000, 0xc0101000] (\<lambda>_. 0)"
proof -
  have rt: "running_thread boot_kernel = 0xc009e000"
    by (simp add: running_thread_def boot_kernel_fields page_def)
  have tk: "tasks boot_kernel = (\<lambda>t. if t = 0xc009e000 then boot_task 0xc009f000 TASK_RUNNING
       else boot_task 0xc0101e50 TASK_READY)"
    unfolding boot_kernel_fields by (simp add: boot_threads_def vm.extend_def)
  have "sched_lists boot_kernel [0xc0101000] [0xc009e000, 0xc0101000]"
    using boot_lists by (simp add: sched_lists_def boot_kernel_fields list_heads_def aligned_def page_def)
  moreover have "sched_states boot_kernel [0xc0101000] [0xc009e000, 0xc0101000]"
    unfolding sched_states_def rt by (simp add: boot_kernel_fields(7) tk boot_task_def)
  moreover have "sched_stacks boot_kernel [0xc009e000, 0xc0101000]"
    unfolding sched_stacks_def rt by (simp add: boot_kernel_fields(2) tk boot_task_def page_def)
  moreover have "spaces_ok boot_kernel (set [0xc009e000, 0xc0101000]) (\<lambda>_. 0)"
    by (simp add: spaces_ok_def roots_def tk boot_task_def self_mapped_def boot_kernel_fields boot_pmem_def
        page_def present_def)
  ultimately show ?thesis
    unfolding run_inv_def sched_inv_def rt by (simp add: statuses_def tk boot_task_def)
qed

lemma threads_safe_witness:
  "\<exists>rs'. dlist boot_kernel 0xc0010000 (map general_tag rs') \<and> distinct rs'"
  using threads_safe [OF boot_run_inv reachable.start] boot_kernel_fields(5) by metis

lemma threads_never_panic_witness: "\<exists>s'. thread_block TASK_BLOCKED 0 boot_kernel = Inr s'"
  using threads_never_panic [OF boot_run_inv reachable.start, of 0] by blast

lemma schedule_picks_witness:
  "\<exists>s'. schedule 0 (boot_kernel\<lparr>eflags_if := False\<rparr>) = Inr s' \<and> running_thread s' = 0xc0101000"
proof -
  have "sched_inv (boot_kernel\<lparr>eflags_if := False\<rparr>) [0xc0101000] [0xc009e000, 0xc0101000] (\<lambda>_. 0)"
    using run_invD(1) [OF boot_run_inv] by simp
  from schedule_picks [OF this, of 0] show ?thesis by (auto split: if_splits)
qed

lemma yield_round_robin_witness:
  "\<exists>s'. yields 0 2 boot_kernel = Inr s' \<and> running_thread s' = 0xc009e000"
  using yield_round_robin [OF boot_run_inv, of 0]
  by (simp add: running_thread_def boot_kernel_fields page_def numeral_2_eq_2)

lemma context_switch_roundtrip_witness:
  "regs (switch_to 0xc0101000 0xc009e000 7 ((switch_to 0xc009e000 0xc0101000 5 boot_kernel)\<lparr>esp := 0xc0101f00\<rparr>))
    = regs boot_kernel"
proof -
  let ?s2 = "(switch_to 0xc009e000 0xc0101000 5 boot_kernel)\<lparr>esp := 0xc0101f00\<rparr>"
  have "regs (switch_to 0xc0101000 0xc009e000 7 ?s2) = regs boot_kernel
      \<and> esp (switch_to 0xc0101000 0xc009e000 7 ?s2) = esp boot_kernel
      \<and> eip (switch_to 0xc0101000 0xc009e000 7 ?s2) = 5"
    by (rule context_switch_roundtrip) (simp_all add: boot_kernel_fields page_def)
  then show ?thesis by blast
qed

end
