(* ===== verification/Sync.thy ===== *)
theory Sync
  imports Scheduler
begin

text \<open>
  \<^verbatim>\<open>thread/sync.c\<close>: binary semaphores and recursive locks, on the thread system of
  \<open>Scheduler\<close>. A semaphore is an address (its value is \<open>sem_value\<close> there, its waiters are the list
  4 bytes further), a lock is an address with its holder, its semaphore 4 bytes further, and its
  count.

  A call that has to wait gives the processor away in the middle of \<^verbatim>\<open>sema_down\<close>, so the code
  between two context switches is one definition: \<open>sema_loop\<close> is the \<^verbatim>\<open>while\<close> of \<^verbatim>\<open>sema_down\<close>
  until the semaphore is taken or the thread has blocked, and the thread runs it again when it
  is resumed. \<open>pc\<close> says in which call each thread is; interrupts may happen wherever the code
  leaves them enabled, in particular between the end of \<^verbatim>\<open>sema_down\<close> and the assignment of the
  holder, and between the reset of the holder and \<^verbatim>\<open>sema_up\<close>.
\<close>

section \<open>The code\<close>

abbreviation waiters :: "u32 \<Rightarrow> u32" where "waiters psema \<equiv> psema + 4"
abbreviation lock_sema :: "u32 \<Rightarrow> u32" where "lock_sema plock \<equiv> plock + 4"

definition sema_init :: "u32 \<Rightarrow> u8 \<Rightarrow> kernel \<Rightarrow> kernel" where
  "sema_init psema value s =
     list_init (waiters psema) (s\<lparr>sem_value := (sem_value s)(psema := value)\<rparr>)"

definition lock_init :: "u32 \<Rightarrow> kernel \<Rightarrow> kernel" where
  "lock_init plock s =
     (let s = s\<lparr>lock_holder := (lock_holder s)(plock := 0)\<rparr>;
          s = s\<lparr>lock_repeat := (lock_repeat s)(plock := 0)\<rparr>
      in sema_init (lock_sema plock) 1 s)"

text \<open>
  The loop of \<^verbatim>\<open>sema_down\<close>, with the interrupts disabled and \<open>old\<close> as \<^verbatim>\<open>old_status\<close>: the flag
  says whether the semaphore was taken, or the thread waits and another one runs.
\<close>

definition sema_loop :: "u32 \<Rightarrow> intr_status \<Rightarrow> u32 \<Rightarrow> kernel \<Rightarrow> (bool \<times> kernel) res" where
  "sema_loop psema old ret s =
     (if sem_value s psema = 0
      then let cur = running_thread s
           in rbind (elem_find (waiters psema) (general_tag cur) s) (\<lambda>found.
              rbind (c_assert (\<not> found)) (\<lambda>_.
              rbind (elem_find (waiters psema) (general_tag cur) s) (\<lambda>again.
              if again then Inl Panic
              else let s = list_append (waiters psema) (general_tag cur) s
                   in rbind (thread_block TASK_BLOCKED ret s) (\<lambda>s. Inr (False, s)))))
      else let s = s\<lparr>sem_value := (sem_value s)(psema := sem_value s psema - 1)\<rparr>
           in rbind (c_assert (sem_value s psema = 0)) (\<lambda>_.
              Inr (True, snd (intr_set_status old s))))"

definition sema_down :: "u32 \<Rightarrow> u32 \<Rightarrow> kernel \<Rightarrow> (bool \<times> intr_status \<times> kernel) res" where
  "sema_down psema ret s0 =
     (let (old_status, s) = intr_disable s0
      in rbind (sema_loop psema old_status ret s) (\<lambda>(got, s). Inr (got, old_status, s)))"

definition sema_up :: "u32 \<Rightarrow> kernel \<Rightarrow> kernel res" where
  "sema_up psema s0 =
     (let (old_status, s) = intr_disable s0
      in rbind (c_assert (sem_value s psema = 0)) (\<lambda>_.
         rbind (if \<not> list_empty (waiters psema) s
                then let (tag, s) = list_pop (waiters psema) s in thread_unblock (page tag) s
                else Inr s) (\<lambda>s.
         let s = s\<lparr>sem_value := (sem_value s)(psema := sem_value s psema + 1)\<rparr>
         in rbind (c_assert (sem_value s psema = 1)) (\<lambda>_.
            Inr (snd (intr_set_status old_status s))))))"

text \<open>\<^verbatim>\<open>lock_acquire\<close>: the branch of a thread that holds the lock, and what follows \<^verbatim>\<open>sema_down\<close>.\<close>

definition lock_taken :: "u32 \<Rightarrow> kernel \<Rightarrow> kernel res" where
  "lock_taken plock s =
     (let s = s\<lparr>lock_holder := (lock_holder s)(plock := running_thread s)\<rparr>
      in rbind (c_assert (lock_repeat s plock = 0)) (\<lambda>_.
         Inr (s\<lparr>lock_repeat := (lock_repeat s)(plock := 1)\<rparr>)))"

definition lock_again :: "u32 \<Rightarrow> kernel \<Rightarrow> kernel" where
  "lock_again plock s = s\<lparr>lock_repeat := (lock_repeat s)(plock := lock_repeat s plock + 1)\<rparr>"

text \<open>
  The whole of \<^verbatim>\<open>lock_acquire\<close> as far as it runs without giving up the processor; the flag is
  false when the thread waits.
\<close>

definition lock_acquire :: "u32 \<Rightarrow> u32 \<Rightarrow> kernel \<Rightarrow> (bool \<times> kernel) res" where
  "lock_acquire plock ret s =
     (if lock_holder s plock \<noteq> running_thread s
      then rbind (sema_down (lock_sema plock) ret s) (\<lambda>(got, old_status, s).
           if got then rbind (lock_taken plock s) (\<lambda>s. Inr (True, s)) else Inr (False, s))
      else Inr (True, lock_again plock s))"

text \<open>\<^verbatim>\<open>lock_release\<close>, up to the call of \<^verbatim>\<open>sema_up\<close>; the flag says whether that call follows.\<close>

definition lock_drop :: "u32 \<Rightarrow> kernel \<Rightarrow> (bool \<times> kernel) res" where
  "lock_drop plock s =
     rbind (c_assert (lock_holder s plock = running_thread s)) (\<lambda>_.
     if 1 < lock_repeat s plock
     then Inr (False, s\<lparr>lock_repeat := (lock_repeat s)(plock := lock_repeat s plock - 1)\<rparr>)
     else rbind (c_assert (lock_repeat s plock = 1)) (\<lambda>_.
       let s = s\<lparr>lock_holder := (lock_holder s)(plock := 0)\<rparr>;
           s = s\<lparr>lock_repeat := (lock_repeat s)(plock := 0)\<rparr>
       in Inr (True, s)))"

definition lock_release :: "u32 \<Rightarrow> kernel \<Rightarrow> kernel res" where
  "lock_release plock s =
     rbind (lock_drop plock s) (\<lambda>(up, s). if up then sema_up (lock_sema plock) s else Inr s)"

section \<open>Threads that use locks\<close>

text \<open>
  Where a thread is: outside the lock functions, in the loop of \<^verbatim>\<open>sema_down\<close>, between its end and
  the assignment of the holder, or before the call of \<^verbatim>\<open>sema_up\<close>.
\<close>

datatype pc = Outside | In_down u32 intr_status | Acquired u32 | Releasing u32

record sys =
  kern :: kernel
  pcs :: "u32 \<Rightarrow> pc"

abbreviation me :: "sys \<Rightarrow> u32" where "me y \<equiv> running_thread (kern y)"

definition at :: "sys \<Rightarrow> kernel \<Rightarrow> pc \<Rightarrow> sys" where
  "at y s p = \<lparr>kern = s, pcs = (pcs y)(me y := p)\<rparr>"

inductive lstep :: "u32 set \<Rightarrow> u32 list \<Rightarrow> sys \<Rightarrow> sys \<Rightarrow> bool" for LS ts where
  other: "\<forall>l st. pcs y (me y) \<noteq> In_down l st \<Longrightarrow> page e = me y \<Longrightarrow> page (e - 20) = me y \<Longrightarrow>
    lstep LS ts y (at y ((kern y)\<lparr>esp := e, regs := r, eip := i, eflags_if := b\<rparr>) (pcs y (me y)))"
| yield: "\<forall>l st. pcs y (me y) \<noteq> In_down l st \<Longrightarrow> thread_yield ret (kern y) = Inr s \<Longrightarrow>
    lstep LS ts y (at y s (pcs y (me y)))"
| tick: "eflags_if (kern y) \<Longrightarrow> intr_timer_handler ret (kern y) = Inr s \<Longrightarrow> lstep LS ts y (at y s (pcs y (me y)))"
| block: "pcs y (me y) = Outside \<Longrightarrow> stat \<in> {TASK_BLOCKED, TASK_WAITING, TASK_HANGING} \<Longrightarrow>
    (me y = idle_thread (kern y) \<longrightarrow> stat = TASK_BLOCKED) \<Longrightarrow>
    thread_block stat ret (kern y) = Inr s \<Longrightarrow> lstep LS ts y (at y s Outside)"
| unblock: "pcs y (me y) = Outside \<Longrightarrow> t \<in> set ts \<Longrightarrow> pcs y t = Outside \<Longrightarrow>
    statuses (kern y) t \<in> {TASK_BLOCKED, TASK_WAITING, TASK_HANGING} \<Longrightarrow>
    thread_unblock t (kern y) = Inr s \<Longrightarrow> lstep LS ts y (at y s Outside)"
| acquire: "pcs y (me y) = Outside \<Longrightarrow> l \<in> LS \<Longrightarrow> me y \<noteq> idle_thread (kern y) \<Longrightarrow>
    lock_holder (kern y) l \<noteq> me y \<Longrightarrow> sema_down (lock_sema l) ret (kern y) = Inr (got, st, s) \<Longrightarrow>
    lstep LS ts y (at y s (if got then Acquired l else In_down l st))"
| loop: "pcs y (me y) = In_down l st \<Longrightarrow> sema_loop (lock_sema l) st ret (kern y) = Inr (got, s) \<Longrightarrow>
    lstep LS ts y (at y s (if got then Acquired l else In_down l st))"
| taken: "pcs y (me y) = Acquired l \<Longrightarrow> lock_taken l (kern y) = Inr s \<Longrightarrow>
    lstep LS ts y (at y s Outside)"
| again: "pcs y (me y) = Outside \<Longrightarrow> l \<in> LS \<Longrightarrow> lock_holder (kern y) l = me y \<Longrightarrow>
    lock_repeat (kern y) l \<noteq> - 1 \<Longrightarrow> lstep LS ts y (at y (lock_again l (kern y)) Outside)"
| drop: "pcs y (me y) = Outside \<Longrightarrow> l \<in> LS \<Longrightarrow> lock_holder (kern y) l = me y \<Longrightarrow>
    lock_drop l (kern y) = Inr (up, s) \<Longrightarrow>
    lstep LS ts y (at y s (if up then Releasing l else Outside))"
| up: "pcs y (me y) = Releasing l \<Longrightarrow> sema_up (lock_sema l) (kern y) = Inr s \<Longrightarrow>
    lstep LS ts y (at y s Outside)"

inductive_cases lstepE: "lstep LS ts y y'"

section \<open>What a step of the running thread does to the others\<close>

definition active :: "kernel \<Rightarrow> u32 \<Rightarrow> bool" where
  "active s t \<longleftrightarrow> statuses s t \<in> {TASK_READY, TASK_RUNNING}"

text \<open>\<open>C\<close> holds the list node of the running thread, unless the step leaves it alone.\<close>

definition effect :: "kernel \<Rightarrow> u32 list \<Rightarrow> u32 set \<Rightarrow> kernel \<Rightarrow> bool" where
  "effect s rs C s' \<longleftrightarrow> rest_kept s s'
     \<and> lists_kept s s' (C \<union> {general_tag (idle_thread s)} \<union> ready_cells s rs)
     \<and> (\<forall>t. t \<noteq> running_thread s \<longrightarrow> t \<noteq> idle_thread s \<longrightarrow> \<not> active s t \<longrightarrow> statuses s' t = statuses s t)
     \<and> (\<forall>t. t \<noteq> running_thread s \<longrightarrow> active s t \<longrightarrow> active s' t)
     \<and> (\<forall>t. t \<noteq> running_thread s \<longrightarrow> old_status s' t = old_status s t)
     \<and> eflags_if s' = (old_status s' (running_thread s') = INTR_ON)"

lemma switched_effect:
  assumes run: "run_inv s rs ts dir" and p: "prepared s rs k v" and sw: "switched k q s' dir"
    and q: "ready_after k q = rs \<or> ready_after k q = rs @ [running_thread s]"
    and qs: "set q \<subseteq> insert (running_thread s) (set rs)"
    and C: "moved k \<subseteq> C" "lists_kept s k (C \<union> ready_cells s rs)"
      "general_tag (running_thread s) \<in> C \<or> set q = set rs"
  shows "effect s rs C s'" and "old_status s' (running_thread s) = v"
    and "statuses k (running_thread s) \<in> {TASK_READY, TASK_RUNNING} \<Longrightarrow> active s' (running_thread s)"
    and "running_thread s \<noteq> idle_thread s \<Longrightarrow> ready_after k q = rs \<Longrightarrow>
      statuses k (running_thread s) \<noteq> TASK_RUNNING \<Longrightarrow>
      statuses s' (running_thread s) = statuses k (running_thread s)"
proof -
  let ?c = "running_thread s"
  note r = run_invD [OF run]
  from r(1) have ss: "sched_states s rs ts" and l: "sched_lists s rs ts" by (simp_all add: sched_inv_def)
  note d = sched_statesD [OF ss]
  from p have k: "running_thread k = ?c" "rest_kept s k" "old_status k = (old_status s)(?c := v)"
    "lists_kept s k (insert (general_tag ?c) (ready_cells s rs))"
    "\<And>t. t \<noteq> ?c \<Longrightarrow> statuses k t = statuses s t" by (simp_all add: prepared_def)
  from sw have w: "running_thread s' = picked k q" "statuses s' = next_statuses k q" "rest_kept k s'"
    "eflags_if s' = (old_status k (picked k q) = INTR_ON)" "old_status s' = old_status k"
    "lists_kept k s' (moved k \<union> {general_tag (idle_thread k)} \<union> ready_cells k q)"
    by (simp_all add: switched_def)
  note rk = rest_keptD [OF k(2)]
  have rsub: "set rs \<subseteq> set ts" using l by (simp add: sched_lists_def)
  have pk: "picked k q \<in> insert ?c (insert (idle_thread s) (set rs))"
    using q rk(4) unfolding picked_def with_idle_def by (cases rs) auto
  have pk2: "picked k q \<in> insert (idle_thread s) (set rs)" if "ready_after k q = rs"
    using that rk(4) unfolding picked_def with_idle_def by (cases rs) auto
  have st: "statuses s' t = (if t = picked k q then TASK_RUNNING
      else if t = ?c \<and> statuses k t = TASK_RUNNING then TASK_READY else statuses k t)" for t
    unfolding w(2) next_statuses_def k(1) ..
  show os: "old_status s' ?c = v" unfolding w(5) k(3) by simp
  show "active s' ?c" if "statuses k ?c \<in> {TASK_READY, TASK_RUNNING}"
    using that unfolding active_def st by auto
  show "statuses s' ?c = statuses k ?c"
    if "?c \<noteq> idle_thread s" "ready_after k q = rs" "statuses k ?c \<noteq> TASK_RUNNING"
    using pk2 [OF that(2)] that(1,3) r(3) unfolding st by auto
  have "statuses s' t = statuses s t" if "t \<noteq> ?c" "t \<noteq> idle_thread s" "\<not> active s t" for t
  proof -
    have "t \<notin> set rs" using that(3) rsub d(3) unfolding active_def by blast
    then have "t \<noteq> picked k q" using pk that by auto
    then show ?thesis unfolding st using k(5) [OF that(1)] that(1) by simp
  qed
  moreover have "active s' t" if "t \<noteq> ?c" "active s t" for t
    using k(5) [OF that(1)] that unfolding active_def st by auto
  moreover have "rest_kept s s'" by (rule rest_kept_trans [OF k(2) w(3)])
  moreover have "lists_kept s s' (C \<union> {general_tag (idle_thread s)} \<union> ready_cells s rs)"
  proof (rule lists_kept_trans)
    show "lists_kept s k (C \<union> {general_tag (idle_thread s)} \<union> ready_cells s rs)"
      by (rule lists_kept_mono [OF C(2)]) auto
    show "lists_kept k s' (C \<union> {general_tag (idle_thread s)} \<union> ready_cells s rs)"
      by (rule lists_kept_mono [OF w(6)]) (use qs rk C in \<open>auto simp: set_cells\<close>)
  qed
  ultimately show "effect s rs C s'" unfolding effect_def using w(1,4,5) k(3) by simp
qed

lemma yield_effect:
  assumes run: "run_inv s rs ts dir"
  shows "\<exists>s' rs'. thread_yield ret s = Inr s' \<and> run_inv s' rs' ts dir \<and> effect s rs {general_tag (running_thread s)} s'
    \<and> active s' (running_thread s) \<and> old_status s' (running_thread s) = intr_get_status s"
proof -
  obtain s' y where y: "thread_yield ret s = Inr s'" "run_inv s' (List.tl (rs @ [running_thread s])) ts dir"
    "prepared s rs y (intr_get_status s)" "switched y (rs @ [running_thread s]) s' dir"
    "statuses y (running_thread s) = TASK_READY" using thread_yield_run [OF run] by metis
  have "ready_after y (rs @ [running_thread s]) = rs @ [running_thread s]"
    using y(3,5) by (simp add: ready_after_def prepared_def)
  moreover have "moved y \<subseteq> {general_tag (running_thread s)}" "lists_kept s y ({general_tag (running_thread s)} \<union> ready_cells s rs)"
    using y(3) by (simp_all add: moved_def prepared_def)
  ultimately show ?thesis using switched_effect [OF run y(3,4), of "{general_tag (running_thread s)}"] y by auto
qed

lemma block_effect:
  assumes run: "run_inv s rs ts dir" and st: "stat \<in> {TASK_BLOCKED, TASK_WAITING, TASK_HANGING}"
    and i: "running_thread s = idle_thread s \<Longrightarrow> stat = TASK_BLOCKED"
  shows "\<exists>s' rs'. thread_block stat ret s = Inr s' \<and> run_inv s' rs' ts dir \<and> effect s rs {} s'
    \<and> (running_thread s \<noteq> idle_thread s \<longrightarrow> statuses s' (running_thread s) = stat)
    \<and> old_status s' (running_thread s) = intr_get_status s"
proof -
  obtain s' b where b: "thread_block stat ret s = Inr s'" "run_inv s' (left_ready b rs) ts dir"
    "prepared s rs b (intr_get_status s)" "switched b rs s' dir" "statuses b (running_thread s) = stat"
    "lists_kept s b {}" using thread_block_run [OF run st i] by metis
  have "stat \<noteq> TASK_RUNNING" using st by auto
  then have "ready_after b rs = rs"
    using b(3,5) by (simp add: ready_after_def prepared_def)
  moreover have "moved b \<subseteq> {}" "lists_kept s b ({} \<union> ready_cells s rs)"
    using b(3,5) \<open>stat \<noteq> TASK_RUNNING\<close> lists_kept_mono [OF b(6)] by (simp_all add: moved_def prepared_def)
  ultimately show ?thesis using switched_effect [OF run b(3,4), of "{}"] b \<open>stat \<noteq> TASK_RUNNING\<close> by auto
qed

lemma tick_effect:
  assumes run: "run_inv s rs ts dir"
  shows "\<exists>s' rs'. intr_timer_handler ret s = Inr s' \<and> run_inv s' rs' ts dir \<and> effect s rs {general_tag (running_thread s)} s'
    \<and> active s' (running_thread s) \<and> old_status s' (running_thread s) = INTR_ON"
proof (cases "ticks (tasks s (running_thread s)) = 0")
  case True
  with timer_run [OF run, of ret] obtain s' k where
    k: "intr_timer_handler ret s = Inr s'" "run_inv s' (List.tl (rs @ [running_thread s])) ts dir"
    "prepared s rs k INTR_ON" "switched k rs s' dir" "statuses k (running_thread s) = TASK_RUNNING" by auto
  have "ready_after k rs = rs @ [running_thread s]"
    using k(3,5) by (simp add: ready_after_def prepared_def)
  moreover have "moved k \<subseteq> {general_tag (running_thread s)}" "lists_kept s k ({general_tag (running_thread s)} \<union> ready_cells s rs)"
    using k(3) by (simp_all add: moved_def prepared_def)
  ultimately show ?thesis using switched_effect [OF run k(3,4), of "{general_tag (running_thread s)}"] k by auto
next
  case False
  with timer_run [OF run, of ret] obtain s' where
    k: "intr_timer_handler ret s = Inr s'" "run_inv s' rs ts dir" "prepared s rs s' INTR_ON"
    "eflags_if s'" "statuses s' (running_thread s) = TASK_RUNNING" by auto
  then have "effect s rs {general_tag (running_thread s)} s'"
    by (auto simp: effect_def prepared_def active_def elim: lists_kept_mono)
  with k show ?thesis by (auto simp: prepared_def active_def)
qed

section \<open>The invariant of the locks\<close>

definition owns :: "kernel \<Rightarrow> (u32 \<Rightarrow> pc) \<Rightarrow> u32 \<Rightarrow> u32 \<Rightarrow> bool" where
  "owns s p t l \<longleftrightarrow> lock_holder s l = t \<or> p t = Acquired l \<or> p t = Releasing l"

definition wait_heads :: "u32 \<Rightarrow> u32 set" where
  "wait_heads l = {waiters (lock_sema l), tail_of (waiters (lock_sema l))}"

definition locks_apart :: "kernel \<Rightarrow> u32 set \<Rightarrow> u32 list \<Rightarrow> bool" where
  "locks_apart s LS ts \<longleftrightarrow> (\<forall>l \<in> LS. (\<forall>a \<in> wait_heads l. page a \<notin> set ts \<and> a \<notin> list_heads s)
     \<and> (\<forall>l' \<in> LS. l \<noteq> l' \<longrightarrow> wait_heads l \<inter> wait_heads l' = {}))"

text \<open>The waiters of each lock: blocked threads in the loop of \<^verbatim>\<open>sema_down\<close>, the one in \<open>X\<close> apart.\<close>

definition wait_inv :: "kernel \<Rightarrow> (u32 \<Rightarrow> pc) \<Rightarrow> u32 list \<Rightarrow> (u32 \<Rightarrow> u32 list) \<Rightarrow> u32 set \<Rightarrow> u32 set \<Rightarrow> bool" where
  "wait_inv s p ts ws LS X \<longleftrightarrow> (\<forall>l \<in> LS.
     dlist s (waiters (lock_sema l)) (map general_tag (ws l)) \<and> distinct (ws l) \<and> set (ws l) \<subseteq> set ts
     \<and> (\<forall>t \<in> set (ws l). (t \<in> X \<or> statuses s t = TASK_BLOCKED) \<and> (\<exists>st. p t = In_down l st)))"

text \<open>A thread in the loop waits in the list or is on its way to try again, with interrupts off.\<close>

definition down_inv :: "kernel \<Rightarrow> (u32 \<Rightarrow> pc) \<Rightarrow> u32 list \<Rightarrow> (u32 \<Rightarrow> u32 list) \<Rightarrow> u32 set \<Rightarrow> u32 set \<Rightarrow> bool" where
  "down_inv s p ts ws LS X \<longleftrightarrow> (\<forall>t \<in> set ts. \<forall>l st. p t = In_down l st \<longrightarrow> l \<in> LS \<and> t \<noteq> idle_thread s
     \<and> (t \<in> X \<or> (t \<in> set (ws l) \<or> active s t)
       \<and> (if t = running_thread s then \<not> eflags_if s else old_status s t = INTR_OFF)))"

text \<open>The value of the semaphore is 0 exactly while one thread owns the lock.\<close>

definition own_at :: "kernel \<Rightarrow> (u32 \<Rightarrow> pc) \<Rightarrow> u32 list \<Rightarrow> u32 \<Rightarrow> bool" where
  "own_at s p ts l \<longleftrightarrow>
     (sem_value s (lock_sema l) = 0 \<and> (\<exists>!t. t \<in> set ts \<and> owns s p t l)
      \<or> sem_value s (lock_sema l) = 1 \<and> (\<forall>t \<in> set ts. \<not> owns s p t l))
     \<and> (if lock_holder s l = 0 then lock_repeat s l = 0
        else lock_holder s l \<in> set ts \<and> lock_repeat s l \<noteq> 0
          \<and> p (lock_holder s l) \<noteq> Acquired l \<and> p (lock_holder s l) \<noteq> Releasing l)"

definition own_inv :: "kernel \<Rightarrow> (u32 \<Rightarrow> pc) \<Rightarrow> u32 list \<Rightarrow> u32 set \<Rightarrow> bool" where
  "own_inv s p ts LS \<longleftrightarrow> (\<forall>l \<in> LS. own_at s p ts l)
     \<and> (\<forall>t \<in> set ts. \<forall>l. p t = Acquired l \<or> p t = Releasing l \<longrightarrow> l \<in> LS)"

text \<open>No wake-up is lost: while threads wait and the lock is free, one of them is awake.\<close>

definition wake_inv :: "kernel \<Rightarrow> (u32 \<Rightarrow> pc) \<Rightarrow> u32 list \<Rightarrow> (u32 \<Rightarrow> u32 list) \<Rightarrow> u32 set \<Rightarrow> u32 set \<Rightarrow> bool" where
  "wake_inv s p ts ws LS X \<longleftrightarrow> (\<forall>l \<in> LS. ws l \<noteq> [] \<and> sem_value s (lock_sema l) \<noteq> 0 \<longrightarrow>
     (\<exists>t \<in> set ts - X. \<exists>st. p t = In_down l st \<and> active s t))"

definition lock_inv :: "kernel \<Rightarrow> (u32 \<Rightarrow> pc) \<Rightarrow> u32 list \<Rightarrow> u32 list \<Rightarrow> (u32 \<Rightarrow> u32) \<Rightarrow> (u32 \<Rightarrow> u32 list)
    \<Rightarrow> u32 set \<Rightarrow> u32 set \<Rightarrow> bool" where
  "lock_inv s p rs ts dir ws LS X \<longleftrightarrow> run_inv s rs ts dir \<and> locks_apart s LS ts
     \<and> wait_inv s p ts ws LS X \<and> down_inv s p ts ws LS X \<and> own_inv s p ts LS \<and> wake_inv s p ts ws LS X"

lemma lock_invD:
  assumes "lock_inv s p rs ts dir ws LS X"
  shows "run_inv s rs ts dir" "locks_apart s LS ts" "wait_inv s p ts ws LS X" "down_inv s p ts ws LS X"
    "own_inv s p ts LS" "wake_inv s p ts ws LS X"
  using assms by (simp_all add: lock_inv_def)

lemma locks_apart_cong:
  "thread_ready_list s' = thread_ready_list s \<Longrightarrow> thread_all_list s' = thread_all_list s \<Longrightarrow>
    locks_apart s' LS ts = locks_apart s LS ts"
  by (simp add: locks_apart_def list_heads_def)

lemma own_inv_cong:
  "sem_value s' = sem_value s \<Longrightarrow> lock_holder s' = lock_holder s \<Longrightarrow> lock_repeat s' = lock_repeat s \<Longrightarrow>
    own_inv s' p ts LS = own_inv s p ts LS"
  by (simp add: own_inv_def own_at_def owns_def)

text \<open>The running thread changes one lock and where it is with respect to that lock.\<close>

lemma own_inv_local:
  assumes own: "own_inv s p ts LS" and l: "l \<in> LS"
    and same: "\<And>k. k \<noteq> l \<Longrightarrow> sem_value s' (lock_sema k) = sem_value s (lock_sema k)
      \<and> lock_holder s' k = lock_holder s k \<and> lock_repeat s' k = lock_repeat s k"
    and p: "\<And>k. k \<noteq> l \<Longrightarrow> p c \<noteq> Acquired k \<and> p c \<noteq> Releasing k"
    and v: "\<And>k. k \<noteq> l \<Longrightarrow> v \<noteq> Acquired k \<and> v \<noteq> Releasing k"
    and at: "own_at s' (p(c := v)) ts l"
  shows "own_inv s' (p(c := v)) ts LS"
  unfolding own_inv_def
proof (intro conjI ballI allI impI)
  fix k assume k: "k \<in> LS"
  show "own_at s' (p(c := v)) ts k"
  proof (cases "k = l")
    case False
    have "owns s' (p(c := v)) t k = owns s p t k" for t
      using p [OF False] v [OF False] same [OF False] by (simp add: owns_def)
    moreover have "own_at s p ts k" using own k by (simp add: own_inv_def)
    ultimately show ?thesis
      using p [OF False] v [OF False] same [OF False] by (simp add: own_at_def)
  qed (simp add: at)
next
  fix t k assume "t \<in> set ts" "(p(c := v)) t = Acquired k \<or> (p(c := v)) t = Releasing k"
  then show "k \<in> LS" using own l v [of k] unfolding own_inv_def by (cases "t = c") auto
qed

text \<open>The cells of a waiting list are not touched by what the running thread does to the ready list.\<close>

lemma wait_cells:
  assumes run: "run_inv s rs ts dir" and ap: "locks_apart s LS ts" and l: "l \<in> LS"
    and w: "set (ws l) \<subseteq> set ts" and n: "set (ws l) \<inter> set rs = {}"
  shows "set (cells (waiters (lock_sema l)) (map general_tag (ws l)))
      \<inter> ({general_tag t | t. t \<in> set ts \<and> t \<notin> set (ws l)} \<union> ready_cells s rs) = {}"
proof -
  from run_invD(1) [OF run] have sl: "sched_lists s rs ts" by (simp add: sched_inv_def)
  then have rs: "set rs \<subseteq> set ts" by (simp add: sched_lists_def)
  have pg: "page (general_tag t) = t" if "t \<in> set ts" for t by (rule sched_lists_tags [OF sl that])
  have h: "a \<noteq> general_tag t" if "a \<in> wait_heads l" "t \<in> set ts" for a t
    using that ap l pg [OF that(2)] unfolding locks_apart_def by metis
  have h2: "a \<notin> list_heads s" if "a \<in> wait_heads l" for a
    using that ap l unfolding locks_apart_def by metis
  have g: "general_tag t \<notin> list_heads s" if "t \<in> set ts" for t by (rule sched_lists_tags [OF sl that])
  have "a \<notin> {general_tag t | t. t \<in> set ts \<and> t \<notin> set (ws l)} \<union> ready_cells s rs"
    if a: "a \<in> set (cells (waiters (lock_sema l)) (map general_tag (ws l)))" for a
  proof (cases "a \<in> wait_heads l")
    case True
    with h [OF True] h2 [OF True] rs show ?thesis
      by (auto simp: set_cells list_heads_def)
  next
    case False
    then obtain t where t: "t \<in> set (ws l)" "a = general_tag t"
      using a by (auto simp: set_cells wait_heads_def)
    then have "t \<in> set ts" "t \<notin> set rs" using w n by auto
    with g [of t] t show ?thesis by (auto simp: set_cells list_heads_def tag_inj)
  qed
  then show ?thesis by (simp only: disjoint_iff) blast
qed

text \<open>The waiters are blocked, so they are neither ready nor running.\<close>

lemma waiters_apart:
  assumes run: "run_inv s rs ts dir" and w: "wait_inv s p ts ws LS X" and l: "l \<in> LS"
    and X: "\<forall>t \<in> X. statuses s t \<noteq> TASK_READY"
  shows "set (ws l) \<inter> set rs = {}" and "set (ws l) \<subseteq> set ts"
    and "t \<in> set (ws l) \<Longrightarrow> t \<notin> X \<Longrightarrow> \<not> active s t \<and> t \<noteq> running_thread s"
proof -
  note r = run_invD [OF run]
  from r(1) have ss: "sched_states s rs ts" by (simp add: sched_inv_def)
  have b: "t \<in> X \<or> statuses s t = TASK_BLOCKED" if "t \<in> set (ws l)" for t
    using w l that unfolding wait_inv_def by blast
  show sub: "set (ws l) \<subseteq> set ts" using w l unfolding wait_inv_def by blast
  have "t \<notin> set rs" if t: "t \<in> set (ws l)" for t
  proof
    assume "t \<in> set rs"
    then have "statuses s t = TASK_READY" using sched_statesD(3) [OF ss] sub t by blast
    with b [OF t] X show False by auto
  qed
  then show "set (ws l) \<inter> set rs = {}" by auto
  show "\<not> active s t \<and> t \<noteq> running_thread s" if "t \<in> set (ws l)" "t \<notin> X"
    using b [OF that(1)] that(2) r(4) unfolding active_def by auto
qed

lemma not_ready:
  assumes "run_inv s rs ts dir" and "X \<subseteq> {running_thread s}"
  shows "\<forall>t \<in> X. statuses s t \<noteq> TASK_READY"
  using run_invD(4) [OF assms(1)] assms(2) by auto

text \<open>
  A step of the scheduler keeps the invariant of the locks: \<open>X\<close> is empty, or the running thread that
  has put itself into a waiting list and comes out of the step blocked.
\<close>

lemma effect_wait_inv:
  assumes inv: "lock_inv s p rs ts dir ws LS X" and ef: "effect s rs C s'"
    and X: "X = {} \<and> C \<subseteq> {general_tag (running_thread s)} \<or> X = {running_thread s} \<and> C = {}"
    and blk: "X \<noteq> {} \<Longrightarrow> statuses s' (running_thread s) = TASK_BLOCKED"
  shows "wait_inv s' p ts ws LS {}"
  unfolding wait_inv_def
proof (intro ballI conjI)
  fix l assume l: "l \<in> LS"
  note d = lock_invD [OF inv]
  let ?c = "running_thread s"
  have Xs: "X \<subseteq> {?c}" using X by auto
  note wa = waiters_apart [OF d(1,3) l not_ready [OF d(1) Xs]]
  have ts: "?c \<in> set ts" by (rule run_invD [OF d(1)])
  have i: "idle_thread s \<in> set ts" using run_invD(1) [OF d(1)] by (simp add: sched_inv_def sched_states_def)
  have w: "distinct (ws l)" "set (ws l) \<subseteq> set ts" "dlist s (waiters (lock_sema l)) (map general_tag (ws l))"
    "\<And>t. t \<in> set (ws l) \<Longrightarrow> (t \<in> X \<or> statuses s t = TASK_BLOCKED) \<and> (\<exists>st. p t = In_down l st)"
    using d(3) l unfolding wait_inv_def by blast+
  have idle: "t \<noteq> idle_thread s" if "t \<in> set (ws l)" for t
    using d(4) subsetD [OF w(2) that] w(4) [OF that] unfolding down_inv_def by blast
  have "C \<union> {general_tag (idle_thread s)} \<subseteq> {general_tag t | t. t \<in> set ts \<and> t \<notin> set (ws l)}"
    using X ts i idle wa(3) by auto
  then have "set (cells (waiters (lock_sema l)) (map general_tag (ws l)))
      \<inter> (C \<union> {general_tag (idle_thread s)} \<union> ready_cells s rs) = {}"
    using wait_cells [where ws = ws, OF d(1,2) l w(2) wa(1)] by (simp only: disjoint_iff) blast
  then show "dlist s' (waiters (lock_sema l)) (map general_tag (ws l))"
    using w(3) ef lists_kept_dlist unfolding effect_def by blast
  show "distinct (ws l)" "set (ws l) \<subseteq> set ts" by (rule w)+
  fix t assume t: "t \<in> set (ws l)"
  show "\<exists>st. p t = In_down l st" using w(4) [OF t] by blast
  show "t \<in> {} \<or> statuses s' t = TASK_BLOCKED"
  proof (cases "t \<in> X")
    case True
    then have "t = ?c" "X \<noteq> {}" using Xs by auto
    then show ?thesis using blk by simp
  next
    case False
    have "statuses s' t = statuses s t" using ef wa(3) [OF t False] idle [OF t] unfolding effect_def by blast
    then show ?thesis using w(4) [OF t] False by simp
  qed
qed

lemma effect_lock_inv:
  assumes inv: "lock_inv s p rs ts dir ws LS X" and run': "run_inv s' rs' ts dir" and ef: "effect s rs C s'"
    and X: "X = {} \<and> C \<subseteq> {general_tag (running_thread s)} \<or> X = {running_thread s} \<and> C = {}"
    and out: "X = {} \<Longrightarrow> (\<forall>l st. p (running_thread s) \<noteq> In_down l st)"
    and blk: "X \<noteq> {} \<Longrightarrow> statuses s' (running_thread s) = TASK_BLOCKED
      \<and> old_status s' (running_thread s) = INTR_OFF
      \<and> (\<forall>l st. p (running_thread s) = In_down l st \<longrightarrow> running_thread s \<in> set (ws l))"
  shows "lock_inv s' p rs' ts dir ws LS {}"
proof -
  note d = lock_invD [OF inv]
  let ?c = "running_thread s"
  from ef have rest: "rest_kept s s'"
    and ac: "\<And>t. t \<noteq> ?c \<Longrightarrow> active s t \<Longrightarrow> active s' t"
    and os: "\<And>t. t \<noteq> ?c \<Longrightarrow> old_status s' t = old_status s t"
    and fl: "eflags_if s' = (old_status s' (running_thread s') = INTR_ON)"
    unfolding effect_def by blast+
  note r = rest_keptD [OF rest]
  have off: "old_status s' t = INTR_OFF \<Longrightarrow> if t = running_thread s' then \<not> eflags_if s' else old_status s' t = INTR_OFF"
    for t using fl by auto
  have "down_inv s' p ts ws LS {}"
    unfolding down_inv_def r(4)
  proof (intro ballI allI impI conjI)
    fix t l st assume t: "t \<in> set ts" "p t = In_down l st"
    show "l \<in> LS" "t \<noteq> idle_thread s" using d(4) t unfolding down_inv_def by blast+
    have "t \<in> {} \<or> ((t \<in> set (ws l) \<or> active s' t) \<and> old_status s' t = INTR_OFF)"
    proof (cases "t = ?c")
      case True
      then show ?thesis using out blk t(2) by blast
    next
      case False
      then have "t \<notin> X" using X by auto
      then have "t \<in> set (ws l) \<or> active s t" "old_status s t = INTR_OFF"
        using d(4) t False unfolding down_inv_def by (metis (no_types, lifting))+
      then show ?thesis using ac [OF False] os [OF False] by auto
    qed
    then show "t \<in> {} \<or> ((t \<in> set (ws l) \<or> active s' t)
      \<and> (if t = running_thread s' then \<not> eflags_if s' else old_status s' t = INTR_OFF))" using off by blast
  qed
  moreover have "wake_inv s' p ts ws LS {}"
    unfolding wake_inv_def r(5)
  proof (intro ballI impI)
    fix l assume l: "l \<in> LS" "ws l \<noteq> [] \<and> sem_value s (lock_sema l) \<noteq> 0"
    then obtain t st where t: "t \<in> set ts - X" "p t = In_down l st" "active s t"
      using d(6) unfolding wake_inv_def by blast
    have "t \<noteq> ?c" using t out X by blast
    with ac t show "\<exists>t \<in> set ts - {}. \<exists>st. p t = In_down l st \<and> active s' t" by blast
  qed
  moreover have "wait_inv s' p ts ws LS {}" using effect_wait_inv [OF inv ef X] blk by blast
  ultimately show ?thesis
    using run' d(2,5) own_inv_cong [OF r(5,6,7)] locks_apart_cong [OF r(2,3)] unfolding lock_inv_def by blast
qed

end
