(* ===== verification/Locks.thy ===== *)
theory Locks
  imports Sync
begin

text \<open>
  What the locks of \<^verbatim>\<open>thread/sync.c\<close> promise: the invariant of \<open>Sync\<close> is kept by every step of every
  thread, so two threads never own a lock at the same time, no assertion of the lock functions
  fails, and while threads wait for a free lock one of them is awake.
\<close>

section \<open>Steps that leave the threads alone\<close>

definition same_threads :: "kernel \<Rightarrow> kernel \<Rightarrow> bool" where
  "same_threads s s' \<longleftrightarrow> tasks s' = tasks s \<and> esp s' = esp s \<and> cr3 s' = cr3 s \<and> pmem s' = pmem s
     \<and> thread_ready_list s' = thread_ready_list s \<and> thread_all_list s' = thread_all_list s
     \<and> idle_thread s' = idle_thread s"

lemma same_threadsD:
  assumes "same_threads s s'"
  shows "running_thread s' = running_thread s" "statuses s' = statuses s" "active s' = active s"
    "idle_thread s' = idle_thread s" "list_heads s' = list_heads s"
    "locks_apart s' LS ts = locks_apart s LS ts"
  using assms
  by (auto simp: same_threads_def running_thread_def statuses_def active_def fun_eq_iff list_heads_def locks_apart_def)

lemma same_threads_run:
  assumes "run_inv s rs ts dir" and st: "same_threads s s'" and "sched_lists s' rs ts"
  shows "run_inv s' rs ts dir"
proof -
  from run_invD(1) [OF assms(1)] have ss: "sched_states s rs ts"
    and sk: "sched_stacks s ts" and sp: "spaces_ok s (set ts) dir" by (simp_all add: sched_inv_def)
  note d = same_threadsD [OF st] and f = st [unfolded same_threads_def]
  have same: "tasks s' = tasks s" "esp s' = esp s" using f by simp_all
  have "sched_states s' rs ts" using ss unfolding sched_states_def d same .
  moreover have "sched_stacks s' ts" using sk unfolding sched_stacks_def d same .
  moreover have "spaces_ok s' (set ts) dir"
    using sp f by (intro spaces_ok_cong [OF sp]) (simp_all add: spaces_ok_def)
  ultimately show ?thesis
    using assms unfolding run_inv_def sched_inv_def d same by simp
qed

text \<open>Changes in a waiting list do not reach the lists of the scheduler.\<close>

lemma wait_list_sched:
  assumes run: "run_inv s rs ts dir" and ap: "locks_apart s LS ts" and l: "l \<in> LS"
    and w: "set xs \<subseteq> set ts" "set xs \<inter> set rs = {}" and st: "same_threads s s'"
    and k: "lists_kept s s' (set (cells (waiters (lock_sema l)) (map general_tag xs)))"
  shows "sched_lists s' rs ts"
proof -
  from run_invD(1) [OF run] have sl: "sched_lists s rs ts" by (simp add: sched_inv_def)
  let ?W = "set (cells (waiters (lock_sema l)) (map general_tag xs))"
  have W: "a \<in> ?W \<longleftrightarrow> a \<in> wait_heads l \<or> (\<exists>t \<in> set xs. a = general_tag t)" for a
    by (auto simp: set_cells wait_heads_def)
  have h: "page a \<notin> set ts \<and> a \<notin> list_heads s" if "a \<in> wait_heads l" for a
    using ap l that unfolding locks_apart_def by blast
  have tags: "page (general_tag t) = t \<and> page (all_list_tag t) = t" if "t \<in> set ts" for t
    using sl that tag_page unfolding sched_lists_def by blast
  have rsub: "set rs \<subseteq> set ts" using sl by (simp add: sched_lists_def)
  have gl: "general_tag t \<notin> list_heads s" if "t \<in> set ts" for t by (rule sched_lists_tags [OF sl that])
  have al: "aligned t" if "t \<in> set ts" for t using sl that by (simp add: sched_lists_def)
  have kinds: "general_tag t \<noteq> all_list_tag u" if "t \<in> set ts" "u \<in> set ts" for t u
    by (rule tag_kinds [OF al [OF that(1)] al [OF that(2)]])
  have "a \<notin> ready_cells s rs \<and> a \<notin> set (cells (thread_all_list s) (map all_list_tag ts))" if a: "a \<in> ?W" for a
  proof (cases "a \<in> wait_heads l")
    case True
    have "page (general_tag t) \<in> set ts" "page (all_list_tag t) \<in> set ts" if "t \<in> set ts" for t
      using tags [OF that] that by simp_all
    then have "a \<noteq> general_tag t" "a \<noteq> all_list_tag t" if "t \<in> set ts" for t
      using h [OF True] that by blast+
    then have "a \<notin> general_tag ` set rs" "a \<notin> all_list_tag ` set ts" using rsub by blast+
    then show ?thesis using h [OF True] by (auto simp: set_cells list_heads_def)
  next
    case False
    then obtain t where t: "t \<in> set xs" "a = general_tag t" using a W by blast
    then have m: "t \<in> set ts" "t \<notin> set rs" using w by auto
    have "a \<notin> all_list_tag ` set ts" "a \<notin> general_tag ` set rs" using kinds [OF m(1)] t(2) m(2) by (auto simp: tag_inj)
    then show ?thesis using gl [OF m(1)] t(2) by (auto simp: set_cells list_heads_def)
  qed
  then have "ready_cells s rs \<inter> ?W = {}" "set (cells (thread_all_list s) (map all_list_tag ts)) \<inter> ?W = {}"
    by blast+
  then have "dlist s' (thread_ready_list s) (map general_tag rs) = dlist s (thread_ready_list s) (map general_tag rs)"
    "dlist s' (thread_all_list s) (map all_list_tag ts) = dlist s (thread_all_list s) (map all_list_tag ts)"
    using lists_kept_dlist [OF k] by blast+
  moreover have "thread_ready_list s' = thread_ready_list s" "thread_all_list s' = thread_all_list s"
    using st by (simp_all add: same_threads_def)
  ultimately show ?thesis using sl unfolding sched_lists_def same_threadsD [OF st] by simp
qed

text \<open>
  The running thread changes the fields of locks and where it is: the waiting lists stay, and a lock
  that is free afterwards still has a thread awake to take it.
\<close>

lemma local_lock_inv:
  assumes inv: "lock_inv s p rs ts dir ws LS {}" and st: "same_threads s s'"
    and f: "nxt s' = nxt s" "prv s' = prv s" "old_status s' = old_status s"
    and v: "\<And>l st. v \<noteq> In_down l st" and own: "own_inv s' (p(running_thread s := v)) ts LS"
    and wk: "\<And>l. l \<in> LS \<Longrightarrow> ws l \<noteq> [] \<Longrightarrow> sem_value s' (lock_sema l) \<noteq> 0 \<Longrightarrow>
      (\<exists>t \<in> set ts. t \<noteq> running_thread s \<and> (\<exists>st. p t = In_down l st) \<and> active s t)
      \<or> sem_value s (lock_sema l) \<noteq> 0 \<and> (\<forall>st. p (running_thread s) \<noteq> In_down l st)"
  shows "lock_inv s' (p(running_thread s := v)) rs ts dir ws LS {}"
proof -
  let ?c = "running_thread s" and ?p = "p(running_thread s := v)"
  note d = lock_invD [OF inv] and t = same_threadsD [OF st]
  have "sched_lists s' rs ts"
    using run_invD(1) [OF d(1)] sched_lists_cong [OF f(1,2)] st by (simp add: sched_inv_def same_threads_def)
  with d(1) st have "run_inv s' rs ts dir" by (rule same_threads_run)
  moreover have c: "?c \<notin> set (ws l)" if "l \<in> LS" for l
    using waiters_apart(3) [OF d(1,3) that, of ?c] by blast
  have "wait_inv s' ?p ts ws LS {}"
    unfolding wait_inv_def t
  proof (intro ballI conjI)
    fix l assume l: "l \<in> LS"
    have w: "distinct (ws l)" "set (ws l) \<subseteq> set ts" "dlist s (waiters (lock_sema l)) (map general_tag (ws l))"
      "\<And>t. t \<in> set (ws l) \<Longrightarrow> (t \<in> {} \<or> statuses s t = TASK_BLOCKED) \<and> (\<exists>st. p t = In_down l st)"
      using d(3) l unfolding wait_inv_def by blast+
    show "distinct (ws l)" "set (ws l) \<subseteq> set ts" "dlist s' (waiters (lock_sema l)) (map general_tag (ws l))"
      using w(1-3) dlist_fields [OF f(1,2)] by blast+
    fix t assume t: "t \<in> set (ws l)"
    then have "t \<noteq> ?c" using c [OF l] by blast
    then show "t \<in> {} \<or> statuses s t = TASK_BLOCKED" "\<exists>st. ?p t = In_down l st" using w(4) [OF t] by auto
  qed
  moreover have "down_inv s' ?p ts ws LS {}"
    unfolding down_inv_def t f(3)
  proof (intro ballI allI impI)
    fix t l st assume a: "t \<in> set ts" "?p t = In_down l st"
    then have n: "t \<noteq> ?c" "p t = In_down l st" using v by (auto split: if_splits)
    then have "l \<in> LS \<and> t \<noteq> idle_thread s \<and> (t \<in> {} \<or> (t \<in> set (ws l) \<or> active s t)
        \<and> (if t = ?c then \<not> eflags_if s else old_status s t = INTR_OFF))"
      using d(4) a(1) unfolding down_inv_def by blast
    then show "l \<in> LS \<and> t \<noteq> idle_thread s \<and> (t \<in> {} \<or> (t \<in> set (ws l) \<or> active s t)
        \<and> (if t = ?c then \<not> eflags_if s' else old_status s t = INTR_OFF))" using n(1) by simp
  qed
  moreover have "wake_inv s' ?p ts ws LS {}"
    unfolding wake_inv_def t
  proof (intro ballI impI)
    fix l assume l: "l \<in> LS" "ws l \<noteq> [] \<and> sem_value s' (lock_sema l) \<noteq> 0"
    have "\<exists>t \<in> set ts. t \<noteq> ?c \<and> (\<exists>st. p t = In_down l st) \<and> active s t"
    proof (cases "sem_value s (lock_sema l) \<noteq> 0 \<and> (\<forall>st. p ?c \<noteq> In_down l st)")
      case True
      then obtain t st where "t \<in> set ts" "p t = In_down l st" "active s t"
        using d(6) l unfolding wake_inv_def by blast
      moreover from this True have "t \<noteq> ?c" by blast
      ultimately show ?thesis by blast
    qed (use wk [OF l(1)] l(2) in blast)
    then show "\<exists>t \<in> set ts - {}. \<exists>st. ?p t = In_down l st \<and> active s t" by auto
  qed
  ultimately show ?thesis using d(2) own t(6) unfolding lock_inv_def by blast
qed

text \<open>
  A blocked thread is woken: \<open>X\<close> holds it when it has just been taken out of a waiting list.
\<close>

lemma unblock_lock_inv:
  assumes inv: "lock_inv s p rs ts dir ws LS X" and X: "X \<subseteq> {t}" and t: "t \<in> set ts"
    and st: "statuses s t \<in> {TASK_BLOCKED, TASK_WAITING, TASK_HANGING}"
    and n: "\<And>l. l \<in> LS \<Longrightarrow> t \<notin> set (ws l)"
    and o: "\<And>l st. p t = In_down l st \<Longrightarrow> old_status s t = INTR_OFF"
  shows "\<exists>s'. thread_unblock t s = Inr s' \<and> lock_inv s' p (t # rs) ts dir ws LS {}
    \<and> running_thread s' = running_thread s \<and> active s' t \<and> rest_kept s s' \<and> eflags_if s' = eflags_if s"
proof -
  note d = lock_invD [OF inv]
  from thread_unblock_run [OF d(1) t st] obtain s' where
    s': "thread_unblock t s = Inr s'" "run_inv s' (t # rs) ts dir" "running_thread s' = running_thread s"
    "statuses s' = (statuses s)(t := TASK_READY)" "eflags_if s' = eflags_if s" "old_status s' = old_status s"
    "rest_kept s s'" "lists_kept s s' (insert (general_tag t) (ready_cells s rs))" by blast
  note r = rest_keptD [OF s'(7)]
  have tc: "t \<noteq> running_thread s" using st run_invD(4) [OF d(1)] by auto
  have nr: "\<forall>t \<in> X. statuses s t \<noteq> TASK_READY" using X st by auto
  have ac: "active s' u = (u = t \<or> active s u)" for u by (simp add: active_def s'(4))
  have "wait_inv s' p ts ws LS {}"
    unfolding wait_inv_def
  proof (intro ballI conjI)
    fix l assume l: "l \<in> LS"
    note wa = waiters_apart [OF d(1,3) l nr]
    have w: "distinct (ws l)" "set (ws l) \<subseteq> set ts" "dlist s (waiters (lock_sema l)) (map general_tag (ws l))"
      "\<And>t. t \<in> set (ws l) \<Longrightarrow> (t \<in> X \<or> statuses s t = TASK_BLOCKED) \<and> (\<exists>st. p t = In_down l st)"
      using d(3) l unfolding wait_inv_def by blast+
    have "set (cells (waiters (lock_sema l)) (map general_tag (ws l)))
      \<inter> insert (general_tag t) (ready_cells s rs) = {}"
      using wait_cells [where ws = ws, OF d(1,2) l w(2) wa(1)] t n [OF l] by (simp only: disjoint_iff) blast
    then show "dlist s' (waiters (lock_sema l)) (map general_tag (ws l))"
      using lists_kept_dlist [OF s'(8)] w(3) by blast
    show "distinct (ws l)" "set (ws l) \<subseteq> set ts" by (rule w)+
    fix u assume u: "u \<in> set (ws l)"
    then have "u \<noteq> t" using n [OF l] by blast
    then show "u \<in> {} \<or> statuses s' u = TASK_BLOCKED" "\<exists>st. p u = In_down l st"
      using w(4) [OF u] X unfolding s'(4) by auto
  qed
  moreover have "down_inv s' p ts ws LS {}"
    unfolding down_inv_def r(4) s'(3,5,6)
  proof (intro ballI allI impI)
    fix u l st assume u: "u \<in> set ts" "p u = In_down l st"
    then have "l \<in> LS \<and> u \<noteq> idle_thread s \<and> (u \<in> X \<or> (u \<in> set (ws l) \<or> active s u)
      \<and> (if u = running_thread s then \<not> eflags_if s else old_status s u = INTR_OFF))"
      using d(4) unfolding down_inv_def by blast
    moreover have "u = t \<Longrightarrow> old_status s u = INTR_OFF \<and> u \<noteq> running_thread s" using o u(2) tc by blast
    moreover have "u \<noteq> t \<Longrightarrow> u \<notin> X" using X by blast
    ultimately show "l \<in> LS \<and> u \<noteq> idle_thread s \<and> (u \<in> {} \<or> (u \<in> set (ws l) \<or> active s' u)
      \<and> (if u = running_thread s then \<not> eflags_if s else old_status s u = INTR_OFF))"
      unfolding ac by (cases "u = t") simp_all
  qed
  moreover have "wake_inv s' p ts ws LS {}"
    unfolding wake_inv_def r(5) ac
  proof (intro ballI impI)
    fix l assume "l \<in> LS" "ws l \<noteq> [] \<and> sem_value s (lock_sema l) \<noteq> 0"
    then obtain u st where "u \<in> set ts" "p u = In_down l st" "active s u" using d(6) unfolding wake_inv_def by blast
    then show "\<exists>u \<in> set ts - {}. \<exists>st. p u = In_down l st \<and> (u = t \<or> active s u)" by auto
  qed
  ultimately show ?thesis
    using s'(1,2,3,5,7) d(2,5) own_inv_cong [OF r(5,6,7)] locks_apart_cong [OF r(2,3)] ac
    unfolding lock_inv_def by blast
qed

text \<open>The cells of two waiting lists are different.\<close>

lemma wait_lists_apart:
  assumes run: "run_inv s rs ts dir" and ap: "locks_apart s LS ts" and l: "l \<in> LS" "l' \<in> LS" "l \<noteq> l'"
    and xs: "set xs \<subseteq> set ts" "set ys \<subseteq> set ts" "set xs \<inter> set ys = {}"
  shows "set (cells (waiters (lock_sema l')) (map general_tag ys))
    \<inter> set (cells (waiters (lock_sema l)) (map general_tag xs)) = {}"
proof -
  from run_invD(1) [OF run] have sl: "sched_lists s rs ts" by (simp add: sched_inv_def)
  have tags: "page (general_tag t) \<in> set ts" if "t \<in> set ts" for t
    using sched_lists_tags(4) [OF sl that] that by simp
  have "page a \<notin> set ts" if "a \<in> wait_heads l \<union> wait_heads l'" for a
    using ap l that unfolding locks_apart_def by blast
  then have ne: "a \<noteq> general_tag t" if "a \<in> wait_heads l \<union> wait_heads l'" "t \<in> set ts" for a t
    using tags that by blast
  have "wait_heads l' \<inter> general_tag ` set xs = {}" using ne xs(1) by blast
  moreover have "general_tag ` set ys \<inter> wait_heads l = {}" using ne xs(2) by blast
  moreover have "wait_heads l \<inter> wait_heads l' = {}" using ap l unfolding locks_apart_def by blast
  moreover have "set (cells (waiters (lock_sema l)) (map general_tag xs)) = wait_heads l \<union> general_tag ` set xs"
    "set (cells (waiters (lock_sema l')) (map general_tag ys)) = wait_heads l' \<union> general_tag ` set ys"
    by (auto simp: set_cells wait_heads_def)
  moreover have "general_tag ` set xs \<inter> general_tag ` set ys = {}" using xs(3) by (auto simp: tag_inj)
  ultimately show ?thesis by (simp add: Int_Un_distrib Int_Un_distrib2 Int_commute)
qed

section \<open>Waiting and waking\<close>

lemma same_threads_list [simp]:
  "same_threads s (list_append l e s)" "same_threads s (snd (list_pop l s))"
  by (simp_all add: same_threads_def)

text \<open>The running thread has put itself into a waiting list.\<close>

lemma queued_lock_inv:
  assumes inv: "lock_inv s p rs ts dir ws LS {}" and l: "l \<in> LS" and z: "sem_value s (lock_sema l) = 0"
    and p: "\<And>k st. p (running_thread s) = In_down k st \<Longrightarrow> k = l"
      "\<And>k. p (running_thread s) \<noteq> Acquired k \<and> p (running_thread s) \<noteq> Releasing k"
    and i: "running_thread s \<noteq> idle_thread s"
  shows "lock_inv (list_append (waiters (lock_sema l)) (general_tag (running_thread s)) s)
    (p(running_thread s := In_down l st)) rs ts dir (ws(l := ws l @ [running_thread s])) LS {running_thread s}"
proof -
  let ?c = "running_thread s" and ?l = "waiters (lock_sema l)"
  let ?s = "list_append ?l (general_tag ?c) s" and ?p = "p(running_thread s := In_down l st)"
    and ?ws = "ws(l := ws l @ [running_thread s])"
  note d = lock_invD [OF inv] and t = same_threadsD [OF same_threads_list(1) [of s ?l "general_tag ?c"]]
  note rd = run_invD [OF d(1)]
  have wa: "set (ws k) \<inter> set rs = {}" "set (ws k) \<subseteq> set ts" "?c \<notin> set (ws k)" if "k \<in> LS" for k
    using waiters_apart [OF d(1,3) that] by blast+
  have w: "distinct (ws k)" "dlist s (waiters (lock_sema k)) (map general_tag (ws k))"
    "\<And>t. t \<in> set (ws k) \<Longrightarrow> statuses s t = TASK_BLOCKED \<and> (\<exists>st. p t = In_down k st)" if "k \<in> LS" for k
    using d(3) that unfolding wait_inv_def by blast+
  have kept: "lists_kept s ?s (set (cells ?l (map general_tag (ws l @ [?c]))))"
    by (rule lists_kept_mono [OF kept_append [OF w(2) [OF l]]]) (auto simp: set_cells)
  have sub: "set (ws l @ [?c]) \<subseteq> set ts" "set (ws l @ [?c]) \<inter> set rs = {}" using wa [OF l] rd(2,3) by auto
  have "run_inv ?s rs ts dir"
    by (rule same_threads_run [OF d(1) same_threads_list(1)
        wait_list_sched [OF d(1,2) l sub same_threads_list(1) kept]])
  moreover have "wait_inv ?s ?p ts ?ws LS {?c}"
    unfolding wait_inv_def t
  proof (intro ballI conjI)
    fix k assume k: "k \<in> LS"
    have f: "general_tag ?c \<notin> set (cells ?l (map general_tag (ws l)))"
      using wait_cells [where ws = ws, OF d(1,2) l wa(2) [OF l] wa(1) [OF l]] rd(2) wa(3) [OF l]
      by (simp only: disjoint_iff) blast
    show "dlist ?s (waiters (lock_sema k)) (map general_tag (?ws k))"
    proof (cases "k = l")
      case True
      then show ?thesis using dlist_append [OF w(2) [OF l] f] by simp
    next
      case False
      have dj: "set (ws l @ [?c]) \<inter> set (ws k) = {}" using w(3) [OF l] w(3) [OF k] wa(3) [OF k] False by fastforce
      from lists_kept_dlist [OF kept wait_lists_apart [OF d(1,2) l k False [symmetric] sub(1) wa(2) [OF k] dj]]
      show ?thesis using w(2) [OF k] False by simp
    qed
    show "distinct (?ws k)" "set (?ws k) \<subseteq> set ts" using w(1) [OF k] wa [OF k] rd(2) by auto
    fix t assume t: "t \<in> set (?ws k)"
    then have "t = ?c \<and> k = l \<or> t \<in> set (ws k) \<and> t \<noteq> ?c" using wa(3) [OF k] by (auto split: if_splits)
    then show "t \<in> {?c} \<or> statuses s t = TASK_BLOCKED" "\<exists>st. ?p t = In_down k st" using w(3) [OF k, of t] by auto
  qed
  moreover have "down_inv ?s ?p ts ?ws LS {?c}"
    unfolding down_inv_def t list_op_kernel list_op_fields
  proof (intro ballI allI impI)
    fix u k st' assume u: "u \<in> set ts" "?p u = In_down k st'"
    show "k \<in> LS \<and> u \<noteq> idle_thread s \<and> (u \<in> {?c} \<or> (u \<in> set (?ws k) \<or> active s u)
      \<and> (if u = ?c then \<not> eflags_if s else old_status s u = INTR_OFF))"
    proof (cases "u = ?c")
      case True
      then show ?thesis using u(2) l i by auto
    next
      case False
      then have "k \<in> LS \<and> u \<noteq> idle_thread s \<and> (u \<in> {} \<or> (u \<in> set (ws k) \<or> active s u)
        \<and> (if u = ?c then \<not> eflags_if s else old_status s u = INTR_OFF))"
        using d(4) u unfolding down_inv_def by simp
      then show ?thesis by auto
    qed
  qed
  moreover have "own_inv ?s ?p ts LS"
  proof -
    have o: "owns ?s ?p t k = owns s p t k" for t k
      using p(2) by (auto simp: owns_def)
    show ?thesis
      using d(5) p(2) unfolding own_inv_def own_at_def o list_op_kernel by (auto simp: fun_upd_def)
  qed
  moreover have "wake_inv ?s ?p ts ?ws LS {?c}"
    unfolding wake_inv_def list_op_kernel t
  proof (intro ballI impI)
    fix k assume k: "k \<in> LS" "?ws k \<noteq> [] \<and> sem_value s (lock_sema k) \<noteq> 0"
    then have kl: "k \<noteq> l" using z by auto
    then obtain t st where "t \<in> set ts" "p t = In_down k st" "active s t"
      using d(6) k unfolding wake_inv_def by auto
    moreover from this kl p(1) have "t \<noteq> ?c" by blast
    ultimately show "\<exists>t \<in> set ts - {?c}. \<exists>st. ?p t = In_down k st \<and> active s t" by auto
  qed
  ultimately show ?thesis using d(2) t(6) unfolding lock_inv_def by blast
qed

text \<open>One round of the loop of \<^verbatim>\<open>sema_down\<close>: the thread gets the lock or sleeps.\<close>

lemma sema_loop_sleeps:
  assumes inv: "lock_inv s p rs ts dir ws LS {}" and l: "l \<in> LS" and off: "\<not> eflags_if s"
    and p: "p (running_thread s) = Outside \<or> (\<exists>st. p (running_thread s) = In_down l st)"
    and i: "running_thread s \<noteq> idle_thread s" and z: "sem_value s (lock_sema l) = 0"
  shows "\<exists>s' rs'. sema_loop (lock_sema l) old ret s = Inr (False, s')
    \<and> lock_inv s' (p(running_thread s := In_down l old)) rs' ts dir (ws(l := ws l @ [running_thread s])) LS {}"
proof -
  let ?c = "running_thread s" and ?l = "waiters (lock_sema l)"
  let ?s = "list_append ?l (general_tag ?c) s"
  note d = lock_invD [OF inv] and t = same_threadsD [OF same_threads_list(1) [of s ?l "general_tag ?c"]]
  have q: "lock_inv ?s (p(?c := In_down l old)) rs ts dir (ws(l := ws l @ [?c])) LS {?c}"
    by (rule queued_lock_inv [OF inv l z]) (use p i in auto)
  have "?c \<notin> set (ws l)" using waiters_apart(3) [OF d(1,3) l, of ?c] by blast
  moreover have "dlist s ?l (map general_tag (ws l))" using d(3) l unfolding wait_inv_def by blast
  ultimately have f: "elem_find ?l (general_tag ?c) s = Inr False"
    using dlist_elem_find [of s ?l "map general_tag (ws l)"] by (auto simp: tag_inj)
  have b: "TASK_BLOCKED \<in> {TASK_BLOCKED, TASK_WAITING, TASK_HANGING}" by simp
  from block_effect [where ret = ret, OF lock_invD(1) [OF q] b] obtain s' rs' where
    s': "thread_block TASK_BLOCKED ret ?s = Inr s'" "run_inv s' rs' ts dir" "effect ?s rs {} s'"
    "statuses s' ?c = TASK_BLOCKED" "old_status s' ?c = intr_get_status ?s"
    unfolding t(1,4) using i by auto
  have "old_status s' ?c = INTR_OFF" using s'(5) off by (simp add: intr_get_status_def)
  then have "lock_inv s' (p(?c := In_down l old)) rs' ts dir (ws(l := ws l @ [?c])) LS {}"
    by (intro effect_lock_inv [OF q s'(2,3)]) (simp_all add: t(1) s'(4))
  moreover have "sema_loop (lock_sema l) old ret s = Inr (False, s')"
    using z f s'(1) by (simp add: sema_loop_def Let_def)
  ultimately show ?thesis by blast
qed

lemma sema_loop_gets:
  assumes inv: "lock_inv s p rs ts dir ws LS {}" and l: "l \<in> LS"
    and p: "p (running_thread s) = Outside \<or> (\<exists>st. p (running_thread s) = In_down l st)"
    and z: "sem_value s (lock_sema l) \<noteq> 0"
  shows "\<exists>s'. sema_loop (lock_sema l) old ret s = Inr (True, s')
    \<and> lock_inv s' (p(running_thread s := Acquired l)) rs ts dir ws LS {}"
proof -
  let ?c = "running_thread s"
  let ?s = "s\<lparr>sem_value := (sem_value s)(lock_sema l := 0), eflags_if := (old = INTR_ON)\<rparr>"
  note d = lock_invD [OF inv]
  have own: "own_at s p ts l" using d(5) l by (simp add: own_inv_def)
  then have one: "sem_value s (lock_sema l) = 1" "\<And>t. t \<in> set ts \<Longrightarrow> \<not> owns s p t l" "lock_holder s l = 0"
    using z unfolding own_at_def owns_def by (auto split: if_splits)
  have c: "?c \<in> set ts" by (rule run_invD [OF d(1)])
  have "own_at ?s (p(?c := Acquired l)) ts l"
  proof -
    have "owns ?s (p(?c := Acquired l)) t l \<longleftrightarrow> t = ?c" if "t \<in> set ts" for t
      using one(2) [OF that] by (auto simp: owns_def)
    then have "\<exists>!t. t \<in> set ts \<and> owns ?s (p(?c := Acquired l)) t l" using c by metis
    moreover have "lock_repeat s l = 0" using own one(3) by (simp add: own_at_def)
    ultimately show ?thesis using one(3) by (simp add: own_at_def)
  qed
  then have "own_inv ?s (p(?c := Acquired l)) ts LS" using p by (intro own_inv_local [OF d(5) l]) auto
  then have "lock_inv ?s (p(?c := Acquired l)) rs ts dir ws LS {}"
    by (intro local_lock_inv [OF inv]) (use p in \<open>auto simp: same_threads_def split: if_splits\<close>)
  moreover have "sema_loop (lock_sema l) old ret s = Inr (True, ?s)"
    using one(1) by (simp add: sema_loop_def Let_def intr_set_status_eq)
  ultimately show ?thesis by blast
qed

text \<open>The first waiter has been taken out of the list and is not awake yet.\<close>

lemma popped_lock_inv:
  assumes inv: "lock_inv s p rs ts dir ws LS {}" and l: "l \<in> LS" and z: "sem_value s (lock_sema l) = 0"
    and x: "ws l = x # xs"
  shows "lock_inv (snd (list_pop (waiters (lock_sema l)) s)) p rs ts dir (ws(l := xs)) LS {x}"
proof -
  let ?l = "waiters (lock_sema l)"
  let ?s = "snd (list_pop ?l s)" and ?ws = "ws(l := xs)"
  note d = lock_invD [OF inv] and t = same_threadsD [OF same_threads_list(2) [of s ?l]]
  have wa: "set (ws k) \<inter> set rs = {}" "set (ws k) \<subseteq> set ts" if "k \<in> LS" for k
    using waiters_apart [OF d(1,3) that] by blast+
  have w: "distinct (ws k)" "dlist s (waiters (lock_sema k)) (map general_tag (ws k))"
    "\<And>t. t \<in> set (ws k) \<Longrightarrow> statuses s t = TASK_BLOCKED \<and> (\<exists>st. p t = In_down k st)" if "k \<in> LS" for k
    using d(3) that unfolding wait_inv_def by blast+
  have dl: "dlist s ?l (general_tag x # map general_tag xs)" using w(2) [OF l] x by simp
  have kept: "lists_kept s ?s (set (cells ?l (map general_tag (ws l))))" using kept_pop [OF dl] x by simp
  have "run_inv ?s rs ts dir"
    by (rule same_threads_run [OF d(1) same_threads_list(2)
        wait_list_sched [OF d(1,2) l wa(2) [OF l] wa(1) [OF l] same_threads_list(2) kept]])
  moreover have "wait_inv ?s p ts ?ws LS {x}"
    unfolding wait_inv_def t
  proof (intro ballI conjI)
    fix k assume k: "k \<in> LS"
    show "dlist ?s (waiters (lock_sema k)) (map general_tag (?ws k))"
    proof (cases "k = l")
      case True
      then show ?thesis using dlist_pop [OF dl] by simp
    next
      case False
      have dj: "set (ws l) \<inter> set (ws k) = {}" using w(3) [OF l] w(3) [OF k] False by fastforce
      from lists_kept_dlist [OF kept wait_lists_apart [OF d(1,2) l k False [symmetric] wa(2) [OF l] wa(2) [OF k] dj]]
      show ?thesis using w(2) [OF k] False by simp
    qed
    show "distinct (?ws k)" "set (?ws k) \<subseteq> set ts" using w(1) [OF k] wa [OF k] x by auto
    fix t assume "t \<in> set (?ws k)"
    then have "t \<in> set (ws k)" using x by (auto split: if_splits)
    then show "t \<in> {x} \<or> statuses s t = TASK_BLOCKED" "\<exists>st. p t = In_down k st" using w(3) [OF k, of t] by auto
  qed
  moreover have "down_inv ?s p ts ?ws LS {x}"
    unfolding down_inv_def t list_op_kernel list_op_fields
  proof (intro ballI allI impI)
    fix u k st assume u: "u \<in> set ts" "p u = In_down k st"
    then have "k \<in> LS \<and> u \<noteq> idle_thread s \<and> (u \<in> {} \<or> (u \<in> set (ws k) \<or> active s u)
      \<and> (if u = running_thread s then \<not> eflags_if s else old_status s u = INTR_OFF))"
      using d(4) unfolding down_inv_def by blast
    moreover have "u \<noteq> x \<Longrightarrow> u \<in> set (ws k) \<Longrightarrow> u \<in> set (?ws k)" using x by auto
    ultimately show "k \<in> LS \<and> u \<noteq> idle_thread s \<and> (u \<in> {x} \<or> (u \<in> set (?ws k) \<or> active s u)
      \<and> (if u = running_thread s then \<not> eflags_if s else old_status s u = INTR_OFF))" by blast
  qed
  moreover have "own_inv ?s p ts LS" using d(5) own_inv_cong [of ?s s] by simp
  moreover have "wake_inv ?s p ts ?ws LS {x}"
    unfolding wake_inv_def list_op_kernel t
  proof (intro ballI impI)
    fix k assume k: "k \<in> LS" "?ws k \<noteq> [] \<and> sem_value s (lock_sema k) \<noteq> 0"
    then have kl: "k \<noteq> l" using z by auto
    then obtain t st where "t \<in> set ts" "p t = In_down k st" "active s t"
      using d(6) k unfolding wake_inv_def by auto
    moreover have "\<exists>st. p x = In_down l st" using w(3) [OF l] x by simp
    ultimately show "\<exists>t \<in> set ts - {x}. \<exists>st. p t = In_down k st \<and> active s t" using kl by auto
  qed
  ultimately show ?thesis using d(2) t(6) unfolding lock_inv_def by blast
qed

text \<open>The semaphore's value goes to 1 and the thread leaves \<^verbatim>\<open>lock_release\<close>.\<close>

lemma released_lock_inv:
  assumes inv: "lock_inv s p rs ts dir ws LS {}" and l: "l \<in> LS" and p: "p (running_thread s) = Releasing l"
    and w: "ws l = [] \<or> (\<exists>t \<in> set ts. t \<noteq> running_thread s \<and> (\<exists>st. p t = In_down l st) \<and> active s t)"
  shows "lock_inv (s\<lparr>sem_value := (sem_value s)(lock_sema l := 1), eflags_if := b\<rparr>)
    (p(running_thread s := Outside)) rs ts dir ws LS {}"
proof -
  let ?c = "running_thread s" and ?s = "s\<lparr>sem_value := (sem_value s)(lock_sema l := 1), eflags_if := b\<rparr>"
  note d = lock_invD [OF inv]
  have own: "own_at s p ts l" using d(5) l by (simp add: own_inv_def)
  have c: "?c \<in> set ts" "owns s p ?c l" using run_invD(2) [OF d(1)] p by (simp_all add: owns_def)
  with own have u: "t \<in> set ts \<Longrightarrow> owns s p t l \<Longrightarrow> t = ?c" for t unfolding own_at_def by blast
  have h: "lock_holder s l = 0"
  proof (rule ccontr)
    assume a: "lock_holder s l \<noteq> 0"
    then have "lock_holder s l \<in> set ts" "p (lock_holder s l) \<noteq> Releasing l" using own by (simp_all add: own_at_def)
    moreover from this u [of "lock_holder s l"] have "lock_holder s l = ?c" by (simp add: owns_def)
    ultimately show False using p by simp
  qed
  have nz: "t \<noteq> 0" if "t \<in> set ts" for t
    using run_invD(1) [OF d(1)] that by (auto simp: sched_inv_def sched_lists_def)
  have "\<not> owns ?s (p(?c := Outside)) t l" if "t \<in> set ts" for t
    using u [OF that] nz [OF that] h by (auto simp: owns_def)
  then have "own_at ?s (p(?c := Outside)) ts l" using own h by (simp add: own_at_def)
  then have "own_inv ?s (p(?c := Outside)) ts LS" using p by (intro own_inv_local [OF d(5) l]) auto
  then show ?thesis
    by (intro local_lock_inv [OF inv]) (use p w in \<open>auto simp: same_threads_def split: if_splits\<close>)
qed

lemma eflags_lock_inv:
  assumes inv: "lock_inv s p rs ts dir ws LS {}" and p: "\<And>l st. p (running_thread s) \<noteq> In_down l st"
  shows "lock_inv (s\<lparr>eflags_if := b\<rparr>) p rs ts dir ws LS {}"
proof -
  let ?s = "s\<lparr>eflags_if := b\<rparr>"
  have "own_inv ?s p ts LS" using lock_invD(5) [OF inv] own_inv_cong [of ?s s] by simp
  then have "lock_inv ?s (p(running_thread s := p (running_thread s))) rs ts dir ws LS {}"
    by (intro local_lock_inv [OF inv]) (use p in \<open>simp_all add: same_threads_def\<close>)
  then show ?thesis by simp
qed

lemma sema_up_run:
  assumes inv: "lock_inv s p rs ts dir ws LS {}" and l: "l \<in> LS" and p: "p (running_thread s) = Releasing l"
  shows "\<exists>s' rs' ws'. sema_up (lock_sema l) s = Inr s'
    \<and> lock_inv s' (p(running_thread s := Outside)) rs' ts dir ws' LS {}"
proof -
  let ?c = "running_thread s" and ?l = "waiters (lock_sema l)" and ?s = "s\<lparr>eflags_if := False\<rparr>"
  have inv0: "lock_inv ?s p rs ts dir ws LS {}" by (rule eflags_lock_inv [OF inv]) (simp add: p)
  note d = lock_invD [OF inv0]
  have own: "own_at s p ts l" "?c \<in> set ts" "owns s p ?c l"
    using lock_invD(1,5) [OF inv] l p run_invD(2) by (auto simp: own_inv_def owns_def)
  then have z: "sem_value s (lock_sema l) = 0" unfolding own_at_def by auto
  have dl: "dlist ?s ?l (map general_tag (ws l))" using d(3) l unfolding wait_inv_def by blast
  show ?thesis
  proof (cases "ws l")
    case Nil
    let ?e = "?s\<lparr>sem_value := (sem_value ?s)(lock_sema l := 1), eflags_if := (intr_get_status s = INTR_ON)\<rparr>"
    have "sema_up (lock_sema l) s = Inr ?e"
      using z dlist_empty [OF dl] Nil by (simp add: sema_up_def intr_eqs Let_def)
    moreover have "lock_inv ?e (p(?c := Outside)) rs ts dir ws LS {}"
      using released_lock_inv [where b = "intr_get_status s = INTR_ON", OF inv0 l] p Nil by simp
    ultimately show ?thesis by blast
  next
    case (Cons x xs)
    let ?p = "snd (list_pop ?l ?s)"
    have x: "statuses s x = TASK_BLOCKED" "\<exists>st. p x = In_down l st" "x \<in> set ts" "distinct (x # xs)"
      using d(3) l Cons unfolding wait_inv_def by (auto simp: statuses_def)
    have inv1: "lock_inv ?p p rs ts dir (ws(l := xs)) LS {x}"
      by (rule popped_lock_inv [where ws = ws, OF inv0 l _ Cons]) (simp add: z)
    note t = same_threadsD [OF same_threads_list(2) [of ?s ?l]]
    have st: "statuses ?p x \<in> {TASK_BLOCKED, TASK_WAITING, TASK_HANGING}"
      unfolding t using x(1) by (simp add: statuses_def)
    have xc: "x \<noteq> ?c" using x(2) p by auto
    have n: "x \<notin> set ((ws(l := xs)) k)" if "k \<in> LS" for k
    proof (cases "k = l")
      case False
      then show ?thesis using d(3) that x(2) unfolding wait_inv_def by fastforce
    qed (use x(4) in simp)
    have o: "old_status ?p x = INTR_OFF"
      using d(4) x(2,3) xc unfolding down_inv_def by (fastforce split: if_splits)
    have "\<exists>s'. thread_unblock x ?p = Inr s' \<and> lock_inv s' p (x # rs) ts dir (ws(l := xs)) LS {}
      \<and> running_thread s' = running_thread ?p \<and> active s' x \<and> rest_kept ?p s' \<and> eflags_if s' = eflags_if ?p"
      by (rule unblock_lock_inv [OF inv1 subset_refl x(3) st]) (use n o in blast)+
    then obtain s2 where
      s2: "thread_unblock x ?p = Inr s2" "lock_inv s2 p (x # rs) ts dir (ws(l := xs)) LS {}"
      "running_thread s2 = running_thread ?s" "active s2 x" "rest_kept ?p s2"
      unfolding t(1) by blast
    let ?e = "s2\<lparr>sem_value := (sem_value s2)(lock_sema l := 1), eflags_if := (intr_get_status s = INTR_ON)\<rparr>"
    have e: "lock_inv ?e (p(running_thread s2 := Outside)) (x # rs) ts dir (ws(l := xs)) LS {}"
      by (rule released_lock_inv [OF s2(2) l]) (use s2(3,4) p x xc in auto)
    have "sem_value s2 (lock_sema l) = 0" using rest_keptD(5) [OF s2(5)] z by simp
    moreover have "page (fst (list_pop ?l ?s)) = x"
    proof -
      have "fst (list_pop ?l ?s) = general_tag x" using dlist_pop [of ?s ?l "general_tag x"] dl Cons by simp
      moreover have "sched_lists ?s rs ts" using run_invD(1) [OF d(1)] by (simp add: sched_inv_def)
      ultimately show ?thesis using sched_lists_tags(4) x(3) by metis
    qed
    moreover obtain tag k where "list_pop ?l ?s = (tag, k)" by fastforce
    ultimately have "sema_up (lock_sema l) s = Inr ?e"
      using z dlist_empty [OF dl] Cons s2(1) by (simp add: sema_up_def intr_eqs Let_def)
    with e show ?thesis using s2(3) by (intro exI [of _ ?e]) auto
  qed
qed

section \<open>The holder\<close>

lemma lock_fields_inv:
  assumes inv: "lock_inv s p rs ts dir ws LS {}" and l: "l \<in> LS" and v: "\<And>k. k \<noteq> l \<Longrightarrow> v \<noteq> Acquired k \<and> v \<noteq> Releasing k"
    and p: "\<And>k. k \<noteq> l \<Longrightarrow> p (running_thread s) \<noteq> Acquired k \<and> p (running_thread s) \<noteq> Releasing k"
      "\<And>k st. p (running_thread s) \<noteq> In_down k st" "\<And>k st. v \<noteq> In_down k st"
    and at: "own_at (s\<lparr>lock_holder := (lock_holder s)(l := h), lock_repeat := (lock_repeat s)(l := n)\<rparr>)
      (p(running_thread s := v)) ts l"
  shows "lock_inv (s\<lparr>lock_holder := (lock_holder s)(l := h), lock_repeat := (lock_repeat s)(l := n)\<rparr>)
    (p(running_thread s := v)) rs ts dir ws LS {}"
proof -
  let ?s = "s\<lparr>lock_holder := (lock_holder s)(l := h), lock_repeat := (lock_repeat s)(l := n)\<rparr>"
  have "own_inv ?s (p(running_thread s := v)) ts LS"
    using v p at by (intro own_inv_local [OF lock_invD(5) [OF inv] l]) auto
  then show ?thesis
    by (intro local_lock_inv [OF inv]) (use p in \<open>auto simp: same_threads_def\<close>)
qed

text \<open>Who may own a lock, seen from the running thread.\<close>

lemma own_facts:
  assumes inv: "lock_inv s p rs ts dir ws LS {}" and l: "l \<in> LS"
  shows "own_at s p ts l" "running_thread s \<in> set ts" "running_thread s \<noteq> 0"
    and "owns s p (running_thread s) l \<Longrightarrow> sem_value s (lock_sema l) = 0"
    and "owns s p (running_thread s) l \<Longrightarrow> t \<in> set ts \<Longrightarrow> owns s p t l \<Longrightarrow> t = running_thread s"
proof -
  note d = lock_invD [OF inv]
  show o: "own_at s p ts l" using d(5) l by (simp add: own_inv_def)
  show c: "running_thread s \<in> set ts" by (rule run_invD [OF d(1)])
  then show "running_thread s \<noteq> 0"
    using run_invD(1) [OF d(1)] by (auto simp: sched_inv_def sched_lists_def)
  show "sem_value s (lock_sema l) = 0" if "owns s p (running_thread s) l"
    using o c that unfolding own_at_def by blast
  show "t = running_thread s" if "owns s p (running_thread s) l" "t \<in> set ts" "owns s p t l"
    using o c that unfolding own_at_def by blast
qed

lemma lock_taken_run:
  assumes inv: "lock_inv s p rs ts dir ws LS {}" and l: "l \<in> LS" and p: "p (running_thread s) = Acquired l"
  shows "\<exists>s'. lock_taken l s = Inr s' \<and> lock_inv s' (p(running_thread s := Outside)) rs ts dir ws LS {}"
proof -
  let ?c = "running_thread s" and ?p = "p(running_thread s := Outside)"
  let ?s = "s\<lparr>lock_holder := (lock_holder s)(l := ?c), lock_repeat := (lock_repeat s)(l := 1)\<rparr>"
  have o: "owns s p ?c l" using p by (simp add: owns_def)
  note f = own_facts [OF inv l]
  have h: "lock_holder s l = 0"
  proof (rule ccontr)
    assume "lock_holder s l \<noteq> 0"
    then have "lock_holder s l \<in> set ts" "p (lock_holder s l) \<noteq> Acquired l" using f(1) by (simp_all add: own_at_def)
    then show False using f(5) [OF o, of "lock_holder s l"] p by (auto simp: owns_def)
  qed
  then have r: "lock_repeat s l = 0" using f(1) by (simp add: own_at_def)
  have "owns ?s ?p t l \<longleftrightarrow> t = ?c" if "t \<in> set ts" for t
  proof (cases "t = ?c")
    case False
    then have "\<not> owns s p t l" using f(5) [OF o that] by blast
    then show ?thesis using False by (simp add: owns_def)
  qed (simp add: owns_def)
  then have "\<exists>!t. t \<in> set ts \<and> owns ?s ?p t l" using f(2) by metis
  then have "own_at ?s ?p ts l" using f(2,3) f(4) [OF o] by (simp add: own_at_def)
  then have "lock_inv ?s ?p rs ts dir ws LS {}" by (intro lock_fields_inv [OF inv l]) (use p in auto)
  moreover have "lock_taken l s = Inr ?s" using r by (simp add: lock_taken_def Let_def)
  ultimately show ?thesis by blast
qed

lemma lock_again_run:
  assumes inv: "lock_inv s p rs ts dir ws LS {}" and l: "l \<in> LS" and p: "p (running_thread s) = Outside"
    and h: "lock_holder s l = running_thread s" and r: "lock_repeat s l \<noteq> - 1"
  shows "lock_inv (lock_again l s) (p(running_thread s := Outside)) rs ts dir ws LS {}"
proof -
  let ?c = "running_thread s" and ?p = "p(running_thread s := Outside)"
  let ?s = "s\<lparr>lock_holder := (lock_holder s)(l := ?c), lock_repeat := (lock_repeat s)(l := lock_repeat s l + 1)\<rparr>"
  have e: "?p = p" using p by (simp add: fun_upd_idem)
  have "lock_repeat s l + 1 \<noteq> 0" using r by (metis add.commute add_eq_0_iff)
  moreover have "owns ?s p t l = owns s p t l" for t using h by (auto simp: owns_def)
  ultimately have "own_at ?s ?p ts l" using own_facts(1-3) [OF inv l] h unfolding own_at_def e by simp
  then have "lock_inv ?s ?p rs ts dir ws LS {}" by (intro lock_fields_inv [OF inv l]) (use p in auto)
  moreover have "?s = lock_again l s" using h by (simp add: lock_again_def fun_upd_idem)
  ultimately show ?thesis by simp
qed

lemma lock_drop_run:
  assumes inv: "lock_inv s p rs ts dir ws LS {}" and l: "l \<in> LS" and p: "p (running_thread s) = Outside"
    and h: "lock_holder s l = running_thread s"
  shows "\<exists>up s'. lock_drop l s = Inr (up, s')
    \<and> lock_inv s' (p(running_thread s := (if up then Releasing l else Outside))) rs ts dir ws LS {}"
proof -
  let ?c = "running_thread s"
  have o: "owns s p ?c l" using h by (simp add: owns_def)
  note f = own_facts [OF inv l]
  have r: "lock_repeat s l \<noteq> 0" using f(1,3) h by (simp add: own_at_def)
  show ?thesis
  proof (cases "1 < lock_repeat s l")
    case True
    let ?p = "p(?c := Outside)"
    let ?s = "s\<lparr>lock_holder := (lock_holder s)(l := ?c), lock_repeat := (lock_repeat s)(l := lock_repeat s l - 1)\<rparr>"
    have e: "?p = p" using p by (simp add: fun_upd_idem)
    have "lock_repeat s l - 1 \<noteq> 0" using True by auto
    moreover have "owns ?s p t l = owns s p t l" for t using h by (auto simp: owns_def)
    ultimately have "own_at ?s ?p ts l" using f(1-3) h unfolding own_at_def e by simp
    then have "lock_inv ?s ?p rs ts dir ws LS {}" by (intro lock_fields_inv [OF inv l]) (use p in auto)
    moreover have "lock_drop l s = Inr (False, ?s)" using h True by (simp add: lock_drop_def fun_upd_idem)
    ultimately show ?thesis by auto
  next
    case False
    let ?p = "p(?c := Releasing l)"
    let ?s = "s\<lparr>lock_holder := (lock_holder s)(l := 0), lock_repeat := (lock_repeat s)(l := 0)\<rparr>"
    have r1: "lock_repeat s l = 1" using False r by (simp add: word_not_simps(1) not_less word_less_1 le_less)
    have "owns ?s ?p t l \<longleftrightarrow> t = ?c" if t: "t \<in> set ts" for t
    proof (cases "t = ?c")
      case False
      then have "\<not> owns s p t l" using f(5) [OF o t] by blast
      moreover have "t \<noteq> 0" using run_invD(1) [OF lock_invD(1) [OF inv]] t by (auto simp: sched_inv_def sched_lists_def)
      ultimately show ?thesis using False by (simp add: owns_def)
    qed (simp add: owns_def)
    then have "\<exists>!t. t \<in> set ts \<and> owns ?s ?p t l" using f(2) by metis
    then have "own_at ?s ?p ts l" using f(4) [OF o] by (simp add: own_at_def)
    then have "lock_inv ?s ?p rs ts dir ws LS {}" by (intro lock_fields_inv [OF inv l]) (use p in auto)
    moreover have "lock_drop l s = Inr (True, ?s)" using h r1 by (simp add: lock_drop_def Let_def)
    ultimately show ?thesis by auto
  qed
qed

section \<open>The steps\<close>

definition sys_inv :: "u32 set \<Rightarrow> u32 list \<Rightarrow> (u32 \<Rightarrow> u32) \<Rightarrow> sys \<Rightarrow> bool" where
  "sys_inv LS ts dir y \<longleftrightarrow> (\<exists>rs ws. lock_inv (kern y) (pcs y) rs ts dir ws LS {})"

lemma sys_inv_at: "lock_inv s ((pcs y)(me y := v)) rs ts dir ws LS {} \<Longrightarrow> sys_inv LS ts dir (at y s v)"
  by (auto simp: sys_inv_def at_def)

lemma sema_loop_run:
  assumes inv: "lock_inv s p rs ts dir ws LS {}" and l: "l \<in> LS" and off: "\<not> eflags_if s"
    and p: "p (running_thread s) = Outside \<or> (\<exists>st. p (running_thread s) = In_down l st)"
    and i: "running_thread s \<noteq> idle_thread s"
  shows "\<exists>got s' rs' ws'. sema_loop (lock_sema l) old ret s = Inr (got, s')
    \<and> (got \<longrightarrow> running_thread s' = running_thread s)
    \<and> lock_inv s' (p(running_thread s := (if got then Acquired l else In_down l old))) rs' ts dir ws' LS {}"
proof (cases "sem_value s (lock_sema l) = 0")
  case True
  from sema_loop_sleeps [OF inv l off p i True, of old ret] show ?thesis by fastforce
next
  case False
  from sema_loop_gets [OF inv l p False, of old ret] obtain s' where
    s': "sema_loop (lock_sema l) old ret s = Inr (True, s')"
    "lock_inv s' (p(running_thread s := Acquired l)) rs ts dir ws LS {}" by blast
  have "running_thread s' = running_thread s"
    using s'(1) False by (auto simp: sema_loop_def Let_def intr_set_status_eq rbind_Inr_iff)
  with s' show ?thesis by (intro exI [of _ True] exI [of _ s']) auto
qed

lemma sema_down_run:
  assumes inv: "lock_inv s p rs ts dir ws LS {}" and l: "l \<in> LS"
    and p: "p (running_thread s) = Outside" and i: "running_thread s \<noteq> idle_thread s"
  shows "\<exists>got s' rs' ws'. sema_down (lock_sema l) ret s = Inr (got, intr_get_status s, s')
    \<and> (got \<longrightarrow> running_thread s' = running_thread s)
    \<and> lock_inv s' (p(running_thread s := (if got then Acquired l else In_down l (intr_get_status s)))) rs' ts dir ws' LS {}"
proof -
  let ?s = "s\<lparr>eflags_if := False\<rparr>"
  have "lock_inv ?s p rs ts dir ws LS {}" by (rule eflags_lock_inv [OF inv]) (simp add: p)
  from sema_loop_run [OF this l, of "intr_get_status s" ret] p i obtain got s' rs' ws' where
    "sema_loop (lock_sema l) (intr_get_status s) ret ?s = Inr (got, s')"
    "got \<longrightarrow> running_thread s' = running_thread s"
    "lock_inv s' (p(running_thread s := (if got then Acquired l else In_down l (intr_get_status s)))) rs' ts dir ws' LS {}"
    by auto
  then show ?thesis
    by (intro exI [of _ got] exI [of _ s'] exI [of _ rs'] exI [of _ ws'])
      (simp add: sema_down_def intr_disable_eq split del: if_split)
qed

lemma sched_step_inv:
  assumes inv: "lock_inv s p rs ts dir ws LS {}" and p: "\<And>l st. p (running_thread s) \<noteq> In_down l st"
    and ef: "run_inv s' rs' ts dir" "effect s rs C s'" "C \<subseteq> {general_tag (running_thread s)}"
  shows "lock_inv s' (p(running_thread s := p (running_thread s))) rs' ts dir ws LS {}"
proof -
  have "lock_inv s' p rs' ts dir ws LS {}"
    by (rule effect_lock_inv [OF inv ef(1,2)]) (use ef(3) p in simp_all)
  then show ?thesis by simp
qed

lemma lstep_inv:
  assumes st: "lstep LS ts y y'" and inv: "sys_inv LS ts dir y"
  shows "sys_inv LS ts dir y'"
proof -
  from inv obtain rs ws where i: "lock_inv (kern y) (pcs y) rs ts dir ws LS {}" by (auto simp: sys_inv_def)
  note d = lock_invD [OF i]
  have c: "me y \<in> set ts" by (rule run_invD [OF d(1)])
  have dn: "l \<in> LS \<and> me y \<noteq> idle_thread (kern y) \<and> \<not> eflags_if (kern y)" if "pcs y (me y) = In_down l st" for l st
    using d(4) c that unfolding down_inv_def by (auto split: if_splits)
  have ow: "l \<in> LS" if "pcs y (me y) = Acquired l \<or> pcs y (me y) = Releasing l" for l
    using d(5) c that unfolding own_inv_def by blast
  from st show ?thesis
  proof cases
    case (other e b ip r)
    let ?s = "(kern y)\<lparr>esp := e, regs := r, eip := ip, eflags_if := b\<rparr>"
    have rt: "running_thread ?s = me y" unfolding running_thread_def [of ?s] using other(3) by simp
    have f: "statuses ?s = statuses (kern y)" "active ?s = active (kern y)" "idle_thread ?s = idle_thread (kern y)"
      by (auto simp: statuses_def active_def)
    have "run_inv ?s rs ts dir" by (rule compute_inv [OF d(1) other(3,4)])
    moreover have "wait_inv ?s (pcs y) ts ws LS {}" using d(3) unfolding wait_inv_def f by (simp add: dlist_def)
    moreover have "down_inv ?s (pcs y) ts ws LS {}" unfolding down_inv_def f rt
    proof (intro ballI allI impI)
      fix t l st assume a: "t \<in> set ts" "pcs y t = In_down l st"
      then have "t \<noteq> me y" using other(2) by auto
      with d(4) a show "l \<in> LS \<and> t \<noteq> idle_thread (kern y) \<and> (t \<in> {} \<or> (t \<in> set (ws l) \<or> active (kern y) t)
        \<and> (if t = me y then \<not> eflags_if ?s else old_status ?s t = INTR_OFF))"
        unfolding down_inv_def by auto
    qed
    moreover have "own_inv ?s (pcs y) ts LS" using d(5) own_inv_cong [of ?s "kern y"] by simp
    moreover have "wake_inv ?s (pcs y) ts ws LS {}" using d(6) unfolding wake_inv_def f by simp
    moreover have "locks_apart ?s LS ts" using d(2) locks_apart_cong [of ?s "kern y"] by simp
    ultimately have "lock_inv ?s ((pcs y)(me y := pcs y (me y))) rs ts dir ws LS {}" by (simp add: lock_inv_def)
    then show ?thesis unfolding other(1) by (rule sys_inv_at)
  next
    case (yield ret s)
    from yield_effect [OF d(1), of ret] yield(3) obtain rs' where
      "run_inv s rs' ts dir" "effect (kern y) rs {general_tag (me y)} s" by auto
    from sched_step_inv [OF i _ this] yield(2) show ?thesis unfolding yield(1) by (intro sys_inv_at) auto
  next
    case (tick ret s)
    from tick_effect [OF d(1), of ret] tick(3) obtain rs' where
      "run_inv s rs' ts dir" "effect (kern y) rs {general_tag (me y)} s" by auto
    from sched_step_inv [OF i _ this] dn tick(2) show ?thesis unfolding tick(1) by (intro sys_inv_at) auto
  next
    case (block stat ret s)
    from block_effect [OF d(1) block(3), of ret] block(4,5) obtain rs' where
      "run_inv s rs' ts dir" "effect (kern y) rs {} s" by auto
    from sched_step_inv [OF i _ this] block(2) show ?thesis unfolding block(1) by (intro sys_inv_at) auto
  next
    case (unblock t s)
    have "t \<notin> set (ws l)" if "l \<in> LS" for l using d(3) that unblock(4) unfolding wait_inv_def by fastforce
    with unblock_lock_inv [OF i _ unblock(3,5)] unblock(4,6) obtain rs' where
      "lock_inv s (pcs y) rs' ts dir ws LS {}" by auto
    then show ?thesis using unblock(2) unfolding unblock(1) by (intro sys_inv_at) (simp add: fun_upd_idem)
  next
    case (acquire l ret got st s)
    from sema_down_run [OF i acquire(3,2,4), of ret] acquire(6) show ?thesis
      unfolding acquire(1) by (auto intro: sys_inv_at)
  next
    case (loop l st ret got s)
    note n = dn [OF loop(2)]
    from sema_loop_run [OF i, of l st ret] n loop(2,3) show ?thesis unfolding loop(1) by (auto intro: sys_inv_at)
  next
    case (taken l s)
    from lock_taken_run [OF i ow] taken(2,3) show ?thesis unfolding taken(1) by (auto intro: sys_inv_at)
  next
    case (again l)
    from lock_again_run [OF i again(3,2,4,5)] show ?thesis unfolding again(1) by (rule sys_inv_at)
  next
    case (drop l up s)
    from lock_drop_run [OF i drop(3,2,4)] drop(5) show ?thesis unfolding drop(1) by (auto intro: sys_inv_at)
  next
    case (up l s)
    from sema_up_run [OF i ow] up(2,3) show ?thesis unfolding up(1) by (auto intro: sys_inv_at)
  qed
qed

inductive lreach :: "u32 set \<Rightarrow> u32 list \<Rightarrow> sys \<Rightarrow> sys \<Rightarrow> bool" for LS ts y0 where
  start: "lreach LS ts y0 y0"
| step: "lreach LS ts y0 y \<Longrightarrow> lstep LS ts y y' \<Longrightarrow> lreach LS ts y0 y'"

lemma lreach_inv:
  assumes "lreach LS ts y0 y" and "sys_inv LS ts dir y0"
  shows "sys_inv LS ts dir y"
  using assms by (induction rule: lreach.induct) (use lstep_inv in blast)+

section \<open>A lock that has just been initialised\<close>

lemma lock_init_inv:
  assumes run: "run_inv s rs ts dir" and ap: "locks_apart s {l} ts"
    and p: "\<And>t. t \<in> set ts \<Longrightarrow> p t = Outside \<or>
      t = running_thread s \<and> (\<exists>st. p t = In_down l st) \<and> \<not> eflags_if s \<and> t \<noteq> idle_thread s"
  shows "sys_inv {l} ts dir \<lparr>kern = lock_init l s, pcs = p\<rparr>"
proof -
  let ?s = "lock_init l s" and ?l = "waiters (lock_sema l)"
  have st: "same_threads s ?s" by (simp add: same_threads_def lock_init_def sema_init_def list_init_def)
  note t = same_threadsD [OF st] and r = run_invD [OF run]
  have f: "eflags_if ?s = eflags_if s" by (simp add: lock_init_def sema_init_def list_init_def)
  have k: "lists_kept s ?s (set (cells ?l (map general_tag [])))"
    by (simp add: lists_kept_def cells_def lock_init_def sema_init_def list_init_def)
  have "sched_lists ?s rs ts" by (rule wait_list_sched [OF run ap _ _ _ st k]) simp_all
  then have "run_inv ?s rs ts dir" by (rule same_threads_run [OF run st])
  moreover have "wait_inv ?s p ts (\<lambda>_. []) {l} {}"
    by (simp add: wait_inv_def lock_init_def sema_init_def dlist_init)
  moreover have "down_inv ?s p ts (\<lambda>_. []) {l} {}"
    unfolding down_inv_def t f using p r(4) by (fastforce simp: active_def)
  moreover have "own_inv ?s p ts {l}"
  proof -
    have "t \<noteq> 0" if "t \<in> set ts" for t using r(1) that by (auto simp: sched_inv_def sched_lists_def)
    moreover have "lock_holder ?s l = 0" "lock_repeat ?s l = 0" "sem_value ?s (lock_sema l) = 1"
      by (simp_all add: lock_init_def sema_init_def list_init_def)
    ultimately show ?thesis using p by (fastforce simp: own_inv_def own_at_def owns_def)
  qed
  moreover have "wake_inv ?s p ts (\<lambda>_. []) {l} {}" by (simp add: wake_inv_def)
  ultimately show ?thesis using ap t(6) by (auto simp: sys_inv_def lock_inv_def)
qed

definition boot_lock :: u32 where "boot_lock = 0xc0010100"

definition boot_sys :: "pc \<Rightarrow> sys" where
  "boot_sys v = \<lparr>kern = lock_init boot_lock (boot_kernel\<lparr>eflags_if := False\<rparr>),
     pcs = (\<lambda>t. if t = 0xc009e000 then v else Outside)\<rparr>"

lemma boot_sys_me: "me (boot_sys v) = 0xc009e000" "idle_thread (kern (boot_sys v)) = 0xc0101000"
  by (simp_all add: boot_sys_def lock_init_def sema_init_def list_init_def running_thread_def boot_kernel_fields page_def)

lemma boot_sys_inv:
  assumes "v = Outside \<or> v = In_down boot_lock INTR_ON"
  shows "sys_inv {boot_lock} [0xc009e000, 0xc0101000] (\<lambda>_. 0) (boot_sys v)"
  unfolding boot_sys_def
proof (rule lock_init_inv)
  let ?s = "boot_kernel\<lparr>eflags_if := False\<rparr>"
  show "run_inv ?s [0xc0101000] [0xc009e000, 0xc0101000] (\<lambda>_. 0)"
    using boot_run_inv by (simp add: run_inv_def statuses_def)
  show "locks_apart ?s {boot_lock} [0xc009e000, 0xc0101000]"
    by (simp add: locks_apart_def wait_heads_def list_heads_def boot_kernel_fields boot_lock_def page_def)
  have "running_thread ?s = 0xc009e000" "idle_thread ?s = 0xc0101000"
    by (simp_all add: running_thread_def boot_kernel_fields page_def)
  then show "(if t = 0xc009e000 then v else Outside) = Outside \<or>
      t = running_thread ?s \<and> (\<exists>st. (if t = 0xc009e000 then v else Outside) = In_down boot_lock st)
      \<and> \<not> eflags_if ?s \<and> t \<noteq> idle_thread ?s" for t
    using assms by auto
qed

lemma boot_sys_acquires:
  "\<exists>s. lreach {boot_lock} [0xc009e000, 0xc0101000] (boot_sys Outside) (at (boot_sys Outside) s (Acquired boot_lock))"
proof -
  let ?y = "boot_sys Outside"
  obtain rs ws where i: "lock_inv (kern ?y) (pcs ?y) rs [0xc009e000, 0xc0101000] (\<lambda>_. 0) ws {boot_lock} {}"
    using boot_sys_inv [of Outside] by (auto simp: sys_inv_def)
  have v: "sem_value (kern ?y) (lock_sema boot_lock) \<noteq> 0" "lock_holder (kern ?y) boot_lock = 0"
    by (simp_all add: boot_sys_def lock_init_def sema_init_def list_init_def)
  have p: "pcs ?y (me ?y) = Outside" by (simp add: boot_sys_def)
  have "lock_inv ((kern ?y)\<lparr>eflags_if := False\<rparr>) (pcs ?y) rs [0xc009e000, 0xc0101000] (\<lambda>_. 0) ws {boot_lock} {}"
    by (rule eflags_lock_inv [OF i]) (simp add: p)
  from sema_loop_gets [OF this, of boot_lock "intr_get_status (kern ?y)" 0] p v obtain s where
    "sema_loop (lock_sema boot_lock) (intr_get_status (kern ?y)) 0 ((kern ?y)\<lparr>eflags_if := False\<rparr>) = Inr (True, s)"
    by auto
  then have "sema_down (lock_sema boot_lock) 0 (kern ?y) = Inr (True, intr_get_status (kern ?y), s)"
    by (simp add: sema_down_def intr_disable_eq)
  from lstep.acquire [OF p, of boot_lock "{boot_lock}" 0 True _ s] this v
  have "lstep {boot_lock} [0xc009e000, 0xc0101000] ?y (at ?y s (Acquired boot_lock))"
    by (simp add: boot_sys_me)
  then show ?thesis using lreach.step [OF lreach.start] by blast
qed

section \<open>What the locks promise\<close>

text \<open>
  C1. Mutual exclusion: whatever the threads do and wherever interrupts fall, two threads never own
  a lock at the same time, where a thread owns it from the moment \<^verbatim>\<open>sema_down\<close> has given it the
  semaphore until \<^verbatim>\<open>sema_up\<close> has given it back; and while it is owned the semaphore's value is 0.
\<close>

theorem lock_mutual_exclusion:
  assumes "sys_inv LS ts dir y0" and "lreach LS ts y0 y" and "l \<in> LS"
    and "t \<in> set ts" and "owns (kern y) (pcs y) t l"
  shows "sem_value (kern y) (lock_sema l) = 0 \<and> (\<forall>u \<in> set ts. owns (kern y) (pcs y) u l \<longrightarrow> u = t)"
proof -
  from lreach_inv [OF assms(2,1)] obtain rs ws where "lock_inv (kern y) (pcs y) rs ts dir ws LS {}"
    by (auto simp: sys_inv_def)
  from own_facts(1) [OF this assms(3)] assms(4,5) show ?thesis unfolding own_at_def by blast
qed

lemma lock_mutual_exclusion_witness:
  "\<exists>y. lreach {boot_lock} [0xc009e000, 0xc0101000] (boot_sys Outside) y
    \<and> owns (kern y) (pcs y) 0xc009e000 boot_lock \<and> sem_value (kern y) (lock_sema boot_lock) = 0
    \<and> \<not> owns (kern y) (pcs y) 0xc0101000 boot_lock"
proof -
  obtain s where r: "lreach {boot_lock} [0xc009e000, 0xc0101000] (boot_sys Outside)
      (at (boot_sys Outside) s (Acquired boot_lock))" using boot_sys_acquires by blast
  let ?y = "at (boot_sys Outside) s (Acquired boot_lock)"
  have o: "owns (kern ?y) (pcs ?y) 0xc009e000 boot_lock" by (simp add: at_def owns_def boot_sys_me)
  have "sys_inv {boot_lock} [0xc009e000, 0xc0101000] (\<lambda>_. 0) (boot_sys Outside)" by (rule boot_sys_inv) simp
  from lock_mutual_exclusion [OF this r _ _ o] have
    "sem_value (kern ?y) (lock_sema boot_lock) = 0" "\<not> owns (kern ?y) (pcs ?y) 0xc0101000 boot_lock" by auto
  with r o show ?thesis by blast
qed

text \<open>
  C14. No wake-up is lost: while some thread is in the loop of \<^verbatim>\<open>sema_down\<close>, a thread owns the lock, and
  will wake a waiter when it releases it, or a thread of that loop is ready or running and takes it.
\<close>

theorem lock_no_lost_wakeup:
  assumes "sys_inv LS ts dir y0" and "lreach LS ts y0 y" and "t \<in> set ts" and "pcs y t = In_down l st"
  shows "(\<exists>u \<in> set ts. owns (kern y) (pcs y) u l)
    \<or> (\<exists>u \<in> set ts. (\<exists>st. pcs y u = In_down l st) \<and> status (tasks (kern y) u) \<in> {TASK_READY, TASK_RUNNING})"
proof -
  from lreach_inv [OF assms(2,1)] obtain rs ws where i: "lock_inv (kern y) (pcs y) rs ts dir ws LS {}"
    by (auto simp: sys_inv_def)
  note d = lock_invD [OF i]
  have l: "l \<in> LS" "t \<in> set (ws l) \<or> active (kern y) t"
    using d(4) assms(3,4) unfolding down_inv_def by blast+
  show ?thesis
  proof (cases "\<exists>u \<in> set ts. owns (kern y) (pcs y) u l")
    case False
    then have "sem_value (kern y) (lock_sema l) \<noteq> 0" using own_facts(1) [OF i l(1)] unfolding own_at_def by auto
    then have "ws l \<noteq> [] \<Longrightarrow> \<exists>u \<in> set ts. (\<exists>st. pcs y u = In_down l st) \<and> active (kern y) u"
      using d(6) l(1) unfolding wake_inv_def by blast
    moreover have "ws l = [] \<Longrightarrow> active (kern y) t" using l(2) by auto
    ultimately show ?thesis using assms(3,4) unfolding active_def statuses_def by metis
  qed simp
qed

lemma lock_no_lost_wakeup_witness:
  "(\<exists>u \<in> {0xc009e000, 0xc0101000}. owns (kern (boot_sys (In_down boot_lock INTR_ON)))
      (pcs (boot_sys (In_down boot_lock INTR_ON))) u boot_lock)
    \<or> (\<exists>u \<in> {0xc009e000, 0xc0101000}. (\<exists>st. pcs (boot_sys (In_down boot_lock INTR_ON)) u = In_down boot_lock st)
      \<and> status (tasks (kern (boot_sys (In_down boot_lock INTR_ON))) u) \<in> {TASK_READY, TASK_RUNNING})"
proof -
  have "sys_inv {boot_lock} [0xc009e000, 0xc0101000] (\<lambda>_. 0) (boot_sys (In_down boot_lock INTR_ON))"
    by (rule boot_sys_inv) simp
  from lock_no_lost_wakeup [where t = "0xc009e000" and l = boot_lock and st = INTR_ON, OF this lreach.start] show ?thesis
    by (simp add: boot_sys_def)
qed

text \<open>
  C19. No assertion of the lock functions fails: in every reachable state the running thread can acquire a
  lock it does not hold, continue in the loop of \<^verbatim>\<open>sema_down\<close> or behind it, and release a lock it
  holds. The only thread that may not wait is the idle thread.
\<close>

theorem lock_calls_never_panic:
  assumes "sys_inv LS ts dir y0" and "lreach LS ts y0 y" and "l \<in> LS"
  shows "(pcs y (me y) = Outside \<longrightarrow> me y \<noteq> idle_thread (kern y) \<longrightarrow>
        (\<exists>got s. lock_acquire l ret (kern y) = Inr (got, s)))
    \<and> ((\<exists>st. pcs y (me y) = In_down l st) \<longrightarrow> (\<exists>got s. sema_loop (lock_sema l) old ret (kern y) = Inr (got, s)))
    \<and> (pcs y (me y) = Acquired l \<longrightarrow> (\<exists>s. lock_taken l (kern y) = Inr s))
    \<and> (pcs y (me y) = Outside \<longrightarrow> lock_holder (kern y) l = me y \<longrightarrow> (\<exists>s. lock_release l (kern y) = Inr s))
    \<and> (pcs y (me y) = Releasing l \<longrightarrow> (\<exists>s. sema_up (lock_sema l) (kern y) = Inr s))"
proof -
  from lreach_inv [OF assms(2,1)] obtain rs ws where i: "lock_inv (kern y) (pcs y) rs ts dir ws LS {}"
    by (auto simp: sys_inv_def)
  note d = lock_invD [OF i]
  have c: "me y \<in> set ts" by (rule run_invD [OF d(1)])
  have "\<exists>got s. lock_acquire l ret (kern y) = Inr (got, s)"
    if "pcs y (me y) = Outside" "me y \<noteq> idle_thread (kern y)"
  proof (cases "lock_holder (kern y) l = me y")
    case False
    from sema_down_run [OF i assms(3) that, of ret] obtain got s rs' ws' where
      s: "sema_down (lock_sema l) ret (kern y) = Inr (got, intr_get_status (kern y), s)"
      "got \<longrightarrow> running_thread s = me y"
      "lock_inv s ((pcs y)(me y := (if got then Acquired l else In_down l (intr_get_status (kern y))))) rs' ts dir ws' LS {}"
      by blast
    show ?thesis
    proof (cases got)
      case True
      with lock_taken_run [OF s(3) assms(3)] s(2) obtain s' where "lock_taken l s = Inr s'" by auto
      then have "lock_acquire l ret (kern y) = Inr (True, s')" using False s(1) True by (simp add: lock_acquire_def)
      then show ?thesis by blast
    next
      case no: False
      then have "lock_acquire l ret (kern y) = Inr (False, s)" using False s(1) by (simp add: lock_acquire_def)
      then show ?thesis by blast
    qed
  qed (auto simp: lock_acquire_def)
  moreover have "\<exists>got s. sema_loop (lock_sema l) old ret (kern y) = Inr (got, s)"
    if p: "pcs y (me y) = In_down l st" for st
  proof -
    have "me y \<noteq> idle_thread (kern y)" "\<not> eflags_if (kern y)"
      using d(4) c p unfolding down_inv_def by (auto split: if_splits)
    with sema_loop_run [OF i assms(3), of old ret] p show ?thesis by blast
  qed
  moreover have "\<exists>s. lock_release l (kern y) = Inr s"
    if p: "pcs y (me y) = Outside" "lock_holder (kern y) l = me y"
  proof -
    from lock_drop_run [OF i assms(3) p] obtain up s where s: "lock_drop l (kern y) = Inr (up, s)"
      "lock_inv s ((pcs y)(me y := (if up then Releasing l else Outside))) rs ts dir ws LS {}" by blast
    have "running_thread s = me y"
      using s(1) by (auto simp: lock_drop_def rbind_Inr_iff Let_def running_thread_def split: if_splits)
    with sema_up_run [OF s(2) assms(3)] s show ?thesis by (cases up) (auto simp: lock_release_def)
  qed
  moreover have "\<exists>s. lock_taken l (kern y) = Inr s" if "pcs y (me y) = Acquired l"
    using lock_taken_run [OF i assms(3) that] by blast
  moreover have "\<exists>s. sema_up (lock_sema l) (kern y) = Inr s" if "pcs y (me y) = Releasing l"
    using sema_up_run [OF i assms(3) that] by blast
  ultimately show ?thesis by blast
qed

lemma lock_calls_never_panic_witness:
  "\<exists>got s. lock_acquire boot_lock 0 (kern (boot_sys Outside)) = Inr (got, s)"
proof -
  have "sys_inv {boot_lock} [0xc009e000, 0xc0101000] (\<lambda>_. 0) (boot_sys Outside)" by (rule boot_sys_inv) simp
  from lock_calls_never_panic [OF this lreach.start, of boot_lock 0 INTR_ON] show ?thesis
    using boot_sys_me [of Outside] by (simp add: boot_sys_def)
qed

end
