(* ===== verification/Ioqueue.thy ===== *)
theory Ioqueue
  imports Sync "HOL-Library.Signed_Division"
begin

text \<open>
  \<^verbatim>\<open>device/ioqueue.c\<close>: the ring buffer between the keyboard's interrupt handler and the threads that
  read keys, and \<^verbatim>\<open>device/console.c\<close>: output under a lock. A queue is a record (its lock is an
  address of \<open>Sync\<close>, \<^verbatim>\<open>producer\<close> and \<^verbatim>\<open>consumer\<close> are threads, 0 for none); the \<^verbatim>\<open>int32_t\<close> positions
  are words, read as signed numbers by \<^verbatim>\<open>%\<close>.

  A call that waits gives the processor away: its definitions return \<open>None\<close> then, and
  \<open>ioq_getchar_again\<close> and \<open>ioq_putchar_again\<close> are what the thread does when it comes back.
\<close>

section \<open>The code\<close>

definition bufsize :: u32 where "bufsize = 64"

record ioqueue =
  io_lock :: u32
  producer :: u32
  consumer :: u32
  buf :: "u8 list"
  head :: u32
  tail :: u32

definition ioqueue_init :: "ioqueue \<Rightarrow> kernel \<Rightarrow> ioqueue \<times> kernel" where
  "ioqueue_init ioq k =
     (let k = lock_init (io_lock ioq) k;
          ioq = ioq\<lparr>consumer := 0, producer := 0\<rparr>;
          ioq = ioq\<lparr>tail := 0, head := 0\<rparr>
      in (ioq, k))"

definition next_pos :: "u32 \<Rightarrow> u32" where
  "next_pos pos = word_of_int (sint (pos + 1) smod sint bufsize)"

definition ioq_full :: "ioqueue \<Rightarrow> kernel \<Rightarrow> bool res" where
  "ioq_full ioq k =
     rbind (c_assert (intr_get_status k = INTR_OFF)) (\<lambda>_. Inr (next_pos (head ioq) = tail ioq))"

definition ioq_empty :: "ioqueue \<Rightarrow> kernel \<Rightarrow> bool res" where
  "ioq_empty ioq k =
     rbind (c_assert (intr_get_status k = INTR_OFF)) (\<lambda>_. Inr (head ioq = tail ioq))"

text \<open>
  \<^verbatim>\<open>ioq_wait\<close> and \<^verbatim>\<open>wakeup\<close> return the new value of the pointer they get; \<^verbatim>\<open>ioq_wait\<close> ends with the
  thread blocked and another one running.
\<close>

definition ioq_wait :: "u32 \<Rightarrow> u32 \<Rightarrow> kernel \<Rightarrow> (u32 \<times> kernel) res" where
  "ioq_wait waiter ret k =
     rbind (c_assert (waiter = 0)) (\<lambda>_.
     let waiter = running_thread k
     in rbind (thread_block TASK_BLOCKED ret k) (\<lambda>k. Inr (waiter, k)))"

definition wakeup :: "u32 \<Rightarrow> kernel \<Rightarrow> (u32 \<times> kernel) res" where
  "wakeup waiter k =
     rbind (c_assert (waiter \<noteq> 0)) (\<lambda>_.
     rbind (thread_unblock waiter k) (\<lambda>k. Inr (0, k)))"

text \<open>What follows the loops of \<^verbatim>\<open>ioq_getchar\<close> and \<^verbatim>\<open>ioq_putchar\<close>: the access to the ring, the wake-up.\<close>

definition ring_get :: "ioqueue \<Rightarrow> (u8 \<times> ioqueue) res" where
  "ring_get ioq =
     rbind (aread (buf ioq) (unat (tail ioq))) (\<lambda>result. Inr (result, ioq\<lparr>tail := next_pos (tail ioq)\<rparr>))"

definition ring_put :: "u8 \<Rightarrow> ioqueue \<Rightarrow> ioqueue res" where
  "ring_put target ioq =
     rbind (awrite (buf ioq) (unat (head ioq)) target) (\<lambda>b.
     let ioq = ioq\<lparr>buf := b\<rparr> in Inr (ioq\<lparr>head := next_pos (head ioq)\<rparr>))"

definition ioq_take :: "ioqueue \<Rightarrow> kernel \<Rightarrow> (u8 option \<times> ioqueue \<times> kernel) res" where
  "ioq_take ioq k =
     rbind (ring_get ioq) (\<lambda>(result, ioq).
     if producer ioq \<noteq> 0
     then rbind (wakeup (producer ioq) k) (\<lambda>(w, k). Inr (Some result, ioq\<lparr>producer := w\<rparr>, k))
     else Inr (Some result, ioq, k))"

definition ioq_store :: "u8 \<Rightarrow> ioqueue \<Rightarrow> kernel \<Rightarrow> (unit option \<times> ioqueue \<times> kernel) res" where
  "ioq_store target ioq k =
     rbind (ring_put target ioq) (\<lambda>ioq.
     if consumer ioq \<noteq> 0
     then rbind (wakeup (consumer ioq) k) (\<lambda>(w, k). Inr (Some (), ioq\<lparr>consumer := w\<rparr>, k))
     else Inr (Some (), ioq, k))"

definition ioq_getchar :: "ioqueue \<Rightarrow> u32 \<Rightarrow> kernel \<Rightarrow> (u8 option \<times> ioqueue \<times> kernel) res" where
  "ioq_getchar ioq ret k =
     rbind (c_assert (intr_get_status k = INTR_OFF)) (\<lambda>_.
     rbind (ioq_empty ioq k) (\<lambda>e.
     if e
     then rbind (lock_acquire (io_lock ioq) ret k) (\<lambda>(got, k).
          if got then rbind (ioq_wait (consumer ioq) ret k) (\<lambda>(w, k). Inr (None, ioq\<lparr>consumer := w\<rparr>, k))
          else Inr (None, ioq, k))
     else ioq_take ioq k))"

definition ioq_getchar_again :: "ioqueue \<Rightarrow> u32 \<Rightarrow> kernel \<Rightarrow> (u8 option \<times> ioqueue \<times> kernel) res" where
  "ioq_getchar_again ioq ret k = rbind (lock_release (io_lock ioq) k) (\<lambda>k. ioq_getchar ioq ret k)"

definition ioq_putchar :: "ioqueue \<Rightarrow> u8 \<Rightarrow> u32 \<Rightarrow> kernel \<Rightarrow> (unit option \<times> ioqueue \<times> kernel) res" where
  "ioq_putchar ioq target ret k =
     rbind (c_assert (intr_get_status k = INTR_OFF)) (\<lambda>_.
     rbind (ioq_full ioq k) (\<lambda>f.
     if f
     then rbind (lock_acquire (io_lock ioq) ret k) (\<lambda>(got, k).
          if got then rbind (ioq_wait (producer ioq) ret k) (\<lambda>(w, k). Inr (None, ioq\<lparr>producer := w\<rparr>, k))
          else Inr (None, ioq, k))
     else ioq_store target ioq k))"

definition ioq_putchar_again :: "ioqueue \<Rightarrow> u8 \<Rightarrow> u32 \<Rightarrow> kernel \<Rightarrow> (unit option \<times> ioqueue \<times> kernel) res" where
  "ioq_putchar_again ioq target ret k =
     rbind (lock_release (io_lock ioq) k) (\<lambda>k. ioq_putchar ioq target ret k)"

text \<open>
  The console: \<open>out\<close> is what \<^verbatim>\<open>put_char\<close> has been given so far; \<open>None\<close> when the caller waits for the
  lock.
\<close>

definition console_init :: "u32 \<Rightarrow> kernel \<Rightarrow> kernel" where
  "console_init console_lock k = lock_init console_lock k"

definition console_acquire :: "u32 \<Rightarrow> u32 \<Rightarrow> kernel \<Rightarrow> (bool \<times> kernel) res" where
  "console_acquire console_lock ret k = lock_acquire console_lock ret k"

definition console_release :: "u32 \<Rightarrow> kernel \<Rightarrow> kernel res" where
  "console_release console_lock k = lock_release console_lock k"

definition console_put_str :: "u32 \<Rightarrow> u8 list \<Rightarrow> u32 \<Rightarrow> u8 list \<Rightarrow> kernel \<Rightarrow> (u8 list option \<times> kernel) res" where
  "console_put_str console_lock str ret out k =
     rbind (console_acquire console_lock ret k) (\<lambda>(got, k).
     if got
     then let out = out @ str in rbind (console_release console_lock k) (\<lambda>k. Inr (Some out, k))
     else Inr (None, k))"

definition console_put_char :: "u32 \<Rightarrow> u8 \<Rightarrow> u32 \<Rightarrow> u8 list \<Rightarrow> kernel \<Rightarrow> (u8 list option \<times> kernel) res" where
  "console_put_char console_lock char_ascii ret out k =
     rbind (console_acquire console_lock ret k) (\<lambda>(got, k).
     if got
     then let out = out @ [char_ascii] in rbind (console_release console_lock k) (\<lambda>k. Inr (Some out, k))
     else Inr (None, k))"

text \<open>How the assembly routine \<^verbatim>\<open>put_int\<close> writes a number is a parameter.\<close>

definition console_put_int :: "(u32 \<Rightarrow> u8 list) \<Rightarrow> u32 \<Rightarrow> u32 \<Rightarrow> u32 \<Rightarrow> u8 list \<Rightarrow> kernel \<Rightarrow> (u8 list option \<times> kernel) res" where
  "console_put_int put_int console_lock num ret out k =
     rbind (console_acquire console_lock ret k) (\<lambda>(got, k).
     if got
     then let out = out @ put_int num in rbind (console_release console_lock k) (\<lambda>k. Inr (Some out, k))
     else Inr (None, k))"

section \<open>The ring as a bounded queue\<close>

text \<open>
  What the keyboard and the readers rely on: an object stands for a sequence of at most \<open>cap\<close>
  elements, and storing and taking act on its two ends.
\<close>

locale bounded_queue =
  fixes rep :: "'q \<Rightarrow> 'e list \<Rightarrow> bool" and cap :: nat
    and full :: "'q \<Rightarrow> bool" and put :: "'e \<Rightarrow> 'q \<Rightarrow> error + 'q" and get :: "'q \<Rightarrow> error + ('e \<times> 'q)"
  assumes rep_full: "rep q xs \<Longrightarrow> full q \<longleftrightarrow> length xs = cap"
    and rep_cap: "rep q xs \<Longrightarrow> length xs \<le> cap"
    and rep_put: "rep q xs \<Longrightarrow> length xs < cap \<Longrightarrow> \<exists>q'. put x q = Inr q' \<and> rep q' (xs @ [x])"
    and rep_get: "rep q (x # xs) \<Longrightarrow> \<exists>q'. get q = Inr (x, q') \<and> rep q' xs"

text \<open>Storing as long as there is room, as the keyboard does: what does not fit is dropped.\<close>

fun put_all :: "('q \<Rightarrow> bool) \<Rightarrow> ('e \<Rightarrow> 'q \<Rightarrow> 'q res) \<Rightarrow> 'e list \<Rightarrow> 'q \<Rightarrow> 'q res" where
  "put_all fl p [] q = Inr q"
| "put_all fl p (x # xs) q = (if fl q then put_all fl p xs q else rbind (p x q) (put_all fl p xs))"

fun get_all :: "('q \<Rightarrow> ('e \<times> 'q) res) \<Rightarrow> nat \<Rightarrow> 'q \<Rightarrow> 'e list res" where
  "get_all g 0 q = Inr []"
| "get_all g (Suc n) q = rbind (g q) (\<lambda>(x, q). rbind (get_all g n q) (\<lambda>xs. Inr (x # xs)))"

context bounded_queue
begin

lemma put_all_keeps: "rep q xs \<Longrightarrow> \<exists>q'. put_all full put es q = Inr q' \<and> rep q' (take cap (xs @ es))"
proof (induction es arbitrary: q xs)
  case Nil
  then show ?case using rep_cap by simp
next
  case (Cons e es)
  show ?case
  proof (cases "full q")
    case True
    then have "length xs = cap" using rep_full [OF Cons.prems] by simp
    then show ?thesis using Cons.IH [OF Cons.prems] True by simp
  next
    case False
    then have "length xs < cap" using rep_full [OF Cons.prems] rep_cap [OF Cons.prems] by simp
    with rep_put [OF Cons.prems this, of e] Cons.IH False show ?thesis by fastforce
  qed
qed

lemma get_all_keeps: "rep q xs \<Longrightarrow> get_all get (length xs) q = Inr xs"
proof (induction xs arbitrary: q)
  case (Cons x xs)
  from rep_get [OF Cons.prems] Cons.IH show ?case by auto
qed simp

lemma fifo_bounded:
  assumes "rep q []"
  shows "\<exists>q'. put_all full put es q = Inr q' \<and> get_all get (min cap (length es)) q' = Inr (take cap es)"
  using put_all_keeps [OF assms, of es] get_all_keeps by (fastforce simp: min.commute)

end

definition ring :: "ioqueue \<Rightarrow> u8 list \<Rightarrow> bool" where
  "ring q xs \<longleftrightarrow> length (buf q) = 64 \<and> unat (tail q) < 64 \<and> length xs < 64
     \<and> unat (head q) = (unat (tail q) + length xs) mod 64
     \<and> (\<forall>i < length xs. buf q ! ((unat (tail q) + i) mod 64) = xs ! i)"

lemma next_pos_unat:
  assumes "unat p < 64"
  shows "unat (next_pos p) = (unat p + 1) mod 64"
proof -
  have u: "unat (p + 1) = unat p + 1" using assms by (simp add: unat_word_ariths)
  then have "sint (p + 1) = int (unat p + 1)" using assms sint_small [of "p + 1"] by simp
  moreover have "sint bufsize = 64" by (simp add: bufsize_def)
  moreover have "int n smod 64 = int n mod 64" for n
    by (cases n) (simp_all add: signed_modulo_int_def signed_divide_int_def minus_div_mult_eq_mod sgn_if)
  ultimately have "next_pos p = word_of_int (int (unat p + 1) mod 64)"
    unfolding next_pos_def by metis
  moreover have "int (unat p + 1) mod 64 = int ((unat p + 1) mod 64)" by (metis of_nat_numeral zmod_int)
  moreover have "word_of_int (int n) = (word_of_nat n :: u32)" for n by simp
  ultimately have "next_pos p = word_of_nat ((unat p + 1) mod 64)" by metis
  moreover have "(unat p + 1) mod 64 < 2 ^ 32" by (rule less_trans [of _ 64]) simp_all
  ultimately show ?thesis by (simp add: unat_word_of_nat32)
qed

lemma ring_full: "ring q xs \<Longrightarrow> next_pos (head q) = tail q \<longleftrightarrow> length xs = 63"
proof -
  assume r: "ring q xs"
  then have h: "unat (head q) < 64" by (simp add: ring_def)
  have "next_pos (head q) = tail q \<longleftrightarrow> (unat (head q) + 1) mod 64 = unat (tail q)"
    using next_pos_unat [OF h] by (simp add: word_unat_eq_iff)
  also have "\<dots> \<longleftrightarrow> (unat (tail q) + (length xs + 1)) mod 64 = unat (tail q)"
    using r by (simp add: ring_def mod_simps)
  also have "\<dots> \<longleftrightarrow> length xs = 63"
    using r by (auto simp: ring_def mod_if split: if_splits)
  finally show ?thesis .
qed

lemma ring_empty: "ring q xs \<Longrightarrow> head q = tail q \<longleftrightarrow> xs = []"
proof -
  assume r: "ring q xs"
  have "head q = tail q \<longleftrightarrow> unat (head q) = unat (tail q)" by (simp add: word_unat_eq_iff)
  also have "\<dots> \<longleftrightarrow> (unat (tail q) + length xs) mod 64 = unat (tail q)" using r by (simp add: ring_def)
  also have "\<dots> \<longleftrightarrow> xs = []" using r by (auto simp: ring_def mod_if split: if_splits)
  finally show ?thesis .
qed

lemma ring_put_ring:
  assumes r: "ring q xs" and n: "length xs < 63"
  shows "\<exists>q'. ring_put x q = Inr q' \<and> ring q' (xs @ [x]) \<and> producer q' = producer q
    \<and> consumer q' = consumer q \<and> io_lock q' = io_lock q"
proof -
  let ?q = "q\<lparr>buf := (buf q)[unat (head q) := x], head := next_pos (head q)\<rparr>"
  have h: "unat (head q) < 64" "unat (head q) = (unat (tail q) + length xs) mod 64" using r by (simp_all add: ring_def)
  have ne: "(unat (tail q) + i) mod 64 \<noteq> unat (head q)" if "i < length xs" for i
    unfolding h(2) using that r by (auto simp: ring_def mod_if split: if_splits)
  have "(buf q)[unat (head q) := x] ! ((unat (tail q) + i) mod 64) = (xs @ [x]) ! i" if "i < length xs + 1" for i
  proof (cases "i = length xs")
    case True
    then show ?thesis using h r by (simp add: ring_def nth_append)
  next
    case False
    then have "i < length xs" using that by simp
    moreover have "buf q ! ((unat (tail q) + i) mod 64) = xs ! i" using r \<open>i < length xs\<close> by (simp add: ring_def)
    ultimately show ?thesis
      unfolding nth_list_update_neq [OF ne [OF \<open>i < length xs\<close>, symmetric]] using \<open>i < length xs\<close>
      by (simp add: nth_append)
  qed
  then have "ring ?q (xs @ [x])"
    using r n h next_pos_unat [OF h(1)] by (simp add: ring_def mod_simps)
  moreover have "ring_put x q = Inr ?q" using r h(1) by (simp add: ring_put_def ring_def)
  ultimately show ?thesis by (intro exI [of _ ?q]) simp
qed

lemma ring_get_ring:
  assumes r: "ring q (x # xs)"
  shows "\<exists>q'. ring_get q = Inr (x, q') \<and> ring q' xs \<and> producer q' = producer q
    \<and> consumer q' = consumer q \<and> io_lock q' = io_lock q"
proof -
  let ?q = "q\<lparr>tail := next_pos (tail q)\<rparr>"
  have t: "unat (tail q) < 64" using r by (simp add: ring_def)
  have e: "buf q ! ((unat (tail q) + i) mod 64) = (x # xs) ! i" if "i < Suc (length xs)" for i
    using r that by (simp add: ring_def)
  have "buf q ! unat (tail q) = x" using e [of 0] t by simp
  moreover have "buf q ! (((unat (tail q) + 1) mod 64 + i) mod 64) = xs ! i" if "i < length xs" for i
    using e [of "Suc i"] that by (simp add: mod_simps)
  ultimately show ?thesis
    using r next_pos_unat [OF t] t
    by (intro exI [of _ ?q]) (simp add: ring_def ring_get_def mod_simps)
qed

interpretation io: bounded_queue ring 63 "\<lambda>q. next_pos (head q) = tail q" ring_put ring_get
proof unfold_locales
  show "next_pos (head q) = tail q \<longleftrightarrow> length xs = 63" if "ring q xs" for q xs by (rule ring_full [OF that])
  show "length xs \<le> 63" if "ring q xs" for q xs using that by (simp add: ring_def)
  show "\<exists>q'. ring_put x q = Inr q' \<and> ring q' (xs @ [x])" if "ring q xs" "length xs < 63" for q xs x
    using ring_put_ring [OF that] by blast
  show "\<exists>q'. ring_get q = Inr (x, q') \<and> ring q' xs" if "ring q (x # xs)" for q x xs
    using ring_get_ring [OF that] by blast
qed


text \<open>A thread that waits in a queue, if any, is blocked.\<close>

definition waiter_ok :: "kernel \<Rightarrow> u32 list \<Rightarrow> u32 \<Rightarrow> bool" where
  "waiter_ok k ts w \<longleftrightarrow> w = 0 \<or> w \<in> set ts \<and> status (tasks k w) = TASK_BLOCKED"

lemma wakeup_run:
  assumes "run_inv k rs ts dir" and "waiter_ok k ts w" and "w \<noteq> 0"
  shows "\<exists>k'. wakeup w k = Inr (0, k') \<and> run_inv k' (w # rs) ts dir \<and> status (tasks k' w) = TASK_READY"
proof -
  have w: "w \<in> set ts" "statuses k w \<in> {TASK_BLOCKED, TASK_WAITING, TASK_HANGING}"
    using assms(2,3) by (simp_all add: waiter_ok_def statuses_def)
  from thread_unblock_run [OF assms(1) w] obtain k' where
    "thread_unblock w k = Inr k'" "run_inv k' (w # rs) ts dir" "statuses k' = (statuses k)(w := TASK_READY)" by blast
  moreover from this have "status (tasks k' w) = TASK_READY" by (metis fun_upd_same statuses_def)
  ultimately show ?thesis using assms(3) by (simp add: wakeup_def)
qed

text \<open>
  C31. The queue of \<^verbatim>\<open>device/ioqueue.c\<close> is a first-in first-out queue of 63 bytes: it says it is full or empty
  exactly then; \<^verbatim>\<open>ioq_putchar\<close> with room and \<^verbatim>\<open>ioq_getchar\<close> on a non-empty queue return at once, act on
  the two ends of the sequence, stay inside the buffer, make the thread that waits on the other side
  ready, and keep the invariant of the thread system.
\<close>

theorem ioqueue_refines:
  assumes "ring q xs" and "run_inv k rs ts dir" and "\<not> eflags_if k"
    and "waiter_ok k ts (producer q)" and "waiter_ok k ts (consumer q)"
  shows "ioq_full q k = Inr (length xs = 63) \<and> ioq_empty q k = Inr (xs = [])
    \<and> (length xs < 63 \<longrightarrow> (\<exists>q' k' rs'. ioq_putchar q c ret k = Inr (Some (), q', k') \<and> ring q' (xs @ [c])
        \<and> run_inv k' rs' ts dir \<and> consumer q' = 0 \<and> (consumer q \<noteq> 0 \<longrightarrow> status (tasks k' (consumer q)) = TASK_READY)))
    \<and> (xs \<noteq> [] \<longrightarrow> (\<exists>q' k' rs'. ioq_getchar q ret k = Inr (Some (hd xs), q', k') \<and> ring q' (List.tl xs)
        \<and> run_inv k' rs' ts dir \<and> producer q' = 0 \<and> (producer q \<noteq> 0 \<longrightarrow> status (tasks k' (producer q)) = TASK_READY)))"
proof (intro conjI impI)
  have off: "intr_get_status k = INTR_OFF" using assms(3) by simp
  show f: "ioq_full q k = Inr (length xs = 63)" using off ring_full [OF assms(1)] by (simp add: ioq_full_def)
  show e: "ioq_empty q k = Inr (xs = [])" using off ring_empty [OF assms(1)] by (simp add: ioq_empty_def)
  {
    assume n: "length xs < 63"
    from ring_put_ring [OF assms(1) n, of c] obtain q1 where
      q1: "ring_put c q = Inr q1" "ring q1 (xs @ [c])" "consumer q1 = consumer q" by blast
    have p: "ioq_putchar q c ret k = ioq_store c q k" using off f n by (simp add: ioq_putchar_def)
    show "\<exists>q' k' rs'. ioq_putchar q c ret k = Inr (Some (), q', k') \<and> ring q' (xs @ [c])
      \<and> run_inv k' rs' ts dir \<and> consumer q' = 0 \<and> (consumer q \<noteq> 0 \<longrightarrow> status (tasks k' (consumer q)) = TASK_READY)"
    proof (cases "consumer q = 0")
      case True
      then show ?thesis unfolding p using q1 assms(2) by (auto simp: ioq_store_def)
    next
      case False
      from wakeup_run [OF assms(2,5) False] obtain k' where
        "wakeup (consumer q) k = Inr (0, k')" "run_inv k' (consumer q # rs) ts dir"
        "status (tasks k' (consumer q)) = TASK_READY" by blast
      moreover have "ring (q1\<lparr>consumer := 0\<rparr>) (xs @ [c])" using q1(2) by (simp add: ring_def)
      ultimately show ?thesis unfolding p using q1 False by (auto simp: ioq_store_def)
    qed
  }
  {
    assume n: "xs \<noteq> []"
    then have "ring q (hd xs # List.tl xs)" using assms(1) by simp
    from ring_get_ring [OF this] obtain q1 where
      q1: "ring_get q = Inr (hd xs, q1)" "ring q1 (List.tl xs)" "producer q1 = producer q" by blast
    have p: "ioq_getchar q ret k = ioq_take q k" using off e n by (simp add: ioq_getchar_def)
    show "\<exists>q' k' rs'. ioq_getchar q ret k = Inr (Some (hd xs), q', k') \<and> ring q' (List.tl xs)
      \<and> run_inv k' rs' ts dir \<and> producer q' = 0 \<and> (producer q \<noteq> 0 \<longrightarrow> status (tasks k' (producer q)) = TASK_READY)"
    proof (cases "producer q = 0")
      case True
      then show ?thesis unfolding p using q1 assms(2) by (auto simp: ioq_take_def)
    next
      case False
      from wakeup_run [OF assms(2,4) False] obtain k' where
        "wakeup (producer q) k = Inr (0, k')" "run_inv k' (producer q # rs) ts dir"
        "status (tasks k' (producer q)) = TASK_READY" by blast
      moreover have "ring (q1\<lparr>producer := 0\<rparr>) (List.tl xs)" using q1(2) by (simp add: ring_def)
      ultimately show ?thesis unfolding p using q1 False by (auto simp: ioq_take_def)
    qed
  }
qed

definition boot_queue :: ioqueue where
  "boot_queue = fst (ioqueue_init \<lparr>io_lock = 0xc0010200, producer = 0, consumer = 0, buf = replicate 64 0,
     head = 5, tail = 7\<rparr> (boot_kernel\<lparr>eflags_if := False\<rparr>))"

lemma boot_queue_ring: "ring boot_queue []"
  by (simp add: boot_queue_def ioqueue_init_def ring_def Let_def)

lemma ioqueue_refines_witness:
  "\<exists>q' k'. ioq_putchar boot_queue 97 0 (boot_kernel\<lparr>eflags_if := False\<rparr>) = Inr (Some (), q', k') \<and> ring q' [97]"
proof -
  have "run_inv (boot_kernel\<lparr>eflags_if := False\<rparr>) [0xc0101000] [0xc009e000, 0xc0101000] (\<lambda>_. 0)"
    using boot_run_inv by (simp add: run_inv_def statuses_def)
  from ioqueue_refines [where c = 97 and ret = 0, OF boot_queue_ring this]
  show ?thesis by (auto simp: waiter_ok_def boot_queue_def ioqueue_init_def Let_def)
qed

text \<open>
  What goes in comes out: of any bytes stored in an empty queue the first 63 are kept, whatever comes
  after them is dropped, and they come out in the order they went in.
\<close>

theorem ioqueue_fifo:
  assumes "ring q []"
  shows "\<exists>q'. put_all (\<lambda>q. next_pos (head q) = tail q) ring_put es q = Inr q'
    \<and> get_all ring_get (min 63 (length es)) q' = Inr (take 63 es)"
  by (rule io.fifo_bounded [OF assms])

lemma ioqueue_fifo_witness:
  "\<exists>q'. put_all (\<lambda>q. next_pos (head q) = tail q) ring_put [104, 105] boot_queue = Inr q'
    \<and> get_all ring_get 2 q' = Inr [104, 105]"
  using ioqueue_fifo [OF boot_queue_ring, of "[104, 105]"]
  by (simp del: put_all.simps get_all.simps flip: numeral_2_eq_2)

end
