(* ===== verification/Keyboard.thy ===== *)
theory Keyboard
  imports Ioqueue
begin

text \<open>
  \<^verbatim>\<open>device/keyboard.c\<close>: the translation of scan codes into characters. \<open>kbd\<close> holds the static flags;
  \<open>kbd_step\<close> is the handler up to the queue, on the byte read from port \<^verbatim>\<open>0x60\<close>; the whole handler
  puts the character into the queue of \<open>Ioqueue\<close> when there is room.
\<close>

section \<open>The code\<close>

record kbd =
  ctrl_status :: bool
  shift_status :: bool
  alt_status :: bool
  caps_lock_status :: bool
  ext_scancode :: bool

definition keymap :: "(u8 \<times> u8) list" where
  "keymap = [
     (0, 0), (27, 27), (49, 33), (50, 64), (51, 35), (52, 36), (53, 37), (54, 94),
     (55, 38), (56, 42), (57, 40), (48, 41), (45, 95), (61, 43), (8, 8), (9, 9),
     (113, 81), (119, 87), (101, 69), (114, 82), (116, 84), (121, 89), (117, 85), (105, 73),
     (111, 79), (112, 80), (91, 123), (93, 125), (13, 13), (0, 0), (97, 65), (115, 83),
     (100, 68), (102, 70), (103, 71), (104, 72), (106, 74), (107, 75), (108, 76), (59, 58),
     (39, 34), (96, 126), (0, 0), (92, 124), (122, 90), (120, 88), (99, 67), (118, 86),
     (98, 66), (110, 78), (109, 77), (44, 60), (46, 62), (47, 63), (0, 0), (42, 42),
     (0, 0), (32, 32), (0, 0)]"

definition shift_l_make :: u16 where "shift_l_make = 0x2a"
definition shift_r_make :: u16 where "shift_r_make = 0x36"
definition alt_l_make :: u16 where "alt_l_make = 0x38"
definition alt_r_make :: u16 where "alt_r_make = 0xe038"
definition ctrl_l_make :: u16 where "ctrl_l_make = 0x1d"
definition ctrl_r_make :: u16 where "ctrl_r_make = 0xe01d"
definition caps_lock_make :: u16 where "caps_lock_make = 0x3a"

text \<open>What one interrupt delivers.\<close>

datatype key_event = Nothing | Char u8 | Unknown

definition release_key :: "u16 \<Rightarrow> kbd \<Rightarrow> kbd" where
  "release_key scancode s =
     (let make_code = scancode AND 0xff7f
      in if make_code = ctrl_l_make \<or> make_code = ctrl_r_make then s\<lparr>ctrl_status := False\<rparr>
         else if make_code = alt_l_make \<or> make_code = alt_r_make then s\<lparr>alt_status := False\<rparr>
         else if make_code = shift_l_make \<or> make_code = shift_r_make then s\<lparr>shift_status := False\<rparr>
         else s)"

definition use_shift :: "u16 \<Rightarrow> bool \<Rightarrow> bool \<Rightarrow> bool" where
  "use_shift scancode shift_down_last caps_lock_last =
     (if scancode < 0x0e \<or> scancode = 0x29 \<or> scancode = 0x1a \<or> scancode = 0x1b \<or> scancode = 0x2b
        \<or> scancode = 0x27 \<or> scancode = 0x28 \<or> scancode = 0x33 \<or> scancode = 0x34 \<or> scancode = 0x35
      then shift_down_last
      else if shift_down_last \<and> caps_lock_last then False
      else if shift_down_last \<or> caps_lock_last then True
      else False)"

definition press_key :: "u16 \<Rightarrow> kbd \<Rightarrow> (key_event \<times> kbd) res" where
  "press_key scancode s =
     (let ctrl_down_last = ctrl_status s;
          shift = use_shift scancode (shift_status s) (caps_lock_status s);
          scancode = scancode AND 0x00ff;
          index = (ucast scancode :: u8)
      in rbind (aread keymap (unat index)) (\<lambda>row.
         let cur_char = (if shift then snd row else fst row);
             cur_char = (if ctrl_down_last \<and> cur_char = 108 \<or> ctrl_down_last \<and> cur_char = 117
                         then cur_char - 97 else cur_char)
         in if cur_char \<noteq> 0 then Inr (Char cur_char, s)
            else if scancode = ctrl_l_make \<or> scancode = ctrl_r_make
            then Inr (Nothing, s\<lparr>ctrl_status := True\<rparr>)
            else if scancode = shift_l_make \<or> scancode = shift_r_make
            then Inr (Nothing, s\<lparr>shift_status := True\<rparr>)
            else if scancode = alt_l_make \<or> scancode = alt_r_make
            then Inr (Nothing, s\<lparr>alt_status := True\<rparr>)
            else if scancode = caps_lock_make
            then Inr (Nothing, s\<lparr>caps_lock_status := \<not> caps_lock_status s\<rparr>)
            else Inr (Nothing, s)))"

definition kbd_step :: "u8 \<Rightarrow> kbd \<Rightarrow> (key_event \<times> kbd) res" where
  "kbd_step port s =
     (let scancode = (ucast port :: u16)
      in if scancode = 0xe0 then Inr (Nothing, s\<lparr>ext_scancode := True\<rparr>)
         else let (scancode, s) = (if ext_scancode s then (0xe000 OR scancode, s\<lparr>ext_scancode := False\<rparr>)
                                   else (scancode, s));
                  break_code = (scancode AND 0x0080 \<noteq> 0)
              in if break_code then Inr (Nothing, release_key scancode s)
                 else if 0x00 < scancode \<and> scancode < 0x3b \<or> scancode = ctrl_r_make \<or> scancode = alt_r_make
                 then press_key scancode s
                 else Inr (Unknown, s))"

definition intr_keyboard_handler ::
    "u8 \<Rightarrow> u32 \<Rightarrow> kbd \<Rightarrow> ioqueue \<Rightarrow> kernel \<Rightarrow> (kbd \<times> ioqueue \<times> kernel) res" where
  "intr_keyboard_handler port ret s kbd_buf k =
     rbind (kbd_step port s) (\<lambda>(ev, s).
     case ev of
       Char cur_char \<Rightarrow>
         rbind (ioq_full kbd_buf k) (\<lambda>f.
         if \<not> f then rbind (ioq_putchar kbd_buf cur_char ret k) (\<lambda>(_, kbd_buf, k). Inr (s, kbd_buf, k))
         else Inr (s, kbd_buf, k))
     | _ \<Rightarrow> Inr (s, kbd_buf, k))"

text \<open>The flags start as zero; \<open>kbd_buf\<close>'s lock is part of it.\<close>

definition keyboard_init :: "ioqueue \<Rightarrow> 'h list \<Rightarrow> 'h \<Rightarrow> kernel \<Rightarrow> (kbd \<times> ioqueue \<times> 'h list \<times> kernel) res" where
  "keyboard_init kbd_buf idt_table handler k =
     (let (kbd_buf, k) = ioqueue_init kbd_buf k
      in rbind (register_handler idt_table 0x21 handler) (\<lambda>idt_table.
         Inr (\<lparr>ctrl_status = False, shift_status = False, alt_status = False, caps_lock_status = False,
           ext_scancode = False\<rparr>, kbd_buf, idt_table, k)))"

section \<open>Typing\<close>

text \<open>The characters a sequence of interrupts delivers.\<close>

fun kbd_run :: "u8 list \<Rightarrow> kbd \<Rightarrow> (u8 list \<times> kbd) res" where
  "kbd_run [] s = Inr ([], s)"
| "kbd_run (b # bs) s = rbind (kbd_step b s) (\<lambda>(ev, s). rbind (kbd_run bs s) (\<lambda>(cs, s).
     Inr (case ev of Char c \<Rightarrow> c # cs | _ \<Rightarrow> cs, s)))"

text \<open>Pressing and releasing the key of a row of the map, perhaps with the left shift key held.\<close>

definition strokes :: "bool \<Rightarrow> nat \<Rightarrow> u8 list" where
  "strokes shifted i =
     (if shifted then [0x2a, of_nat i, of_nat i + 0x80, 0xaa] else [of_nat i, of_nat i + 0x80])"

text \<open>The character a user expects: caps lock turns the letters' shift around, and only theirs.\<close>

definition is_letter :: "u8 \<Rightarrow> bool" where "is_letter c \<longleftrightarrow> 97 \<le> c \<and> c \<le> 122"

definition expected :: "bool \<Rightarrow> bool \<Rightarrow> nat \<Rightarrow> u8" where
  "expected shifted caps i =
     (let (lo, up) = keymap ! i
      in if is_letter lo then (if shifted = caps then lo else lo - 32) else (if shifted then up else lo))"

text \<open>The facts about the scan codes of a row, evaluated for each row.\<close>

definition row_ok :: "nat \<Rightarrow> bool" where
  "row_ok i \<longleftrightarrow> (let c = (of_nat i :: u8); m = (ucast c :: u16); b = (ucast (c + 0x80) :: u16); (lo, up) = keymap ! i in
     lo = 0 \<or> up \<noteq> 0 \<and> m \<noteq> 0xe0 \<and> m AND 0x0080 = 0 \<and> 0 < m \<and> m < 0x3b \<and> unat (ucast (m AND 0x00ff) :: u8) = i
       \<and> b \<noteq> 0xe0 \<and> b AND 0x0080 \<noteq> 0
       \<and> b AND 0xff7f \<notin> {ctrl_l_make, ctrl_r_make, alt_l_make, alt_r_make, shift_l_make, shift_r_make}
       \<and> (\<forall>shifted \<in> {False, True}. \<forall>caps \<in> {False, True}.
            (if use_shift m shifted caps then up else lo) = expected shifted caps i))"

lemma rows_ok: "list_all row_ok [0..<59]"
  by code_simp

lemma row_ok: "i < 59 \<Longrightarrow> row_ok i"
  using rows_ok by (simp add: list_all_iff)

lemma length_keymap: "length keymap = 59"
  by (simp add: keymap_def)

lemma press_row:
  assumes i: "i < 59" "fst (keymap ! i) \<noteq> 0" and s: "\<not> ext_scancode s" "\<not> ctrl_status s"
  shows "kbd_step (of_nat i) s = Inr (Char (expected (shift_status s) (caps_lock_status s) i), s)"
proof -
  obtain lo up where k: "keymap ! i = (lo, up)" by force
  note r = row_ok [OF i(1), unfolded row_ok_def Let_def k]
  have e: "(if use_shift (ucast (of_nat i :: u8)) (shift_status s) (caps_lock_status s) then up else lo)
      = expected (shift_status s) (caps_lock_status s) i"
    using r i(2) k by (cases "shift_status s"; cases "caps_lock_status s") simp_all
  show ?thesis
    using r i k s e [symmetric] length_keymap by (simp add: kbd_step_def press_key_def Let_def)
qed

lemma release_row:
  assumes i: "i < 59" "fst (keymap ! i) \<noteq> 0" and s: "\<not> ext_scancode s"
  shows "kbd_step (of_nat i + 0x80) s = Inr (Nothing, s)"
proof -
  obtain lo up where k: "keymap ! i = (lo, up)" by force
  note r = row_ok [OF i(1), unfolded row_ok_def Let_def k]
  show ?thesis
    using r i k s by (simp add: kbd_step_def release_key_def Let_def)
qed

lemma shift_keys:
  assumes "\<not> ext_scancode s"
  shows "kbd_step 0x2a s = Inr (Nothing, s\<lparr>shift_status := True\<rparr>)"
    and "kbd_step 0xaa s = Inr (Nothing, s\<lparr>shift_status := False\<rparr>)"
  using assms
  by (simp_all add: kbd_step_def press_key_def release_key_def Let_def keymap_def use_shift_def shift_l_make_def
      shift_r_make_def alt_l_make_def alt_r_make_def ctrl_l_make_def ctrl_r_make_def caps_lock_make_def)

section \<open>What the keyboard promises\<close>

lemma if_Inr: "(if b then Inr x else Inr y) = Inr (if b then x else y)"
  by simp

lemma press_key_total: "unat (ucast (m AND 0x00ff) :: u8) < 59 \<Longrightarrow> \<exists>y. press_key m s = Inr y"
  by (simp add: press_key_def Let_def length_keymap if_Inr del: if_split)

text \<open>
  No scan code makes the handler read outside the key map, whatever came before it.
\<close>

theorem keyboard_in_bounds: "\<exists>ev s'. kbd_step b s = Inr (ev, s')"
proof -
  have "unat (ucast (m AND 0x00ff) :: u8) < 59" if m: "m < 0x3b \<or> m = ctrl_r_make \<or> m = alt_r_make" for m :: u16
  proof (cases "m < 0x3b")
    case True
    have "unat (ucast (m AND 0x00ff) :: u8) = take_bit 8 (unat (m AND 0x00ff))" by (simp add: unsigned_ucast_eq take_bit_word_def)
    also have "\<dots> \<le> unat (m AND 0x00ff)" by (rule take_bit_nat_less_eq_self)
    also have "\<dots> \<le> unat m" using word_and_le2 [of m "0x00ff"] by (simp only: word_le_nat_alt)
    also have "\<dots> < 59" using True by (simp add: word_less_nat_alt)
    finally show ?thesis .
  next
    case False
    then show ?thesis using m by (auto simp: ctrl_r_make_def alt_r_make_def)
  qed
  then have p: "m < 0x3b \<or> m = ctrl_r_make \<or> m = alt_r_make \<Longrightarrow> \<exists>y. press_key m s = Inr y" for m s
    using press_key_total by blast
  let ?rest = "\<lambda>(m, s). if m AND 0x0080 \<noteq> 0 then Inr (Nothing, release_key m s)
    else if 0x00 < m \<and> m < 0x3b \<or> m = ctrl_r_make \<or> m = alt_r_make then press_key m s else Inr (Unknown, s)"
  have q: "\<exists>y. ?rest x = Inr y" for x
    by (cases x) (simp only: prod.case, split if_split, split if_split, use p in blast)
  have "kbd_step b s = (if (ucast b :: u16) = 0xe0 then Inr (Nothing, s\<lparr>ext_scancode := True\<rparr>)
    else ?rest (if ext_scancode s then (0xe000 OR ucast b, s\<lparr>ext_scancode := False\<rparr>) else (ucast b, s)))"
    by (simp only: kbd_step_def Let_def)
  then have "kbd_step b s = Inr (Nothing, s\<lparr>ext_scancode := True\<rparr>) \<or> (\<exists>x. kbd_step b s = ?rest x)"
    by (simp only: if_splits) blast
  then have "\<exists>y. kbd_step b s = Inr y" using q by metis
  then show ?thesis by (metis surj_pair)
qed

text \<open>
  C40. Typing works: pressing and releasing the key of any row of the map delivers exactly the character
  of that row, upper or lower as the shift key and, for letters only, caps lock ask for, and leaves
  the keyboard's state as it was.
\<close>

theorem keyboard_types:
  assumes "i < 59" and "fst (keymap ! i) \<noteq> 0"
    and "\<not> ext_scancode s" and "\<not> ctrl_status s" and "\<not> shift_status s"
  shows "kbd_run (strokes shifted i) s = Inr ([expected shifted (caps_lock_status s) i], s)"
proof -
  have "s\<lparr>shift_status := False\<rparr> = s" using assms(5) by (cases s) simp
  then show ?thesis
    using assms by (simp add: strokes_def shift_keys press_row release_row)
qed

lemma keyboard_types_witness:
  "kbd_run (strokes True 30) \<lparr>ctrl_status = False, shift_status = False, alt_status = False,
      caps_lock_status = False, ext_scancode = False\<rparr>
    = Inr ([65], \<lparr>ctrl_status = False, shift_status = False, alt_status = False,
      caps_lock_status = False, ext_scancode = False\<rparr>)"
  by (subst keyboard_types) (simp_all add: keymap_def expected_def is_letter_def)

end
