(* ===== verification/Malloc.thy ===== *)
theory Malloc
  imports Sync
begin

text \<open>
  The allocators of \<^verbatim>\<open>kernel/memory.c\<close> above the page tables: \<^verbatim>\<open>malloc_page\<close> and \<^verbatim>\<open>mfree_page\<close> with
  the virtual address bitmaps, \<^verbatim>\<open>get_a_page\<close>, and the heap of \<^verbatim>\<open>sys_malloc\<close> and \<^verbatim>\<open>sys_free\<close>.

  Arenas and block descriptors are words in the memory of \<open>Paging\<close>, at the offsets of the C
  structures, reached through the page tables; the nodes of the free lists are the list nodes of
  \<open>Klist\<close>. A call that has to wait for the lock of a pool returns \<open>None\<close>; the bodies of the calls,
  which run with the lock held, are definitions of their own (\<open>malloc_body\<close>, \<open>free_body\<close>, ...).
\<close>

section \<open>Pages\<close>

datatype pool_flags = PF_KERNEL | PF_USER

definition set_vaddr :: "u32 \<Rightarrow> bitmap \<Rightarrow> kernel \<Rightarrow> kernel" where
  "set_vaddr t m s = upd_task t (\<lambda>x. x\<lparr>userprog_vaddr := (userprog_vaddr x)\<lparr>vaddr_bitmap := m\<rparr>\<rparr>) s"

definition set_kernel_vaddr :: "bitmap \<Rightarrow> kernel \<Rightarrow> kernel" where
  "set_kernel_vaddr m s = s\<lparr>kernel_vaddr := (kernel_vaddr s)\<lparr>vaddr_bitmap := m\<rparr>\<rparr>"

definition vaddr_get :: "pool_flags \<Rightarrow> u32 \<Rightarrow> kernel \<Rightarrow> (u32 \<times> kernel) res" where
  "vaddr_get pf pg_cnt s =
     (case pf of
        PF_KERNEL \<Rightarrow>
          let m = vaddr_bitmap (kernel_vaddr s)
          in rbind (bitmap_scan m (unat pg_cnt)) (\<lambda>bit_idx_start.
             if bit_idx_start = - 1 then Inr (0, s)
             else rbind (bitmap_set_range m (nat bit_idx_start) (unat pg_cnt) 1) (\<lambda>m.
               Inr (vaddr_start (kernel_vaddr s) + word_of_int bit_idx_start * PG_SIZE, set_kernel_vaddr m s)))
      | PF_USER \<Rightarrow>
          let cur = running_thread s; m = vaddr_bitmap (userprog_vaddr (tasks s cur))
          in rbind (bitmap_scan m (unat pg_cnt)) (\<lambda>bit_idx_start.
             if bit_idx_start = - 1 then Inr (0, s)
             else rbind (bitmap_set_range m (nat bit_idx_start) (unat pg_cnt) 1) (\<lambda>m.
               let v = vaddr_start (userprog_vaddr (tasks s cur)) + word_of_int bit_idx_start * PG_SIZE
               in rbind (c_assert (v < 0xc0000000 - PG_SIZE)) (\<lambda>_. Inr (v, set_vaddr cur m s)))))"

definition pool_alloc :: "pool_flags \<Rightarrow> kernel \<Rightarrow> (u32 \<times> kernel) res" where
  "pool_alloc pf s = (case pf of PF_KERNEL \<Rightarrow> palloc_kernel s | PF_USER \<Rightarrow> palloc_user s)"

text \<open>The loop of \<^verbatim>\<open>malloc_page\<close>; the flag is false when it runs out of frames and returns \<^verbatim>\<open>NULL\<close>.\<close>

primrec map_pages :: "pool_flags \<Rightarrow> nat \<Rightarrow> u32 \<Rightarrow> kernel \<Rightarrow> (bool \<times> kernel) res" where
  "map_pages pf 0 vaddr s = Inr (True, s)"
| "map_pages pf (Suc cnt) vaddr s =
     rbind (pool_alloc pf s) (\<lambda>(page_phyaddr, s).
     if page_phyaddr = 0 then Inr (False, s)
     else rbind (page_table_add vaddr page_phyaddr s) (map_pages pf cnt (vaddr + PG_SIZE)))"

definition malloc_page :: "pool_flags \<Rightarrow> u32 \<Rightarrow> kernel \<Rightarrow> (u32 \<times> kernel) res" where
  "malloc_page pf pg_cnt s =
     rbind (c_assert (0 < pg_cnt \<and> pg_cnt < 3840)) (\<lambda>_.
     rbind (vaddr_get pf pg_cnt s) (\<lambda>(vaddr_start, s).
     if vaddr_start = 0 then Inr (0, s)
     else rbind (map_pages pf (unat pg_cnt) vaddr_start s) (\<lambda>(done, s).
       Inr (if done then vaddr_start else 0, s))))"

definition clear_pages :: "u32 \<Rightarrow> u32 \<Rightarrow> kernel \<Rightarrow> kernel res" where
  "clear_pages vaddr pg_cnt s = clear_words vaddr (unat pg_cnt * 1024) s"

definition get_kernel_pages :: "u32 \<Rightarrow> kernel \<Rightarrow> (u32 \<times> kernel) res" where
  "get_kernel_pages pg_cnt s =
     rbind (malloc_page PF_KERNEL pg_cnt s) (\<lambda>(vaddr, s).
     rbind (if vaddr \<noteq> 0 then clear_pages vaddr pg_cnt s else Inr s) (\<lambda>s. Inr (vaddr, s)))"

text \<open>The locks of the pools are at fixed addresses.\<close>

record pool_locks =
  kernel_pool_lock :: u32
  user_pool_lock :: u32

definition pool_lock :: "pool_locks \<Rightarrow> pool_flags \<Rightarrow> u32" where
  "pool_lock L pf = (case pf of PF_KERNEL \<Rightarrow> kernel_pool_lock L | PF_USER \<Rightarrow> user_pool_lock L)"

text \<open>A body between the acquisition and the release of a lock.\<close>

definition with_lock :: "u32 \<Rightarrow> u32 \<Rightarrow> (kernel \<Rightarrow> ('r \<times> kernel) res) \<Rightarrow> kernel \<Rightarrow> ('r option \<times> kernel) res" where
  "with_lock plock ret body s =
     rbind (lock_acquire plock ret s) (\<lambda>(got, s).
     if got then rbind (body s) (\<lambda>(r, s). rbind (lock_release plock s) (\<lambda>s. Inr (Some r, s)))
     else Inr (None, s))"

definition get_user_pages :: "pool_locks \<Rightarrow> u32 \<Rightarrow> u32 \<Rightarrow> kernel \<Rightarrow> (u32 option \<times> kernel) res" where
  "get_user_pages L ret pg_cnt =
     with_lock (user_pool_lock L) ret (\<lambda>s.
       rbind (malloc_page PF_USER pg_cnt s) (\<lambda>(vaddr, s).
       rbind (if vaddr \<noteq> 0 then clear_pages vaddr pg_cnt s else Inr s) (\<lambda>s. Inr (vaddr, s))))"

text \<open>\<^verbatim>\<open>get_a_page\<close>: the bit of the address is set first; bit 0 fails the assertion.\<close>

definition mark_page :: "pool_flags \<Rightarrow> u32 \<Rightarrow> kernel \<Rightarrow> kernel res" where
  "mark_page pf vaddr s =
     (let cur = running_thread s
      in if pgdir (tasks s cur) \<noteq> 0 \<and> pf = PF_USER
         then let bit_idx = (vaddr - vaddr_start (userprog_vaddr (tasks s cur))) div PG_SIZE
              in rbind (c_assert (0 < sint bit_idx)) (\<lambda>_.
                 rbind (bitmap_set (vaddr_bitmap (userprog_vaddr (tasks s cur))) (unat bit_idx) 1) (\<lambda>m.
                 Inr (set_vaddr cur m s)))
         else if pgdir (tasks s cur) = 0 \<and> pf = PF_KERNEL
         then let bit_idx = (vaddr - vaddr_start (kernel_vaddr s)) div PG_SIZE
              in rbind (c_assert (0 < sint bit_idx)) (\<lambda>_.
                 rbind (bitmap_set (vaddr_bitmap (kernel_vaddr s)) (unat bit_idx) 1) (\<lambda>m.
                 Inr (set_kernel_vaddr m s)))
         else Inl Panic)"

definition map_a_page :: "pool_flags \<Rightarrow> u32 \<Rightarrow> kernel \<Rightarrow> (u32 \<times> kernel) res" where
  "map_a_page pf vaddr s =
     rbind (pool_alloc pf s) (\<lambda>(page_phyaddr, s).
     if page_phyaddr = 0 then Inr (0, s)
     else rbind (page_table_add vaddr page_phyaddr s) (\<lambda>s. Inr (vaddr, s)))"

definition get_a_page :: "pool_locks \<Rightarrow> u32 \<Rightarrow> pool_flags \<Rightarrow> u32 \<Rightarrow> kernel \<Rightarrow> (u32 option \<times> kernel) res" where
  "get_a_page L ret pf vaddr =
     with_lock (pool_lock L pf) ret (\<lambda>s. rbind (mark_page pf vaddr s) (map_a_page pf vaddr))"

definition get_a_page_without_opvaddrbitmap ::
    "pool_locks \<Rightarrow> u32 \<Rightarrow> pool_flags \<Rightarrow> u32 \<Rightarrow> kernel \<Rightarrow> (u32 option \<times> kernel) res" where
  "get_a_page_without_opvaddrbitmap L ret pf vaddr =
     with_lock (pool_lock L pf) ret (map_a_page pf vaddr)"

definition vaddr_remove :: "pool_flags \<Rightarrow> u32 \<Rightarrow> u32 \<Rightarrow> kernel \<Rightarrow> kernel res" where
  "vaddr_remove pf vaddr pg_cnt s =
     (case pf of
        PF_KERNEL \<Rightarrow>
          let bit_start_index = (vaddr - vaddr_start (kernel_vaddr s)) div PG_SIZE
          in rbind (bitmap_set_range (vaddr_bitmap (kernel_vaddr s)) (unat bit_start_index) (unat pg_cnt) 0) (\<lambda>m.
             Inr (set_kernel_vaddr m s))
      | PF_USER \<Rightarrow>
          let cur_thread = running_thread s;
              bit_start_index = (vaddr - vaddr_start (userprog_vaddr (tasks s cur_thread))) div PG_SIZE
          in rbind (bitmap_set_range (vaddr_bitmap (userprog_vaddr (tasks s cur_thread)))
               (unat bit_start_index) (unat pg_cnt) 0) (\<lambda>m. Inr (set_vaddr cur_thread m s)))"

text \<open>The two loops of \<^verbatim>\<open>mfree_page\<close>; \<open>var\<close> is the address of \<^verbatim>\<open>page_table_pte_remove\<close>'s variable.\<close>

primrec free_user_pages :: "u32 \<Rightarrow> nat \<Rightarrow> u32 \<Rightarrow> kernel \<Rightarrow> kernel res" where
  "free_user_pages var 0 vaddr s = Inr s"
| "free_user_pages var (Suc cnt) vaddr s =
     rbind (addr_v2p vaddr s) (\<lambda>phy_addr.
     rbind (c_assert (phy_addr mod PG_SIZE = 0 \<and> phy_addr_start (user_pool s) \<le> phy_addr)) (\<lambda>_.
     rbind (pfree phy_addr s) (\<lambda>s.
     rbind (page_table_pte_remove var vaddr s) (free_user_pages var cnt (vaddr + PG_SIZE)))))"

primrec free_kernel_pages :: "u32 \<Rightarrow> nat \<Rightarrow> u32 \<Rightarrow> kernel \<Rightarrow> kernel res" where
  "free_kernel_pages var 0 vaddr s = Inr s"
| "free_kernel_pages var (Suc cnt) vaddr s =
     rbind (addr_v2p vaddr s) (\<lambda>phy_addr.
     rbind (c_assert (phy_addr mod PG_SIZE = 0 \<and> phy_addr_start (kernel_pool s) \<le> phy_addr
       \<and> phy_addr < phy_addr_start (user_pool s))) (\<lambda>_.
     rbind (pfree phy_addr s) (\<lambda>s.
     rbind (page_table_pte_remove var vaddr s) (free_kernel_pages var cnt (vaddr + PG_SIZE)))))"

definition mfree_page :: "u32 \<Rightarrow> pool_flags \<Rightarrow> u32 \<Rightarrow> u32 \<Rightarrow> kernel \<Rightarrow> kernel res" where
  "mfree_page var pf vaddr pg_cnt s =
     rbind (c_assert (0 < pg_cnt \<and> vaddr mod PG_SIZE = 0)) (\<lambda>_.
     rbind (addr_v2p vaddr s) (\<lambda>phy_addr.
     rbind (c_assert (phy_addr mod PG_SIZE = 0 \<and> 0x102000 \<le> phy_addr)) (\<lambda>_.
     rbind (if phy_addr_start (user_pool s) \<le> phy_addr
            then free_user_pages var (unat pg_cnt) vaddr s
            else free_kernel_pages var (unat pg_cnt) vaddr s) (vaddr_remove pf vaddr pg_cnt))))"

section \<open>The heap\<close>

text \<open>
  \<^verbatim>\<open>struct arena\<close>: \<^verbatim>\<open>desc\<close>, \<^verbatim>\<open>cnt\<close> and \<^verbatim>\<open>large\<close> (\<^verbatim>\<open>bool\<close> is \<^verbatim>\<open>int\<close>), 12 bytes; \<^verbatim>\<open>struct mem_block_desc\<close>:
  \<^verbatim>\<open>block_size\<close>, \<^verbatim>\<open>block_per_arena\<close> and the list of 16 bytes, 24 bytes.
\<close>

definition DESC_CNT :: nat where "DESC_CNT = 7"
definition sizeof_arena :: u32 where "sizeof_arena = 12"
definition sizeof_desc :: u32 where "sizeof_desc = 24"

abbreviation (input) arena_desc :: "u32 \<Rightarrow> u32" where "arena_desc a \<equiv> a"
abbreviation (input) arena_cnt :: "u32 \<Rightarrow> u32" where "arena_cnt a \<equiv> a + 4"
abbreviation (input) arena_large :: "u32 \<Rightarrow> u32" where "arena_large a \<equiv> a + 8"
abbreviation (input) block_size :: "u32 \<Rightarrow> u32" where "block_size d \<equiv> d"
abbreviation (input) block_per_arena :: "u32 \<Rightarrow> u32" where "block_per_arena d \<equiv> d + 4"
abbreviation (input) free_list :: "u32 \<Rightarrow> u32" where "free_list d \<equiv> d + 8"

definition desc_at :: "u32 \<Rightarrow> nat \<Rightarrow> u32" where
  "desc_at desc_array index = desc_array + of_nat index * sizeof_desc"

text \<open>\<^verbatim>\<open>u_block_desc\<close> lies 100 bytes into \<^verbatim>\<open>struct task_struct\<close>.\<close>

definition u_block_desc :: "u32 \<Rightarrow> u32" where "u_block_desc t = t + 100"

primrec init_descs :: "nat \<Rightarrow> u32 \<Rightarrow> u16 \<Rightarrow> kernel \<Rightarrow> kernel res" where
  "init_descs 0 d sz s = Inr s"
| "init_descs (Suc n) d sz s =
     rbind (store (block_size d) (ucast sz) s) (\<lambda>s.
     rbind (store (block_per_arena d) ((PG_SIZE - sizeof_arena) div ucast sz) s) (\<lambda>s.
     let s = list_init (free_list d) s
     in init_descs n (d + sizeof_desc) (sz * 2) s))"

definition block_desc_init :: "u32 \<Rightarrow> kernel \<Rightarrow> kernel res" where
  "block_desc_init desc_array s = init_descs DESC_CNT desc_array 16 s"

definition arena2block :: "u32 \<Rightarrow> u32 \<Rightarrow> kernel \<Rightarrow> u32 res" where
  "arena2block a index s =
     rbind (load (arena_desc a) s) (\<lambda>desc.
     rbind (load (block_size desc) s) (\<lambda>sz. Inr (a + sizeof_arena + index * sz)))"

definition block2arena :: "u32 \<Rightarrow> u32" where
  "block2arena b = b AND 0xfffff000"

definition DIV_ROUND_UP :: "u32 \<Rightarrow> u32 \<Rightarrow> u32" where
  "DIV_ROUND_UP X STEP = (X + STEP - 1) div STEP"

text \<open>The search for the smallest class; past the last one the index is \<open>DESC_CNT\<close>.\<close>

primrec find_class :: "nat \<Rightarrow> u32 \<Rightarrow> nat \<Rightarrow> u32 \<Rightarrow> kernel \<Rightarrow> nat res" where
  "find_class 0 descs index sz s = Inr index"
| "find_class (Suc n) descs index sz s =
     rbind (load (block_size (desc_at descs index)) s) (\<lambda>b.
     if sz \<le> b then Inr index else find_class n descs (Suc index) sz s)"

text \<open>The loop that splits a new arena; \<open>n\<close> blocks are left from \<open>index\<close> on.\<close>

primrec split_arena :: "nat \<Rightarrow> u32 \<Rightarrow> u32 \<Rightarrow> kernel \<Rightarrow> kernel res" where
  "split_arena 0 a index s = Inr s"
| "split_arena (Suc n) a index s =
     rbind (arena2block a index s) (\<lambda>b.
     rbind (load (arena_desc a) s) (\<lambda>desc.
     rbind (elem_find (free_list desc) b s) (\<lambda>found.
     rbind (c_assert (\<not> found)) (\<lambda>_.
     split_arena n a (index + 1) (list_append (free_list desc) b s)))))"

definition malloc_large :: "pool_flags \<Rightarrow> u32 \<Rightarrow> kernel \<Rightarrow> (u32 \<times> kernel) res" where
  "malloc_large PF sz s =
     (let page_cnt = DIV_ROUND_UP (sz + sizeof_arena) PG_SIZE
      in rbind (malloc_page PF page_cnt s) (\<lambda>(a, s).
         if a \<noteq> 0
         then rbind (clear_pages a page_cnt s) (\<lambda>s.
              rbind (store (arena_desc a) 0 s) (\<lambda>s.
              rbind (store (arena_cnt a) page_cnt s) (\<lambda>s.
              rbind (store (arena_large a) 1 s) (\<lambda>s. Inr (a + sizeof_arena, s)))))
         else Inr (0, s)))"

definition new_arena :: "pool_flags \<Rightarrow> u32 \<Rightarrow> kernel \<Rightarrow> (u32 \<times> kernel) res" where
  "new_arena PF desc s =
     rbind (malloc_page PF 1 s) (\<lambda>(a, s).
     if a = 0 then Inr (0, s)
     else rbind (clear_pages a 1 s) (\<lambda>s.
          rbind (store (arena_desc a) desc s) (\<lambda>s.
          rbind (store (arena_large a) 0 s) (\<lambda>s.
          rbind (load (block_per_arena desc) s) (\<lambda>per.
          rbind (store (arena_cnt a) per s) (\<lambda>s.
          let (old_status, s) = intr_disable s
          in rbind (split_arena (unat per) a 0 s) (\<lambda>s.
             Inr (a, snd (intr_set_status old_status s)))))))))"

definition take_block :: "u32 \<Rightarrow> kernel \<Rightarrow> (u32 \<times> kernel) res" where
  "take_block desc s =
     (let (b, s) = list_pop (free_list desc) s
      in rbind (load (block_size desc) s) (\<lambda>sz.
         rbind (clear_words b (unat sz div 4) s) (\<lambda>s.
         let a = block2arena b
         in rbind (load (arena_cnt a) s) (\<lambda>cnt.
            rbind (store (arena_cnt a) (cnt - 1) s) (\<lambda>s. Inr (b, s))))))"

definition malloc_small :: "pool_flags \<Rightarrow> u32 \<Rightarrow> u32 \<Rightarrow> kernel \<Rightarrow> (u32 \<times> kernel) res" where
  "malloc_small PF descs sz s =
     rbind (find_class DESC_CNT descs 0 sz s) (\<lambda>index.
     let desc = desc_at descs index
     in if list_empty (free_list desc) s
        then rbind (new_arena PF desc s) (\<lambda>(a, s). if a = 0 then Inr (0, s) else take_block desc s)
        else take_block desc s)"

definition malloc_body :: "pool_flags \<Rightarrow> u32 \<Rightarrow> u32 \<Rightarrow> kernel \<Rightarrow> (u32 \<times> kernel) res" where
  "malloc_body PF descs sz s =
     (if 1024 < sz then malloc_large PF sz s else malloc_small PF descs sz s)"

definition sys_malloc :: "pool_locks \<Rightarrow> u32 \<Rightarrow> u32 \<Rightarrow> u32 \<Rightarrow> kernel \<Rightarrow> (u32 option \<times> kernel) res" where
  "sys_malloc L k_block_descs ret sz s =
     (let cur_thread = running_thread s;
          (PF, pool_size, descs) =
            (if pgdir (tasks s cur_thread) = 0
             then (PF_KERNEL, pool_size (kernel_pool s), k_block_descs)
             else (PF_USER, pool_size (user_pool s), u_block_desc cur_thread))
      in if \<not> (0 < sz \<and> sz < pool_size) then Inr (Some 0, s)
         else with_lock (pool_lock L PF) ret (malloc_body PF descs sz) s)"

text \<open>The loop of \<^verbatim>\<open>sys_free\<close> that takes the blocks of a free arena out of the free list.\<close>

primrec unlink_blocks :: "nat \<Rightarrow> u32 \<Rightarrow> u32 \<Rightarrow> kernel \<Rightarrow> kernel res" where
  "unlink_blocks 0 a index s = Inr s"
| "unlink_blocks (Suc n) a index s =
     rbind (arena2block a index s) (\<lambda>b.
     rbind (load (arena_desc a) s) (\<lambda>desc.
     rbind (elem_find (free_list desc) b s) (\<lambda>found.
     rbind (c_assert found) (\<lambda>_. unlink_blocks n a (index + 1) (list_remove b s)))))"

definition free_body :: "u32 \<Rightarrow> pool_flags \<Rightarrow> u32 \<Rightarrow> kernel \<Rightarrow> (unit \<times> kernel) res" where
  "free_body var pf ptr s =
     (let b = ptr; a = block2arena b
      in rbind (load (arena_large a) s) (\<lambda>large.
         rbind (c_assert (large = 1 \<or> large = 0)) (\<lambda>_.
         rbind (load (arena_desc a) s) (\<lambda>desc.
         rbind (load (arena_cnt a) s) (\<lambda>cnt.
         rbind (if desc = 0 \<and> large = 1 then mfree_page var pf a cnt s
                else let s = list_append (free_list desc) b s
                     in rbind (store (arena_cnt a) (cnt + 1) s) (\<lambda>s.
                        rbind (load (block_per_arena desc) s) (\<lambda>per.
                        if cnt + 1 = per
                        then rbind (unlink_blocks (unat per) a 0 s) (mfree_page var pf a 1)
                        else Inr s))) (\<lambda>s. Inr ((), s)))))))"

definition sys_free :: "pool_locks \<Rightarrow> u32 \<Rightarrow> u32 \<Rightarrow> u32 \<Rightarrow> kernel \<Rightarrow> (unit option \<times> kernel) res" where
  "sys_free L var ret ptr s =
     rbind (c_assert (ptr \<noteq> 0)) (\<lambda>_.
     rbind (if pgdir (tasks s (running_thread s)) = 0
            then rbind (c_assert (K_HEAP_START \<le> ptr)) (\<lambda>_. Inr PF_KERNEL)
            else Inr PF_USER) (\<lambda>pf.
     with_lock (pool_lock L pf) ret (free_body var pf ptr) s))"

definition mem_init :: "u32 \<Rightarrow> u8 list \<Rightarrow> u32 \<Rightarrow> kernel \<Rightarrow> kernel res" where
  "mem_init k_block_descs region mem_bytes_total s =
     rbind (mem_pool_init mem_bytes_total region s) (block_desc_init k_block_descs)"


section \<open>The blocks of an arena\<close>

definition class_sizes :: "u32 list" where
  "class_sizes = [16, 32, 64, 128, 256, 512, 1024]"

text \<open>
  C37. An arena is cut into blocks that fit: for each of the seven block sizes, every block starts behind the
  arena's header and ends inside its page, \<^verbatim>\<open>block2arena\<close> finds the arena of a block again, and two
  different blocks do not overlap.
\<close>

theorem arena_blocks_fit:
  assumes "aligned a" and "load (arena_desc a) s = Inr d" and "load (block_size d) s = Inr sz"
    and "sz \<in> set class_sizes" and "i < (PG_SIZE - sizeof_arena) div sz" and "j < (PG_SIZE - sizeof_arena) div sz"
  shows "\<exists>b c. arena2block a i s = Inr b \<and> arena2block a j s = Inr c \<and> block2arena b = a
    \<and> unat a + 12 \<le> unat b \<and> unat b + unat sz \<le> unat a + 4096
    \<and> (i \<noteq> j \<longrightarrow> unat b + unat sz \<le> unat c \<or> unat c + unat sz \<le> unat b)"
proof -
  have "\<forall>sz \<in> set class_sizes. unat sz \<noteq> 0 \<and> unat sz \<le> 1024" by code_simp
  with assms(4) have sz: "unat sz \<noteq> 0" "unat sz \<le> 1024" by blast+
  have k: "(unat k + 1) * unat sz \<le> 4084" if "k < (PG_SIZE - sizeof_arena) div sz" for k
  proof -
    have "unat k < 4084 div unat sz"
      using that by (simp add: PG_SIZE_def sizeof_arena_def word_less_nat_alt unat_div)
    then have "unat k + 1 \<le> 4084 div unat sz" by simp
    then show ?thesis using sz(1) by (simp add: less_eq_div_iff_mult_less_eq)
  qed
  have u: "unat (12 + k * sz) = 12 + unat k * unat sz" if "k < (PG_SIZE - sizeof_arena) div sz" for k
  proof -
    have "unat (k * sz) = unat k * unat sz"
      using k [OF that] by (simp add: unat_word_ariths)
    then show ?thesis using k [OF that] by (simp add: unat_word_ariths)
  qed
  have au: "unat a + 4096 \<le> 2 ^ 32"
  proof -
    have "unat a mod 4096 = 0" using assms(1) by (simp only: aligned_unat)
    then have d: "unat a = 4096 * (unat a div 4096)" by (simp add: mult.commute minus_mod_eq_mult_div [symmetric])
    have "unat a < 2 ^ 32" using unsigned_less [of a] by simp
    then have "unat a div 4096 < 1048576" by (simp add: less_mult_imp_div_less)
    with d obtain q where q: "unat a = 4096 * q" "q < 1048576" by blast
    then show ?thesis unfolding q(1) by simp
  qed
  have b: "unat (a + (12 + k * sz)) = unat a + 12 + unat k * unat sz" if "k < (PG_SIZE - sizeof_arena) div sz" for k
    using k [OF that] u [OF that] au sz(1) by (simp add: unat_word_ariths)
  have "12 + i * sz < 4096"
    using u [OF assms(5)] k [OF assms(5)] sz(1) by (simp add: word_less_nat_alt)
  then have pg: "block2arena (a + (12 + i * sz)) = a"
    using page_add [OF assms(1)] by (simp add: block2arena_def page_def)
  have e: "arena2block a k s = Inr (a + (12 + k * sz))" for k
    using assms(2,3) by (simp add: arena2block_def sizeof_arena_def add.assoc)
  have sep: "unat i * unat sz + unat sz \<le> unat j * unat sz \<or> unat j * unat sz + unat sz \<le> unat i * unat sz" if "i \<noteq> j"
  proof -
    have "unat i + 1 \<le> unat j \<or> unat j + 1 \<le> unat i" using that by (auto simp: word_unat_eq_iff)
    then have "(unat i + 1) * unat sz \<le> unat j * unat sz \<or> (unat j + 1) * unat sz \<le> unat i * unat sz"
      by (meson mult_le_mono1)
    then show ?thesis by (simp add: add.commute)
  qed
  show ?thesis
    using e pg b [OF assms(5)] b [OF assms(6)] k [OF assms(5)] sep by auto
qed

section \<open>Mapping pages\<close>

text \<open>The pages that a call maps: page tables are there, nothing is mapped yet, no two share an entry.\<close>

definition mappable :: "kernel \<Rightarrow> u32 \<Rightarrow> nat \<Rightarrow> bool" where
  "mappable s v n \<longleftrightarrow> (\<forall>i < n. let w = v + of_nat i * PG_SIZE in
     PDE_IDX w \<noteq> 1023 \<and> present (pmem s (pde_at s w)) \<and> walk s w = None
     \<and> (\<forall>j < n. i \<noteq> j \<longrightarrow> \<not> aliases w (v + of_nat j * PG_SIZE)))"

lemma mappable_0: "0 < n \<Longrightarrow> mappable s v n \<Longrightarrow>
    PDE_IDX v \<noteq> 1023 \<and> present (pmem s (pde_at s v)) \<and> walk s v = None"
  unfolding mappable_def Let_def by (metis add.right_neutral mult_zero_left of_nat_0)


text \<open>The loop of \<^verbatim>\<open>malloc_page\<close> on the kernel's pool.\<close>

lemma write_pte_mappable:
  fixes s :: kernel and x v :: u32
  assumes wf: "tables_wf s" and m: "mappable s v (Suc n)"
  defines "s' \<equiv> s\<lparr>pmem := (pmem s)(pte_at s v := x)\<rparr>"
  shows "mappable s' (v + PG_SIZE) n"
proof -
  note v = mappable_0 [OF _ m, simplified]
  have d: "pde_at s' w = pde_at s w" for w by (simp add: s'_def pde_at_def)
  have e: "pmem s' (pde_at s w) = pmem s (pde_at s w)" for w
    using pte_not_pde [OF wf, of v w] v by (auto simp: s'_def)
  have step: "v + PG_SIZE + of_nat i * PG_SIZE = v + of_nat (Suc i) * PG_SIZE" for i by (simp add: algebra_simps)
  have mm: "PDE_IDX (v + of_nat i * PG_SIZE) \<noteq> 1023 \<and> present (pmem s (pde_at s (v + of_nat i * PG_SIZE)))
      \<and> walk s (v + of_nat i * PG_SIZE) = None
      \<and> (\<forall>j < Suc n. i \<noteq> j \<longrightarrow> \<not> aliases (v + of_nat i * PG_SIZE) (v + of_nat j * PG_SIZE))" if "i < Suc n" for i
    using m that unfolding mappable_def Let_def by blast
  have al: "\<not> aliases v (v + of_nat (Suc i) * PG_SIZE)" if "i < n" for i
    using mm [of 0] that by (metis Suc_less_eq Zero_not_Suc add.right_neutral mult_zero_left of_nat_0 zero_less_Suc)
  have "walk s' (v + of_nat (Suc i) * PG_SIZE) = None" if "i < n" for i
    using write_pte(3) [OF wf _ _ _ al [OF that], of x] v mm [of "Suc i"] that by (simp add: s'_def)
  with mm show ?thesis unfolding mappable_def Let_def step d e
    by (metis Suc_less_eq nat.inject)
qed

lemma map_pages_kernel:
  assumes "tables_wf s" and "wf_pools s" and "phy_addr_start (kernel_pool s) \<noteq> 0" and "mappable s v n"
    and "n \<le> card (frames (kernel_pool s) - used_frames (kernel_pool s))"
  shows "\<exists>s' fs. map_pages PF_KERNEL n v s = Inr (True, s') \<and> length fs = n \<and> distinct fs
    \<and> set fs \<subseteq> frames (kernel_pool s) - used_frames (kernel_pool s)
    \<and> used_frames (kernel_pool s') = used_frames (kernel_pool s) \<union> set fs
    \<and> tables_wf s' \<and> wf_pools s' \<and> kernel_vaddr s' = kernel_vaddr s
    \<and> (\<forall>i < n. \<forall>w. page w = page (v + of_nat i * PG_SIZE) \<longrightarrow> walk s' w = Some (fs ! i + (w AND 0xfff)))
    \<and> (\<forall>w. PDE_IDX w \<noteq> 1023 \<longrightarrow> (\<forall>i < n. \<not> aliases (v + of_nat i * PG_SIZE) w) \<longrightarrow> walk s' w = walk s w)"
  using assms
proof (induction n arbitrary: s v)
  case 0
  then show ?case by simp
next
  case (Suc n)
  note v = mappable_0 [OF _ Suc.prems(4), simplified]
  have fin: "finite (frames (kernel_pool s))" by (simp add: frames_def)
  have "\<not> frames (kernel_pool s) \<subseteq> used_frames (kernel_pool s)"
    using Suc.prems(5) by (metis Diff_eq_empty_iff card.empty not_less_eq_eq zero_le)
  then obtain f s1 where f: "palloc_kernel s = Inr (f, s1)" using kpool.alloc_room [OF Suc.prems(2)] by force
  note fr = kpool.alloc_fresh [OF Suc.prems(2) f]
  from f obtain P where P: "s1 = s\<lparr>kernel_pool := P\<rparr>" "palloc (kernel_pool s) = Inr (f, P)"
    by (auto simp: palloc_kernel_def rbind_Inr_iff)
  have ps: "phy_addr_start P = phy_addr_start (kernel_pool s)"
    using palloc_spec [of "kernel_pool s"] Suc.prems(2) P(2) by (auto simp: wf_pools_def split: if_splits)
  have wfP: "wf_pool (kernel_pool s)" using Suc.prems(2) by (simp add: wf_pools_def)
  have f0: "f \<noteq> 0"
    using frames_range [OF wfP, of f] fr Suc.prems(3) by (auto simp: word_unat_eq_iff)
  have al: "aligned f" using fr frame_aligned [OF wfP] by (auto simp: frames_def)
  have at: "pde_at s1 w = pde_at s w" "pte_at s1 w = pte_at s w" "walk s1 w = walk s w" for w
    by (simp_all add: P(1) pde_at_def pte_at_def walk_def)
  have wf1: "tables_wf s1" by (rule tables_wf_cong [OF Suc.prems(1)]) (simp_all add: P(1))
  have m1: "mappable s1 v (Suc n)" using Suc.prems(4) unfolding mappable_def at by (simp add: P(1))
  note v1 = mappable_0 [OF _ m1, simplified]
  let ?s2 = "s1\<lparr>pmem := (pmem s1)(pte_at s1 v := entry f)\<rparr>"
  have add: "page_table_add v f s1 = Inr ?s2"
    using page_table_add_present [OF tables_wf_self [OF wf1]] v1 walk_None_pte by metis
  have wf2: "tables_wf ?s2" using write_pte(1) [OF wf1] v1 by blast
  have p2: "kernel_pool ?s2 = kernel_pool s1" "user_pool ?s2 = user_pool s1" "kernel_vaddr ?s2 = kernel_vaddr s"
    by (simp_all add: P(1))
  have pools2: "wf_pools ?s2" using fr by (simp add: wf_pools_def)
  have "frames (kernel_pool s1) - used_frames (kernel_pool s1)
      = (frames (kernel_pool s) - used_frames (kernel_pool s)) - {f}" using fr by auto
  moreover have "f \<in> frames (kernel_pool s) - used_frames (kernel_pool s)" using fr by blast
  ultimately have cd: "n \<le> card (frames (kernel_pool ?s2) - used_frames (kernel_pool ?s2))"
    using Suc.prems(5) fin unfolding p2 by simp
  have s20: "phy_addr_start (kernel_pool ?s2) \<noteq> 0" using ps Suc.prems(3) by (simp add: P(1))
  from Suc.IH [OF wf2 pools2 s20 write_pte_mappable [OF wf1 m1] cd] obtain s' fs where
    s': "map_pages PF_KERNEL n (v + PG_SIZE) ?s2 = Inr (True, s')" "length fs = n" "distinct fs"
    "set fs \<subseteq> frames (kernel_pool s1) - used_frames (kernel_pool s1)"
    "used_frames (kernel_pool s') = used_frames (kernel_pool s1) \<union> set fs"
    "tables_wf s'" "wf_pools s'" "kernel_vaddr s' = kernel_vaddr s"
    "\<And>i w. i < n \<Longrightarrow> page w = page (v + PG_SIZE + of_nat i * PG_SIZE) \<Longrightarrow> walk s' w = Some (fs ! i + (w AND 0xfff))"
    "\<And>w. PDE_IDX w \<noteq> 1023 \<Longrightarrow> (\<And>i. i < n \<Longrightarrow> \<not> aliases (v + PG_SIZE + of_nat i * PG_SIZE) w) \<Longrightarrow> walk s' w = walk ?s2 w"
    unfolding p2 by blast
  have step: "v + PG_SIZE + of_nat i * PG_SIZE = v + of_nat (Suc i) * PG_SIZE" for i by (simp add: algebra_simps)
  have run: "map_pages PF_KERNEL (Suc n) v s = Inr (True, s')"
    using f f0 add s'(1) by (simp add: pool_alloc_def)
  have sep: "\<not> aliases (v + of_nat (Suc i) * PG_SIZE) v" if "i < n" for i
  proof -
    have "\<not> aliases (v + of_nat (Suc i) * PG_SIZE) (v + of_nat 0 * PG_SIZE)"
      using Suc.prems(4) that unfolding mappable_def Let_def by (metis Suc_less_eq Zero_not_Suc zero_less_Suc)
    then show ?thesis by simp
  qed
  have first: "walk s' w = Some (f + (w AND 0xfff))" if w: "page w = page v" for w
  proof -
    have av: "aliases v w" by (rule aliases_page [OF w [symmetric]])
    have pw: "PDE_IDX w = PDE_IDX v" "PTE_IDX w = PTE_IDX v" using page_idx [OF w] by simp_all
    have "\<not> aliases (v + of_nat (Suc i) * PG_SIZE) w" if "i < n" for i
      using sep [OF that] pw unfolding aliases_def by metis
    then have "walk s' w = walk ?s2 w" using s'(10) [of w] v pw unfolding step by metis
    also have "\<dots> = Some (f + (w AND 0xfff))"
      using write_pte(2) [where x = "entry f", OF wf1 conjunct1 [OF conjunct2 [OF v1]] conjunct1 [OF v1] av pw(1) [symmetric]]
      by (simp only: entry_flags(1) entry_flags(2) [OF al] if_True)
    finally show ?thesis .
  qed
  have trans: "walk s' w = Some ((f # fs) ! i + (w AND 0xfff))"
    if i: "i < Suc n" and w: "page w = page (v + of_nat i * PG_SIZE)" for i w
  proof (cases i)
    case 0
    then show ?thesis using first [of w] w by simp
  next
    case (Suc k)
    then show ?thesis using s'(9) [of k w] i w unfolding step by simp
  qed
  have other: "walk s' w = walk s w"
    if w: "PDE_IDX w \<noteq> 1023" "\<forall>i < Suc n. \<not> aliases (v + of_nat i * PG_SIZE) w" for w
  proof -
    have n: "\<not> aliases (v + of_nat (Suc i) * PG_SIZE) w" if "i < n" for i using w(2) that by (metis Suc_less_eq)
    have "walk s' w = walk ?s2 w" by (rule s'(10) [OF w(1), unfolded step]) (rule n)
    moreover have "\<not> aliases v w" using w(2) by (metis add.right_neutral mult_zero_left of_nat_0 zero_less_Suc)
    ultimately show ?thesis using write_pte(3) [OF wf1 _ _ w(1)] v1 at(3) by metis
  qed
  have "f \<notin> set fs" "set (f # fs) \<subseteq> frames (kernel_pool s) - used_frames (kernel_pool s)"
    "used_frames (kernel_pool s') = used_frames (kernel_pool s) \<union> set (f # fs)"
    using s'(4,5) fr by auto
  moreover have "length (f # fs) = Suc n" "distinct (f # fs)" using s'(2,3) \<open>f \<notin> set fs\<close> by simp_all
  ultimately show ?case using run s'(6,7,8) trans other by blast
qed

text \<open>
  C22. \<^verbatim>\<open>malloc_page(PF_KERNEL, n)\<close> works: when \<^verbatim>\<open>bitmap_scan\<close> finds \<open>n\<close> free virtual pages and the pool has
  \<open>n\<close> free frames, it returns the address of the first page, every page translates to a frame of its
  own that was free, the bits of exactly these pages are set, and no other translation changes.
\<close>

theorem malloc_page_maps:
  assumes "tables_wf s" and "wf_pools s" and "phy_addr_start (kernel_pool s) \<noteq> 0"
    and "0 < n" and "n < 3840" and "bitmap_scan (vaddr_bitmap (kernel_vaddr s)) (unat n) = Inr (int b)"
    and "backed (vaddr_bitmap (kernel_vaddr s)) (b + unat n - 1)"
    and "v = vaddr_start (kernel_vaddr s) + of_nat b * PG_SIZE" and "v \<noteq> 0" and "mappable s v (unat n)"
    and "unat n \<le> card (frames (kernel_pool s) - used_frames (kernel_pool s))"
  shows "\<exists>s' fs. malloc_page PF_KERNEL n s = Inr (v, s') \<and> length fs = unat n \<and> distinct fs
    \<and> set fs \<subseteq> frames (kernel_pool s) - used_frames (kernel_pool s)
    \<and> used_frames (kernel_pool s') = used_frames (kernel_pool s) \<union> set fs \<and> tables_wf s' \<and> wf_pools s'
    \<and> (\<forall>i < unat n. \<forall>w. page w = page (v + of_nat i * PG_SIZE) \<longrightarrow> walk s' w = Some (fs ! i + (w AND 0xfff)))
    \<and> (\<forall>w. PDE_IDX w \<noteq> 1023 \<longrightarrow> (\<forall>i < unat n. \<not> aliases (v + of_nat i * PG_SIZE) w) \<longrightarrow> walk s' w = walk s w)
    \<and> (\<forall>j. used (vaddr_bitmap (kernel_vaddr s')) j
        = (used (vaddr_bitmap (kernel_vaddr s)) j \<or> b \<le> j \<and> j < b + unat n))"
proof -
  let ?m = "vaddr_bitmap (kernel_vaddr s)"
  from bitmap_set_range_backed [of "unat n" ?m b 1] assms(7) obtain m where
    m: "bitmap_set_range ?m b (unat n) 1 = Inr m"
      "\<forall>j. used m j = (if b \<le> j \<and> j < b + unat n then True else used ?m j)" by auto
  let ?s = "set_kernel_vaddr m s"
  have g: "vaddr_get PF_KERNEL n s = Inr (v, ?s)"
    using assms(6,8) m(1) by (simp add: vaddr_get_def Let_def)
  have at: "pde_at ?s w = pde_at s w" "pte_at ?s w = pte_at s w" "walk ?s w = walk s w" "pmem ?s = pmem s" for w
    by (simp_all add: set_kernel_vaddr_def pde_at_def pte_at_def walk_def)
  have k: "kernel_pool ?s = kernel_pool s" "user_pool ?s = user_pool s" "vaddr_bitmap (kernel_vaddr ?s) = m"
    by (simp_all add: set_kernel_vaddr_def)
  have "tables_wf ?s" by (rule tables_wf_cong [OF assms(1)]) (simp_all add: set_kernel_vaddr_def)
  moreover have "wf_pools ?s" using assms(2) by (simp add: wf_pools_def k)
  moreover have "mappable ?s v (unat n)" using assms(10) unfolding mappable_def at .
  ultimately obtain s' fs where
    s': "map_pages PF_KERNEL (unat n) v ?s = Inr (True, s')" "length fs = unat n" "distinct fs"
    "set fs \<subseteq> frames (kernel_pool s) - used_frames (kernel_pool s)"
    "used_frames (kernel_pool s') = used_frames (kernel_pool s) \<union> set fs" "tables_wf s'" "wf_pools s'"
    "kernel_vaddr s' = kernel_vaddr ?s"
    "\<forall>i < unat n. \<forall>w. page w = page (v + of_nat i * PG_SIZE) \<longrightarrow> walk s' w = Some (fs ! i + (w AND 0xfff))"
    "\<forall>w. PDE_IDX w \<noteq> 1023 \<longrightarrow> (\<forall>i < unat n. \<not> aliases (v + of_nat i * PG_SIZE) w) \<longrightarrow> walk s' w = walk s w"
    using map_pages_kernel [of ?s v "unat n"] assms(3,11) unfolding k at by blast
  have "malloc_page PF_KERNEL n s = Inr (v, s')"
    using g s'(1) assms(4,5,9) by (simp add: malloc_page_def)
  moreover have "used (vaddr_bitmap (kernel_vaddr s')) j = (used ?m j \<or> b \<le> j \<and> j < b + unat n)" for j
    using m(2) by (auto simp: s'(8) k(3))
  ultimately show ?thesis using s'(2-7,9,10) by blast
qed


section \<open>The heap on a concrete memory\<close>

definition heap_kernel :: kernel where
  "heap_kernel = boot_threads\<lparr>pmem := boot_pmem(0x101004 := 0x5007, 0x5000 := 0xc0001800, 0x5800 := 64)\<rparr>"

lemma arena_blocks_fit_witness:
  "\<exists>b c. arena2block 0xc0001000 0 heap_kernel = Inr b \<and> arena2block 0xc0001000 62 heap_kernel = Inr c
    \<and> block2arena b = 0xc0001000 \<and> (unat b + 64 \<le> unat c \<or> unat c + 64 \<le> unat b)"
proof -
  have c: "cr3 heap_kernel = 0x100000" by (simp add: heap_kernel_def boot_threads_def vm.extend_def boot_vm_def)
  have m: "pmem heap_kernel = boot_pmem(0x101004 := 0x5007, 0x5000 := 0xc0001800, 0x5800 := 64)"
    by (simp add: heap_kernel_def)
  have l: "load 0xc0001000 heap_kernel = Inr 0xc0001800" "load 0xc0001800 heap_kernel = Inr 64"
    by (simp_all add: load_def walk_def pde_at_def pte_at_def c m boot_pmem_def PDE_IDX_def PTE_IDX_def page_def present_def)
  have "aligned 0xc0001000" by (simp add: aligned_def)
  from arena_blocks_fit [OF this l, of 0 62] show ?thesis
    by (auto simp: class_sizes_def PG_SIZE_def sizeof_arena_def)
qed

lemma boot_threads_vm:
  "pmem boot_threads = boot_pmem" "cr3 boot_threads = 0x100000" "kernel_pool boot_threads = kernel_pool boot_vm"
  "user_pool boot_threads = user_pool boot_vm" "kernel_vaddr boot_threads = kernel_vaddr boot_vm"
  by (simp_all add: boot_threads_def vm.extend_def boot_vm_def)

lemma boot_mappable: "mappable boot_threads 0xc0100000 2"
proof -
  have x: "PDE_IDX 0xc0100000 = 768" "PDE_IDX 0xc0101000 = 768" "PTE_IDX 0xc0100000 = 256" "PTE_IDX 0xc0101000 = 257"
    by (simp_all add: PDE_IDX_def PTE_IDX_def)
  have e: "walk boot_threads 0xc0100000 = None \<and> present (pmem boot_threads (pde_at boot_threads 0xc0100000))"
    "walk boot_threads 0xc0101000 = None \<and> present (pmem boot_threads (pde_at boot_threads 0xc0101000))"
    by (simp_all add: walk_def pde_at_def pte_at_def boot_threads_vm boot_pmem_def x page_def present_def)
  have n: "\<not> aliases 0xc0100000 0xc0101000" "\<not> aliases 0xc0101000 0xc0100000" by (simp_all add: aliases_def x)
  have a: "(0xc0100000 :: u32) + of_nat 0 * PG_SIZE = 0xc0100000" "(0xc0100000 :: u32) + of_nat 1 * PG_SIZE = 0xc0101000"
    by (simp_all add: PG_SIZE_def)
  have i: "i = 0 \<or> i = 1" if "i < 2" for i :: nat using that by auto
  have p: "PDE_IDX 0xc0100000 \<noteq> 1023" "PDE_IDX 0xc0101000 \<noteq> 1023" by (simp_all add: x)
  show ?thesis unfolding mappable_def Let_def using i e n p a by metis
qed

lemma malloc_page_maps_witness:
  "\<exists>s' f g. malloc_page PF_KERNEL 2 boot_threads = Inr (0xc0100000, s') \<and> f \<noteq> g
    \<and> walk s' 0xc0100004 = Some (f + 4) \<and> walk s' 0xc0101004 = Some (g + 4)"
proof -
  let ?k = boot_threads and ?P = "kernel_pool boot_vm"
  have wf: "tables_wf ?k"
    using boot_tables_wf by (simp add: tables_wf_def self_mapped_def boot_threads_vm) (simp add: boot_vm_def)
  have pools: "wf_pools ?k" using boot_pools by (simp add: wf_pools_def boot_threads_vm)
  have c: "frame_count ?P = 8" by (simp add: boot_vm_def frame_count_def)
  have u: "used_frames ?P = {}" by (auto simp: boot_vm_def used_frames_def frame_count_def used_def)
  have "inj_on (frame ?P) {i. i < 8}"
    using frame_inj [of ?P] boot_pools c by (auto simp: wf_pools_def inj_on_def)
  then have "card (frames ?P) = 8" unfolding frames_def c by (simp add: card_image)
  then have room: "unat (2 :: u32) \<le> card (frames (kernel_pool ?k) - used_frames (kernel_pool ?k))"
    by (simp add: boot_threads_vm u)
  have va: "kernel_vaddr ?k = \<lparr>vaddr_bitmap = \<lparr>btmp_bytes_len = 1, bits = [0]\<rparr>, vaddr_start = 0xc0100000\<rparr>"
    by (simp add: boot_threads_vm boot_vm_def K_HEAP_START_def)
  have "bitmap_scan \<lparr>btmp_bytes_len = 1, bits = [0]\<rparr> 2 = Inr 0" by code_simp
  then have sc: "bitmap_scan (vaddr_bitmap (kernel_vaddr ?k)) (unat (2 :: u32)) = Inr (int 0)" by (simp add: va)
  have p0: "phy_addr_start (kernel_pool ?k) \<noteq> 0" by (simp add: boot_threads_vm boot_vm_def)
  have "backed (vaddr_bitmap (kernel_vaddr ?k)) (0 + unat (2 :: u32) - 1)" by (simp add: va backed_def)
  moreover have "(0xc0100000 :: u32) = vaddr_start (kernel_vaddr ?k) + of_nat 0 * PG_SIZE" by (simp add: va)
  moreover have "mappable ?k 0xc0100000 (unat (2 :: u32))" using boot_mappable by simp
  ultimately obtain s' fs where
    s': "malloc_page PF_KERNEL 2 ?k = Inr (0xc0100000, s')" "length fs = 2" "distinct fs"
    "\<forall>i < 2. \<forall>w. page w = page (0xc0100000 + of_nat i * PG_SIZE) \<longrightarrow> walk s' w = Some (fs ! i + (w AND 0xfff))"
    using malloc_page_maps [where v = "0xc0100000", OF wf pools p0 _ _ sc _ _ _ _ room] by auto
  have "walk s' 0xc0100004 = Some (fs ! 0 + 4)" "walk s' 0xc0101004 = Some (fs ! 1 + 4)"
    using s'(4) [rule_format, of 0 "0xc0100004"] s'(4) [rule_format, of 1 "0xc0101004"]
    by (simp_all add: page_def PG_SIZE_def)
  moreover have "fs ! 0 \<noteq> fs ! 1" using s'(2,3) by (simp add: nth_eq_iff_index_eq)
  ultimately show ?thesis using s'(1) by blast
qed

end
