(* ===== verification/Process.thy ===== *)
theory Process
  imports Malloc
begin

text \<open>
  Making threads and processes: \<^verbatim>\<open>allocate_pid\<close>, \<^verbatim>\<open>thread_create\<close>, \<^verbatim>\<open>init_thread\<close>, \<^verbatim>\<open>thread_start\<close> and
  \<^verbatim>\<open>thread_init\<close> of \<^verbatim>\<open>thread/thread.c\<close>, \<^verbatim>\<open>userprog/process.c\<close>, and \<^verbatim>\<open>userprog/fork.c\<close>.

  The words of a thread's kernel stack are \<open>stk\<close>, the fields of its control block \<open>tasks\<close>; the
  rest of memory is reached through the page tables. A call that has to wait for a lock returns
  \<open>None\<close> and what follows it is cut off (\<open>wbind\<close>). Code addresses (\<^verbatim>\<open>kernel_thread\<close>, \<^verbatim>\<open>intr_exit\<close>,
  \<^verbatim>\<open>start_process\<close>, \<^verbatim>\<open>idle\<close>, \<^verbatim>\<open>init\<close>) and the addresses of locks are in the record \<open>links\<close>: the
  linker chooses them.
\<close>

section \<open>Threads\<close>

record links =
  kernel_thread :: u32
  intr_exit :: u32
  start_process_code :: u32
  idle_code :: u32
  init_code :: u32
  pid_lock :: u32
  pools :: pool_locks

definition wbind :: "('r option \<times> kernel) res \<Rightarrow> ('r \<Rightarrow> kernel \<Rightarrow> ('q option \<times> kernel) res) \<Rightarrow> ('q option \<times> kernel) res" where
  "wbind m f = rbind m (\<lambda>(r, s). case r of None \<Rightarrow> Inr (None, s) | Some x \<Rightarrow> f x s)"

definition allocate_pid :: "links \<Rightarrow> u32 \<Rightarrow> kernel \<Rightarrow> (u16 option \<times> kernel) res" where
  "allocate_pid K ret s =
     wbind (with_lock (pid_lock K) ret (\<lambda>s. Inr ((), s\<lparr>next_pid := next_pid s + 1\<rparr>)) s) (\<lambda>_ s.
     Inr (Some (next_pid s), s))"

definition fork_pid :: "links \<Rightarrow> u32 \<Rightarrow> kernel \<Rightarrow> (u16 option \<times> kernel) res" where
  "fork_pid K ret s = allocate_pid K ret s"

text \<open>
  \<^verbatim>\<open>self_kstack\<close> is a pointer to words: the code's \<^verbatim>\<open>-= sizeof\<close> and \<^verbatim>\<open>+= sizeof\<close> move it by four
  times the size of the structure.
\<close>

definition sizeof_intr_stack :: u32 where "sizeof_intr_stack = 76"
definition sizeof_thread_stack :: u32 where "sizeof_thread_stack = 32"

definition move_kstack :: "u32 \<Rightarrow> u32 \<Rightarrow> kernel \<Rightarrow> kernel" where
  "move_kstack t words s = upd_task t (\<lambda>x. x\<lparr>self_kstack := self_kstack x + words * 4\<rparr>) s"

definition poke :: "u32 \<Rightarrow> u32 \<Rightarrow> kernel \<Rightarrow> kernel" where
  "poke a x s = s\<lparr>stk := (stk s)(a := x)\<rparr>"

definition thread_create :: "links \<Rightarrow> u32 \<Rightarrow> u32 \<Rightarrow> u32 \<Rightarrow> kernel \<Rightarrow> kernel" where
  "thread_create K pthread function func_arg s =
     (let s = move_kstack pthread (- sizeof_intr_stack) s;
          s = move_kstack pthread (- sizeof_thread_stack) s;
          kthread_stack = self_kstack (tasks s pthread);
          s = poke (kthread_stack + 16) (kernel_thread K) s;
          s = poke (kthread_stack + 24) function s;
          s = poke (kthread_stack + 28) func_arg s
      in poke kthread_stack 0 (poke (kthread_stack + 4) 0 (poke (kthread_stack + 12) 0
           (poke (kthread_stack + 8) 0 s))))"

definition zero_task :: task_struct where
  "zero_task = \<lparr>self_kstack = 0, pid = 0, status = TASK_RUNNING, task_name = [], priority = 0, ticks = 0,
     elapsed_ticks = 0, fd_table = replicate 8 0, pgdir = 0,
     userprog_vaddr = \<lparr>vaddr_bitmap = \<lparr>btmp_bytes_len = 0, bits = []\<rparr>, vaddr_start = 0\<rparr>,
     cwd_inode_nr = 0, parent_pid = 0, stack_magic = 0\<rparr>"

text \<open>
  \<^verbatim>\<open>memset(pthread, 0, sizeof(*pthread))\<close>: the block's fields, the list nodes among them and the
  words of \<^verbatim>\<open>u_block_desc\<close>.
\<close>

definition sizeof_task_struct :: u32 where "sizeof_task_struct = 280"

primrec zero_words :: "nat \<Rightarrow> u32 \<Rightarrow> kernel \<Rightarrow> kernel res" where
  "zero_words 0 a s = Inr s"
| "zero_words (Suc n) a s = rbind (store a 0 s) (zero_words n (a + 4))"

definition clear_task :: "u32 \<Rightarrow> kernel \<Rightarrow> kernel res" where
  "clear_task t s =
     zero_words (7 * 6) (u_block_desc t)
       (s\<lparr>tasks := (tasks s)(t := zero_task),
          prv := (\<lambda>a. if a - t < sizeof_task_struct then 0 else prv s a),
          nxt := (\<lambda>a. if a - t < sizeof_task_struct then 0 else nxt s a)\<rparr>)"

text \<open>A name that does not fit into \<^verbatim>\<open>name[16]\<close> with its terminator is written out of bounds by \<^verbatim>\<open>strcpy\<close>.\<close>

definition init_thread :: "links \<Rightarrow> u32 \<Rightarrow> u32 \<Rightarrow> u8 list \<Rightarrow> u8 \<Rightarrow> kernel \<Rightarrow> (unit option \<times> kernel) res" where
  "init_thread K ret pthread name prio s =
     rbind (clear_task pthread s) (\<lambda>s.
      wbind (allocate_pid K ret s) (\<lambda>p s.
         let s = upd_task pthread (\<lambda>t. t\<lparr>pid := p\<rparr>) s
         in rbind (guard Out_of_bounds (length name < 16)) (\<lambda>_.
            let s = upd_task pthread (\<lambda>t. t\<lparr>task_name := name\<rparr>) s;
                s = upd_task pthread (\<lambda>t. t\<lparr>status := (if pthread = main_thread s then TASK_RUNNING else TASK_READY)\<rparr>) s;
                s = upd_task pthread (\<lambda>t. t\<lparr>self_kstack := pthread + PG_SIZE, priority := prio, ticks := prio,
                      elapsed_ticks := 0, pgdir := 0\<rparr>) s;
                s = upd_task pthread (\<lambda>t. t\<lparr>fd_table := [0, 1, 2] @ replicate 5 (- 1)\<rparr>) s;
                s = upd_task pthread (\<lambda>t. t\<lparr>cwd_inode_nr := 0, parent_pid := - 1, stack_magic := 0x12345678\<rparr>) s
            in Inr (Some (), s))))"

text \<open>Putting a new thread into the two lists.\<close>

definition enlist :: "u32 \<Rightarrow> kernel \<Rightarrow> kernel res" where
  "enlist t s =
     rbind (elem_find (thread_ready_list s) (general_tag t) s) (\<lambda>found.
     rbind (c_assert (\<not> found)) (\<lambda>_.
     let s = list_append (thread_ready_list s) (general_tag t) s
     in rbind (elem_find (thread_all_list s) (all_list_tag t) s) (\<lambda>found.
        rbind (c_assert (\<not> found)) (\<lambda>_.
        Inr (list_append (thread_all_list s) (all_list_tag t) s)))))"

definition thread_start :: "links \<Rightarrow> u32 \<Rightarrow> u8 list \<Rightarrow> u8 \<Rightarrow> u32 \<Rightarrow> u32 \<Rightarrow> kernel \<Rightarrow> (u32 option \<times> kernel) res" where
  "thread_start K ret name prio function func_arg s =
     rbind (get_kernel_pages 1 s) (\<lambda>(thread, s).
     wbind (init_thread K ret thread name prio s) (\<lambda>_ s.
     let s = thread_create K thread function func_arg s
     in rbind (enlist thread s) (\<lambda>s. Inr (Some thread, s))))"

definition make_main_thread :: "links \<Rightarrow> u32 \<Rightarrow> kernel \<Rightarrow> (unit option \<times> kernel) res" where
  "make_main_thread K ret s =
     (let s = s\<lparr>main_thread := running_thread s\<rparr>
      in wbind (init_thread K ret (main_thread s) (map (of_nat \<circ> of_char) ''main'') 31 s) (\<lambda>_ s.
         rbind (elem_find (thread_all_list s) (all_list_tag (main_thread s)) s) (\<lambda>found.
         rbind (c_assert (\<not> found)) (\<lambda>_.
         Inr (Some (), list_append (thread_all_list s) (all_list_tag (main_thread s)) s)))))"

section \<open>Processes\<close>

definition USER_STACK3_VADDR :: u32 where "USER_STACK3_VADDR = 0xc0000000 - 0x1000"
definition USER_VADDR_START :: u32 where "USER_VADDR_START = 0x8048000"
definition default_prio :: u8 where "default_prio = 31"
definition SELECTOR_U_CODE :: u32 where "SELECTOR_U_CODE = push_bit 3 5 + push_bit 2 0 + 3"
definition SELECTOR_U_DATA :: u32 where "SELECTOR_U_DATA = push_bit 3 6 + push_bit 2 0 + 3"
definition EFLAGS_MBS :: u32 where "EFLAGS_MBS = push_bit 1 1"
definition EFLAGS_IF_1 :: u32 where "EFLAGS_IF_1 = push_bit 9 1"
definition EFLAGS_IOPL_0 :: u32 where "EFLAGS_IOPL_0 = push_bit 12 0"

text \<open>
  \<^verbatim>\<open>start_process\<close>: the fields of \<^verbatim>\<open>struct intr_stack\<close> in its order, 4 bytes each; it ends with a
  jump to \<^verbatim>\<open>intr_exit\<close> on that stack.
\<close>

definition start_process :: "links \<Rightarrow> u32 \<Rightarrow> u32 \<Rightarrow> kernel \<Rightarrow> (unit option \<times> kernel) res" where
  "start_process K ret filename s =
     (let cur = running_thread s;
          s = move_kstack cur sizeof_thread_stack s;
          proc_stack = self_kstack (tasks s cur);
          s = poke (proc_stack + 4) 0 (poke (proc_stack + 8) 0 (poke (proc_stack + 12) 0 (poke (proc_stack + 16) 0 s)));
          s = poke (proc_stack + 20) 0 (poke (proc_stack + 24) 0 (poke (proc_stack + 28) 0 (poke (proc_stack + 32) 0 s)));
          s = poke (proc_stack + 36) 0 s;
          s = poke (proc_stack + 40) SELECTOR_U_DATA (poke (proc_stack + 44) SELECTOR_U_DATA
                (poke (proc_stack + 48) SELECTOR_U_DATA s));
          s = poke (proc_stack + 56) filename s;
          s = poke (proc_stack + 60) SELECTOR_U_CODE s;
          s = poke (proc_stack + 64) (EFLAGS_IOPL_0 OR EFLAGS_IF_1 OR EFLAGS_MBS) s
      in wbind (get_a_page (pools K) ret PF_USER USER_STACK3_VADDR s) (\<lambda>p s.
         let s = poke (proc_stack + 68) (p + PG_SIZE) s;
             s = poke (proc_stack + 72) SELECTOR_U_DATA s
         in Inr (Some (), s\<lparr>esp := proc_stack, eip := intr_exit K\<rparr>)))"

primrec copy_words :: "nat \<Rightarrow> u32 \<Rightarrow> u32 \<Rightarrow> kernel \<Rightarrow> kernel res" where
  "copy_words 0 dst src s = Inr s"
| "copy_words (Suc n) dst src s =
     rbind (load src s) (\<lambda>x. rbind (store dst x s) (copy_words n (dst + 4) (src + 4)))"

definition create_page_dir :: "kernel \<Rightarrow> (u32 \<times> kernel) res" where
  "create_page_dir s =
     rbind (get_kernel_pages 1 s) (\<lambda>(page_dir_vaddr, s).
     if page_dir_vaddr = 0 then Inr (0, s)
     else rbind (copy_words 256 (page_dir_vaddr + 0x300 * 4) (0xfffff000 + 0x300 * 4) s) (\<lambda>s.
          rbind (addr_v2p page_dir_vaddr s) (\<lambda>new_page_dir_phy_addr.
          rbind (store (page_dir_vaddr + 1023 * 4) (new_page_dir_phy_addr OR PG_US_U OR PG_RW_W OR PG_P_1) s) (\<lambda>s.
          Inr (page_dir_vaddr, s)))))"

text \<open>The bitmap's memory is the zeroed pages it gets.\<close>

definition create_user_vaddr_bitmap :: "u32 \<Rightarrow> kernel \<Rightarrow> kernel res" where
  "create_user_vaddr_bitmap user_prog s =
     (let s = upd_task user_prog (\<lambda>t. t\<lparr>userprog_vaddr := (userprog_vaddr t)\<lparr>vaddr_start := USER_VADDR_START\<rparr>\<rparr>) s;
          bitmap_bytes_len = (0xc0000000 - USER_VADDR_START) div PG_SIZE div 8;
          pg_cnt = DIV_ROUND_UP bitmap_bytes_len PG_SIZE
      in rbind (get_kernel_pages pg_cnt s) (\<lambda>(p, s).
         rbind (bitmap_init \<lparr>btmp_bytes_len = unat bitmap_bytes_len, bits = replicate (unat pg_cnt * 4096) 0\<rparr>) (\<lambda>m.
         Inr (set_vaddr user_prog m s))))"

definition process_execute :: "links \<Rightarrow> u32 \<Rightarrow> u32 \<Rightarrow> u8 list \<Rightarrow> kernel \<Rightarrow> (unit option \<times> kernel) res" where
  "process_execute K ret filename name s =
     rbind (get_kernel_pages 1 s) (\<lambda>(thread, s).
     wbind (init_thread K ret thread name default_prio s) (\<lambda>_ s.
     rbind (create_user_vaddr_bitmap thread s) (\<lambda>s.
     let s = thread_create K thread (start_process_code K) filename s
     in rbind (create_page_dir s) (\<lambda>(d, s).
        let s = upd_task thread (\<lambda>t. t\<lparr>pgdir := d\<rparr>) s
        in rbind (block_desc_init (u_block_desc thread) s) (\<lambda>s.
           let (old_status, s) = intr_disable s
           in rbind (enlist thread s) (\<lambda>s. Inr (Some (), snd (intr_set_status old_status s))))))))"

definition thread_init :: "links \<Rightarrow> u32 \<Rightarrow> kernel \<Rightarrow> (unit option \<times> kernel) res" where
  "thread_init K ret s =
     (let s = list_init (thread_ready_list s) s;
          s = list_init (thread_all_list s) s;
          s = lock_init (pid_lock K) s
      in wbind (process_execute K ret (init_code K) (map (of_nat \<circ> of_char) ''init'') s) (\<lambda>_ s.
         wbind (make_main_thread K ret s) (\<lambda>_ s.
         wbind (thread_start K ret (map (of_nat \<circ> of_char) ''idle'') 10 (idle_code K) 0 s) (\<lambda>t s.
         Inr (Some (), s\<lparr>idle_thread := t\<rparr>)))))"

section \<open>Fork\<close>

text \<open>\<^verbatim>\<open>memcpy(child, parent, PG_SIZE)\<close>: the control block, its list nodes, the kernel stack and the other words.\<close>

definition copy_task_page :: "u32 \<Rightarrow> u32 \<Rightarrow> kernel \<Rightarrow> kernel res" where
  "copy_task_page child parent s =
     rbind (copy_words 1024 child parent s) (\<lambda>s.
     Inr (s\<lparr>tasks := (tasks s)(child := tasks s parent),
       stk := (\<lambda>a. if page a = child then stk s (a - child + parent) else stk s a),
       prv := (\<lambda>a. if page a = child then prv s (a - child + parent) else prv s a),
       nxt := (\<lambda>a. if page a = child then nxt s (a - child + parent) else nxt s a)\<rparr>))"

definition copy_pcb_vaddrbitmap_stack0 :: "links \<Rightarrow> u32 \<Rightarrow> u32 \<Rightarrow> u32 \<Rightarrow> kernel \<Rightarrow> (unit option \<times> kernel) res" where
  "copy_pcb_vaddrbitmap_stack0 K ret child_thread parent_thread s =
     rbind (copy_task_page child_thread parent_thread s) (\<lambda>s.
     wbind (fork_pid K ret s) (\<lambda>p s.
     let s = upd_task child_thread (\<lambda>t. t\<lparr>pid := p\<rparr>) s;
         s = upd_task child_thread (\<lambda>t. t\<lparr>elapsed_ticks := 0, status := TASK_READY\<rparr>) s;
         s = upd_task child_thread (\<lambda>t. t\<lparr>ticks := priority t\<rparr>) s;
         s = upd_task child_thread (\<lambda>t. t\<lparr>parent_pid := pid (tasks s parent_thread)\<rparr>) s;
         s = s\<lparr>prv := (prv s)(general_tag child_thread := 0), nxt := (nxt s)(general_tag child_thread := 0)\<rparr>;
         s = s\<lparr>prv := (prv s)(all_list_tag child_thread := 0), nxt := (nxt s)(all_list_tag child_thread := 0)\<rparr>
     in rbind (block_desc_init (u_block_desc child_thread) s) (\<lambda>s.
        let bitmap_pg_cnt = DIV_ROUND_UP ((0xc0000000 - USER_VADDR_START) div PG_SIZE div 8) PG_SIZE
        in rbind (get_kernel_pages bitmap_pg_cnt s) (\<lambda>(vaddr_btmp, s).
           rbind (c_assert (length (task_name (tasks s child_thread)) < 11)) (\<lambda>_.
           let s = upd_task child_thread (\<lambda>t. t\<lparr>task_name := task_name t @ map (of_nat \<circ> of_char) ''_fork''\<rparr>) s
           in Inr (Some (), s))))))"

text \<open>One page of \<^verbatim>\<open>copy_body_stack3\<close>.\<close>

definition copy_user_page :: "links \<Rightarrow> u32 \<Rightarrow> u32 \<Rightarrow> u32 \<Rightarrow> u32 \<Rightarrow> u32 \<Rightarrow> kernel \<Rightarrow> (unit option \<times> kernel) res" where
  "copy_user_page K ret child_thread parent_thread buf_page prog_vaddr s =
     rbind (copy_words 1024 buf_page prog_vaddr s) (\<lambda>s.
     rbind (page_dir_activate child_thread s) (\<lambda>s.
     wbind (get_a_page_without_opvaddrbitmap (pools K) ret PF_USER prog_vaddr s) (\<lambda>_ s.
     rbind (copy_words 1024 prog_vaddr buf_page s) (\<lambda>s.
     rbind (page_dir_activate parent_thread s) (\<lambda>s. Inr (Some (), s))))))"

text \<open>The two loops over the bytes and the bits of the parent's bitmap; \<open>n\<close> bits are left.\<close>

primrec copy_bits :: "links \<Rightarrow> u32 \<Rightarrow> u32 \<Rightarrow> u32 \<Rightarrow> u32 \<Rightarrow> bitmap \<Rightarrow> u32 \<Rightarrow> nat \<Rightarrow> nat \<Rightarrow> kernel \<Rightarrow> (unit option \<times> kernel) res" where
  "copy_bits K ret child parent buf_page btmp vstart idx_byte 0 s = Inr (Some (), s)"
| "copy_bits K ret child parent buf_page btmp vstart idx_byte (Suc n) s =
     (let idx_bit = 8 - Suc n
      in rbind (aread (bits btmp) idx_byte) (\<lambda>b.
         wbind (if push_bit idx_bit 1 AND b \<noteq> 0
                then copy_user_page K ret child parent buf_page (of_nat (idx_byte * 8 + idx_bit) * PG_SIZE + vstart) s
                else Inr (Some (), s)) (\<lambda>_ s.
         copy_bits K ret child parent buf_page btmp vstart idx_byte n s)))"

primrec copy_bytes :: "links \<Rightarrow> u32 \<Rightarrow> u32 \<Rightarrow> u32 \<Rightarrow> u32 \<Rightarrow> bitmap \<Rightarrow> u32 \<Rightarrow> nat \<Rightarrow> kernel \<Rightarrow> (unit option \<times> kernel) res" where
  "copy_bytes K ret child parent buf_page btmp vstart 0 s = Inr (Some (), s)"
| "copy_bytes K ret child parent buf_page btmp vstart (Suc n) s =
     (let idx_byte = btmp_bytes_len btmp - Suc n
      in rbind (aread (bits btmp) idx_byte) (\<lambda>b.
         wbind (if b \<noteq> 0 then copy_bits K ret child parent buf_page btmp vstart idx_byte 8 s
                else Inr (Some (), s)) (\<lambda>_ s.
         copy_bytes K ret child parent buf_page btmp vstart n s)))"

definition copy_body_stack3 :: "links \<Rightarrow> u32 \<Rightarrow> u32 \<Rightarrow> u32 \<Rightarrow> u32 \<Rightarrow> kernel \<Rightarrow> (unit option \<times> kernel) res" where
  "copy_body_stack3 K ret child_thread parent_thread buf_page s =
     (let va = userprog_vaddr (tasks s parent_thread); btmp = vaddr_bitmap va
      in copy_bytes K ret child_thread parent_thread buf_page btmp (vaddr_start va) (btmp_bytes_len btmp) s)"

definition build_child_stack :: "links \<Rightarrow> u32 \<Rightarrow> kernel \<Rightarrow> kernel" where
  "build_child_stack K child_thread s =
     (let intr_0_stack = child_thread + PG_SIZE - sizeof_intr_stack;
          s = poke (intr_0_stack + 32) 0 s;
          ret_addr_in_thread_stack = intr_0_stack - 4;
          esi_ptr_in_thread_stack = intr_0_stack - 8;
          edi_ptr_in_thread_stack = intr_0_stack - 12;
          ebx_ptr_in_thread_stack = intr_0_stack - 16;
          ebp_ptr_in_thread_stack = intr_0_stack - 20;
          s = poke ret_addr_in_thread_stack (intr_exit K) s;
          s = poke ebp_ptr_in_thread_stack 0 (poke ebx_ptr_in_thread_stack 0
                (poke edi_ptr_in_thread_stack 0 (poke esi_ptr_in_thread_stack 0 s)))
      in upd_task child_thread (\<lambda>t. t\<lparr>self_kstack := ebp_ptr_in_thread_stack\<rparr>) s)"

text \<open>
  The open counts of the inodes of the open file table: \<open>inode_of\<close> gives the inode a global
  descriptor refers to.
\<close>

definition MAX_FILE_OPEN :: u32 where "MAX_FILE_OPEN = 32"

fun update_inode_open_cnts :: "(u32 \<Rightarrow> 'i) \<Rightarrow> u32 list \<Rightarrow> ('i \<Rightarrow> u32) \<Rightarrow> ('i \<Rightarrow> u32) res" where
  "update_inode_open_cnts inode_of [] cnts = Inr cnts"
| "update_inode_open_cnts inode_of (global_fd # fds) cnts =
     rbind (c_assert (sint global_fd < sint MAX_FILE_OPEN)) (\<lambda>_.
     update_inode_open_cnts inode_of fds
       (if global_fd \<noteq> - 1 then cnts(inode_of global_fd := cnts (inode_of global_fd) + 1) else cnts))"

definition copy_process :: "links \<Rightarrow> u32 \<Rightarrow> u32 \<Rightarrow> (u32 \<Rightarrow> 'i) \<Rightarrow> u32 \<Rightarrow> u32 \<Rightarrow> ('i \<Rightarrow> u32) \<Rightarrow> kernel
    \<Rightarrow> ((bool \<times> ('i \<Rightarrow> u32)) option \<times> kernel) res" where
  "copy_process K ret var inode_of child_thread parent_thread cnts s =
     rbind (get_kernel_pages 1 s) (\<lambda>(buf_page, s).
     if buf_page = 0 then Inr (Some (False, cnts), s)
     else wbind (copy_pcb_vaddrbitmap_stack0 K ret child_thread parent_thread s) (\<lambda>_ s.
          rbind (create_page_dir s) (\<lambda>(d, s).
          let s = upd_task child_thread (\<lambda>t. t\<lparr>pgdir := d\<rparr>) s
          in if d = 0 then Inr (Some (False, cnts), s)
             else wbind (copy_body_stack3 K ret child_thread parent_thread buf_page s) (\<lambda>_ s.
                  let s = build_child_stack K child_thread s
                  in rbind (update_inode_open_cnts inode_of (drop 3 (fd_table (tasks s child_thread))) cnts) (\<lambda>cnts.
                     rbind (mfree_page var PF_KERNEL buf_page 1 s) (\<lambda>s. Inr (Some (True, cnts), s)))))))"

definition sys_fork :: "links \<Rightarrow> u32 \<Rightarrow> u32 \<Rightarrow> (u32 \<Rightarrow> 'i) \<Rightarrow> ('i \<Rightarrow> u32) \<Rightarrow> kernel
    \<Rightarrow> ((u16 \<times> ('i \<Rightarrow> u32)) option \<times> kernel) res" where
  "sys_fork K ret var inode_of cnts s =
     (let parent_thread = running_thread s
      in rbind (get_kernel_pages 1 s) (\<lambda>(child_thread, s).
         if child_thread = 0 then Inr (Some (- 1, cnts), s)
         else rbind (c_assert (INTR_OFF = intr_get_status s \<and> pgdir (tasks s parent_thread) \<noteq> 0)) (\<lambda>_.
              wbind (copy_process K ret var inode_of child_thread parent_thread cnts s) (\<lambda>(ok, cnts) s.
              if \<not> ok then Inr (Some (- 1, cnts), s)
              else rbind (enlist child_thread s) (\<lambda>s.
                   Inr (Some (pid (tasks s child_thread), cnts), s))))))"

end
