(* ===== verification/Fork.thy ===== *)
theory Fork
  imports Process
begin

text \<open>
  The first run of a new thread: where the stack that \<^verbatim>\<open>thread_create\<close>, \<^verbatim>\<open>start_process\<close> and \<^verbatim>\<open>sys_fork\<close>
  build takes the processor. The end of every interrupt, \<^verbatim>\<open>intr_exit\<close> of \<^verbatim>\<open>kernel/kernel.S\<close>, is modelled here
  as the registers it loads.

  The operations on pages, pools and locks change neither the words of the kernel stacks nor the fields of
  the control blocks, up to the address bitmap and the status of a thread that is woken up (\<open>quiet\<close>). There is a lemma per
  operation; the collection \<open>quiet_rules\<close> holds them.
\<close>

section \<open>The way out of an interrupt\<close>

record user_frame =
  u_edi :: u32
  u_esi :: u32
  u_ebp :: u32
  u_ebx :: u32
  u_edx :: u32
  u_ecx :: u32
  u_eax :: u32
  u_gs :: u32
  u_fs :: u32
  u_es :: u32
  u_ds :: u32
  u_eip :: u32
  u_cs :: u32
  u_eflags :: u32
  u_esp :: u32
  u_ss :: u32

text \<open>\<^verbatim>\<open>popad\<close> skips the stack pointer; \<^verbatim>\<open>iretd\<close> to ring 3 pops the last two words.\<close>

definition intr_return :: "kernel \<Rightarrow> user_frame" where
  "intr_return s =
     (let s = s\<lparr>esp := esp s + 4\<rparr>;
          (di, s) = pop_word s; (si, s) = pop_word s; (bp, s) = pop_word s; (_, s) = pop_word s;
          (bx, s) = pop_word s; (dx, s) = pop_word s; (cx, s) = pop_word s; (ax, s) = pop_word s;
          (g, s) = pop_word s; (f, s) = pop_word s; (e, s) = pop_word s; (d, s) = pop_word s;
          s = s\<lparr>esp := esp s + 4\<rparr>;
          (ip, s) = pop_word s; (c, s) = pop_word s; (fl, s) = pop_word s; (sp, s) = pop_word s; (st, s) = pop_word s
      in \<lparr>u_edi = di, u_esi = si, u_ebp = bp, u_ebx = bx, u_edx = dx, u_ecx = cx, u_eax = ax,
          u_gs = g, u_fs = f, u_es = e, u_ds = d, u_eip = ip, u_cs = c, u_eflags = fl, u_esp = sp, u_ss = st\<rparr>)"

lemma intr_return_eq:
  "intr_return s = (let w = \<lambda>k. stk s (esp s + k) in
     \<lparr>u_edi = w 4, u_esi = w 8, u_ebp = w 12, u_ebx = w 20, u_edx = w 24, u_ecx = w 28, u_eax = w 32,
      u_gs = w 36, u_fs = w 40, u_es = w 44, u_ds = w 48, u_eip = w 56, u_cs = w 60, u_eflags = w 64, u_esp = w 68, u_ss = w 72\<rparr>)"
  by (simp add: intr_return_def pop_word_def Let_def) (simp add: add.commute)

text \<open>\<^verbatim>\<open>kernel_thread\<close>: it enables the interrupts and calls its first argument with its second.\<close>

definition kernel_thread_body :: "kernel \<Rightarrow> (u32 \<times> u32) \<times> kernel" where
  "kernel_thread_body s =
     (let function = stk s (esp s + 4); func_arg = stk s (esp s + 8); (_, s) = intr_enable s
      in ((function, func_arg), s\<lparr>eip := function\<rparr>))"

text \<open>\<^verbatim>\<open>idle\<close>: it blocks itself; whenever it runs again it enables the interrupts, halts and starts over.\<close>

definition idle_block :: "u32 \<Rightarrow> kernel \<Rightarrow> kernel res" where
  "idle_block ret s = thread_block TASK_BLOCKED ret s"

definition idle_halt :: "kernel \<Rightarrow> kernel" where
  "idle_halt s = s\<lparr>eflags_if := True\<rparr>"

section \<open>What the kernel's own operations leave alone\<close>

named_theorems quiet_rules

declare seq [quiet_rules]

definition quiet :: "kernel \<Rightarrow> kernel \<Rightarrow> bool" where
  "quiet s s' \<longleftrightarrow> stk s' = stk s \<and> esp s' = esp s \<and> (\<forall>t. \<exists>v st. tasks s' t = (tasks s t)\<lparr>userprog_vaddr := v, status := st\<rparr>
     \<and> (status (tasks s t) = TASK_READY \<longrightarrow> st = TASK_READY))"

lemma task_same: "\<exists>v st. t = t\<lparr>userprog_vaddr := v, status := st\<rparr> \<and> (status t = TASK_READY \<longrightarrow> st = TASK_READY)"
  by (rule exI [of _ "userprog_vaddr t"], rule exI [of _ "status t"]) simp

lemma quiet_refl [simp]: "quiet s s"
  unfolding quiet_def using task_same by blast

lemma quiet_fields [quiet_rules]:
  "quiet s0 s \<Longrightarrow> quiet s0 (s\<lparr>pmem := pm\<rparr>)" "quiet s0 s \<Longrightarrow> quiet s0 (s\<lparr>kernel_pool := kp\<rparr>)"
  "quiet s0 s \<Longrightarrow> quiet s0 (s\<lparr>user_pool := up\<rparr>)" "quiet s0 s \<Longrightarrow> quiet s0 (s\<lparr>kernel_vaddr := kv\<rparr>)"
  "quiet s0 s \<Longrightarrow> quiet s0 (s\<lparr>cr3 := c, tlb := tb\<rparr>)" "quiet s0 s \<Longrightarrow> quiet s0 (s\<lparr>tlb := tb\<rparr>)"
  "quiet s0 s \<Longrightarrow> quiet s0 (s\<lparr>eflags_if := fl\<rparr>)" "quiet s0 s \<Longrightarrow> quiet s0 (s\<lparr>prv := pv, nxt := nx\<rparr>)"
  "quiet s0 s \<Longrightarrow> quiet s0 (s\<lparr>sem_value := sv\<rparr>)" "quiet s0 s \<Longrightarrow> quiet s0 (s\<lparr>lock_holder := lh\<rparr>)"
  "quiet s0 s \<Longrightarrow> quiet s0 (s\<lparr>lock_repeat := lr\<rparr>)" "quiet s0 s \<Longrightarrow> quiet s0 (s\<lparr>next_pid := n\<rparr>)"
  by (simp_all add: quiet_def)

lemma quiet_task:
  assumes "quiet s0 s" and "\<exists>v st. x = (tasks s t)\<lparr>userprog_vaddr := v, status := st\<rparr> \<and> (status (tasks s t) = TASK_READY \<longrightarrow> st = TASK_READY)"
  shows "quiet s0 (s\<lparr>tasks := (tasks s)(t := x)\<rparr>)"
proof -
  have "\<exists>v st. tasks (s\<lparr>tasks := (tasks s)(t := x)\<rparr>) u = (tasks s0 u)\<lparr>userprog_vaddr := v, status := st\<rparr>
      \<and> (status (tasks s0 u) = TASK_READY \<longrightarrow> st = TASK_READY)" for u
  proof (cases "u = t")
    case True
    obtain v st v' st' where "tasks s t = (tasks s0 t)\<lparr>userprog_vaddr := v, status := st\<rparr>" "status (tasks s0 t) = TASK_READY \<longrightarrow> st = TASK_READY"
      "x = (tasks s t)\<lparr>userprog_vaddr := v', status := st'\<rparr>" "status (tasks s t) = TASK_READY \<longrightarrow> st' = TASK_READY"
      using assms unfolding quiet_def by blast
    then show ?thesis using True by (intro exI [of _ v'] exI [of _ st']) auto
  qed (use assms(1) in \<open>simp add: quiet_def\<close>)
  then show ?thesis using assms(1) by (simp add: quiet_def)
qed

lemma quiet_set_vaddr [quiet_rules]: "quiet s0 s \<Longrightarrow> quiet s0 (set_vaddr t m s)" "quiet s0 s \<Longrightarrow> quiet s0 (set_kernel_vaddr m s)"
proof -
  assume q: "quiet s0 s"
  show "quiet s0 (set_vaddr t m s)" unfolding set_vaddr_def
    by (rule quiet_task [OF q], rule exI [of _ "(userprog_vaddr (tasks s t))\<lparr>vaddr_bitmap := m\<rparr>"], rule exI [of _ "status (tasks s t)"]) simp
  show "quiet s0 (set_kernel_vaddr m s)" using q by (simp add: set_kernel_vaddr_def quiet_def)
qed

lemma quiet_ready [quiet_rules]: "quiet s0 s \<Longrightarrow> quiet s0 (s\<lparr>tasks := (tasks s)(t := (tasks s t)\<lparr>status := TASK_READY\<rparr>)\<rparr>)"
  by (rule quiet_task, assumption) (rule exI [of _ "userprog_vaddr (tasks s t)"], rule exI [of _ TASK_READY], simp)

text \<open>Sequencing: the state is the result or its last component; \<open>None\<close> says that the thread waits.\<close>

abbreviation (input) quiet_wait :: "kernel \<Rightarrow> 'r option \<times> kernel \<Rightarrow> bool" where
  "quiet_wait s0 \<equiv> \<lambda>x. fst x \<noteq> None \<longrightarrow> quiet s0 (snd x)"

lemma quiet_result [quiet_rules]:
  "quiet s0 s \<Longrightarrow> returns (quiet s0) (Inr s)"
  "quiet s0 s \<Longrightarrow> returns (\<lambda>x. quiet s0 (snd x)) (Inr (y, s))"
  by simp_all

lemma quiet_bind [quiet_rules]:
  "returns (quiet s0) m1 \<Longrightarrow> (\<And>s. quiet s0 s \<Longrightarrow> returns P (f1 s)) \<Longrightarrow> returns P (rbind m1 f1)"
  "returns (\<lambda>x. quiet s0 (snd x)) m2 \<Longrightarrow> (\<And>x. quiet s0 (snd x) \<Longrightarrow> returns P (f2 x)) \<Longrightarrow> returns P (rbind m2 f2)"
  by (rule returns_rbind; assumption)+

lemma quiet_wbind:
  "returns (quiet_wait s0) m \<Longrightarrow> (\<And>x s. quiet s0 s \<Longrightarrow> returns (quiet_wait s0) (f x s)) \<Longrightarrow> returns (quiet_wait s0) (wbind m f)"
  unfolding wbind_def by (rule returns_rbind, assumption) (auto split: option.split)

section \<open>Pages\<close>

lemma quiet_store [quiet_rules]: "quiet s0 s \<Longrightarrow> returns (quiet s0) (store v x s)"
  by (auto simp: store_def quiet_fields split: option.split)

lemma quiet_clear_words [quiet_rules]: "quiet s0 s \<Longrightarrow> returns (quiet s0) (clear_words v n s)"
  by (induction n arbitrary: v s) (auto intro: quiet_bind quiet_store)

lemma quiet_copy_words [quiet_rules]: "quiet s0 s \<Longrightarrow> returns (quiet s0) (copy_words n dst src s)"
proof (induction n arbitrary: dst src s)
  case (Suc n)
  show ?case unfolding copy_words.simps
    by (insert Suc.prems, (rule quiet_rules Suc.IH | assumption | rule returns_rbind_any)+)
qed simp

lemma quiet_page_table_add [quiet_rules]: "quiet s0 s \<Longrightarrow> returns (quiet s0) (page_table_add v p s)"
  unfolding page_table_add_def Let_def case_prod_beta
  by (rule quiet_rules | assumption | rule returns_rbind_any)+

lemma quiet_pool_alloc [quiet_rules]: "quiet s0 s \<Longrightarrow> returns (\<lambda>x. quiet s0 (snd x)) (pool_alloc pf s)"
  unfolding pool_alloc_def palloc_kernel_def palloc_user_def case_prod_beta
  by (cases pf; simp; (rule quiet_rules | assumption | rule returns_rbind_any)+)

lemma quiet_map_pages [quiet_rules]: "quiet s0 s \<Longrightarrow> returns (\<lambda>x. quiet s0 (snd x)) (map_pages pf n v s)"
proof (induction n arbitrary: v s)
  case (Suc n)
  show ?case unfolding map_pages.simps case_prod_beta
    by (insert Suc.prems, (rule quiet_rules Suc.IH | assumption | rule returns_rbind_any)+)
qed simp

lemma quiet_vaddr_get [quiet_rules]: "quiet s0 s \<Longrightarrow> returns (\<lambda>x. quiet s0 (snd x)) (vaddr_get pf n s)"
  unfolding vaddr_get_def Let_def
  by (cases pf; simp; (rule quiet_rules | assumption | rule returns_rbind_any)+)

lemma quiet_malloc_page [quiet_rules]: "quiet s0 s \<Longrightarrow> returns (\<lambda>x. quiet s0 (snd x)) (malloc_page pf n s)"
  unfolding malloc_page_def case_prod_beta
  by (rule quiet_vaddr_get quiet_map_pages quiet_rules | assumption | rule returns_rbind_any)+

lemma quiet_get_kernel_pages [quiet_rules]: "quiet s0 s \<Longrightarrow> returns (\<lambda>x. quiet s0 (snd x)) (get_kernel_pages n s)"
  unfolding get_kernel_pages_def clear_pages_def case_prod_beta
  by (rule quiet_rules | assumption | rule returns_rbind_any)+

lemma quiet_map_a_page [quiet_rules]: "quiet s0 s \<Longrightarrow> returns (\<lambda>x. quiet s0 (snd x)) (map_a_page pf v s)"
  unfolding map_a_page_def case_prod_beta
  by (rule quiet_rules | assumption | rule returns_rbind_any)+

lemma quiet_mark_page [quiet_rules]: "quiet s0 s \<Longrightarrow> returns (quiet s0) (mark_page pf v s)"
  unfolding mark_page_def Let_def
  by (rule quiet_rules | assumption | rule returns_rbind_any)+

lemma quiet_pfree [quiet_rules]: "quiet s0 s \<Longrightarrow> returns (quiet s0) (pfree a s)"
  unfolding pfree_def Let_def by (rule quiet_rules | assumption | rule returns_rbind_any)+

lemma quiet_pte_remove [quiet_rules]: "quiet s0 s \<Longrightarrow> returns (quiet s0) (page_table_pte_remove var v s)"
  unfolding page_table_pte_remove_def invlpg_def Let_def by (rule quiet_rules | assumption | rule returns_rbind_any)+

lemma quiet_free_pages [quiet_rules]:
  "quiet s0 s \<Longrightarrow> returns (quiet s0) (free_user_pages var n v s)" "quiet s0 s \<Longrightarrow> returns (quiet s0) (free_kernel_pages var n v s)"
proof (induction n arbitrary: v s)
  case (Suc n)
  {
    case 1
    show ?case unfolding free_user_pages.simps by (insert 1 Suc.IH, (rule quiet_rules Suc.IH | assumption | rule returns_rbind_any)+)
  next
    case 2
    show ?case unfolding free_kernel_pages.simps by (insert 2 Suc.IH, (rule quiet_rules Suc.IH | assumption | rule returns_rbind_any)+)
  }
qed simp_all

lemma quiet_mfree_page [quiet_rules]: "quiet s0 s \<Longrightarrow> returns (quiet s0) (mfree_page var pf v n s)"
  unfolding mfree_page_def vaddr_remove_def Let_def
  by (cases pf; simp; (rule quiet_rules | assumption | rule returns_rbind_any)+)

lemma quiet_page_dir_activate [quiet_rules]: "quiet s0 s \<Longrightarrow> returns (quiet s0) (page_dir_activate t s)"
  unfolding page_dir_activate_def by (rule quiet_rules | assumption | rule returns_rbind_any)+

lemma quiet_create_page_dir [quiet_rules]: "quiet s0 s \<Longrightarrow> returns (\<lambda>x. quiet s0 (snd x)) (create_page_dir s)"
  unfolding create_page_dir_def case_prod_beta
  by (rule quiet_rules | assumption | rule returns_rbind_any)+

section \<open>Lists and locks\<close>

lemma quiet_lists [quiet_rules]:
  "quiet s0 s \<Longrightarrow> quiet s0 (list_append l e s)" "quiet s0 s \<Longrightarrow> quiet s0 (list_push l e s)"
  "quiet s0 s \<Longrightarrow> quiet s0 (list_init l s)" "quiet s0 s \<Longrightarrow> quiet s0 (snd (list_pop l s))"
  "quiet s0 s \<Longrightarrow> quiet s0 (snd (intr_disable s))" "quiet s0 s \<Longrightarrow> quiet s0 (snd (intr_set_status st s))"
  by (simp_all add: list_append_def list_push_def list_init_def list_pop_def list_remove_def list_insert_before_def intr_eqs Let_def quiet_def)

lemma quiet_thread_unblock [quiet_rules]: "quiet s0 s \<Longrightarrow> returns (quiet s0) (thread_unblock t s)"
  unfolding thread_unblock_def Let_def case_prod_beta
  by (rule quiet_rules | assumption | rule returns_rbind_any)+

lemma quiet_sema_up [quiet_rules]: "quiet s0 s \<Longrightarrow> returns (quiet s0) (sema_up p s)"
  unfolding sema_up_def Let_def case_prod_beta
  by (rule quiet_rules | assumption | rule returns_rbind_any)+

lemma quiet_lock_release [quiet_rules]: "quiet s0 s \<Longrightarrow> returns (quiet s0) (lock_release l s)"
  unfolding lock_release_def lock_drop_def Let_def case_prod_beta
  by (rule quiet_rules | assumption | rule returns_rbind_any)+

lemma quiet_lock_acquire: "quiet s0 s \<Longrightarrow> returns (\<lambda>x. fst x \<longrightarrow> quiet s0 (snd x)) (lock_acquire l ret s)"
  by (auto simp: lock_acquire_def sema_down_def sema_loop_def lock_taken_def lock_again_def returns_def rbind_Inr_iff Let_def case_prod_beta
      intr_eqs quiet_fields split: if_splits)

lemma quiet_with_lock:
  assumes "quiet s0 s" and "\<And>s. quiet s0 s \<Longrightarrow> returns (\<lambda>x. quiet s0 (snd x)) (body s)"
  shows "returns (quiet_wait s0) (with_lock l ret body s)"
  unfolding with_lock_def
proof (rule returns_rbind [OF quiet_lock_acquire [OF assms(1)]])
  fix x :: "bool \<times> kernel" assume x: "fst x \<longrightarrow> quiet s0 (snd x)"
  have "returns (\<lambda>x. quiet s0 (snd x)) (rbind (body (snd x)) (\<lambda>(r, s). rbind (lock_release l s) (\<lambda>s. Inr (Some r, s))))" if "fst x"
    using x that unfolding case_prod_beta by (intro quiet_bind(2) [OF assms(2)] quiet_bind(1) [OF quiet_lock_release]) simp_all
  then show "returns (quiet_wait s0) (case x of (got, s) \<Rightarrow>
      if got then rbind (body s) (\<lambda>(r, s). rbind (lock_release l s) (\<lambda>s. Inr (Some r, s))) else Inr (None, s))"
    by (cases x) (auto simp: returns_def)
qed

lemma quiet_fork_pid: "quiet s0 s \<Longrightarrow> returns (quiet_wait s0) (fork_pid K ret s)"
  unfolding fork_pid_def allocate_pid_def
  by (rule quiet_wbind, rule quiet_with_lock) (simp_all add: quiet_fields)

lemma quiet_get_a_page:
  "quiet s0 s \<Longrightarrow> returns (quiet_wait s0) (get_a_page_without_opvaddrbitmap L ret pf v s)"
  "quiet s0 s \<Longrightarrow> returns (quiet_wait s0) (get_a_page L ret pf v s)"
  unfolding get_a_page_without_opvaddrbitmap_def get_a_page_def
  by (rule quiet_with_lock, assumption, rule quiet_map_a_page, assumption)
    (rule quiet_with_lock, assumption, rule quiet_bind(1), rule quiet_mark_page, assumption, rule quiet_map_a_page)

lemma quiet_block_desc_init [quiet_rules]: "quiet s0 s \<Longrightarrow> returns (quiet s0) (block_desc_init d s)"
proof -
  have "quiet s0 s \<Longrightarrow> returns (quiet s0) (init_descs n d sz s)" for n d sz s
  proof (induction n arbitrary: d sz s)
    case (Suc n)
    show ?case unfolding init_descs.simps Let_def
      by (insert Suc.prems, (rule quiet_rules Suc.IH | assumption | rule returns_rbind_any)+)
  qed simp
  then show "quiet s0 s \<Longrightarrow> returns (quiet s0) (block_desc_init d s)" by (simp add: block_desc_init_def)
qed

lemma quiet_enlist [quiet_rules]: "quiet s0 s \<Longrightarrow> returns (quiet s0) (enlist t s)"
  unfolding enlist_def Let_def by (rule quiet_rules | assumption | rule returns_rbind_any)+

section \<open>Fork\<close>

lemma quiet_wbind_store:
  assumes "returns (quiet s0) m" and "\<And>s. quiet s0 s \<Longrightarrow> returns (quiet_wait s0) (f s)"
  shows "returns (quiet_wait s0) (rbind m f)"
  using assms by (rule returns_rbind)

lemma quiet_copy_user_page: "quiet s0 s \<Longrightarrow> returns (quiet_wait s0) (copy_user_page K ret c p buf v s)"
  unfolding copy_user_page_def
  by (intro quiet_wbind_store [OF quiet_copy_words] quiet_wbind_store [OF quiet_page_dir_activate] quiet_wbind quiet_get_a_page) simp_all

lemma quiet_copy_bits: "quiet s0 s \<Longrightarrow> returns (quiet_wait s0) (copy_bits K ret c p buf m vs k n s)"
proof (induction n arbitrary: s)
  case (Suc n)
  show ?case unfolding copy_bits.simps Let_def
    by (rule returns_rbind_any, rule quiet_wbind) (use Suc quiet_copy_user_page in auto)
qed simp

lemma quiet_copy_body_stack3: "quiet s0 s \<Longrightarrow> returns (quiet_wait s0) (copy_body_stack3 K ret c p buf s)"
proof -
  have "quiet s0 s \<Longrightarrow> returns (quiet_wait s0) (copy_bytes K ret c p buf m vs n s)" for m vs n s
  proof (induction n arbitrary: s)
    case (Suc n)
    show ?case unfolding copy_bytes.simps Let_def
      by (rule returns_rbind_any, rule quiet_wbind) (use Suc quiet_copy_bits in auto)
  qed simp
  then show "quiet s0 s \<Longrightarrow> returns (quiet_wait s0) (copy_body_stack3 K ret c p buf s)" by (simp add: copy_body_stack3_def Let_def)
qed

lemma wbind_SomeE:
  assumes "wbind m f = Inr (Some y, t)"
  obtains x s where "m = Inr (Some x, s)" and "f x s = Inr (Some y, t)"
  using assms by (auto simp: wbind_def rbind_Inr_iff split: option.splits)

lemma quietD:
  assumes "quiet s s'"
  shows "stk s' = stk s" and "esp s' = esp s" and "self_kstack (tasks s' t) = self_kstack (tasks s t)" and "pid (tasks s' t) = pid (tasks s t)"
    and "priority (tasks s' t) = priority (tasks s t)" and "ticks (tasks s' t) = ticks (tasks s t)"
    and "fd_table (tasks s' t) = fd_table (tasks s t)" and "cwd_inode_nr (tasks s' t) = cwd_inode_nr (tasks s t)"
    and "parent_pid (tasks s' t) = parent_pid (tasks s t)" and "stack_magic (tasks s' t) = stack_magic (tasks s t)"
    and "status (tasks s t) = TASK_READY \<Longrightarrow> status (tasks s' t) = TASK_READY"
proof -
  obtain v st where "tasks s' t = (tasks s t)\<lparr>userprog_vaddr := v, status := st\<rparr>" "status (tasks s t) = TASK_READY \<longrightarrow> st = TASK_READY"
    using assms unfolding quiet_def by blast
  then show "self_kstack (tasks s' t) = self_kstack (tasks s t)" "pid (tasks s' t) = pid (tasks s t)"
    "priority (tasks s' t) = priority (tasks s t)" "ticks (tasks s' t) = ticks (tasks s t)"
    "fd_table (tasks s' t) = fd_table (tasks s t)" "cwd_inode_nr (tasks s' t) = cwd_inode_nr (tasks s t)"
    "parent_pid (tasks s' t) = parent_pid (tasks s t)" "stack_magic (tasks s' t) = stack_magic (tasks s t)"
    "status (tasks s t) = TASK_READY \<Longrightarrow> status (tasks s' t) = TASK_READY" by simp_all
qed (use assms in \<open>simp_all add: quiet_def\<close>)

text \<open>What the child's control block has of the parent's, and what is its own.\<close>

definition child_of :: "u32 \<Rightarrow> u32 \<Rightarrow> kernel \<Rightarrow> kernel \<Rightarrow> bool" where
  "child_of c p s s' \<longleftrightarrow> fd_table (tasks s' c) = fd_table (tasks s p) \<and> priority (tasks s' c) = priority (tasks s p)
     \<and> cwd_inode_nr (tasks s' c) = cwd_inode_nr (tasks s p) \<and> stack_magic (tasks s' c) = stack_magic (tasks s p)
     \<and> status (tasks s' c) = TASK_READY \<and> ticks (tasks s' c) = priority (tasks s p) \<and> parent_pid (tasks s' c) = pid (tasks s' p)"

lemma child_of_quiet: "child_of c p s s1 \<Longrightarrow> quiet s1 s2 \<Longrightarrow> child_of c p s s2"
  by (simp add: child_of_def quietD)

lemma child_of_from: "quiet s0 s \<Longrightarrow> child_of c p s s1 \<Longrightarrow> child_of c p s0 s1"
  by (simp add: child_of_def quietD)

text \<open>The stack words after the copy of the page.\<close>

definition copied_stk :: "u32 \<Rightarrow> u32 \<Rightarrow> kernel \<Rightarrow> u32 \<Rightarrow> u32" where
  "copied_stk c p s = (\<lambda>a. if page a = c then stk s (a - c + p) else stk s a)"

lemma child_kept:
  assumes "child_of c p s0 s \<and> stk s = X"
  shows "returns (quiet s) m \<Longrightarrow> returns (\<lambda>s'. child_of c p s0 s' \<and> stk s' = X) m"
    and "returns (\<lambda>x. quiet s (snd x)) m2 \<Longrightarrow> returns (\<lambda>x. child_of c p s0 (snd x) \<and> stk (snd x) = X) m2"
  using assms child_of_quiet quietD(1) unfolding returns_def by metis+

lemma copy_pcb_child:
  "returns (\<lambda>x. fst x \<noteq> None \<longrightarrow> child_of c p s (snd x) \<and> stk (snd x) = copied_stk c p s) (copy_pcb_vaddrbitmap_stack0 K ret c p s)"
  unfolding copy_pcb_vaddrbitmap_stack0_def copy_task_page_def rbind_assoc wbind_def
proof (rule returns_rbind [OF quiet_copy_words [OF quiet_refl]], unfold rbind_simps, rule returns_rbind [OF quiet_fork_pid [OF quiet_refl]])
  fix s1 :: kernel and x :: "u16 option \<times> kernel"
  let ?s2 = "s1\<lparr>tasks := (tasks s1)(c := tasks s1 p), stk := \<lambda>a. if page a = c then stk s1 (a - c + p) else stk s1 a,
      prv := \<lambda>a. if page a = c then prv s1 (a - c + p) else prv s1 a, nxt := \<lambda>a. if page a = c then nxt s1 (a - c + p) else nxt s1 a\<rparr>"
  assume 1: "quiet s s1" and 2: "fst x \<noteq> None \<longrightarrow> quiet ?s2 (snd x)"
  obtain r s3 where x: "x = (r, s3)" by fastforce
  show "returns (\<lambda>x. fst x \<noteq> None \<longrightarrow> child_of c p s (snd x) \<and> stk (snd x) = copied_stk c p s)
    (case x of (r, s) \<Rightarrow> case r of None \<Rightarrow> Inr (None, s) | Some p' \<Rightarrow>
      let s = upd_task c (\<lambda>t. t\<lparr>pid := p'\<rparr>) s; s = upd_task c (\<lambda>t. t\<lparr>elapsed_ticks := 0, status := TASK_READY\<rparr>) s;
          s = upd_task c (\<lambda>t. t\<lparr>ticks := priority t\<rparr>) s; s = upd_task c (\<lambda>t. t\<lparr>parent_pid := pid (tasks s p)\<rparr>) s;
          s = s\<lparr>prv := (prv s)(general_tag c := 0), nxt := (nxt s)(general_tag c := 0)\<rparr>;
          s = s\<lparr>prv := (prv s)(all_list_tag c := 0), nxt := (nxt s)(all_list_tag c := 0)\<rparr>
      in rbind (block_desc_init (u_block_desc c) s) (\<lambda>s.
         let bitmap_pg_cnt = DIV_ROUND_UP ((0xc0000000 - USER_VADDR_START) div PG_SIZE div 8) PG_SIZE
         in rbind (get_kernel_pages bitmap_pg_cnt s) (\<lambda>(vaddr_btmp, s).
            rbind (c_assert (length (task_name (tasks s c)) < 11)) (\<lambda>_.
            let s = upd_task c (\<lambda>t. t\<lparr>task_name := task_name t @ map (of_nat \<circ> of_char) ''_fork''\<rparr>) s in Inr (Some (), s)))))"
  proof (cases r)
    case (Some q)
    with 2 x have 2: "quiet ?s2 s3" by simp
    show ?thesis unfolding x Some prod.case option.case Let_def
    proof (rule returns_rbind [OF child_kept(1) [OF _ quiet_block_desc_init [OF quiet_refl]]])
      fix s5 assume "child_of c p s s5 \<and> stk s5 = copied_stk c p s"
      then show "returns (\<lambda>x. fst x \<noteq> None \<longrightarrow> child_of c p s (snd x) \<and> stk (snd x) = copied_stk c p s)
        (rbind (get_kernel_pages (DIV_ROUND_UP ((0xc0000000 - USER_VADDR_START) div PG_SIZE div 8) PG_SIZE) s5) (\<lambda>(vaddr_btmp, s).
            rbind (c_assert (length (task_name (tasks s c)) < 11)) (\<lambda>_. Inr (Some (),
              upd_task c (\<lambda>t. t\<lparr>task_name := task_name t @ map (of_nat \<circ> of_char) ''_fork''\<rparr>) s))))"
        by (rule returns_rbind [OF child_kept(2) [OF _ quiet_get_kernel_pages [OF quiet_refl]]])
          (auto simp: case_prod_beta child_of_def intro: returns_rbind_any)
    qed (simp_all add: child_of_def copied_stk_def quietD [OF 2] quietD [OF 1] cong: if_cong)
  qed (simp add: x)
qed

text \<open>The whole copy: the child's stack words are the parent's, but for the frame that \<^verbatim>\<open>build_child_stack\<close> writes.\<close>

definition child_stk :: "links \<Rightarrow> u32 \<Rightarrow> u32 \<Rightarrow> kernel \<Rightarrow> u32 \<Rightarrow> u32" where
  "child_stk K c p s = (let b = c + PG_SIZE - sizeof_intr_stack in (copied_stk c p s)
     (b + 32 := 0, b - 4 := intr_exit K, b - 8 := 0, b - 12 := 0, b - 16 := 0, b - 20 := 0))"

abbreviation (input) forked :: "links \<Rightarrow> u32 \<Rightarrow> u32 \<Rightarrow> kernel \<Rightarrow> kernel \<Rightarrow> bool" where
  "forked K c p s s' \<equiv> child_of c p s s' \<and> stk s' = child_stk K c p s \<and> self_kstack (tasks s' c) = c + PG_SIZE - sizeof_intr_stack - 20"

lemma forked_kept:
  assumes "forked K c p s0 s" and "returns (quiet s) m"
  shows "returns (forked K c p s0) m"
  using assms child_of_quiet quietD(1,3) unfolding returns_def by metis

lemma build_child_stack_forked:
  "child_of c p s s1 \<Longrightarrow> stk s1 = copied_stk c p s \<Longrightarrow> forked K c p s (build_child_stack K c s1)"
  by (simp add: build_child_stack_def poke_def Let_def child_of_def child_stk_def diff_diff_eq fun_upd_twist)

lemma copy_process_forked:
  "returns (\<lambda>x. \<forall>a. fst x = Some a \<longrightarrow> fst a \<longrightarrow> forked K c p s (snd x)) (copy_process K ret var inode_of c p cnts s)"
  unfolding copy_process_def wbind_def case_prod_beta
proof (rule returns_rbind [OF quiet_get_kernel_pages [OF quiet_refl]])
  fix x :: "u32 \<times> kernel" assume 1: "quiet s (snd x)"
  show "returns (\<lambda>x. \<forall>a. fst x = Some a \<longrightarrow> fst a \<longrightarrow> forked K c p s (snd x))
    (if fst x = 0 then Inr (Some (False, cnts), snd x)
     else rbind (copy_pcb_vaddrbitmap_stack0 K ret c p (snd x)) (\<lambda>y. case fst y of None \<Rightarrow> Inr (None, snd y) | Some _ \<Rightarrow>
       rbind (create_page_dir (snd y)) (\<lambda>z. let s = upd_task c (\<lambda>t. t\<lparr>pgdir := fst z\<rparr>) (snd z)
         in if fst z = 0 then Inr (Some (False, cnts), s)
            else rbind (copy_body_stack3 K ret c p (fst x) s) (\<lambda>u. case fst u of None \<Rightarrow> Inr (None, snd u) | Some _ \<Rightarrow>
              let s = build_child_stack K c (snd u)
              in rbind (update_inode_open_cnts inode_of (drop 3 (fd_table (tasks s c))) cnts) (\<lambda>cnts.
                 rbind (mfree_page var PF_KERNEL (fst x) 1 s) (\<lambda>s. Inr (Some (True, cnts), s)))))))"
  proof (rule returns_if, simp, rule returns_rbind [OF copy_pcb_child], rule returns_option, simp)
    fix y :: "unit option \<times> kernel" and i :: unit
    assume y: "fst y \<noteq> None \<longrightarrow> child_of c p (snd x) (snd y) \<and> stk (snd y) = copied_stk c p (snd x)" and "fst y = Some i"
    then have 2: "child_of c p s (snd y)" "stk (snd y) = copied_stk c p s"
      using child_of_from [OF 1] by (simp_all add: copied_stk_def quietD [OF 1] cong: if_cong)
    have body: "returns (\<lambda>x. \<forall>a. fst x = Some a \<longrightarrow> fst a \<longrightarrow> forked K c p s (snd x))
       (rbind (copy_body_stack3 K ret c p (fst x) t) (\<lambda>u. case fst u of None \<Rightarrow> Inr (None, snd u) | Some _ \<Rightarrow>
              let s = build_child_stack K c (snd u)
              in rbind (update_inode_open_cnts inode_of (drop 3 (fd_table (tasks s c))) cnts) (\<lambda>cnts.
                 rbind (mfree_page var PF_KERNEL (fst x) 1 s) (\<lambda>s. Inr (Some (True, cnts), s)))))"
      if t: "child_of c p s t" "stk t = copied_stk c p s" for t
    proof (rule returns_rbind [OF quiet_copy_body_stack3 [OF quiet_refl]], rule returns_option, simp, unfold Let_def, rule returns_rbind_any)
      fix u :: "unit option \<times> kernel" and j cs assume "fst u \<noteq> None \<longrightarrow> quiet t (snd u)" and "fst u = Some j"
      then have "quiet t (snd u)" by simp
      then have "forked K c p s (build_child_stack K c (snd u))"
        using t child_of_quiet by (intro build_child_stack_forked) (simp_all add: quietD)
      note kept = forked_kept [OF this quiet_mfree_page [OF quiet_refl]]
      show "returns (\<lambda>x. \<forall>a. fst x = Some a \<longrightarrow> fst a \<longrightarrow> forked K c p s (snd x))
        (rbind (mfree_page var PF_KERNEL (fst x) 1 (build_child_stack K c (snd u))) (\<lambda>s. Inr (Some (True, cs), s)))"
        by (rule returns_rbind [OF kept]) simp
    qed
    show "returns (\<lambda>x. \<forall>a. fst x = Some a \<longrightarrow> fst a \<longrightarrow> forked K c p s (snd x))
       (rbind (create_page_dir (snd y)) (\<lambda>z. let s = upd_task c (\<lambda>t. t\<lparr>pgdir := fst z\<rparr>) (snd z)
         in if fst z = 0 then Inr (Some (False, cnts), s)
            else rbind (copy_body_stack3 K ret c p (fst x) s) (\<lambda>u. case fst u of None \<Rightarrow> Inr (None, snd u) | Some _ \<Rightarrow>
              let s = build_child_stack K c (snd u)
              in rbind (update_inode_open_cnts inode_of (drop 3 (fd_table (tasks s c))) cnts) (\<lambda>cnts.
                 rbind (mfree_page var PF_KERNEL (fst x) 1 s) (\<lambda>s. Inr (Some (True, cnts), s))))))"
    proof (rule returns_rbind [OF quiet_create_page_dir [OF quiet_refl]], unfold Let_def, rule returns_if, simp, rule body [unfolded Let_def])
      fix z :: "u32 \<times> kernel" assume z: "quiet (snd y) (snd z)"
      show "child_of c p s (upd_task c (\<lambda>t. t\<lparr>pgdir := fst z\<rparr>) (snd z))" "stk (upd_task c (\<lambda>t. t\<lparr>pgdir := fst z\<rparr>) (snd z)) = copied_stk c p s"
        using child_of_quiet [OF 2(1) z] 2(2) by (simp_all add: child_of_def quietD [OF z])
    qed
  qed
qed

lemma get_kernel_pages_aligned:
  assumes "aligned (vaddr_start (kernel_vaddr s))"
  shows "returns (\<lambda>x. fst x \<noteq> 0 \<longrightarrow> aligned (fst x)) (get_kernel_pages n s)"
proof -
  have al: "aligned (vaddr_start (kernel_vaddr s) + w * PG_SIZE)" for w
  proof -
    let ?v = "vaddr_start (kernel_vaddr s)"
    have "unat (?v + w * PG_SIZE) = (unat ?v + unat w * 4096) mod 2 ^ 32" by (simp add: PG_SIZE_def unat_word_ariths mod_simps)
    then have "unat (?v + w * PG_SIZE) mod 4096 = (unat ?v + unat w * 4096) mod 4096" by (simp add: mod_mod_cancel)
    then show ?thesis using assms by (simp add: aligned_unat)
  qed
  show ?thesis
    by (auto simp: get_kernel_pages_def malloc_page_def vaddr_get_def returns_def rbind_Inr_iff Let_def al split: if_splits)
qed

text \<open>
  \<^verbatim>\<open>sys_fork\<close>: when it returns a process identifier, it is that of a thread whose block and kernel stack are
  the running thread's, but for the frame it starts with.
\<close>

lemma sys_fork_forked:
  assumes "aligned (vaddr_start (kernel_vaddr s))"
  shows "returns (\<lambda>x. \<forall>r. fst x = Some r \<longrightarrow> fst r \<noteq> - 1 \<longrightarrow> (\<exists>c. aligned c \<and> pid (tasks (snd x) c) = fst r
      \<and> forked K c (running_thread s) s (snd x))) (sys_fork K ret var inode_of cnts s)"
  unfolding sys_fork_def wbind_def Let_def case_prod_beta
proof (rule returns_rbind_eq, rule returns_if, simp, rule returns_rbind_any, rule returns_rbind [OF copy_process_forked],
    rule returns_option, simp, rule returns_if, simp)
  fix x :: "u32 \<times> kernel" and y r
  assume x: "get_kernel_pages 1 s = Inr x" "fst x \<noteq> 0"
    and y: "\<forall>a. fst y = Some a \<longrightarrow> fst a \<longrightarrow> forked K (fst x) (running_thread s) (snd x) (snd y)" "fst y = Some r" "\<not> \<not> fst r"
  have q: "quiet s (snd x)" using returnsD [OF quiet_get_kernel_pages [OF quiet_refl] x(1)] .
  have al: "aligned (fst x)" using returnsD [OF get_kernel_pages_aligned [OF assms] x(1)] x(2) by simp
  have "forked K (fst x) (running_thread s) s (snd y)"
    using y child_of_from [OF q] by (simp add: child_stk_def copied_stk_def quietD [OF q] cong: if_cong)
  note kept = forked_kept [OF this quiet_enlist [OF quiet_refl]]
  show "returns (\<lambda>x. \<forall>r. fst x = Some r \<longrightarrow> fst r \<noteq> - 1 \<longrightarrow> (\<exists>c. aligned c \<and> pid (tasks (snd x) c) = fst r
      \<and> forked K c (running_thread s) s (snd x)))
    (rbind (enlist (fst x) (snd y)) (\<lambda>s. Inr (Some (pid (tasks s (fst x)), snd r), s)))"
    by (rule returns_rbind [OF kept]) (use al in auto)
qed

section \<open>The first run\<close>

text \<open>The words of the interrupt frame lie in the page of the block.\<close>

lemma frame_in_page:
  assumes "aligned c" and "k \<le> 72"
  shows "page (c + PG_SIZE - sizeof_intr_stack + k) = c" and "c + PG_SIZE - sizeof_intr_stack + k - c + p = p + PG_SIZE - sizeof_intr_stack + k"
proof -
  have "unat k \<le> 72" using assms(2) by (simp add: word_le_nat_alt)
  then have "(4020 :: u32) + k < 4096" by (simp add: word_less_nat_alt unat_word_ariths)
  then have "page (c + (4020 + k)) = c" by (rule page_add [OF assms(1)])
  then show "page (c + PG_SIZE - sizeof_intr_stack + k) = c" by (simp add: PG_SIZE_def sizeof_intr_stack_def ac_simps)
qed simp

text \<open>
  C11. A forked child returns from \<^verbatim>\<open>fork\<close> like its parent, with 0. When its page is a copy of the parent's, then after
  \<^verbatim>\<open>build_child_stack\<close> the first \<^verbatim>\<open>switch_to\<close> to it goes to \<^verbatim>\<open>intr_exit\<close>, running on the child's own stack, and this leaves the kernel
  with all the registers the parent entered it with, the return value in \<^verbatim>\<open>eax\<close> excepted, which is 0.
\<close>

theorem forked_child_resumes:
  assumes c: "aligned c" and copy: "\<And>a. page a = c \<Longrightarrow> stk s a = stk s0 (a - c + p)"
  shows "let s1 = switch_in c (build_child_stack K c s) in
    eip s1 = intr_exit K \<and> regs s1 = \<lparr>ebp = 0, ebx = 0, edi = 0, esi = 0\<rparr> \<and> running_thread s1 = c
    \<and> intr_return s1 = (intr_return (s0\<lparr>esp := p + PG_SIZE - sizeof_intr_stack\<rparr>))\<lparr>u_eax := 0\<rparr>"
proof -
  let ?b = "c + PG_SIZE - sizeof_intr_stack" and ?s1 = "switch_in c (build_child_stack K c s)"
  have b: "stk s (?b + k) = stk s0 (p + PG_SIZE - sizeof_intr_stack + k)" if "k \<le> 72" for k
    using copy [OF frame_in_page(1) [OF c that]] unfolding frame_in_page(2) [OF c that] .
  have e: "esp ?s1 = ?b" "stk ?s1 = (stk s)(?b + 32 := 0, ?b - 4 := intr_exit K, ?b - 8 := 0, ?b - 12 := 0, ?b - 16 := 0, ?b - 20 := 0)"
    "eip ?s1 = intr_exit K" "regs ?s1 = \<lparr>ebp = 0, ebx = 0, edi = 0, esi = 0\<rparr>"
    by (simp_all add: switch_in_eq build_child_stack_def poke_def Let_def diff_diff_eq fun_upd_twist frame_steps)
  have w: "stk ?s1 (?b + k) = (if k = 32 then 0 else stk s0 (p + PG_SIZE - sizeof_intr_stack + k))" if "k \<le> 72" for k
  proof -
    have "?b + k \<noteq> ?b - j" if "j \<in> {4, 8, 12, 16, 20}" for j
    proof
      assume "?b + k = ?b - j"
      then have "k + j = 0" by (simp add: algebra_simps)
      then have "unat (k + j) = 0" by simp
      moreover have "unat k \<le> 72" using \<open>k \<le> 72\<close> by (simp add: word_le_nat_alt)
      ultimately show False using that by (auto simp: unat_word_ariths dest: dvd_imp_le)
    qed
    then show ?thesis using b [OF that] unfolding e(2) by simp
  qed
  have "intr_return ?s1 = (intr_return (s0\<lparr>esp := p + PG_SIZE - sizeof_intr_stack\<rparr>))\<lparr>u_eax := 0\<rparr>"
    unfolding intr_return_eq Let_def e(1) by (simp add: w)
  moreover have "running_thread ?s1 = c" using frame_in_page(1) [OF c, of 0] e(1) by (simp add: running_thread_def)
  ultimately show ?thesis using e(3,4) by (simp add: Let_def)
qed

lemma forked_child_resumes_witness:
  "\<forall>K. let s1 = switch_in 0x1000 (build_child_stack K 0x1000 (boot_threads\<lparr>stk := \<lambda>_. 9\<rparr>)) in
     eip s1 = intr_exit K \<and> u_eax (intr_return s1) = 0 \<and> u_eip (intr_return s1) = 9"
proof
  fix K
  let ?s = "boot_threads\<lparr>stk := \<lambda>_. 9\<rparr>"
  have "aligned 0x1000" by (simp add: aligned_def)
  from forked_child_resumes [where s = ?s and ?s0.0 = ?s and p = "0x2000" and K = K, OF this]
  show "let s1 = switch_in 0x1000 (build_child_stack K 0x1000 ?s) in
     eip s1 = intr_exit K \<and> u_eax (intr_return s1) = 0 \<and> u_eip (intr_return s1) = 9"
    by (simp add: Let_def intr_return_eq [of "?s\<lparr>esp := _\<rparr>"])
qed

lemma get_a_page_result: "returns (\<lambda>x. \<forall>v. fst x = Some v \<longrightarrow> v = vaddr \<or> v = 0) (get_a_page L ret pf vaddr s)"
  by (auto simp: get_a_page_def with_lock_def map_a_page_def returns_def rbind_Inr_iff split: if_splits)

text \<open>
  C23. The first run of a process. Switched to, the thread that \<^verbatim>\<open>thread_create\<close> prepared enters \<^verbatim>\<open>kernel_thread\<close>, which
  enables the interrupts and calls \<^verbatim>\<open>start_process\<close> with the address of the program, in the page of the thread. When
  \<^verbatim>\<open>start_process\<close> has got a page for the user stack, it ends at \<^verbatim>\<open>intr_exit\<close> with a frame that leaves the kernel to ring 3:
  at the program's address with cleared registers, with the user's segments, with interrupts enabled, and with the stack at the
  top of the user's memory. The result of \<^verbatim>\<open>get_a_page\<close> is not checked: without a frame the stack is at 4096.
\<close>

theorem process_starts:
  assumes t: "aligned t" "self_kstack (tasks s t) = t + PG_SIZE"
    and s1: "s1 = switch_in t (thread_create K t (start_process_code K) filename s)"
    and s2: "kernel_thread_body s1 = ((function, func_arg), s2)"
    and s3: "start_process K ret func_arg s2 = Inr (Some (), s3)"
  shows "eip s1 = kernel_thread K \<and> running_thread s1 = t \<and> function = start_process_code K \<and> func_arg = filename
    \<and> eflags_if s2 \<and> eip s2 = start_process_code K \<and> eip s3 = intr_exit K
    \<and> (\<exists>top \<in> {0xc0000000, 0x1000}. intr_return s3 = \<lparr>u_edi = 0, u_esi = 0, u_ebp = 0, u_ebx = 0, u_edx = 0, u_ecx = 0, u_eax = 0,
         u_gs = 0, u_fs = SELECTOR_U_DATA, u_es = SELECTOR_U_DATA, u_ds = SELECTOR_U_DATA, u_eip = filename,
         u_cs = SELECTOR_U_CODE, u_eflags = 0x202, u_esp = top, u_ss = SELECTOR_U_DATA\<rparr>)"
proof -
  let ?k = "t + PG_SIZE - 432" and ?p = "t + PG_SIZE - 304"
  have e1: "esp s1 = ?k + 20" "eip s1 = kernel_thread K" "stk s1 (?k + 24) = start_process_code K" "stk s1 (?k + 28) = filename"
    "self_kstack (tasks s1 t) = ?k"
    using t(2) unfolding s1
    by (simp_all add: switch_in_eq thread_create_def move_kstack_def poke_def Let_def sizeof_intr_stack_def sizeof_thread_stack_def frame_steps)
  have "(3684 :: u32) < 4096" by simp
  from page_add [OF t(1) this] have r: "page (esp s1) = t" using e1(1) by (simp add: PG_SIZE_def add.commute)
  have e2: "function = start_process_code K" "func_arg = filename" "s2 = s1\<lparr>eflags_if := True, eip := start_process_code K\<rparr>"
    using s2 e1 by (auto simp: kernel_thread_body_def Let_def intr_eqs add.commute)
  define s4 where "s4 = move_kstack t sizeof_thread_stack s2"
  have k: "self_kstack (tasks s4 t) = ?p" using e1(5) by (simp add: s4_def move_kstack_def e2(3) sizeof_thread_stack_def)
  define s5 where "s5 = poke (?p + 64) (EFLAGS_IOPL_0 OR EFLAGS_IF_1 OR EFLAGS_MBS) (poke (?p + 60) SELECTOR_U_CODE (poke (?p + 56) filename
      (poke (?p + 40) SELECTOR_U_DATA (poke (?p + 44) SELECTOR_U_DATA (poke (?p + 48) SELECTOR_U_DATA (poke (?p + 36) 0
      (poke (?p + 20) 0 (poke (?p + 24) 0 (poke (?p + 28) 0 (poke (?p + 32) 0
      (poke (?p + 4) 0 (poke (?p + 8) 0 (poke (?p + 12) 0 (poke (?p + 16) 0 s4))))))))))))))"
  have "running_thread s2 = t" using r by (simp add: running_thread_def e2(3))
  then have s5: "wbind (get_a_page (pools K) ret PF_USER USER_STACK3_VADDR s5) (\<lambda>q s.
       let s = poke (?p + 68) (q + PG_SIZE) s; s = poke (?p + 72) SELECTOR_U_DATA s
       in Inr (Some (), s\<lparr>esp := ?p, eip := intr_exit K\<rparr>)) = Inr (Some (), s3)"
    using s3 unfolding start_process_def s5_def by (simp add: Let_def e2(2) s4_def [symmetric] k)
  obtain pg s6 where s6: "get_a_page (pools K) ret PF_USER USER_STACK3_VADDR s5 = Inr (Some pg, s6)"
    "s3 = (poke (?p + 72) SELECTOR_U_DATA (poke (?p + 68) (pg + PG_SIZE) s6))\<lparr>esp := ?p, eip := intr_exit K\<rparr>"
    using s5 by (rule wbind_SomeE) (simp add: Let_def)
  have "quiet s5 s6" using returnsD [OF quiet_get_a_page(2) [OF quiet_refl] s6(1)] by simp
  then have w: "stk s3 = (stk s5)(?p + 68 := pg + PG_SIZE, ?p + 72 := SELECTOR_U_DATA)" by (simp add: s6(2) poke_def quietD)
  have "pg = USER_STACK3_VADDR \<or> pg = 0" using returnsD [OF get_a_page_result s6(1)] by simp
  then have top: "pg + PG_SIZE \<in> {0xc0000000, 0x1000}" by (auto simp: USER_STACK3_VADDR_def PG_SIZE_def)
  have fl: "EFLAGS_IOPL_0 OR EFLAGS_IF_1 OR EFLAGS_MBS = 0x202" by (simp add: EFLAGS_IOPL_0_def EFLAGS_IF_1_def EFLAGS_MBS_def)
  have "intr_return s3 = \<lparr>u_edi = 0, u_esi = 0, u_ebp = 0, u_ebx = 0, u_edx = 0, u_ecx = 0, u_eax = 0,
         u_gs = 0, u_fs = SELECTOR_U_DATA, u_es = SELECTOR_U_DATA, u_ds = SELECTOR_U_DATA, u_eip = filename,
         u_cs = SELECTOR_U_CODE, u_eflags = 0x202, u_esp = pg + PG_SIZE, u_ss = SELECTOR_U_DATA\<rparr>"
    unfolding intr_return_eq w by (simp add: s6(2) fl s5_def poke_def)
  moreover have "eip s3 = intr_exit K" by (simp add: s6(2))
  ultimately show ?thesis using e1 e2 r top by (auto simp: running_thread_def)
qed

definition sample_links :: links where
  "sample_links = \<lparr>kernel_thread = 0xc0001500, intr_exit = 0xc0001600, start_process_code = 0xc0001700, idle_code = 0xc0001800,
     init_code = 0xc0001900, pid_lock = 0xc0020000, pools = \<lparr>kernel_pool_lock = 0xc0020100, user_pool_lock = 0xc0020200\<rparr>\<rparr>"

definition sample_process :: kernel where
  "sample_process = boot_threads\<lparr>pmem := boot_pmem(0x100bfc := 0x102007), nxt := \<lambda>a. a + 8,
     tasks := \<lambda>_. zero_task\<lparr>self_kstack := 0xc0102000, pgdir := 0xc0103000,
       userprog_vaddr := \<lparr>vaddr_bitmap = \<lparr>btmp_bytes_len = 2, bits = [0, 0]\<rparr>, vaddr_start = 0xbfff0000\<rparr>\<rparr>\<rparr>"

lemma process_starts_witness:
  "\<exists>s3. start_process sample_links 0 0x08048000 (snd (kernel_thread_body (switch_in 0xc0101000
      (thread_create sample_links 0xc0101000 (start_process_code sample_links) 0x08048000 sample_process)))) = Inr (Some (), s3)
    \<and> eip s3 = 0xc0001600 \<and> u_eip (intr_return s3) = 0x08048000 \<and> u_cs (intr_return s3) = SELECTOR_U_CODE"
proof -
  let ?s1 = "switch_in 0xc0101000 (thread_create sample_links 0xc0101000 (start_process_code sample_links) 0x08048000 sample_process)"
  let ?s2 = "snd (kernel_thread_body ?s1)"
  have "case start_process sample_links 0 0x08048000 ?s2 of Inr (Some u, s) \<Rightarrow> True | _ \<Rightarrow> False" by code_simp
  then obtain s3 where s3: "start_process sample_links 0 0x08048000 ?s2 = Inr (Some (), s3)"
    by (auto split: sum.splits prod.splits option.splits)
  have s2: "kernel_thread_body ?s1 = ((start_process_code sample_links, 0x08048000), ?s2)"
    by (simp add: kernel_thread_body_def Let_def intr_eqs) code_simp
  have "aligned 0xc0101000" "self_kstack (tasks sample_process 0xc0101000) = 0xc0101000 + PG_SIZE"
    by (simp_all add: aligned_def sample_process_def PG_SIZE_def)
  from process_starts [OF this refl s2 s3] show ?thesis using s3 by (auto simp: sample_links_def)
qed

end
