(* ===== verification/Stdio.thy ===== *)
theory Stdio
  imports Prelude
begin

text \<open>
  \<^verbatim>\<open>lib/stdio.c\<close> and \<^verbatim>\<open>lib/kernel/stdio-kernel.c\<close>: \<^verbatim>\<open>itoa\<close>, \<^verbatim>\<open>vsprintf\<close> and the functions on top
  of them.

  A buffer is the list of the bytes the caller has reserved, and writing behind its end is an
  error. A format is the bytes of a C string without the terminator. An argument is a word, or
  the string a pointer points to. The section on the specification relates a format to the list
  of its directives and shows what is printed for each of them, and that the digits of \<^verbatim>\<open>itoa\<close>
  denote the number.
\<close>

section \<open>The code\<close>

type_synonym str = "u8 list"

definition ascii :: "string \<Rightarrow> str" where "ascii s = map (of_nat \<circ> of_char) s"

abbreviation (input) chr :: "char \<Rightarrow> u8" where "chr c \<equiv> of_nat (of_char c)"

text \<open>The string in a buffer: the bytes before the first zero, which the buffer must have.\<close>

definition c_string :: "str \<Rightarrow> str" where "c_string buf = takeWhile (\<lambda>c. c \<noteq> 0) buf"

definition buf_strlen :: "str \<Rightarrow> nat res" where
  "buf_strlen buf = rbind (guard Out_of_bounds (0 \<in> set buf)) (\<lambda>_. Inr (length (c_string buf)))"

definition put_bytes :: "str \<Rightarrow> nat \<Rightarrow> str \<Rightarrow> str res" where
  "put_bytes buf pos bs =
     rbind (guard Out_of_bounds (pos + length bs \<le> length buf)) (\<lambda>_.
     Inr (take pos buf @ bs @ drop (pos + length bs) buf))"

definition digit :: "u32 \<Rightarrow> u8" where
  "digit m = ucast (if m < 10 then m + 48 else m - 10 + 65)"

text \<open>
  \<^verbatim>\<open>itoa\<close> returns the bytes it writes. A division by zero ends in \<^verbatim>\<open>general_intr_handler\<close>, which
  never returns, and so does the recursion for base 1.
\<close>

function itoa :: "u32 \<Rightarrow> u8 \<Rightarrow> str res" where
  "itoa v base =
     (if base = 0 \<or> base = 1 \<and> v \<noteq> 0 then Inl Hang
      else let m = v mod ucast base; i = v div ucast base
           in rbind (if i \<noteq> 0 then itoa i base else Inr []) (\<lambda>s. Inr (s @ [digit m])))"
  by pat_completeness auto

lemma itoa_decreases:
  assumes "\<not> (base = 0 \<or> base = 1 \<and> v \<noteq> 0)" and "v div ucast base \<noteq> (0 :: u32)"
  shows "unat (v div ucast (base :: u8)) < unat v"
proof -
  have v: "unat v > 0" using assms(2) by (metis div_0 gr_zeroI unat_eq_zero)
  with assms(1) have "base \<noteq> 0" "base \<noteq> 1" by auto
  then have "unat base \<noteq> unat (0 :: u8)" "unat base \<noteq> unat (1 :: u8)" by (simp_all only: word_unat_eq_iff not_False_eq_True)
  then have "1 < unat base" by simp
  moreover have "unat (ucast base :: u32) = unat base" by (simp add: unsigned_ucast_eq take_bit_nat_eq_self_iff less_le_trans [OF unsigned_less])
  ultimately show ?thesis using v by (simp add: unat_div)
qed

termination itoa
  by (relation "measure (\<lambda>(v, _). unat v)") (use itoa_decreases in auto)

declare itoa.simps [simp del]

datatype va = Word u32 | Ptr str

text \<open>\<^verbatim>\<open>va_arg\<close>: an argument that is missing, or of the other kind, is an access out of bounds.\<close>

fun va_word :: "va list \<Rightarrow> (u32 \<times> va list) res" where
  "va_word (Word w # ap) = Inr (w, ap)"
| "va_word _ = Inl Out_of_bounds"

fun va_str :: "va list \<Rightarrow> (str \<times> va list) res" where
  "va_str (Ptr s # ap) = Inr (s, ap)"
| "va_str _ = Inl Out_of_bounds"

text \<open>\<^verbatim>\<open>strcpy(buf_ptr, arg_str)\<close> writes the terminator too, but \<^verbatim>\<open>buf_ptr\<close> stops before it.\<close>

definition vs_str :: "str \<Rightarrow> nat \<Rightarrow> str \<Rightarrow> (nat \<times> str) res" where
  "vs_str buf pos s = rbind (put_bytes buf pos (s @ [0])) (\<lambda>buf. Inr (pos + length s, buf))"

definition vs_digits :: "str \<Rightarrow> nat \<Rightarrow> u32 \<Rightarrow> u8 \<Rightarrow> (nat \<times> str) res" where
  "vs_digits buf pos w base =
     rbind (itoa w base) (\<lambda>ds. rbind (put_bytes buf pos ds) (\<lambda>buf. Inr (pos + length ds, buf)))"

definition vs_int :: "str \<Rightarrow> nat \<Rightarrow> u32 \<Rightarrow> (nat \<times> str) res" where
  "vs_int buf pos w =
     (if w <s 0 then rbind (put_bytes buf pos [chr (CHR ''-'')]) (\<lambda>buf. vs_digits buf (pos + 1) (0 - w) 10)
      else vs_digits buf pos w 10)"

text \<open>
  The loop of \<^verbatim>\<open>vsprintf\<close>, \<open>pos\<close> being \<^verbatim>\<open>buf_ptr - str\<close>. The character after a percent sign
  that starts no directive is looked at again as an ordinary one, a percent sign too.
\<close>

fun vsprintf_loop :: "str \<Rightarrow> va list \<Rightarrow> nat \<Rightarrow> str \<Rightarrow> (nat \<times> str) res" where
  "vsprintf_loop [] ap pos buf = Inr (pos, buf)"
| "vsprintf_loop (c # format) ap pos buf =
     (if c \<noteq> chr (CHR ''%'')
      then rbind (put_bytes buf pos [c]) (vsprintf_loop format ap (pos + 1))
      else case format of [] \<Rightarrow> Inr (pos, buf)
      | d # format' \<Rightarrow>
        (if d = chr (CHR ''s'')
         then rbind (va_str ap) (\<lambda>(s, ap). rbind (vs_str buf pos s) (\<lambda>(pos, buf). vsprintf_loop format' ap pos buf))
         else if d = chr (CHR ''c'')
         then rbind (va_word ap) (\<lambda>(w, ap). rbind (put_bytes buf pos [ucast w]) (vsprintf_loop format' ap (pos + 1)))
         else if d = chr (CHR ''d'')
         then rbind (va_word ap) (\<lambda>(w, ap). rbind (vs_int buf pos w) (\<lambda>(pos, buf). vsprintf_loop format' ap pos buf))
         else if d = chr (CHR ''x'')
         then rbind (va_word ap) (\<lambda>(w, ap). rbind (vs_digits buf pos w 16) (\<lambda>(pos, buf). vsprintf_loop format' ap pos buf))
         else vsprintf_loop format ap pos buf))"

definition vsprintf :: "str \<Rightarrow> str \<Rightarrow> va list \<Rightarrow> (nat \<times> str) res" where
  "vsprintf buf format ap =
     rbind (vsprintf_loop format ap 0 buf) (\<lambda>(_, buf). rbind (buf_strlen buf) (\<lambda>n. Inr (n, buf)))"

text \<open>\<^verbatim>\<open>printf\<close> returns the length and the bytes it passes to \<^verbatim>\<open>write\<close>; \<^verbatim>\<open>printk\<close> those it passes to
  \<^verbatim>\<open>console_put_str\<close>.\<close>

definition sprintf :: "str \<Rightarrow> str \<Rightarrow> va list \<Rightarrow> (nat \<times> str) res" where
  "sprintf buf format args = vsprintf buf format args"

definition printf :: "str \<Rightarrow> va list \<Rightarrow> (nat \<times> str) res" where
  "printf format args =
     rbind (vsprintf (replicate 1024 0) format args) (\<lambda>(len, buf).
     rbind (buf_strlen buf) (\<lambda>n. Inr (len, take n buf)))"

definition printk :: "str \<Rightarrow> va list \<Rightarrow> str res" where
  "printk format args =
     rbind (vsprintf (replicate 1024 0) format args) (\<lambda>(_, buf). rbind (buf_strlen buf) (\<lambda>n. Inr (take n buf)))"

section \<open>Specification\<close>

text \<open>The number a string of digits denotes.\<close>

definition digit_value :: "u8 \<Rightarrow> nat" where
  "digit_value c = (if unat c < 58 then unat c - 48 else unat c - 55)"

definition number :: "nat \<Rightarrow> str \<Rightarrow> nat" where
  "number b ds = foldl (\<lambda>n c. n * b + digit_value c) 0 ds"

text \<open>The directives of a format and what each of them prints.\<close>

datatype piece = Lit u8 | Pct_s | Pct_c | Pct_d | Pct_x

fun fmt :: "piece \<Rightarrow> str" where
  "fmt (Lit c) = [c]"
| "fmt Pct_s = ascii ''%s''"
| "fmt Pct_c = ascii ''%c''"
| "fmt Pct_d = ascii ''%d''"
| "fmt Pct_x = ascii ''%x''"

definition prints_number :: "nat \<Rightarrow> str \<Rightarrow> nat \<Rightarrow> bool" where
  "prints_number b ds n \<longleftrightarrow> ds \<noteq> [] \<and> number b ds = n \<and> (\<forall>c \<in> set ds. c \<noteq> 0 \<and> digit_value c < b)
     \<and> (hd ds = chr (CHR ''0'') \<longrightarrow> length ds = 1)"

inductive prints :: "piece \<Rightarrow> va list \<Rightarrow> str \<Rightarrow> bool" where
  lit: "prints (Lit c) [] [c]"
| string: "prints Pct_s [Ptr s] s"
| char: "prints Pct_c [Word w] [ucast w]"
| pos: "0 \<le> sint w \<Longrightarrow> prints_number 10 ds (nat (sint w)) \<Longrightarrow> prints Pct_d [Word w] ds"
| neg: "sint w < 0 \<Longrightarrow> prints_number 10 ds (nat (- sint w)) \<Longrightarrow> prints Pct_d [Word w] (chr (CHR ''-'') # ds)"
| hex: "prints_number 16 ds (unat w) \<Longrightarrow> prints Pct_x [Word w] ds"

text \<open>The arguments a directive takes; a zero byte would end the string.\<close>

fun takes :: "piece \<Rightarrow> va list \<Rightarrow> bool" where
  "takes (Lit c) [] = (c \<noteq> 0 \<and> c \<noteq> chr (CHR ''%''))"
| "takes Pct_s [Ptr s] = (0 \<notin> set s)"
| "takes Pct_c [Word w] = (ucast w \<noteq> (0 :: u8))"
| "takes Pct_d [Word w] = True"
| "takes Pct_x [Word w] = True"
| "takes p a = False"

section \<open>Digits\<close>

lemma digit_props:
  assumes "unat m < 36"
  shows "digit_value (digit m) = unat m" "digit m \<noteq> 0" "digit m = 48 \<longleftrightarrow> m = 0"
proof -
  have d: "unat (digit m) = (if unat m < 10 then unat m + 48 else unat m + 55)"
  proof (cases "m < 10")
    case True
    then have "unat (m + 48) = unat m + 48" using assms by (simp add: word_less_nat_alt unat_word_ariths)
    with True show ?thesis
      by (simp add: digit_def word_less_nat_alt unsigned_ucast_eq take_bit_nat_eq_self)
  next
    case False
    have u: "unat (m + 55) = unat m + 55" using assms by (simp add: unat_word_ariths)
    have "take_bit 8 (unat (m + 55)) = unat m + 55" unfolding u using assms by (simp add: take_bit_nat_eq_self)
    moreover have "digit m = ucast (m + 55)" using False by (simp add: digit_def add.commute)
    ultimately show ?thesis using False by (simp add: unsigned_ucast_eq word_less_nat_alt)
  qed
  show "digit_value (digit m) = unat m" using d by (simp add: digit_value_def)
  show "digit m \<noteq> 0" using d by (auto simp: unat_eq_zero [symmetric] simp del: unat_eq_zero split: if_splits)
  show "digit m = 48 \<longleftrightarrow> m = 0" using d
    by (auto simp: word_unat_eq_iff split: if_splits)
qed

lemma number_snoc [simp]: "number b (ds @ [c]) = number b ds * b + digit_value c"
  by (simp add: number_def)

lemma number_Nil [simp]: "number b [] = 0"
  by (simp add: number_def)

lemma itoa_number:
  assumes "2 \<le> unat base" and "unat base \<le> 36"
  shows "\<exists>ds. itoa v base = Inr ds \<and> prints_number (unat base) ds (unat v)"
  using assms
proof (induction "unat v" arbitrary: v rule: less_induct)
  case less
  have b: "unat (ucast base :: u32) = unat base"
    by (simp add: unsigned_ucast_eq take_bit_nat_eq_self_iff less_le_trans [OF unsigned_less])
  have nz: "\<not> (base = 0 \<or> base = 1 \<and> v \<noteq> 0)" using less.prems by auto
  let ?m = "v mod ucast base" and ?i = "v div ucast base"
  have um: "unat ?m = unat v mod unat base" and ui: "unat ?i = unat v div unat base"
    using b by (simp_all add: unat_mod unat_div)
  have m36: "unat ?m < 36" and mb: "unat ?m < unat base" using um less.prems
    by (auto intro: less_le_trans [OF mod_less_divisor])
  note d = digit_props [OF m36]
  show ?case
  proof (cases "?i = 0")
    case True
    then have "unat v = unat ?m" using ui um less.prems by (metis add_0 div_mult_mod_eq mult_zero_left unsigned_0)
    moreover have "itoa v base = Inr [digit ?m]" using nz True by (subst itoa.simps) (simp add: Let_def)
    ultimately show ?thesis using d mb by (auto simp: prints_number_def number_def)
  next
    case False
    have lt: "unat ?i < unat v" by (rule itoa_decreases [OF nz False])
    from less.hyps [OF lt less.prems] obtain ds where ds: "itoa ?i base = Inr ds"
      and pn: "prints_number (unat base) ds (unat ?i)" by blast
    have it: "itoa v base = Inr (ds @ [digit ?m])" using nz False ds by (subst itoa.simps) (simp add: Let_def)
    have hd: "hd ds \<noteq> 48"
    proof
      assume h: "hd ds = 48"
      with pn have "length ds = 1" by (simp add: prints_number_def)
      with h have "ds = [48]" by (cases ds) auto
      with pn have "unat ?i = 0" by (simp add: prints_number_def number_def digit_value_def)
      with False show False by (simp add: unat_eq_zero)
    qed
    have "number (unat base) (ds @ [digit ?m]) = unat v"
      using pn d(1) um ui by (simp add: prints_number_def)
    with it pn hd d mb show ?thesis by (auto simp: prints_number_def)
  qed
qed

section \<open>Printing\<close>

lemma put_bytes_behind: "length bs \<le> length ys \<Longrightarrow> put_bytes (xs @ ys) (length xs) bs = Inr ((xs @ bs) @ drop (length bs) ys)"
  by (simp add: put_bytes_def)

text \<open>What is behind the text when it ends with \<open>ps\<close>: the bytes that were there, the first one zero after a string.\<close>

definition behind :: "piece list \<Rightarrow> str \<Rightarrow> str" where
  "behind ps ys = (if ps \<noteq> [] \<and> last ps = Pct_s then ys[0 := 0] else ys)"

lemma behind_simps [simp]: "behind [] ys = ys" "behind [p] ys = (if p = Pct_s then ys[0 := 0] else ys)"
  by (simp_all add: behind_def)

lemma length_behind [simp]: "length (behind ps ys) = length ys"
  by (simp add: behind_def)

lemma behind_Cons:
  assumes "ps \<noteq> [] \<Longrightarrow> n = 0 \<Longrightarrow> last ps = Pct_s"
  shows "behind ps (drop n (behind [p] ys)) = (if ps = [] then drop n (behind [p] ys) else behind (p # ps) (drop n ys))"
  using assms by (cases n; cases ys) (auto simp: behind_def)

lemma vs_str_behind:
  assumes "length s < length ys"
  shows "vs_str (xs @ ys) (length xs) s = Inr (length (xs @ s), (xs @ s) @ (drop (length s) ys)[0 := 0])"
proof -
  obtain y zs where y: "drop (length s) ys = y # zs" using assms by (cases "drop (length s) ys") auto
  then have "drop (Suc (length s)) ys = zs" by (metis drop_Suc drop_tl list.sel(3))
  with y assms show ?thesis using put_bytes_behind [of "s @ [0]" ys xs] by (simp add: vs_str_def)
qed

lemma vs_digits_behind:
  "itoa w base = Inr ds \<Longrightarrow> length ds \<le> length ys \<Longrightarrow>
    vs_digits (xs @ ys) (length xs) w base = Inr (length (xs @ ds), (xs @ ds) @ drop (length ds) ys)"
  by (simp add: vs_digits_def put_bytes_behind)

lemma sint_cases: "sint (w :: u32) = uint w \<or> sint w = uint w - 2 ^ 32"
proof -
  have "sint w = take_bit 32 (uint w) - 2 ^ 32 * of_bool (bit (uint w) 31)"
    by (simp add: sint_uint signed_take_bit_eq_take_bit_minus)
  moreover have "take_bit 32 (uint w) = uint w" using uint_lt2p [of w] by (simp add: take_bit_int_eq_self)
  ultimately show ?thesis by auto
qed

lemma printed_pos: "0 \<le> sint w \<Longrightarrow> unat (w :: u32) = nat (sint w)"
  using sint_cases [of w] uint_lt2p [of w] by auto

lemma printed_neg: "sint w < 0 \<Longrightarrow> unat (0 - w :: u32) = nat (- sint w)"
proof -
  assume n: "sint w < 0"
  then have s: "sint w = uint w - 2 ^ 32" using sint_cases [of w] uint_ge_0 [of w] by linarith
  have "uint (0 - w) = (- uint w) mod 2 ^ 32" by (simp add: uint_word_ariths)
  also have "\<dots> = (2 ^ 32 - uint w) mod 2 ^ 32" by (simp add: mod_minus_eq)
  also have "\<dots> = 2 ^ 32 - uint w" using uint_lt2p [of w] sint_greater_eq [of w] s by (intro mod_pos_pos_trivial) auto
  finally show ?thesis using s by (metis minus_diff_eq nat_uint_eq)
qed

text \<open>One directive: what it prints, and how the loop goes on behind it.\<close>

definition goes_on :: "piece \<Rightarrow> va list \<Rightarrow> str \<Rightarrow> bool" where
  "goes_on p a out \<longleftrightarrow> (\<forall>format ap xs ys. length out < length ys \<longrightarrow>
     vsprintf_loop (fmt p @ format) (a @ ap) (length xs) (xs @ ys) =
     vsprintf_loop format ap (length (xs @ out)) ((xs @ out) @ behind [p] (drop (length out) ys)))"

lemma goes_on_lit: "c \<noteq> chr (CHR ''%'') \<Longrightarrow> goes_on (Lit c) [] [c]"
  using put_bytes_behind [of "[c]"] by (simp add: goes_on_def)

lemma goes_on_s: "goes_on Pct_s [Ptr s] s"
  by (simp add: goes_on_def ascii_def vs_str_behind del: append_assoc length_append)

lemma goes_on_c: "goes_on Pct_c [Word w] [ucast w]"
  using put_bytes_behind [of "[ucast w]"] by (simp add: goes_on_def ascii_def)

lemma goes_on_pos: "0 \<le> sint w \<Longrightarrow> itoa w 10 = Inr ds \<Longrightarrow> goes_on Pct_d [Word w] ds"
  by (simp add: goes_on_def ascii_def vs_int_def word_sless_alt vs_digits_behind del: append_assoc length_append)

lemma goes_on_x: "itoa w 16 = Inr ds \<Longrightarrow> goes_on Pct_x [Word w] ds"
  by (simp add: goes_on_def ascii_def vs_digits_behind del: append_assoc length_append)

lemma goes_on_neg:
  assumes "sint w < 0" and "itoa (0 - w) 10 = Inr ds"
  shows "goes_on Pct_d [Word w] (chr (CHR ''-'') # ds)"
proof -
  have "vs_int (xs @ ys) (length xs) w =
      Inr (length (xs @ 45 # ds), (xs @ 45 # ds) @ drop (Suc (length ds)) ys)"
    if "Suc (length ds) < length ys" for xs ys
  proof -
    have "put_bytes (xs @ ys) (length xs) [45] = Inr ((xs @ [45]) @ drop 1 ys)"
      using put_bytes_behind [of "[45]" ys xs] that by simp
    moreover have "vs_digits ((xs @ [45]) @ drop 1 ys) (length (xs @ [45])) (0 - w) 10 =
        Inr (length ((xs @ [45]) @ ds), ((xs @ [45]) @ ds) @ drop (length ds) (drop 1 ys))"
      by (rule vs_digits_behind) (use assms that in auto)
    ultimately show ?thesis using assms by (simp add: vs_int_def word_sless_alt)
  qed
  then show ?thesis by (simp add: goes_on_def ascii_def)
qed

lemma decimal_prints: "\<exists>out. prints Pct_d [Word w] out \<and> 0 \<notin> set out \<and> goes_on Pct_d [Word w] out"
proof -
  have d: "\<exists>ds. itoa v 10 = Inr ds \<and> prints_number 10 ds (unat v)" for v
    using itoa_number [of 10 v] by simp
  have nz: "prints_number b ds n \<Longrightarrow> 0 \<notin> set ds" for b ds n by (auto simp: prints_number_def)
  show ?thesis
  proof (cases "0 \<le> sint w")
    case True
    then show ?thesis using d [of w] printed_pos [of w] nz by (metis goes_on_pos prints.pos)
  next
    case False
    obtain ds where ds: "itoa (0 - w) 10 = Inr ds" "prints_number 10 ds (unat (0 - w))" using d by blast
    then have "prints Pct_d [Word w] (chr (CHR ''-'') # ds)" using False printed_neg [of w]
      by (intro prints.neg) auto
    moreover have "0 \<notin> set (chr (CHR ''-'') # ds)" using nz [OF ds(2)] by simp
    ultimately show ?thesis using goes_on_neg [of w ds] ds(1) False by fastforce
  qed
qed

lemma hex_prints: "\<exists>out. prints Pct_x [Word w] out \<and> 0 \<notin> set out \<and> goes_on Pct_x [Word w] out"
proof -
  obtain ds where "itoa w 16 = Inr ds" "prints_number 16 ds (unat w)"
    using itoa_number [of 16 w] by auto
  moreover from this(2) have "0 \<notin> set ds" by (auto simp: prints_number_def)
  ultimately show ?thesis by (metis goes_on_x prints.hex)
qed

lemma piece_prints:
  assumes "takes p a"
  shows "\<exists>out. prints p a out \<and> 0 \<notin> set out \<and> goes_on p a out"
proof (cases p)
  case (Lit c)
  with assms have "a = []" "c \<noteq> 0" "c \<noteq> chr (CHR ''%'')" by (cases a; simp)+
  with Lit show ?thesis using goes_on_lit [of c] prints.lit [of c] by (metis empty_iff empty_set set_ConsD)
next
  case Pct_s
  with assms obtain s where "a = [Ptr s]" "0 \<notin> set s"
    by (cases "(p, a)" rule: takes.cases) auto
  with Pct_s show ?thesis using goes_on_s prints.string by blast
next
  case Pct_c
  with assms obtain w where a: "a = [Word w]" and w: "ucast w \<noteq> (0 :: u8)"
    by (cases "(p, a)" rule: takes.cases) auto
  from w have "0 \<notin> set [ucast w :: u8]" by simp
  with Pct_c a show ?thesis using goes_on_c [of w] prints.char [of w] by blast
next
  case Pct_d
  with assms obtain w where "a = [Word w]" by (cases "(p, a)" rule: takes.cases) auto
  with Pct_d show ?thesis using decimal_prints by simp
next
  case Pct_x
  with assms obtain w where "a = [Word w]" by (cases "(p, a)" rule: takes.cases) auto
  with Pct_x show ?thesis using hex_prints by simp
qed

lemma prints_nothing: "prints p a [] \<Longrightarrow> p = Pct_s"
  by (erule prints.cases) (auto simp: prints_number_def)

lemma prints_nothing_list:
  "list_all2 (\<lambda>(p, a) out. prints p a out \<and> Q out) (zip ps as) outs \<Longrightarrow> length ps = length as \<Longrightarrow>
    concat outs = [] \<Longrightarrow> ps \<noteq> [] \<Longrightarrow> last ps = Pct_s"
proof (induction ps arbitrary: as outs)
  case (Cons p ps)
  then obtain a as' out outs' where e: "as = a # as'" "outs = out # outs'" by (cases as; cases outs) auto
  with Cons.prems have "p = Pct_s" using prints_nothing by auto
  moreover have "ps \<noteq> [] \<Longrightarrow> last ps = Pct_s" using Cons.prems e by (intro Cons.IH [of as' outs']) auto
  ultimately show ?case by simp
qed simp

lemma loop_prints:
  assumes "list_all2 takes ps as"
  shows "\<exists>outs. list_all2 (\<lambda>(p, a) out. prints p a out \<and> 0 \<notin> set out) (zip ps as) outs \<and>
    (\<forall>xs ys. length (concat outs) < length ys \<longrightarrow>
      vsprintf_loop (concat (map fmt ps)) (concat as) (length xs) (xs @ ys) =
      Inr (length (xs @ concat outs), (xs @ concat outs) @ behind ps (drop (length (concat outs)) ys)))"
  using assms
proof (induction ps as rule: list_all2_induct)
  case Nil
  then show ?case by simp
next
  case (Cons p ps a as)
  then obtain outs where o: "list_all2 (\<lambda>(p, a) out. prints p a out \<and> 0 \<notin> set out) (zip ps as) outs"
    and l: "\<forall>xs ys. length (concat outs) < length ys \<longrightarrow>
      vsprintf_loop (concat (map fmt ps)) (concat as) (length xs) (xs @ ys) =
      Inr (length (xs @ concat outs), (xs @ concat outs) @ behind ps (drop (length (concat outs)) ys))" by blast
  obtain out where p: "prints p a out" "0 \<notin> set out" and g: "goes_on p a out"
    using piece_prints [OF Cons.hyps(1)] by blast
  have ne: "last ps = Pct_s" if "ps \<noteq> []" "length (concat outs) = 0"
    using prints_nothing_list [OF o list_all2_lengthD [OF Cons.hyps(2)]] that by simp
  have nil: "outs = []" if "ps = []" using o that by simp
  have "vsprintf_loop (concat (map fmt (p # ps))) (concat (a # as)) (length xs) (xs @ ys) =
      Inr (length (xs @ concat (out # outs)), (xs @ concat (out # outs)) @ behind (p # ps) (drop (length (concat (out # outs))) ys))"
    if n: "length (concat (out # outs)) < length ys" for xs ys
  proof -
    let ?r = "behind [p] (drop (length out) ys)"
    have "vsprintf_loop (fmt p @ concat (map fmt ps)) (a @ concat as) (length xs) (xs @ ys) =
        vsprintf_loop (concat (map fmt ps)) (concat as) (length (xs @ out)) ((xs @ out) @ ?r)"
      using g n unfolding goes_on_def by simp
    also have "\<dots> = Inr (length ((xs @ out) @ concat outs), ((xs @ out) @ concat outs) @ behind ps (drop (length (concat outs)) ?r))"
      by (rule l [rule_format]) (use n in \<open>simp del: behind_simps\<close>)
    also have "behind ps (drop (length (concat outs)) ?r) = behind (p # ps) (drop (length (concat (out # outs))) ys)"
      using behind_Cons [of ps "length (concat outs)" p "drop (length out) ys"] ne nil
      by (cases "ps = []") (simp_all add: add.commute)
    finally show ?thesis by simp
  qed
  with o p show ?case by (intro exI [of _ "out # outs"]) simp
qed

lemma c_string_append: "0 \<notin> set xs \<Longrightarrow> c_string (xs @ ys) = xs @ c_string ys"
  unfolding c_string_def by (subst takeWhile_append2) auto

lemma buf_strlen_append:
  "0 \<notin> set xs \<Longrightarrow> buf_strlen (xs @ ys) = rbind (buf_strlen ys) (\<lambda>n. Inr (length xs + n))"
  by (simp add: buf_strlen_def c_string_append guard_def)

lemma behind_zeros [simp]: "behind ps (replicate k 0) = replicate k 0"
  by (cases k) (simp_all add: behind_def)

lemma c_string_zeros: "0 \<notin> set xs \<Longrightarrow> c_string (xs @ replicate k 0) = xs"
  by (induction xs) (auto simp: c_string_def takeWhile_replicate)

lemma buf_strlen_zeros: "0 \<notin> set xs \<Longrightarrow> 0 < k \<Longrightarrow> buf_strlen (xs @ replicate k 0) = Inr (length xs)"
  by (simp add: buf_strlen_def c_string_zeros)

text \<open>
  C33. Into any buffer that has room, \<^verbatim>\<open>vsprintf\<close> prints for every directive of any format what belongs there (a literal byte,
  the string, the byte, the decimal digits of the signed number, the hexadecimal digits of the unsigned one, canonical in each
  case). It writes no terminator, except that of a string the format ends with: behind the text the bytes of the buffer stay, and
  the result is the length of the text and of the string that begins behind it, an overrun when no zero follows. For a cleared
  buffer, like that of \<^verbatim>\<open>printf\<close>, it is the length of the text, which \<^verbatim>\<open>printf\<close> then passes to \<^verbatim>\<open>write\<close>.
\<close>

theorem vsprintf_prints:
  assumes "list_all2 takes ps as"
  shows "\<exists>outs. list_all2 (\<lambda>(p, a) out. prints p a out) (zip ps as) outs \<and>
    (\<forall>buf. length (concat outs) < length buf \<longrightarrow>
       (let rest = behind ps (drop (length (concat outs)) buf)
        in vsprintf buf (concat (map fmt ps)) (concat as) =
           (if 0 \<in> set rest then Inr (length (concat outs) + length (c_string rest), concat outs @ rest) else Inl Out_of_bounds))) \<and>
    (length (concat outs) < 1024 \<longrightarrow>
       printf (concat (map fmt ps)) (concat as) = Inr (length (concat outs), concat outs))"
proof -
  from loop_prints [OF assms] obtain outs where
    o: "list_all2 (\<lambda>(p, a) out. prints p a out \<and> 0 \<notin> set out) (zip ps as) outs" and
    l: "\<And>xs ys. length (concat outs) < length ys \<Longrightarrow>
      vsprintf_loop (concat (map fmt ps)) (concat as) (length xs) (xs @ ys) =
      Inr (length (xs @ concat outs), (xs @ concat outs) @ behind ps (drop (length (concat outs)) ys))" by blast
  have "0 \<notin> set out" if "out \<in> set outs" for out
    using list_all2_nthD2 [OF o] that by (force simp: in_set_conv_nth split: prod.splits)
  then have z: "0 \<notin> set (concat outs)" by auto
  have v: "vsprintf buf (concat (map fmt ps)) (concat as) = rbind (buf_strlen (behind ps (drop (length (concat outs)) buf)))
      (\<lambda>n. Inr (length (concat outs) + n, concat outs @ behind ps (drop (length (concat outs)) buf)))"
    if "length (concat outs) < length buf" for buf
    using l [OF that, of "[]"] buf_strlen_append [OF z]
    by (cases "buf_strlen (behind ps (drop (length (concat outs)) buf))") (simp_all add: vsprintf_def)
  let ?k = "1024 - length (concat outs)"
  have "printf (concat (map fmt ps)) (concat as) = Inr (length (concat outs), concat outs)" if "length (concat outs) < 1024"
    using v [of "replicate 1024 0"] buf_strlen_zeros [of "[]" ?k] buf_strlen_zeros [OF z, of ?k] that
    by (simp add: printf_def del: replicate.simps)
  moreover have "list_all2 (\<lambda>(p, a) out. prints p a out) (zip ps as) outs"
    using o by (rule list_all2_mono) auto
  ultimately show ?thesis using v by (intro exI [of _ outs]) (auto simp: Let_def buf_strlen_def guard_def)
qed

text \<open>A cleared buffer, and one in which two bytes were left behind the text.\<close>

theorem vsprintf_prints_witness:
  "\<exists>outs. list_all2 (\<lambda>(p, a) out. prints p a out)
     (zip [Lit 80, Pct_d, Pct_s, Pct_x] [[], [Word (- 7)], [Ptr (ascii ''ab'')], [Word 255]]) outs \<and>
   vsprintf (replicate (length (concat outs)) 9 @ [0]) (concat (map fmt [Lit 80, Pct_d, Pct_s, Pct_x]))
     (concat [[], [Word (- 7)], [Ptr (ascii ''ab'')], [Word 255]]) = Inr (length (concat outs), concat outs @ [0]) \<and>
   vsprintf (replicate (length (concat outs)) 9 @ [9, 9, 0]) (concat (map fmt [Lit 80, Pct_d, Pct_s, Pct_x]))
     (concat [[], [Word (- 7)], [Ptr (ascii ''ab'')], [Word 255]]) = Inr (length (concat outs) + 2, concat outs @ [9, 9, 0])"
proof -
  have "list_all2 takes [Lit 80, Pct_d, Pct_s, Pct_x] [[], [Word (- 7)], [Ptr (ascii ''ab'')], [Word 255]]"
    by (simp add: ascii_def)
  from vsprintf_prints [OF this] obtain outs where
    o: "list_all2 (\<lambda>(p, a) out. prints p a out)
      (zip [Lit 80, Pct_d, Pct_s, Pct_x] [[], [Word (- 7)], [Ptr (ascii ''ab'')], [Word 255]]) outs"
    and v: "\<And>buf. length (concat outs) < length buf \<Longrightarrow>
       (let rest = behind [Lit 80, Pct_d, Pct_s, Pct_x] (drop (length (concat outs)) buf)
        in vsprintf buf (concat (map fmt [Lit 80, Pct_d, Pct_s, Pct_x]))
         (concat [[], [Word (- 7)], [Ptr (ascii ''ab'')], [Word 255]]) =
           (if 0 \<in> set rest then Inr (length (concat outs) + length (c_string rest), concat outs @ rest) else Inl Out_of_bounds))"
    by blast
  show ?thesis
    by (rule exI [of _ outs], intro conjI)
      (use o v [of "replicate (length (concat outs)) 9 @ [0]"] v [of "replicate (length (concat outs)) 9 @ [9, 9, 0]"]
        in \<open>simp_all add: behind_def c_string_def Let_def del: concat.simps list.map\<close>)
qed

end
