(* ===== verification/Boot.thy ===== *)
theory Boot
  imports Sched Stdio
begin

text \<open>
  What is set up once: the interrupt controller, the interrupt names and handlers of
  \<^verbatim>\<open>kernel/interrupt.c\<close>, the task state segment and the descriptors of \<^verbatim>\<open>userprog/tss.c\<close>, the timer
  of \<^verbatim>\<open>device/timer.c\<close> with the sleeping functions, and the system calls of
  \<^verbatim>\<open>userprog/syscall-init.c\<close> and \<^verbatim>\<open>lib/user/syscall.c\<close>.

  A write to a port is the pair of port and byte, and a function that only writes ports is the
  list of its writes.
\<close>

section \<open>The interrupt controller and the exceptions\<close>

definition pic_init :: "(u16 \<times> u8) list" where
  "pic_init =
     [(0x20, 0x11), (0x21, 0x20), (0x21, 0x04), (0x21, 0x01),
      (0xa0, 0x11), (0xa1, 0x28), (0xa1, 0x02), (0xa1, 0x01),
      (0x21, 0xf8), (0xa1, 0xbf)]"

text \<open>The operand of \<^verbatim>\<open>lidt\<close> for the table at address \<open>idt\<close>: a descriptor has 8 bytes.\<close>

definition idt_operand :: "u32 \<Rightarrow> 64 word" where
  "idt_operand idt = (of_nat (8 * IDT_DESC_CNT) - 1) OR push_bit 16 (ucast idt)"

datatype handler = General_intr_handler | Handler u32

definition idt_table_init :: "handler list" where
  "idt_table_init = replicate IDT_DESC_CNT General_intr_handler"

definition intr_name_init :: "str list" where
  "intr_name_init =
     (replicate IDT_DESC_CNT (ascii ''unknown''))
       [0 := ascii ''#DE Divide Error'', 1 := ascii ''#DB Debug Exception'', 2 := ascii ''NMI Interrupt'',
        3 := ascii ''#BP Breakpoint Exception'', 4 := ascii ''#OF overflow Exception'',
        5 := ascii ''#BR BOUND Range Exceeded Exception'', 6 := ascii ''#UD Invalid Opcode Exception'',
        7 := ascii ''#NM Device Not Availible Exception'', 8 := ascii ''#DF Double Fault Exception'',
        9 := ascii ''Coprocessor Segment Overrun'', 10 := ascii ''#TS Invalid TSS Exception '',
        11 := ascii ''#NP Segment Not Present'', 12 := ascii ''#SS Stack Fault Exception'',
        13 := ascii ''#GP General Protection Exception'', 14 := ascii ''#PF Page-Fault Exception'',
        16 := ascii ''#MF x87 FPU Floationg-Point Error'', 17 := ascii ''#AC Alignment Check Exception'',
        18 := ascii ''#MC Machine-Check Exception'', 19 := ascii ''#XF SIMD Floating-Point Exception'']"

text \<open>
  \<^verbatim>\<open>general_intr_handler\<close>: spurious interrupts are ignored, anything else prints and never returns.
\<close>

definition general_intr_handler :: "u8 \<Rightarrow> unit res" where
  "general_intr_handler vec_nr = (if vec_nr = 0x27 \<or> vec_nr = 0x2f then Inr () else Inl Hang)"

text \<open>What an interrupt runs: the entry of \<^verbatim>\<open>idt_table\<close> for its vector.\<close>

definition exception_init :: "handler list \<times> str list" where
  "exception_init = (idt_table_init, intr_name_init)"

section \<open>Segments\<close>

record gdt_desc =
  limit_low_word :: u16
  base_low_word :: u16
  base_mid_byte :: u8
  attr_low_byte :: u8
  limit_high_attr_high :: u8
  base_high_byte :: u8

definition make_gdt_desc :: "u32 \<Rightarrow> u32 \<Rightarrow> u8 \<Rightarrow> u8 \<Rightarrow> gdt_desc" where
  "make_gdt_desc desc_base limit attr_low attr_high =
     \<lparr>limit_low_word = ucast (limit AND 0x0000ffff),
      base_low_word = ucast (desc_base AND 0x0000ffff),
      base_mid_byte = ucast (drop_bit 16 (desc_base AND 0x00ff0000)),
      attr_low_byte = attr_low,
      limit_high_attr_high = ucast (drop_bit 16 (limit AND 0x000f0000)) + attr_high,
      base_high_byte = ucast (drop_bit 24 desc_base)\<rparr>"

definition GDT_ATTR_HIGH :: u8 where
  "GDT_ATTR_HIGH = push_bit 7 1 + push_bit 6 1 + push_bit 5 0 + push_bit 4 0"
definition GDT_CODE_ATTR_LOW_DPL3 :: u8 where
  "GDT_CODE_ATTR_LOW_DPL3 = push_bit 7 1 + push_bit 5 3 + push_bit 4 1 + 8"
definition GDT_DATA_ATTR_LOW_DPL3 :: u8 where
  "GDT_DATA_ATTR_LOW_DPL3 = push_bit 7 1 + push_bit 5 3 + push_bit 4 1 + 2"
definition TSS_ATTR_HIGH :: u8 where
  "TSS_ATTR_HIGH = push_bit 7 1 + push_bit 6 0 + push_bit 5 0 + push_bit 4 0 + 0x0"
definition TSS_ATTR_LOW :: u8 where
  "TSS_ATTR_LOW = push_bit 7 1 + push_bit 5 0 + push_bit 4 0 + 9"
definition SELECTOR_TSS :: u16 where "SELECTOR_TSS = push_bit 3 4 + push_bit 2 0 + 0"
definition SELECTOR_K_STACK :: u16 where "SELECTOR_K_STACK = push_bit 3 2 + push_bit 2 0 + 0"

record tss =
  tss_backlink :: u32
  tss_esp0 :: u32
  tss_ss0 :: u32
  tss_esp1 :: u32
  tss_ss1 :: u32
  tss_esp2 :: u32
  tss_ss2 :: u32
  tss_esp3 :: u32
  tss_ss3 :: u32
  tss_cr3 :: u32
  tss_eip :: u32
  tss_eflags :: u32
  tss_eax :: u32
  tss_ecx :: u32
  tss_edx :: u32
  tss_ebx :: u32
  tss_esp :: u32
  tss_ebp :: u32
  tss_esi :: u32
  tss_edi :: u32
  tss_es :: u32
  tss_cs :: u32
  tss_ss :: u32
  tss_ds :: u32
  tss_fs :: u32
  tss_gs :: u32
  tss_ldt :: u32
  tss_trace :: u32
  tss_io_base :: u32

definition sizeof_tss :: u32 where "sizeof_tss = 29 * 4"

definition zero_tss :: tss where
  "zero_tss = \<lparr>tss_backlink = 0, tss_esp0 = 0, tss_ss0 = 0, tss_esp1 = 0, tss_ss1 = 0, tss_esp2 = 0, tss_ss2 = 0,
     tss_esp3 = 0, tss_ss3 = 0, tss_cr3 = 0, tss_eip = 0, tss_eflags = 0, tss_eax = 0, tss_ecx = 0, tss_edx = 0,
     tss_ebx = 0, tss_esp = 0, tss_ebp = 0, tss_esi = 0, tss_edi = 0, tss_es = 0, tss_cs = 0, tss_ss = 0, tss_ds = 0,
     tss_fs = 0, tss_gs = 0, tss_ldt = 0, tss_trace = 0, tss_io_base = 0\<rparr>"

text \<open>The segment registers of the machine: the descriptors in memory, \<^verbatim>\<open>gdtr\<close> and \<^verbatim>\<open>tr\<close>.\<close>

record segments =
  the_tss :: tss
  gdt_mem :: "u32 \<Rightarrow> gdt_desc"
  gdtr :: "64 word"
  tr :: u16

text \<open>\<open>tss_at\<close> is the address of \<^verbatim>\<open>tss\<close>.\<close>

definition tss_init :: "u32 \<Rightarrow> segments \<Rightarrow> segments" where
  "tss_init tss_at s =
     (let tss_size = sizeof_tss;
          s = s\<lparr>the_tss := zero_tss\<lparr>tss_ss0 := ucast SELECTOR_K_STACK, tss_io_base := tss_size\<rparr>\<rparr>;
          s = s\<lparr>gdt_mem := (gdt_mem s)(0xc0000920 := make_gdt_desc tss_at (tss_size - 1) TSS_ATTR_LOW TSS_ATTR_HIGH)\<rparr>;
          s = s\<lparr>gdt_mem := (gdt_mem s)(0xc0000928 := make_gdt_desc 0 0xfffff GDT_CODE_ATTR_LOW_DPL3 GDT_ATTR_HIGH)\<rparr>;
          s = s\<lparr>gdt_mem := (gdt_mem s)(0xc0000930 := make_gdt_desc 0 0xfffff GDT_DATA_ATTR_LOW_DPL3 GDT_ATTR_HIGH)\<rparr>;
          gdt_operand = (8 * 7 - 1) OR push_bit 16 (ucast (0xc0000900 :: u32))
      in s\<lparr>gdtr := gdt_operand, tr := SELECTOR_TSS\<rparr>)"

section \<open>The timer\<close>

definition IRQ0_FREQUENCY :: u32 where "IRQ0_FREQUENCY = 30000"
definition INPUT_FREQUENCY :: u32 where "INPUT_FREQUENCY = 1193180"
definition COUNTER0_VALUE :: u32 where "COUNTER0_VALUE = INPUT_FREQUENCY div IRQ0_FREQUENCY"
definition mil_seconds_per_intr :: u32 where "mil_seconds_per_intr = 10"

definition frequency_set :: "u16 \<Rightarrow> u8 \<Rightarrow> u8 \<Rightarrow> u8 \<Rightarrow> u16 \<Rightarrow> (u16 \<times> u8) list" where
  "frequency_set counter_port counter_no rwl counter_mode counter_value =
     [(0x43, push_bit 6 counter_no OR push_bit 4 rwl OR push_bit 1 counter_mode),
      (counter_port, ucast counter_value),
      (counter_port, ucast (drop_bit 8 counter_value))]"

definition timer_init :: "u32 \<Rightarrow> handler list \<Rightarrow> (handler list \<times> (u16 \<times> u8) list) res" where
  "timer_init intr_timer_handler_at idt_table =
     rbind (register_handler idt_table 0x20 (Handler intr_timer_handler_at)) (\<lambda>t.
     Inr (t, frequency_set 0x40 0 3 2 (ucast COUNTER0_VALUE)))"

text \<open>
  Sleeping gives the processor away until enough ticks have passed: \<open>None\<close> when it did, and
  the loop goes on with \<open>ticks_to_sleep_again\<close> when the thread runs again.
\<close>

definition ticks_to_sleep_again :: "u32 \<Rightarrow> u32 \<Rightarrow> u32 \<Rightarrow> kernel \<Rightarrow> (unit option \<times> kernel) res" where
  "ticks_to_sleep_again start_ticks sleep_ticks ret s =
     (if total_ticks s - start_ticks < sleep_ticks
      then rbind (thread_yield ret s) (\<lambda>s. Inr (None, s))
      else Inr (Some (), s))"

definition ticks_to_sleep :: "u32 \<Rightarrow> u32 \<Rightarrow> kernel \<Rightarrow> (unit option \<times> kernel) res" where
  "ticks_to_sleep sleep_ticks ret s = ticks_to_sleep_again (total_ticks s) sleep_ticks ret s"

definition mtime_sleep :: "u32 \<Rightarrow> u32 \<Rightarrow> kernel \<Rightarrow> (unit option \<times> kernel) res" where
  "mtime_sleep m_seconds ret s =
     (let sleep_ticks = (m_seconds + mil_seconds_per_intr - 1) div mil_seconds_per_intr
      in rbind (c_assert (sleep_ticks > 0)) (\<lambda>_. ticks_to_sleep sleep_ticks ret s))"

section \<open>System calls\<close>

text \<open>The numbers, as the enumeration gives them.\<close>

datatype syscall_nr =
  SYS_GETPID | SYS_WRITE | SYS_MALLOC | SYS_FREE | SYS_FORK | SYS_READ | SYS_PUTCHAR | SYS_CLEAR | SYS_GETCWD
| SYS_OPEN | SYS_CLOSE | SYS_LSEEK | SYS_UNLINK | SYS_MKDIR | SYS_OPENDIR | SYS_CLOSEDIR | SYS_CHDIR | SYS_RMDIR
| SYS_READDIR | SYS_REWINDDIR | SYS_STAT | SYS_PS | SYS_EXECV

fun nr :: "syscall_nr \<Rightarrow> nat" where
  "nr SYS_GETPID = 0" | "nr SYS_WRITE = 1" | "nr SYS_MALLOC = 2" | "nr SYS_FREE = 3" | "nr SYS_FORK = 4"
| "nr SYS_READ = 5" | "nr SYS_PUTCHAR = 6" | "nr SYS_CLEAR = 7" | "nr SYS_GETCWD = 8" | "nr SYS_OPEN = 9"
| "nr SYS_CLOSE = 10" | "nr SYS_LSEEK = 11" | "nr SYS_UNLINK = 12" | "nr SYS_MKDIR = 13" | "nr SYS_OPENDIR = 14"
| "nr SYS_CLOSEDIR = 15" | "nr SYS_CHDIR = 16" | "nr SYS_RMDIR = 17" | "nr SYS_READDIR = 18" | "nr SYS_REWINDDIR = 19"
| "nr SYS_STAT = 20" | "nr SYS_PS = 21" | "nr SYS_EXECV = 22"

text \<open>The functions of the kernel the table points to.\<close>

datatype sysfn =
  Getpid | Write | Malloc | Free | Fork | Read | Putchar | Cls_screen | Getcwd | Open | Close | Lseek | Unlink
| Mkdir | Opendir | Closedir | Rmdir | Readdir | Rewinddir | Stat | Chdir | Ps | Execv

definition syscall_init :: "sysfn option list" where
  "syscall_init = (replicate 32 None)
     [nr SYS_GETPID := Some Getpid, nr SYS_WRITE := Some Write, nr SYS_MALLOC := Some Malloc, nr SYS_FREE := Some Free,
      nr SYS_FORK := Some Fork, nr SYS_READ := Some Read, nr SYS_PUTCHAR := Some Putchar, nr SYS_CLEAR := Some Cls_screen,
      nr SYS_GETCWD := Some Getcwd, nr SYS_OPEN := Some Open, nr SYS_CLOSE := Some Close, nr SYS_LSEEK := Some Lseek,
      nr SYS_UNLINK := Some Unlink, nr SYS_MKDIR := Some Mkdir, nr SYS_OPENDIR := Some Opendir,
      nr SYS_CLOSEDIR := Some Closedir, nr SYS_RMDIR := Some Rmdir, nr SYS_READDIR := Some Readdir,
      nr SYS_REWINDDIR := Some Rewinddir, nr SYS_STAT := Some Stat, nr SYS_CHDIR := Some Chdir, nr SYS_PS := Some Ps,
      nr SYS_EXECV := Some Execv]"

text \<open>The registers at \<^verbatim>\<open>int $0x80\<close>: \<open>r\<close> holds what the unused ones happen to contain.\<close>

record trap =
  t_eax :: u32
  t_ebx :: u32
  t_ecx :: u32
  t_edx :: u32

definition syscall0 :: "trap \<Rightarrow> syscall_nr \<Rightarrow> trap" where "syscall0 r n = r\<lparr>t_eax := of_nat (nr n)\<rparr>"
definition syscall1 :: "trap \<Rightarrow> syscall_nr \<Rightarrow> u32 \<Rightarrow> trap" where
  "syscall1 r n a = r\<lparr>t_eax := of_nat (nr n), t_ebx := a\<rparr>"
definition syscall2 :: "trap \<Rightarrow> syscall_nr \<Rightarrow> u32 \<Rightarrow> u32 \<Rightarrow> trap" where
  "syscall2 r n a b = r\<lparr>t_eax := of_nat (nr n), t_ebx := a, t_ecx := b\<rparr>"
definition syscall3 :: "trap \<Rightarrow> syscall_nr \<Rightarrow> u32 \<Rightarrow> u32 \<Rightarrow> u32 \<Rightarrow> trap" where
  "syscall3 r n a b c = r\<lparr>t_eax := of_nat (nr n), t_ebx := a, t_ecx := b, t_edx := c\<rparr>"

text \<open>
  \<^verbatim>\<open>syscall_handler\<close> pushes the three registers and calls through the table without looking at the
  number: an entry that is not set, or not there, is a jump to whatever the word says.
\<close>

definition syscall_dispatch :: "sysfn option list \<Rightarrow> trap \<Rightarrow> (sysfn \<times> u32 list) res" where
  "syscall_dispatch table r =
     rbind (aread table (unat (t_eax r))) (\<lambda>f. case f of None \<Rightarrow> Inl Out_of_bounds
     | Some g \<Rightarrow> Inr (g, [t_ebx r, t_ecx r, t_edx r]))"

text \<open>An argument of 8 bits fills its register extended as its type says.\<close>

definition lib_getpid :: "trap \<Rightarrow> trap" where "lib_getpid r = syscall0 r SYS_GETPID"
definition lib_write :: "trap \<Rightarrow> u32 \<Rightarrow> u32 \<Rightarrow> u32 \<Rightarrow> trap" where "lib_write r fd buf count = syscall3 r SYS_WRITE fd buf count"
definition lib_malloc :: "trap \<Rightarrow> u32 \<Rightarrow> trap" where "lib_malloc r sz = syscall1 r SYS_MALLOC sz"
definition lib_free :: "trap \<Rightarrow> u32 \<Rightarrow> trap" where "lib_free r ptr = syscall1 r SYS_FREE ptr"
definition lib_fork :: "trap \<Rightarrow> trap" where "lib_fork r = syscall0 r SYS_FORK"
definition lib_read :: "trap \<Rightarrow> u32 \<Rightarrow> u32 \<Rightarrow> u32 \<Rightarrow> trap" where "lib_read r fd buf count = syscall3 r SYS_READ fd buf count"
definition lib_putchar :: "trap \<Rightarrow> u8 \<Rightarrow> trap" where "lib_putchar r char_ascii = syscall1 r SYS_PUTCHAR (scast char_ascii)"
definition lib_clear :: "trap \<Rightarrow> trap" where "lib_clear r = syscall0 r SYS_CLEAR"
definition lib_getcwd :: "trap \<Rightarrow> u32 \<Rightarrow> u32 \<Rightarrow> trap" where "lib_getcwd r buf sz = syscall2 r SYS_GETCWD buf sz"
definition lib_open :: "trap \<Rightarrow> u32 \<Rightarrow> u8 \<Rightarrow> trap" where "lib_open r pathname flag = syscall2 r SYS_OPEN pathname (ucast flag)"
definition lib_close :: "trap \<Rightarrow> u32 \<Rightarrow> trap" where "lib_close r fd = syscall1 r SYS_CLOSE fd"
definition lib_lseek :: "trap \<Rightarrow> u32 \<Rightarrow> u32 \<Rightarrow> u8 \<Rightarrow> trap" where "lib_lseek r fd offset whence = syscall3 r SYS_LSEEK fd offset (ucast whence)"
definition lib_unlink :: "trap \<Rightarrow> u32 \<Rightarrow> trap" where "lib_unlink r pathname = syscall1 r SYS_UNLINK pathname"
definition lib_mkdir :: "trap \<Rightarrow> u32 \<Rightarrow> trap" where "lib_mkdir r pathname = syscall1 r SYS_MKDIR pathname"
definition lib_opendir :: "trap \<Rightarrow> u32 \<Rightarrow> trap" where "lib_opendir r name = syscall1 r SYS_OPENDIR name"
definition lib_closedir :: "trap \<Rightarrow> u32 \<Rightarrow> trap" where "lib_closedir r dir = syscall1 r SYS_CLOSEDIR dir"
definition lib_rmdir :: "trap \<Rightarrow> u32 \<Rightarrow> trap" where "lib_rmdir r pathname = syscall1 r SYS_RMDIR pathname"
definition lib_readdir :: "trap \<Rightarrow> u32 \<Rightarrow> trap" where "lib_readdir r dir = syscall1 r SYS_READDIR dir"
definition lib_rewinddir :: "trap \<Rightarrow> u32 \<Rightarrow> trap" where "lib_rewinddir r dir = syscall1 r SYS_REWINDDIR dir"
definition lib_stat :: "trap \<Rightarrow> u32 \<Rightarrow> u32 \<Rightarrow> trap" where "lib_stat r path buf = syscall2 r SYS_STAT path buf"
definition lib_chdir :: "trap \<Rightarrow> u32 \<Rightarrow> trap" where "lib_chdir r path = syscall1 r SYS_CHDIR path"
definition lib_ps :: "trap \<Rightarrow> trap" where "lib_ps r = syscall0 r SYS_PS"
definition lib_execv :: "trap \<Rightarrow> u32 \<Rightarrow> u32 \<Rightarrow> trap" where "lib_execv r path argv = syscall2 r SYS_EXECV path argv"

section \<open>Properties\<close>

text \<open>Base and limit of a descriptor, and the descriptor a selector selects.\<close>

definition gdt_base :: "gdt_desc \<Rightarrow> u32" where
  "gdt_base d = ucast (base_low_word d) OR push_bit 16 (ucast (base_mid_byte d)) OR push_bit 24 (ucast (base_high_byte d))"

definition gdt_limit :: "gdt_desc \<Rightarrow> u32" where
  "gdt_limit d = ucast (limit_low_word d) OR push_bit 16 (ucast (limit_high_attr_high d AND 0xf))"

definition segment :: "segments \<Rightarrow> u16 \<Rightarrow> gdt_desc" where
  "segment s sel = gdt_mem s (ucast (drop_bit 16 (gdtr s)) + ucast (sel AND 0xfff8))"

lemma gdt_base_make [simp]: "gdt_base (make_gdt_desc b l lo hi) = b"
proof (rule bit_word_eqI)
  fix i assume i: "i < LENGTH(32)"
  have m: "(0xffff :: u32) = mask 16" "(0xff0000 :: u32) = push_bit 16 (mask 8)"
    by (simp_all add: mask_eq_exp_minus_1 push_bit_eq_mult)
  consider "i < 16" | "16 \<le> i" "i < 24" | "24 \<le> i" "i < 32" using i by fastforce
  then show "bit (gdt_base (make_gdt_desc b l lo hi)) i = bit b i"
    by cases (use i in \<open>auto simp: gdt_base_def make_gdt_desc_def m word_bit_simps\<close>)
qed

lemma low_nibble:
  assumes "hi AND 0xf = (0 :: u8)" and "i < 4"
  shows "\<not> bit hi i"
proof
  assume "bit hi i"
  then have "bit (hi AND mask 4) i" using assms(2) by (simp add: bit_and_iff bit_mask_iff bit_u8_less)
  then have "bit (hi AND 0xf) i" by (simp add: mask_eq_exp_minus_1)
  with assms(1) show False by simp
qed

lemma gdt_attr_or:
  assumes "hi AND 0xf = (0 :: u8)"
  shows "ucast (drop_bit 16 (l AND 0x000f0000 :: u32)) + hi = ucast (drop_bit 16 (l AND 0x000f0000)) OR hi"
proof (intro disjunctive_add_eq_or)
  have m: "(0xf :: u8) = mask 4" "(0x000f0000 :: u32) = push_bit 16 (mask 4)"
    by (simp_all add: mask_eq_exp_minus_1 push_bit_eq_mult)
  note h = low_nibble [OF assms]
  have "\<not> bit (ucast (drop_bit 16 (l AND 0x000f0000)) AND hi) i" for i
    using h [of i] unfolding m by (auto simp: word_bit_simps)
  then show "ucast (drop_bit 16 (l AND 0x000f0000)) AND hi = 0" by (simp add: bit_eq_iff)
qed

lemma gdt_limit_make:
  assumes "l < 2 ^ 20" and "hi AND 0xf = (0 :: u8)"
  shows "gdt_limit (make_gdt_desc b l lo hi) = l"
proof (rule bit_word_eqI)
  fix i assume i: "i < LENGTH(32)"
  have m: "(0xffff :: u32) = mask 16" "(0xf0000 :: u32) = push_bit 16 (mask 4)" "(0xf :: u8) = mask 4"
    by (simp_all add: mask_eq_exp_minus_1 push_bit_eq_mult)
  note h = low_nibble [OF assms(2)]
  have e: "limit_high_attr_high (make_gdt_desc b l lo hi) = ucast (drop_bit 16 (l AND 0x000f0000)) OR hi"
    using gdt_attr_or [OF assms(2)] by (simp add: make_gdt_desc_def)
  consider "i < 16" | "16 \<le> i" "i < 20" | "20 \<le> i" by fastforce
  then show "bit (gdt_limit (make_gdt_desc b l lo hi)) i = bit l i"
  proof cases
    case 1
    then show ?thesis using i by (auto simp: gdt_limit_def make_gdt_desc_def m word_bit_simps)
  next
    case 2
    then show ?thesis using i h [of "i - 16"] unfolding gdt_limit_def e
      by (auto simp: make_gdt_desc_def m word_bit_simps)
  next
    case 3
    then show ?thesis using i small_bits [OF assms(1), of i] unfolding gdt_limit_def e
      by (auto simp: make_gdt_desc_def m word_bit_simps)
  qed
qed

lemma segment_tss_init:
  "segment (tss_init a s) 0x20 = make_gdt_desc a (sizeof_tss - 1) TSS_ATTR_LOW TSS_ATTR_HIGH"
  "segment (tss_init a s) 0x2b = make_gdt_desc 0 0xfffff GDT_CODE_ATTR_LOW_DPL3 GDT_ATTR_HIGH"
  "segment (tss_init a s) 0x33 = make_gdt_desc 0 0xfffff GDT_DATA_ATTR_LOW_DPL3 GDT_ATTR_HIGH"
  by (simp_all add: segment_def tss_init_def Let_def)

text \<open>
  After \<^verbatim>\<open>tss_init\<close> the task register selects a descriptor of the task state segment with
  its address and size, the selectors that user processes run with select flat code and data
  segments of privilege level 3, and all three lie inside the limit loaded with \<^verbatim>\<open>lgdt\<close>.
\<close>

theorem tss_init_segments:
  "let s' = tss_init a s; tss_d = segment s' (tr s'); code = segment s' (push_bit 3 5 + 3); data = segment s' (push_bit 3 6 + 3)
   in gdt_base tss_d = a \<and> gdt_limit tss_d = sizeof_tss - 1 \<and>
      gdt_base code = 0 \<and> gdt_limit code = 0xfffff \<and> attr_low_byte code AND 0x60 = 0x60 \<and>
      gdt_base data = 0 \<and> gdt_limit data = 0xfffff \<and> attr_low_byte data AND 0x60 = 0x60 \<and>
      uint (push_bit 3 6 :: u16) + 7 \<le> uint (gdtr s' AND 0xffff) \<and>
      tss_ss0 (the_tss s') = ucast SELECTOR_K_STACK"
proof -
  have tr: "tr (tss_init a s) = 0x20" by (simp add: tss_init_def SELECTOR_TSS_def Let_def)
  have hi: "TSS_ATTR_HIGH AND 0xf = 0" "GDT_ATTR_HIGH AND 0xf = 0"
    by (simp_all add: TSS_ATTR_HIGH_def GDT_ATTR_HIGH_def)
  have "gdt_limit (make_gdt_desc a (sizeof_tss - 1) TSS_ATTR_LOW TSS_ATTR_HIGH) = sizeof_tss - 1"
    by (rule gdt_limit_make) (simp_all add: hi sizeof_tss_def)
  moreover have "gdt_limit (make_gdt_desc 0 0xfffff at GDT_ATTR_HIGH) = 0xfffff" for at
    by (rule gdt_limit_make) (simp_all add: hi)
  moreover have "attr_low_byte (make_gdt_desc 0 0xfffff GDT_CODE_ATTR_LOW_DPL3 GDT_ATTR_HIGH) AND 0x60 = 0x60"
    "attr_low_byte (make_gdt_desc 0 0xfffff GDT_DATA_ATTR_LOW_DPL3 GDT_ATTR_HIGH) AND 0x60 = 0x60"
    by (simp_all add: make_gdt_desc_def GDT_CODE_ATTR_LOW_DPL3_def GDT_DATA_ATTR_LOW_DPL3_def)
  moreover have "uint (gdtr (tss_init a s) AND 0xffff) = 55" "tss_ss0 (the_tss (tss_init a s)) = ucast SELECTOR_K_STACK"
    by (simp_all add: tss_init_def Let_def)
  ultimately show ?thesis by (simp add: Let_def tr segment_tss_init)
qed

text \<open>
  C26. Every function of the user library traps with the number of the kernel function of its name,
  and \<^verbatim>\<open>syscall_handler\<close> passes it the arguments in order, those of 8 bits extended to a word.
\<close>

theorem syscalls_reach:
  "let d = syscall_dispatch syscall_init in
   d (lib_getpid r) = Inr (Getpid, [t_ebx r, t_ecx r, t_edx r]) \<and> d (lib_write r a b c) = Inr (Write, [a, b, c]) \<and>
   d (lib_malloc r a) = Inr (Malloc, [a, t_ecx r, t_edx r]) \<and> d (lib_free r a) = Inr (Free, [a, t_ecx r, t_edx r]) \<and>
   d (lib_fork r) = Inr (Fork, [t_ebx r, t_ecx r, t_edx r]) \<and> d (lib_read r a b c) = Inr (Read, [a, b, c]) \<and>
   d (lib_putchar r ch) = Inr (Putchar, [scast ch, t_ecx r, t_edx r]) \<and> d (lib_clear r) = Inr (Cls_screen, [t_ebx r, t_ecx r, t_edx r]) \<and>
   d (lib_getcwd r a b) = Inr (Getcwd, [a, b, t_edx r]) \<and> d (lib_open r a fl) = Inr (Open, [a, ucast fl, t_edx r]) \<and>
   d (lib_close r a) = Inr (Close, [a, t_ecx r, t_edx r]) \<and> d (lib_lseek r a b wh) = Inr (Lseek, [a, b, ucast wh]) \<and>
   d (lib_unlink r a) = Inr (Unlink, [a, t_ecx r, t_edx r]) \<and> d (lib_mkdir r a) = Inr (Mkdir, [a, t_ecx r, t_edx r]) \<and>
   d (lib_opendir r a) = Inr (Opendir, [a, t_ecx r, t_edx r]) \<and> d (lib_closedir r a) = Inr (Closedir, [a, t_ecx r, t_edx r]) \<and>
   d (lib_rmdir r a) = Inr (Rmdir, [a, t_ecx r, t_edx r]) \<and> d (lib_readdir r a) = Inr (Readdir, [a, t_ecx r, t_edx r]) \<and>
   d (lib_rewinddir r a) = Inr (Rewinddir, [a, t_ecx r, t_edx r]) \<and> d (lib_stat r a b) = Inr (Stat, [a, b, t_edx r]) \<and>
   d (lib_chdir r a) = Inr (Chdir, [a, t_ecx r, t_edx r]) \<and> d (lib_ps r) = Inr (Ps, [t_ebx r, t_ecx r, t_edx r]) \<and>
   d (lib_execv r a b) = Inr (Execv, [a, b, t_edx r])"
proof -
  have len: "length syscall_init = 32" by (simp add: syscall_init_def)
  let ?calls = "[(SYS_GETPID, Getpid), (SYS_WRITE, Write), (SYS_MALLOC, Malloc),
    (SYS_FREE, Free), (SYS_FORK, Fork), (SYS_READ, Read), (SYS_PUTCHAR, Putchar), (SYS_CLEAR, Cls_screen), (SYS_GETCWD, Getcwd),
    (SYS_OPEN, Open), (SYS_CLOSE, Close), (SYS_LSEEK, Lseek), (SYS_UNLINK, Unlink), (SYS_MKDIR, Mkdir), (SYS_OPENDIR, Opendir),
    (SYS_CLOSEDIR, Closedir), (SYS_RMDIR, Rmdir), (SYS_READDIR, Readdir), (SYS_REWINDDIR, Rewinddir), (SYS_STAT, Stat),
    (SYS_CHDIR, Chdir), (SYS_PS, Ps), (SYS_EXECV, Execv)]"
  have "list_all (\<lambda>(n, f). syscall_init ! nr n = Some f) ?calls" by code_simp
  then have nth: "syscall_init ! nr n = Some f" if "(n, f) \<in> set ?calls" for n f
    using that by (auto simp only: list_all_iff)
  have d: "syscall_dispatch syscall_init t = Inr (f, [t_ebx t, t_ecx t, t_edx t])"
    if "t_eax t = of_nat (nr n)" "syscall_init ! nr n = Some f" for t n f
  proof -
    have "nr n < 32" by (cases n) simp_all
    then have "unat (of_nat (nr n) :: u32) = nr n" by (intro unat_word_of_nat32) simp
    with that \<open>nr n < 32\<close> show ?thesis by (simp add: syscall_dispatch_def len)
  qed
  show ?thesis unfolding Let_def
    by (intro conjI;
        (simp only: lib_getpid_def lib_write_def lib_malloc_def lib_free_def lib_fork_def lib_read_def lib_putchar_def
          lib_clear_def lib_getcwd_def lib_open_def lib_close_def lib_lseek_def lib_unlink_def lib_mkdir_def lib_opendir_def
          lib_closedir_def lib_rmdir_def lib_readdir_def lib_rewinddir_def lib_stat_def lib_chdir_def lib_ps_def lib_execv_def
          syscall0_def syscall1_def syscall2_def syscall3_def),
        (subst d [OF _ nth]; simp))
qed

end
