(* ===== verification/Bytes.thy ===== *)
theory Bytes
  imports Prelude
begin

text \<open>
  Words and pieces of a byte buffer: how the structures that are stored on the disk lie in a
  sector (little endian), and the sectors of a disk one after the other.
\<close>

section \<open>Pieces of a buffer\<close>

definition piece_of :: "u8 list \<Rightarrow> nat \<Rightarrow> nat \<Rightarrow> u8 list" where
  "piece_of buf off n = take n (drop off buf)"

text \<open>\<open>memcpy(buf + off, bs, length bs)\<close> and \<open>memset\<close> as writes into a buffer.\<close>

definition splice :: "u8 list \<Rightarrow> nat \<Rightarrow> u8 list \<Rightarrow> u8 list" where
  "splice buf off bs = take off buf @ bs @ drop (off + length bs) buf"

lemma length_piece_of [simp]: "off + n \<le> length buf \<Longrightarrow> length (piece_of buf off n) = n"
  by (simp add: piece_of_def)

lemma length_splice [simp]: "off + length bs \<le> length buf \<Longrightarrow> length (splice buf off bs) = length buf"
  by (simp add: splice_def)

lemma piece_of_splice [simp]:
  "off + length bs \<le> length buf \<Longrightarrow> n = length bs \<Longrightarrow> piece_of (splice buf off bs) off n = bs"
  by (simp add: piece_of_def splice_def)

lemma piece_of_splice_before:
  "o1 + n1 \<le> off \<Longrightarrow> off + length bs \<le> length buf \<Longrightarrow> piece_of (splice buf off bs) o1 n1 = piece_of buf o1 n1"
  by (rule nth_equalityI) (auto simp: piece_of_def splice_def nth_append)

lemma piece_of_splice_after:
  "off + length bs \<le> o1 \<Longrightarrow> off + length bs \<le> length buf \<Longrightarrow> piece_of (splice buf off bs) o1 n1 = piece_of buf o1 n1"
  by (simp add: piece_of_def splice_def)

lemma piece_of_piece: "o2 + n2 \<le> n \<Longrightarrow> piece_of (piece_of buf off n) o2 n2 = piece_of buf (off + o2) n2"
  by (simp add: piece_of_def drop_take add.commute min_def)

lemma nth_piece_of: "i < n \<Longrightarrow> off + n \<le> length buf \<Longrightarrow> piece_of buf off n ! i = buf ! (off + i)"
  by (simp add: piece_of_def)

lemma piece_of_append1: "off + n \<le> length xs \<Longrightarrow> piece_of (xs @ ys) off n = piece_of xs off n"
  by (simp add: piece_of_def)

lemma piece_of_append2: "length xs \<le> off \<Longrightarrow> piece_of (xs @ ys) off n = piece_of ys (off - length xs) n"
  by (simp add: piece_of_def)

lemma piece_of_all: "length xs = n \<Longrightarrow> piece_of xs 0 n = xs"
  by (simp add: piece_of_def)

section \<open>Words\<close>

definition le32 :: "u32 \<Rightarrow> u8 list" where
  "le32 w = [ucast w, ucast (drop_bit 8 w), ucast (drop_bit 16 w), ucast (drop_bit 24 w)]"

definition of_le32 :: "u8 list \<Rightarrow> u32" where
  "of_le32 bs = ucast (bs ! 0) OR push_bit 8 (ucast (bs ! 1)) OR push_bit 16 (ucast (bs ! 2))
     OR push_bit 24 (ucast (bs ! 3))"

definition le16 :: "u16 \<Rightarrow> u8 list" where "le16 w = [ucast w, ucast (drop_bit 8 w)]"

definition of_le16 :: "u8 list \<Rightarrow> u16" where
  "of_le16 bs = ucast (bs ! 0) OR push_bit 8 (ucast (bs ! 1))"

definition get32 :: "u8 list \<Rightarrow> nat \<Rightarrow> u32" where "get32 buf off = of_le32 (piece_of buf off 4)"
definition get16 :: "u8 list \<Rightarrow> nat \<Rightarrow> u16" where "get16 buf off = of_le16 (piece_of buf off 2)"

lemma length_le32 [simp]: "length (le32 w) = 4"
  by (simp add: le32_def)

lemma of_le32_le32 [simp]: "of_le32 (le32 w) = w"
proof (rule bit_word_eqI)
  fix n assume n: "n < LENGTH(32)"
  then consider "n < 8" | "8 \<le> n" "n < 16" | "16 \<le> n" "n < 24" | "24 \<le> n" "n < 32" by fastforce
  then show "bit (of_le32 (le32 w)) n = bit w n"
    by cases (use n in \<open>auto simp: of_le32_def le32_def word_bit_simps\<close>)
qed

lemma of_le16_le16 [simp]: "of_le16 (le16 w) = w"
  by (rule bit_word_eqI) (auto simp: of_le16_def le16_def word_bit_simps)

text \<open>An array of words.\<close>

definition words :: "u32 list \<Rightarrow> u8 list" where "words ws = concat (map le32 ws)"

primrec of_words :: "nat \<Rightarrow> u8 list \<Rightarrow> u32 list" where
  "of_words 0 bs = []"
| "of_words (Suc n) bs = of_le32 (take 4 bs) # of_words n (drop 4 bs)"

lemma length_words [simp]: "length (words ws) = 4 * length ws"
  by (induction ws) (simp_all add: words_def)

lemma length_of_words [simp]: "length (of_words n bs) = n"
  by (induction n arbitrary: bs) simp_all

lemma of_words_words [simp]: "n = length ws \<Longrightarrow> of_words n (words ws @ bs) = ws"
  by (induction ws arbitrary: n) (simp_all add: words_def)

lemma of_words_words' [simp]: "n = length ws \<Longrightarrow> of_words n (words ws) = ws"
  using of_words_words [of n ws "[]"] by simp

section \<open>Sectors\<close>

definition sectors :: "(u32 \<Rightarrow> u8 list) \<Rightarrow> u32 \<Rightarrow> nat \<Rightarrow> u8 list" where
  "sectors m lba n = concat (map (\<lambda>i. m (lba + of_nat i)) [0..<n])"

text \<open>The disk after the bytes of \<open>n\<close> sectors have been written.\<close>

fun write_sectors :: "u32 \<Rightarrow> nat \<Rightarrow> u8 list \<Rightarrow> (u32 \<Rightarrow> u8 list) \<Rightarrow> u32 \<Rightarrow> u8 list" where
  "write_sectors lba 0 bs m = m"
| "write_sectors lba (Suc n) bs m = write_sectors (lba + 1) n (drop 512 bs) (m(lba := take 512 bs))"

definition disk_ok :: "(u32 \<Rightarrow> u8 list) \<Rightarrow> bool" where
  "disk_ok m \<longleftrightarrow> (\<forall>lba. length (m lba) = 512)"

lemma sectors_add: "sectors m lba (a + b) = sectors m lba a @ sectors m (lba + of_nat a) b"
proof -
  have "[0..<a + b] = [0..<a] @ map (\<lambda>i. i + a) [0..<b]"
    by (simp add: map_add_upt upt_add_eq_append [of 0 a b, simplified] add.commute)
  then show ?thesis by (simp add: sectors_def comp_def algebra_simps)
qed

lemma sectors_0 [simp]: "sectors m lba 0 = []"
  by (simp add: sectors_def)

lemma sectors_1 [simp]: "sectors m lba (Suc 0) = m lba"
  by (simp add: sectors_def)

lemma sectors_Suc: "sectors m lba (Suc n) = m lba @ sectors m (lba + 1) n"
  using sectors_add [of m lba 1 n] by simp

lemma length_sectors: "disk_ok m \<Longrightarrow> length (sectors m lba n) = 512 * n"
  by (induction n arbitrary: lba) (simp_all add: sectors_Suc disk_ok_def)

lemma write_sectors_disk_ok:
  "disk_ok m \<Longrightarrow> length bs = 512 * n \<Longrightarrow> disk_ok (write_sectors lba n bs m)"
  by (induction lba n bs m rule: write_sectors.induct) (simp_all add: disk_ok_def)

lemma write_sectors_add:
  "length bs = 512 * a \<Longrightarrow>
    write_sectors lba (a + b) (bs @ cs) m = write_sectors (lba + of_nat a) b cs (write_sectors lba a bs m)"
proof (induction a arbitrary: lba bs m)
  case 0
  then show ?case by simp
next
  case (Suc a)
  then have "length (drop 512 bs) = 512 * a" by simp
  from Suc.IH [OF this] Suc.prems show ?case by (simp add: algebra_simps del: fun_upd_apply)
qed

text \<open>What lies outside the written sectors stays; what was written is read back.\<close>

lemma write_sectors_other:
  "n < 2 ^ 32 \<Longrightarrow> (\<And>i. i < n \<Longrightarrow> l \<noteq> lba + of_nat i) \<Longrightarrow> write_sectors lba n bs m l = m l"
proof (induction n arbitrary: lba bs m)
  case 0
  then show ?case by simp
next
  case (Suc n)
  have "l \<noteq> lba" using Suc.prems(2) [of 0] by simp
  moreover have "l \<noteq> (lba + 1) + of_nat i" if "i < n" for i
    using Suc.prems(2) [of "Suc i"] that by (simp add: algebra_simps)
  ultimately show ?case using Suc.IH [of "lba + 1"] Suc.prems(1) by simp
qed

lemma write_sectors_nth:
  assumes "i < n" and "n < 2 ^ 32" and "length bs = 512 * n"
  shows "write_sectors lba n bs m (lba + of_nat i) = piece_of bs (512 * i) 512"
  using assms
proof (induction n arbitrary: i lba bs m)
  case 0
  then show ?case by simp
next
  case (Suc n)
  show ?case
  proof (cases i)
    case 0
    have "lba \<noteq> (lba + 1) + of_nat j" if "j < n" for j
    proof
      assume "lba = (lba + 1) + of_nat j"
      then have "(of_nat (Suc j) :: u32) = 0" by (simp add: add.assoc)
      then have "unat (of_nat (Suc j) :: u32) = 0" by simp
      with unat_word_of_nat32 [of "Suc j"] that Suc.prems(2) show False by simp
    qed
    with 0 Suc.prems show ?thesis by (simp add: write_sectors_other piece_of_def)
  next
    case (Suc j)
    then have "write_sectors (lba + 1) n (drop 512 bs) (m(lba := take 512 bs)) ((lba + 1) + of_nat j) =
        piece_of (drop 512 bs) (512 * j) 512"
      using Suc.prems by (intro Suc.IH) auto
    with Suc show ?thesis by (simp add: algebra_simps piece_of_def)
  qed
qed

lemma sectors_write_sectors:
  "n < 2 ^ 32 \<Longrightarrow> length bs = 512 * n \<Longrightarrow> sectors (write_sectors lba n bs m) lba n = bs"
proof (induction n arbitrary: lba bs m)
  case 0
  then show ?case by simp
next
  case (Suc n)
  have "sectors (write_sectors (lba + 1) n (drop 512 bs) (m(lba := take 512 bs))) (lba + 1) n = drop 512 bs"
    using Suc.prems by (intro Suc.IH) auto
  moreover have "write_sectors lba (Suc n) bs m lba = take 512 bs"
    using write_sectors_nth [of 0 "Suc n" bs lba m] Suc.prems by (simp add: piece_of_def)
  ultimately show ?case by (simp add: sectors_Suc)
qed

text \<open>A window of sectors that is read, patched and written back changes the patched bytes only.\<close>

lemma sectors_cong: "(\<And>i. i < n \<Longrightarrow> m (l + of_nat i) = m' (l + of_nat i)) \<Longrightarrow> sectors m l n = sectors m' l n"
  unfolding sectors_def by (rule arg_cong [of _ _ concat], rule map_cong) auto

lemma lba_eq_iff: "i < 2 ^ 32 \<Longrightarrow> j < 2 ^ 32 \<Longrightarrow> (l :: u32) + of_nat i = l + of_nat j \<longleftrightarrow> i = j"
  by (metis add_left_cancel unat_word_of_nat32)

lemma sectors_splice:
  assumes ok: "disk_ok m" and k: "a + k \<le> n" and n: "n < 2 ^ 32" and off: "off + length bs \<le> 512 * k"
  shows "sectors (write_sectors (l + of_nat a) k (splice (sectors m (l + of_nat a) k) off bs) m) l n
    = splice (sectors m l n) (512 * a + off) bs"
proof -
  let ?B = "sectors m (l + of_nat a) k" and ?lb = "l + of_nat a + of_nat k"
  let ?m = "write_sectors (l + of_nat a) k (splice ?B off bs) m"
  obtain c where c: "n = a + (k + c)" using k by (metis add.assoc le_Suc_ex)
  have other: "?m (l + of_nat j) = m (l + of_nat j)" if "j < n" "\<not> (a \<le> j \<and> j < a + k)" for j
  proof (rule write_sectors_other)
    show "k < 2 ^ 32" using k n by simp
    fix i assume "i < k"
    then have "j \<noteq> a + i" using that(2) by auto
    then show "l + of_nat j \<noteq> l + of_nat a + of_nat i"
      using lba_eq_iff [of j "a + i" l] that(1) \<open>i < k\<close> k n by (simp add: add.assoc)
  qed
  have 1: "sectors ?m l a = sectors m l a"
    by (rule sectors_cong, rule other) (use c in auto)
  have 2: "sectors ?m (l + of_nat a) k = splice ?B off bs"
    by (rule sectors_write_sectors) (use c n off ok in \<open>auto simp: length_sectors\<close>)
  have 3: "sectors ?m ?lb c = sectors m ?lb c"
  proof (rule sectors_cong)
    fix i assume "i < c"
    then show "?m (?lb + of_nat i) = m (?lb + of_nat i)"
      using other [of "a + k + i"] c by (simp add: add.assoc)
  qed
  have l: "length (sectors m l a) = 512 * a" "length ?B = 512 * k" using ok by (simp_all add: length_sectors)
  have "sectors ?m l n = sectors m l a @ splice ?B off bs @ sectors m ?lb c"
    unfolding c sectors_add 1 2 3 ..
  also have "\<dots> = splice (sectors m l n) (512 * a + off) bs"
    unfolding c sectors_add using l off by (simp add: splice_def)
  finally show ?thesis .
qed

lemma piece_of_sectors:
  assumes ok: "disk_ok m" and k: "a + k \<le> n" and off: "off + d \<le> 512 * k"
  shows "piece_of (sectors m (l + of_nat a) k) off d = piece_of (sectors m l n) (512 * a + off) d"
proof -
  obtain c where c: "n = a + (k + c)" using k by (metis add.assoc le_Suc_ex)
  show ?thesis unfolding c sectors_add
    using off by (simp add: piece_of_append2 piece_of_append1 length_sectors ok)
qed

end
