(* ===== verification/Ide.thy ===== *)
theory Ide
  imports Bytes Stdio Interrupt
begin

text \<open>
  \<^verbatim>\<open>device/ide.c\<close>: reading and writing sectors through an ATA channel, the disk interrupt, the
  identification of a disk and the scan of its partition tables.

  The disk and its controller are the parameter \<open>ata\<close>: what a read or write of a port does to them.
  \<open>ata_ok\<close> states the protocol of an ATA drive: the task file selects drive, sector and count; a command
  hands over one sector after the other, the drive being busy before each of them for as long as it likes and
  deaf while it is. The driver waits once for each command, not for each sector, so transfers of several sectors
  are shown correct for a drive that makes no pause in between (\<open>prompt_device\<close>), those of one sector for every drive;
  what becomes of the others on a drive that does pause is a property too. The driver's own state is the channel.
  The transfer runs with the channel's lock held (\<open>Locks\<close>); waiting on \<^verbatim>\<open>disk_done\<close> is waiting
  for the interrupt, so the handler is run there.
\<close>

section \<open>The code\<close>

record 'd ata =
  outb :: "u16 \<Rightarrow> u8 \<Rightarrow> 'd \<Rightarrow> 'd"
  inb :: "u16 \<Rightarrow> 'd \<Rightarrow> u8 \<times> 'd"
  inw :: "u16 \<Rightarrow> 'd \<Rightarrow> (u8 \<times> u8) \<times> 'd"
  outw :: "u16 \<Rightarrow> u8 \<times> u8 \<Rightarrow> 'd \<Rightarrow> 'd"
  await :: "'d \<Rightarrow> 'd"

text \<open>
  A word is its low and its high byte. \<open>await\<close> lets the time pass until the device raises the interrupt that is waited for.
  \<^verbatim>\<open>rep insw\<close> and \<^verbatim>\<open>rep outsw\<close> of \<^verbatim>\<open>lib/kernel/io.h\<close> move one word after the other.
\<close>

primrec insw :: "'d ata \<Rightarrow> u16 \<Rightarrow> nat \<Rightarrow> 'd \<Rightarrow> u8 list \<times> 'd" where
  "insw A port 0 d = ([], d)"
| "insw A port (Suc word_cnt) d =
     (let ((x, y), d) = inw A port d; (bs, d) = insw A port word_cnt d in (x # y # bs, d))"

fun outsw :: "'d ata \<Rightarrow> u16 \<Rightarrow> u8 list \<Rightarrow> 'd \<Rightarrow> 'd" where
  "outsw A port (x # y # bs) d = outsw A port bs (outw A port (x, y) d)"
| "outsw A port bs d = d"

record 'd ide_channel =
  channel_name :: str
  port_base :: u16
  irq_no :: u8
  expecting_intr :: bool
  disk_done :: u8
  device :: 'd

definition reg_data :: "u16 \<Rightarrow> u16" where "reg_data base = base + 0"
definition reg_sect_cnt :: "u16 \<Rightarrow> u16" where "reg_sect_cnt base = base + 2"
definition reg_lba_l :: "u16 \<Rightarrow> u16" where "reg_lba_l base = base + 3"
definition reg_lba_m :: "u16 \<Rightarrow> u16" where "reg_lba_m base = base + 4"
definition reg_lba_h :: "u16 \<Rightarrow> u16" where "reg_lba_h base = base + 5"
definition reg_dev :: "u16 \<Rightarrow> u16" where "reg_dev base = base + 6"
definition reg_status :: "u16 \<Rightarrow> u16" where "reg_status base = base + 7"
definition reg_cmd :: "u16 \<Rightarrow> u16" where "reg_cmd base = reg_status base"

definition BIT_STAT_BSY :: u8 where "BIT_STAT_BSY = 0x80"
definition BIT_STAT_DRQ :: u8 where "BIT_STAT_DRQ = 0x8"
definition BIT_DEV_MBS :: u8 where "BIT_DEV_MBS = 0xa0"
definition BIT_DEV_LBA :: u8 where "BIT_DEV_LBA = 0x40"
definition BIT_DEV_DEV :: u8 where "BIT_DEV_DEV = 0x10"
definition CMD_IDENTIFY :: u8 where "CMD_IDENTIFY = 0xec"
definition CMD_READ_SECTOR :: u8 where "CMD_READ_SECTOR = 0x20"
definition CMD_WRITE_SECTOR :: u8 where "CMD_WRITE_SECTOR = 0x30"
definition max_lba :: u32 where "max_lba = 80 * 1024 * 1024 div 512 - 1"

abbreviation out_port :: "'d ata \<Rightarrow> u16 \<Rightarrow> u8 \<Rightarrow> 'd ide_channel \<Rightarrow> 'd ide_channel" where
  "out_port A p v c \<equiv> c\<lparr>device := outb A p v (device c)\<rparr>"

text \<open>\<open>dev_no\<close> is the disk's number on its channel.\<close>

definition select_disk :: "'d ata \<Rightarrow> u8 \<Rightarrow> 'd ide_channel \<Rightarrow> 'd ide_channel" where
  "select_disk A dev_no c =
     (let reg_device = BIT_DEV_MBS OR BIT_DEV_LBA;
          reg_device = (if dev_no = 1 then reg_device OR BIT_DEV_DEV else reg_device)
      in out_port A (reg_dev (port_base c)) reg_device c)"

definition select_sector :: "'d ata \<Rightarrow> u8 \<Rightarrow> u32 \<Rightarrow> u8 \<Rightarrow> 'd ide_channel \<Rightarrow> 'd ide_channel res" where
  "select_sector A dev_no lba sec_cnt c =
     rbind (c_assert (lba \<le> max_lba)) (\<lambda>_.
     let b = port_base c;
         c = out_port A (reg_sect_cnt b) sec_cnt c;
         c = out_port A (reg_lba_l b) (ucast lba) c;
         c = out_port A (reg_lba_m b) (ucast (drop_bit 8 lba)) c;
         c = out_port A (reg_lba_h b) (ucast (drop_bit 16 lba)) c;
         dev = BIT_DEV_MBS OR BIT_DEV_LBA OR (if dev_no = 1 then BIT_DEV_DEV else 0) OR ucast (drop_bit 24 lba)
     in Inr (out_port A (reg_dev b) dev c))"

definition cmd_out :: "'d ata \<Rightarrow> u8 \<Rightarrow> 'd ide_channel \<Rightarrow> 'd ide_channel" where
  "cmd_out A cmd c =
     (let c = c\<lparr>expecting_intr := True\<rparr> in out_port A (reg_cmd (port_base c)) cmd c)"

definition sector_bytes :: "u8 \<Rightarrow> nat" where
  "sector_bytes sec_cnt = (if sec_cnt = 0 then 256 * 512 else unat sec_cnt * 512)"

definition read_from_sector :: "'d ata \<Rightarrow> u8 \<Rightarrow> 'd ide_channel \<Rightarrow> u8 list \<times> 'd ide_channel" where
  "read_from_sector A sec_cnt c =
     (let (bs, d) = insw A (reg_data (port_base c)) (sector_bytes sec_cnt div 2) (device c)
      in (bs, c\<lparr>device := d\<rparr>))"

text \<open>\<open>outsw\<close> takes as many words of the buffer as the count says.\<close>

definition write_to_sector :: "'d ata \<Rightarrow> u8 list \<Rightarrow> u8 \<Rightarrow> 'd ide_channel \<Rightarrow> 'd ide_channel res" where
  "write_to_sector A buf sec_cnt c =
     rbind (guard Out_of_bounds (sector_bytes sec_cnt \<le> length buf)) (\<lambda>_.
     Inr (c\<lparr>device := outsw A (reg_data (port_base c)) (take (sector_bytes sec_cnt) buf) (device c)\<rparr>))"

text \<open>
  \<^verbatim>\<open>time_limit -= 10 >= 0\<close> subtracts the truth value of \<^verbatim>\<open>10 >= 0\<close>, so the loop polls the status
  29999 times. The thread sleeps between the polls (\<^verbatim>\<open>mtime_sleep\<close>); what the device does meanwhile
  is part of what the next poll finds.
\<close>

primrec poll :: "'d ata \<Rightarrow> nat \<Rightarrow> 'd ide_channel \<Rightarrow> bool \<times> 'd ide_channel" where
  "poll A 0 c = (False, c)"
| "poll A (Suc time_limit) c =
     (let (st, d) = inb A (reg_status (port_base c)) (device c); c = c\<lparr>device := d\<rparr>
      in if st AND BIT_STAT_BSY = 0
         then let (st, d) = inb A (reg_status (port_base c)) (device c)
              in (st AND BIT_STAT_DRQ \<noteq> 0, c\<lparr>device := d\<rparr>)
         else poll A time_limit c)"

definition busy_wait :: "'d ata \<Rightarrow> 'd ide_channel \<Rightarrow> bool \<times> 'd ide_channel" where
  "busy_wait A c = poll A (30 * 1000 - 1) c"

definition intr_hd_handler :: "'d ata \<Rightarrow> u8 \<Rightarrow> 'd ide_channel \<Rightarrow> 'd ide_channel res" where
  "intr_hd_handler A irq c =
     rbind (c_assert (irq = 0x2e \<or> irq = 0x2f)) (\<lambda>_.
     rbind (c_assert (irq_no c = irq)) (\<lambda>_.
     if expecting_intr c
     then let c = c\<lparr>expecting_intr := False\<rparr>
          in rbind (c_assert (disk_done c = 0)) (\<lambda>_.
             let c = c\<lparr>disk_done := disk_done c + 1\<rparr>
             in Inr (c\<lparr>device := snd (inb A (reg_status (port_base c)) (device c))\<rparr>))
     else Inr c))"

text \<open>
  \<^verbatim>\<open>sema_down(&disk_done)\<close>: when the value is 0 the thread blocks until the device has raised its interrupt and the
  handler has run, and for ever when no interrupt is expected.
\<close>

definition wait_done :: "'d ata \<Rightarrow> 'd ide_channel \<Rightarrow> 'd ide_channel res" where
  "wait_done A c =
     rbind (if disk_done c = 0 then intr_hd_handler A (irq_no c) (c\<lparr>device := await A (device c)\<rparr>) else Inr c) (\<lambda>c.
     if disk_done c = 0 then Inl Hang
     else let c = c\<lparr>disk_done := disk_done c - 1\<rparr>
          in rbind (c_assert (disk_done c = 0)) (\<lambda>_. Inr c))"

text \<open>One round of each loop, for \<open>secs_op\<close> sectors.\<close>

definition read_some :: "'d ata \<Rightarrow> u8 \<Rightarrow> u32 \<Rightarrow> u32 \<Rightarrow> 'd ide_channel \<Rightarrow> (u8 list \<times> 'd ide_channel) res" where
  "read_some A dev_no lba secs_op c =
     rbind (select_sector A dev_no lba (ucast secs_op) c) (\<lambda>c.
     rbind (wait_done A (cmd_out A CMD_READ_SECTOR c)) (\<lambda>c.
     let (ready, c) = busy_wait A c
     in rbind (guard Panic ready) (\<lambda>_. Inr (read_from_sector A (ucast secs_op) c))))"

definition write_some :: "'d ata \<Rightarrow> u8 \<Rightarrow> u32 \<Rightarrow> u8 list \<Rightarrow> u32 \<Rightarrow> 'd ide_channel \<Rightarrow> 'd ide_channel res" where
  "write_some A dev_no lba buf secs_op c =
     rbind (select_sector A dev_no lba (ucast secs_op) c) (\<lambda>c.
     let (ready, c) = busy_wait A (cmd_out A CMD_WRITE_SECTOR c)
     in rbind (guard Panic ready) (\<lambda>_.
        rbind (write_to_sector A buf (ucast secs_op) c) (wait_done A)))"

definition next_op :: "u32 \<Rightarrow> u32 \<Rightarrow> u32" where
  "next_op secs_done sec_cnt = (if secs_done + 256 \<le> sec_cnt then 256 else sec_cnt - secs_done)"

lemma select_sector_lba: "select_sector A n lba k c = Inr c' \<Longrightarrow> lba \<le> max_lba"
  by (auto simp: select_sector_def rbind_Inr_iff)

lemma read_some_lba: "read_some A n lba k c = Inr r \<Longrightarrow> lba \<le> max_lba"
  by (auto simp: read_some_def rbind_Inr_iff dest: select_sector_lba)

lemma write_some_lba: "write_some A n lba buf k c = Inr r \<Longrightarrow> lba \<le> max_lba"
  by (auto simp: write_some_def rbind_Inr_iff dest: select_sector_lba)

lemma unat_max_lba: "unat max_lba = 163839"
  by (simp add: max_lba_def)

lemma next_op_bounds:
  assumes "m < cnt"
  shows "1 \<le> unat (next_op m cnt)" and "unat (next_op m cnt) \<le> 256"
proof -
  have "unat (next_op m cnt) = (if m + 256 \<le> cnt then 256 else unat cnt - unat m)"
    using assms by (simp add: next_op_def unat_sub order_less_imp_le)
  moreover have "unat cnt - unat m \<le> 256" if "\<not> m + 256 \<le> cnt"
  proof (cases "unat m + 256 < 2 ^ 32")
    case True
    then have "unat (m + 256) = unat m + 256" by (simp add: unat_word_ariths)
    with that show ?thesis by (simp add: word_le_nat_alt)
  next
    case False
    moreover have "unat cnt < 2 ^ 32" using unsigned_less [of cnt] by simp
    ultimately show ?thesis by simp
  qed
  ultimately show "1 \<le> unat (next_op m cnt)" and "unat (next_op m cnt) \<le> 256"
    using assms by (auto simp: word_less_nat_alt)
qed

lemma next_op_advances:
  assumes "lba + m \<le> max_lba" and "m < cnt"
  shows "unat (lba + (m + next_op m cnt)) = unat (lba + m) + unat (next_op m cnt)"
proof -
  have "unat (lba + m) \<le> 163839" using assms(1) by (simp add: word_le_nat_alt unat_max_lba)
  then have "unat ((lba + m) + next_op m cnt) = unat (lba + m) + unat (next_op m cnt)"
    using next_op_bounds [OF assms(2)] by (subst unat_add_lem [THEN iffD1]) auto
  then show ?thesis by (simp add: add.assoc)
qed

text \<open>A round succeeds only below \<open>max_lba\<close>, so the loops end.\<close>

lemma next_op_decreases:
  assumes "lba + m \<le> max_lba" and "m < cnt"
  shows "164096 - unat (lba + (m + next_op m cnt)) < 164096 - unat (lba + m)"
  using next_op_advances [OF assms] next_op_bounds [OF assms(2)] assms(1)
  by (simp add: word_le_nat_alt unat_max_lba)

function ide_read_loop :: "'d ata \<Rightarrow> u8 \<Rightarrow> u32 \<Rightarrow> u32 \<Rightarrow> u32 \<Rightarrow> u8 list \<Rightarrow> 'd ide_channel
    \<Rightarrow> (u8 list \<times> 'd ide_channel) res" where
  "ide_read_loop A dev_no lba sec_cnt secs_done buf c =
     (if secs_done < sec_cnt
      then let secs_op = next_op secs_done sec_cnt
           in rbind (read_some A dev_no (lba + secs_done) secs_op c) (\<lambda>r.
              ide_read_loop A dev_no lba sec_cnt (secs_done + secs_op) (buf @ fst r) (snd r))
      else Inr (buf, c))"
  by pat_completeness auto

termination ide_read_loop
  by (relation "measure (\<lambda>(_, _, lba, _, m, _, _). 164096 - unat (lba + m))")
     (auto intro!: next_op_decreases dest: read_some_lba)

function ide_write_loop :: "'d ata \<Rightarrow> u8 \<Rightarrow> u32 \<Rightarrow> u8 list \<Rightarrow> u32 \<Rightarrow> u32 \<Rightarrow> 'd ide_channel
    \<Rightarrow> 'd ide_channel res" where
  "ide_write_loop A dev_no lba buf sec_cnt secs_done c =
     (if secs_done < sec_cnt
      then let secs_op = next_op secs_done sec_cnt
           in rbind (write_some A dev_no (lba + secs_done) (drop (unat (secs_done * 512)) buf) secs_op c) (\<lambda>c.
              ide_write_loop A dev_no lba buf sec_cnt (secs_done + secs_op) c)
      else Inr c)"
  by pat_completeness auto

termination ide_write_loop
  by (relation "measure (\<lambda>(_, _, lba, _, _, m, _). 164096 - unat (lba + m))")
     (auto intro!: next_op_decreases dest: write_some_lba)

declare ide_read_loop.simps [simp del] ide_write_loop.simps [simp del]

definition ide_read :: "'d ata \<Rightarrow> u8 \<Rightarrow> u32 \<Rightarrow> u32 \<Rightarrow> 'd ide_channel \<Rightarrow> (u8 list \<times> 'd ide_channel) res" where
  "ide_read A dev_no lba sec_cnt c =
     rbind (c_assert (lba \<le> max_lba)) (\<lambda>_.
     rbind (c_assert (sec_cnt > 0)) (\<lambda>_.
     ide_read_loop A dev_no lba sec_cnt 0 [] (select_disk A dev_no c)))"

definition ide_write :: "'d ata \<Rightarrow> u8 \<Rightarrow> u32 \<Rightarrow> u8 list \<Rightarrow> u32 \<Rightarrow> 'd ide_channel \<Rightarrow> 'd ide_channel res" where
  "ide_write A dev_no lba buf sec_cnt c =
     rbind (c_assert (lba \<le> max_lba)) (\<lambda>_.
     rbind (c_assert (sec_cnt > 0)) (\<lambda>_.
     ide_write_loop A dev_no lba buf sec_cnt 0 (select_disk A dev_no c)))"

text \<open>
  \<^verbatim>\<open>swap_pairs_bytes\<close> with its 8-bit index (the lengths used are 20 and 40): each pair of bytes
  the other way round, then a terminator.
\<close>

fun swap_pairs_bytes :: "str \<Rightarrow> nat \<Rightarrow> str res" where
  "swap_pairs_bytes dst len =
     (if len = 0 then Inr [0]
      else case dst of x # y # dst' \<Rightarrow> rbind (swap_pairs_bytes dst' (len - 2)) (\<lambda>s. Inr (y # x # s))
           | _ \<Rightarrow> Inl Out_of_bounds)"

declare swap_pairs_bytes.simps [simp del]

text \<open>\<^verbatim>\<open>identify_disk\<close> prints the serial number, the model, and the size of the disk in sectors.\<close>

definition identify_disk :: "'d ata \<Rightarrow> u8 \<Rightarrow> 'd ide_channel \<Rightarrow> ((str \<times> str \<times> u32) \<times> 'd ide_channel) res" where
  "identify_disk A dev_no c =
     rbind (wait_done A (cmd_out A CMD_IDENTIFY (select_disk A dev_no c))) (\<lambda>c.
     let (ready, c) = busy_wait A c
     in rbind (guard Panic ready) (\<lambda>_.
        let (id_info, c) = read_from_sector A 1 c
        in rbind (swap_pairs_bytes (drop (10 * 2) id_info) 20) (\<lambda>sn.
           rbind (swap_pairs_bytes (drop (27 * 2) id_info) 40) (\<lambda>md.
           Inr ((sn, md, get32 id_info (60 * 2)), c)))))"

section \<open>Partitions\<close>

text \<open>A disk is named by its channel and its number there; names are buffers of 8 bytes.\<close>

record partition =
  start_lba :: u32
  sec_cnt :: u32
  my_disk :: "u8 \<times> u8"
  part_name :: str

record disk =
  disk_name :: str
  disk_id :: "u8 \<times> u8"
  prim_parts :: "partition list"
  logic_parts :: "partition list"

text \<open>
  What \<^verbatim>\<open>partition_scan\<close> works on: the disk and the channel it is read through, and the globals.
  An element of \<^verbatim>\<open>partition_list\<close> is the disk, whether the partition is a logical one, and its index.
\<close>

record 'd scan =
  scan_disk :: disk
  chan :: "'d ide_channel"
  ext_lba_base :: u32
  p_no :: u8
  l_no :: u8
  partition_list :: "((u8 \<times> u8) \<times> bool \<times> u8) list"

record partition_table_entry =
  fs_type :: u8
  entry_start :: u32
  entry_cnt :: u32

text \<open>The four entries lie 446 bytes into the boot sector, 16 bytes each.\<close>

definition table_entry :: "u8 list \<Rightarrow> nat \<Rightarrow> partition_table_entry" where
  "table_entry bs i =
     \<lparr>fs_type = bs ! (446 + 16 * i + 4), entry_start = get32 bs (446 + 16 * i + 8), entry_cnt = get32 bs (446 + 16 * i + 12)\<rparr>"

definition fill_part :: "partition_table_entry \<Rightarrow> u32 \<Rightarrow> disk \<Rightarrow> u32 \<Rightarrow> partition \<Rightarrow> partition res" where
  "fill_part p ext_lba d no part =
     rbind (sprintf (part_name part) (ascii ''%s%d'') [Ptr (c_string (disk_name d)), Word no]) (\<lambda>(_, name).
     Inr (part\<lparr>start_lba := ext_lba + entry_start p, sec_cnt := entry_cnt p, my_disk := disk_id d, part_name := name\<rparr>))"

definition add_prim :: "partition_table_entry \<Rightarrow> u32 \<Rightarrow> 'd scan \<Rightarrow> 'd scan res" where
  "add_prim p ext_lba s =
     rbind (aread (prim_parts (scan_disk s)) (unat (p_no s))) (\<lambda>part.
     rbind (fill_part p ext_lba (scan_disk s) (ucast (p_no s) + 1) part) (\<lambda>part.
     let s = s\<lparr>scan_disk := (scan_disk s)\<lparr>prim_parts := (prim_parts (scan_disk s))[unat (p_no s) := part]\<rparr>,
               partition_list := partition_list s @ [(disk_id (scan_disk s), False, p_no s)]\<rparr>;
         s = s\<lparr>p_no := p_no s + 1\<rparr>
     in rbind (c_assert (p_no s < 4)) (\<lambda>_. Inr s)))"

definition add_logic :: "partition_table_entry \<Rightarrow> u32 \<Rightarrow> 'd scan \<Rightarrow> 'd scan res" where
  "add_logic p ext_lba s =
     rbind (aread (logic_parts (scan_disk s)) (unat (l_no s))) (\<lambda>part.
     rbind (fill_part p ext_lba (scan_disk s) (ucast (l_no s) + 5) part) (\<lambda>part.
     let s = s\<lparr>scan_disk := (scan_disk s)\<lparr>logic_parts := (logic_parts (scan_disk s))[unat (l_no s) := part]\<rparr>,
               partition_list := partition_list s @ [(disk_id (scan_disk s), True, l_no s)]\<rparr>
     in Inr (s\<lparr>l_no := l_no s + 1\<rparr>)))"

text \<open>The loop over the entries; \<open>scan\<close> is the recursive call.\<close>

fun scan_entries :: "(u32 \<Rightarrow> 'd scan \<Rightarrow> 'd scan res) \<Rightarrow> u32 \<Rightarrow> u8 list \<Rightarrow> nat list \<Rightarrow> 'd scan \<Rightarrow> 'd scan res" where
  "scan_entries scan ext_lba bs [] s = Inr s"
| "scan_entries scan ext_lba bs (i # is) s =
     (let p = table_entry bs i in
      if fs_type p = 0x5
      then rbind (if ext_lba_base s \<noteq> 0 then scan (entry_start p + ext_lba_base s) s
                  else let s = s\<lparr>ext_lba_base := entry_start p\<rparr> in scan (entry_start p) s)
             (scan_entries scan ext_lba bs is)
      else if fs_type p \<noteq> 0
      then if ext_lba = 0
           then rbind (add_prim p ext_lba s) (scan_entries scan ext_lba bs is)
           else rbind (add_logic p ext_lba s) (\<lambda>s. if l_no s \<ge> 8 then Inr s else scan_entries scan ext_lba bs is s)
      else scan_entries scan ext_lba bs is s)"

text \<open>
  A chain of extended partitions longer than the fuel counts as one that never ends. The buffer of a boot sector is the bytes
  read; that it comes from \<^verbatim>\<open>sys_malloc\<close> and goes back with \<^verbatim>\<open>sys_free\<close> is left out.
\<close>

primrec partition_scan :: "nat \<Rightarrow> 'd ata \<Rightarrow> u32 \<Rightarrow> 'd scan \<Rightarrow> 'd scan res" where
  "partition_scan 0 A ext_lba s = Inl Hang"
| "partition_scan (Suc fuel) A ext_lba s =
     rbind (ide_read A (snd (disk_id (scan_disk s))) ext_lba 1 (chan s)) (\<lambda>(bs, c).
     scan_entries (partition_scan fuel A) ext_lba bs [0..<4] (s\<lparr>chan := c\<rparr>))"

text \<open>
  \<^verbatim>\<open>ide_init\<close>: the channels and disks as it initialises them (the static structures are zero at
  first, \<open>dv\<close> is the device behind each channel, \<open>hd_cnt\<close> the byte the BIOS left at address 0x475).
  \<^verbatim>\<open>ext_lba_base\<close> is not reset between the disks.
\<close>

definition no_partition :: partition where
  "no_partition = \<lparr>start_lba = 0, sec_cnt = 0, my_disk = (0, 0), part_name = replicate 8 0\<rparr>"

definition init_channel :: "u8 \<Rightarrow> 'd \<Rightarrow> 'd ide_channel res" where
  "init_channel channel_no d =
     rbind (sprintf (replicate 8 0) (ascii ''ide%d'') [Word (ucast channel_no)]) (\<lambda>(_, name).
     Inr \<lparr>channel_name = name, port_base = (if channel_no = 0 then 0x1f0 else if channel_no = 1 then 0x170 else 0),
          irq_no = (if channel_no = 0 then 0x20 + 14 else if channel_no = 1 then 0x20 + 15 else 0),
          expecting_intr = False, disk_done = 0, device = d\<rparr>)"

definition init_disk :: "nat \<Rightarrow> 'd ata \<Rightarrow> u8 \<Rightarrow> u8 \<Rightarrow> 'd scan \<Rightarrow> 'd scan res" where
  "init_disk fuel A channel_no dev_no s =
     rbind (sprintf (replicate 8 0) (ascii ''sd%c'') [Word (ucast (chr (CHR ''a'')) + ucast channel_no * 2 + ucast dev_no)]) (\<lambda>(_, name).
     let s = s\<lparr>scan_disk := \<lparr>disk_name = name, disk_id = (channel_no, dev_no),
                 prim_parts = replicate 4 no_partition, logic_parts = replicate 8 no_partition\<rparr>\<rparr>
     in rbind (identify_disk A dev_no (chan s)) (\<lambda>(_, c).
        let s = s\<lparr>chan := c\<rparr>
        in rbind (if dev_no \<noteq> 0 then partition_scan fuel A 0 s else Inr s) (\<lambda>s.
           Inr (s\<lparr>p_no := 0, l_no := 0\<rparr>))))"

fun init_channels :: "nat \<Rightarrow> 'd ata \<Rightarrow> (u8 \<Rightarrow> 'd) \<Rightarrow> u8 list \<Rightarrow> 'd scan \<Rightarrow> (('d ide_channel \<times> disk \<times> disk) list \<times> 'd scan) res" where
  "init_channels fuel A dv [] s = Inr ([], s)"
| "init_channels fuel A dv (channel_no # cs) s =
     rbind (init_channel channel_no (dv channel_no)) (\<lambda>c.
     rbind (init_disk fuel A channel_no 0 (s\<lparr>chan := c\<rparr>)) (\<lambda>s0.
     rbind (init_disk fuel A channel_no 1 s0) (\<lambda>s1.
     rbind (init_channels fuel A dv cs s1) (\<lambda>(rest, s2).
     Inr ((chan s1, scan_disk s0, scan_disk s1) # rest, s2)))))"

definition ide_init :: "nat \<Rightarrow> 'd ata \<Rightarrow> (u8 \<Rightarrow> 'd) \<Rightarrow> u8 \<Rightarrow> 'd scan \<Rightarrow> (('d ide_channel \<times> disk \<times> disk) list \<times> 'd scan) res" where
  "ide_init fuel A dv hd_cnt s =
     rbind (c_assert (hd_cnt > 0)) (\<lambda>_.
     let channel_cnt = (unat hd_cnt + 2 - 1) div 2;
         s = s\<lparr>partition_list := []\<rparr>
     in rbind (guard Out_of_bounds (channel_cnt \<le> 2)) (\<lambda>_.
        init_channels fuel A dv (map of_nat [0..<channel_cnt]) s))"

section \<open>The device\<close>

text \<open>
  What can be observed of a device: the values last written to the registers of the task file, the bytes a read command has
  still to hand over, the sectors a write command has still to take and the bytes of the current one that have come, how many
  polls of the status still find it busy, and the sectors of the two drives.
\<close>

record 'd view =
  reg :: "'d \<Rightarrow> u16 \<Rightarrow> u8"
  ready_data :: "'d \<Rightarrow> u8 list"
  pending :: "'d \<Rightarrow> (bool \<times> u32 \<times> nat) option"
  filled :: "'d \<Rightarrow> u8 list"
  polls :: "'d \<Rightarrow> nat"
  media :: "'d \<Rightarrow> bool \<Rightarrow> u32 \<Rightarrow> u8 list"

text \<open>The drive, the sector and the count the task file selects (a count of 0 means 256).\<close>

definition task_drive :: "(u16 \<Rightarrow> u8) \<Rightarrow> u16 \<Rightarrow> bool" where
  "task_drive r b = bit (r (b + 6)) 4"

definition task_lba :: "(u16 \<Rightarrow> u8) \<Rightarrow> u16 \<Rightarrow> u32" where
  "task_lba r b = ucast (r (b + 3)) OR push_bit 8 (ucast (r (b + 4))) OR push_bit 16 (ucast (r (b + 5)))
     OR push_bit 24 (ucast (r (b + 6) AND 0xf))"

definition task_count :: "(u16 \<Rightarrow> u8) \<Rightarrow> u16 \<Rightarrow> nat" where
  "task_count r b = (if r (b + 2) = 0 then 256 else unat (r (b + 2)))"

text \<open>
  The protocol. Nothing is said of a register written, a word read or a word written while the device is busy. It may be busy
  for fewer than 29000 polls after a command and after each sector of 512 bytes that is followed by another one, or that has
  to be written to the disk; within a sector it is not.
\<close>

definition keeps_regs :: "'d ata \<Rightarrow> 'd view \<Rightarrow> u16 \<Rightarrow> bool" where
  "keeps_regs A V b \<longleftrightarrow> (\<forall>d p v. polls V d = 0 \<longrightarrow> p \<in> {b + 2, b + 3, b + 4, b + 5, b + 6} \<longrightarrow>
     reg V (outb A p v d) = (reg V d)(p := v) \<and> media V (outb A p v d) = media V d \<and> polls V (outb A p v d) = 0)"

definition starts_read :: "'d ata \<Rightarrow> 'd view \<Rightarrow> u16 \<Rightarrow> bool" where
  "starts_read A V b \<longleftrightarrow> (\<forall>d. polls V d = 0 \<longrightarrow> (let e = outb A (b + 7) CMD_READ_SECTOR d; r = reg V d in
     media V e = media V d \<and> polls V e < 29000 \<and>
     ready_data V e = sectors (media V d (task_drive r b)) (task_lba r b) (task_count r b)))"

definition starts_write :: "'d ata \<Rightarrow> 'd view \<Rightarrow> u16 \<Rightarrow> bool" where
  "starts_write A V b \<longleftrightarrow> (\<forall>d. polls V d = 0 \<longrightarrow> (let e = outb A (b + 7) CMD_WRITE_SECTOR d; r = reg V d in
     media V e = media V d \<and> polls V e < 29000 \<and> filled V e = [] \<and>
     pending V e = Some (task_drive r b, task_lba r b, task_count r b)))"

definition same_transfer :: "'d view \<Rightarrow> 'd \<Rightarrow> 'd \<Rightarrow> bool" where
  "same_transfer V d e \<longleftrightarrow> media V e = media V d \<and> ready_data V e = ready_data V d \<and> pending V e = pending V d \<and>
     filled V e = filled V d"

definition shows_status :: "'d ata \<Rightarrow> 'd view \<Rightarrow> u16 \<Rightarrow> bool" where
  "shows_status A V b \<longleftrightarrow> (\<forall>d. let (st, e) = inb A (b + 7) d in same_transfer V d e \<and>
     (if polls V d = 0 then polls V e = 0 \<and> \<not> bit st 7 \<and> (ready_data V d \<noteq> [] \<or> pending V d \<noteq> None \<longrightarrow> bit st 3)
      else bit st 7 \<and> polls V e = polls V d - 1))"

definition interrupts :: "'d ata \<Rightarrow> 'd view \<Rightarrow> bool" where
  "interrupts A V \<longleftrightarrow> (\<forall>d. same_transfer V d (await A d) \<and> polls V (await A d) = 0)"

definition hands_over :: "'d ata \<Rightarrow> 'd view \<Rightarrow> u16 \<Rightarrow> bool" where
  "hands_over A V b \<longleftrightarrow> (\<forall>d x y r. polls V d = 0 \<longrightarrow> ready_data V d = x # y # r \<longrightarrow>
     (let (w, e) = inw A b d in w = (x, y) \<and> media V e = media V d \<and> ready_data V e = r \<and>
        (r = [] \<or> length r mod 512 \<noteq> 0 \<longrightarrow> polls V e = 0)))"

definition takes_up :: "'d ata \<Rightarrow> 'd view \<Rightarrow> u16 \<Rightarrow> bool" where
  "takes_up A V b \<longleftrightarrow> (\<forall>d x y dr l k. polls V d = 0 \<longrightarrow> pending V d = Some (dr, l, k) \<longrightarrow>
     (let e = outw A b (x, y) d; bs = filled V d @ [x, y] in
        (length bs < 512 \<longrightarrow> media V e = media V d \<and> pending V e = Some (dr, l, k) \<and> filled V e = bs \<and> polls V e = 0) \<and>
        (length bs = 512 \<longrightarrow> media V e = (media V d)(dr := (media V d dr)(l := bs)) \<and> filled V e = [] \<and>
           pending V e = (if k = 1 then None else Some (dr, l + 1, k - 1)))))"

definition ata_ok :: "'d ata \<Rightarrow> 'd view \<Rightarrow> u16 \<Rightarrow> bool" where
  "ata_ok A V b \<longleftrightarrow> (\<forall>d dr. disk_ok (media V d dr)) \<and> keeps_regs A V b \<and> starts_read A V b \<and> starts_write A V b \<and>
     shows_status A V b \<and> interrupts A V \<and> hands_over A V b \<and> takes_up A V b"

text \<open>A device that hands over and takes the sectors of a command without a pause in between.\<close>

definition prompt_device :: "'d ata \<Rightarrow> 'd view \<Rightarrow> u16 \<Rightarrow> bool" where
  "prompt_device A V b \<longleftrightarrow> (\<forall>d. polls V d = 0 \<longrightarrow> ready_data V d \<noteq> [] \<longrightarrow> polls V (snd (inw A b d)) = 0) \<and>
     (\<forall>d w. polls V d = 0 \<longrightarrow> pending V d \<noteq> None \<longrightarrow> polls V (outw A b w d) = 0)"

text \<open>The channel between two transfers.\<close>

definition idle_channel :: "'d view \<Rightarrow> 'd ide_channel \<Rightarrow> bool" where
  "idle_channel V c \<longleftrightarrow> disk_done c = 0 \<and> irq_no c \<in> {0x2e, 0x2f} \<and> polls V (device c) = 0"

section \<open>One round\<close>

lemma regs_distinct [simp]:
  "(b :: u16) + 2 \<noteq> b + 3" "b + 2 \<noteq> b + 4" "b + 2 \<noteq> b + 5" "b + 2 \<noteq> b + 6"
  "b + 3 \<noteq> b + 4" "b + 3 \<noteq> b + 5" "b + 3 \<noteq> b + 6" "b + 4 \<noteq> b + 5" "b + 4 \<noteq> b + 6" "b + 5 \<noteq> b + 6"
  by simp_all

lemma ata_media_ok: "ata_ok A V b \<Longrightarrow> disk_ok (media V d dr)"
  by (simp add: ata_ok_def)

lemma ata_reg:
  "ata_ok A V b \<Longrightarrow> polls V d = 0 \<Longrightarrow> p \<in> {b + 2, b + 3, b + 4, b + 5, b + 6} \<Longrightarrow>
    reg V (outb A p v d) = (reg V d)(p := v) \<and> media V (outb A p v d) = media V d \<and> polls V (outb A p v d) = 0"
  by (simp only: ata_ok_def keeps_regs_def)

lemma ata_read_cmd:
  "ata_ok A V b \<Longrightarrow> polls V d = 0 \<Longrightarrow> e = outb A (b + 7) CMD_READ_SECTOR d \<Longrightarrow> r = reg V d \<Longrightarrow>
    media V e = media V d \<and> polls V e < 29000 \<and>
    ready_data V e = sectors (media V d (task_drive r b)) (task_lba r b) (task_count r b)"
  by (simp add: ata_ok_def starts_read_def Let_def)

lemma ata_write_cmd:
  "ata_ok A V b \<Longrightarrow> polls V d = 0 \<Longrightarrow> e = outb A (b + 7) CMD_WRITE_SECTOR d \<Longrightarrow> r = reg V d \<Longrightarrow>
    media V e = media V d \<and> polls V e < 29000 \<and> filled V e = [] \<and>
    pending V e = Some (task_drive r b, task_lba r b, task_count r b)"
  by (simp add: ata_ok_def starts_write_def Let_def)

lemma ata_status:
  "ata_ok A V b \<Longrightarrow> inb A (b + 7) d = (st, e) \<Longrightarrow>
    media V e = media V d \<and> ready_data V e = ready_data V d \<and> pending V e = pending V d \<and> filled V e = filled V d \<and>
    (if polls V d = 0 then polls V e = 0 \<and> \<not> bit st 7 \<and>
       (ready_data V d \<noteq> [] \<or> pending V d \<noteq> None \<longrightarrow> bit st 3)
     else bit st 7 \<and> polls V e = polls V d - 1)"
  by (auto simp: ata_ok_def shows_status_def same_transfer_def split: prod.splits)

lemma ata_await:
  "ata_ok A V b \<Longrightarrow> e = await A d \<Longrightarrow> media V e = media V d \<and> ready_data V e = ready_data V d \<and>
    pending V e = pending V d \<and> filled V e = filled V d \<and> polls V e = 0"
  by (simp add: ata_ok_def interrupts_def same_transfer_def)

lemma ata_inw:
  "ata_ok A V b \<Longrightarrow> polls V d = 0 \<Longrightarrow> ready_data V d = x # y # r \<Longrightarrow> inw A b d = (w, e) \<Longrightarrow>
    w = (x, y) \<and> media V e = media V d \<and> ready_data V e = r \<and> (r = [] \<or> length r mod 512 \<noteq> 0 \<longrightarrow> polls V e = 0)"
proof -
  assume ok: "ata_ok A V b" and d: "polls V d = 0" "ready_data V d = x # y # r" "inw A b d = (w, e)"
  have "hands_over A V b" using ok by (simp add: ata_ok_def)
  from this [unfolded hands_over_def, rule_format, OF d(1,2)] show ?thesis unfolding d(3) by simp
qed

lemma ata_outw:
  assumes "ata_ok A V b" and "polls V d = 0" and "pending V d = Some (dr, l, k)" and "e = outw A b (x, y) d" and "bs = filled V d @ [x, y]"
  shows "length bs < 512 \<Longrightarrow> media V e = media V d \<and> pending V e = Some (dr, l, k) \<and> filled V e = bs \<and> polls V e = 0"
    and "length bs = 512 \<Longrightarrow> media V e = (media V d)(dr := (media V d dr)(l := bs)) \<and> filled V e = [] \<and>
      pending V e = (if k = 1 then None else Some (dr, l + 1, k - 1))"
  using assms by (simp_all add: ata_ok_def takes_up_def Let_def)

text \<open>Reading the words: one sector from every device, several ones from a prompt one.\<close>

lemma insw_ready:
  assumes ok: "ata_ok A V b" and "prompt_device A V b \<or> length (ready_data V d) \<le> 512"
    and "polls V d = 0" and "2 * n = length (ready_data V d)"
  shows "\<exists>e. insw A b n d = (ready_data V d, e) \<and> media V e = media V d \<and> polls V e = 0"
  using assms(2-)
proof (induction n arbitrary: d)
  case (Suc n)
  obtain x y r where r: "ready_data V d = x # y # r" "length r = 2 * n"
    using Suc.prems(3) by (cases "ready_data V d" rule: list.exhaust [case_names Nil Cons]; cases "tl (ready_data V d)") auto
  obtain w e where w: "inw A b d = (w, e)" by fastforce
  note e = ata_inw [OF ok Suc.prems(2) r(1) w]
  have "polls V e = 0" if "prompt_device A V b"
  proof -
    have "polls V (snd (inw A b d)) = 0" using that Suc.prems(2) r(1) unfolding prompt_device_def by simp
    with w show ?thesis by simp
  qed
  moreover have "r = [] \<or> length r mod 512 \<noteq> 0" if "length (ready_data V d) \<le> 512"
    using that r by (cases r) auto
  ultimately have p: "polls V e = 0" using Suc.prems(1) e by blast
  have "prompt_device A V b \<or> length (ready_data V e) \<le> 512" "2 * n = length (ready_data V e)" using Suc.prems(1) e r by auto
  from Suc.IH [OF this(1) p this(2)] e show ?case using w r(1) by auto
qed simp

text \<open>Writing the words of one sector, and of several ones.\<close>

lemma outsw_sector:
  assumes ok: "ata_ok A V b"
  shows "polls V d = 0 \<Longrightarrow> pending V d = Some (dr, l, k) \<Longrightarrow> even (length bs) \<Longrightarrow> bs \<noteq> [] \<Longrightarrow>
    length (filled V d) + length bs = 512 \<Longrightarrow> e = outsw A b bs d \<Longrightarrow>
    media V e = (media V d)(dr := (media V d dr)(l := filled V d @ bs)) \<and> filled V e = [] \<and>
      pending V e = (if k = 1 then None else Some (dr, l + 1, k - 1)) \<and> (prompt_device A V b \<longrightarrow> polls V e = 0)"
proof (induction bs arbitrary: d rule: induct_list012)
  case (3 x y bs)
  let ?d = "outw A b (x, y) d"
  note o = ata_outw [OF ok 3(3,4) refl refl, of x y]
  show ?case
  proof (cases "bs = []")
    case True
    have "polls V ?d = 0" if "prompt_device A V b" using that 3(3,4) by (simp add: prompt_device_def)
    then show ?thesis using o(2) True 3(7,8) by (simp add: fun_eq_iff)
  next
    case False
    then have "2 \<le> length bs" using 3(5) by (cases bs rule: remdups_adj.cases) auto
    then have "media V ?d = media V d \<and> pending V ?d = Some (dr, l, k) \<and> filled V ?d = filled V d @ [x, y] \<and> polls V ?d = 0"
      using 3(7) by (intro o(1)) simp
    then show ?thesis using 3(1) [of ?d] 3(5,7,8) False by simp
  qed
qed auto

lemma outsw_append: "even (length xs) \<Longrightarrow> outsw A b (xs @ ys) d = outsw A b ys (outsw A b xs d)"
  by (induction xs arbitrary: d rule: induct_list012) auto

lemma outsw_sectors:
  assumes ok: "ata_ok A V b"
  shows "polls V d = 0 \<Longrightarrow> pending V d = Some (dr, l, k) \<Longrightarrow> filled V d = [] \<Longrightarrow> k \<noteq> 0 \<Longrightarrow> length bs = 512 * k \<Longrightarrow>
    prompt_device A V b \<or> k = 1 \<Longrightarrow> media V (outsw A b bs d) = (media V d)(dr := write_sectors l k bs (media V d dr))"
proof (induction k arbitrary: bs l d)
  case (Suc k)
  let ?xs = "take 512 bs" and ?ys = "drop 512 bs"
  define e where "e = outsw A b ?xs d"
  have len: "length ?xs = 512" "length ?ys = 512 * k" using Suc.prems(5) by simp_all
  then have ne: "?xs \<noteq> []" by auto
  have e: "media V e = (media V d)(dr := (media V d dr)(l := ?xs))" "filled V e = []"
    "pending V e = (if Suc k = 1 then None else Some (dr, l + 1, k))" "prompt_device A V b \<longrightarrow> polls V e = 0"
    using outsw_sector [OF ok Suc.prems(1,2) _ ne _ e_def] len Suc.prems(3) by simp_all
  have o: "outsw A b bs d = outsw A b ?ys e"
    using outsw_append [of ?xs A b ?ys d] len by (simp add: e_def)
  show ?case
  proof (cases "k = 0")
    case True
    with len have "?ys = []" by simp
    with o e True show ?thesis by (simp add: fun_eq_iff)
  next
    case False
    then have "prompt_device A V b" using Suc.prems(6) by simp
    with e False have "media V (outsw A b ?ys e) = (media V e)(dr := write_sectors (l + 1) k ?ys (media V e dr))"
      using len by (intro Suc.IH) simp_all
    with o e(1) show ?thesis by simp
  qed
qed simp

text \<open>The task file after \<^verbatim>\<open>select_sector\<close>.\<close>

lemma lba_less: "lba \<le> max_lba \<Longrightarrow> lba < 2 ^ 28"
  by (simp add: word_le_nat_alt word_less_nat_alt unat_max_lba)

lemma u8_status_bits: "st AND BIT_STAT_BSY = 0 \<longleftrightarrow> \<not> bit st 7" "st AND BIT_STAT_DRQ \<noteq> 0 \<longleftrightarrow> bit st 3"
  using mask_and_eq_0_iff [of st 7] mask_and_eq_0_iff [of st 3]
  by (simp_all add: BIT_STAT_BSY_def BIT_STAT_DRQ_def push_bit_eq_mult)

lemma dev_byte:
  fixes v n :: u8
  assumes "lba < (2 :: u32) ^ 28"
  defines "v \<equiv> BIT_DEV_MBS OR BIT_DEV_LBA OR (if n = 1 then BIT_DEV_DEV else 0) OR ucast (drop_bit 24 lba)"
  shows "bit v 4 \<longleftrightarrow> n = 1" and "i < 4 \<Longrightarrow> bit v i \<longleftrightarrow> bit lba (24 + i)"
proof -
  have e: "BIT_DEV_MBS = push_bit 7 1 OR push_bit 5 1" "BIT_DEV_LBA = push_bit 6 1" "BIT_DEV_DEV = push_bit 4 1"
    by (simp_all add: BIT_DEV_MBS_def BIT_DEV_LBA_def BIT_DEV_DEV_def push_bit_eq_mult)
  have c: "bit BIT_DEV_MBS j \<longleftrightarrow> j = 5 \<or> j = 7" "bit BIT_DEV_LBA j \<longleftrightarrow> j = 6" "bit BIT_DEV_DEV j \<longleftrightarrow> j = 4" for j
    unfolding e bit_or_iff bit_push_bit_iff bit_1_iff by auto
  have "\<not> bit lba (24 + 4)" using small_bits [OF assms(1), of 28] by force
  then show "bit v 4 \<longleftrightarrow> n = 1"
    by (simp add: v_def c word_bit_simps bit_1_iff)
  show "i < 4 \<Longrightarrow> bit v i \<longleftrightarrow> bit lba (24 + i)"
    by (auto simp add: v_def c word_bit_simps bit_1_iff)
qed

lemma task_lba_bits:
  assumes "lba < (2 :: u32) ^ 28" and "\<And>i. i < 4 \<Longrightarrow> bit v i \<longleftrightarrow> bit lba (24 + i)"
  shows "ucast (ucast lba :: u8) OR push_bit 8 (ucast (ucast (drop_bit 8 lba) :: u8))
    OR push_bit 16 (ucast (ucast (drop_bit 16 lba) :: u8)) OR push_bit 24 (ucast (v AND 0xf :: u8)) = (lba :: u32)"
proof (rule bit_word_eqI)
  fix i assume i: "i < LENGTH(32)"
  have m: "(0xf :: u8) = mask 4" by (simp add: mask_eq_exp_minus_1)
  consider "i < 8" | "8 \<le> i" "i < 16" | "16 \<le> i" "i < 24" | "24 \<le> i" "i < 28" | "28 \<le> i" "i < 32"
    using i by fastforce
  then show "bit (ucast (ucast lba :: u8) OR push_bit 8 (ucast (ucast (drop_bit 8 lba) :: u8))
    OR push_bit 16 (ucast (ucast (drop_bit 16 lba) :: u8)) OR push_bit 24 (ucast (v AND 0xf :: u8)) :: u32) i = bit lba i"
  proof cases
    case 4
    then show ?thesis using assms(2) [of "i - 24"] by (auto simp: m word_bit_simps)
  next
    case 5
    then show ?thesis using small_bits [OF assms(1), of i] by (auto simp: m word_bit_simps)
  qed (auto simp: m word_bit_simps)
qed

lemma select_sector_task:
  assumes ok: "ata_ok A V (port_base c)" and "lba \<le> max_lba" and z: "polls V (device c) = 0"
  shows "\<exists>c'. select_sector A n lba k c = Inr c' \<and> c' = c\<lparr>device := device c'\<rparr> \<and>
    media V (device c') = media V (device c) \<and> polls V (device c') = 0 \<and>
    task_drive (reg V (device c')) (port_base c) = (n = 1) \<and>
    task_lba (reg V (device c')) (port_base c) = lba \<and>
    task_count (reg V (device c')) (port_base c) = (if k = 0 then 256 else unat k)"
proof -
  let ?b = "port_base c"
  let ?v = "BIT_DEV_MBS OR BIT_DEV_LBA OR (if n = 1 then BIT_DEV_DEV else 0) OR ucast (drop_bit 24 lba)"
  let ?d1 = "outb A (?b + 2) k (device c)"
  let ?d2 = "outb A (?b + 3) (ucast lba) ?d1"
  let ?d3 = "outb A (?b + 4) (ucast (drop_bit 8 lba)) ?d2"
  let ?d4 = "outb A (?b + 5) (ucast (drop_bit 16 lba)) ?d3"
  let ?d5 = "outb A (?b + 6) ?v ?d4"
  have s: "select_sector A n lba k c = Inr (c\<lparr>device := ?d5\<rparr>)"
    using assms(2) by (simp add: select_sector_def Let_def reg_sect_cnt_def reg_lba_l_def reg_lba_m_def reg_lba_h_def reg_dev_def)
  have r: "reg V ?d5 = (reg V (device c))(?b + 2 := k, ?b + 3 := ucast lba, ?b + 4 := ucast (drop_bit 8 lba),
      ?b + 5 := ucast (drop_bit 16 lba), ?b + 6 := ?v)" and m: "media V ?d5 = media V (device c)" "polls V ?d5 = 0"
    by (simp_all add: ata_reg [OF ok] z)
  note db = dev_byte [OF lba_less [OF assms(2)], where n = n]
  have "task_lba (reg V ?d5) ?b = lba" unfolding r
    using task_lba_bits [OF lba_less [OF assms(2)] db(2)] by (simp add: task_lba_def)
  moreover have "task_drive (reg V ?d5) ?b = (n = 1)" unfolding r using db(1) by (simp add: task_drive_def)
  moreover have "task_count (reg V ?d5) ?b = (if k = 0 then 256 else unat k)" unfolding r by (simp add: task_count_def)
  ultimately show ?thesis using s m by (intro exI [of _ "c\<lparr>device := ?d5\<rparr>"]) simp
qed

text \<open>Waiting: the interrupt comes, and the status becomes ready before the polls run out.\<close>

lemma wait_done_ok:
  assumes "ata_ok A V (port_base c)" and "disk_done c = 0" "irq_no c \<in> {0x2e, 0x2f}" and "expecting_intr c"
  shows "\<exists>c'. wait_done A c = Inr c' \<and> c' = c\<lparr>expecting_intr := False, device := device c'\<rparr> \<and>
    media V (device c') = media V (device c) \<and> ready_data V (device c') = ready_data V (device c) \<and> polls V (device c') = 0"
proof -
  obtain st e where i: "inb A (port_base c + 7) (await A (device c)) = (st, e)" by fastforce
  have "wait_done A c = Inr (c\<lparr>expecting_intr := False, device := e\<rparr>)"
    using assms(2-4) i by (auto simp: wait_done_def intr_hd_handler_def reg_status_def Let_def)
  with ata_status [OF assms(1) i] ata_await [OF assms(1) refl, of "device c"]
  show ?thesis by (intro exI [of _ "c\<lparr>expecting_intr := False, device := e\<rparr>"]) simp
qed

lemma poll_ok:
  assumes "ata_ok A V (port_base c)" and "polls V (device c) < n"
    and "ready_data V (device c) \<noteq> [] \<or> pending V (device c) \<noteq> None"
  shows "\<exists>c'. poll A n c = (True, c') \<and> c' = c\<lparr>device := device c'\<rparr> \<and> media V (device c') = media V (device c) \<and>
    ready_data V (device c') = ready_data V (device c) \<and> pending V (device c') = pending V (device c) \<and>
    filled V (device c') = filled V (device c) \<and> polls V (device c') = 0"
  using assms
proof (induction n arbitrary: c)
  case 0
  then show ?case by simp
next
  case (Suc n)
  obtain st e where i: "inb A (port_base c + 7) (device c) = (st, e)" by fastforce
  note a = ata_status [OF Suc.prems(1) i]
  show ?case
  proof (cases "polls V (device c) = 0")
    case True
    obtain st2 e2 where i2: "inb A (port_base c + 7) e = (st2, e2)" by fastforce
    note a2 = ata_status [OF Suc.prems(1) i2]
    have "poll A (Suc n) c = (True, c\<lparr>device := e2\<rparr>)"
      using i i2 a a2 True Suc.prems(3) by (simp add: u8_status_bits reg_status_def Let_def)
    with a a2 True show ?thesis by (intro exI [of _ "c\<lparr>device := e2\<rparr>"]) simp
  next
    case False
    have p: "poll A (Suc n) c = poll A n (c\<lparr>device := e\<rparr>)"
      using i a False by (simp add: u8_status_bits reg_status_def Let_def)
    have "\<exists>c'. poll A n (c\<lparr>device := e\<rparr>) = (True, c') \<and> c' = c\<lparr>device := device c'\<rparr> \<and> media V (device c') = media V e \<and>
        ready_data V (device c') = ready_data V e \<and> pending V (device c') = pending V e \<and>
        filled V (device c') = filled V e \<and> polls V (device c') = 0"
      using Suc.IH [of "c\<lparr>device := e\<rparr>"] Suc.prems a False by simp
    with p a show ?thesis by metis
  qed
qed

lemma count_byte:
  assumes "1 \<le> unat (k :: u32)" and "unat k \<le> 256"
  shows "(if ucast k = (0 :: u8) then 256 else unat (ucast k :: u8)) = unat k"
proof -
  have u: "unat (ucast k :: u8) = unat k mod 256" by (simp add: unsigned_ucast_eq take_bit_eq_mod)
  show ?thesis
  proof (cases "unat k = 256")
    case True
    with u have "ucast k = (0 :: u8)" by (simp add: unat_eq_zero [symmetric] del: unat_eq_zero)
    with True show ?thesis by simp
  next
    case False
    with assms u have "unat (ucast k :: u8) = unat k" by simp
    moreover from this assms have "ucast k \<noteq> (0 :: u8)" by (metis not_one_le_zero unsigned_0)
    ultimately show ?thesis by simp
  qed
qed

lemma sector_bytes_count:
  assumes "1 \<le> unat (k :: u32)" and "unat k \<le> 256"
  shows "sector_bytes (ucast k) = 512 * unat k"
  using count_byte [OF assms] by (simp add: sector_bytes_def split: if_splits)

text \<open>A round up to the point where the data are moved.\<close>

lemma read_some_start:
  assumes ok: "ata_ok A V (port_base c)" and c: "idle_channel V c" and "lba \<le> max_lba"
    and k: "1 \<le> unat k" "unat k \<le> 256"
  obtains c' where "\<And>bs e. insw A (port_base c) (256 * unat k) (device c') = (bs, e) \<Longrightarrow>
      read_some A n lba k c = Inr (bs, c'\<lparr>device := e\<rparr>)"
    and "disk_done c' = 0" and "irq_no c' \<in> {0x2e, 0x2f}" and "port_base c' = port_base c" and "polls V (device c') = 0"
    and "media V (device c') = media V (device c)" and "ready_data V (device c') = sectors (media V (device c) (n = 1)) lba (unat k)"
proof -
  let ?data = "sectors (media V (device c) (n = 1)) lba (unat k)"
  have z: "polls V (device c) = 0" "disk_done c = 0" "irq_no c \<in> {0x2e, 0x2f}" using c by (simp_all add: idle_channel_def)
  obtain c1 where s: "select_sector A n lba (ucast k) c = Inr c1" "c1 = c\<lparr>device := device c1\<rparr>"
    and m1: "media V (device c1) = media V (device c)" "polls V (device c1) = 0"
    and t: "task_drive (reg V (device c1)) (port_base c) = (n = 1)" "task_lba (reg V (device c1)) (port_base c) = lba"
      "task_count (reg V (device c1)) (port_base c) = unat k"
    using select_sector_task [OF ok assms(3) z(1), of n "ucast k"] count_byte [OF k] by auto
  define c2 where "c2 = cmd_out A CMD_READ_SECTOR c1"
  have p1: "port_base c1 = port_base c" "disk_done c1 = 0" "irq_no c1 \<in> {0x2e, 0x2f}" using s(2) z by (cases c1; cases c; simp)+
  have d2: "device c2 = outb A (port_base c + 7) CMD_READ_SECTOR (device c1)"
    and c2: "disk_done c2 = 0" "irq_no c2 \<in> {0x2e, 0x2f}" "expecting_intr c2" "port_base c2 = port_base c"
    using p1 by (simp_all add: c2_def cmd_out_def reg_cmd_def reg_status_def Let_def)
  from ata_read_cmd [OF ok m1(2) d2 refl] m1 t have r2: "media V (device c2) = media V (device c)"
    "ready_data V (device c2) = ?data" by simp_all
  obtain c3 where w: "wait_done A c2 = Inr c3" "c3 = c2\<lparr>expecting_intr := False, device := device c3\<rparr>"
    and m3: "media V (device c3) = media V (device c2)" "ready_data V (device c3) = ready_data V (device c2)"
      "polls V (device c3) = 0"
    using wait_done_ok [of A V c2] c2 ok by auto
  have c3: "disk_done c3 = 0" "irq_no c3 \<in> {0x2e, 0x2f}" "port_base c3 = port_base c"
    using w(2) c2 by (cases c3; cases c2; simp)+
  have "length ?data = 512 * unat k" by (rule length_sectors [OF ata_media_ok [OF ok]])
  then have ne: "?data \<noteq> []" using k by auto
  obtain c4 where b: "poll A 29999 c3 = (True, c4)" "c4 = c3\<lparr>device := device c4\<rparr>"
    and m4: "media V (device c4) = media V (device c3)" "ready_data V (device c4) = ready_data V (device c3)" "polls V (device c4) = 0"
    using poll_ok [of A V c3 29999] ok c3 r2 m3 ne by fastforce
  have c4: "disk_done c4 = 0" "irq_no c4 \<in> {0x2e, 0x2f}" "port_base c4 = port_base c"
    using b(2) c3 by (cases c4; cases c3; simp)+
  have "read_some A n lba k c = Inr (bs, c4\<lparr>device := e\<rparr>)" if i: "insw A (port_base c) (256 * unat k) (device c4) = (bs, e)" for bs e
    using s w b i c4(3) sector_bytes_count [OF k]
    by (simp add: read_some_def c2_def [symmetric] busy_wait_def read_from_sector_def reg_data_def Let_def)
  then show ?thesis using c4 m4 m3 r2 by (intro that) simp_all
qed

lemma read_some_ok:
  assumes ok: "ata_ok A V (port_base c)" and pr: "prompt_device A V (port_base c) \<or> unat k = 1" and "idle_channel V c" and "lba \<le> max_lba"
    and k: "1 \<le> unat k" "unat k \<le> 256"
  shows "\<exists>c'. read_some A n lba k c = Inr (sectors (media V (device c) (n = 1)) lba (unat k), c') \<and>
    idle_channel V c' \<and> port_base c' = port_base c \<and> media V (device c') = media V (device c)"
proof -
  let ?data = "sectors (media V (device c) (n = 1)) lba (unat k)"
  obtain c' where r: "\<And>bs e. insw A (port_base c) (256 * unat k) (device c') = (bs, e) \<Longrightarrow>
      read_some A n lba k c = Inr (bs, c'\<lparr>device := e\<rparr>)"
    and c': "disk_done c' = 0" "irq_no c' \<in> {0x2e, 0x2f}" "port_base c' = port_base c" "polls V (device c') = 0"
      "media V (device c') = media V (device c)" "ready_data V (device c') = ?data"
    by (rule read_some_start [OF ok assms(3-6), of n]) blast
  have len: "length ?data = 512 * unat k" by (rule length_sectors [OF ata_media_ok [OF ok]])
  then have "prompt_device A V (port_base c) \<or> length (ready_data V (device c')) \<le> 512" "2 * (256 * unat k) = length (ready_data V (device c'))"
    using pr c'(6) by auto
  from insw_ready [OF ok this(1) c'(4) this(2)] obtain e where
    "insw A (port_base c) (256 * unat k) (device c') = (?data, e)" "media V e = media V (device c)" "polls V e = 0"
    using c'(5,6) by auto
  with r c' show ?thesis by (intro exI [of _ "c'\<lparr>device := e\<rparr>"]) (simp add: idle_channel_def)
qed

lemma write_some_start:
  assumes ok: "ata_ok A V (port_base c)" and c: "idle_channel V c" and "lba \<le> max_lba"
    and k: "1 \<le> unat k" "unat k \<le> 256" and l: "512 * unat k \<le> length buf"
  obtains c' where "write_some A n lba buf k c =
      wait_done A (c'\<lparr>device := outsw A (port_base c) (take (512 * unat k) buf) (device c')\<rparr>)"
    and "disk_done c' = 0" and "irq_no c' \<in> {0x2e, 0x2f}" and "expecting_intr c'" and "port_base c' = port_base c"
    and "polls V (device c') = 0" and "media V (device c') = media V (device c)"
    and "filled V (device c') = []" and "pending V (device c') = Some (n = 1, lba, unat k)"
proof -
  have z: "polls V (device c) = 0" "disk_done c = 0" "irq_no c \<in> {0x2e, 0x2f}" using c by (simp_all add: idle_channel_def)
  obtain c1 where s: "select_sector A n lba (ucast k) c = Inr c1" "c1 = c\<lparr>device := device c1\<rparr>"
    and m1: "media V (device c1) = media V (device c)" "polls V (device c1) = 0"
    and t: "task_drive (reg V (device c1)) (port_base c) = (n = 1)" "task_lba (reg V (device c1)) (port_base c) = lba"
      "task_count (reg V (device c1)) (port_base c) = unat k"
    using select_sector_task [OF ok assms(3) z(1), of n "ucast k"] count_byte [OF k] by auto
  define c2 where "c2 = cmd_out A CMD_WRITE_SECTOR c1"
  have p1: "port_base c1 = port_base c" "disk_done c1 = 0" "irq_no c1 \<in> {0x2e, 0x2f}" using s(2) z by (cases c1; cases c; simp)+
  have d2: "device c2 = outb A (port_base c + 7) CMD_WRITE_SECTOR (device c1)"
    and c2: "disk_done c2 = 0" "irq_no c2 \<in> {0x2e, 0x2f}" "expecting_intr c2" "port_base c2 = port_base c"
    using p1 by (simp_all add: c2_def cmd_out_def reg_cmd_def reg_status_def Let_def)
  from ata_write_cmd [OF ok m1(2) d2 refl] m1 t have r2: "media V (device c2) = media V (device c)"
    "polls V (device c2) < 29000" "filled V (device c2) = []" "pending V (device c2) = Some (n = 1, lba, unat k)" by simp_all
  obtain c3 where b: "poll A 29999 c2 = (True, c3)" "c3 = c2\<lparr>device := device c3\<rparr>"
    and m3: "media V (device c3) = media V (device c2)" "pending V (device c3) = pending V (device c2)"
      "filled V (device c3) = filled V (device c2)" "polls V (device c3) = 0"
    using poll_ok [of A V c2 29999] ok c2 r2 by fastforce
  have c3: "disk_done c3 = 0" "irq_no c3 \<in> {0x2e, 0x2f}" "expecting_intr c3" "port_base c3 = port_base c"
    using b(2) c2 by (cases c3; cases c2; simp)+
  have "write_some A n lba buf k c = wait_done A (c3\<lparr>device := outsw A (port_base c) (take (512 * unat k) buf) (device c3)\<rparr>)"
    using s b c3(4) sector_bytes_count [OF k] l
    by (simp add: write_some_def c2_def [symmetric] busy_wait_def write_to_sector_def reg_data_def Let_def)
  then show ?thesis using c3 m3 r2 by (intro that) simp_all
qed

text \<open>What the wait at the end of a write leaves.\<close>

lemma write_done:
  assumes ok: "ata_ok A V (port_base c)" and "disk_done c = 0" "irq_no c \<in> {0x2e, 0x2f}" "expecting_intr c"
  shows "\<exists>c'. wait_done A c = Inr c' \<and> idle_channel V c' \<and> port_base c' = port_base c \<and> media V (device c') = media V (device c)"
proof -
  obtain c' where w: "wait_done A c = Inr c'" "c' = c\<lparr>expecting_intr := False, device := device c'\<rparr>"
    "media V (device c') = media V (device c)" "polls V (device c') = 0" using wait_done_ok [OF assms] by blast
  then have "idle_channel V c'" "port_base c' = port_base c"
    using assms(2,3) by (cases c'; cases c; simp add: idle_channel_def)+
  with w show ?thesis by blast
qed

lemma write_some_ok:
  assumes ok: "ata_ok A V (port_base c)" and pr: "prompt_device A V (port_base c) \<or> unat k = 1" and c: "idle_channel V c" and "lba \<le> max_lba"
    and k: "1 \<le> unat k" "unat k \<le> 256" and l: "512 * unat k \<le> length buf"
  shows "\<exists>c'. write_some A n lba buf k c = Inr c' \<and> idle_channel V c' \<and> port_base c' = port_base c \<and>
    media V (device c') = (media V (device c))
      (n = 1 := write_sectors lba (unat k) (take (512 * unat k) buf) (media V (device c) (n = 1)))"
proof -
  let ?bs = "take (512 * unat k) buf"
  obtain c' where w: "write_some A n lba buf k c = wait_done A (c'\<lparr>device := outsw A (port_base c) ?bs (device c')\<rparr>)"
    and c': "disk_done c' = 0" "irq_no c' \<in> {0x2e, 0x2f}" "expecting_intr c'" "port_base c' = port_base c"
      "polls V (device c') = 0" "media V (device c') = media V (device c)" "filled V (device c') = []"
      "pending V (device c') = Some (n = 1, lba, unat k)"
    by (rule write_some_start [OF ok c assms(4) k l, of n]) blast
  have "media V (outsw A (port_base c) ?bs (device c')) = (media V (device c))
      (n = 1 := write_sectors lba (unat k) ?bs (media V (device c) (n = 1)))"
    using outsw_sectors [OF ok c'(5,8,7), of ?bs] c'(6) l k pr by auto
  with w write_done [of A V "c'\<lparr>device := outsw A (port_base c) ?bs (device c')\<rparr>"] c' ok show ?thesis by auto
qed

section \<open>Whole transfers\<close>

lemma next_op_fits:
  assumes "m < cnt" and "unat cnt \<le> 163840"
  shows "unat m + unat (next_op m cnt) \<le> unat cnt" and "unat (m + next_op m cnt) = unat m + unat (next_op m cnt)"
proof -
  have m: "unat m < unat cnt" using assms(1) by (simp add: word_less_nat_alt)
  then have "unat (m + 256) = unat m + 256" using assms(2) by (simp add: unat_word_ariths)
  then have "unat (next_op m cnt) = (if unat m + 256 \<le> unat cnt then 256 else unat cnt - unat m)"
    using unat_sub [OF order_less_imp_le [OF assms(1)]] by (simp add: next_op_def word_le_nat_alt)
  then show f: "unat m + unat (next_op m cnt) \<le> unat cnt" using m by simp
  then show "unat (m + next_op m cnt) = unat m + unat (next_op m cnt)"
    using assms(2) by (simp add: unat_word_ariths)
qed

lemma lba_in_range:
  assumes "m < cnt" and "unat lba + unat cnt \<le> 163840"
  shows "lba + m \<le> max_lba"
  using assms by (simp add: word_le_nat_alt word_less_nat_alt unat_max_lba unat_word_ariths)

lemma ide_read_loop_ok:
  assumes "ata_ok A V (port_base c)" and "idle_channel V c" and "unat lba + unat cnt \<le> 163840" and "m \<le> cnt"
    and pr: "prompt_device A V (port_base c) \<or> cnt = 1"
  shows "\<exists>c'. ide_read_loop A n lba cnt m buf c =
      Inr (buf @ sectors (media V (device c) (n = 1)) (lba + m) (unat cnt - unat m), c') \<and>
    idle_channel V c' \<and> port_base c' = port_base c \<and> media V (device c') = media V (device c)"
  using assms(1-4) pr
proof (induction "unat cnt - unat m" arbitrary: m buf c rule: less_induct)
  case less
  show ?case
  proof (cases "m < cnt")
    case False
    with less.prems(4) have "m = cnt" by simp
    with less.prems show ?thesis by (subst ide_read_loop.simps) auto
  next
    case True
    let ?k = "next_op m cnt" and ?M = "media V (device c) (n = 1)"
    note k = next_op_bounds [OF True]
    have c: "unat cnt \<le> 163840" using less.prems(3) by simp
    note f = next_op_fits [OF True c]
    have one: "prompt_device A V (port_base c) \<or> unat ?k = 1" using less.prems(5) f(1) k(1) by auto
    obtain c1 where r: "read_some A n (lba + m) ?k c = Inr (sectors ?M (lba + m) (unat ?k), c1)"
      and c1: "idle_channel V c1" "port_base c1 = port_base c" "media V (device c1) = media V (device c)"
      using read_some_ok [OF less.prems(1) one less.prems(2) lba_in_range [OF True less.prems(3)] k, of n] by blast
    have le: "m + ?k \<le> cnt" using f by (simp add: word_le_nat_alt)
    have lt: "unat cnt - unat (m + ?k) < unat cnt - unat m" using f k by simp
    from less.hyps [OF lt _ c1(1) less.prems(3) le, of "buf @ sectors ?M (lba + m) (unat ?k)"] less.prems(1,5) c1
    obtain c2 where l: "ide_read_loop A n lba cnt (m + ?k) (buf @ sectors ?M (lba + m) (unat ?k)) c1 =
        Inr ((buf @ sectors ?M (lba + m) (unat ?k)) @ sectors ?M (lba + (m + ?k)) (unat cnt - unat (m + ?k)), c2)"
      and c2: "idle_channel V c2" "port_base c2 = port_base c" "media V (device c2) = media V (device c)" by auto
    have "sectors ?M (lba + m) (unat cnt - unat m) =
        sectors ?M (lba + m) (unat ?k) @ sectors ?M (lba + (m + ?k)) (unat cnt - unat (m + ?k))"
      using sectors_add [of ?M "lba + m" "unat ?k" "unat cnt - unat (m + ?k)"] f by (simp add: add.assoc)
    with l r True c2 show ?thesis by (subst ide_read_loop.simps) (simp add: Let_def)
  qed
qed

lemma ide_write_loop_ok:
  assumes "ata_ok A V (port_base c)" and "idle_channel V c" and "unat lba + unat cnt \<le> 163840" and "m \<le> cnt"
    and "512 * unat cnt \<le> length buf" and pr: "prompt_device A V (port_base c) \<or> cnt = 1"
  shows "\<exists>c'. ide_write_loop A n lba buf cnt m c = Inr c' \<and> idle_channel V c' \<and> port_base c' = port_base c \<and>
    media V (device c') = (media V (device c))
      (n = 1 := write_sectors (lba + m) (unat cnt - unat m)
        (take (512 * (unat cnt - unat m)) (drop (512 * unat m) buf)) (media V (device c) (n = 1)))"
  using assms(1-4) pr
proof (induction "unat cnt - unat m" arbitrary: m c rule: less_induct)
  case less
  show ?case
  proof (cases "m < cnt")
    case False
    with less.prems(4) have "m = cnt" by simp
    with less.prems show ?thesis by (subst ide_write_loop.simps) auto
  next
    case True
    let ?k = "next_op m cnt" and ?M = "media V (device c) (n = 1)" and ?b = "drop (512 * unat m) buf"
    note k = next_op_bounds [OF True]
    have c: "unat cnt \<le> 163840" using less.prems(3) by simp
    note f = next_op_fits [OF True c]
    have one: "prompt_device A V (port_base c) \<or> unat ?k = 1" using less.prems(5) f(1) k(1) by auto
    have m: "unat m < unat cnt" using True by (simp add: word_less_nat_alt)
    have off: "unat (m * 512) = 512 * unat m" using m c by (simp add: unat_word_ariths)
    have lb: "512 * unat ?k \<le> length ?b" using f assms(5) by simp
    let ?M1 = "write_sectors (lba + m) (unat ?k) (take (512 * unat ?k) ?b) ?M"
    obtain c1 where r: "write_some A n (lba + m) ?b ?k c = Inr c1"
      and c1: "idle_channel V c1" "port_base c1 = port_base c" "media V (device c1) = (media V (device c))(n = 1 := ?M1)"
      using write_some_ok [OF less.prems(1) one less.prems(2) lba_in_range [OF True less.prems(3)] k lb, of n] by blast
    have le: "m + ?k \<le> cnt" using f by (simp add: word_le_nat_alt)
    have lt: "unat cnt - unat (m + ?k) < unat cnt - unat m" using f k by simp
    let ?r = "unat cnt - unat (m + ?k)"
    from less.hyps [OF lt _ c1(1) less.prems(3) le] less.prems(1,5) c1
    obtain c2 where l: "ide_write_loop A n lba buf cnt (m + ?k) c1 = Inr c2"
      and c2: "idle_channel V c2" "port_base c2 = port_base c" "media V (device c2) = (media V (device c))
        (n = 1 := write_sectors (lba + (m + ?k)) ?r (take (512 * ?r) (drop (512 * unat (m + ?k)) buf)) ?M1)" by auto
    have split: "take (512 * (unat cnt - unat m)) ?b =
        take (512 * unat ?k) ?b @ take (512 * ?r) (drop (512 * unat (m + ?k)) buf)"
    proof -
      have "drop (512 * unat (m + ?k)) buf = drop (512 * unat ?k) ?b" using f(2) by (simp add: algebra_simps)
      moreover have "512 * (unat cnt - unat m) = 512 * unat ?k + 512 * ?r" using f by simp
      ultimately show ?thesis by (simp only: take_add)
    qed
    have "write_sectors (lba + m) (unat cnt - unat m) (take (512 * (unat cnt - unat m)) ?b) ?M =
        write_sectors (lba + (m + ?k)) ?r (take (512 * ?r) (drop (512 * unat (m + ?k)) buf)) ?M1"
      unfolding split using write_sectors_add [of "take (512 * unat ?k) ?b" "unat ?k" "lba + m" ?r] lb f
      by (simp add: add.assoc)
    with l r True c2 off show ?thesis by (subst ide_write_loop.simps) (simp add: Let_def)
  qed
qed

lemma select_disk_ok:
  assumes "ata_ok A V (port_base c)" and "idle_channel V c"
  shows "idle_channel V (select_disk A n c)" "port_base (select_disk A n c) = port_base c"
    "media V (device (select_disk A n c)) = media V (device c)"
  using ata_reg [OF assms(1), where p = "port_base c + 6"] assms(2)
  by (simp_all add: select_disk_def reg_dev_def idle_channel_def Let_def)

lemma ide_read_ok:
  assumes "ata_ok A V (port_base c)" and "idle_channel V c" and "0 < cnt" and "unat lba + unat cnt \<le> 163840"
    and "prompt_device A V (port_base c) \<or> cnt = 1"
  shows "\<exists>c'. ide_read A n lba cnt c = Inr (sectors (media V (device c) (n = 1)) lba (unat cnt), c') \<and>
    idle_channel V c' \<and> port_base c' = port_base c \<and> media V (device c') = media V (device c)"
proof -
  note s = select_disk_ok [OF assms(1,2), of n]
  have "lba \<le> max_lba" using lba_in_range [OF assms(3,4)] by simp
  with ide_read_loop_ok [of A V "select_disk A n c" lba cnt 0 n "[]"] s assms show ?thesis
    by (simp add: ide_read_def word_neq_0_conv)
qed

lemma ide_write_ok:
  assumes "ata_ok A V (port_base c)" and "idle_channel V c" and "0 < cnt" and "unat lba + unat cnt \<le> 163840"
    and "prompt_device A V (port_base c) \<or> cnt = 1"
    and "512 * unat cnt \<le> length buf"
  shows "\<exists>c'. ide_write A n lba buf cnt c = Inr c' \<and> idle_channel V c' \<and> port_base c' = port_base c \<and>
    media V (device c') = (media V (device c))
      (n = 1 := write_sectors lba (unat cnt) (take (512 * unat cnt) buf) (media V (device c) (n = 1)))"
proof -
  note s = select_disk_ok [OF assms(1,2), of n]
  have "lba \<le> max_lba" using lba_in_range [OF assms(3,4)] by simp
  with ide_write_loop_ok [of A V "select_disk A n c" lba cnt 0 buf n] s assms show ?thesis
    by (simp add: ide_write_def word_neq_0_conv)
qed

section \<open>Properties\<close>

text \<open>
  C15. On every device that keeps the ATA protocol, \<^verbatim>\<open>ide_read\<close> of one sector delivers exactly that sector, and \<^verbatim>\<open>ide_write\<close>
  changes exactly that one (on the selected drive only) so that reading returns the buffer; on a device that does not
  pause between the sectors of one command the same holds of any number of sectors below the limit of 80 MB, in
  transfers of at most 256. The channel is ready for the next transfer, and no assertion and no time limit is hit.
\<close>

theorem ide_transfers:
  assumes "ata_ok A V (port_base c)" and "idle_channel V c" and "0 < cnt" and "unat lba + unat cnt \<le> 163840"
    and "length buf = 512 * unat cnt" and "prompt_device A V (port_base c) \<or> cnt = 1"
  shows "\<exists>c1 c2 c3.
    ide_read A n lba cnt c = Inr (sectors (media V (device c) (n = 1)) lba (unat cnt), c1) \<and>
    media V (device c1) = media V (device c) \<and> idle_channel V c1 \<and>
    ide_write A n lba buf cnt c = Inr c2 \<and> idle_channel V c2 \<and>
    media V (device c2) (n \<noteq> 1) = media V (device c) (n \<noteq> 1) \<and>
    (\<forall>l. (\<exists>i < unat cnt. l = lba + of_nat i) \<or> media V (device c2) (n = 1) l = media V (device c) (n = 1) l) \<and>
    ide_read A n lba cnt c2 = Inr (buf, c3)"
proof -
  obtain c1 where r: "ide_read A n lba cnt c = Inr (sectors (media V (device c) (n = 1)) lba (unat cnt), c1)"
    "idle_channel V c1" "media V (device c1) = media V (device c)" using ide_read_ok [OF assms(1-4,6)] by blast
  let ?M = "write_sectors lba (unat cnt) buf (media V (device c) (n = 1))"
  obtain c2 where w: "ide_write A n lba buf cnt c = Inr c2" "idle_channel V c2" "port_base c2 = port_base c"
    and m: "media V (device c2) = (media V (device c))(n = 1 := ?M)"
    using ide_write_ok [OF assms(1-4,6), of buf n] assms(5) by auto
  have cnt: "unat cnt < 2 ^ 32" using unsigned_less [of cnt] by simp
  have "sectors ?M lba (unat cnt) = buf" by (rule sectors_write_sectors [OF cnt assms(5)])
  then obtain c3 where "ide_read A n lba cnt c2 = Inr (buf, c3)"
    using ide_read_ok [of A V c2 cnt lba n] assms w m by auto
  moreover have "?M l = media V (device c) (n = 1) l" if "\<not> (\<exists>i < unat cnt. l = lba + of_nat i)" for l
    using write_sectors_other [OF cnt, of l lba] that by blast
  ultimately show ?thesis using r w m by auto
qed

section \<open>A device\<close>

text \<open>
  A device that keeps the protocol: it is busy for \<open>lag\<close> polls after a command and between the sectors of one, and its
  sectors are padded to 512 bytes. While it is busy, the words read are all ones and the words written are lost.
\<close>

record sim =
  sim_regs :: "u16 \<Rightarrow> u8"
  sim_data :: "u8 list"
  sim_pending :: "(bool \<times> u32 \<times> nat) option"
  sim_filled :: "u8 list"
  sim_busy :: nat
  sim_media :: "bool \<Rightarrow> u32 \<Rightarrow> u8 list"

definition pad_media :: "sim \<Rightarrow> bool \<Rightarrow> u32 \<Rightarrow> u8 list" where
  "pad_media d = (\<lambda>dr l. take 512 (sim_media d dr l @ replicate 512 0))"

definition sim_command :: "nat \<Rightarrow> u16 \<Rightarrow> u8 \<Rightarrow> sim \<Rightarrow> sim" where
  "sim_command lag b v d =
     (let r = sim_regs d
      in if v = CMD_READ_SECTOR
         then d\<lparr>sim_data := sectors (pad_media d (task_drive r b)) (task_lba r b) (task_count r b), sim_busy := lag\<rparr>
         else d\<lparr>sim_pending := Some (task_drive r b, task_lba r b, task_count r b), sim_filled := [], sim_busy := lag\<rparr>)"

definition sim_inw :: "nat \<Rightarrow> sim \<Rightarrow> (u8 \<times> u8) \<times> sim" where
  "sim_inw lag d =
     (if sim_busy d \<noteq> 0 then ((0xff, 0xff), d)
      else case sim_data d of
        x # y # r \<Rightarrow> ((x, y), d\<lparr>sim_data := r, sim_busy := (if r \<noteq> [] \<and> length r mod 512 = 0 then lag else 0)\<rparr>)
      | _ \<Rightarrow> ((0xff, 0xff), d))"

definition sim_outw :: "nat \<Rightarrow> u8 \<times> u8 \<Rightarrow> sim \<Rightarrow> sim" where
  "sim_outw lag w d =
     (if sim_busy d \<noteq> 0 then d
      else case sim_pending d of None \<Rightarrow> d
      | Some (dr, l, k) \<Rightarrow>
        let bs = sim_filled d @ [fst w, snd w]
        in if length bs < 512 then d\<lparr>sim_filled := bs\<rparr>
           else d\<lparr>sim_media := (pad_media d)(dr := (pad_media d dr)(l := bs)), sim_filled := [], sim_busy := lag,
                  sim_pending := (if k = 1 then None else Some (dr, l + 1, k - 1))\<rparr>)"

definition sim_ata :: "nat \<Rightarrow> u16 \<Rightarrow> sim ata" where
  "sim_ata lag b = \<lparr>
     outb = (\<lambda>p v d. if p = b + 7 then sim_command lag b v d else d\<lparr>sim_regs := (sim_regs d)(p := v)\<rparr>),
     inb = (\<lambda>p d. if sim_busy d = 0 then (BIT_STAT_DRQ, d) else (BIT_STAT_BSY, d\<lparr>sim_busy := sim_busy d - 1\<rparr>)),
     inw = (\<lambda>p. sim_inw lag), outw = (\<lambda>p. sim_outw lag), await = (\<lambda>d. d\<lparr>sim_busy := 0\<rparr>)\<rparr>"

definition sim_view :: "sim view" where
  "sim_view = \<lparr>reg = sim_regs, ready_data = sim_data, pending = sim_pending, filled = sim_filled, polls = sim_busy, media = pad_media\<rparr>"

definition sim_channel :: "sim ide_channel" where
  "sim_channel = \<lparr>channel_name = ascii ''ide0'', port_base = 0x1f0, irq_no = 0x2e, expecting_intr = False, disk_done = 0,
     device = \<lparr>sim_regs = (\<lambda>_. 0), sim_data = [], sim_pending = None, sim_filled = [], sim_busy = 0, sim_media = (\<lambda>_ _. [])\<rparr>\<rparr>"

lemma pad_media_ok: "disk_ok (pad_media d dr)"
  by (auto simp: disk_ok_def pad_media_def min_def)

lemma pad_media_upd [simp]:
  "pad_media (d\<lparr>sim_regs := r\<rparr>) = pad_media d" "pad_media (d\<lparr>sim_data := x\<rparr>) = pad_media d"
  "pad_media (d\<lparr>sim_pending := q\<rparr>) = pad_media d" "pad_media (d\<lparr>sim_filled := bs\<rparr>) = pad_media d"
  "pad_media (d\<lparr>sim_busy := n\<rparr>) = pad_media d"
  by (simp_all add: pad_media_def)

lemma sim_view_simps [simp]:
  "reg sim_view = sim_regs" "ready_data sim_view = sim_data" "pending sim_view = sim_pending" "filled sim_view = sim_filled"
  "polls sim_view = sim_busy" "media sim_view = pad_media"
  by (simp_all add: sim_view_def)

lemma sim_ata_simps [simp]:
  "outb (sim_ata lag b) p v d = (if p = b + 7 then sim_command lag b v d else d\<lparr>sim_regs := (sim_regs d)(p := v)\<rparr>)"
  "inb (sim_ata lag b) p d = (if sim_busy d = 0 then (BIT_STAT_DRQ, d) else (BIT_STAT_BSY, d\<lparr>sim_busy := sim_busy d - 1\<rparr>))"
  "inw (sim_ata lag b) p d = sim_inw lag d" "outw (sim_ata lag b) p w d = sim_outw lag w d"
  "await (sim_ata lag b) d = d\<lparr>sim_busy := 0\<rparr>"
  by (simp_all add: sim_ata_def)

lemma sim_write:
  assumes "length bs = 512"
  shows "pad_media (d\<lparr>sim_media := (pad_media d)(dr := (pad_media d dr)(l := bs))\<rparr>) = (pad_media d)(dr := (pad_media d dr)(l := bs))"
  using assms by (intro ext) (auto simp: pad_media_def min_def)

lemma sim_takes_up: "takes_up (sim_ata lag b) sim_view b"
  unfolding takes_up_def Let_def by (auto simp: sim_outw_def sim_write Let_def)

lemma sim_ok:
  assumes "lag < 29000"
  shows "ata_ok (sim_ata lag b) sim_view b"
proof -
  have "keeps_regs (sim_ata lag b) sim_view b" by (auto simp: keeps_regs_def)
  moreover have "starts_read (sim_ata lag b) sim_view b" "starts_write (sim_ata lag b) sim_view b"
    using assms by (simp_all add: starts_read_def starts_write_def sim_command_def CMD_READ_SECTOR_def CMD_WRITE_SECTOR_def Let_def)
  moreover have "shows_status (sim_ata lag b) sim_view b"
    by (simp add: shows_status_def same_transfer_def BIT_STAT_DRQ_def BIT_STAT_BSY_def bit_numeral_rec)
  moreover have "interrupts (sim_ata lag b) sim_view" by (simp add: interrupts_def same_transfer_def)
  moreover have "hands_over (sim_ata lag b) sim_view b" by (auto simp: hands_over_def sim_inw_def)
  ultimately show ?thesis using sim_takes_up by (simp add: ata_ok_def pad_media_ok)
qed

lemma sim_prompt: "prompt_device (sim_ata 0 b) sim_view b"
  by (auto simp: prompt_device_def sim_inw_def sim_outw_def Let_def split: list.splits option.splits)

lemma sim_channel_idle: "idle_channel sim_view sim_channel" "port_base sim_channel = 0x1f0"
  by (simp_all add: sim_channel_def idle_channel_def)

theorem ide_transfers_witness:
  "(\<exists>c1 c2 c3.
    ide_read (sim_ata 0 0x1f0) 1 7 300 sim_channel = Inr (sectors (media sim_view (device sim_channel) True) 7 300, c1) \<and>
    ide_write (sim_ata 0 0x1f0) 1 7 (replicate (512 * 300) 5) 300 sim_channel = Inr c2 \<and>
    ide_read (sim_ata 0 0x1f0) 1 7 300 c2 = Inr (replicate (512 * 300) 5, c3)) \<and>
   (\<exists>c2 c3. ide_write (sim_ata 9 0x1f0) 1 7 (replicate 512 5) 1 sim_channel = Inr c2 \<and>
    ide_read (sim_ata 9 0x1f0) 1 7 1 c2 = Inr (replicate 512 5, c3))"
proof
  have ok: "ata_ok (sim_ata lag 0x1f0) sim_view (port_base sim_channel)" if "lag < 29000" for lag
    using sim_ok [OF that] by (simp only: sim_channel_idle)
  have pr: "prompt_device (sim_ata 0 0x1f0) sim_view (port_base sim_channel) \<or> (300 :: u32) = 1"
    by (simp only: sim_channel_idle sim_prompt simp_thms)
  have l: "length (replicate (512 * 300) (5 :: u8)) = 512 * unat (300 :: u32)" "length (replicate 512 (5 :: u8)) = 512 * unat (1 :: u32)"
    by (simp_all only: length_replicate) simp_all
  from ide_transfers [OF ok sim_channel_idle(1) _ _ l(1) pr, of 7 1]
  show "\<exists>c1 c2 c3.
    ide_read (sim_ata 0 0x1f0) 1 7 300 sim_channel = Inr (sectors (media sim_view (device sim_channel) True) 7 300, c1) \<and>
    ide_write (sim_ata 0 0x1f0) 1 7 (replicate (512 * 300) 5) 300 sim_channel = Inr c2 \<and>
    ide_read (sim_ata 0 0x1f0) 1 7 300 c2 = Inr (replicate (512 * 300) 5, c3)"
    by (simp del: replicate.simps sim_view_simps) blast
  from ide_transfers [OF ok sim_channel_idle(1) _ _ l(2), of 9 7 1]
  show "\<exists>c2 c3. ide_write (sim_ata 9 0x1f0) 1 7 (replicate 512 5) 1 sim_channel = Inr c2 \<and>
    ide_read (sim_ata 9 0x1f0) 1 7 1 c2 = Inr (replicate 512 5, c3)"
    by (simp del: replicate.simps sim_view_simps) blast
qed

section \<open>A device that pauses\<close>

lemma insw_add:
  "insw A p (m + n) d = (let (xs, d) = insw A p m d; (ys, d) = insw A p n d in (xs @ ys, d))"
  by (induction m arbitrary: d) (simp_all add: case_prod_beta Let_def)

lemma sim_insw_busy: "sim_busy d \<noteq> 0 \<Longrightarrow> insw (sim_ata lag b) p n d = (replicate (2 * n) 0xff, d)"
  by (induction n) (simp_all add: sim_inw_def)

lemma sim_outsw_busy: "sim_busy d \<noteq> 0 \<Longrightarrow> outsw (sim_ata lag b) p bs d = d"
  by (induction bs rule: induct_list012) (simp_all add: sim_outw_def)

lemma sim_insw_sector:
  assumes "r \<noteq> []" and "length r mod 512 = 0"
  shows "sim_busy d = 0 \<Longrightarrow> sim_data d = xs @ r \<Longrightarrow> length xs = 2 * n \<Longrightarrow> 0 < n \<Longrightarrow> n \<le> 256 \<Longrightarrow>
    insw (sim_ata lag b) p n d = (xs, d\<lparr>sim_data := r, sim_busy := lag\<rparr>)"
proof (induction n arbitrary: d xs)
  case (Suc n)
  obtain x y ys where xs: "xs = x # y # ys" "length ys = 2 * n"
    using Suc.prems(3) by (cases xs rule: remdups_adj.cases) auto
  have m: "length (ys @ r) mod 512 = (2 * n) mod 512" using assms(2) xs(2) by (metis length_append mod_add_right_eq add_0_right)
  show ?case
  proof (cases "n = 0")
    case True
    with xs Suc.prems assms show ?thesis by (simp add: sim_inw_def)
  next
    case False
    then have "(2 * n) mod 512 \<noteq> 0" using Suc.prems(5) by simp
    with m have "sim_inw lag d = ((x, y), d\<lparr>sim_data := ys @ r, sim_busy := 0\<rparr>)" using Suc.prems(1,2) xs(1) by (simp add: sim_inw_def)
    moreover have "insw (sim_ata lag b) p n (d\<lparr>sim_data := ys @ r, sim_busy := 0\<rparr>) = (ys, d\<lparr>sim_data := r, sim_busy := lag\<rparr>)"
      using Suc.IH [of "d\<lparr>sim_data := ys @ r, sim_busy := 0\<rparr>" ys] xs(2) False Suc.prems(5) by simp
    ultimately show ?thesis using xs(1) by simp
  qed
qed simp

lemma sim_outsw_pauses:
  "sim_busy d = 0 \<Longrightarrow> sim_pending d = Some t \<Longrightarrow> bs \<noteq> [] \<Longrightarrow> even (length bs) \<Longrightarrow> length (sim_filled d) + length bs = 512 \<Longrightarrow>
    sim_busy (outsw (sim_ata lag b) p bs d) = lag"
proof (induction bs arbitrary: d rule: induct_list012)
  case (3 x y bs)
  obtain dr l k where t: "t = (dr, l, k)" by (cases t)
  show ?case
  proof (cases "bs = []")
    case True
    with 3 t show ?thesis by (simp add: sim_outw_def Let_def)
  next
    case False
    then have "2 \<le> length bs" using 3(6) by (cases bs rule: remdups_adj.cases) auto
    then have "sim_outw lag (x, y) d = d\<lparr>sim_filled := sim_filled d @ [x, y]\<rparr>"
      using 3(3,4,7) t by (simp add: sim_outw_def Let_def)
    with 3(1) [of "d\<lparr>sim_filled := sim_filled d @ [x, y]\<rparr>"] 3(3,4,6,7) False show ?thesis by simp
  qed
qed auto

lemma next_op_all: "unat cnt \<le> 256 \<Longrightarrow> next_op 0 cnt = cnt"
  by (auto simp: next_op_def word_le_nat_alt intro: order_antisym)

text \<open>
  C20. The driver asks for the status once before it moves all sectors of a command, whereas an ATA drive is entitled to be busy
  before each of them. There is a device that keeps the protocol with which, for every pause \<open>lag\<close> between two sectors,
  \<^verbatim>\<open>ide_read\<close> of several sectors returns the first one and then what the data register happens to show, and \<^verbatim>\<open>ide_write\<close>
  stores only the first one; both end as if all had been well.
\<close>

theorem ide_skips_sectors:
  assumes lag: "0 < lag" "lag < 29000" and c: "idle_channel sim_view c" and cnt: "1 < unat cnt" "unat cnt \<le> 256"
    and lba: "unat lba + unat cnt \<le> 163840" and buf: "length buf = 512 * unat cnt"
  shows "let A = sim_ata lag (port_base c); M = media sim_view (device c)
    in ata_ok A sim_view (port_base c) \<and>
       (\<exists>c'. ide_read A n lba cnt c = Inr (M (n = 1) lba @ replicate (512 * (unat cnt - 1)) 0xff, c')) \<and>
       (\<exists>c'. ide_write A n lba buf cnt c = Inr c' \<and> media sim_view (device c') = M(n = 1 := (M (n = 1))(lba := take 512 buf)))"
proof -
  let ?A = "sim_ata lag (port_base c)" and ?M = "media sim_view (device c)"
  define d where "d = select_disk ?A n c"
  note ok = sim_ok [OF lag(2), of "port_base c"]
  have d: "idle_channel sim_view d" "port_base d = port_base c" "media sim_view (device d) = ?M"
    using select_disk_ok [OF ok c] by (simp_all only: d_def)
  have ok': "ata_ok ?A sim_view (port_base d)" using ok by (simp only: d(2))
  have pos: "0 < cnt" "\<not> cnt < cnt" "lba \<le> max_lba" using cnt(1) lba by (auto simp: word_less_nat_alt word_le_nat_alt unat_max_lba)
  have k: "1 \<le> unat cnt" using cnt(1) by simp
  define m where "m = unat cnt - 1"
  have m: "unat cnt = 1 + m" "0 < m" using cnt(1) by (simp_all add: m_def)
  have "\<exists>c'. ide_read ?A n lba cnt c = Inr (?M (n = 1) lba @ replicate (512 * m) 0xff, c')"
  proof -
    obtain c' where r: "\<And>bs e. insw ?A (port_base d) (256 * unat cnt) (device c') = (bs, e) \<Longrightarrow>
        read_some ?A n lba cnt d = Inr (bs, c'\<lparr>device := e\<rparr>)"
      and c': "polls sim_view (device c') = 0" "ready_data sim_view (device c') = sectors (media sim_view (device d) (n = 1)) lba (unat cnt)"
      by (rule read_some_start [OF ok' d(1) pos(3) k cnt(2), of n]) blast
    let ?r = "sectors (?M (n = 1)) (lba + 1) m"
    have len: "length (?M (n = 1) lba) = 512" "length ?r = 512 * m"
      using length_sectors [OF pad_media_ok, where n = m] pad_media_ok [of "device c" "n = 1"] by (simp_all add: disk_ok_def)
    then have ne: "?r \<noteq> []" using m(2) by auto
    have data: "sim_data (device c') = ?M (n = 1) lba @ ?r" using c'(2) unfolding d(3) m(1) by (simp add: sectors_Suc)
    let ?e = "(device c')\<lparr>sim_data := ?r, sim_busy := lag\<rparr>"
    have 1: "insw ?A (port_base d) 256 (device c') = (?M (n = 1) lba, ?e)"
      by (rule sim_insw_sector [OF ne _ _ data]) (use c'(1) len in simp_all)
    have 2: "insw ?A (port_base d) (256 * m) ?e = (replicate (2 * (256 * m)) 0xff, ?e)"
      by (rule sim_insw_busy) (use lag(1) in simp)
    have "256 * unat cnt = 256 + 256 * m" using m(1) by simp
    then have "insw ?A (port_base d) (256 * unat cnt) (device c') = (?M (n = 1) lba @ replicate (512 * m) 0xff, ?e)"
      using 1 2 by (simp only: insw_add Let_def case_prod_conv) simp
    from r [OF this] show ?thesis using pos next_op_all [OF cnt(2)]
      by (simp add: ide_read_def d_def [symmetric] ide_read_loop.simps word_neq_0_conv Let_def)
  qed
  moreover have "\<exists>c'. ide_write ?A n lba buf cnt c = Inr c' \<and> media sim_view (device c') = ?M(n = 1 := (?M (n = 1))(lba := take 512 buf))"
  proof -
    let ?bs = "take (512 * unat cnt) buf"
    obtain c' where w: "write_some ?A n lba buf cnt d = wait_done ?A (c'\<lparr>device := outsw ?A (port_base d) ?bs (device c')\<rparr>)"
      and c': "disk_done c' = 0" "irq_no c' \<in> {0x2e, 0x2f}" "expecting_intr c'" "port_base c' = port_base d"
        "polls sim_view (device c') = 0" "media sim_view (device c') = media sim_view (device d)"
        "filled sim_view (device c') = []" "pending sim_view (device c') = Some (n = 1, lba, unat cnt)"
      by (rule write_some_start [OF ok' d(1) pos(3) k cnt(2), of buf n]) (use buf in simp, blast)
    define e where "e = outsw ?A (port_base d) (take 512 buf) (device c')"
    have l512: "length (take 512 buf) = 512" using buf m(1) by simp
    then have ne: "take 512 buf \<noteq> []" by auto
    have e: "media sim_view e = ?M(n = 1 := (?M (n = 1))(lba := take 512 buf))"
      using outsw_sector [OF ok' c'(5,8) _ ne _ e_def] l512 c'(6,7) d(3) by simp
    have busy: "sim_busy e \<noteq> 0"
      using sim_outsw_pauses [of "device c'" "(n = 1, lba, unat cnt)" "take 512 buf" lag "port_base c" "port_base d"] c'(5,7,8) ne l512 lag(1)
      by (simp add: e_def)
    have "outsw ?A (port_base d) ?bs (device c') = outsw ?A (port_base d) (drop 512 buf) e"
      using outsw_append [of "take 512 buf" ?A "port_base d" "drop 512 buf" "device c'"] l512 buf by (simp add: e_def)
    also have "\<dots> = e" by (rule sim_outsw_busy [OF busy])
    finally have o: "outsw ?A (port_base d) ?bs (device c') = e" .
    obtain c2 where "wait_done ?A (c'\<lparr>device := e\<rparr>) = Inr c2" "media sim_view (device c2) = media sim_view e"
      using write_done [of ?A sim_view "c'\<lparr>device := e\<rparr>"] c' ok' by auto
    with w o e show ?thesis using pos next_op_all [OF cnt(2)]
      by (simp add: ide_write_def d_def [symmetric] ide_write_loop.simps word_neq_0_conv Let_def)
  qed
  ultimately show ?thesis using ok by (simp add: Let_def m_def del: sim_view_simps)
qed

lemma ide_skips_sectors_witness:
  "\<exists>c'. ide_read (sim_ata 9 0x1f0) 1 7 2 sim_channel = Inr (replicate 512 0 @ replicate 512 0xff, c')"
proof -
  have "media sim_view (device sim_channel) True 7 = replicate 512 0"
    by (simp add: sim_channel_def pad_media_def del: replicate.simps)
  with ide_skips_sectors [of 9 sim_channel 2 7 "replicate 1024 0" 1] sim_channel_idle show ?thesis
    by (simp add: Let_def del: sim_view_simps replicate.simps)
qed

end
