(* ===== verification/Inode.thy ===== *)
theory Inode
  imports Ide Allocator
begin

text \<open>
  The state of the file system and \<^verbatim>\<open>fs/inode.c\<close>, with the bitmaps of \<^verbatim>\<open>fs/file.c\<close> the inodes and
  blocks are allocated from.

  The state is the disk of the current partition (sectors of 512 bytes), the partition with its
  super block, its two bitmaps and the list of its open inodes, and the objects in kernel memory:
  inodes and directories at the addresses \<^verbatim>\<open>sys_malloc\<close> returned, the global file table, and the
  descriptor table and working directory of the running thread. The addresses that \<^verbatim>\<open>sys_malloc\<close>
  will return are \<open>heap\<close> (0 is NULL); the allocator itself is \<open>Malloc\<close>. It hands out zeroed
  memory, so a buffer is a local list of bytes. An access to an object that has been freed is
  \<open>Out_of_bounds\<close>. What \<^verbatim>\<open>printk\<close> prints is left out.

  \<open>disk_read\<close> and \<open>disk_write\<close> are what \<open>Ide\<close> shows of \<^verbatim>\<open>ide_read\<close> and \<^verbatim>\<open>ide_write\<close>.
\<close>

section \<open>The state\<close>

record super_block =
  magic :: u32
  sb_sec_cnt :: u32
  inode_cnt :: u32
  part_lba_base :: u32
  block_bitmap_lba :: u32
  block_bitmap_sects :: u32
  inode_bitmap_lba :: u32
  inode_bitmap_sects :: u32
  inode_table_lba :: u32
  inode_table_sects :: u32
  data_start_lba :: u32
  root_inode_no :: u32
  dir_entry_size :: u32

record fs_part = partition +
  sb :: super_block
  block_bitmap :: bitmap
  inode_bitmap :: bitmap
  open_inode :: "u32 list"

record inode =
  i_no :: u32
  i_size :: u32
  i_open_cnts :: u32
  write_deny :: bool
  i_sectors :: "u32 list"

record dir =
  dir_inode :: u32
  dir_pos :: u32

record open_file =
  fd_pos :: u32
  fd_flag :: u32
  fd_inode :: u32

record fs =
  disk_data :: "u32 \<Rightarrow> u8 list"
  cur_part :: fs_part
  heap :: "u32 list"
  inodes :: "u32 \<Rightarrow> inode option"
  dirs :: "u32 \<Rightarrow> dir option"
  root_dir :: u32
  file_table :: "open_file list"
  thread_fds :: "u32 list"
  thread_cwd :: u32

definition SECTOR_SIZE :: u32 where "SECTOR_SIZE = 512"
definition MAX_FILES_PER_PART :: u32 where "MAX_FILES_PER_PART = 4096"

definition disk_read :: "u32 \<Rightarrow> u32 \<Rightarrow> fs \<Rightarrow> u8 list res" where
  "disk_read lba cnt s =
     rbind (c_assert (lba \<le> max_lba)) (\<lambda>_. rbind (c_assert (cnt > 0)) (\<lambda>_. Inr (sectors (disk_data s) lba (unat cnt))))"

definition disk_write :: "u32 \<Rightarrow> u8 list \<Rightarrow> u32 \<Rightarrow> fs \<Rightarrow> fs res" where
  "disk_write lba buf cnt s =
     rbind (c_assert (lba \<le> max_lba)) (\<lambda>_. rbind (c_assert (cnt > 0)) (\<lambda>_.
     rbind (guard Out_of_bounds (512 * unat cnt \<le> length buf)) (\<lambda>_.
     Inr (s\<lparr>disk_data := write_sectors lba (unat cnt) (take (512 * unat cnt) buf) (disk_data s)\<rparr>))))"

definition fs_malloc :: "fs \<Rightarrow> u32 \<times> fs" where
  "fs_malloc s = (case heap s of [] \<Rightarrow> (0, s) | a # h \<Rightarrow> (a, s\<lparr>heap := h\<rparr>))"

definition get_inode :: "u32 \<Rightarrow> fs \<Rightarrow> inode res" where
  "get_inode p s = (case inodes s p of None \<Rightarrow> Inl Out_of_bounds | Some i \<Rightarrow> Inr i)"

definition set_inode :: "u32 \<Rightarrow> inode \<Rightarrow> fs \<Rightarrow> fs" where
  "set_inode p i s = s\<lparr>inodes := (inodes s)(p := Some i)\<rparr>"

abbreviation upd_part :: "(fs_part \<Rightarrow> fs_part) \<Rightarrow> fs \<Rightarrow> fs" where
  "upd_part f s \<equiv> s\<lparr>cur_part := f (cur_part s)\<rparr>"

abbreviation part_sb :: "fs \<Rightarrow> super_block" where "part_sb s \<equiv> sb (cur_part s)"

section \<open>Structures on the disk\<close>

definition encode_super_block :: "super_block \<Rightarrow> u8 list" where
  "encode_super_block b = words [magic b, sb_sec_cnt b, inode_cnt b, part_lba_base b, block_bitmap_lba b,
     block_bitmap_sects b, inode_bitmap_lba b, inode_bitmap_sects b, inode_table_lba b, inode_table_sects b,
     data_start_lba b, root_inode_no b, dir_entry_size b] @ replicate 460 0"

definition decode_super_block :: "u8 list \<Rightarrow> super_block" where
  "decode_super_block bs = (let w = of_words 13 bs in
     \<lparr>magic = w ! 0, sb_sec_cnt = w ! 1, inode_cnt = w ! 2, part_lba_base = w ! 3, block_bitmap_lba = w ! 4,
      block_bitmap_sects = w ! 5, inode_bitmap_lba = w ! 6, inode_bitmap_sects = w ! 7, inode_table_lba = w ! 8,
      inode_table_sects = w ! 9, data_start_lba = w ! 10, root_inode_no = w ! 11, dir_entry_size = w ! 12\<rparr>)"

text \<open>An inode on the disk has NULL list pointers at its end.\<close>

definition sizeof_inode :: u32 where "sizeof_inode = 76"

definition encode_inode :: "inode \<Rightarrow> u8 list" where
  "encode_inode i = words ([i_no i, i_size i, i_open_cnts i, of_bool (write_deny i)] @ i_sectors i) @ replicate 8 0"

definition decode_inode :: "u8 list \<Rightarrow> inode" where
  "decode_inode bs = (let w = of_words 17 bs in
     \<lparr>i_no = w ! 0, i_size = w ! 1, i_open_cnts = w ! 2, write_deny = (w ! 3 \<noteq> 0), i_sectors = drop 4 w\<rparr>)"

section \<open>Inodes\<close>

record inode_position =
  two_sec :: bool
  sec_lba :: u32
  off_size :: u32

definition inode_locate :: "u32 \<Rightarrow> fs \<Rightarrow> inode_position res" where
  "inode_locate inode_no s =
     rbind (c_assert (inode_no < 4096)) (\<lambda>_.
     let off_size = inode_no * sizeof_inode;
         off_sec = off_size div 512;
         off_size_in_sec = off_size mod 512;
         left_in_sector = 512 - off_size_in_sec
     in Inr \<lparr>two_sec = \<not> left_in_sector > sizeof_inode, sec_lba = inode_table_lba (part_sb s) + off_sec,
             off_size = off_size_in_sec\<rparr>)"

definition pos_sects :: "inode_position \<Rightarrow> u32" where
  "pos_sects pos = (if two_sec pos then 2 else 1)"

text \<open>Reading the one or two sectors of an inode, and writing 76 bytes of them.\<close>

definition patch_inode :: "inode_position \<Rightarrow> u8 list \<Rightarrow> fs \<Rightarrow> fs res" where
  "patch_inode pos bs s =
     rbind (disk_read (sec_lba pos) (pos_sects pos) s) (\<lambda>inode_buf.
     disk_write (sec_lba pos) (splice inode_buf (unat (off_size pos)) bs) (pos_sects pos) s)"

definition inode_sync :: "inode \<Rightarrow> fs \<Rightarrow> fs res" where
  "inode_sync i s =
     (let inode_no = ucast (i_no i) :: u8
      in rbind (inode_locate (ucast inode_no) s) (\<lambda>inode_pos.
         rbind (c_assert (sec_lba inode_pos \<le> start_lba (cur_part s) + sec_cnt (cur_part s))) (\<lambda>_.
         let pure_inode = i\<lparr>i_open_cnts := 0, write_deny := False\<rparr>
         in patch_inode inode_pos (encode_inode pure_inode) s)))"

fun find_open :: "u32 list \<Rightarrow> u32 \<Rightarrow> fs \<Rightarrow> u32 option res" where
  "find_open [] inode_no s = Inr None"
| "find_open (p # ps) inode_no s =
     rbind (get_inode p s) (\<lambda>i. if i_no i = inode_no then Inr (Some p) else find_open ps inode_no s)"

definition inode_open :: "u32 \<Rightarrow> fs \<Rightarrow> (u32 \<times> fs) res" where
  "inode_open inode_no s =
     rbind (find_open (open_inode (cur_part s)) inode_no s) (\<lambda>found.
     case found of
       Some p \<Rightarrow> rbind (get_inode p s) (\<lambda>i. Inr (p, set_inode p (i\<lparr>i_open_cnts := i_open_cnts i + 1\<rparr>) s))
     | None \<Rightarrow>
         rbind (inode_locate inode_no s) (\<lambda>inode_pos.
         let (inode_found, s) = fs_malloc s;
             (_, s) = fs_malloc s
         in rbind (disk_read (sec_lba inode_pos) (pos_sects inode_pos) s) (\<lambda>inode_buf.
            let i = decode_inode (piece_of inode_buf (unat (off_size inode_pos)) 76);
                s = upd_part (\<lambda>p. p\<lparr>open_inode := inode_found # open_inode p\<rparr>) s
            in Inr (inode_found, set_inode inode_found (i\<lparr>i_open_cnts := 1\<rparr>) s))))"

text \<open>The interrupts are off in between; the last close frees the inode.\<close>

definition inode_close :: "u32 \<Rightarrow> fs \<Rightarrow> fs res" where
  "inode_close p s =
     rbind (get_inode p s) (\<lambda>i.
     let i = i\<lparr>i_open_cnts := i_open_cnts i - 1\<rparr>; s = set_inode p i s
     in if i_open_cnts i = 0
        then Inr (upd_part (\<lambda>q. q\<lparr>open_inode := removeAll p (open_inode q)\<rparr>) s\<lparr>inodes := (inodes s)(p := None)\<rparr>)
        else Inr s)"

definition inode_init :: "u32 \<Rightarrow> inode" where
  "inode_init inode_no =
     \<lparr>i_no = inode_no, i_size = 0, i_open_cnts = 0, write_deny = False, i_sectors = replicate 13 0\<rparr>"

definition inode_delete :: "u32 \<Rightarrow> fs \<Rightarrow> fs res" where
  "inode_delete inode_no s =
     rbind (c_assert (inode_no < 4096)) (\<lambda>_.
     rbind (inode_locate inode_no s) (\<lambda>inode_pos.
     rbind (c_assert (sec_lba inode_pos \<le> start_lba (cur_part s) + sec_cnt (cur_part s))) (\<lambda>_.
     patch_inode inode_pos (replicate 76 0) s)))"

section \<open>The bitmaps\<close>

text \<open>\<open>None\<close> is the result \<open>-1\<close>.\<close>

definition inode_bitmap_alloc :: "fs \<Rightarrow> (u32 option \<times> fs) res" where
  "inode_bitmap_alloc s =
     rbind (bitmap_scan (inode_bitmap (cur_part s)) 1) (\<lambda>index.
     if index = - 1 then Inr (None, s)
     else rbind (bitmap_set (inode_bitmap (cur_part s)) (nat index) 1) (\<lambda>m.
          Inr (Some (of_int index), upd_part (\<lambda>p. p\<lparr>inode_bitmap := m\<rparr>) s)))"

definition block_bitmap_alloc :: "fs \<Rightarrow> (u32 option \<times> fs) res" where
  "block_bitmap_alloc s =
     rbind (bitmap_scan (block_bitmap (cur_part s)) 1) (\<lambda>index.
     if index = - 1 then Inr (None, s)
     else rbind (bitmap_set (block_bitmap (cur_part s)) (nat index) 1) (\<lambda>m.
          Inr (Some (data_start_lba (part_sb s) + of_int index), upd_part (\<lambda>p. p\<lparr>block_bitmap := m\<rparr>) s)))"

datatype bitmap_type = INODE_BITMAP | BLOCK_BITMAP

definition bitmap_sync :: "u32 \<Rightarrow> bitmap_type \<Rightarrow> fs \<Rightarrow> fs res" where
  "bitmap_sync bit_idx btmp s =
     (let off_sec = bit_idx div 4096;
          off_size = off_sec * 512;
          (sec, m) = (case btmp of
            INODE_BITMAP \<Rightarrow> (inode_bitmap_lba (part_sb s) + off_sec, inode_bitmap (cur_part s))
          | BLOCK_BITMAP \<Rightarrow> (block_bitmap_lba (part_sb s) + off_sec, block_bitmap (cur_part s)))
      in disk_write sec (drop (unat off_size) (bits m)) 1 s)"

text \<open>Clearing a bit of a bitmap, then \<^verbatim>\<open>bitmap_sync\<close>.\<close>

definition free_block_bit :: "u32 \<Rightarrow> fs \<Rightarrow> fs res" where
  "free_block_bit idx s =
     rbind (bitmap_set (block_bitmap (cur_part s)) (unat idx) 0) (\<lambda>m.
     bitmap_sync idx BLOCK_BITMAP (upd_part (\<lambda>p. p\<lparr>block_bitmap := m\<rparr>) s))"

definition free_inode_bit :: "u32 \<Rightarrow> fs \<Rightarrow> fs res" where
  "free_inode_bit idx s =
     rbind (bitmap_set (inode_bitmap (cur_part s)) (unat idx) 0) (\<lambda>m.
     bitmap_sync idx INODE_BITMAP (upd_part (\<lambda>p. p\<lparr>inode_bitmap := m\<rparr>) s))"

section \<open>Releasing an inode\<close>

text \<open>The blocks of an inode: twelve direct ones and, when there is an indirect table, its 128.\<close>

definition indirect_blocks :: "u32 \<Rightarrow> fs \<Rightarrow> u32 list res" where
  "indirect_blocks table s = rbind (disk_read table 1 s) (\<lambda>bs. Inr (of_words 128 bs))"

definition all_blocks :: "inode \<Rightarrow> fs \<Rightarrow> u32 list res" where
  "all_blocks i s =
     rbind (if i_sectors i ! 12 \<noteq> 0 then indirect_blocks (i_sectors i ! 12) s else Inr (replicate 128 0)) (\<lambda>ind.
     Inr (take 12 (i_sectors i) @ ind))"

fun release_blocks :: "u32 list \<Rightarrow> fs \<Rightarrow> fs res" where
  "release_blocks [] s = Inr s"
| "release_blocks (b # bs) s =
     rbind (if b \<noteq> 0
            then let block_bitmap_idx = b - data_start_lba (part_sb s)
                 in rbind (c_assert (block_bitmap_idx > 0)) (\<lambda>_. free_block_bit block_bitmap_idx s)
            else Inr s) (release_blocks bs)"

definition inode_release :: "u32 \<Rightarrow> fs \<Rightarrow> fs res" where
  "inode_release inode_no s =
     rbind (inode_open inode_no s) (\<lambda>(p, s).
     rbind (get_inode p s) (\<lambda>inode_to_del.
     rbind (c_assert (i_no inode_to_del = inode_no)) (\<lambda>_.
     rbind (all_blocks inode_to_del s) (\<lambda>blocks.
     let table = i_sectors inode_to_del ! 12; block_cnt = (if table \<noteq> 0 then 140 else 12)
     in rbind (if table \<noteq> 0 then free_block_bit (table - data_start_lba (part_sb s)) s else Inr s) (\<lambda>s.
        rbind (release_blocks (take block_cnt blocks) s) (\<lambda>s.
        rbind (free_inode_bit inode_no s) (\<lambda>s.
        let (_, s) = fs_malloc s
        in rbind (inode_delete inode_no s) (\<lambda>s. inode_close p s))))))))"

section \<open>Encoding\<close>

lemma decode_encode_super_block [simp]: "decode_super_block (encode_super_block b) = b"
  by (cases b) (simp add: decode_super_block_def encode_super_block_def Let_def del: of_words.simps)

lemma length_encode_super_block [simp]: "length (encode_super_block b) = 512"
  by (simp add: encode_super_block_def)

lemma decode_encode_inode [simp]: "length (i_sectors i) = 13 \<Longrightarrow> decode_inode (encode_inode i) = i"
  by (cases i) (simp add: decode_inode_def encode_inode_def Let_def del: of_words.simps)

lemma length_encode_inode [simp]: "length (i_sectors i) = 13 \<Longrightarrow> length (encode_inode i) = 76"
  by (simp add: encode_inode_def)

section \<open>The inode table\<close>

text \<open>
  The inode \<open>n\<close> of the table on the disk. The table has 608 sectors; its last inode ends with the last
  one, and is read and written with the sector behind it.
\<close>

definition stored_inode :: "u32 \<Rightarrow> fs \<Rightarrow> inode" where
  "stored_inode n s = decode_inode (piece_of (sectors (disk_data s) (inode_table_lba (part_sb s)) 609) (76 * unat n) 76)"

definition table_ok :: "fs \<Rightarrow> bool" where
  "table_ok s \<longleftrightarrow> disk_ok (disk_data s) \<and> unat (inode_table_lba (part_sb s)) + 608 \<le> unat max_lba
     \<and> unat (inode_table_lba (part_sb s)) + 608 \<le> unat (start_lba (cur_part s) + sec_cnt (cur_part s))"

lemma locate:
  assumes "n < 4096"
  obtains pos a where "inode_locate n s = Inr pos" and "sec_lba pos = inode_table_lba (part_sb s) + of_nat a"
    and "512 * a + unat (off_size pos) = 76 * unat n" and "unat (off_size pos) + 76 \<le> 512 * unat (pos_sects pos)"
    and "a + unat (pos_sects pos) \<le> 609" and "0 < pos_sects pos" and "a \<le> 608"
proof -
  have n: "unat n < 4096" using assms by (simp add: word_less_nat_alt)
  define x where "x = unat n * 76"
  have x: "unat (n * 76) = x" using n by (simp add: unat_word_ariths x_def)
  have d: "n * 76 div 512 = of_nat (x div 512)" and mo: "unat (n * 76 mod 512) = x mod 512"
    using x by (simp_all add: word_arith_nat_div unat_mod)
  have le: "x div 512 \<le> 607" using n by (simp add: x_def)
  have xe: "76 * unat n = x" by (simp add: x_def)
  have left: "76 < 512 - n * 76 mod 512 \<longleftrightarrow> 76 + x mod 512 < 512"
    using mo by (subst word_less_nat_alt, subst unat_sub) (auto simp: word_le_nat_alt)
  show ?thesis
    by (rule that [of "\<lparr>two_sec = \<not> 512 - n * 76 mod 512 > 76,
          sec_lba = inode_table_lba (part_sb s) + n * 76 div 512, off_size = n * 76 mod 512\<rparr>" "x div 512"])
       (use assms mo d le left in \<open>auto simp: inode_locate_def sizeof_inode_def Let_def pos_sects_def xe\<close>)
qed

lemma table_lba:
  assumes "table_ok s" and "k \<le> 608"
  shows "inode_table_lba (part_sb s) + of_nat k \<le> max_lba"
    and "inode_table_lba (part_sb s) + of_nat k \<le> start_lba (cur_part s) + sec_cnt (cur_part s)"
proof -
  have "unat max_lba < 2 ^ 32" using unsigned_less [of max_lba] by simp
  then have "unat (inode_table_lba (part_sb s)) + k < 2 ^ 32" using assms by (simp add: table_ok_def)
  moreover have "unat (of_nat k :: u32) = k" using assms(2) by (intro unat_word_of_nat32) simp
  ultimately have "unat (inode_table_lba (part_sb s) + of_nat k) = unat (inode_table_lba (part_sb s)) + k"
    by (simp add: unat_word_ariths)
  with assms show "inode_table_lba (part_sb s) + of_nat k \<le> max_lba"
    "inode_table_lba (part_sb s) + of_nat k \<le> start_lba (cur_part s) + sec_cnt (cur_part s)"
    by (simp_all add: word_le_nat_alt table_ok_def)
qed

lemma last_sector: "disk_ok m \<Longrightarrow> piece_of (sectors m l 609) (512 * 608) 512 = m (l + of_nat 608)"
  using sectors_add [of m l 608 1] by (simp add: piece_of_append2 length_sectors piece_of_all disk_ok_def)

text \<open>What writing the bytes of an inode does: the table changes in its 76 bytes, the rest of the disk not at all.\<close>

lemma patch_inode_table:
  assumes ok: "table_ok s" and n: "n < 4096" and bs: "length bs = 76"
  obtains pos m where "inode_locate n s = Inr pos" and "sec_lba pos \<le> start_lba (cur_part s) + sec_cnt (cur_part s)"
    and "patch_inode pos bs s = Inr (s\<lparr>disk_data := m\<rparr>)" and "disk_ok m"
    and "sectors m (inode_table_lba (part_sb s)) 609
      = splice (sectors (disk_data s) (inode_table_lba (part_sb s)) 609) (76 * unat n) bs"
    and "\<forall>l. (\<forall>i < 608. l \<noteq> inode_table_lba (part_sb s) + of_nat i) \<longrightarrow> m l = disk_data s l"
proof -
  let ?t = "inode_table_lba (part_sb s)"
  obtain pos a where pos: "inode_locate n s = Inr pos" and lba: "sec_lba pos = ?t + of_nat a"
    and off: "512 * a + unat (off_size pos) = 76 * unat n" and fit: "unat (off_size pos) + 76 \<le> 512 * unat (pos_sects pos)"
    and last: "a + unat (pos_sects pos) \<le> 609" and k: "0 < pos_sects pos" and a: "a \<le> 608"
    by (rule locate [OF n, of s])
  have dok: "disk_ok (disk_data s)" using ok by (simp add: table_ok_def)
  note le = table_lba [OF ok a, folded lba]
  let ?B = "sectors (disk_data s) (sec_lba pos) (unat (pos_sects pos))"
  let ?m = "write_sectors (sec_lba pos) (unat (pos_sects pos)) (splice ?B (unat (off_size pos)) bs) (disk_data s)"
  have len: "length ?B = 512 * unat (pos_sects pos)" by (rule length_sectors [OF dok])
  have lens: "length (splice ?B (unat (off_size pos)) bs) = 512 * unat (pos_sects pos)" using len fit bs by simp
  have 1: "patch_inode pos bs s = Inr (s\<lparr>disk_data := ?m\<rparr>)"
    using le k lens by (simp add: patch_inode_def disk_read_def disk_write_def)
  have 2: "disk_ok ?m" by (rule write_sectors_disk_ok [OF dok lens])
  from sectors_splice [OF dok last, of "unat (off_size pos)" bs ?t] fit bs lba off
  have 3: "sectors ?m ?t 609 = splice (sectors (disk_data s) ?t 609) (76 * unat n) bs" by simp
  have 4: "?m l = disk_data s l" if "\<forall>i < 609. l \<noteq> ?t + of_nat i" for l
  proof (rule write_sectors_other)
    show "unat (pos_sects pos) < 2 ^ 32" using unsigned_less [of "pos_sects pos"] by simp
    fix i assume "i < unat (pos_sects pos)"
    with last that [rule_format, of "a + i"] lba show "l \<noteq> sec_lba pos + of_nat i" by (simp add: add.assoc)
  qed
  have "76 * unat n + 76 \<le> 512 * 608" using n by (simp add: word_less_nat_alt)
  then have "piece_of (sectors ?m ?t 609) (512 * 608) 512 = piece_of (sectors (disk_data s) ?t 609) (512 * 608) 512"
    unfolding 3 using bs length_sectors [OF dok, of ?t 609] by (intro piece_of_splice_after) simp_all
  then have "?m (?t + of_nat 608) = disk_data s (?t + of_nat 608)" by (simp only: last_sector [OF 2] last_sector [OF dok])
  note last = this
  have "?m l = disk_data s l" if l: "\<forall>i < 608. l \<noteq> ?t + of_nat i" for l
  proof (cases "l = ?t + of_nat 608")
    case False
    have "l \<noteq> ?t + of_nat i" if "i < 609" for i
    proof (cases "i = 608")
      case False
      with that have "i < 608" by linarith
      with l show ?thesis by blast
    qed (simp only: False simp_thms)
    with 4 show ?thesis by blast
  qed (simp only: last)
  then show ?thesis using that [OF pos le(2) 1 2 3] by blast
qed

text \<open>The other inodes stay.\<close>

lemma stored_inode_splice:
  assumes "disk_ok (disk_data s)" and "length bs = 76" and "n < 4096" and "n' < 4096"
    and "sectors m (inode_table_lba (part_sb s)) 609
      = splice (sectors (disk_data s) (inode_table_lba (part_sb s)) 609) (76 * unat n) bs"
  shows "stored_inode n' (s\<lparr>disk_data := m\<rparr>) = (if n' = n then decode_inode bs else stored_inode n' s)"
proof -
  have le: "76 * unat k + 76 \<le> 512 * 609" if "k < 4096" for k :: u32
    using that by (simp add: word_less_nat_alt)
  let ?T = "sectors (disk_data s) (inode_table_lba (part_sb s)) 609"
  have T: "length ?T = 512 * 609" using assms(1) by (rule length_sectors)
  consider "n' = n" | "76 * unat n' + 76 \<le> 76 * unat n" | "76 * unat n + 76 \<le> 76 * unat n'"
    by (metis (no_types) add_mult_distrib2 linorder_neqE_nat mult.right_neutral mult_le_mono2 Suc_leI Suc_eq_plus1 unsigned_word_eqI)
  then show ?thesis
  proof cases
    case 1
    then show ?thesis using assms T le [of n] by (simp add: stored_inode_def)
  next
    case 2
    then have "n' \<noteq> n" by auto
    with 2 show ?thesis using assms T le [of n] by (simp add: stored_inode_def piece_of_splice_before)
  next
    case 3
    then have "n' \<noteq> n" by auto
    with 3 show ?thesis using assms T le [of n] by (simp add: stored_inode_def piece_of_splice_after)
  qed
qed

text \<open>What \<^verbatim>\<open>inode_open\<close> loads.\<close>

lemma inode_open_loads:
  assumes ok: "table_ok s" and n: "n < 4096" and "find_open (open_inode (cur_part s)) n s = Inr None"
    and "heap s = a # b # h"
  shows "inode_open n s = Inr (a, set_inode a ((stored_inode n s)\<lparr>i_open_cnts := 1\<rparr>)
      (upd_part (\<lambda>p. p\<lparr>open_inode := a # open_inode p\<rparr>) (s\<lparr>heap := h\<rparr>)))"
proof -
  obtain pos c where pos: "inode_locate n s = Inr pos" and lba: "sec_lba pos = inode_table_lba (part_sb s) + of_nat c"
    and off: "512 * c + unat (off_size pos) = 76 * unat n" and fit: "unat (off_size pos) + 76 \<le> 512 * unat (pos_sects pos)"
    and last: "c + unat (pos_sects pos) \<le> 609" and k: "0 < pos_sects pos" and c: "c \<le> 608"
    by (rule locate [OF n, of s])
  have "sec_lba pos \<le> max_lba" unfolding lba by (rule table_lba [OF ok c])
  moreover have "piece_of (sectors (disk_data s) (sec_lba pos) (unat (pos_sects pos))) (unat (off_size pos)) 76
      = piece_of (sectors (disk_data s) (inode_table_lba (part_sb s)) 609) (76 * unat n) 76"
    unfolding lba off [symmetric] by (rule piece_of_sectors [OF _ last fit]) (use ok in \<open>simp add: table_ok_def\<close>)
  ultimately show ?thesis using assms(3,4) pos k
    by (simp add: inode_open_def disk_read_def fs_malloc_def Let_def stored_inode_def)
qed

lemma find_open_disk [simp]: "find_open ps n (s\<lparr>disk_data := m\<rparr>) = find_open ps n s"
  by (induction ps) (simp_all add: get_inode_def cong: if_cong)

text \<open>\<^verbatim>\<open>inode_sync\<close> on the table.\<close>

lemma low_byte: "(ucast (ucast (n :: u32) :: u8) :: u32) = n AND 0xff"
proof -
  have "n AND mask 8 = ucast (ucast n :: u8)" by (rule bit_word_eqI) (auto simp: word_bit_simps bit_simps)
  then show ?thesis by (simp add: mask_eq_exp_minus_1)
qed

lemma inode_sync_table:
  assumes ok: "table_ok s" and i: "length (i_sectors i) = 13"
  shows "\<exists>m. inode_sync i s = Inr (s\<lparr>disk_data := m\<rparr>) \<and> table_ok (s\<lparr>disk_data := m\<rparr>)
    \<and> (\<forall>n < 4096. stored_inode n (s\<lparr>disk_data := m\<rparr>) =
          (if n = i_no i AND 0xff then i\<lparr>i_open_cnts := 0, write_deny := False\<rparr> else stored_inode n s))
    \<and> (\<forall>l. (\<forall>k < 608. l \<noteq> inode_table_lba (part_sb s) + of_nat k) \<longrightarrow> m l = disk_data s l)"
proof -
  define n where "n = i_no i AND 0xff"
  have "n \<le> 0xff" unfolding n_def by (rule word_and_le1)
  then have n: "n < 4096" by (rule le_less_trans) simp
  let ?t = "inode_table_lba (part_sb s)" and ?i = "i\<lparr>i_open_cnts := 0, write_deny := False\<rparr>"
  have len: "length (encode_inode ?i) = 76" using i by simp
  obtain pos m where pos: "inode_locate n s = Inr pos" "sec_lba pos \<le> start_lba (cur_part s) + sec_cnt (cur_part s)"
    and p: "patch_inode pos (encode_inode ?i) s = Inr (s\<lparr>disk_data := m\<rparr>)" and dok: "disk_ok m"
    and T: "sectors m ?t 609 = splice (sectors (disk_data s) ?t 609) (76 * unat n) (encode_inode ?i)"
    and other: "\<forall>l. (\<forall>k < 608. l \<noteq> ?t + of_nat k) \<longrightarrow> m l = disk_data s l"
    by (rule patch_inode_table [OF ok n len])
  have "inode_sync i s = Inr (s\<lparr>disk_data := m\<rparr>)" using pos p by (simp add: inode_sync_def low_byte n_def)
  moreover have "table_ok (s\<lparr>disk_data := m\<rparr>)" using ok dok by (simp add: table_ok_def)
  moreover have "stored_inode n1 (s\<lparr>disk_data := m\<rparr>) = (if n1 = n then ?i else stored_inode n1 s)" if "n1 < 4096" for n1
    using stored_inode_splice [OF _ len n that T] ok i by (simp add: table_ok_def)
  ultimately show ?thesis using other unfolding n_def by blast
qed

text \<open>
  C18. \<^verbatim>\<open>inode_sync\<close> writes the inode, with its open count and its write flag cleared, into exactly one
  entry of the inode table: the one of the low eight bits of its number. All other inodes and all
  sectors outside the table stay. When the number is below 256 and the inode is not open,
  \<^verbatim>\<open>inode_open\<close> then loads the same inode; a larger number overwrites a different inode.
\<close>

theorem inode_sync_stores:
  assumes ok: "table_ok s" and i: "length (i_sectors i) = 13"
  shows "\<exists>m. inode_sync i s = Inr (s\<lparr>disk_data := m\<rparr>) \<and> table_ok (s\<lparr>disk_data := m\<rparr>)
    \<and> (\<forall>n < 4096. stored_inode n (s\<lparr>disk_data := m\<rparr>) =
          (if n = i_no i AND 0xff then i\<lparr>i_open_cnts := 0, write_deny := False\<rparr> else stored_inode n s))
    \<and> (\<forall>l. (\<forall>k < 608. l \<noteq> inode_table_lba (part_sb s) + of_nat k) \<longrightarrow> m l = disk_data s l)
    \<and> (\<forall>a b h. heap s = a # b # h \<and> i_no i < 256 \<and> find_open (open_inode (cur_part s)) (i_no i) s = Inr None \<longrightarrow>
          (\<exists>s'. inode_open (i_no i) (s\<lparr>disk_data := m\<rparr>) = Inr (a, s') \<and>
             get_inode a s' = Inr (i\<lparr>i_open_cnts := 1, write_deny := False\<rparr>)))"
proof -
  obtain m where sync: "inode_sync i s = Inr (s\<lparr>disk_data := m\<rparr>)" "table_ok (s\<lparr>disk_data := m\<rparr>)"
    and st: "\<forall>n < 4096. stored_inode n (s\<lparr>disk_data := m\<rparr>) =
          (if n = i_no i AND 0xff then i\<lparr>i_open_cnts := 0, write_deny := False\<rparr> else stored_inode n s)"
    and other: "\<forall>l. (\<forall>k < 608. l \<noteq> inode_table_lba (part_sb s) + of_nat k) \<longrightarrow> m l = disk_data s l"
    using inode_sync_table [OF ok i] by blast
  have "\<exists>s'. inode_open (i_no i) (s\<lparr>disk_data := m\<rparr>) = Inr (a, s') \<and>
      get_inode a s' = Inr (i\<lparr>i_open_cnts := 1, write_deny := False\<rparr>)"
    if h: "heap s = a # b # h" "i_no i < 256" "find_open (open_inode (cur_part s)) (i_no i) s = Inr None" for a b h
  proof -
    have "unat (i_no i) < 256" using h(2) by (simp add: word_less_nat_alt)
    then have "unat (ucast (ucast (i_no i) :: u8) :: u32) = unat (i_no i)"
      by (simp add: unsigned_ucast_eq unsigned_take_bit_eq take_bit_nat_eq_self_iff)
    then have "i_no i = i_no i AND 0xff" unfolding low_byte by (simp add: word_unat_eq_iff)
    moreover have n: "i_no i < 4096" by (rule less_trans [OF h(2)]) simp
    ultimately show ?thesis using inode_open_loads [OF sync(2) n, of a b h] h st by (simp add: get_inode_def set_inode_def)
  qed
  with sync st other show ?thesis by blast
qed

lemma inode_sync_stores_witness:
  "\<exists>s m. inode_sync (inode_init 300) s = Inr (s\<lparr>disk_data := m\<rparr>) \<and> stored_inode 44 (s\<lparr>disk_data := m\<rparr>) = inode_init 300"
proof -
  define s :: fs where "s = \<lparr>disk_data = \<lambda>_. replicate 512 0, cur_part = \<lparr>start_lba = 0, sec_cnt = 2000, my_disk = (0, 1), part_name = [],
      sb = (decode_super_block [])\<lparr>inode_table_lba := 4\<rparr>, block_bitmap = \<lparr>btmp_bytes_len = 0, bits = []\<rparr>,
      inode_bitmap = \<lparr>btmp_bytes_len = 0, bits = []\<rparr>, open_inode = []\<rparr>,
      heap = [], inodes = Map.empty, dirs = Map.empty, root_dir = 0, file_table = [], thread_fds = [], thread_cwd = 0\<rparr>"
  have "table_ok s" by (simp add: s_def table_ok_def disk_ok_def max_lba_def)
  from inode_sync_stores [OF this, of "inode_init 300"] obtain m where
      1: "inode_sync (inode_init 300) s = Inr (s\<lparr>disk_data := m\<rparr>)" and
      2: "\<forall>n < 4096. stored_inode n (s\<lparr>disk_data := m\<rparr>) = (if n = i_no (inode_init 300) AND 0xff
            then (inode_init 300)\<lparr>i_open_cnts := 0, write_deny := False\<rparr> else stored_inode n s)"
    by (auto simp: inode_init_def)
  have "stored_inode 44 (s\<lparr>disk_data := m\<rparr>) = inode_init 300"
    using 2 [rule_format, of 44] by (simp add: inode_init_def)
  with 1 show ?thesis by blast
qed

end
