(* ===== verification/Dir.thy ===== *)
theory Dir
  imports Inode
begin

text \<open>
  \<^verbatim>\<open>fs/dir.c\<close>: directories. A directory's blocks hold entries of 24 bytes (a name of at most 16
  bytes, an inode number and a type, 0 for a free entry), 21 to a sector. A name on the disk that
  fills its 16 bytes has no terminator; comparing it reads on into the inode number, as in the
  code. An entry that is handed out is its 24 bytes, decoded.
\<close>

section \<open>Entries\<close>

definition MAX_FILE_NAME_LEN :: nat where "MAX_FILE_NAME_LEN = 16"

definition FT_UNKNOWN :: u32 where "FT_UNKNOWN = 0"
definition FT_REGULAR :: u32 where "FT_REGULAR = 1"
definition FT_DIRECTORY :: u32 where "FT_DIRECTORY = 2"

record dir_entry =
  filename :: str
  e_i_no :: u32
  f_type :: u32

definition encode_dir_entry :: "dir_entry \<Rightarrow> u8 list" where
  "encode_dir_entry e = filename e @ le32 (e_i_no e) @ le32 (f_type e)"

definition decode_dir_entry :: "u8 list \<Rightarrow> dir_entry" where
  "decode_dir_entry bs = \<lparr>filename = take 16 bs, e_i_no = get32 bs 16, f_type = get32 bs 20\<rparr>"

text \<open>Entry \<open>k\<close> of a buffer: \<^verbatim>\<open>dir_e + k\<close>.\<close>

definition entry_at :: "u8 list \<Rightarrow> nat \<Rightarrow> dir_entry res" where
  "entry_at buf k = rbind (guard Out_of_bounds (24 * k + 24 \<le> length buf)) (\<lambda>_.
     Inr (decode_dir_entry (piece_of buf (24 * k) 24)))"

text \<open>\<open>strcmp(p, name) == 0\<close> for the bytes from \<open>p\<close> on and a string without its terminator.\<close>

fun str_eq :: "u8 list \<Rightarrow> str \<Rightarrow> bool res" where
  "str_eq [] name = Inl Out_of_bounds"
| "str_eq (c # cs) [] = Inr (c = 0)"
| "str_eq (c # cs) (d # ds) = (if c = d then str_eq cs ds else Inr False)"

text \<open>The number of entries in a sector; dividing by 0 is an exception, which never returns.\<close>

definition entries_per_sec :: "fs \<Rightarrow> nat res" where
  "entries_per_sec s = rbind (guard Hang (dir_entry_size (part_sb s) \<noteq> 0)) (\<lambda>_.
     Inr (unat (SECTOR_SIZE div dir_entry_size (part_sb s))))"

definition create_dir_entry :: "str \<Rightarrow> u32 \<Rightarrow> u8 \<Rightarrow> dir_entry res" where
  "create_dir_entry name inode_no file_type =
     rbind (c_assert (length name \<le> MAX_FILE_NAME_LEN)) (\<lambda>_.
     Inr \<lparr>filename = name @ replicate (16 - length name) 0, e_i_no = inode_no, f_type = ucast file_type\<rparr>)"

text \<open>The bytes \<^verbatim>\<open>memcpy(.., p_de, dir_entry_size)\<close> copies.\<close>

definition entry_bytes :: "dir_entry \<Rightarrow> fs \<Rightarrow> u8 list res" where
  "entry_bytes e s = rbind (guard Out_of_bounds (unat (dir_entry_size (part_sb s)) \<le> 24)) (\<lambda>_.
     Inr (take (unat (dir_entry_size (part_sb s))) (encode_dir_entry e)))"

section \<open>Opening and closing\<close>

definition get_dir :: "u32 \<Rightarrow> fs \<Rightarrow> dir res" where
  "get_dir p s = (case dirs s p of None \<Rightarrow> Inl Out_of_bounds | Some d \<Rightarrow> Inr d)"

definition set_dir :: "u32 \<Rightarrow> dir \<Rightarrow> fs \<Rightarrow> fs" where
  "set_dir p d s = s\<lparr>dirs := (dirs s)(p := Some d)\<rparr>"

definition open_root_dir :: "fs \<Rightarrow> fs res" where
  "open_root_dir s =
     rbind (inode_open (root_inode_no (part_sb s)) s) (\<lambda>(i, s).
     Inr (set_dir (root_dir s) \<lparr>dir_inode = i, dir_pos = 0\<rparr> s))"

definition dir_open :: "u32 \<Rightarrow> fs \<Rightarrow> (u32 \<times> fs) res" where
  "dir_open inode_no s =
     (let (pdir, s) = fs_malloc s
      in rbind (inode_open inode_no s) (\<lambda>(i, s).
         Inr (pdir, set_dir pdir \<lparr>dir_inode = i, dir_pos = 0\<rparr> s)))"

definition dir_close :: "u32 \<Rightarrow> fs \<Rightarrow> fs res" where
  "dir_close p s =
     (if p = root_dir s then Inr s
      else rbind (get_dir p s) (\<lambda>d. rbind (inode_close (dir_inode d) s) (\<lambda>s.
           Inr (s\<lparr>dirs := (dirs s)(p := None)\<rparr>))))"

section \<open>Searching\<close>

fun find_entry :: "u8 list \<Rightarrow> str \<Rightarrow> nat list \<Rightarrow> dir_entry option res" where
  "find_entry buf name [] = Inr None"
| "find_entry buf name (k # ks) =
     rbind (entry_at buf k) (\<lambda>p_de. rbind (str_eq (drop (24 * k) buf) name) (\<lambda>equal.
     if equal then Inr (Some p_de) else find_entry buf name ks))"

fun search_blocks :: "str \<Rightarrow> nat \<Rightarrow> u32 list \<Rightarrow> fs \<Rightarrow> dir_entry option res" where
  "search_blocks name cnt [] s = Inr None"
| "search_blocks name cnt (b # bs) s =
     (if b = 0 then search_blocks name cnt bs s
      else rbind (disk_read b 1 s) (\<lambda>buf. rbind (find_entry buf name [0..<cnt]) (\<lambda>r.
           case r of Some e \<Rightarrow> Inr (Some e) | None \<Rightarrow> search_blocks name cnt bs s)))"

definition search_dir_entry :: "u32 \<Rightarrow> str \<Rightarrow> fs \<Rightarrow> (dir_entry option \<times> fs) res" where
  "search_dir_entry pdir name s =
     (let (a, s) = fs_malloc s
      in if a = 0 then Inr (None, s)
         else rbind (get_dir pdir s) (\<lambda>d. rbind (get_inode (dir_inode d) s) (\<lambda>i.
              rbind (all_blocks i s) (\<lambda>blocks.
              let (_, s) = fs_malloc s
              in rbind (entries_per_sec s) (\<lambda>cnt. rbind (search_blocks name cnt blocks s) (\<lambda>r. Inr (r, s)))))))"

section \<open>Adding an entry\<close>

text \<open>After \<^verbatim>\<open>block_bitmap_alloc\<close>: the bitmap's sector goes to the disk.\<close>

definition sync_block_bit :: "u32 \<Rightarrow> fs \<Rightarrow> fs res" where
  "sync_block_bit block_lba s =
     (let block_bitmap_idx = block_lba - data_start_lba (part_sb s)
      in rbind (c_assert (block_bitmap_idx \<noteq> - 1)) (\<lambda>_. bitmap_sync block_bitmap_idx BLOCK_BITMAP s))"

definition set_sector :: "u32 \<Rightarrow> nat \<Rightarrow> u32 \<Rightarrow> fs \<Rightarrow> fs res" where
  "set_sector p idx lba s =
     rbind (get_inode p s) (\<lambda>i. Inr (set_inode p (i\<lparr>i_sectors := (i_sectors i)[idx := lba]\<rparr>) s))"

definition grow_inode :: "u32 \<Rightarrow> u32 \<Rightarrow> fs \<Rightarrow> fs res" where
  "grow_inode p n s = rbind (get_inode p s) (\<lambda>i. Inr (set_inode p (i\<lparr>i_size := i_size i + n\<rparr>) s))"

text \<open>The branch of \<^verbatim>\<open>sync_dir_entry\<close> for an index without a block: the updated array of blocks.\<close>

definition new_dir_block :: "u32 \<Rightarrow> u32 list \<Rightarrow> nat \<Rightarrow> fs \<Rightarrow> (u32 list option \<times> fs) res" where
  "new_dir_block p blocks block_idx s =
     rbind (block_bitmap_alloc s) (\<lambda>(r, s).
     case r of None \<Rightarrow> Inr (None, s)
     | Some block_lba \<Rightarrow>
       rbind (sync_block_bit block_lba s) (\<lambda>s.
       if block_idx < 12
       then rbind (set_sector p block_idx block_lba s) (\<lambda>s. Inr (Some (blocks[block_idx := block_lba]), s))
       else if block_idx = 12
       then rbind (set_sector p 12 block_lba s) (\<lambda>s.
            rbind (block_bitmap_alloc s) (\<lambda>(r, s).
            case r of
              None \<Rightarrow>
                rbind (bitmap_set (block_bitmap (cur_part s)) (unat (block_lba - data_start_lba (part_sb s))) 0) (\<lambda>m.
                rbind (set_sector p 12 0 (upd_part (\<lambda>q. q\<lparr>block_bitmap := m\<rparr>) s)) (\<lambda>s. Inr (None, s)))
            | Some lba \<Rightarrow>
                rbind (sync_block_bit lba s) (\<lambda>s.
                let blocks = blocks[block_idx := lba]
                in rbind (disk_write block_lba (words (drop 12 blocks)) 1 s) (\<lambda>s. Inr (Some blocks, s)))))
       else rbind (get_inode p s) (\<lambda>i.
            let blocks = blocks[block_idx := block_lba]
            in rbind (disk_write (i_sectors i ! 12) (words (drop 12 blocks)) 1 s) (\<lambda>s. Inr (Some blocks, s)))))"

fun free_entry :: "u8 list \<Rightarrow> nat list \<Rightarrow> nat option res" where
  "free_entry buf [] = Inr None"
| "free_entry buf (k # ks) =
     rbind (entry_at buf k) (\<lambda>e. if f_type e = FT_UNKNOWN then Inr (Some k) else free_entry buf ks)"

text \<open>The loop over the block indices; \<open>blocks\<close> is \<^verbatim>\<open>all_blocks\<close>, \<open>p\<close> the directory's inode.\<close>

fun sync_blocks :: "dir_entry \<Rightarrow> u32 \<Rightarrow> nat \<Rightarrow> u32 list \<Rightarrow> nat list \<Rightarrow> fs \<Rightarrow> (bool \<times> fs) res" where
  "sync_blocks p_de p cnt blocks [] s = Inr (False, s)"
| "sync_blocks p_de p cnt blocks (block_idx # is) s =
     rbind (entry_bytes p_de s) (\<lambda>bytes.
     if blocks ! block_idx = 0
     then rbind (new_dir_block p blocks block_idx s) (\<lambda>(r, s).
          case r of None \<Rightarrow> Inr (False, s)
          | Some blocks \<Rightarrow>
              rbind (disk_write (blocks ! block_idx) (splice (replicate 512 0) 0 bytes) 1 s) (\<lambda>s.
              rbind (grow_inode p (dir_entry_size (part_sb s)) s) (\<lambda>s. Inr (True, s))))
     else rbind (disk_read (blocks ! block_idx) 1 s) (\<lambda>io_buf.
          rbind (free_entry io_buf [0..<cnt]) (\<lambda>r.
          case r of None \<Rightarrow> sync_blocks p_de p cnt blocks is s
          | Some k \<Rightarrow>
              rbind (disk_write (blocks ! block_idx) (splice io_buf (24 * k) bytes) 1 s) (\<lambda>s.
              rbind (grow_inode p (dir_entry_size (part_sb s)) s) (\<lambda>s. Inr (True, s))))))"

definition sync_dir_entry :: "u32 \<Rightarrow> dir_entry \<Rightarrow> fs \<Rightarrow> (bool \<times> fs) res" where
  "sync_dir_entry parent_dir p_de s =
     rbind (get_dir parent_dir s) (\<lambda>d. rbind (get_inode (dir_inode d) s) (\<lambda>i.
     rbind (entries_per_sec s) (\<lambda>cnt.
     rbind (c_assert (i_size i mod dir_entry_size (part_sb s) = 0)) (\<lambda>_.
     sync_blocks p_de (dir_inode d) cnt (take 12 (i_sectors i) @ replicate 128 0) [0..<140] s))))"

section \<open>Deleting an entry\<close>

record entry_scan =
  is_dir_first_block :: bool
  dir_entry_cnt :: nat
  dir_entry_found :: "nat option"

fun scan_block :: "u8 list \<Rightarrow> u32 \<Rightarrow> nat list \<Rightarrow> entry_scan \<Rightarrow> entry_scan res" where
  "scan_block buf inode_no [] a = Inr a"
| "scan_block buf inode_no (k # ks) a =
     rbind (entry_at buf k) (\<lambda>e.
     rbind (if f_type e = FT_UNKNOWN then Inr a
            else rbind (str_eq (drop (24 * k) buf) (ascii ''.'')) (\<lambda>dot.
                 if dot then Inr (a\<lparr>is_dir_first_block := True\<rparr>)
                 else rbind (str_eq (drop (24 * k) buf) (ascii ''..'')) (\<lambda>dotdot.
                      if dotdot then Inr a
                      else let a = a\<lparr>dir_entry_cnt := dir_entry_cnt a + 1\<rparr>
                           in if e_i_no e = inode_no
                              then rbind (c_assert (dir_entry_found a = None)) (\<lambda>_. Inr (a\<lparr>dir_entry_found := Some k\<rparr>))
                              else Inr a)))
           (scan_block buf inode_no ks))"

text \<open>
  The branch for the last entry of an indirect block counts the used blocks in a loop that never
  increments its index.
\<close>

fun delete_blocks :: "u32 \<Rightarrow> u32 \<Rightarrow> nat \<Rightarrow> u32 list \<Rightarrow> nat list \<Rightarrow> fs \<Rightarrow> (bool \<times> fs) res" where
  "delete_blocks inode_no p cnt blocks [] s = Inr (False, s)"
| "delete_blocks inode_no p cnt blocks (block_idx # is) s =
     (let b = blocks ! block_idx; sz = dir_entry_size (part_sb s) in
      if b = 0 then delete_blocks inode_no p cnt blocks is s
      else rbind (disk_read b 1 s) (\<lambda>io_buf.
           rbind (scan_block io_buf inode_no [0..<cnt] \<lparr>is_dir_first_block = False, dir_entry_cnt = 0, dir_entry_found = None\<rparr>) (\<lambda>a.
           case dir_entry_found a of None \<Rightarrow> delete_blocks inode_no p cnt blocks is s
           | Some k \<Rightarrow>
               rbind (c_assert (dir_entry_cnt a \<ge> 1)) (\<lambda>_.
               rbind (if dir_entry_cnt a = 1 \<and> \<not> is_dir_first_block a
                      then rbind (free_block_bit (b - data_start_lba (part_sb s)) s) (\<lambda>s.
                           if block_idx < 12 then Inr s else Inl Hang)
                      else disk_write b (splice io_buf (24 * k) (replicate (unat sz) 0)) 1 s) (\<lambda>s.
               rbind (get_inode p s) (\<lambda>i.
               rbind (c_assert (i_size i \<ge> sz)) (\<lambda>_.
               let i = i\<lparr>i_size := i_size i - sz\<rparr>
               in rbind (inode_sync i (set_inode p i s)) (\<lambda>s. Inr (True, s)))))))))"

definition delete_dir_entry :: "u32 \<Rightarrow> u32 \<Rightarrow> fs \<Rightarrow> (bool \<times> fs) res" where
  "delete_dir_entry pdir inode_no s =
     rbind (get_dir pdir s) (\<lambda>d. rbind (get_inode (dir_inode d) s) (\<lambda>i.
     rbind (all_blocks i s) (\<lambda>blocks. rbind (entries_per_sec s) (\<lambda>cnt.
     delete_blocks inode_no (dir_inode d) cnt blocks [0..<140] s))))"

section \<open>Reading a directory\<close>

fun next_entry :: "u8 list \<Rightarrow> nat list \<Rightarrow> u32 \<Rightarrow> u32 \<Rightarrow> u32 \<Rightarrow> (dir_entry option \<times> u32) res" where
  "next_entry buf [] cur pos sz = Inr (None, cur)"
| "next_entry buf (k # ks) cur pos sz =
     rbind (entry_at buf k) (\<lambda>e.
     if f_type e \<noteq> 0
     then if cur < pos then next_entry buf ks (cur + sz) pos sz
          else rbind (c_assert (cur = pos)) (\<lambda>_. Inr (Some e, cur))
     else next_entry buf ks cur pos sz)"

text \<open>The index runs past the array when the blocks hold too few entries.\<close>

fun read_blocks :: "u32 list \<Rightarrow> nat \<Rightarrow> u32 \<Rightarrow> u32 \<Rightarrow> u32 \<Rightarrow> fs \<Rightarrow> dir_entry res" where
  "read_blocks [] cnt cur pos sz s = Inl Out_of_bounds"
| "read_blocks (b # bs) cnt cur pos sz s =
     (if b = 0 then read_blocks bs cnt cur pos sz s
      else rbind (disk_read b 1 s) (\<lambda>buf. rbind (next_entry buf [0..<cnt] cur pos sz) (\<lambda>(r, cur).
           case r of Some e \<Rightarrow> Inr e | None \<Rightarrow> read_blocks bs cnt cur pos sz s)))"

definition dir_read :: "u32 \<Rightarrow> fs \<Rightarrow> (dir_entry option \<times> fs) res" where
  "dir_read p s =
     rbind (get_dir p s) (\<lambda>d. rbind (get_inode (dir_inode d) s) (\<lambda>i.
     rbind (all_blocks i s) (\<lambda>blocks. rbind (entries_per_sec s) (\<lambda>cnt.
     let sz = dir_entry_size (part_sb s)
     in if dir_pos d < i_size i
        then rbind (read_blocks blocks cnt 0 (dir_pos d) sz s) (\<lambda>e.
             Inr (Some e, set_dir p (d\<lparr>dir_pos := dir_pos d + sz\<rparr>) s))
        else Inr (None, s)))))"

section \<open>Removing a directory\<close>

definition dir_is_empty :: "u32 \<Rightarrow> fs \<Rightarrow> bool res" where
  "dir_is_empty p s =
     rbind (get_dir p s) (\<lambda>d. rbind (get_inode (dir_inode d) s) (\<lambda>i.
     Inr (i_size i = 2 * dir_entry_size (part_sb s))))"

definition dir_remove :: "u32 \<Rightarrow> u32 \<Rightarrow> fs \<Rightarrow> (bool \<times> fs) res" where
  "dir_remove parent_dir child_dir s =
     rbind (get_dir child_dir s) (\<lambda>d. rbind (get_inode (dir_inode d) s) (\<lambda>child_dir_inode.
     rbind (c_assert (\<forall>b \<in> set (drop 1 (i_sectors child_dir_inode)). b = 0)) (\<lambda>_.
     let (io_buf, s) = fs_malloc s
     in if io_buf = 0 then Inr (False, s)
        else rbind (delete_dir_entry parent_dir (i_no child_dir_inode) s) (\<lambda>(_, s).
             rbind (inode_release (i_no child_dir_inode) s) (\<lambda>s. Inr (True, s))))))"

end
