(* ===== verification/File.thy ===== *)
theory File
  imports Dir
begin

text \<open>
  \<^verbatim>\<open>fs/file.c\<close>: creating, opening, closing, writing and reading files. A result \<open>-1\<close> is the word
  of all ones. Files are written by appending: \<^verbatim>\<open>file_write\<close> first makes sure that all blocks
  exist and collects their addresses in \<^verbatim>\<open>all_blocks\<close> (140 words of zeroed memory), then writes
  sector by sector. The calls of \<^verbatim>\<open>sys_free\<close> on buffers have no counterpart.
\<close>

section \<open>Descriptors\<close>

text \<open>\<^verbatim>\<open>MAX_FILE_OPEN\<close> is the length of \<open>file_table\<close>, \<^verbatim>\<open>MAX_FILES_OPEN_PER_PROC\<close> that of \<open>thread_fds\<close>.\<close>

definition first_from :: "nat \<Rightarrow> ('a \<Rightarrow> bool) \<Rightarrow> 'a list \<Rightarrow> nat option" where
  "first_from n P xs = find (\<lambda>i. P (xs ! i)) [n..<length xs]"

definition get_free_slot_in_global :: "fs \<Rightarrow> nat option" where
  "get_free_slot_in_global s = first_from 3 (\<lambda>f. fd_inode f = 0) (file_table s)"

definition pcb_fd_install :: "nat \<Rightarrow> fs \<Rightarrow> u32 \<times> fs" where
  "pcb_fd_install global_fd s =
     (case first_from 3 (\<lambda>fd. fd = - 1) (thread_fds s) of
        None \<Rightarrow> (- 1, s)
      | Some local_fd \<Rightarrow> (of_nat local_fd, s\<lparr>thread_fds := (thread_fds s)[local_fd := of_nat global_fd]\<rparr>))"

definition set_file :: "nat \<Rightarrow> open_file \<Rightarrow> fs \<Rightarrow> fs" where
  "set_file k f s = s\<lparr>file_table := (file_table s)[k := f]\<rparr>"

abbreviation get_file :: "nat \<Rightarrow> fs \<Rightarrow> open_file res" where
  "get_file k s \<equiv> aread (file_table s) k"

definition no_file :: open_file where "no_file = \<lparr>fd_pos = 0, fd_flag = 0, fd_inode = 0\<rparr>"

definition O_WRONLY :: u32 where "O_WRONLY = 1"
definition O_RDWR :: u32 where "O_RDWR = 2"
definition O_CREAT :: u32 where "O_CREAT = 4"

definition for_writing :: "u32 \<Rightarrow> bool" where
  "for_writing flag \<longleftrightarrow> flag AND O_WRONLY \<noteq> 0 \<or> flag AND O_RDWR \<noteq> 0"

section \<open>Creating, opening and closing\<close>

text \<open>The cases of \<^verbatim>\<open>rollback\<close>, each falling into the next; the bit is not synced.\<close>

definition rollback_1 :: "u32 \<Rightarrow> fs \<Rightarrow> (u32 \<times> fs) res" where
  "rollback_1 inode_no s =
     rbind (bitmap_set (inode_bitmap (cur_part s)) (unat inode_no) 0) (\<lambda>m.
     Inr (- 1, upd_part (\<lambda>p. p\<lparr>inode_bitmap := m\<rparr>) s))"

definition rollback_2 :: "u32 \<Rightarrow> u32 \<Rightarrow> fs \<Rightarrow> (u32 \<times> fs) res" where
  "rollback_2 new_file_inode inode_no s = rollback_1 inode_no (s\<lparr>inodes := (inodes s)(new_file_inode := None)\<rparr>)"

definition rollback_3 :: "nat \<Rightarrow> u32 \<Rightarrow> u32 \<Rightarrow> fs \<Rightarrow> (u32 \<times> fs) res" where
  "rollback_3 fd_idx new_file_inode inode_no s = rollback_2 new_file_inode inode_no (set_file fd_idx no_file s)"

definition file_create :: "u32 \<Rightarrow> str \<Rightarrow> u32 \<Rightarrow> fs \<Rightarrow> (u32 \<times> fs) res" where
  "file_create parent_dir name flag s =
     (let (io_buf, s) = fs_malloc s in
      if io_buf = 0 then Inr (- 1, s)
      else rbind (inode_bitmap_alloc s) (\<lambda>(r, s).
      case r of None \<Rightarrow> Inr (- 1, s)
      | Some inode_no \<Rightarrow>
        let (new_file_inode, s) = fs_malloc s in
        if new_file_inode = 0 then rollback_1 inode_no s
        else let s = set_inode new_file_inode (inode_init inode_no) s in
        (case get_free_slot_in_global s of
           None \<Rightarrow> rollback_2 new_file_inode inode_no s
         | Some fd_idx \<Rightarrow>
           let s = set_file fd_idx \<lparr>fd_pos = 0, fd_flag = flag, fd_inode = new_file_inode\<rparr> s in
           rbind (create_dir_entry name inode_no (ucast FT_REGULAR)) (\<lambda>new_dir_entry.
           rbind (sync_dir_entry parent_dir new_dir_entry s) (\<lambda>(ok, s).
           if \<not> ok then rollback_3 fd_idx new_file_inode inode_no s
           else rbind (get_dir parent_dir s) (\<lambda>d. rbind (get_inode (dir_inode d) s) (\<lambda>parent_inode.
                rbind (inode_sync parent_inode s) (\<lambda>s.
                rbind (get_inode new_file_inode s) (\<lambda>i.
                rbind (inode_sync i s) (\<lambda>s.
                rbind (bitmap_sync inode_no INODE_BITMAP s) (\<lambda>s.
                let s = upd_part (\<lambda>p. p\<lparr>open_inode := new_file_inode # open_inode p\<rparr>) s;
                    s = set_inode new_file_inode (i\<lparr>i_open_cnts := 1\<rparr>) s
                in Inr (pcb_fd_install fd_idx s))))))))))))"

definition file_open :: "u32 \<Rightarrow> u32 \<Rightarrow> fs \<Rightarrow> (u32 \<times> fs) res" where
  "file_open inode_no flag s =
     (case get_free_slot_in_global s of
        None \<Rightarrow> Inr (- 1, s)
      | Some fd_index \<Rightarrow>
        rbind (inode_open inode_no s) (\<lambda>(p, s).
        let s = set_file fd_index \<lparr>fd_pos = 0, fd_flag = flag, fd_inode = p\<rparr> s in
        if for_writing flag
        then rbind (get_inode p s) (\<lambda>i.
             if \<not> write_deny i then Inr (pcb_fd_install fd_index (set_inode p (i\<lparr>write_deny := True\<rparr>) s))
             else Inr (- 1, s))
        else Inr (pcb_fd_install fd_index s)))"

definition file_close :: "nat \<Rightarrow> fs \<Rightarrow> (u32 \<times> fs) res" where
  "file_close k s =
     rbind (get_file k s) (\<lambda>f. rbind (get_inode (fd_inode f) s) (\<lambda>i.
     rbind (inode_close (fd_inode f) (set_inode (fd_inode f) (i\<lparr>write_deny := False\<rparr>) s)) (\<lambda>s.
     Inr (0, set_file k (f\<lparr>fd_inode := 0\<rparr>) s))))"

section \<open>Writing\<close>

definition BLOCK_SIZE :: u32 where "BLOCK_SIZE = SECTOR_SIZE"

text \<open>
  The loop that allocates the blocks with the indices given, for the inode at \<open>p\<close>: \<open>checked\<close> is
  the extra assertion of the first branch. \<open>None\<close> when the disk is full.
\<close>

fun add_blocks :: "u32 \<Rightarrow> bool \<Rightarrow> nat list \<Rightarrow> u32 list \<Rightarrow> fs \<Rightarrow> (u32 list option \<times> fs) res" where
  "add_blocks p checked [] blocks s = Inr (Some blocks, s)"
| "add_blocks p checked (block_idx # is) blocks s =
     rbind (block_bitmap_alloc s) (\<lambda>(r, s).
     case r of None \<Rightarrow> Inr (None, s)
     | Some block_lba \<Rightarrow>
       rbind (if block_idx < 12
              then rbind (get_inode p s) (\<lambda>i. rbind (c_assert (i_sectors i ! block_idx = 0)) (\<lambda>_.
                   set_sector p block_idx block_lba s))
              else Inr s) (\<lambda>s.
       let blocks = blocks[block_idx := block_lba];
           block_bitmap_idx = block_lba - data_start_lba (part_sb s)
       in rbind (c_assert (checked \<longrightarrow> block_bitmap_idx \<noteq> 0)) (\<lambda>_.
          rbind (bitmap_sync block_bitmap_idx BLOCK_BITMAP s) (\<lambda>s.
          add_blocks p checked is blocks s))))"

text \<open>A file without a block gets its first one.\<close>

definition first_block :: "u32 \<Rightarrow> fs \<Rightarrow> (bool \<times> fs) res" where
  "first_block p s =
     rbind (get_inode p s) (\<lambda>i.
     if i_sectors i ! 0 = 0
     then rbind (block_bitmap_alloc s) (\<lambda>(r, s).
          case r of None \<Rightarrow> Inr (False, s)
          | Some block_lba \<Rightarrow>
            rbind (set_sector p 0 block_lba s) (\<lambda>s.
            let block_bitmap_idx = block_lba - data_start_lba (part_sb s)
            in rbind (c_assert (block_bitmap_idx \<noteq> 0)) (\<lambda>_.
               rbind (bitmap_sync block_bitmap_idx BLOCK_BITMAP s) (\<lambda>s. Inr (True, s)))))
     else Inr (True, s))"

text \<open>\<open>has_used\<close> and \<open>will_used\<close> are the numbers of blocks before and after the write.\<close>

definition collect_blocks :: "u32 \<Rightarrow> nat \<Rightarrow> nat \<Rightarrow> fs \<Rightarrow> (u32 list option \<times> fs) res" where
  "collect_blocks p has_used will_used s =
     rbind (get_inode p s) (\<lambda>i.
     let blocks = replicate 140 0;
         last = blocks[has_used - 1 := i_sectors i ! (has_used - 1)];
         table = i_sectors i ! 12
     in if has_used = will_used
        then if will_used \<le> 12 then Inr (Some last, s)
             else rbind (c_assert (table \<noteq> 0)) (\<lambda>_.
                  rbind (indirect_blocks table s) (\<lambda>ind. Inr (Some (take 12 blocks @ ind), s)))
        else if will_used \<le> 12
        then rbind (c_assert (i_sectors i ! (has_used - 1) \<noteq> 0)) (\<lambda>_.
             add_blocks p True [has_used..<will_used] last s)
        else if has_used \<le> 12
        then rbind (block_bitmap_alloc s) (\<lambda>(r, s).
             case r of None \<Rightarrow> Inr (None, s)
             | Some block_lba \<Rightarrow>
               rbind (c_assert (table = 0)) (\<lambda>_.
               rbind (set_sector p 12 block_lba s) (\<lambda>s.
               rbind (add_blocks p False [has_used..<will_used] last s) (\<lambda>(r, s).
               case r of None \<Rightarrow> Inr (None, s)
               | Some blocks \<Rightarrow> rbind (disk_write block_lba (words (drop 12 blocks)) 1 s) (\<lambda>s. Inr (Some blocks, s))))))
        else rbind (c_assert (table \<noteq> 0)) (\<lambda>_.
             rbind (indirect_blocks table s) (\<lambda>ind.
             rbind (add_blocks p False [has_used..<will_used] (take 12 blocks @ ind) s) (\<lambda>(r, s).
             case r of None \<Rightarrow> Inr (None, s)
             | Some blocks \<Rightarrow> rbind (disk_write table (words (drop 12 blocks)) 1 s) (\<lambda>s. Inr (Some blocks, s))))))"

text \<open>
  The writing loop for file \<open>k\<close> whose inode is at \<open>p\<close>, as long as bytes are left: \<open>first\<close> says
  that the sector may hold data already.
\<close>

definition write_chunk :: "nat \<Rightarrow> u32 \<Rightarrow> u32 list \<Rightarrow> bool \<Rightarrow> str \<Rightarrow> fs \<Rightarrow> (nat \<times> fs) res" where
  "write_chunk k p blocks first src s =
     rbind (get_inode p s) (\<lambda>i. rbind (get_file k s) (\<lambda>f.
     let sec_idx = unat (i_size i div BLOCK_SIZE);
         sec_off_bytes = unat (i_size i mod BLOCK_SIZE);
         chunk_size = min (length src) (512 - sec_off_bytes)
     in rbind (aread blocks sec_idx) (\<lambda>lba.
        rbind (if first then disk_read lba 1 s else Inr (replicate 512 0)) (\<lambda>io_buf.
        rbind (disk_write lba (splice io_buf sec_off_bytes (take chunk_size src)) 1 s) (\<lambda>s.
        let s = set_inode p (i\<lparr>i_size := i_size i + of_nat chunk_size\<rparr>) s;
            s = set_file k (f\<lparr>fd_pos := fd_pos f + of_nat chunk_size\<rparr>) s
        in Inr (chunk_size, s))))))"

lemma sec_off_less: "unat (w mod BLOCK_SIZE) < 512"
  using mod_less_divisor [of 512 "unat w"] by (simp add: BLOCK_SIZE_def SECTOR_SIZE_def unat_mod)

lemma write_chunk_pos: "write_chunk k p blocks first src s = Inr (n, t) \<Longrightarrow> src \<noteq> [] \<Longrightarrow> 0 < n"
  using sec_off_less by (auto simp: write_chunk_def rbind_Inr_iff Let_def min_def)

function write_chunks :: "nat \<Rightarrow> u32 \<Rightarrow> u32 list \<Rightarrow> bool \<Rightarrow> str \<Rightarrow> fs \<Rightarrow> fs res" where
  "write_chunks k p blocks first src s =
     (if src = [] then Inr s
      else rbind (write_chunk k p blocks first src s) (\<lambda>r.
           write_chunks k p blocks False (drop (fst r) src) (snd r)))"
  by pat_completeness auto

termination write_chunks
  by (relation "measure (\<lambda>(_, _, _, _, src, _). length src)") (auto dest: write_chunk_pos)

declare write_chunks.simps [simp del]

definition file_write :: "nat \<Rightarrow> str \<Rightarrow> fs \<Rightarrow> (u32 \<times> fs) res" where
  "file_write k src s =
     rbind (get_file k s) (\<lambda>f. rbind (get_inode (fd_inode f) s) (\<lambda>i.
     let p = fd_inode f; count = of_nat (length src) :: u32 in
     if i_size i + count > BLOCK_SIZE * 140 then Inr (- 1, s)
     else let (io_buf, s) = fs_malloc s in
     if io_buf = 0 then Inr (- 1, s)
     else let (all_blocks, s) = fs_malloc s in
     if all_blocks = 0 then Inr (- 1, s)
     else rbind (first_block p s) (\<lambda>(ok, s).
     if \<not> ok then Inr (- 1, s)
     else let has_used = unat (i_size i div BLOCK_SIZE + 1);
              will_used = unat ((i_size i + count) div BLOCK_SIZE + 1)
     in rbind (c_assert (will_used < 140)) (\<lambda>_.
        rbind (collect_blocks p has_used will_used s) (\<lambda>(r, s).
        case r of None \<Rightarrow> Inr (- 1, s)
        | Some blocks \<Rightarrow>
          rbind (get_file k s) (\<lambda>f.
          rbind (write_chunks k p blocks True src (set_file k (f\<lparr>fd_pos := i_size i - 1\<rparr>) s)) (\<lambda>s.
          let (sync_buf, s) = fs_malloc s in
          if sync_buf = 0 then Inr (- 1, s)
          else rbind (get_inode p s) (\<lambda>i. rbind (inode_sync i s) (\<lambda>s. Inr (count, s))))))))))"

section \<open>Reading\<close>

definition collect_read :: "inode \<Rightarrow> nat \<Rightarrow> nat \<Rightarrow> fs \<Rightarrow> u32 list res" where
  "collect_read i start_idx end_idx s =
     (let direct = (\<lambda>j. if start_idx \<le> j \<and> j \<le> end_idx then i_sectors i ! j else 0);
          table = i_sectors i ! 12
      in if start_idx = end_idx
         then if end_idx < 12 then Inr (map direct [0..<12] @ replicate 128 0)
              else rbind (indirect_blocks table s) (\<lambda>ind. Inr (replicate 12 0 @ ind))
         else if end_idx < 12 then Inr (map direct [0..<12] @ replicate 128 0)
         else if start_idx < 12 \<and> end_idx > 12
         then rbind (c_assert (table \<noteq> 0)) (\<lambda>_.
              rbind (indirect_blocks table s) (\<lambda>ind. Inr (map direct [0..<12] @ ind)))
         else rbind (c_assert (table \<noteq> 0)) (\<lambda>_.
              rbind (indirect_blocks table s) (\<lambda>ind. Inr (replicate 12 0 @ ind))))"

text \<open>The bytes of the reading loop from position \<open>pos\<close> on.\<close>

function read_chunks :: "u32 list \<Rightarrow> u32 \<Rightarrow> nat \<Rightarrow> fs \<Rightarrow> str res" where
  "read_chunks blocks pos size_left s =
     (if size_left = 0 then Inr []
      else let sec_idx = unat (pos div BLOCK_SIZE);
               sec_off_bytes = unat (pos mod BLOCK_SIZE);
               chunk_size = min size_left (512 - sec_off_bytes)
           in rbind (aread blocks sec_idx) (\<lambda>lba.
              rbind (disk_read lba 1 s) (\<lambda>io_buf.
              rbind (read_chunks blocks (pos + of_nat chunk_size) (size_left - chunk_size) s) (\<lambda>rest.
              Inr (piece_of io_buf sec_off_bytes chunk_size @ rest)))))"
  by pat_completeness auto

termination read_chunks
  by (relation "measure (\<lambda>(_, _, n, _). n)") (use sec_off_less in \<open>auto simp: min_def not_le\<close>)

declare read_chunks.simps [simp del]

definition file_read :: "nat \<Rightarrow> u32 \<Rightarrow> fs \<Rightarrow> (u32 \<times> str \<times> fs) res" where
  "file_read k count s =
     rbind (get_file k s) (\<lambda>f. rbind (get_inode (fd_inode f) s) (\<lambda>i.
     let over = fd_pos f + count > i_size i;
         sz = (if over then i_size i - fd_pos f else count) in
     if over \<and> sz = 0 then Inr (- 1, [], s)
     else let (io_buf, s) = fs_malloc s in
     if io_buf = 0 then Inr (- 1, [], s)
     else let (all_blocks, s) = fs_malloc s in
     if all_blocks = 0 then Inr (- 1, [], s)
     else let start_idx = unat (fd_pos f div BLOCK_SIZE);
              end_idx = unat ((fd_pos f + sz) div BLOCK_SIZE)
     in rbind (c_assert (start_idx < 139 \<and> end_idx < 139)) (\<lambda>_.
        rbind (collect_read i start_idx end_idx s) (\<lambda>blocks.
        rbind (read_chunks blocks (fd_pos f) (unat sz) s) (\<lambda>bytes.
        Inr (sz, bytes, set_file k (f\<lparr>fd_pos := fd_pos f + sz\<rparr>) s))))))"

end
