(* ===== verification/Path.thy ===== *)
theory Path
  imports Stdio
begin

text \<open>
  Path names: \<^verbatim>\<open>path_parse\<close> and \<^verbatim>\<open>path_depth_cnt\<close> of \<^verbatim>\<open>fs/fs.c\<close>, and \<^verbatim>\<open>wash_path\<close> and
  \<^verbatim>\<open>make_clear_abs_path\<close> of \<^verbatim>\<open>shell/buildin_cmd.c\<close>.

  A path is its bytes without the terminator. \<^verbatim>\<open>path_parse\<close> copies the next component into a buffer
  without terminating it and relies on the zeros in the buffer. The specification is the list of
  the components of a path, with the dots resolved for \<^verbatim>\<open>wash_path\<close>.
\<close>

section \<open>The code\<close>

abbreviation slash :: u8 where "slash \<equiv> 47"

definition path_parse :: "str \<Rightarrow> str \<Rightarrow> (str option \<times> str) res" where
  "path_parse pathname name_store =
     (let p = (if pathname \<noteq> [] \<and> pathname ! 0 = slash then dropWhile (\<lambda>c. c = slash) pathname else pathname);
          component = takeWhile (\<lambda>c. c \<noteq> slash) p;
          rest = dropWhile (\<lambda>c. c \<noteq> slash) p
      in rbind (put_bytes name_store 0 component) (\<lambda>name.
         Inr (if rest = [] then None else Some rest, name)))"

lemma path_parse_shorter:
  assumes "path_parse p buf = Inr (Some r, name)"
  shows "length r < length p"
proof -
  define q where "q = (if p \<noteq> [] \<and> p ! 0 = slash then dropWhile (\<lambda>c. c = slash) p else p)"
  have "path_parse p buf = rbind (put_bytes buf 0 (takeWhile (\<lambda>c. c \<noteq> slash) q)) (\<lambda>name.
      Inr (if dropWhile (\<lambda>c. c \<noteq> slash) q = [] then None else Some (dropWhile (\<lambda>c. c \<noteq> slash) q), name))"
    by (simp only: path_parse_def q_def Let_def)
  with assms have r: "r = dropWhile (\<lambda>c. c \<noteq> slash) q" "r \<noteq> []"
    by (auto simp: rbind_Inr_iff dropWhile_eq_Nil_conv split: if_split_asm)
  have rq: "length r \<le> length q" using r(1) length_dropWhile_le by blast
  show ?thesis
  proof (cases "p \<noteq> [] \<and> p ! 0 = slash")
    case True
    then have "length q < length p" by (cases p) (auto simp: q_def length_dropWhile_le less_Suc_eq_le)
    with rq show ?thesis by simp
  next
    case False
    then have "q = p" by (auto simp: q_def)
    with False r obtain x xs where p: "p = x # xs" "x \<noteq> slash" by (cases p) auto
    with \<open>q = p\<close> r(1) have "r = dropWhile (\<lambda>c. c \<noteq> slash) xs" by simp
    with p show ?thesis by (simp add: length_dropWhile_le less_Suc_eq_le)
  qed
qed

abbreviation left_len :: "str option \<Rightarrow> nat" where
  "left_len p \<equiv> (case p of None \<Rightarrow> 0 | Some q \<Rightarrow> Suc (length q))"

lemma path_parse_left: "path_parse q buf = Inr (p, name) \<Longrightarrow> left_len p < Suc (length q)"
  using path_parse_shorter [of q buf] by (cases p) auto

text \<open>\<open>junk\<close> is what is on the stack in \<^verbatim>\<open>name\<close>, which \<^verbatim>\<open>path_depth_cnt\<close> does not initialise.\<close>

function depth_loop :: "str option \<Rightarrow> str \<Rightarrow> u32 \<Rightarrow> u32 res" where
  "depth_loop p name depth =
     (if name ! 0 = 0 then Inr depth
      else case p of None \<Rightarrow> Inr (depth + 1)
           | Some q \<Rightarrow> rbind (path_parse q (replicate 16 0)) (\<lambda>r. depth_loop (fst r) (snd r) (depth + 1)))"
  by pat_completeness auto

termination depth_loop
  by (relation "measure (\<lambda>(p, _, _). left_len p)") (auto dest: path_parse_left)

declare depth_loop.simps [simp del]

definition path_depth_cnt :: "str \<Rightarrow> str \<Rightarrow> u32 res" where
  "path_depth_cnt junk pathname =
     rbind (path_parse pathname junk) (\<lambda>(p, name). depth_loop p name 0)"

text \<open>The string in a buffer, read up to its terminator.\<close>

definition buf_string :: "str \<Rightarrow> str res" where
  "buf_string buf = rbind (buf_strlen buf) (\<lambda>n. Inr (take n buf))"

definition MAX_PATH_LEN :: nat where "MAX_PATH_LEN = 512"

text \<open>\<^verbatim>\<open>strcat\<close> onto a string in a buffer of \<^verbatim>\<open>MAX_PATH_LEN\<close> bytes.\<close>

definition path_cat :: "str \<Rightarrow> str \<Rightarrow> str res" where
  "path_cat s t = rbind (guard Out_of_bounds (length s + length t < MAX_PATH_LEN)) (\<lambda>_. Inr (s @ t))"

definition last_slash :: "str \<Rightarrow> nat" where
  "last_slash s = length s - 1 - length (takeWhile (\<lambda>c. c \<noteq> slash) (rev s))"

text \<open>One component: what happens to the new path.\<close>

definition wash_step :: "str \<Rightarrow> str \<Rightarrow> str res" where
  "wash_step name new_path =
     (if name = ascii ''..''
      then Inr (if last_slash new_path \<noteq> 0 then take (last_slash new_path) new_path else take 1 new_path)
      else if name \<noteq> ascii ''.''
      then rbind (if new_path \<noteq> ascii ''/'' then path_cat new_path (ascii ''/'') else Inr new_path) (\<lambda>new_path.
           path_cat new_path name)
      else Inr new_path)"

function wash_loop :: "str option \<Rightarrow> str \<Rightarrow> str \<Rightarrow> str res" where
  "wash_loop sub_path name new_path =
     (if name ! 0 = 0 then Inr new_path
      else rbind (buf_string name) (\<lambda>nm.
           rbind (wash_step nm new_path) (\<lambda>new_path.
           case sub_path of None \<Rightarrow> Inr new_path
           | Some q \<Rightarrow> rbind (path_parse q (replicate 16 0)) (\<lambda>r. wash_loop (fst r) (snd r) new_path))))"
  by pat_completeness auto

termination wash_loop
  by (relation "measure (\<lambda>(p, _, _). left_len p)") (auto dest: path_parse_left)

declare wash_loop.simps [simp del]

definition wash_path :: "str \<Rightarrow> str res" where
  "wash_path old_path =
     rbind (c_assert (old_path \<noteq> [] \<and> old_path ! 0 = slash)) (\<lambda>_.
     rbind (path_parse old_path (replicate 16 0)) (\<lambda>(sub_path, name).
     if name ! 0 = 0 then Inr (ascii ''/'') else wash_loop sub_path name (ascii ''/'')))"

text \<open>\<open>cwd\<close> is the result of \<^verbatim>\<open>getcwd\<close>, \<open>None\<close> for NULL.\<close>

definition make_clear_abs_path :: "str option \<Rightarrow> str \<Rightarrow> str res" where
  "make_clear_abs_path cwd path =
     rbind (if path \<noteq> [] \<and> path ! 0 = slash then Inr []
            else case cwd of None \<Rightarrow> Inr []
                 | Some abs_path \<Rightarrow> if abs_path = ascii ''/'' then Inr abs_path else path_cat abs_path (ascii ''/'')) (\<lambda>abs_path.
     rbind (path_cat abs_path path) wash_path)"

section \<open>Specification\<close>

text \<open>The components of a path, what the dots mean, and the path that names a list of components.\<close>

lemma component_shorter:
  assumes "dropWhile (\<lambda>c. c = slash) p \<noteq> []"
  shows "length (dropWhile (\<lambda>c. c \<noteq> slash) (dropWhile (\<lambda>c. c = slash) p)) < length p"
proof -
  let ?q = "dropWhile (\<lambda>c. c = slash) p"
  have "hd ?q \<noteq> slash" using hd_dropWhile [OF assms] by simp
  then have "length (dropWhile (\<lambda>c. c \<noteq> slash) ?q) < length ?q"
    using assms by (cases ?q) (simp_all add: length_dropWhile_le less_Suc_eq_le)
  also have "\<dots> \<le> length p" by (rule length_dropWhile_le)
  finally show ?thesis .
qed

function components :: "str \<Rightarrow> str list" where
  "components p =
     (let q = dropWhile (\<lambda>c. c = slash) p
      in if q = [] then [] else takeWhile (\<lambda>c. c \<noteq> slash) q # components (dropWhile (\<lambda>c. c \<noteq> slash) q))"
  by pat_completeness auto

termination components
  by (relation "measure length") (simp, simp only: in_measure, rule component_shorter)

declare components.simps [simp del]

definition resolve_step :: "str list \<Rightarrow> str \<Rightarrow> str list" where
  "resolve_step stack c = (if c = ascii ''..'' then butlast stack else if c = ascii ''.'' then stack else stack @ [c])"

definition resolve :: "str list \<Rightarrow> str list" where
  "resolve cs = foldl resolve_step [] cs"

definition render :: "str list \<Rightarrow> str" where
  "render cs = (if cs = [] then [slash] else concat (map (\<lambda>c. slash # c) cs))"

lemma components_Nil [simp]: "components [] = []"
  by (simp add: components.simps)

text \<open>\<^verbatim>\<open>path_parse\<close> takes the first component off, as long as it fits into the zeroed buffer.\<close>

lemma path_parse_eq:
  "q = dropWhile (\<lambda>c. c = slash) p \<Longrightarrow> path_parse p buf =
     rbind (put_bytes buf 0 (takeWhile (\<lambda>c. c \<noteq> slash) q)) (\<lambda>name.
       Inr (if dropWhile (\<lambda>c. c \<noteq> slash) q = [] then None else Some (dropWhile (\<lambda>c. c \<noteq> slash) q), name))"
proof -
  assume q: "q = dropWhile (\<lambda>c. c = slash) p"
  have "(if p \<noteq> [] \<and> p ! 0 = slash then dropWhile (\<lambda>c. c = slash) p else p) = q"
    unfolding q by (cases p) auto
  then show ?thesis by (simp only: path_parse_def Let_def)
qed

lemma components_eq:
  "q = dropWhile (\<lambda>c. c = slash) p \<Longrightarrow> components p =
     (if q = [] then [] else takeWhile (\<lambda>c. c \<noteq> slash) q # components (dropWhile (\<lambda>c. c \<noteq> slash) q))"
  by (subst components.simps) (simp only: Let_def)

definition fits :: "str \<Rightarrow> bool" where
  "fits c \<longleftrightarrow> length c < 16 \<and> 0 \<notin> set c"

lemma path_parse_none:
  assumes "components p = []"
  shows "path_parse p (replicate 16 0) = Inr (None, replicate 16 0)"
proof -
  have "[] = dropWhile (\<lambda>c. c = slash) p"
    using assms components_eq [OF refl, of p] by (metis list.distinct(1))
  from path_parse_eq [OF this] show ?thesis by (simp add: put_bytes_def)
qed

lemma path_parse_comp:
  assumes "components p = c # cs" and "length c \<le> length buf"
  shows "\<exists>r. path_parse p buf = Inr (r, c @ drop (length c) buf) \<and> c \<noteq> [] \<and> slash \<notin> set c \<and>
    cs = (case r of None \<Rightarrow> [] | Some q \<Rightarrow> components q)"
proof -
  define q where "q = dropWhile (\<lambda>c. c = slash) p"
  have q: "q \<noteq> []" "c = takeWhile (\<lambda>c. c \<noteq> slash) q" "cs = components (dropWhile (\<lambda>c. c \<noteq> slash) q)"
    using assms(1) components_eq [OF q_def] by (simp_all split: if_split_asm)
  have "hd q \<noteq> slash" using hd_dropWhile [of "\<lambda>c. c = slash" p] q(1) unfolding q_def by blast
  with q have "c \<noteq> []" by (cases q) auto
  moreover have "slash \<notin> set c" unfolding q(2) by (auto dest: set_takeWhileD)
  moreover have "put_bytes buf 0 c = Inr (c @ drop (length c) buf)"
    using assms(2) by (simp add: put_bytes_def)
  then have "path_parse p buf = Inr (if dropWhile (\<lambda>c. c \<noteq> slash) q = [] then None
      else Some (dropWhile (\<lambda>c. c \<noteq> slash) q), c @ drop (length c) buf)"
    using path_parse_eq [OF q_def] unfolding q(2) [symmetric] by simp
  moreover have "cs = (case (if w = [] then None else Some w) of None \<Rightarrow> [] | Some q \<Rightarrow> components q)"
    if "cs = components w" for w using that by simp
  ultimately show ?thesis using q(3) by metis
qed

lemma path_parse_zeros:
  assumes "components p = c # cs" and "fits c"
  shows "\<exists>r. path_parse p (replicate 16 0) = Inr (r, c @ replicate (16 - length c) 0) \<and> c \<noteq> [] \<and> slash \<notin> set c \<and>
    cs = (case r of None \<Rightarrow> [] | Some q \<Rightarrow> components q)"
  using path_parse_comp [OF assms(1), of "replicate 16 0"] assms(2) by (simp add: fits_def)

lemma buf_string_comp: "fits c \<Longrightarrow> buf_string (c @ replicate (16 - length c) 0) = Inr c"
  using buf_strlen_zeros [of c "16 - length c"] by (simp add: buf_string_def fits_def)

lemma name_nonzero: "fits c \<Longrightarrow> c \<noteq> [] \<Longrightarrow> (c @ xs) ! 0 \<noteq> 0"
  by (cases c) (auto simp: fits_def)

section \<open>The depth of a path\<close>

lemma depth_loop_components:
  assumes "\<forall>c \<in> set (c # cs). fits c" and "c \<noteq> []" and "cs = (case r of None \<Rightarrow> [] | Some q \<Rightarrow> components q)"
  shows "depth_loop r (c @ replicate (16 - length c) 0) d = Inr (d + of_nat (length (c # cs)))"
  using assms
proof (induction cs arbitrary: c r d)
  case Nil
  then have n: "(c @ replicate (16 - length c) 0) ! 0 \<noteq> 0" by (intro name_nonzero) auto
  show ?case
  proof (cases r)
    case None
    with n show ?thesis by (subst depth_loop.simps) simp
  next
    case (Some q)
    with Nil.prems have "path_parse q (replicate 16 0) = Inr (None, replicate 16 0)" by (intro path_parse_none) simp
    with n Some show ?thesis by (subst depth_loop.simps) (simp add: depth_loop.simps)
  qed
next
  case (Cons c' cs)
  then have n: "(c @ replicate (16 - length c) 0) ! 0 \<noteq> 0" by (intro name_nonzero) simp_all
  from Cons.prems(3) obtain q where r: "r = Some q" and q: "components q = c' # cs" by (cases r) auto
  from Cons.prems(1) have f: "fits c'" by simp
  from path_parse_zeros [OF q f] obtain r' where p: "path_parse q (replicate 16 0) = Inr (r', c' @ replicate (16 - length c') 0)"
    and c': "c' \<noteq> []" and cs: "cs = (case r' of None \<Rightarrow> [] | Some q \<Rightarrow> components q)" by blast
  from Cons.IH [OF _ c' cs, of "d + 1"] Cons.prems(1) have
    "depth_loop r' (c' @ replicate (16 - length c') 0) (d + 1) = Inr (d + 1 + of_nat (length (c' # cs)))" by simp
  with n r p show ?case by (subst depth_loop.simps) (simp add: algebra_simps)
qed

text \<open>The stack buffer decides only for a path without components, and its tail never matters.\<close>

lemma depth_loop_tail: "xs ! 0 = ys ! 0 \<Longrightarrow> depth_loop r xs d = depth_loop r ys d"
  by (subst (1 2) depth_loop.simps) simp

lemma path_depth_components:
  assumes "components p \<noteq> []" and "\<forall>c \<in> set (components p). fits c" and "length junk = 16"
  shows "path_depth_cnt junk p = Inr (of_nat (length (components p)))"
proof -
  from assms(1) obtain c cs where c: "components p = c # cs" by (cases "components p") auto
  with assms(2) have f: "fits c" by simp
  obtain r where "path_parse p junk = Inr (r, c @ drop (length c) junk)"
    and ne: "c \<noteq> []" and cs: "cs = (case r of None \<Rightarrow> [] | Some q \<Rightarrow> components q)"
    using path_parse_comp [OF c, of junk] f assms(3) by (auto simp: fits_def)
  moreover have "depth_loop r (c @ drop (length c) junk) 0 = depth_loop r (c @ replicate (16 - length c) 0) 0"
    using ne by (intro depth_loop_tail) (cases c; simp)
  ultimately show ?thesis
    using depth_loop_components [OF _ ne cs, of 0] assms(2) c by (simp add: path_depth_cnt_def)
qed

section \<open>Clean paths\<close>

definition proper :: "str list \<Rightarrow> bool" where
  "proper cs \<longleftrightarrow> (\<forall>c \<in> set cs. c \<noteq> [] \<and> slash \<notin> set c)"

abbreviation path_size :: "str list \<Rightarrow> nat" where
  "path_size cs \<equiv> sum_list (map (\<lambda>c. Suc (length c)) cs)"

lemma render_snoc: "cs \<noteq> [] \<Longrightarrow> render (cs @ [c]) = render cs @ slash # c"
  by (simp add: render_def)

lemma render_one: "render [c] = slash # c"
  by (simp add: render_def)

lemma length_render: "length (render cs) = (if cs = [] then 1 else path_size cs)"
  by (simp add: render_def length_concat comp_def)

lemma last_slash_snoc: "slash \<notin> set c \<Longrightarrow> last_slash (xs @ slash # c) = length xs"
proof -
  assume "slash \<notin> set c"
  then have "takeWhile (\<lambda>c. c \<noteq> slash) (rev c @ slash # rev xs) = rev c"
    by (subst takeWhile_append2) auto
  then show ?thesis by (simp add: last_slash_def)
qed

lemma render_ne_root: "proper cs \<Longrightarrow> cs \<noteq> [] \<Longrightarrow> render cs \<noteq> [slash]"
  by (cases cs) (auto simp: render_def proper_def)

lemma path_consts: "ascii ''/'' = [slash]" "ascii ''.'' = [46]" "ascii ''..'' = [46, 46]"
  by (simp_all add: ascii_def)

lemma wash_step_render:
  assumes "proper st" and "path_size st + Suc (length c) < 512"
  shows "wash_step c (render st) = Inr (render (resolve_step st c))"
proof (cases "c = ascii ''..''")
  case True
  show ?thesis
  proof (cases st rule: rev_cases)
    case Nil
    with True show ?thesis
      using last_slash_snoc [of "[]" "[]"] by (simp add: wash_step_def resolve_step_def render_def)
  next
    case (snoc st' d)
    then have d: "slash \<notin> set d" using assms(1) by (simp add: proper_def)
    show ?thesis
    proof (cases st')
      case Nil
      with snoc d True show ?thesis
        using last_slash_snoc [OF d, of "[]"] by (simp add: wash_step_def resolve_step_def render_def)
    next
      case (Cons e es)
      then have ne: "st' \<noteq> []" by simp
      then have "length (render st') \<noteq> 0" by (simp add: length_render Cons)
      with ne snoc True last_slash_snoc [OF d, of "render st'"] show ?thesis
        by (simp add: wash_step_def resolve_step_def render_snoc)
    qed
  qed
next
  case False
  note dd = this
  show ?thesis
  proof (cases "c = ascii ''.''")
    case True
    with dd show ?thesis by (simp add: wash_step_def resolve_step_def)
  next
    case False
    show ?thesis
    proof (cases "st = []")
      case True
      with dd False assms(2) show ?thesis
        by (simp add: wash_step_def resolve_step_def path_cat_def MAX_PATH_LEN_def path_consts render_def)
    next
      case ne: False
      with render_ne_root [OF assms(1)] dd False assms(2) show ?thesis
        by (simp add: wash_step_def resolve_step_def path_cat_def MAX_PATH_LEN_def path_consts render_snoc length_render)
    qed
  qed
qed

lemma resolve_step_ok:
  assumes "proper st" and "c \<noteq> []" and "slash \<notin> set c"
  shows "proper (resolve_step st c)" and "path_size (resolve_step st c) \<le> path_size st + Suc (length c)"
proof -
  show "proper (resolve_step st c)" using assms by (auto simp: proper_def resolve_step_def dest: in_set_butlastD)
  show "path_size (resolve_step st c) \<le> path_size st + Suc (length c)"
    by (cases st rule: rev_cases) (auto simp: resolve_step_def)
qed

lemma wash_loop_components:
  assumes "\<forall>c \<in> set (c # cs). fits c" and "c \<noteq> []" and "slash \<notin> set c"
    and "cs = (case r of None \<Rightarrow> [] | Some q \<Rightarrow> components q)"
    and "proper st" and "path_size st + path_size (c # cs) < 512"
  shows "wash_loop r (c @ replicate (16 - length c) 0) (render st) = Inr (render (foldl resolve_step st (c # cs)))"
  using assms
proof (induction cs arbitrary: c r st)
  case Nil
  then have f: "fits c" by simp
  have n: "(c @ replicate (16 - length c) 0) ! 0 \<noteq> 0" by (rule name_nonzero [OF f Nil.prems(2)])
  have s: "wash_step c (render st) = Inr (render (resolve_step st c))"
    using Nil.prems by (intro wash_step_render) auto
  show ?case
  proof (cases r)
    case None
    with n s buf_string_comp [OF f] show ?thesis by (subst wash_loop.simps) simp
  next
    case (Some q)
    with Nil.prems(4) have "path_parse q (replicate 16 0) = Inr (None, replicate 16 0)" by (intro path_parse_none) simp
    with n s Some buf_string_comp [OF f] show ?thesis by (subst wash_loop.simps) (simp add: wash_loop.simps)
  qed
next
  case (Cons c' cs)
  from Cons.prems(1) have f: "fits c" "fits c'" by simp_all
  have n: "(c @ replicate (16 - length c) 0) ! 0 \<noteq> 0" by (rule name_nonzero [OF f(1) Cons.prems(2)])
  have s: "wash_step c (render st) = Inr (render (resolve_step st c))"
    using Cons.prems by (intro wash_step_render) auto
  from Cons.prems(4) obtain q where r: "r = Some q" and q: "components q = c' # cs" by (cases r) auto
  from path_parse_zeros [OF q f(2)] obtain r' where p: "path_parse q (replicate 16 0) = Inr (r', c' @ replicate (16 - length c') 0)"
    and c': "c' \<noteq> []" "slash \<notin> set c'" and cs: "cs = (case r' of None \<Rightarrow> [] | Some q \<Rightarrow> components q)" by blast
  note rs = resolve_step_ok [OF Cons.prems(5,2,3)]
  have "path_size (resolve_step st c) + path_size (c' # cs) < 512" using rs(2) Cons.prems(6) by simp
  from Cons.IH [OF _ c' cs rs(1) this] Cons.prems(1)
  have "wash_loop r' (c' @ replicate (16 - length c') 0) (render (resolve_step st c)) =
      Inr (render (foldl resolve_step (resolve_step st c) (c' # cs)))" by simp
  with n s r p buf_string_comp [OF f(1)] show ?case by (subst wash_loop.simps) simp
qed

lemma total_components: "path_size (components p) \<le> length p + (if p \<noteq> [] \<and> p ! 0 = slash then 0 else 1)"
proof (induction p rule: components.induct)
  case (1 p)
  define q where "q = dropWhile (\<lambda>c. c = slash) p"
  show ?case
  proof (cases "q = []")
    case True
    then show ?thesis using components_eq [OF q_def] by simp
  next
    case False
    let ?c = "takeWhile (\<lambda>c. c \<noteq> slash) q" and ?w = "dropWhile (\<lambda>c. c \<noteq> slash) q"
    have w: "?w \<noteq> [] \<Longrightarrow> ?w ! 0 = slash" by (metis (mono_tags) hd_conv_nth hd_dropWhile)
    have "path_size (components ?w) \<le> length ?w + (if ?w \<noteq> [] \<and> ?w ! 0 = slash then 0 else 1)"
      using 1 [OF q_def False] .
    moreover have "path_size (components v) \<le> length v"
      if "path_size (components v) \<le> length v + (if v \<noteq> [] \<and> v ! 0 = slash then 0 else 1)" "v \<noteq> [] \<Longrightarrow> v ! 0 = slash" for v
      using that by (cases "v = []") auto
    ultimately have "path_size (components ?w) \<le> length ?w" using w by blast
    moreover have "length ?c + length ?w = length q" by (metis length_append takeWhile_dropWhile_id)
    moreover have "length q + (if p \<noteq> [] \<and> p ! 0 = slash then 1 else 0) \<le> length p"
      using length_dropWhile_le [of "\<lambda>c. c = slash" "tl p"] by (cases p) (auto simp: q_def length_dropWhile_le)
    ultimately show ?thesis using components_eq [OF q_def] False by auto
  qed
qed

lemma wash_path_components:
  assumes "p \<noteq> []" and "p ! 0 = slash" and "length p < 512" and "\<forall>c \<in> set (components p). fits c"
  shows "wash_path p = Inr (render (resolve (components p)))"
proof (cases "components p")
  case Nil
  with path_parse_none [OF Nil] assms show ?thesis
    by (simp add: wash_path_def resolve_def render_def path_consts)
next
  case (Cons c cs)
  with assms have f: "fits c" by simp
  from path_parse_zeros [OF Cons f] obtain r where p: "path_parse p (replicate 16 0) = Inr (r, c @ replicate (16 - length c) 0)"
    and c: "c \<noteq> []" "slash \<notin> set c" and cs: "cs = (case r of None \<Rightarrow> [] | Some q \<Rightarrow> components q)" by blast
  have "path_size (c # cs) < 512" using total_components [of p] assms(1-3) Cons by simp
  with wash_loop_components [OF _ c cs, of "[]"] assms(4) Cons
  have "wash_loop r (c @ replicate (16 - length c) 0) (render []) = Inr (render (resolve (c # cs)))"
    by (simp add: proper_def resolve_def)
  with p name_nonzero [OF f c(1)] assms(1,2) Cons show ?thesis
    by (simp add: wash_path_def path_consts render_def)
qed

lemma resolve_dotless: "\<forall>c \<in> set (resolve cs). c \<in> set cs \<and> c \<noteq> ascii ''.'' \<and> c \<noteq> ascii ''..''"
proof (induction cs rule: rev_induct)
  case Nil
  then show ?case by (simp add: resolve_def)
next
  case (snoc c cs)
  then show ?case by (auto simp: resolve_def resolve_step_def dest: in_set_butlastD)
qed

lemma components_render: "proper cs \<Longrightarrow> components (render cs) = cs"
proof (induction cs)
  case Nil
  then show ?case by (simp add: render_def components.simps)
next
  case (Cons c cs)
  then have c: "c \<noteq> []" "slash \<notin> set c" by (simp_all add: proper_def)
  define w where "w = (if cs = [] then [] else render cs)"
  have r: "render (c # cs) = slash # c @ w" by (cases cs) (simp_all add: render_def w_def)
  have w: "dropWhile (\<lambda>c. c \<noteq> slash) w = w" "takeWhile (\<lambda>c. c \<noteq> slash) w = []"
    by (cases cs; simp add: w_def render_def)+
  have "dropWhile (\<lambda>c. c = slash) (slash # c @ w) = c @ w" using c by (cases c) auto
  moreover have "takeWhile (\<lambda>c. c \<noteq> slash) (c @ w) = c" using c w by (subst takeWhile_append2) auto
  moreover have "dropWhile (\<lambda>c. c \<noteq> slash) (c @ w) = w" using c w by (subst dropWhile_append2) auto
  moreover have "components w = cs" using Cons by (simp add: w_def proper_def)
  ultimately show ?case using c components_eq [OF refl, of "slash # c @ w"] unfolding r by simp
qed

lemma components_proper: "proper (components p)"
proof (induction p rule: components.induct)
  case (1 p)
  define q where "q = dropWhile (\<lambda>c. c = slash) p"
  show ?case
  proof (cases "q = []")
    case True
    then show ?thesis using components_eq [OF q_def] by (simp add: proper_def)
  next
    case False
    have "hd q \<noteq> slash" using hd_dropWhile [of "\<lambda>c. c = slash" p] False unfolding q_def by blast
    then have "takeWhile (\<lambda>c. c \<noteq> slash) q \<noteq> []" using False by (cases q) auto
    then show ?thesis using components_eq [OF q_def] 1 [OF q_def False] False
      by (auto simp: proper_def dest: set_takeWhileD)
  qed
qed

lemma resolve_proper: "proper cs \<Longrightarrow> proper (resolve cs)"
  using resolve_dotless [of cs] by (auto simp: proper_def)

text \<open>
  C21. For an absolute path that fits its buffer and whose components are shorter than 16 bytes,
  \<^verbatim>\<open>wash_path\<close> computes the path of the resolved components: repeated slashes and single dots
  disappear, two dots take the component before them away (none at the root). The result is
  absolute, free of dots, and names exactly the resolved components; \<^verbatim>\<open>path_depth_cnt\<close> counts the
  components of the path whatever its buffer held before.
\<close>

theorem wash_path_resolves:
  assumes "p \<noteq> []" and "p ! 0 = slash" and "length p < 512" and "\<forall>c \<in> set (components p). fits c"
  shows "wash_path p = Inr (render (resolve (components p))) \<and>
    components (render (resolve (components p))) = resolve (components p) \<and>
    (\<forall>c \<in> set (resolve (components p)). c \<noteq> ascii ''.'' \<and> c \<noteq> ascii ''..'') \<and>
    (\<forall>junk. length junk = 16 \<and> components p \<noteq> [] \<longrightarrow> path_depth_cnt junk p = Inr (of_nat (length (components p))))"
  using wash_path_components [OF assms] components_render [OF resolve_proper [OF components_proper]]
    resolve_dotless [of "components p"] path_depth_components [OF _ assms(4)] by blast

theorem wash_path_resolves_witness:
  "wash_path (ascii ''//usr/./lib/../bin'') = Inr (ascii ''/usr/bin'') \<and>
   path_depth_cnt (replicate 16 7) (ascii ''//usr/./lib/../bin'') = Inr 5"
proof -
  let ?p = "ascii ''//usr/./lib/../bin''"
  have c: "components ?p = [ascii ''usr'', ascii ''.'', ascii ''lib'', ascii ''..'', ascii ''bin'']" by code_simp
  have f: "\<forall>c \<in> set (components ?p). fits c" unfolding c by code_simp
  have r: "render (resolve (components ?p)) = ascii ''/usr/bin''" unfolding c by code_simp
  have l: "?p \<noteq> []" "?p ! 0 = slash" "length ?p < 512" by code_simp+
  from wash_path_resolves [OF l f] show ?thesis unfolding r unfolding c by simp
qed

end
