(* ===== verification/Fs.thy ===== *)
theory Fs
  imports File Path
begin

text \<open>
  \<^verbatim>\<open>fs/fs.c\<close>: searching a path and the system calls on files and directories, and making and
  mounting a file system.

  Results that are \<^verbatim>\<open>int32_t\<close> are words, \<open>-1\<close> the word of all ones. \<open>J\<close> holds what the code reads
  without having initialised it: the buffer of \<^verbatim>\<open>path_depth_cnt\<close> and the directory entry of
  \<^verbatim>\<open>search_file\<close>.
\<close>

record junk =
  junk_name :: str
  junk_entry :: dir_entry

section \<open>Searching a path\<close>

record path_search_record =
  searched_path :: str
  parent_dir :: u32
  file_type :: u32

definition next_name :: "str option \<Rightarrow> str \<Rightarrow> (str option \<times> str) res" where
  "next_name sub_path name = (case sub_path of None \<Rightarrow> Inr (None, name) | Some q \<Rightarrow> path_parse q name)"

text \<open>\<^verbatim>\<open>memset(name, 0, MAX_FILE_NAME_LEN)\<close> in the buffer of 512 bytes.\<close>

definition clear_name :: "str \<Rightarrow> str" where
  "clear_name name = splice name 0 (replicate MAX_FILE_NAME_LEN 0)"

lemma next_name_less:
  assumes "next_name sub_path (clear_name name) = Inr (r, n)"
  shows "left_len r + of_bool (n ! 0 \<noteq> 0) < Suc (left_len sub_path)"
proof (cases sub_path)
  case None
  have "clear_name name ! 0 = 0" by (simp add: clear_name_def splice_def MAX_FILE_NAME_LEN_def numeral_nat)
  with assms None show ?thesis by (auto simp: next_name_def)
next
  case (Some q)
  with assms have "left_len r < Suc (length q)" by (auto simp: next_name_def dest: path_parse_left)
  with Some show ?thesis by simp
qed

definition search_end :: "u32 \<Rightarrow> dir_entry \<Rightarrow> path_search_record \<Rightarrow> fs \<Rightarrow> (u32 \<times> path_search_record \<times> fs) res" where
  "search_end parent_inode_no dir_e rec s =
     rbind (dir_close (parent_dir rec) s) (\<lambda>s. rbind (dir_open parent_inode_no s) (\<lambda>(d, s).
     Inr (e_i_no dir_e, rec\<lparr>parent_dir := d, file_type := FT_DIRECTORY\<rparr>, s)))"

text \<open>Entering the directory an entry names: the number of the directory left, and the record.\<close>

definition enter_dir :: "dir_entry \<Rightarrow> path_search_record \<Rightarrow> fs \<Rightarrow> (u32 \<times> path_search_record \<times> fs) res" where
  "enter_dir dir_e rec s =
     rbind (get_dir (parent_dir rec) s) (\<lambda>d. rbind (get_inode (dir_inode d) s) (\<lambda>i.
     rbind (dir_close (parent_dir rec) s) (\<lambda>s. rbind (dir_open (e_i_no dir_e) s) (\<lambda>(d', s).
     Inr (i_no i, rec\<lparr>parent_dir := d'\<rparr>, s)))))"

function search_loop :: "str option \<Rightarrow> str \<Rightarrow> u32 \<Rightarrow> dir_entry \<Rightarrow> path_search_record \<Rightarrow> fs
    \<Rightarrow> (u32 \<times> path_search_record \<times> fs) res" where
  "search_loop sub_path name parent_inode_no dir_e rec s =
     (if name ! 0 = 0 then search_end parent_inode_no dir_e rec s
      else rbind (c_assert (length (searched_path rec) < 512)) (\<lambda>_.
           rbind (buf_string name) (\<lambda>nm.
           rbind (path_cat (searched_path rec) (ascii ''/'')) (\<lambda>path. rbind (path_cat path nm) (\<lambda>path.
           let rec = rec\<lparr>searched_path := path\<rparr>
           in rbind (search_dir_entry (parent_dir rec) nm s) (\<lambda>found.
              case fst found of None \<Rightarrow> Inr (- 1, rec, snd found)
              | Some e \<Rightarrow>
                rbind (next_name sub_path (clear_name name)) (\<lambda>nx.
                if f_type e = FT_DIRECTORY
                then rbind (enter_dir e rec (snd found)) (\<lambda>x.
                     search_loop (fst nx) (snd nx) (fst x) e (fst (snd x)) (snd (snd x)))
                else if f_type e = FT_REGULAR then Inr (e_i_no e, rec\<lparr>file_type := FT_REGULAR\<rparr>, snd found)
                else search_loop (fst nx) (snd nx) parent_inode_no e rec (snd found))))))))"
  by pat_completeness auto

termination search_loop
  by (relation "measure (\<lambda>(p, name, _). left_len p + of_bool (name ! 0 \<noteq> 0))")
     (auto dest!: next_name_less)

declare search_loop.simps [simp del]

definition search_file :: "junk \<Rightarrow> str \<Rightarrow> fs \<Rightarrow> (u32 \<times> path_search_record \<times> fs) res" where
  "search_file J pathname s =
     (if pathname \<in> {ascii ''/'', ascii ''/.'', ascii ''/..''}
      then Inr (0, \<lparr>searched_path = [], parent_dir = root_dir s, file_type = FT_DIRECTORY\<rparr>, s)
      else rbind (c_assert (pathname \<noteq> [] \<and> pathname ! 0 = slash \<and> length pathname > 1 \<and> length pathname < MAX_PATH_LEN)) (\<lambda>_.
           rbind (path_parse pathname (replicate MAX_PATH_LEN 0)) (\<lambda>(sub_path, name).
           search_loop sub_path name 0 (junk_entry J)
             \<lparr>searched_path = [], parent_dir = root_dir s, file_type = FT_UNKNOWN\<rparr> s)))"

section \<open>Files\<close>

text \<open>\<^verbatim>\<open>strrchr(path, '/') + 1\<close> for a path with a slash.\<close>

definition base_name :: "str \<Rightarrow> str" where
  "base_name path = drop (last_slash path + 1) path"

definition fail_close :: "path_search_record \<Rightarrow> fs \<Rightarrow> (u32 \<times> fs) res" where
  "fail_close rec s = rbind (dir_close (parent_dir rec) s) (\<lambda>s. Inr (- 1, s))"

definition sys_open :: "junk \<Rightarrow> str \<Rightarrow> u32 \<Rightarrow> fs \<Rightarrow> (u32 \<times> fs) res" where
  "sys_open J pathname flags s =
     rbind (aread pathname (length pathname - 1)) (\<lambda>c.
     if c = slash then Inr (- 1, s)
     else rbind (c_assert (flags \<le> 7)) (\<lambda>_.
          rbind (path_depth_cnt (junk_name J) pathname) (\<lambda>path_depth.
          rbind (search_file J pathname s) (\<lambda>(inode_no, rec, s).
          let found = (inode_no \<noteq> - 1) in
          if file_type rec = FT_DIRECTORY then fail_close rec s
          else rbind (path_depth_cnt (junk_name J) (searched_path rec)) (\<lambda>path_searched_depth.
               if path_searched_depth \<noteq> path_depth then fail_close rec s
               else if \<not> found \<and> flags AND O_CREAT = 0 then fail_close rec s
               else if found \<and> flags AND O_CREAT \<noteq> 0 then fail_close rec s
               else if flags AND O_CREAT \<noteq> 0
               then rbind (file_create (parent_dir rec) (base_name pathname) flags s) (\<lambda>(fd, s).
                    rbind (dir_close (parent_dir rec) s) (\<lambda>s. Inr (fd, s)))
               else file_open inode_no flags s)))))"

definition fd_local2global :: "u32 \<Rightarrow> fs \<Rightarrow> nat res" where
  "fd_local2global fd_local s =
     rbind (aread (thread_fds s) (unat fd_local)) (\<lambda>global_fd.
     rbind (c_assert (0 \<le> sint global_fd \<and> sint global_fd < 32)) (\<lambda>_. Inr (unat global_fd)))"

definition sys_close :: "u32 \<Rightarrow> fs \<Rightarrow> (u32 \<times> fs) res" where
  "sys_close fd s =
     (if 2 < sint fd
      then rbind (fd_local2global fd s) (\<lambda>global_fd. rbind (file_close global_fd s) (\<lambda>(ret, s).
           Inr (ret, s\<lparr>thread_fds := (thread_fds s)[unat fd := - 1]\<rparr>)))
      else Inr (- 1, s))"

text \<open>
  The text for the console is the second result; \<^verbatim>\<open>tmp_buf\<close> has 1024 bytes, and its last one must
  stay 0 for \<^verbatim>\<open>console_put_str\<close> to stop.
\<close>

definition sys_write :: "u32 \<Rightarrow> str \<Rightarrow> fs \<Rightarrow> (u32 \<times> str \<times> fs) res" where
  "sys_write fd buf s =
     (if sint fd < 0 then Inr (- 1, [], s)
      else if fd = 1
      then rbind (put_bytes (replicate 1024 0) 0 buf) (\<lambda>tmp_buf. rbind (buf_string tmp_buf) (\<lambda>out.
           Inr (of_nat (length buf), out, s)))
      else rbind (fd_local2global fd s) (\<lambda>k. rbind (get_file k s) (\<lambda>wr_file.
           if for_writing (fd_flag wr_file) then rbind (file_write k buf s) (\<lambda>(n, s). Inr (n, [], s))
           else Inr (- 1, ascii ''sys_write: not allowed to write file without flag O_WRONLY or O_RDWR\<newline>'', s))))"

text \<open>\<open>keys\<close> are the characters the keyboard queue delivers.\<close>

definition sys_read :: "u32 \<Rightarrow> u32 \<Rightarrow> str \<Rightarrow> fs \<Rightarrow> (u32 \<times> str \<times> fs) res" where
  "sys_read fd count keys s =
     (if sint fd < 0 \<or> fd = 1 \<or> fd = 2 then Inr (- 1, [], s)
      else if fd = 0
      then rbind (guard Hang (unat count \<le> length keys)) (\<lambda>_.
           Inr (if count = 0 then - 1 else count, take (unat count) keys, s))
      else rbind (fd_local2global fd s) (\<lambda>k. file_read k count s))"

definition sys_lseek :: "u32 \<Rightarrow> u32 \<Rightarrow> u8 \<Rightarrow> fs \<Rightarrow> (u32 \<times> fs) res" where
  "sys_lseek fd offset whence s =
     (if sint fd < 0 then Inr (- 1, s)
      else rbind (c_assert (0 < whence \<and> whence < 4)) (\<lambda>_.
           rbind (fd_local2global fd s) (\<lambda>k. rbind (get_file k s) (\<lambda>f. rbind (get_inode (fd_inode f) s) (\<lambda>i.
           let file_size = i_size i;
               new_pos = (if whence = 1 then offset else if whence = 2 then fd_pos f + offset else file_size + offset)
           in if new_pos <s 0 \<or> file_size + 1 <s new_pos then Inr (- 1, s)
              else Inr (new_pos, set_file k (f\<lparr>fd_pos := new_pos\<rparr>) s))))))"

fun in_use :: "u32 \<Rightarrow> open_file list \<Rightarrow> fs \<Rightarrow> bool res" where
  "in_use inode_no [] s = Inr False"
| "in_use inode_no (f # fs) s =
     (if fd_inode f \<noteq> 0
      then rbind (get_inode (fd_inode f) s) (\<lambda>i. if i_no i = inode_no then Inr True else in_use inode_no fs s)
      else in_use inode_no fs s)"

definition sys_unlink :: "junk \<Rightarrow> str \<Rightarrow> fs \<Rightarrow> (u32 \<times> fs) res" where
  "sys_unlink J pathname s =
     rbind (search_file J pathname s) (\<lambda>(inode_no, rec, s).
     rbind (c_assert (inode_no \<noteq> 0)) (\<lambda>_.
     if inode_no = - 1 then fail_close rec s
     else if file_type rec = FT_DIRECTORY then fail_close rec s
     else rbind (in_use inode_no (file_table s) s) (\<lambda>used.
          if used then fail_close rec s
          else let (_, s) = fs_malloc s
               in rbind (delete_dir_entry (parent_dir rec) inode_no s) (\<lambda>(_, s).
                  rbind (inode_release inode_no s) (\<lambda>s.
                  rbind (dir_close (parent_dir rec) s) (\<lambda>s. Inr (0, s)))))))"

section \<open>Directories\<close>

text \<open>The sector of a new directory: its entries for itself and for its parent.\<close>

definition dot_entries :: "u32 \<Rightarrow> u32 \<Rightarrow> u8 list" where
  "dot_entries self parent =
     splice (splice (replicate 512 0) 0 (encode_dir_entry
         \<lparr>filename = ascii ''.'' @ replicate 15 0, e_i_no = self, f_type = FT_DIRECTORY\<rparr>))
       24 (encode_dir_entry \<lparr>filename = ascii ''..'' @ replicate 14 0, e_i_no = parent, f_type = FT_DIRECTORY\<rparr>)"

definition mkdir_rollback :: "path_search_record \<Rightarrow> u32 \<Rightarrow> fs \<Rightarrow> (u32 \<times> fs) res" where
  "mkdir_rollback rec inode_no s = rbind (rollback_1 inode_no s) (\<lambda>(_, s). fail_close rec s)"

text \<open>Steps 2 to 6 of \<^verbatim>\<open>sys_mkdir\<close>: making the directory in the parent found.\<close>

definition make_dir :: "path_search_record \<Rightarrow> fs \<Rightarrow> (u32 \<times> fs) res" where
  "make_dir rec s =
     rbind (inode_bitmap_alloc s) (\<lambda>(r, s).
     case r of None \<Rightarrow> fail_close rec s
     | Some inode_no \<Rightarrow>
       rbind (block_bitmap_alloc s) (\<lambda>(r, s).
       case r of None \<Rightarrow> mkdir_rollback rec inode_no s
       | Some block_lba \<Rightarrow>
         rbind (bitmap_sync (block_lba - data_start_lba (part_sb s)) BLOCK_BITMAP s) (\<lambda>s.
         rbind (get_dir (parent_dir rec) s) (\<lambda>d. rbind (get_inode (dir_inode d) s) (\<lambda>parent_inode.
         rbind (disk_write block_lba (dot_entries inode_no (i_no parent_inode)) 1 s) (\<lambda>s.
         let new_dir_inode = (inode_init inode_no)
               \<lparr>i_sectors := (replicate 13 0)[0 := block_lba], i_size := 2 * dir_entry_size (part_sb s)\<rparr>
         in rbind (create_dir_entry (base_name (searched_path rec)) inode_no (ucast FT_DIRECTORY)) (\<lambda>new_dir_entry.
            rbind (sync_dir_entry (parent_dir rec) new_dir_entry s) (\<lambda>(ok, s).
            if \<not> ok then mkdir_rollback rec inode_no s
            else rbind (get_inode (dir_inode d) s) (\<lambda>parent_inode.
                 rbind (inode_sync parent_inode s) (\<lambda>s.
                 rbind (inode_sync new_dir_inode s) (\<lambda>s.
                 rbind (bitmap_sync inode_no INODE_BITMAP s) (\<lambda>s.
                 rbind (dir_close (parent_dir rec) s) (\<lambda>s. Inr (0, s))))))))))))))"

definition sys_mkdir :: "junk \<Rightarrow> str \<Rightarrow> fs \<Rightarrow> (u32 \<times> fs) res" where
  "sys_mkdir J pathname s =
     (let (io_buf, s) = fs_malloc s
      in if io_buf = 0 then Inr (- 1, s)
         else rbind (search_file J pathname s) (\<lambda>(inode_no, rec, s).
              if inode_no \<noteq> - 1 then fail_close rec s
              else rbind (path_depth_cnt (junk_name J) pathname) (\<lambda>pathname_depth.
                   rbind (path_depth_cnt (junk_name J) (searched_path rec)) (\<lambda>path_searched_depth.
                   if pathname_depth \<noteq> path_searched_depth then fail_close rec s
                   else make_dir rec s))))"

definition sys_opendir :: "junk \<Rightarrow> str \<Rightarrow> fs \<Rightarrow> (u32 \<times> fs) res" where
  "sys_opendir J name s =
     rbind (c_assert (length name < MAX_PATH_LEN)) (\<lambda>_.
     if name \<noteq> [] \<and> name ! 0 = slash \<and> (length name = 1 \<or> name ! 1 = 46) then Inr (root_dir s, s)
     else rbind (search_file J name s) (\<lambda>(inode_no, rec, s).
          rbind (if inode_no \<noteq> - 1 \<and> file_type rec = FT_DIRECTORY then dir_open inode_no s else Inr (0, s)) (\<lambda>(ret, s).
          rbind (dir_close (parent_dir rec) s) (\<lambda>s. Inr (ret, s)))))"

definition sys_closedir :: "u32 \<Rightarrow> fs \<Rightarrow> (u32 \<times> fs) res" where
  "sys_closedir p s = (if p \<noteq> 0 then rbind (dir_close p s) (\<lambda>s. Inr (0, s)) else Inr (- 1, s))"

definition sys_readdir :: "u32 \<Rightarrow> fs \<Rightarrow> (dir_entry option \<times> fs) res" where
  "sys_readdir p s = rbind (c_assert (p \<noteq> 0)) (\<lambda>_. dir_read p s)"

definition sys_rewinddir :: "u32 \<Rightarrow> fs \<Rightarrow> fs res" where
  "sys_rewinddir p s = rbind (get_dir p s) (\<lambda>d. Inr (set_dir p (d\<lparr>dir_pos := 0\<rparr>) s))"

definition sys_rmdir :: "junk \<Rightarrow> str \<Rightarrow> fs \<Rightarrow> (u32 \<times> fs) res" where
  "sys_rmdir J pathname s =
     rbind (search_file J pathname s) (\<lambda>(inode_no, rec, s).
     rbind (c_assert (inode_no \<noteq> 0)) (\<lambda>_.
     rbind (if inode_no = - 1 \<or> file_type rec = FT_REGULAR then Inr (- 1, s)
            else rbind (dir_open inode_no s) (\<lambda>(d, s).
                 rbind (dir_is_empty d s) (\<lambda>empty.
                 rbind (if \<not> empty then Inr (- 1, s)
                        else rbind (dir_remove (parent_dir rec) d s) (\<lambda>(ok, s). Inr (if ok then 0 else - 1, s))) (\<lambda>(ret, s).
                 rbind (dir_close d s) (\<lambda>s. Inr (ret, s)))))) (\<lambda>(ret, s).
     rbind (dir_close (parent_dir rec) s) (\<lambda>s. Inr (ret, s)))))"

section \<open>The working directory\<close>

definition get_parent_dir_inode_nr :: "u32 \<Rightarrow> fs \<Rightarrow> (u32 \<times> fs) res" where
  "get_parent_dir_inode_nr child_inode_nr s =
     rbind (inode_open child_inode_nr s) (\<lambda>(p, s). rbind (get_inode p s) (\<lambda>i.
     let block_lba = i_sectors i ! 0
     in rbind (c_assert (block_lba \<ge> data_start_lba (part_sb s))) (\<lambda>_.
        rbind (inode_close p s) (\<lambda>s.
        rbind (disk_read block_lba 1 s) (\<lambda>io_buf. rbind (entry_at io_buf 1) (\<lambda>e.
        rbind (c_assert (e_i_no e < 4096 \<and> f_type e = FT_DIRECTORY)) (\<lambda>_. Inr (e_i_no e, s))))))))"

fun find_child :: "u8 list \<Rightarrow> u32 \<Rightarrow> nat list \<Rightarrow> str option res" where
  "find_child buf c_inode_nr [] = Inr None"
| "find_child buf c_inode_nr (k # ks) =
     rbind (entry_at buf k) (\<lambda>e.
     if e_i_no e = c_inode_nr then rbind (buf_string (drop (24 * k) buf)) (\<lambda>name. Inr (Some name))
     else find_child buf c_inode_nr ks)"

fun child_in_blocks :: "u32 \<Rightarrow> nat \<Rightarrow> u32 list \<Rightarrow> fs \<Rightarrow> str option res" where
  "child_in_blocks c_inode_nr cnt [] s = Inr None"
| "child_in_blocks c_inode_nr cnt (b # bs) s =
     (if b \<noteq> 0
      then rbind (disk_read b 1 s) (\<lambda>buf. rbind (find_child buf c_inode_nr [0..<cnt]) (\<lambda>r.
           case r of Some name \<Rightarrow> Inr (Some name) | None \<Rightarrow> child_in_blocks c_inode_nr cnt bs s))
      else child_in_blocks c_inode_nr cnt bs s)"

text \<open>\<open>None\<close> is \<open>-1\<close>; otherwise \<open>path\<close> with the slash and the name behind it.\<close>

definition get_child_dir_name :: "u32 \<Rightarrow> u32 \<Rightarrow> str \<Rightarrow> fs \<Rightarrow> (str option \<times> fs) res" where
  "get_child_dir_name p_inode_nr c_inode_nr path s =
     rbind (inode_open p_inode_nr s) (\<lambda>(p, s). rbind (get_inode p s) (\<lambda>i.
     rbind (all_blocks i s) (\<lambda>blocks. rbind (inode_close p s) (\<lambda>s.
     rbind (entries_per_sec s) (\<lambda>cnt. rbind (child_in_blocks c_inode_nr cnt blocks s) (\<lambda>r.
     case r of None \<Rightarrow> Inr (None, s)
     | Some name \<Rightarrow>
         rbind (path_cat path (ascii ''/'')) (\<lambda>path. rbind (path_cat path name) (\<lambda>path. Inr (Some path, s)))))))))"

lemma get_child_longer:
  "get_child_dir_name a b path s = Inr (Some path', s') \<Longrightarrow> length path < length path' \<and> length path' < 512"
  by (auto simp: get_child_dir_name_def rbind_Inr_iff path_cat_def MAX_PATH_LEN_def ascii_def split: option.splits)

text \<open>The walk up to the root, with the names appended in reverse order; the buffer bounds it.\<close>

function climb :: "u32 \<Rightarrow> str \<Rightarrow> fs \<Rightarrow> (str option \<times> fs) res" where
  "climb child_inode_nr path s =
     (if child_inode_nr = 0 then Inr (Some path, s)
      else rbind (get_parent_dir_inode_nr child_inode_nr s) (\<lambda>x.
           rbind (get_child_dir_name (fst x) child_inode_nr path (snd x)) (\<lambda>y.
           case fst y of None \<Rightarrow> Inr (None, snd y) | Some path \<Rightarrow> climb (fst x) path (snd y))))"
  by pat_completeness auto

termination climb
  by (relation "measure (\<lambda>(_, path, _). 512 - length path)") (auto dest!: get_child_longer intro: diff_less_mono2)

text \<open>The names from the last one on.\<close>

function unreverse :: "str \<Rightarrow> str \<Rightarrow> str" where
  "unreverse full buf =
     (if slash \<in> set full then unreverse (take (last_slash full) full) (buf @ drop (last_slash full) full) else buf)"
  by pat_completeness auto

termination unreverse
  by (relation "measure (\<lambda>(full, _). length full)") (auto simp: last_slash_def length_pos_if_in_set intro: diff_less)

declare climb.simps [simp del] unreverse.simps [simp del]

definition sys_getcwd :: "u32 \<Rightarrow> fs \<Rightarrow> (str option \<times> fs) res" where
  "sys_getcwd sz s =
     (let (io_buf, s) = fs_malloc s
      in if io_buf = 0 then Inr (None, s)
         else let child_inode_nr = thread_cwd s
              in rbind (c_assert (0 \<le> sint child_inode_nr \<and> sint child_inode_nr < 4096)) (\<lambda>_.
                 if child_inode_nr = 0 then Inr (Some (ascii ''/''), s)
                 else rbind (climb child_inode_nr [] s) (\<lambda>(r, s).
                      case r of None \<Rightarrow> Inr (None, s)
                      | Some full_path_reverse \<Rightarrow>
                          rbind (c_assert (length full_path_reverse \<le> unat sz)) (\<lambda>_.
                          rbind (guard Out_of_bounds (length full_path_reverse < unat sz)) (\<lambda>_.
                          Inr (Some (unreverse full_path_reverse []), s))))))"

definition sys_chdir :: "junk \<Rightarrow> str \<Rightarrow> fs \<Rightarrow> (u32 \<times> fs) res" where
  "sys_chdir J path s =
     rbind (search_file J path s) (\<lambda>(inode_no, rec, s).
     let (ret, s) = (if inode_no \<noteq> - 1 \<and> file_type rec = FT_DIRECTORY then (0, s\<lparr>thread_cwd := inode_no\<rparr>) else (- 1, s))
     in rbind (dir_close (parent_dir rec) s) (\<lambda>s. Inr (ret, s)))"

record stat =
  st_ino :: u32
  st_size :: u32
  st_filetype :: u32

definition sys_stat :: "junk \<Rightarrow> str \<Rightarrow> fs \<Rightarrow> (stat option \<times> fs) res" where
  "sys_stat J path s =
     (if path \<in> {ascii ''/'', ascii ''/.'', ascii ''/..''}
      then rbind (get_dir (root_dir s) s) (\<lambda>d. rbind (get_inode (dir_inode d) s) (\<lambda>i.
           Inr (Some \<lparr>st_ino = 0, st_size = i_size i, st_filetype = FT_DIRECTORY\<rparr>, s)))
      else rbind (search_file J path s) (\<lambda>(inode_no, rec, s).
           if inode_no \<noteq> - 1
           then rbind (inode_open inode_no s) (\<lambda>(p, s). rbind (get_inode p s) (\<lambda>i.
                rbind (inode_close p s) (\<lambda>s.
                Inr (Some \<lparr>st_ino = inode_no, st_size = i_size i, st_filetype = file_type rec\<rparr>, s))))
           else Inr (None, s)))"

section \<open>Making and mounting a file system\<close>

definition BITS_PER_SECTOR :: u32 where "BITS_PER_SECTOR = 4096"
definition round_up :: "u32 \<Rightarrow> u32 \<Rightarrow> u32" where "round_up x y = (x + y - 1) div y"

text \<open>The super block \<^verbatim>\<open>partition_format\<close> computes for a partition, and the number of data blocks.\<close>

definition block_bitmap_bit_len :: "partition \<Rightarrow> u32" where
  "block_bitmap_bit_len part =
     (let used_sectors = 1 + 1 + round_up MAX_FILES_PER_PART BITS_PER_SECTOR + round_up (sizeof_inode * MAX_FILES_PER_PART) SECTOR_SIZE;
          free_sectors = sec_cnt part - used_sectors
      in free_sectors - round_up free_sectors BITS_PER_SECTOR)"

definition new_super_block :: "partition \<Rightarrow> super_block" where
  "new_super_block part =
     (let bsects = round_up (block_bitmap_bit_len part) BITS_PER_SECTOR;
          isects = round_up MAX_FILES_PER_PART BITS_PER_SECTOR;
          tsects = round_up (sizeof_inode * MAX_FILES_PER_PART) SECTOR_SIZE;
          base = start_lba part
      in \<lparr>magic = 0x12345678, sb_sec_cnt = sec_cnt part, inode_cnt = MAX_FILES_PER_PART, part_lba_base = base,
          block_bitmap_lba = base + 2, block_bitmap_sects = bsects,
          inode_bitmap_lba = base + 2 + bsects, inode_bitmap_sects = isects,
          inode_table_lba = base + 2 + bsects + isects, inode_table_sects = tsects,
          data_start_lba = base + 2 + bsects + isects + tsects, root_inode_no = 0, dir_entry_size = 24\<rparr>)"

text \<open>
  The first block bitmap: block 0 used, the bits of the last sector behind the last block set,
  except that the loop clears one bit more than there are blocks.
\<close>

definition new_block_bitmap :: "nat \<Rightarrow> nat \<Rightarrow> u8 list res" where
  "new_block_bitmap buf_size bit_len =
     (let last_byte = bit_len div 8; last_bit = bit_len mod 8; last_size = 512 - last_byte mod 512
      in rbind (guard Out_of_bounds (last_byte + last_size \<le> buf_size)) (\<lambda>_.
         let buf = splice ((replicate buf_size 0)[0 := 1]) last_byte (replicate last_size 0xff)
         in Inr (buf[last_byte := buf ! last_byte AND NOT (mask (last_bit + 1))])))"

definition partition_format :: "partition \<Rightarrow> fs \<Rightarrow> fs res" where
  "partition_format part s =
     (let b = new_super_block part;
          most = max (max (block_bitmap_sects b) (inode_bitmap_sects b)) (inode_table_sects b);
          buf_size = unat (most * SECTOR_SIZE);
          root = (inode_init 0)\<lparr>i_size := dir_entry_size b * 2, i_sectors := (replicate 13 0)[0 := data_start_lba b]\<rparr>
      in rbind (disk_write (start_lba part + 1) (encode_super_block b) 1 s) (\<lambda>s.
         let (_, s) = fs_malloc s
         in rbind (new_block_bitmap buf_size (unat (block_bitmap_bit_len part))) (\<lambda>buf.
            rbind (disk_write (block_bitmap_lba b) buf (block_bitmap_sects b) s) (\<lambda>s.
            rbind (disk_write (inode_bitmap_lba b) ((replicate buf_size 0)[0 := 1]) (inode_bitmap_sects b) s) (\<lambda>s.
            rbind (disk_write (inode_table_lba b) (splice (replicate buf_size 0) 0 (encode_inode root)) (inode_table_sects b) s) (\<lambda>s.
            disk_write (data_start_lba b) (dot_entries 0 0) 1 s))))))"

definition mount_partition :: "partition \<Rightarrow> fs \<Rightarrow> fs res" where
  "mount_partition part s =
     (let (_, s) = fs_malloc s; (sb_p, s) = fs_malloc s
      in rbind (guard Panic (sb_p \<noteq> 0)) (\<lambda>_.
         rbind (disk_read (start_lba part + 1) 1 s) (\<lambda>sb_buf.
         let b = decode_super_block sb_buf; (bits1, s) = fs_malloc s
         in rbind (guard Panic (bits1 \<noteq> 0)) (\<lambda>_.
            rbind (disk_read (block_bitmap_lba b) (block_bitmap_sects b) s) (\<lambda>bb.
            let (bits2, s) = fs_malloc s
            in rbind (guard Panic (bits2 \<noteq> 0)) (\<lambda>_.
               rbind (disk_read (inode_bitmap_lba b) (inode_bitmap_sects b) s) (\<lambda>ib.
               Inr (s\<lparr>cur_part := partition.extend part (fs_part.fields b
                   \<lparr>btmp_bytes_len = unat (block_bitmap_sects b * SECTOR_SIZE), bits = bb\<rparr>
                   \<lparr>btmp_bytes_len = unat (inode_bitmap_sects b * SECTOR_SIZE), bits = ib\<rparr> [])\<rparr>))))))))"

text \<open>The partitions of one disk: those without a file system get one.\<close>

fun format_all :: "partition list \<Rightarrow> fs \<Rightarrow> fs res" where
  "format_all [] s = Inr s"
| "format_all (part # parts) s =
     rbind (if sec_cnt part \<noteq> 0
            then rbind (disk_read (start_lba part + 1) 1 s) (\<lambda>sb_buf.
                 if magic (decode_super_block sb_buf) = 0x12345678 then Inr s else partition_format part s)
            else Inr s) (format_all parts)"

text \<open>
  \<^verbatim>\<open>filesys_init\<close> for the disk whose partitions are \<open>parts\<close>: the one named \<^verbatim>\<open>sdb1\<close> is mounted. Without
  it, \<^verbatim>\<open>cur_part\<close> stays NULL.
\<close>

definition filesys_init :: "partition list \<Rightarrow> fs \<Rightarrow> fs res" where
  "filesys_init parts s =
     (let (sb_buf, s) = fs_malloc s
      in rbind (guard Panic (sb_buf \<noteq> 0)) (\<lambda>_.
         rbind (format_all parts s) (\<lambda>s.
         case find (\<lambda>p. c_string (part_name p) = ascii ''sdb1'') parts of
           None \<Rightarrow> Inl Out_of_bounds
         | Some part \<Rightarrow>
             rbind (mount_partition part s) (\<lambda>s. rbind (open_root_dir s) (\<lambda>s.
             Inr (s\<lparr>file_table := map (\<lambda>f. f\<lparr>fd_inode := 0\<rparr>) (file_table s)\<rparr>))))))"

end
