(* ===== verification/Shell.thy ===== *)
theory Shell
  imports Fs
begin

text \<open>
  \<^verbatim>\<open>shell/shell.c\<close> and \<^verbatim>\<open>shell/buildin_cmd.c\<close>: reading and parsing a command line and the built-in
  commands, on the system calls of \<open>Fs\<close>. A command returns its result, what it prints, and the
  state of the file system; \<open>\<^verbatim>\<open>printf\<close>\<close> is \<open>Stdio.printf\<close>. \<open>args\<close> is \<^verbatim>\<open>argv[0..<argc]\<close>.
\<close>

section \<open>The command line\<close>

text \<open>
  The loop of \<^verbatim>\<open>readline\<close> on the characters typed: a character is stored before the index is
  compared, so the index \<^verbatim>\<open>count\<close> is written too. \<open>prompt\<close> is what \<^verbatim>\<open>print_prompt\<close> prints; clearing the
  screen is the character 12 of the output. Running out of characters is waiting for ever.
\<close>

fun readline_loop :: "nat \<Rightarrow> str \<Rightarrow> str \<Rightarrow> nat \<Rightarrow> str \<Rightarrow> str \<Rightarrow> (str \<times> str \<times> str) res" where
  "readline_loop count prompt [] pos buf out = Inl Hang"
| "readline_loop count prompt (c # keys) pos buf out =
     rbind (awrite buf pos c) (\<lambda>buf.
     if count \<le> pos
     then Inr (buf, out @ ascii ''readline: can't find enter_key in the cmd_line,max num of char is 128\<newline>'', keys)
     else if c = 10 \<or> c = 13 then Inr (buf[pos := 0], out @ [10], keys)
     else if c = 8
     then if buf ! 0 \<noteq> 8 then readline_loop count prompt keys (pos - 1) buf (out @ [8])
          else readline_loop count prompt keys pos buf out
     else if c = 11
     then rbind (buf_string (buf[pos := 0])) (\<lambda>line.
          readline_loop count prompt keys pos (buf[pos := 0]) (out @ [12] @ prompt @ line))
     else if c = 20
     then readline_loop count prompt keys 0 (map (\<lambda>i. if 0 < i \<and> i \<le> pos then 0 else buf ! i) [0..<length buf])
            (out @ replicate pos 8)
     else readline_loop count prompt keys (pos + 1) buf (out @ [c]))"

definition readline :: "nat \<Rightarrow> str \<Rightarrow> str \<Rightarrow> (str \<times> str \<times> str) res" where
  "readline count prompt keys =
     rbind (c_assert (count > 0)) (\<lambda>_. readline_loop count prompt keys 0 (replicate count 0) [])"

definition MAX_ARG_NR :: nat where "MAX_ARG_NR = 16"

text \<open>
  \<^verbatim>\<open>cmd_parse\<close>: the arguments of the line \<open>next\<close>; \<open>argc\<close> of them have been stored. The array has
  \<^verbatim>\<open>MAX_ARG_NR\<close> elements, and storing comes before the check.
\<close>

function cmd_parse_from :: "str \<Rightarrow> u8 \<Rightarrow> nat \<Rightarrow> str list option res" where
  "cmd_parse_from next token argc =
     (let next = dropWhile (\<lambda>c. c = token) next
      in if next = [] then Inr (Some [])
         else rbind (guard Out_of_bounds (argc < MAX_ARG_NR)) (\<lambda>_.
              if argc > MAX_ARG_NR then Inr None
              else rbind (cmd_parse_from (drop 1 (dropWhile (\<lambda>c. c \<noteq> token) next)) token (argc + 1)) (\<lambda>r.
                   Inr (map_option (\<lambda>args. takeWhile (\<lambda>c. c \<noteq> token) next # args) r))))"
  by pat_completeness auto

lemma arg_shorter:
  assumes "dropWhile (\<lambda>c. c = token) next \<noteq> []"
  shows "length (drop 1 (dropWhile (\<lambda>c. c \<noteq> token) (dropWhile (\<lambda>c. c = token) next))) < length next"
proof -
  let ?q = "dropWhile (\<lambda>c. c = token) next"
  have "hd ?q \<noteq> token" using hd_dropWhile [OF assms] by simp
  then have "length (dropWhile (\<lambda>c. c \<noteq> token) ?q) < length ?q"
    using assms by (cases ?q) (simp_all add: length_dropWhile_le less_Suc_eq_le)
  also have "\<dots> \<le> length next" by (rule length_dropWhile_le)
  finally show ?thesis by simp
qed

termination cmd_parse_from
  by (relation "measure (\<lambda>(next, _, _). length next)") (simp, simp only: in_measure split, rule arg_shorter)

declare cmd_parse_from.simps [simp del]

definition cmd_parse :: "str \<Rightarrow> u8 \<Rightarrow> str list option res" where
  "cmd_parse cmd_str token = cmd_parse_from cmd_str token 0"

section \<open>The built-in commands\<close>

abbreviation text_out :: "string \<Rightarrow> va list \<Rightarrow> str res" where
  "text_out format args \<equiv> rbind (printf (ascii format) args) (\<lambda>(_, out). Inr out)"

text \<open>An absolute clean path for an argument; \<^verbatim>\<open>getcwd\<close> is asked only for a relative one.\<close>

definition clear_abs_path :: "str \<Rightarrow> fs \<Rightarrow> (str \<times> fs) res" where
  "clear_abs_path path s =
     rbind (if path \<noteq> [] \<and> path ! 0 = slash then Inr (None, s) else sys_getcwd (of_nat MAX_PATH_LEN) s) (\<lambda>(cwd, s).
     rbind (make_clear_abs_path cwd path) (\<lambda>final_path. Inr (final_path, s)))"

definition buildin_pwd :: "str list \<Rightarrow> fs \<Rightarrow> (str \<times> fs) res" where
  "buildin_pwd args s =
     (if length args \<noteq> 1 then rbind (text_out ''pwd: no argument support!\<newline>'' []) (\<lambda>out. Inr (out, s))
      else rbind (sys_getcwd (of_nat MAX_PATH_LEN) s) (\<lambda>(r, s).
           case r of Some final_path \<Rightarrow> rbind (text_out ''%s\<newline>'' [Ptr final_path]) (\<lambda>out. Inr (out, s))
           | None \<Rightarrow> rbind (text_out ''pwd: get current working directory failed.\<newline>'' []) (\<lambda>out. Inr (out, s))))"

definition buildin_cd :: "junk \<Rightarrow> str list \<Rightarrow> fs \<Rightarrow> (str option \<times> str \<times> fs) res" where
  "buildin_cd J args s =
     (if length args > 2 then rbind (text_out ''cd: only support 1 argument!\<newline>'' []) (\<lambda>out. Inr (None, out, s))
      else rbind (if length args = 1 then Inr (ascii ''/'', s) else rbind (aread args 1) (\<lambda>a. clear_abs_path a s)) (\<lambda>(final_path, s).
           rbind (sys_chdir J final_path s) (\<lambda>(ret, s).
           if ret = - 1
           then rbind (text_out ''cd: no succh directory %s\<newline>'' [Ptr final_path]) (\<lambda>out. Inr (None, out, s))
           else Inr (Some final_path, [], s))))"

text \<open>The three commands that pass one path to a system call: \<open>call\<close>, with the text for a failure.\<close>

definition path_cmd :: "string \<Rightarrow> string \<Rightarrow> (str \<Rightarrow> fs \<Rightarrow> (u32 \<times> fs) res) \<Rightarrow> str list \<Rightarrow> fs \<Rightarrow> (u32 \<times> str \<times> fs) res" where
  "path_cmd usage failed call args s =
     (if length args \<noteq> 2 then rbind (text_out usage []) (\<lambda>out. Inr (- 1, out, s))
      else rbind (aread args 1) (\<lambda>a. rbind (clear_abs_path a s) (\<lambda>(final_path, s).
           if final_path = ascii ''/'' then Inr (- 1, [], s)
           else rbind (call final_path s) (\<lambda>(ret, s).
                if ret = 0 then Inr (0, [], s)
                else rbind (text_out failed [Ptr a]) (\<lambda>out. Inr (- 1, out, s))))))"

definition buildin_mkdir :: "junk \<Rightarrow> str list \<Rightarrow> fs \<Rightarrow> (u32 \<times> str \<times> fs) res" where
  "buildin_mkdir J = path_cmd ''mkdir: only support one argument!\<newline>'' ''mkdir: create directory %s failed.\<newline>'' (sys_mkdir J)"

definition buildin_rmdir :: "junk \<Rightarrow> str list \<Rightarrow> fs \<Rightarrow> (u32 \<times> str \<times> fs) res" where
  "buildin_rmdir J = path_cmd ''rmdir: only support one argument!\<newline>'' ''rmdir: remove directory %s failed.\<newline>'' (sys_rmdir J)"

definition buildin_rm :: "junk \<Rightarrow> str list \<Rightarrow> fs \<Rightarrow> (u32 \<times> str \<times> fs) res" where
  "buildin_rm J = path_cmd ''rm: only support one argument!\<newline>'' ''rm: delete file %s failed.\<newline>'' (sys_unlink J)"

text \<open>The options and the path of \<^verbatim>\<open>ls\<close>, or the text to print instead.\<close>

fun ls_args :: "str list \<Rightarrow> bool \<Rightarrow> str option \<Rightarrow> ((bool \<times> str option) + (string \<times> va list))" where
  "ls_args [] long path = Inl (long, path)"
| "ls_args (a # args) long path =
     (if a \<noteq> [] \<and> a ! 0 = chr (CHR ''-'')
      then if a = ascii ''-l'' then ls_args args True path
           else if a = ascii ''-h''
           then Inr (''usage: -l list all information about the file.\<newline>       -h for help\<newline>       list all files in the current direcotry if no option\<newline>'', [])
           else Inr (''ls: invalid option %s\<newline>Try 'ls -h' for more information.\<newline>'', [Ptr a])
      else case path of None \<Rightarrow> ls_args args long (Some a) | Some _ \<Rightarrow> Inr (''ls: only support one path\<newline>'', []))"

text \<open>The name of an entry in the buffer of its directory.\<close>

definition entry_name :: "dir_entry \<Rightarrow> str" where
  "entry_name e = c_string (encode_dir_entry e)"

text \<open>The two loops over the entries; there are at most as many as the directory has bytes.\<close>

fun ls_short :: "nat \<Rightarrow> u32 \<Rightarrow> str \<Rightarrow> fs \<Rightarrow> (str \<times> fs) res" where
  "ls_short 0 d out s = Inl Hang"
| "ls_short (Suc n) d out s =
     rbind (sys_readdir d s) (\<lambda>(r, s).
     case r of None \<Rightarrow> Inr (out, s)
     | Some e \<Rightarrow> rbind (text_out ''%s '' [Ptr (entry_name e)]) (\<lambda>t. ls_short n d (out @ t) s))"

fun ls_long :: "nat \<Rightarrow> junk \<Rightarrow> u32 \<Rightarrow> str \<Rightarrow> str \<Rightarrow> fs \<Rightarrow> (bool \<times> str \<times> fs) res" where
  "ls_long 0 J d path out s = Inl Hang"
| "ls_long (Suc n) J d path out s =
     rbind (sys_readdir d s) (\<lambda>(r, s).
     case r of None \<Rightarrow> Inr (True, out, s)
     | Some e \<Rightarrow>
         rbind (path_cat path (entry_name e)) (\<lambda>sub_pathname.
         rbind (sys_stat J sub_pathname s) (\<lambda>(st, s).
         case st of
           None \<Rightarrow> rbind (text_out ''ls: cannot access %s: No such file or directory\<newline>'' [Ptr (entry_name e)]) (\<lambda>t.
                   Inr (False, out @ t, s))
         | Some st \<Rightarrow>
             rbind (text_out ''%c   %d   %d   %s\<newline>''
               [Word (ucast (chr (if f_type e = FT_REGULAR then CHR ''-'' else CHR ''d''))), Word (e_i_no e), Word (st_size st),
                Ptr (entry_name e)]) (\<lambda>t. ls_long n J d path (out @ t) s))))"

definition ls_dir :: "junk \<Rightarrow> bool \<Rightarrow> str \<Rightarrow> stat \<Rightarrow> fs \<Rightarrow> (str \<times> fs) res" where
  "ls_dir J long pathname st s =
     rbind (sys_opendir J pathname s) (\<lambda>(d, s).
     rbind (if last pathname = slash then Inr pathname else path_cat pathname (ascii ''/'')) (\<lambda>sub_pathname.
     rbind (sys_rewinddir d s) (\<lambda>s.
     if long
     then rbind (text_out ''total: %d\<newline>'' [Word (st_size st)]) (\<lambda>out.
          rbind (ls_long (Suc (unat (st_size st))) J d sub_pathname out s) (\<lambda>(ok, out, s).
          if \<not> ok then Inr (out, s) else rbind (sys_closedir d s) (\<lambda>(_, s). Inr (out, s))))
     else rbind (ls_short (Suc (unat (st_size st))) d [] s) (\<lambda>(out, s).
          rbind (text_out ''\<newline>'' []) (\<lambda>t. rbind (sys_closedir d s) (\<lambda>(_, s). Inr (out @ t, s)))))))"

definition buildin_ls :: "junk \<Rightarrow> str list \<Rightarrow> fs \<Rightarrow> (str \<times> fs) res" where
  "buildin_ls J args s =
     (case ls_args (drop 1 args) False None of
        Inr (format, va) \<Rightarrow> rbind (text_out format va) (\<lambda>out. Inr (out, s))
      | Inl (long, path) \<Rightarrow>
          rbind (case path of
                   None \<Rightarrow> sys_getcwd (of_nat MAX_PATH_LEN) s
                 | Some a \<Rightarrow> rbind (clear_abs_path a s) (\<lambda>(p, s). Inr (Some p, s))) (\<lambda>(p, s).
          case p of
            None \<Rightarrow> rbind (text_out ''ls: getcwd for default path failed\<newline>'' []) (\<lambda>out. Inr (out, s))
          | Some pathname \<Rightarrow>
              rbind (sys_stat J pathname s) (\<lambda>(st, s).
              case st of
                None \<Rightarrow> rbind (text_out ''fs: cannot access %s: No such file or directory\<newline>'' [Ptr pathname]) (\<lambda>out. Inr (out, s))
              | Some st \<Rightarrow>
                  if st_filetype st = FT_DIRECTORY then ls_dir J long pathname st s
                  else if long
                  then rbind (text_out ''-   %d   %d   %s\<newline>'' [Word (st_ino st), Word (st_size st), Ptr pathname]) (\<lambda>out. Inr (out, s))
                  else rbind (text_out ''%s\<newline>'' [Ptr pathname]) (\<lambda>out. Inr (out, s)))))"

section \<open>The shell\<close>

text \<open>
  What one round of \<^verbatim>\<open>my_shell\<close> does with a command line: a built-in command, or \<^verbatim>\<open>fork\<close>, after which
  the parent loops for ever and the child executes the program. \<open>Done\<close> carries the working
  directory shown in the prompt.
\<close>

datatype round =
  Done str str
| Kernel_ps
| Kernel_clear
| Child_execs str "str list"

definition round_of :: "junk \<Rightarrow> str \<Rightarrow> str list \<Rightarrow> fs \<Rightarrow> (round \<times> fs) res" where
  "round_of J cwd_cache args s =
     rbind (aread args 0) (\<lambda>cmd.
     if cmd = ascii ''ls'' then rbind (buildin_ls J args s) (\<lambda>(out, s). Inr (Done cwd_cache out, s))
     else if cmd = ascii ''cd''
     then rbind (buildin_cd J args s) (\<lambda>(r, out, s).
          Inr (Done (case r of None \<Rightarrow> cwd_cache | Some final_path \<Rightarrow> final_path) out, s))
     else if cmd = ascii ''pwd'' then rbind (buildin_pwd args s) (\<lambda>(out, s). Inr (Done cwd_cache out, s))
     else if cmd = ascii ''ps''
     then if length args \<noteq> 1 then rbind (text_out ''ps: no argument support!\<newline>'' []) (\<lambda>out. Inr (Done cwd_cache out, s))
          else Inr (Kernel_ps, s)
     else if cmd = ascii ''clear''
     then if length args \<noteq> 1 then rbind (text_out ''clear: no argument support!\<newline>'' []) (\<lambda>out. Inr (Done cwd_cache out, s))
          else Inr (Kernel_clear, s)
     else if cmd = ascii ''mkdir'' then rbind (buildin_mkdir J args s) (\<lambda>(_, out, s). Inr (Done cwd_cache out, s))
     else if cmd = ascii ''rmdir'' then rbind (buildin_rmdir J args s) (\<lambda>(_, out, s). Inr (Done cwd_cache out, s))
     else if cmd = ascii ''rm'' then rbind (buildin_rm J args s) (\<lambda>(_, out, s). Inr (Done cwd_cache out, s))
     else rbind (clear_abs_path cmd s) (\<lambda>(final_path, s).
          rbind (sys_stat J final_path s) (\<lambda>(st, s).
          case st of
            None \<Rightarrow> rbind (text_out ''my_shell: cannot access %s: No such file or directory\<newline>'' [Ptr final_path]) (\<lambda>out. Inl Hang)
          | Some _ \<Rightarrow> Inr (Child_execs final_path (final_path # drop 1 args), s))))"

definition my_shell_round :: "junk \<Rightarrow> str \<Rightarrow> str \<Rightarrow> fs \<Rightarrow> (round \<times> fs) res" where
  "my_shell_round J cwd_cache cmd_line s =
     (if cmd_line = [] then Inr (Done cwd_cache [], s)
      else rbind (cmd_parse cmd_line (chr (CHR '' ''))) (\<lambda>r.
           case r of
             None \<Rightarrow> rbind (text_out ''num of arguments exceed %d\<newline>'' [Word (of_nat MAX_ARG_NR)]) (\<lambda>out. Inr (Done cwd_cache out, s))
           | Some args \<Rightarrow> round_of J cwd_cache args s))"

definition print_prompt :: "str \<Rightarrow> str res" where
  "print_prompt cwd_cache = text_out ''[lance@localhost %s]$ '' [Ptr cwd_cache]"

end
