(* ===== verification/Exec.thy ===== *)
theory Exec
  imports Fs Process Ioqueue
begin

text \<open>
  \<^verbatim>\<open>userprog/exec.c\<close>: loading an ELF file into the memory of the running process and starting it,
  on the files of \<open>Fs\<close> and the pages of \<open>Malloc\<close>; and \<^verbatim>\<open>sys_ps\<close> of \<^verbatim>\<open>thread/thread.c\<close>.

  The headers are read into byte buffers, and their fields are the words at the offsets of the C
  structures. The bytes of a segment go to memory through the page tables, one by one.
\<close>

section \<open>Headers\<close>

definition sizeof_Elf32_Ehdr :: nat where "sizeof_Elf32_Ehdr = 52"
definition sizeof_Elf32_Phdr :: nat where "sizeof_Elf32_Phdr = 32"

record Elf32_Ehdr =
  e_ident :: "u8 list"
  e_type :: u16
  e_machine :: u16
  e_version :: u32
  e_entry :: u32
  e_phoff :: u32
  e_shoff :: u32
  e_flags :: u32
  e_ehsize :: u16
  e_phentsize :: u16
  e_phnum :: u16
  e_shentsize :: u16
  e_shnum :: u16
  e_shstrndx :: u16

definition decode_Elf32_Ehdr :: "u8 list \<Rightarrow> Elf32_Ehdr" where
  "decode_Elf32_Ehdr b =
     \<lparr>e_ident = piece_of b 0 16, e_type = get16 b 16, e_machine = get16 b 18, e_version = get32 b 20,
      e_entry = get32 b 24, e_phoff = get32 b 28, e_shoff = get32 b 32, e_flags = get32 b 36,
      e_ehsize = get16 b 40, e_phentsize = get16 b 42, e_phnum = get16 b 44, e_shentsize = get16 b 46,
      e_shnum = get16 b 48, e_shstrndx = get16 b 50\<rparr>"

record Elf32_Phdr =
  p_type :: u32
  p_offset :: u32
  p_vaddr :: u32
  p_paddr :: u32
  p_filesz :: u32
  p_memsz :: u32
  p_flags :: u32
  p_align :: u32

definition decode_Elf32_Phdr :: "u8 list \<Rightarrow> Elf32_Phdr" where
  "decode_Elf32_Phdr b =
     \<lparr>p_type = get32 b 0, p_offset = get32 b 4, p_vaddr = get32 b 8, p_paddr = get32 b 12,
      p_filesz = get32 b 16, p_memsz = get32 b 20, p_flags = get32 b 24, p_align = get32 b 28\<rparr>"

definition PT_LOAD :: u32 where "PT_LOAD = 1"

section \<open>Loading\<close>

definition store_byte :: "u32 \<Rightarrow> u8 \<Rightarrow> 'a vm_scheme \<Rightarrow> 'a vm_scheme res" where
  "store_byte a b s =
     (let w = a AND NOT 3; i = unat (a AND 3) in
      rbind (load w s) (\<lambda>x. store w (of_le32 ((le32 x)[i := b])) s))"

primrec store_bytes :: "u32 \<Rightarrow> u8 list \<Rightarrow> 'a vm_scheme \<Rightarrow> 'a vm_scheme res" where
  "store_bytes a [] s = Inr s"
| "store_bytes a (b # bs) s = rbind (store_byte a b s) (store_bytes (a + 1) bs)"

text \<open>
  The loop over the pages of a segment. The entries it looks at are those of \<^verbatim>\<open>vaddr\<close>, the address
  of the segment, for every page; the table entry is read only when the directory entry is present.
\<close>

primrec segment_pages :: "pool_locks \<Rightarrow> u32 \<Rightarrow> u32 \<Rightarrow> nat \<Rightarrow> u32 \<Rightarrow> kernel \<Rightarrow> (bool option \<times> kernel) res" where
  "segment_pages L ret vaddr 0 vaddr_page k = Inr (Some True, k)"
| "segment_pages L ret vaddr (Suc n) vaddr_page k =
     rbind (load (pde_ptr vaddr) k) (\<lambda>pde.
     rbind (if pde AND 1 = 0 then Inr True else rbind (load (pte_ptr vaddr) k) (\<lambda>pte. Inr (pte AND 1 = 0))) (\<lambda>absent.
     if absent
     then wbind (get_a_page L ret PF_USER vaddr_page k) (\<lambda>p k.
          if p = 0 then Inr (Some False, k) else segment_pages L ret vaddr n (vaddr_page + PG_SIZE) k)
     else segment_pages L ret vaddr n (vaddr_page + PG_SIZE) k))"

definition occupy_pages :: "u32 \<Rightarrow> u32 \<Rightarrow> nat" where
  "occupy_pages filesz vaddr =
     (let size_in_first_page = PG_SIZE - (vaddr AND 0xfff) in
      if filesz > size_in_first_page
      then unat ((filesz - size_in_first_page + PG_SIZE - 1) div PG_SIZE + 1) else 1)"

text \<open>The result is \<open>None\<close> when a page has to wait for the lock of the pool; \<open>s\<close> is the file system.\<close>

definition segment_load :: "pool_locks \<Rightarrow> u32 \<Rightarrow> u32 \<Rightarrow> u32 \<Rightarrow> u32 \<Rightarrow> u32 \<Rightarrow> fs \<Rightarrow> kernel
    \<Rightarrow> ((bool \<times> fs) option \<times> kernel) res" where
  "segment_load L ret fd offset filesz vaddr s k =
     wbind (segment_pages L ret vaddr (occupy_pages filesz vaddr) (vaddr AND 0xfffff000) k) (\<lambda>ok k.
     if \<not> ok then Inr (Some (False, s), k)
     else rbind (sys_lseek fd offset 1 s) (\<lambda>(_, s).
          rbind (sys_read fd filesz [] s) (\<lambda>(_, bytes, s).
          rbind (store_bytes vaddr bytes k) (\<lambda>k. Inr (Some (True, s), k)))))"

text \<open>The loop over the program headers.\<close>

primrec load_segments :: "pool_locks \<Rightarrow> u32 \<Rightarrow> u32 \<Rightarrow> u32 \<Rightarrow> nat \<Rightarrow> u32 \<Rightarrow> fs \<Rightarrow> kernel
    \<Rightarrow> ((bool \<times> fs) option \<times> kernel) res" where
  "load_segments L ret fd prog_header_size 0 prog_header_offset s k = Inr (Some (True, s), k)"
| "load_segments L ret fd prog_header_size (Suc n) prog_header_offset s k =
     rbind (sys_lseek fd prog_header_offset 1 s) (\<lambda>(_, s).
     rbind (sys_read fd prog_header_size [] s) (\<lambda>(r, bytes, s).
     if r \<noteq> prog_header_size then Inr (Some (False, s), k)
     else let prog_header = decode_Elf32_Phdr bytes in
          if p_type prog_header = PT_LOAD
          then wbind (segment_load L ret fd (p_offset prog_header) (p_filesz prog_header) (p_vaddr prog_header) s k)
                 (\<lambda>(ok, s) k.
               if \<not> ok then Inr (Some (False, s), k)
               else load_segments L ret fd prog_header_size n (prog_header_offset + prog_header_size) s k)
          else load_segments L ret fd prog_header_size n (prog_header_offset + prog_header_size) s k))"

definition elf_ok :: "Elf32_Ehdr \<Rightarrow> bool" where
  "elf_ok h \<longleftrightarrow> take 7 (e_ident h) = [0x7f] @ ascii ''ELF'' @ [1, 1, 1] \<and> e_type h = 2 \<and> e_machine h = 3
     \<and> e_version h = 1 \<and> e_phnum h \<le> 1024 \<and> e_phentsize h = of_nat sizeof_Elf32_Phdr"

definition load_image :: "pool_locks \<Rightarrow> u32 \<Rightarrow> u32 \<Rightarrow> fs \<Rightarrow> kernel \<Rightarrow> ((u32 \<times> fs) option \<times> kernel) res" where
  "load_image L ret fd s k =
     rbind (sys_read fd (of_nat sizeof_Elf32_Ehdr) [] s) (\<lambda>(r, bytes, s).
     if r \<noteq> of_nat sizeof_Elf32_Ehdr then Inr (Some (- 1, s), k)
     else let elf_header = decode_Elf32_Ehdr bytes in
          if \<not> elf_ok elf_header then Inr (Some (- 1, s), k)
          else wbind (load_segments L ret fd (ucast (e_phentsize elf_header)) (unat (e_phnum elf_header))
                       (e_phoff elf_header) s k) (\<lambda>(ok, s) k.
               Inr (Some (if ok then e_entry elf_header else - 1, s), k)))"

definition O_RDONLY :: u32 where "O_RDONLY = 0"

text \<open>\<^verbatim>\<open>load\<close>: a file that cannot be opened gives 1, everything else that fails gives -1.\<close>

definition load_program :: "junk \<Rightarrow> pool_locks \<Rightarrow> u32 \<Rightarrow> str \<Rightarrow> fs \<Rightarrow> kernel \<Rightarrow> ((u32 \<times> fs) option \<times> kernel) res" where
  "load_program J L ret name s k =
     rbind (sys_open J name O_RDONLY s) (\<lambda>(fd, s).
     if fd = - 1 then Inr (Some (1, s), k)
     else wbind (load_image L ret fd s k) (\<lambda>(r, s) k.
          rbind (sys_close fd s) (\<lambda>(_, s). Inr (Some (r, s), k))))"

text \<open>
  \<^verbatim>\<open>sys_execv\<close>: \<open>path\<close> is the memory the pointer \<^verbatim>\<open>path\<close> leads to, of which 16 bytes are copied into the
  name. The result is -1, or 0 with the stack pointer at the frame \<^verbatim>\<open>intr_exit\<close> leaves the kernel with.
\<close>

definition TASK_NAME_LEN :: nat where "TASK_NAME_LEN = 16"

definition sys_execv :: "junk \<Rightarrow> links \<Rightarrow> u32 \<Rightarrow> str \<Rightarrow> u32 \<Rightarrow> nat \<Rightarrow> fs \<Rightarrow> kernel
    \<Rightarrow> ((u32 \<times> fs) option \<times> kernel) res" where
  "sys_execv J K ret path argv argc s k =
     wbind (load_program J (pools K) ret (c_string path) s k) (\<lambda>(entry_point, s) k.
     if entry_point = - 1 then Inr (Some (- 1, s), k)
     else rbind (guard Out_of_bounds (TASK_NAME_LEN \<le> length path)) (\<lambda>_.
          let cur = running_thread k;
              k = upd_task cur (\<lambda>t. t\<lparr>task_name := c_string (take (TASK_NAME_LEN - 1) path @ [0])\<rparr>) k;
              intr_0_stack = cur + PG_SIZE - sizeof_intr_stack;
              k = poke (intr_0_stack + 20) argv k;
              k = poke (intr_0_stack + 28) (of_nat argc) k;
              k = poke (intr_0_stack + 56) entry_point k;
              k = poke (intr_0_stack + 68) 0xc0000000 k
          in Inr (Some (0, s), k\<lparr>esp := intr_0_stack, eip := intr_exit K\<rparr>)))"

section \<open>The list of the tasks\<close>

text \<open>What \<^verbatim>\<open>sys_write(stdout_no, buf, count)\<close> prints.\<close>

definition stdout_write :: "str \<Rightarrow> str res" where
  "stdout_write text = rbind (put_bytes (replicate 1024 0) 0 text) buf_string"

definition pad_print :: "string \<Rightarrow> va \<Rightarrow> str res" where
  "pad_print format arg =
     rbind (sprintf (replicate 16 0) (ascii format) [arg]) (\<lambda>(n, line).
     stdout_write (take 15 (take n line @ replicate (16 - n) (chr (CHR '' '')))))"

definition status_name :: "task_status \<Rightarrow> string" where
  "status_name st = (case st of TASK_RUNNING \<Rightarrow> ''RUNNING'' | TASK_READY \<Rightarrow> ''READY'' | TASK_BLOCKED \<Rightarrow> ''BLOCKED''
     | TASK_WAITING \<Rightarrow> ''WAITING'' | TASK_HANGING \<Rightarrow> ''HANGING'' | TASK_DIED \<Rightarrow> ''DIED'')"

definition thread_line :: "task_struct \<Rightarrow> str res" where
  "thread_line t =
     rbind (pad_print ''%d'' (Word (scast (pid t)))) (\<lambda>a.
     rbind (if parent_pid t = - 1 then pad_print ''%s'' (Ptr (ascii ''NULL''))
            else pad_print ''%d'' (Word (scast (parent_pid t)))) (\<lambda>b.
     rbind (pad_print ''%s'' (Ptr (ascii (status_name (status t))))) (\<lambda>c.
     rbind (pad_print ''%x'' (Word (elapsed_ticks t))) (\<lambda>d.
     rbind (c_assert (length (task_name t) < 17)) (\<lambda>_.
     rbind (put_bytes (replicate 16 0) 0 (task_name t)) (\<lambda>out_pad.
     rbind (put_bytes out_pad (length (task_name t)) [10, 0]) (\<lambda>out_pad.
     rbind (buf_string out_pad) (\<lambda>line.
     rbind (stdout_write line) (\<lambda>e. Inr (a @ b @ c @ d @ e))))))))))"

text \<open>What has been printed is a part of the state the callback of \<^verbatim>\<open>list_traversal\<close> works on.\<close>

record ps_kernel = kernel +
  printed :: "str res"

definition elem2thread_info :: "u32 \<Rightarrow> ps_kernel \<Rightarrow> bool \<times> ps_kernel" where
  "elem2thread_info pelem s =
     (False, s\<lparr>printed := rbind (printed s) (\<lambda>out. rbind (thread_line (tasks s (pelem - 76))) (\<lambda>line. Inr (out @ line)))\<rparr>)"

definition sys_ps :: "ps_kernel \<Rightarrow> str res" where
  "sys_ps s =
     rbind (stdout_write (ascii ''PID             PPID            STAT            TICKS            COMMAND\<newline>'')) (\<lambda>title.
     rbind (list_traversal (thread_all_list s) elem2thread_info (s\<lparr>printed := Inr title\<rparr>)) (\<lambda>(_, s). printed s))"

section \<open>Two small system calls\<close>

text \<open>The pid is signed, 16 bits wide, and extended to the result.\<close>

definition sys_getpid :: "kernel \<Rightarrow> u32" where
  "sys_getpid s = scast (pid (tasks s (running_thread s)))"

definition sys_putchar :: "u32 \<Rightarrow> u8 \<Rightarrow> u32 \<Rightarrow> u8 list \<Rightarrow> kernel \<Rightarrow> (u8 list option \<times> kernel) res" where
  "sys_putchar console_lock char_ascii ret out k = console_put_char console_lock char_ascii ret out k"

end
