(* ===== verification/Partitions.thy ===== *)
theory Partitions
  imports Ide
begin

text \<open>
  The scan of the partition tables of \<^verbatim>\<open>device/ide.c\<close> comes to an end: printing always does, every
  entry of a table is looked at once, and the chain of extended partitions is followed as far as the
  disk has one. The model of the scan (\<open>Ide\<close>) has fuel for that chain; here the fuel is shown to be
  no part of the result as soon as it exceeds the length of the chain.
\<close>

section \<open>The list of partitions\<close>

text \<open>What \<^verbatim>\<open>ide_init\<close> prints at its end: \<^verbatim>\<open>partition_info\<close> for each element of the list.\<close>

definition partition_info :: "partition \<Rightarrow> str res" where
  "partition_info part =
     printk (ascii ''  %s start_lba:0x%x, sec_cnt:0x%x\<newline>'')
       [Ptr (c_string (part_name part)), Word (start_lba part), Word (sec_cnt part)]"

fun partition_infos :: "partition list \<Rightarrow> str res" where
  "partition_infos [] = Inr []"
| "partition_infos (part # parts) =
     rbind (partition_info part) (\<lambda>out. rbind (partition_infos parts) (\<lambda>outs. Inr (out @ outs)))"

section \<open>Printing ends\<close>

lemma itoa_ends: "base \<noteq> 0 \<Longrightarrow> base \<noteq> 1 \<Longrightarrow> itoa v base \<noteq> Inl Hang"
proof (induction v base rule: itoa.induct)
  case (1 v base)
  then show ?case by (subst itoa.simps) (auto simp: rbind_def Let_def split: sum.splits)
qed

text \<open>What is sequenced from steps that end, ends.\<close>

lemma rbind_Hang [simp]: "rbind m f = Inl Hang \<longleftrightarrow> m = Inl Hang \<or> (\<exists>x. m = Inr x \<and> f x = Inl Hang)"
  by (cases m) auto

lemma access_ends [simp]:
  "guard e b = Inl Hang \<longleftrightarrow> e = Hang \<and> \<not> b" "c_assert b \<noteq> Inl Hang" "aread xs i \<noteq> Inl Hang"
  by (simp_all add: guard_def aread_def)

lemma put_bytes_ends [simp]: "put_bytes buf pos bs \<noteq> Inl Hang"
  by (auto simp: put_bytes_def)

lemma va_ends [simp]: "va_word ap \<noteq> Inl Hang" "va_str ap \<noteq> Inl Hang"
  by (cases ap rule: va_word.cases, simp_all) (cases ap rule: va_str.cases, simp_all)

lemma vs_ends [simp]:
  "vs_str buf pos s \<noteq> Inl Hang" "vs_digits buf pos w 10 \<noteq> Inl Hang" "vs_digits buf pos w 16 \<noteq> Inl Hang"
  "vs_int buf pos w \<noteq> Inl Hang"
  by (auto simp: vs_str_def vs_digits_def vs_int_def itoa_ends)

lemma vsprintf_loop_ends [simp]: "vsprintf_loop format ap pos buf \<noteq> Inl Hang"
  by (induction format ap pos buf rule: vsprintf_loop.induct) (auto split: list.splits)

lemma sprintf_ends [simp]: "sprintf buf format args \<noteq> Inl Hang"
  by (auto simp: sprintf_def vsprintf_def buf_strlen_def)

lemma partition_infos_ends: "partition_infos parts \<noteq> Inl Hang"
  by (induction parts) (auto simp: partition_info_def printk_def vsprintf_def buf_strlen_def)

section \<open>One table\<close>

lemma add_part_ends: "add_prim p l s \<noteq> Inl Hang" "add_logic p l s \<noteq> Inl Hang"
  by (auto simp: add_prim_def add_logic_def fill_part_def Let_def)

text \<open>What the scan keeps: the channel is idle, and the drive \<open>n\<close> has the sectors \<open>M\<close>.\<close>

definition scanning :: "'d view \<Rightarrow> u16 \<Rightarrow> u8 \<Rightarrow> (u32 \<Rightarrow> u8 list) \<Rightarrow> u32 \<Rightarrow> 'd scan \<Rightarrow> bool" where
  "scanning V b n M base s \<longleftrightarrow> idle_channel V (chan s) \<and> port_base (chan s) = b \<and> snd (disk_id (scan_disk s)) = n \<and>
     media V (device (chan s)) (n = 1) = M \<and> ext_lba_base s = base"

lemma add_part_scanning:
  assumes "scanning V b n M base s"
  shows "returns (scanning V b n M base) (add_prim p l s)" "returns (scanning V b n M base) (add_logic p l s)"
  using assms unfolding add_prim_def add_logic_def Let_def
  by (auto intro!: returns_rbind_any simp: scanning_def)

text \<open>An entry of an extended partition.\<close>

definition extended :: "u8 list \<Rightarrow> nat \<Rightarrow> bool" where
  "extended bs i \<longleftrightarrow> fs_type (table_entry bs i) = 0x5"

text \<open>Two ways to go on from the states with \<open>P\<close> that end with the same result, one with \<open>Q\<close>.\<close>

definition agree :: "('s \<Rightarrow> bool) \<Rightarrow> ('t \<Rightarrow> bool) \<Rightarrow> ('s \<Rightarrow> 't res) \<Rightarrow> ('s \<Rightarrow> 't res) \<Rightarrow> bool" where
  "agree P Q f g \<longleftrightarrow> (\<forall>s. P s \<longrightarrow> f s \<noteq> Inl Hang \<and> returns Q (f s) \<and> g s = f s)"

lemma agreeI: "(\<And>s. P s \<Longrightarrow> f s \<noteq> Inl Hang \<and> returns Q (f s) \<and> g s = f s) \<Longrightarrow> agree P Q f g"
  by (simp add: agree_def)

lemma agreeD: "agree P Q f g \<Longrightarrow> P s \<Longrightarrow> f s \<noteq> Inl Hang \<and> returns Q (f s) \<and> g s = f s"
  by (simp add: agree_def)

lemma agree_weaken: "agree P Q f g \<Longrightarrow> (\<And>s. Q s \<Longrightarrow> Q' s) \<Longrightarrow> agree P Q' f g"
  by (fastforce simp: agree_def returns_def)

lemma agree_rbind:
  assumes "m' \<noteq> Inl Hang \<and> returns P m' \<and> m = m'" and "agree P Q f g"
  shows "rbind m' f \<noteq> Inl Hang \<and> returns Q (rbind m' f) \<and> rbind m g = rbind m' f"
  using assms by (cases m') (auto simp: agree_def)

lemma part_step:
  assumes s: "scanning V b n M base s" and Q: "\<And>s. scanning V b n M base s \<Longrightarrow> Q s"
    and IH: "agree (scanning V b n M base) Q (scan_entries f l bs is) (scan_entries g l bs is)"
    and p: "fs_type (table_entry bs i) \<noteq> 5" "fs_type (table_entry bs i) \<noteq> 0"
  shows "scan_entries f l bs (i # is) s \<noteq> Inl Hang \<and> returns Q (scan_entries f l bs (i # is) s) \<and>
    scan_entries g l bs (i # is) s = scan_entries f l bs (i # is) s"
proof -
  let ?p = "table_entry bs i" and ?h = "\<lambda>k s. if l_no s \<ge> 8 then Inr s else scan_entries k l bs is s"
  note pr = add_part_ends [of ?p l s] add_part_scanning [OF s, of ?p l]
  have h: "agree (scanning V b n M base) Q (?h f) (?h g)" using IH Q by (auto simp: agree_def)
  show ?thesis
  proof (cases "l = 0")
    case True
    then show ?thesis using agree_rbind [of "add_prim ?p l s" _ "add_prim ?p l s", OF _ IH] p pr
      by (simp add: Let_def del: rbind_Hang)
  next
    case False
    then show ?thesis using agree_rbind [of "add_logic ?p l s" _ "add_logic ?p l s", OF _ h] p pr
      by (simp add: Let_def del: rbind_Hang)
  qed
qed

text \<open>A table whose extended partitions are relative to the base.\<close>

lemma scan_entries_agree:
  assumes P: "P = scanning V b n M base" and base: "base \<noteq> 0"
    and "\<And>i. i \<in> set is \<Longrightarrow> extended bs i \<Longrightarrow>
      agree P P (f (entry_start (table_entry bs i) + base)) (g (entry_start (table_entry bs i) + base))"
  shows "agree P P (scan_entries f l bs is) (scan_entries g l bs is)"
  using assms(3)
proof (induction "is")
  case Nil
  then show ?case by (simp add: agree_def)
next
  case (Cons i "is")
  let ?p = "table_entry bs i"
  have IH: "agree P P (scan_entries f l bs is) (scan_entries g l bs is)" using Cons by simp
  show ?case
  proof (rule agreeI)
    fix s assume s: "P s"
    then have e: "ext_lba_base s = base" by (simp add: P scanning_def)
    consider (ext) "fs_type ?p = 5" | (part) "fs_type ?p \<noteq> 5" "fs_type ?p \<noteq> 0" | (none) "fs_type ?p = 0" by blast
    then show "scan_entries f l bs (i # is) s \<noteq> Inl Hang \<and> returns P (scan_entries f l bs (i # is) s) \<and>
        scan_entries g l bs (i # is) s = scan_entries f l bs (i # is) s"
    proof cases
      case ext
      then have "agree P P (f (entry_start ?p + base)) (g (entry_start ?p + base))"
        using Cons.prems [of i] by (simp add: extended_def)
      from agree_rbind [OF agreeD [OF this s] IH] show ?thesis using ext e base by (simp add: Let_def)
    next
      case part
      from part_step [OF s [unfolded P] _ IH [unfolded P] part] show ?thesis unfolding P by blast
    next
      case none
      then show ?thesis using agreeD [OF IH s] by simp
    qed
  qed
qed

text \<open>The first table: its first extended partition sets the base.\<close>

lemma first_table_agree:
  assumes P: "P = scanning V b n M base" and Q: "\<And>e s. scanning V b n M e s \<Longrightarrow> Q s"
    and "\<And>i js. filter (extended bs) is = i # js \<Longrightarrow> entry_start (table_entry bs i) = base \<and> base \<noteq> 0 \<and>
      agree P P (f base) (g base) \<and>
      (\<forall>j \<in> set js. agree P P (f (entry_start (table_entry bs j) + base)) (g (entry_start (table_entry bs j) + base)))"
  shows "agree (scanning V b n M 0) Q (scan_entries f l bs is) (scan_entries g l bs is)"
  using assms(3)
proof (induction "is")
  case Nil
  then show ?case by (auto simp: agree_def intro: Q)
next
  case (Cons i "is")
  let ?p = "table_entry bs i"
  show ?case
  proof (rule agreeI)
    fix s assume s: "scanning V b n M 0 s"
    then have e: "ext_lba_base s = 0" by (simp add: scanning_def)
    consider (ext) "fs_type ?p = 5" | (part) "fs_type ?p \<noteq> 5" "fs_type ?p \<noteq> 0" | (none) "fs_type ?p = 0" by blast
    then show "scan_entries f l bs (i # is) s \<noteq> Inl Hang \<and> returns Q (scan_entries f l bs (i # is) s) \<and>
        scan_entries g l bs (i # is) s = scan_entries f l bs (i # is) s"
    proof cases
      case ext
      then have "filter (extended bs) (i # is) = i # filter (extended bs) is" by (simp add: extended_def)
      note h = Cons.prems [OF this]
      have st: "entry_start ?p = base" and base: "base \<noteq> 0" and f: "agree P P (f base) (g base)" using h by blast+
      have "agree P P (scan_entries f l bs is) (scan_entries g l bs is)"
        by (rule scan_entries_agree [OF P base]) (use h in simp)
      then have r: "agree P Q (scan_entries f l bs is) (scan_entries g l bs is)"
        by (rule agree_weaken) (simp add: P Q)
      have "P (s\<lparr>ext_lba_base := base\<rparr>)" using s by (simp add: P scanning_def)
      from agree_rbind [OF agreeD [OF f this] r] show ?thesis using ext st e by (simp add: Let_def)
    next
      case part
      then have "agree (scanning V b n M 0) Q (scan_entries f l bs is) (scan_entries g l bs is)"
        by (intro Cons.IH Cons.prems) (simp add: extended_def)
      from part_step [OF s Q this part] show ?thesis .
    next
      case none
      then have "agree (scanning V b n M 0) Q (scan_entries f l bs is) (scan_entries g l bs is)"
        by (intro Cons.IH Cons.prems) (simp add: extended_def)
      from agreeD [OF this s] show ?thesis using none by simp
    qed
  qed
qed

section \<open>The chain\<close>

text \<open>
  The base is the start of the first extended partition of the first table. The tables the scan may come to: that one, those the
  other extended partitions of the first table name, and those the extended partitions of such tables name, relative to the base.
\<close>

definition base_of :: "(u32 \<Rightarrow> u8 list) \<Rightarrow> u32" where
  "base_of M = (case filter (extended (M 0)) [0..<4] of [] \<Rightarrow> 0 | i # _ \<Rightarrow> entry_start (table_entry (M 0) i))"

inductive on_chain :: "(u32 \<Rightarrow> u8 list) \<Rightarrow> u32 \<Rightarrow> bool" for M where
  first: "filter (extended (M 0)) [0..<4] = i # js \<Longrightarrow> on_chain M (base_of M)"
| other: "filter (extended (M 0)) [0..<4] = i # js \<Longrightarrow> j \<in> set js \<Longrightarrow> on_chain M (entry_start (table_entry (M 0) j) + base_of M)"
| further: "on_chain M l \<Longrightarrow> i < 4 \<Longrightarrow> extended (M l) i \<Longrightarrow> on_chain M (entry_start (table_entry (M l) i) + base_of M)"

lemma read_table:
  assumes "ata_ok A V b" and "scanning V b n M base s"
  shows "ide_read A n l 1 (chan s) = Inl Assertion \<or>
    (\<exists>c. ide_read A n l 1 (chan s) = Inr (M l, c) \<and> scanning V b n M base (s\<lparr>chan := c\<rparr>))"
proof (cases "l \<le> max_lba")
  case True
  then have "unat l + unat (1 :: u32) \<le> 163840" by (simp add: word_le_nat_alt unat_max_lba)
  with ide_read_ok [of A V "chan s" 1 l n] assms show ?thesis by (auto simp: scanning_def)
qed (simp add: ide_read_def)

lemma partition_scan_agree:
  assumes ata: "ata_ok A V b" and P: "P = scanning V b n M (base_of M)" and base: "base_of M \<noteq> 0"
    and chain: "\<And>l i. on_chain M l \<Longrightarrow> i < 4 \<Longrightarrow> extended (M l) i \<Longrightarrow> rank (entry_start (table_entry (M l) i) + base_of M) < rank l"
  shows "on_chain M l \<Longrightarrow> rank l < fuel \<Longrightarrow> rank l < fuel' \<Longrightarrow> agree P P (partition_scan fuel A l) (partition_scan fuel' A l)"
proof (induction fuel arbitrary: l fuel')
  case (Suc fuel)
  from Suc.prems(3) obtain k where k: "fuel' = Suc k" by (cases fuel') auto
  have e: "agree P P (scan_entries (partition_scan fuel A) l (M l) [0..<4]) (scan_entries (partition_scan k A) l (M l) [0..<4])"
  proof (rule scan_entries_agree [OF P base])
    fix i assume i: "i \<in> set [0..<4]" "extended (M l) i"
    let ?t = "entry_start (table_entry (M l) i) + base_of M"
    have t: "on_chain M ?t" "rank ?t < rank l"
      using chain [OF Suc.prems(1) _ i(2)] on_chain.further [OF Suc.prems(1) _ i(2)] i(1) by simp_all
    show "agree P P (partition_scan fuel A ?t) (partition_scan k A ?t)"
      using Suc.prems k t by (intro Suc.IH) auto
  qed
  show ?case
  proof (rule agreeI)
    fix s assume s: "P s"
    have n: "snd (disk_id (scan_disk s)) = n" using s by (simp add: P scanning_def)
    from read_table [OF ata s [unfolded P], of l, folded P]
    show "partition_scan (Suc fuel) A l s \<noteq> Inl Hang \<and> returns P (partition_scan (Suc fuel) A l s) \<and>
        partition_scan fuel' A l s = partition_scan (Suc fuel) A l s"
      using agreeD [OF e] by (auto simp: k n)
  qed
qed simp

text \<open>A table that leads back to its own sector is followed for ever.\<close>

lemma partition_scan_endless:
  assumes "ata_ok A V b" and "base \<noteq> 0" and "l \<le> max_lba"
    and "extended (M l) 0" and "entry_start (table_entry (M l) 0) + base = l"
  shows "scanning V b n M base s \<Longrightarrow> partition_scan fuel A l s = Inl Hang"
proof (induction fuel arbitrary: s)
  case (Suc fuel)
  then have n: "snd (disk_id (scan_disk s)) = n" "ext_lba_base s = base" by (simp_all add: scanning_def)
  have "[0..<4] = 0 # [1..<4]" by (simp add: upt_rec)
  moreover from assms have "unat l + unat (1 :: u32) \<le> 163840" by (simp add: word_le_nat_alt unat_max_lba)
  with ide_read_ok [of A V "chan s" 1 l n] Suc.prems assms(1)
  obtain c where "ide_read A n l 1 (chan s) = Inr (M l, c)" "scanning V b n M base (s\<lparr>chan := c\<rparr>)"
    by (auto simp: scanning_def)
  ultimately show ?case using Suc.IH assms n by (simp add: extended_def Let_def)
qed simp


text \<open>A disk with an extended partition of two tables.\<close>

definition table_sector :: "(u8 \<times> u32) list \<Rightarrow> u8 list" where
  "table_sector ps = replicate 446 0 @ concat (map (\<lambda>(t, st). [0, 0, 0, 0, t, 0, 0, 0] @ le32 st @ le32 1) ps)"

definition chained_media :: "bool \<Rightarrow> u32 \<Rightarrow> u8 list" where
  "chained_media dr l =
     (if l = 0 then table_sector [(0x83, 2), (5, 10)] else if l = 10 then table_sector [(0x83, 1), (5, 5)]
      else if l = 15 then table_sector [(0x83, 1)] else [])"

definition chained_scan :: "sim scan" where
  "chained_scan = \<lparr>scan_disk = \<lparr>disk_name = ascii ''sdb'' @ replicate 5 0, disk_id = (0, 1), prim_parts = replicate 4 no_partition,
       logic_parts = replicate 8 no_partition\<rparr>,
     chan = sim_channel\<lparr>device := (device sim_channel)\<lparr>sim_media := chained_media\<rparr>\<rparr>,
     ext_lba_base = 0, p_no = 0, l_no = 0, partition_list = []\<rparr>"
lemma chained_types:
  "map (\<lambda>i. fs_type (table_entry (pad_media (device (chan chained_scan)) True 0) i)) [0..<4] = [0x83, 5, 0, 0]"
  "map (\<lambda>i. fs_type (table_entry (pad_media (device (chan chained_scan)) True 10) i)) [0..<4] = [0x83, 5, 0, 0]"
  "map (\<lambda>i. fs_type (table_entry (pad_media (device (chan chained_scan)) True 15) i)) [0..<4] = [0x83, 0, 0, 0]"
  "l \<noteq> 0 \<Longrightarrow> l \<noteq> 10 \<Longrightarrow> l \<noteq> 15 \<Longrightarrow> pad_media (device (chan chained_scan)) True l = replicate 512 0"
  by (code_simp, code_simp, code_simp) (simp add: pad_media_def chained_scan_def sim_channel_def chained_media_def)

lemma chained_entries:
  "i < 4 \<Longrightarrow> extended (pad_media (device (chan chained_scan)) True l) i \<Longrightarrow> l = 0 \<and> i = 1 \<or> l = 10 \<and> i = 1"
  "entry_start (table_entry (pad_media (device (chan chained_scan)) True 0) 1) = 10"
  "entry_start (table_entry (pad_media (device (chan chained_scan)) True 10) 1) = 5"
proof -
  let ?M = "pad_media (device (chan chained_scan)) True"
  assume i: "i < 4" and x: "extended (?M l) i"
  then have ext: "map (\<lambda>i. fs_type (table_entry (?M l) i)) [0..<4] ! i = 5" by (simp add: extended_def)
  consider "l = 0" | "l = 10" | "l = 15" | "l \<noteq> 0" "l \<noteq> 10" "l \<noteq> 15" by blast
  then show "l = 0 \<and> i = 1 \<or> l = 10 \<and> i = 1"
  proof cases
    case 4
    then have "fs_type (table_entry (?M l) i) = 0" using i by (simp add: chained_types table_entry_def)
    with x show ?thesis by (simp add: extended_def)
  qed (use ext i in \<open>simp_all only: chained_types\<close>, auto simp: nth_Cons' split: if_splits)
qed (code_simp, code_simp)


end
