(* ===== verification/Fs_Types.thy ===== *)
theory Fs_Types
  imports Fs
begin

text \<open>
  What every operation of the file system keeps: sectors of 512 bytes, bitmaps behind which all
  their bytes lie, inodes with 13 block pointers, the lengths of the descriptor tables, and the
  super block and the root directory of the mounted partition.

  There is a lemma per operation, in the order of the calls. The collection \<open>typed\<close> holds them with
  the rules for sequencing, and the proof of each lemma is its definition and these rules.
\<close>

named_theorems typed

declare seq [typed]

definition fs_typed :: "super_block \<Rightarrow> u32 \<Rightarrow> fs \<Rightarrow> bool" where
  "fs_typed b r s \<longleftrightarrow> disk_ok (disk_data s) \<and> wf_bitmap (block_bitmap (cur_part s)) \<and> wf_bitmap (inode_bitmap (cur_part s))
     \<and> (\<forall>p i. inodes s p = Some i \<longrightarrow> length (i_sectors i) = 13)
     \<and> length (file_table s) = 32 \<and> length (thread_fds s) = 8 \<and> part_sb s = b \<and> root_dir s = r"

section \<open>What holds of a result\<close>

text \<open>The state is the result, or its last component.\<close>

lemma returns_state [typed]:
  "fs_typed b r s \<Longrightarrow> returns (fs_typed b r) (Inr s)"
  "fs_typed b r s \<Longrightarrow> returns (\<lambda>x. fs_typed b r (snd x)) (Inr (y, s))"
  "fs_typed b r s \<Longrightarrow> returns (\<lambda>x. fs_typed b r (snd (snd x))) (Inr (y, z, s))"
  by simp_all

lemma returns_result [typed]:
  "fs_typed b r (snd x) \<Longrightarrow> returns (\<lambda>x. fs_typed b r (snd x)) (Inr x)"
  by simp

lemma typed_get_inode:
  "fs_typed b r s \<Longrightarrow> returns (\<lambda>i. length (i_sectors i) = 13) (get_inode p s)"
  by (auto simp: returns_def fs_typed_def get_inode_def split: option.splits)

lemma typed_bitmap_set:
  "wf_bitmap m \<Longrightarrow> returns wf_bitmap (bitmap_set m k v)"
  by (auto simp: returns_def bitmap_set_def rbind_Inr_iff wf_bitmap_def Let_def)

text \<open>Sequencing, by the type of the first result; the last rule forgets it.\<close>

lemma typed_bind_inode [typed]:
  "fs_typed b r s \<Longrightarrow> (\<And>i. length (i_sectors i) = 13 \<Longrightarrow> returns P (f i)) \<Longrightarrow> returns P (rbind (get_inode p s) f)"
  by (rule returns_rbind [OF typed_get_inode])

lemma typed_bind_bitmap [typed]:
  "fs_typed b r s \<Longrightarrow> (\<And>m. wf_bitmap m \<Longrightarrow> returns P (f m)) \<Longrightarrow> returns P (rbind (bitmap_set (block_bitmap (cur_part s)) k v) f)"
  "fs_typed b r s \<Longrightarrow> (\<And>m. wf_bitmap m \<Longrightarrow> returns P (f m)) \<Longrightarrow> returns P (rbind (bitmap_set (inode_bitmap (cur_part s)) k v) f)"
  by (auto simp: fs_typed_def intro: returns_rbind [OF typed_bitmap_set])

lemma typed_bind [typed]:
  "returns (fs_typed b r) m1 \<Longrightarrow> (\<And>s. fs_typed b r s \<Longrightarrow> returns P (f1 s)) \<Longrightarrow> returns P (rbind m1 f1)"
  "returns (\<lambda>x. fs_typed b r (snd x)) m2 \<Longrightarrow> (\<And>x. fs_typed b r (snd x) \<Longrightarrow> returns P (f2 x)) \<Longrightarrow> returns P (rbind m2 f2)"
  "returns (\<lambda>x. fs_typed b r (snd (snd x))) m3 \<Longrightarrow> (\<And>x. fs_typed b r (snd (snd x)) \<Longrightarrow> returns P (f3 x)) \<Longrightarrow> returns P (rbind m3 f3)"
  by (rule returns_rbind; assumption)+

section \<open>Updates of the state\<close>

lemma typed_updates [typed]:
  "fs_typed b r s \<Longrightarrow> length (i_sectors i) = 13 \<Longrightarrow> fs_typed b r (set_inode p i s)"
  "fs_typed b r s \<Longrightarrow> fs_typed b r (snd (fs_malloc s))"
  "fs_typed b r s \<Longrightarrow> wf_bitmap m \<Longrightarrow> fs_typed b r (upd_part (\<lambda>p. p\<lparr>block_bitmap := m\<rparr>) s)"
  "fs_typed b r s \<Longrightarrow> wf_bitmap m \<Longrightarrow> fs_typed b r (upd_part (\<lambda>p. p\<lparr>inode_bitmap := m\<rparr>) s)"
  "fs_typed b r s \<Longrightarrow> fs_typed b r (set_file k f s)"
  "fs_typed b r s \<Longrightarrow> fs_typed b r (set_dir p d s)"
  "fs_typed b r s \<Longrightarrow> fs_typed b r (upd_part (\<lambda>p. p\<lparr>open_inode := q\<rparr>) s)"
  "fs_typed b r s \<Longrightarrow> fs_typed b r (s\<lparr>dirs := ds\<rparr>)"
  "fs_typed b r s \<Longrightarrow> fs_typed b r (s\<lparr>inodes := (inodes s)(p := None)\<rparr>)"
  "fs_typed b r s \<Longrightarrow> fs_typed b r (s\<lparr>thread_cwd := n\<rparr>)"
  "fs_typed b r s \<Longrightarrow> fs_typed b r (s\<lparr>thread_fds := (thread_fds s)[j := v]\<rparr>)"
  by (auto simp: fs_typed_def set_file_def set_dir_def set_inode_def fs_malloc_def split: list.splits)

lemma typed_sectors [typed]:
  "length xs = 13 \<Longrightarrow> length (i_sectors (i\<lparr>i_sectors := xs\<rparr>)) = 13"
  "length (i_sectors i) = 13 \<Longrightarrow> length (i_sectors (i\<lparr>i_size := n\<rparr>)) = 13"
  "length (i_sectors (decode_inode bs)) = 13"
  "length (i_sectors (inode_init m)) = 13"
  by (simp_all add: decode_inode_def inode_init_def Let_def del: of_words.simps)

lemma typed_if [typed]: "(c \<Longrightarrow> fs_typed b r s) \<Longrightarrow> (\<not> c \<Longrightarrow> fs_typed b r t) \<Longrightarrow> fs_typed b r (if c then s else t)"
  by simp

lemma typed_disk_write [typed]: "fs_typed b r s \<Longrightarrow> returns (fs_typed b r) (disk_write l bs n s)"
  by (auto simp: returns_def disk_write_def rbind_Inr_iff fs_typed_def intro!: write_sectors_disk_ok)

section \<open>Inodes\<close>

lemma typed_patch_inode [typed]: "fs_typed b r s \<Longrightarrow> returns (fs_typed b r) (patch_inode pos bs s)"
  unfolding patch_inode_def Let_def case_prod_beta
  by (rule typed | assumption | (simp add: typed; fail) | rule returns_rbind_any)+

lemma typed_inode_sync [typed]: "fs_typed b r s \<Longrightarrow> returns (fs_typed b r) (inode_sync i s)"
  unfolding inode_sync_def Let_def case_prod_beta
  by (rule typed | assumption | (simp add: typed; fail) | rule returns_rbind_any)+

lemma typed_inode_delete [typed]: "fs_typed b r s \<Longrightarrow> returns (fs_typed b r) (inode_delete n s)"
  unfolding inode_delete_def Let_def case_prod_beta
  by (rule typed | assumption | (simp add: typed; fail) | rule returns_rbind_any)+

lemma typed_inode_open [typed]: "fs_typed b r s \<Longrightarrow> returns (\<lambda>x. fs_typed b r (snd x)) (inode_open n s)"
  unfolding inode_open_def Let_def case_prod_beta
  by (rule typed | assumption | (simp add: typed; fail) | rule returns_rbind_any)+

lemma typed_inode_close [typed]: "fs_typed b r s \<Longrightarrow> returns (fs_typed b r) (inode_close p s)"
  by (auto simp: returns_def inode_close_def rbind_Inr_iff Let_def get_inode_def set_inode_def fs_typed_def
        split: if_split_asm option.split_asm)

lemma typed_inode_bitmap_alloc [typed]: "fs_typed b r s \<Longrightarrow> returns (\<lambda>x. fs_typed b r (snd x)) (inode_bitmap_alloc s)"
  unfolding inode_bitmap_alloc_def Let_def case_prod_beta
  by (rule typed | assumption | (simp add: typed; fail) | rule returns_rbind_any)+

lemma typed_block_bitmap_alloc [typed]: "fs_typed b r s \<Longrightarrow> returns (\<lambda>x. fs_typed b r (snd x)) (block_bitmap_alloc s)"
  unfolding block_bitmap_alloc_def Let_def case_prod_beta
  by (rule typed | assumption | (simp add: typed; fail) | rule returns_rbind_any)+

lemma typed_bitmap_sync [typed]: "fs_typed b r s \<Longrightarrow> returns (fs_typed b r) (bitmap_sync k t s)"
  unfolding bitmap_sync_def Let_def case_prod_beta
  by (rule typed | assumption | (simp add: typed; fail) | rule returns_rbind_any)+

lemma typed_free_block_bit [typed]: "fs_typed b r s \<Longrightarrow> returns (fs_typed b r) (free_block_bit k s)"
  unfolding free_block_bit_def Let_def case_prod_beta
  by (rule typed | assumption | (simp add: typed; fail) | rule returns_rbind_any)+

lemma typed_free_inode_bit [typed]: "fs_typed b r s \<Longrightarrow> returns (fs_typed b r) (free_inode_bit k s)"
  unfolding free_inode_bit_def Let_def case_prod_beta
  by (rule typed | assumption | (simp add: typed; fail) | rule returns_rbind_any)+

lemma typed_release_blocks [typed]: "fs_typed b r s \<Longrightarrow> returns (fs_typed b r) (release_blocks bs s)"
proof (induction bs arbitrary: s)
  case (Cons d ds)
  show ?case unfolding release_blocks.simps Let_def
    by (insert Cons.prems, (rule typed Cons.IH | assumption | rule returns_rbind_any)+)
qed simp

lemma typed_inode_release [typed]: "fs_typed b r s \<Longrightarrow> returns (fs_typed b r) (inode_release n s)"
  unfolding inode_release_def Let_def case_prod_beta
  by (rule typed | assumption | (simp add: typed; fail) | rule returns_rbind_any)+

section \<open>Directories\<close>

lemma typed_open_root_dir [typed]: "fs_typed b r s \<Longrightarrow> returns (fs_typed b r) (open_root_dir s)"
  unfolding open_root_dir_def Let_def case_prod_beta
  by (rule typed | assumption | (simp add: typed; fail) | rule returns_rbind_any)+

lemma typed_dir_open [typed]: "fs_typed b r s \<Longrightarrow> returns (\<lambda>x. fs_typed b r (snd x)) (dir_open n s)"
  unfolding dir_open_def Let_def case_prod_beta
  by (rule typed | assumption | (simp add: typed; fail) | rule returns_rbind_any)+

lemma typed_dir_close [typed]: "fs_typed b r s \<Longrightarrow> returns (fs_typed b r) (dir_close p s)"
  unfolding dir_close_def Let_def case_prod_beta
  by (rule typed | assumption | (simp add: typed; fail) | rule returns_rbind_any)+

lemma typed_search_dir_entry [typed]: "fs_typed b r s \<Longrightarrow> returns (\<lambda>x. fs_typed b r (snd x)) (search_dir_entry p n s)"
  unfolding search_dir_entry_def Let_def case_prod_beta
  by (rule typed | assumption | (simp add: typed; fail) | rule returns_rbind_any)+

lemma typed_sync_block_bit [typed]: "fs_typed b r s \<Longrightarrow> returns (fs_typed b r) (sync_block_bit k s)"
  unfolding sync_block_bit_def Let_def case_prod_beta
  by (rule typed | assumption | (simp add: typed; fail) | rule returns_rbind_any)+

lemma typed_set_sector [typed]: "fs_typed b r s \<Longrightarrow> returns (fs_typed b r) (set_sector p k l s)"
  unfolding set_sector_def Let_def case_prod_beta
  by (rule typed | assumption | (simp add: typed; fail) | rule returns_rbind_any)+

lemma typed_grow_inode [typed]: "fs_typed b r s \<Longrightarrow> returns (fs_typed b r) (grow_inode p n s)"
  unfolding grow_inode_def Let_def case_prod_beta
  by (rule typed | assumption | (simp add: typed; fail) | rule returns_rbind_any)+

lemma typed_new_dir_block [typed]: "fs_typed b r s \<Longrightarrow> returns (\<lambda>x. fs_typed b r (snd x)) (new_dir_block p bs k s)"
  unfolding new_dir_block_def Let_def case_prod_beta
  by (rule typed | assumption | (simp add: typed; fail) | rule returns_rbind_any)+

lemma typed_sync_blocks [typed]: "fs_typed b r s \<Longrightarrow> returns (\<lambda>x. fs_typed b r (snd x)) (sync_blocks e p cnt bs ks s)"
proof (induction ks arbitrary: bs s)
  case (Cons k ks)
  show ?case unfolding sync_blocks.simps Let_def case_prod_beta
    by (insert Cons.prems, (rule typed Cons.IH | assumption | (simp add: typed; fail) | rule returns_rbind_any)+)
qed simp

lemma typed_sync_dir_entry [typed]: "fs_typed b r s \<Longrightarrow> returns (\<lambda>x. fs_typed b r (snd x)) (sync_dir_entry p e s)"
  unfolding sync_dir_entry_def Let_def case_prod_beta
  by (rule typed | assumption | (simp add: typed; fail) | rule returns_rbind_any)+

lemma typed_delete_blocks [typed]: "fs_typed b r s \<Longrightarrow> returns (\<lambda>x. fs_typed b r (snd x)) (delete_blocks n p cnt bs ks s)"
proof (induction ks arbitrary: s)
  case (Cons k ks)
  show ?case unfolding delete_blocks.simps Let_def case_prod_beta
    by (insert Cons.prems, (rule typed Cons.IH | assumption | (simp add: typed; fail) | rule returns_rbind_any)+)
qed simp

lemma typed_delete_dir_entry [typed]: "fs_typed b r s \<Longrightarrow> returns (\<lambda>x. fs_typed b r (snd x)) (delete_dir_entry p n s)"
  unfolding delete_dir_entry_def Let_def case_prod_beta
  by (rule typed | assumption | (simp add: typed; fail) | rule returns_rbind_any)+

lemma typed_dir_read [typed]: "fs_typed b r s \<Longrightarrow> returns (\<lambda>x. fs_typed b r (snd x)) (dir_read p s)"
  unfolding dir_read_def Let_def case_prod_beta
  by (rule typed | assumption | (simp add: typed; fail) | rule returns_rbind_any)+

lemma typed_dir_remove [typed]: "fs_typed b r s \<Longrightarrow> returns (\<lambda>x. fs_typed b r (snd x)) (dir_remove p c s)"
  unfolding dir_remove_def Let_def case_prod_beta
  by (rule typed | assumption | (simp add: typed; fail) | rule returns_rbind_any)+

section \<open>Files\<close>

lemma typed_fd_install [typed]: "fs_typed b r s \<Longrightarrow> fs_typed b r (snd (pcb_fd_install k s))"
  by (simp add: pcb_fd_install_def typed split: option.split)

lemma typed_rollback_1 [typed]: "fs_typed b r s \<Longrightarrow> returns (\<lambda>x. fs_typed b r (snd x)) (rollback_1 n s)"
  unfolding rollback_1_def Let_def case_prod_beta
  by (rule typed | assumption | (simp add: typed; fail) | rule returns_rbind_any)+

lemma typed_rollback_2 [typed]: "fs_typed b r s \<Longrightarrow> returns (\<lambda>x. fs_typed b r (snd x)) (rollback_2 p n s)"
  unfolding rollback_2_def Let_def case_prod_beta
  by (rule typed | assumption | (simp add: typed; fail) | rule returns_rbind_any)+

lemma typed_rollback_3 [typed]: "fs_typed b r s \<Longrightarrow> returns (\<lambda>x. fs_typed b r (snd x)) (rollback_3 k p n s)"
  unfolding rollback_3_def Let_def case_prod_beta
  by (rule typed | assumption | (simp add: typed; fail) | rule returns_rbind_any)+

lemma typed_file_create [typed]: "fs_typed b r s \<Longrightarrow> returns (\<lambda>x. fs_typed b r (snd x)) (file_create p n fl s)"
  unfolding file_create_def Let_def case_prod_beta
  by (rule typed | assumption | (simp add: typed; fail) | rule returns_rbind_any)+

lemma typed_file_open [typed]: "fs_typed b r s \<Longrightarrow> returns (\<lambda>x. fs_typed b r (snd x)) (file_open n fl s)"
  unfolding file_open_def Let_def case_prod_beta
  by (rule typed | assumption | (simp add: typed; fail) | rule returns_rbind_any)+

lemma typed_file_close [typed]: "fs_typed b r s \<Longrightarrow> returns (\<lambda>x. fs_typed b r (snd x)) (file_close k s)"
  unfolding file_close_def Let_def case_prod_beta
  by (rule typed | assumption | (simp add: typed; fail) | rule returns_rbind_any)+

lemma typed_add_blocks [typed]: "fs_typed b r s \<Longrightarrow> returns (\<lambda>x. fs_typed b r (snd x)) (add_blocks p c ks bs s)"
proof (induction ks arbitrary: bs s)
  case (Cons k ks)
  show ?case unfolding add_blocks.simps Let_def case_prod_beta
    by (insert Cons.prems, (rule typed Cons.IH | assumption | (simp add: typed; fail) | rule returns_rbind_any)+)
qed simp

lemma typed_first_block [typed]: "fs_typed b r s \<Longrightarrow> returns (\<lambda>x. fs_typed b r (snd x)) (first_block p s)"
  unfolding first_block_def Let_def case_prod_beta
  by (rule typed | assumption | (simp add: typed; fail) | rule returns_rbind_any)+

lemma typed_collect_blocks [typed]: "fs_typed b r s \<Longrightarrow> returns (\<lambda>x. fs_typed b r (snd x)) (collect_blocks p h w s)"
  unfolding collect_blocks_def Let_def case_prod_beta
  by (rule typed | assumption | (simp add: typed; fail) | rule returns_rbind_any)+

lemma typed_write_chunk [typed]: "fs_typed b r s \<Longrightarrow> returns (\<lambda>x. fs_typed b r (snd x)) (write_chunk k p bs f src s)"
  unfolding write_chunk_def Let_def case_prod_beta
  by (rule typed | assumption | (simp add: typed; fail) | rule returns_rbind_any)+

lemma typed_write_chunks [typed]: "fs_typed b r s \<Longrightarrow> returns (fs_typed b r) (write_chunks k p bs f src s)"
proof (induction "length src" arbitrary: f src s rule: less_induct)
  case less
  show ?case
  proof (cases "src = [] \<or> (\<exists>e. write_chunk k p bs f src s = Inl e)")
    case True
    with less.prems show ?thesis by (auto simp: write_chunks.simps [of k p bs f src s])
  next
    case False
    then obtain n t where w: "write_chunk k p bs f src s = Inr (n, t)"
      by (cases "write_chunk k p bs f src s") auto
    with False have "length (drop n src) < length src" using write_chunk_pos by (auto dest!: write_chunk_pos)
    moreover have "fs_typed b r t" using typed_write_chunk [OF less.prems, of k p bs f src] unfolding w by simp
    ultimately show ?thesis using less.hyps [of "drop n src"] False w by (simp add: write_chunks.simps [of k p bs f src s])
  qed
qed

lemma typed_file_write [typed]: "fs_typed b r s \<Longrightarrow> returns (\<lambda>x. fs_typed b r (snd x)) (file_write k src s)"
  unfolding file_write_def Let_def case_prod_beta
  by (rule typed | assumption | (simp add: typed; fail) | rule returns_rbind_any)+

lemma typed_file_read [typed]: "fs_typed b r s \<Longrightarrow> returns (\<lambda>x. fs_typed b r (snd (snd x))) (file_read k n s)"
  unfolding file_read_def Let_def case_prod_beta
  by (rule typed | assumption | (simp add: typed; fail) | rule returns_rbind_any)+

section \<open>System calls\<close>

lemma typed_search_end [typed]: "fs_typed b r s \<Longrightarrow> returns (\<lambda>x. fs_typed b r (snd (snd x))) (search_end n e rec s)"
  unfolding search_end_def Let_def case_prod_beta
  by (rule typed | assumption | (simp add: typed; fail) | rule returns_rbind_any)+

lemma typed_enter_dir [typed]: "fs_typed b r s \<Longrightarrow> returns (\<lambda>x. fs_typed b r (snd (snd x))) (enter_dir e rec s)"
  unfolding enter_dir_def Let_def case_prod_beta
  by (rule typed | assumption | (simp add: typed; fail) | rule returns_rbind_any)+

lemma typed_search_loop [typed]: "fs_typed b r s \<Longrightarrow> returns (\<lambda>x. fs_typed b r (snd (snd x))) (search_loop q n p e rec s)"
proof (induction "left_len q + of_bool (n ! 0 \<noteq> 0)" arbitrary: q n p e rec s rule: less_induct)
  case less
  have step: "left_len (fst nx) + of_bool (snd nx ! 0 \<noteq> 0) < left_len q + of_bool (n ! 0 \<noteq> 0)"
    if "n ! 0 \<noteq> 0" and "next_name q (clear_name n) = Inr nx" for nx
    using next_name_less [of q n "fst nx" "snd nx"] that by simp
  show ?case unfolding search_loop.simps [of q n p e rec s] Let_def
    by (insert less.prems, (rule typed less.hyps [OF step] | assumption | rule returns_rbind_eq)+)
qed

lemma typed_search_file [typed]: "fs_typed b r s \<Longrightarrow> returns (\<lambda>x. fs_typed b r (snd (snd x))) (search_file J path s)"
  unfolding search_file_def Let_def case_prod_beta
  by (rule typed | assumption | (simp add: typed; fail) | rule returns_rbind_any)+

lemma typed_fail_close [typed]: "fs_typed b r s \<Longrightarrow> returns (\<lambda>x. fs_typed b r (snd x)) (fail_close rec s)"
  unfolding fail_close_def Let_def case_prod_beta
  by (rule typed | assumption | (simp add: typed; fail) | rule returns_rbind_any)+

lemma typed_sys_open [typed]: "fs_typed b r s \<Longrightarrow> returns (\<lambda>x. fs_typed b r (snd x)) (sys_open J path fl s)"
  unfolding sys_open_def Let_def case_prod_beta
  by (rule typed | assumption | (simp add: typed; fail) | rule returns_rbind_any)+

lemma typed_sys_close [typed]: "fs_typed b r s \<Longrightarrow> returns (\<lambda>x. fs_typed b r (snd x)) (sys_close fd s)"
  unfolding sys_close_def Let_def case_prod_beta
  by (rule typed | assumption | (simp add: typed; fail) | rule returns_rbind_any)+

lemma typed_sys_write [typed]: "fs_typed b r s \<Longrightarrow> returns (\<lambda>x. fs_typed b r (snd (snd x))) (sys_write fd buf s)"
  unfolding sys_write_def Let_def case_prod_beta
  by (rule typed | assumption | (simp add: typed; fail) | rule returns_rbind_any)+

lemma typed_sys_read [typed]: "fs_typed b r s \<Longrightarrow> returns (\<lambda>x. fs_typed b r (snd (snd x))) (sys_read fd n keys s)"
  unfolding sys_read_def Let_def case_prod_beta
  by (rule typed | assumption | (simp add: typed; fail) | rule returns_rbind_any)+

lemma typed_sys_lseek [typed]: "fs_typed b r s \<Longrightarrow> returns (\<lambda>x. fs_typed b r (snd x)) (sys_lseek fd off wh s)"
  unfolding sys_lseek_def Let_def case_prod_beta
  by (rule typed | assumption | (simp add: typed; fail) | rule returns_rbind_any)+

lemma typed_sys_unlink [typed]: "fs_typed b r s \<Longrightarrow> returns (\<lambda>x. fs_typed b r (snd x)) (sys_unlink J path s)"
  unfolding sys_unlink_def Let_def case_prod_beta
  by (rule typed | assumption | (simp add: typed; fail) | rule returns_rbind_any)+

lemma typed_mkdir_rollback [typed]: "fs_typed b r s \<Longrightarrow> returns (\<lambda>x. fs_typed b r (snd x)) (mkdir_rollback rec n s)"
  unfolding mkdir_rollback_def Let_def case_prod_beta
  by (rule typed | assumption | (simp add: typed; fail) | rule returns_rbind_any)+

lemma typed_make_dir [typed]: "fs_typed b r s \<Longrightarrow> returns (\<lambda>x. fs_typed b r (snd x)) (make_dir rec s)"
  unfolding make_dir_def Let_def case_prod_beta
  by (rule typed | assumption | (simp add: typed; fail) | rule returns_rbind_any)+

lemma typed_sys_mkdir [typed]: "fs_typed b r s \<Longrightarrow> returns (\<lambda>x. fs_typed b r (snd x)) (sys_mkdir J path s)"
  unfolding sys_mkdir_def Let_def case_prod_beta
  by (rule typed | assumption | (simp add: typed; fail) | rule returns_rbind_any)+

lemma typed_sys_opendir [typed]: "fs_typed b r s \<Longrightarrow> returns (\<lambda>x. fs_typed b r (snd x)) (sys_opendir J path s)"
  unfolding sys_opendir_def Let_def case_prod_beta
  by (rule typed | assumption | (simp add: typed; fail) | rule returns_rbind_any)+

lemma typed_sys_closedir [typed]: "fs_typed b r s \<Longrightarrow> returns (\<lambda>x. fs_typed b r (snd x)) (sys_closedir p s)"
  unfolding sys_closedir_def Let_def case_prod_beta
  by (rule typed | assumption | (simp add: typed; fail) | rule returns_rbind_any)+

lemma typed_sys_readdir [typed]: "fs_typed b r s \<Longrightarrow> returns (\<lambda>x. fs_typed b r (snd x)) (sys_readdir p s)"
  unfolding sys_readdir_def Let_def case_prod_beta
  by (rule typed | assumption | (simp add: typed; fail) | rule returns_rbind_any)+

lemma typed_sys_rewinddir [typed]: "fs_typed b r s \<Longrightarrow> returns (fs_typed b r) (sys_rewinddir p s)"
  unfolding sys_rewinddir_def Let_def case_prod_beta
  by (rule typed | assumption | (simp add: typed; fail) | rule returns_rbind_any)+

lemma typed_sys_rmdir [typed]: "fs_typed b r s \<Longrightarrow> returns (\<lambda>x. fs_typed b r (snd x)) (sys_rmdir J path s)"
  unfolding sys_rmdir_def Let_def case_prod_beta
  by (rule typed | assumption | (simp add: typed; fail) | rule returns_rbind_any)+

lemma typed_get_parent_dir_inode_nr [typed]: "fs_typed b r s \<Longrightarrow> returns (\<lambda>x. fs_typed b r (snd x)) (get_parent_dir_inode_nr n s)"
  unfolding get_parent_dir_inode_nr_def Let_def case_prod_beta
  by (rule typed | assumption | (simp add: typed; fail) | rule returns_rbind_any)+

lemma typed_get_child_dir_name [typed]: "fs_typed b r s \<Longrightarrow> returns (\<lambda>x. fs_typed b r (snd x)) (get_child_dir_name p c path s)"
  unfolding get_child_dir_name_def Let_def case_prod_beta
  by (rule typed | assumption | (simp add: typed; fail) | rule returns_rbind_any)+

text \<open>The path grows, so the walk up ends.\<close>

lemma typed_bind_child:
  "fs_typed b r s \<Longrightarrow> (\<And>y. get_child_dir_name p c path s = Inr y \<Longrightarrow> fs_typed b r (snd y) \<Longrightarrow> returns P (f y)) \<Longrightarrow>
    returns P (rbind (get_child_dir_name p c path s) f)"
  using typed_get_child_dir_name [of b r s p c path] by (auto simp: returns_def rbind_Inr_iff)

lemma typed_climb [typed]: "fs_typed b r s \<Longrightarrow> returns (\<lambda>x. fs_typed b r (snd x)) (climb n path s)"
proof (induction "512 - length path" arbitrary: n path s rule: less_induct)
  case less
  have step: "512 - length path' < 512 - length path"
    if "get_child_dir_name a c path u = Inr y" and "fst y = Some path'" for a c u y path'
    using get_child_longer [of a c path u path' "snd y"] that by (cases y) auto
  show ?case unfolding climb.simps [of n path s]
    by (insert less.prems, (rule typed typed_bind_child less.hyps [OF step] | assumption | rule returns_rbind_any)+)
qed

lemma typed_sys_getcwd [typed]: "fs_typed b r s \<Longrightarrow> returns (\<lambda>x. fs_typed b r (snd x)) (sys_getcwd n s)"
  unfolding sys_getcwd_def Let_def case_prod_beta
  by (rule typed | assumption | (simp add: typed; fail) | rule returns_rbind_any)+

lemma typed_sys_chdir [typed]: "fs_typed b r s \<Longrightarrow> returns (\<lambda>x. fs_typed b r (snd x)) (sys_chdir J path s)"
  unfolding sys_chdir_def Let_def case_prod_beta if_distrib [of snd] snd_conv
  by (rule typed | assumption | (simp add: typed; fail) | rule returns_rbind_any)+

lemma typed_sys_stat [typed]: "fs_typed b r s \<Longrightarrow> returns (\<lambda>x. fs_typed b r (snd x)) (sys_stat J path s)"
  unfolding sys_stat_def Let_def case_prod_beta
  by (rule typed | assumption | (simp add: typed; fail) | rule returns_rbind_any)+

section \<open>Making and mounting a file system\<close>

text \<open>Before a partition is mounted, its bitmaps are not typed yet.\<close>

definition unmounted :: "u32 \<Rightarrow> fs \<Rightarrow> bool" where
  "unmounted r s \<longleftrightarrow> disk_ok (disk_data s) \<and> (\<forall>p i. inodes s p = Some i \<longrightarrow> length (i_sectors i) = 13)
     \<and> length (file_table s) = 32 \<and> length (thread_fds s) = 8 \<and> root_dir s = r"

lemma unmounted_disk_write: "unmounted r s \<Longrightarrow> returns (unmounted r) (disk_write l bs n s)"
  by (auto simp: returns_def disk_write_def rbind_Inr_iff unmounted_def intro!: write_sectors_disk_ok)

lemma unmounted_malloc: "unmounted r s \<Longrightarrow> unmounted r (snd (fs_malloc s))"
  by (auto simp: unmounted_def fs_malloc_def split: list.splits)

lemma unmounted_bind:
  "returns (unmounted r) m \<Longrightarrow> (\<And>s. unmounted r s \<Longrightarrow> returns P (f s)) \<Longrightarrow> returns P (rbind m f)"
  by (rule returns_rbind)

lemma unmounted_partition_format: "unmounted r s \<Longrightarrow> returns (unmounted r) (partition_format part s)"
  unfolding partition_format_def Let_def case_prod_beta
  by (rule unmounted_disk_write unmounted_malloc unmounted_bind | assumption | rule returns_rbind_any)+

lemma unmounted_format_all: "unmounted r s \<Longrightarrow> returns (unmounted r) (format_all parts s)"
proof (induction parts arbitrary: s)
  case (Cons part parts)
  have "returns (unmounted r) (if sec_cnt part \<noteq> 0
      then rbind (disk_read (start_lba part + 1) 1 s) (\<lambda>sb_buf.
           if magic (decode_super_block sb_buf) = 0x12345678 then Inr s else partition_format part s)
      else Inr s)"
    using Cons.prems by (auto intro!: returns_rbind_any unmounted_partition_format)
  then show ?case unfolding format_all.simps using Cons.IH by (rule returns_rbind)
qed simp

lemma mounted_part [simp]:
  "sb (partition.extend part (fs_part.fields x m n ps)) = x"
  "block_bitmap (partition.extend part (fs_part.fields x m n ps)) = m"
  "inode_bitmap (partition.extend part (fs_part.fields x m n ps)) = n"
  "open_inode (partition.extend part (fs_part.fields x m n ps)) = ps"
  by (simp_all add: partition.defs fs_part.defs)

lemma typed_mount_partition:
  assumes "unmounted r s"
  shows "returns (\<lambda>s'. fs_typed (part_sb s') r s') (mount_partition part s)"
proof -
  have "length (sectors m l (unat n)) \<ge> unat (n * SECTOR_SIZE)" if "disk_ok m" for m l n
    using that by (simp add: length_sectors unat_word_ariths(2) SECTOR_SIZE_def mult.commute)
  then show ?thesis using assms
    by (auto simp: returns_def mount_partition_def rbind_Inr_iff Let_def case_prod_beta disk_read_def
          fs_typed_def unmounted_def fs_malloc_def wf_bitmap_def split: list.splits)
qed

lemma typed_filesys_init:
  "unmounted r s \<Longrightarrow> returns (\<lambda>s'. fs_typed (part_sb s') r s') (filesys_init parts s)"
  unfolding filesys_init_def Let_def case_prod_beta
  apply (rule returns_rbind_any)
  apply (rule unmounted_bind)
   apply (rule unmounted_format_all, erule unmounted_malloc)
  apply (rule returns_option)
   apply simp
  apply (rule returns_rbind, erule typed_mount_partition)
  apply (rule returns_rbind, erule typed_open_root_dir)
  apply (auto simp: fs_typed_def)
  done

section \<open>Sequences of system calls\<close>

datatype fs_call =
    Open str u32 | Close u32 | Write u32 str | Read u32 u32 str | Lseek u32 u32 u8
  | Unlink str | Mkdir str | Opendir str | Closedir u32 | Readdir u32 | Rewinddir u32
  | Rmdir str | Getcwd u32 | Chdir str | Stat str

abbreviation no_result :: "('a \<times> fs) res \<Rightarrow> fs res" where
  "no_result m \<equiv> rbind m (\<lambda>x. Inr (snd x))"

abbreviation no_results :: "('a \<times> 'b \<times> fs) res \<Rightarrow> fs res" where
  "no_results m \<equiv> rbind m (\<lambda>x. Inr (snd (snd x)))"

fun do_call :: "junk \<Rightarrow> fs_call \<Rightarrow> fs \<Rightarrow> fs res" where
  "do_call J (Open path flags) s = no_result (sys_open J path flags s)"
| "do_call J (Close fd) s = no_result (sys_close fd s)"
| "do_call J (Write fd buf) s = no_results (sys_write fd buf s)"
| "do_call J (Read fd count keys) s = no_results (sys_read fd count keys s)"
| "do_call J (Lseek fd offset whence) s = no_result (sys_lseek fd offset whence s)"
| "do_call J (Unlink path) s = no_result (sys_unlink J path s)"
| "do_call J (Mkdir path) s = no_result (sys_mkdir J path s)"
| "do_call J (Opendir path) s = no_result (sys_opendir J path s)"
| "do_call J (Closedir p) s = no_result (sys_closedir p s)"
| "do_call J (Readdir p) s = no_result (sys_readdir p s)"
| "do_call J (Rewinddir p) s = sys_rewinddir p s"
| "do_call J (Rmdir path) s = no_result (sys_rmdir J path s)"
| "do_call J (Getcwd n) s = no_result (sys_getcwd n s)"
| "do_call J (Chdir path) s = no_result (sys_chdir J path s)"
| "do_call J (Stat path) s = no_result (sys_stat J path s)"

fun do_calls :: "junk \<Rightarrow> fs_call list \<Rightarrow> fs \<Rightarrow> fs res" where
  "do_calls J [] s = Inr s"
| "do_calls J (c # cs) s = rbind (do_call J c s) (do_calls J cs)"

lemma typed_do_call: "fs_typed b r s \<Longrightarrow> returns (fs_typed b r) (do_call J c s)"
  by (cases c; simp only: do_call.simps; (rule typed | assumption)+)

lemma typed_do_calls: "fs_typed b r s \<Longrightarrow> returns (fs_typed b r) (do_calls J cs s)"
  by (induction cs arbitrary: s) (auto intro: returns_rbind typed_do_call)

section \<open>A small disk\<close>

text \<open>A partition with an empty file system at the beginning of a disk, made by hand.\<close>

definition small_sb :: super_block where
  "small_sb = \<lparr>magic = 0x12345678, sb_sec_cnt = 2000, inode_cnt = 4096, part_lba_base = 0, block_bitmap_lba = 2,
     block_bitmap_sects = 1, inode_bitmap_lba = 3, inode_bitmap_sects = 1, inode_table_lba = 4, inode_table_sects = 608,
     data_start_lba = 612, root_inode_no = 0, dir_entry_size = 24\<rparr>"

definition small_part :: partition where
  "small_part = \<lparr>start_lba = 0, sec_cnt = 2000, my_disk = (0, 1), part_name = ascii ''sdb1'' @ replicate 4 0\<rparr>"

definition small_disk :: "u32 \<Rightarrow> u8 list" where
  "small_disk lba =
     (if lba = 1 then encode_super_block small_sb
      else if lba = 2 \<or> lba = 3 then (replicate 512 0)[0 := 1]
      else if lba = 4
      then splice (replicate 512 0) 0 (encode_inode ((inode_init 0)\<lparr>i_size := 48, i_sectors := (replicate 13 0)[0 := 612]\<rparr>))
      else if lba = 612 then dot_entries 0 0
      else replicate 512 0)"

definition small_fs :: fs where
  "small_fs = \<lparr>disk_data = small_disk, cur_part = partition.extend small_part (fs_part.fields small_sb
       \<lparr>btmp_bytes_len = 0, bits = []\<rparr> \<lparr>btmp_bytes_len = 0, bits = []\<rparr> []),
     heap = map of_nat [1000..<1100], inodes = Map.empty, dirs = Map.empty, root_dir = 500,
     file_table = replicate 32 no_file, thread_fds = [0, 1, 2] @ replicate 5 (- 1), thread_cwd = 0\<rparr>"

definition no_junk :: junk where
  "no_junk = \<lparr>junk_name = replicate 16 0, junk_entry = \<lparr>filename = replicate 16 0, e_i_no = 0, f_type = 0\<rparr>\<rparr>"

lemma small_fs_runs: "\<exists>s1 s2. filesys_init [small_part] small_fs = Inr s1 \<and>
    do_calls no_junk [Opendir (ascii ''/''), Getcwd 512, Close 2, Lseek (- 1) 0 1] s1 = Inr s2"
proof -
  have [simp]: "of_nat 1000 # map of_nat [1001..<1100] = map of_nat [1000..<1100]" by simp
  have "\<exists>s2. rbind (filesys_init [small_part] small_fs)
      (do_calls no_junk [Opendir (ascii ''/''), Getcwd 512, Close 2, Lseek (- 1) 0 1]) = Inr s2"
    by (simp add: filesys_init_def small_fs_def small_part_def fs_malloc_def upt_rec disk_read_def max_lba_def
        small_disk_def small_sb_def mount_partition_def c_string_def ascii_def
        open_root_dir_def inode_open_def inode_locate_def Let_def pos_sects_def sizeof_inode_def
        set_inode_def set_dir_def partition.defs fs_part.defs sys_opendir_def MAX_PATH_LEN_def
        sys_getcwd_def sys_close_def sys_lseek_def)
  then show ?thesis by (auto simp: rbind_Inr_iff)
qed

text \<open>
  Mounting a file system and then any sequence of system calls that return keeps the types of the
  file system: every sector has 512 bytes, every inode in memory 13 block pointers, the bitmaps lie in
  their buffers, the two descriptor tables keep their lengths, and the super block of the mounted
  partition and the root directory never change.
\<close>

theorem fs_calls_typed:
  assumes "unmounted r s" and "filesys_init parts s = Inr s1" and "do_calls J calls s1 = Inr s2"
  shows "fs_typed (part_sb s1) r s2"
  using typed_filesys_init [OF assms(1), of parts] typed_do_calls [of "part_sb s1" r s1 J calls] assms(2,3)
  by (simp add: returns_def)

lemma fs_calls_typed_witness:
  "\<exists>s1 s2. filesys_init [small_part] small_fs = Inr s1 \<and>
    do_calls no_junk [Opendir (ascii ''/''), Getcwd 512, Close 2, Lseek (- 1) 0 1] s1 = Inr s2 \<and> fs_typed (part_sb s1) 500 s2"
proof -
  have "unmounted 500 small_fs"
    by (auto simp: unmounted_def small_fs_def small_disk_def disk_ok_def dot_entries_def encode_dir_entry_def ascii_def)
  with small_fs_runs show ?thesis using fs_calls_typed by blast
qed

end
