(* ===== verification/Blocks.thy ===== *)
theory Blocks
  imports Dir
begin

text \<open>
  The data blocks of a partition as an allocator of identifiers: \<^verbatim>\<open>block_bitmap_alloc\<close> followed by
  \<^verbatim>\<open>bitmap_sync\<close>, as the callers use them, and clearing a bit followed by \<^verbatim>\<open>bitmap_sync\<close>. The invariant
  says where the bitmap lies, and that its copy on the disk is the one in memory.
\<close>

definition blocks_ok :: "fs \<Rightarrow> bool" where
  "blocks_ok s \<longleftrightarrow> (let b = part_sb s; m = block_bitmap (cur_part s) in
     disk_ok (disk_data s) \<and> btmp_bytes_len m = length (bits m) \<and> length (bits m) = 512 * unat (block_bitmap_sects b)
     \<and> unat (block_bitmap_lba b) + unat (block_bitmap_sects b) \<le> unat (data_start_lba b)
     \<and> unat (data_start_lba b) + 8 * length (bits m) \<le> unat max_lba
     \<and> sectors (disk_data s) (block_bitmap_lba b) (unat (block_bitmap_sects b)) = bits m)"

definition block :: "nat \<Rightarrow> fs \<Rightarrow> u32" where
  "block k s = data_start_lba (part_sb s) + of_nat k"

definition block_cnt :: "fs \<Rightarrow> nat" where
  "block_cnt s = 8 * length (bits (block_bitmap (cur_part s)))"

definition data_blocks :: "fs \<Rightarrow> u32 set" where
  "data_blocks s = (\<lambda>k. block k s) ` {..<block_cnt s}"

definition used_blocks :: "fs \<Rightarrow> u32 set" where
  "used_blocks s = (\<lambda>k. block k s) ` {k. k < block_cnt s \<and> used (block_bitmap (cur_part s)) k}"

lemma block_unat:
  assumes "blocks_ok s" and "k < block_cnt s"
  shows "unat (block k s) = unat (data_start_lba (part_sb s)) + k" and "block k s - data_start_lba (part_sb s) = of_nat k"
    and "unat (of_nat k :: u32) = k"
proof -
  have "unat max_lba < 2 ^ 32 - 1" by (simp add: max_lba_def)
  then have b: "unat (data_start_lba (part_sb s)) + k < 2 ^ 32"
    using assms by (simp add: blocks_ok_def block_cnt_def Let_def)
  then show k: "unat (of_nat k :: u32) = k" by (intro unat_word_of_nat32) simp
  from b show "unat (block k s) = unat (data_start_lba (part_sb s)) + k" by (simp add: block_def unat_word_ariths k)
qed (simp add: block_def)

lemma block_inj: "blocks_ok s \<Longrightarrow> j < block_cnt s \<Longrightarrow> k < block_cnt s \<Longrightarrow> block j s = block k s \<longleftrightarrow> j = k"
  using block_unat(1) [of s j] block_unat(1) [of s k] by (metis add_left_cancel)

lemma data_blocks_range:
  assumes "blocks_ok s" and "l \<in> data_blocks s"
  shows "data_start_lba (part_sb s) \<le> l" and "l \<le> max_lba" and "l \<noteq> 0"
proof -
  obtain k where k: "k < block_cnt s" "l = block k s" using assms(2) by (auto simp: data_blocks_def)
  note u = block_unat(1) [OF assms(1) k(1), folded k(2)]
  have "unat l \<le> unat max_lba" using u k(1) assms(1) by (simp add: blocks_ok_def block_cnt_def Let_def)
  then show "l \<le> max_lba" by (simp add: word_le_nat_alt)
  show "data_start_lba (part_sb s) \<le> l" using u by (simp add: word_le_nat_alt)
  have "0 < unat (block_bitmap_sects (part_sb s))" using k(1) assms(1) by (auto simp: blocks_ok_def block_cnt_def Let_def)
  then have "0 < unat l" using u assms(1) by (simp add: blocks_ok_def Let_def)
  then show "l \<noteq> 0" by auto
qed

lemma used_data: "used_blocks s \<subseteq> data_blocks s"
  by (auto simp: used_blocks_def data_blocks_def)

text \<open>Writing the sector of a changed bit brings the copy on the disk up to date and changes no data block.\<close>

lemma splice_update:
  assumes "i div 512 = q" and "512 * q + 512 \<le> length xs" and "i < length xs"
  shows "splice xs (512 * q) (take 512 (drop (512 * q) (xs[i := v]))) = xs[i := v]"
proof (rule nth_equalityI)
  have i: "512 * q \<le> i" "i < 512 * q + 512" using assms(1) by auto
  fix j assume "j < length (splice xs (512 * q) (take 512 (drop (512 * q) (xs[i := v]))))"
  then show "splice xs (512 * q) (take 512 (drop (512 * q) (xs[i := v]))) ! j = xs[i := v] ! j"
    using assms(2,3) i by (auto simp: splice_def nth_append nth_list_update)
qed (use assms in \<open>simp add: splice_def\<close>)

lemma sync_bit:
  assumes ok: "blocks_ok s" and k: "k < block_cnt s" and m: "bitmap_set (block_bitmap (cur_part s)) k v = Inr m"
  obtains d where "bitmap_sync (of_nat k) BLOCK_BITMAP (upd_part (\<lambda>p. p\<lparr>block_bitmap := m\<rparr>) s)
      = Inr (upd_part (\<lambda>p. p\<lparr>block_bitmap := m\<rparr>) s\<lparr>disk_data := d\<rparr>)"
    and "blocks_ok (upd_part (\<lambda>p. p\<lparr>block_bitmap := m\<rparr>) s\<lparr>disk_data := d\<rparr>)"
    and "\<And>l. unat l < unat (block_bitmap_lba (part_sb s))
      \<or> unat (block_bitmap_lba (part_sb s)) + unat (block_bitmap_sects (part_sb s)) \<le> unat l \<Longrightarrow> d l = disk_data s l"
proof -
  let ?b = "part_sb s" and ?m = "block_bitmap (cur_part s)" and ?s = "upd_part (\<lambda>p. p\<lparr>block_bitmap := m\<rparr>) s"
  let ?l = "block_bitmap_lba ?b" and ?n = "unat (block_bitmap_sects ?b)" and ?q = "k div 4096"
  have g: "disk_ok (disk_data s)" "btmp_bytes_len ?m = length (bits ?m)" "length (bits ?m) = 512 * ?n"
    "unat ?l + ?n \<le> unat (data_start_lba ?b)" "unat (data_start_lba ?b) + 8 * length (bits ?m) \<le> unat max_lba"
    "sectors (disk_data s) ?l ?n = bits ?m" using ok by (simp_all add: blocks_ok_def Let_def)
  have kn: "k < 4096 * ?n" using k g(3) by (simp add: block_cnt_def)
  then have q: "?q < ?n" by (simp add: less_mult_imp_div_less mult.commute)
  have max: "unat max_lba < 2 ^ 32 - 1" by (simp add: max_lba_def)
  obtain v' where m': "m = ?m\<lparr>bits := (bits ?m)[k div 8 := v']\<rparr>"
    using m by (auto simp: bitmap_set_def rbind_Inr_iff Let_def)
  have uk: "unat (of_nat k :: u32) = k" by (rule block_unat(3) [OF ok k])
  have "unat (of_nat k :: u32) < 2 ^ 32" using unsigned_less [of "of_nat k :: u32"] by simp
  then have "k < 2 ^ 32" unfolding uk .
  then have uq: "unat (of_nat ?q :: u32) = ?q" by (intro unat_word_of_nat32) simp
  have sec: "(of_nat k :: u32) div 4096 = of_nat ?q" using uk by (simp add: word_arith_nat_div)
  let ?w = "take 512 (drop (512 * ?q) (bits m))"
  let ?d = "write_sectors (?l + of_nat ?q) 1 ?w (disk_data s)"
  have off: "unat ((of_nat k :: u32) div 4096 * 512) = 512 * ?q"
  proof -
    have "512 * ?q < 2 ^ 32" using q g(3,5) max by linarith
    then show ?thesis using uq unfolding sec by (simp add: unat_word_ariths mult.commute)
  qed
  have len: "length (bits m) = 512 * ?n" "512 * ?q + 512 \<le> length (bits m)" using m' g(3) q by auto
  then have room: "512 \<le> length (bits m) - 512 * ?q" by linarith
  then have lw: "length ?w = 512" by simp
  have lba: "unat (?l + of_nat ?q) = unat ?l + ?q"
    using uq q g(4,5) max by (simp add: unat_word_ariths)
  then have le: "?l + of_nat ?q \<le> max_lba" using q g(4,5) by (simp add: word_le_nat_alt)
  have 1: "bitmap_sync (of_nat k) BLOCK_BITMAP ?s = Inr (?s\<lparr>disk_data := ?d\<rparr>)"
    using le room off sec by (simp add: bitmap_sync_def disk_write_def Let_def)
  have 2: "disk_ok ?d" using g(1) lw by (simp add: disk_ok_def)
  have "splice (sectors (disk_data s) (?l + of_nat ?q) 1) 0 ?w = ?w"
    using length_sectors [OF g(1), of "?l + of_nat ?q" 1] lw by (simp add: splice_def)
  then have "sectors ?d ?l ?n = splice (bits ?m) (512 * ?q) ?w"
    using sectors_splice [OF g(1), of ?q 1 ?n 0 ?w ?l] q lw g(6) unsigned_less [of "block_bitmap_sects ?b"] by simp
  also have "\<dots> = bits m" using splice_update [of "k div 8" ?q "bits ?m" v'] g(3) q kn m' by (simp add: div_mult2_eq [symmetric])
  finally have 3: "sectors ?d ?l ?n = bits m" .
  have 4: "?d l = disk_data s l" if "unat l < unat ?l \<or> unat ?l + ?n \<le> unat l" for l using lba q that by auto
  have 5: "blocks_ok (?s\<lparr>disk_data := ?d\<rparr>)" using 2 3 g m' by (simp add: blocks_ok_def Let_def)
  show ?thesis using that [OF 1 5] 4 by blast
qed

text \<open>
  Taking and giving back a block together with its bit on the disk, as operations of the allocator interface, where a refusal
  is an error. The callers of \<^verbatim>\<open>block_bitmap_alloc\<close> write the bit after it, and return -1 themselves when it refuses
  (\<^verbatim>\<open>file_write\<close> does not write the bit of the indirect table); one block is never refused that way, since
  \<^verbatim>\<open>bitmap_scan\<close> fails an assertion on a full bitmap.
\<close>

definition take_block_synced :: "fs \<Rightarrow> (u32 \<times> fs) res" where
  "take_block_synced s =
     rbind (block_bitmap_alloc s) (\<lambda>(r, s).
     case r of None \<Rightarrow> Inl Panic | Some lba \<Rightarrow> rbind (sync_block_bit lba s) (\<lambda>s. Inr (lba, s)))"

definition give_block_synced :: "u32 \<Rightarrow> fs \<Rightarrow> fs res" where
  "give_block_synced lba s = free_block_bit (lba - data_start_lba (part_sb s)) s"

lemma wf_block_bitmap: "blocks_ok s \<Longrightarrow> wf_bitmap (block_bitmap (cur_part s))"
  by (simp add: blocks_ok_def wf_bitmap_def Let_def)

lemma block_bitmap_alloc_eq:
  assumes ok: "blocks_ok s" and free: "\<exists>k < block_cnt s. \<not> used (block_bitmap (cur_part s)) k"
  obtains k m where "k < block_cnt s" and "\<not> used (block_bitmap (cur_part s)) k"
    and "bitmap_set (block_bitmap (cur_part s)) k 1 = Inr m" and "length (bits m) = length (bits (block_bitmap (cur_part s)))"
    and "\<forall>j. used m j \<longleftrightarrow> j = k \<or> used (block_bitmap (cur_part s)) j"
    and "block_bitmap_alloc s = Inr (Some (block k s), upd_part (\<lambda>p. p\<lparr>block_bitmap := m\<rparr>) s)"
proof -
  let ?m = "block_bitmap (cur_part s)"
  have len: "btmp_bytes_len ?m * 8 = block_cnt s" using ok by (simp add: blocks_ok_def block_cnt_def Let_def)
  from bit_alloc_spec [OF wf_block_bitmap [OF ok]] free obtain k m where
    "bitmap_scan ?m 1 = Inr (int k)" "bitmap_set ?m k 1 = Inr m" "k < block_cnt s" "\<not> used ?m k"
    "length (bits m) = length (bits ?m)" "\<forall>j. used m j \<longleftrightarrow> j = k \<or> used ?m j"
    unfolding len by auto
  moreover from this have "block_bitmap_alloc s = Inr (Some (block k s), upd_part (\<lambda>p. p\<lparr>block_bitmap := m\<rparr>) s)"
    by (simp add: block_bitmap_alloc_def block_def)
  ultimately show ?thesis by (rule_tac that)
qed

lemma take_block_eq:
  assumes ok: "blocks_ok s" and free: "\<not> data_blocks s \<subseteq> used_blocks s"
  obtains lba m d where "take_block_synced s = Inr (lba, upd_part (\<lambda>p. p\<lparr>block_bitmap := m\<rparr>) s\<lparr>disk_data := d\<rparr>)"
    and "blocks_ok (upd_part (\<lambda>p. p\<lparr>block_bitmap := m\<rparr>) s\<lparr>disk_data := d\<rparr>)"
    and "block_bitmap_alloc s = Inr (Some lba, upd_part (\<lambda>p. p\<lparr>block_bitmap := m\<rparr>) s)"
    and "sync_block_bit lba (upd_part (\<lambda>p. p\<lparr>block_bitmap := m\<rparr>) s) = Inr (upd_part (\<lambda>p. p\<lparr>block_bitmap := m\<rparr>) s\<lparr>disk_data := d\<rparr>)"
    and "lba \<in> data_blocks s" and "lba \<notin> used_blocks s"
    and "used_blocks (upd_part (\<lambda>p. p\<lparr>block_bitmap := m\<rparr>) s\<lparr>disk_data := d\<rparr>) = insert lba (used_blocks s)"
    and "data_blocks (upd_part (\<lambda>p. p\<lparr>block_bitmap := m\<rparr>) s\<lparr>disk_data := d\<rparr>) = data_blocks s"
    and "\<And>l. data_start_lba (part_sb s) \<le> l \<Longrightarrow> d l = disk_data s l"
    and "\<And>l. unat l < unat (block_bitmap_lba (part_sb s))
      \<or> unat (block_bitmap_lba (part_sb s)) + unat (block_bitmap_sects (part_sb s)) \<le> unat l \<Longrightarrow> d l = disk_data s l"
proof -
  from free have "\<exists>k < block_cnt s. \<not> used (block_bitmap (cur_part s)) k" by (auto simp: data_blocks_def used_blocks_def)
  then obtain k m where k: "k < block_cnt s" "\<not> used (block_bitmap (cur_part s)) k"
    and m: "bitmap_set (block_bitmap (cur_part s)) k 1 = Inr m" "length (bits m) = length (bits (block_bitmap (cur_part s)))"
    and u: "\<forall>j. used m j \<longleftrightarrow> j = k \<or> used (block_bitmap (cur_part s)) j"
    and a: "block_bitmap_alloc s = Inr (Some (block k s), upd_part (\<lambda>p. p\<lparr>block_bitmap := m\<rparr>) s)"
    by (rule block_bitmap_alloc_eq [OF ok])
  let ?s = "upd_part (\<lambda>p. p\<lparr>block_bitmap := m\<rparr>) s"
  obtain d where d: "bitmap_sync (of_nat k) BLOCK_BITMAP ?s = Inr (?s\<lparr>disk_data := d\<rparr>)"
    and ok': "blocks_ok (?s\<lparr>disk_data := d\<rparr>)"
    and apart: "\<And>l. unat l < unat (block_bitmap_lba (part_sb s))
      \<or> unat (block_bitmap_lba (part_sb s)) + unat (block_bitmap_sects (part_sb s)) \<le> unat l \<Longrightarrow> d l = disk_data s l"
    by (rule sync_bit [OF ok k(1) m(1)]) blast
  have dd: "d l = disk_data s l" if "data_start_lba (part_sb s) \<le> l" for l
    by (rule apart, rule disjI2) (use that ok in \<open>simp add: blocks_ok_def Let_def word_le_nat_alt\<close>)
  have "unat (of_nat k :: u32) < 2 ^ 32 - 1"
    using block_unat [OF ok k(1)] ok k(1) by (simp add: blocks_ok_def block_cnt_def Let_def max_lba_def)
  then have "(of_nat k :: u32) \<noteq> - 1" by (auto simp: unsigned_minus_1_eq_mask mask_eq_exp_minus_1)
  then have sy: "sync_block_bit (block k s) ?s = Inr (?s\<lparr>disk_data := d\<rparr>)"
    using block_unat(2) [OF ok k(1)] d by (simp add: sync_block_bit_def)
  show ?thesis
  proof (rule that [of "block k s" d m])
    show "take_block_synced s = Inr (block k s, ?s\<lparr>disk_data := d\<rparr>)" using a sy by (simp add: take_block_synced_def)
    show "block k s \<notin> used_blocks s" using k block_inj [OF ok] by (auto simp: used_blocks_def)
    show "used_blocks (?s\<lparr>disk_data := d\<rparr>) = insert (block k s) (used_blocks s)"
      using u k(1) m(2) by (auto simp: used_blocks_def block_cnt_def block_def)
    show "data_blocks (?s\<lparr>disk_data := d\<rparr>) = data_blocks s" using m(2) by (simp add: data_blocks_def block_cnt_def block_def)
  qed (use ok' a sy k dd apart in \<open>auto simp: data_blocks_def\<close>)
qed

lemma free_block_bit_eq:
  assumes ok: "blocks_ok s" and l: "l \<in> data_blocks s"
  obtains m d where "free_block_bit (l - data_start_lba (part_sb s)) s = Inr (upd_part (\<lambda>p. p\<lparr>block_bitmap := m\<rparr>) s\<lparr>disk_data := d\<rparr>)"
    and "blocks_ok (upd_part (\<lambda>p. p\<lparr>block_bitmap := m\<rparr>) s\<lparr>disk_data := d\<rparr>)"
    and "used_blocks (upd_part (\<lambda>p. p\<lparr>block_bitmap := m\<rparr>) s\<lparr>disk_data := d\<rparr>) = used_blocks s - {l}"
    and "data_blocks (upd_part (\<lambda>p. p\<lparr>block_bitmap := m\<rparr>) s\<lparr>disk_data := d\<rparr>) = data_blocks s"
    and "\<And>l. unat l < unat (block_bitmap_lba (part_sb s))
      \<or> unat (block_bitmap_lba (part_sb s)) + unat (block_bitmap_sects (part_sb s)) \<le> unat l \<Longrightarrow> d l = disk_data s l"
proof -
  obtain k where k: "k < block_cnt s" "l = block k s" using l by (auto simp: data_blocks_def)
  let ?m = "block_bitmap (cur_part s)"
  have "backed ?m k" using k ok by (intro wf_backed [OF wf_block_bitmap]) (auto simp: block_cnt_def blocks_ok_def Let_def)
  from bitmap_set_backed [OF this, of 0] obtain m where m: "bitmap_set ?m k 0 = Inr m" "length (bits m) = length (bits ?m)"
    and u: "\<forall>j. used m j \<longleftrightarrow> j \<noteq> k \<and> used ?m j" by auto
  obtain d where d: "bitmap_sync (of_nat k) BLOCK_BITMAP (upd_part (\<lambda>p. p\<lparr>block_bitmap := m\<rparr>) s)
        = Inr (upd_part (\<lambda>p. p\<lparr>block_bitmap := m\<rparr>) s\<lparr>disk_data := d\<rparr>)"
    and ok': "blocks_ok (upd_part (\<lambda>p. p\<lparr>block_bitmap := m\<rparr>) s\<lparr>disk_data := d\<rparr>)"
    and out: "\<And>l. unat l < unat (block_bitmap_lba (part_sb s))
      \<or> unat (block_bitmap_lba (part_sb s)) + unat (block_bitmap_sects (part_sb s)) \<le> unat l \<Longrightarrow> d l = disk_data s l"
    by (rule sync_bit [OF ok k(1) m(1)]) blast
  show ?thesis
  proof (rule that [OF _ ok' _ _ out])
    show "free_block_bit (l - data_start_lba (part_sb s)) s = Inr (upd_part (\<lambda>p. p\<lparr>block_bitmap := m\<rparr>) s\<lparr>disk_data := d\<rparr>)"
      using k block_unat [OF ok k(1)] m(1) d by (simp add: free_block_bit_def)
    show "used_blocks (upd_part (\<lambda>p. p\<lparr>block_bitmap := m\<rparr>) s\<lparr>disk_data := d\<rparr>) = used_blocks s - {l}"
      using u k m(2) block_inj [OF ok] by (auto simp: used_blocks_def block_cnt_def block_def)
    show "data_blocks (upd_part (\<lambda>p. p\<lparr>block_bitmap := m\<rparr>) s\<lparr>disk_data := d\<rparr>) = data_blocks s"
      using m(2) by (simp add: data_blocks_def block_cnt_def block_def)
  qed
qed

lemma give_block_eq:
  assumes ok: "blocks_ok s" and l: "l \<in> data_blocks s"
  shows "\<exists>s'. give_block_synced l s = Inr s' \<and> blocks_ok s' \<and> used_blocks s' = used_blocks s - {l} \<and> data_blocks s' = data_blocks s"
  by (rule free_block_bit_eq [OF ok l]) (unfold give_block_synced_def, blast)

lemma take_block_full:
  assumes ok: "blocks_ok s" and full: "data_blocks s \<subseteq> used_blocks s"
  shows "\<exists>e. take_block_synced s = Inl e"
proof -
  have u: "used (block_bitmap (cur_part s)) k" if "k < btmp_bytes_len (block_bitmap (cur_part s)) * 8" for k
  proof -
    have k: "k < block_cnt s" using that ok by (simp add: blocks_ok_def block_cnt_def Let_def)
    then have "block k s \<in> used_blocks s" using full by (auto simp: data_blocks_def)
    then show ?thesis using k block_inj [OF ok k] by (auto simp: used_blocks_def)
  qed
  then obtain e where "bitmap_scan (block_bitmap (cur_part s)) 1 = Inl e"
    using bit_alloc_spec [OF wf_block_bitmap [OF ok]] by (subst (asm) if_not_P) (use u in auto)
  then show ?thesis by (simp add: take_block_synced_def block_bitmap_alloc_def)
qed

text \<open>The sectors of data blocks.\<close>

lemma disk_read_1: "l \<le> max_lba \<Longrightarrow> disk_read l 1 s = Inr (disk_data s l)"
  by (simp add: disk_read_def)

lemma disk_write_1: "l \<le> max_lba \<Longrightarrow> length bs = 512 \<Longrightarrow> disk_write l bs 1 s = Inr (s\<lparr>disk_data := (disk_data s)(l := bs)\<rparr>)"
  by (simp add: disk_write_def)

lemma blocks_ok_set_inode [simp]: "blocks_ok (set_inode p i s) = blocks_ok s" "used_blocks (set_inode p i s) = used_blocks s"
  by (simp_all add: blocks_ok_def used_blocks_def block_cnt_def block_def set_inode_def)

lemma set_inode_simps [simp]: "disk_data (set_inode p i s) = disk_data s" "dirs (set_inode p i s) = dirs s"
  "cur_part (set_inode p i s) = cur_part s" "get_inode p (set_inode p i s) = Inr i"
  by (simp_all add: set_inode_def get_inode_def)

lemma used_blocks_disk [simp]: "used_blocks (s\<lparr>disk_data := d\<rparr>) = used_blocks s"
  by (simp add: used_blocks_def block_cnt_def block_def)


lemma blocks_ok_write:
  assumes ok: "blocks_ok s" and l: "data_start_lba (part_sb s) \<le> l" and bs: "length bs = 512"
  shows "blocks_ok (s\<lparr>disk_data := (disk_data s)(l := bs)\<rparr>)"
proof -
  let ?b = "part_sb s"
  have g: "disk_ok (disk_data s)" "unat (block_bitmap_lba ?b) + unat (block_bitmap_sects ?b) \<le> unat (data_start_lba ?b)"
    using ok by (simp_all add: blocks_ok_def Let_def)
  have "sectors ((disk_data s)(l := bs)) (block_bitmap_lba ?b) (unat (block_bitmap_sects ?b))
      = sectors (disk_data s) (block_bitmap_lba ?b) (unat (block_bitmap_sects ?b))"
  proof (rule sectors_cong)
    fix i assume i: "i < unat (block_bitmap_sects ?b)"
    have "unat (data_start_lba ?b) < 2 ^ 32" using unsigned_less [of "data_start_lba ?b"] by simp
    then have "unat (block_bitmap_lba ?b + of_nat i) = unat (block_bitmap_lba ?b) + i"
      using i g(2) by (simp add: unat_word_ariths unat_word_of_nat32)
    then have "block_bitmap_lba ?b + of_nat i < l" using i g(2) l by (simp add: word_less_nat_alt word_le_nat_alt)
    then show "((disk_data s)(l := bs)) (block_bitmap_lba ?b + of_nat i) = disk_data s (block_bitmap_lba ?b + of_nat i)" by auto
  qed
  moreover have "disk_ok ((disk_data s)(l := bs))" using g(1) bs by (simp add: disk_ok_def)
  ultimately show ?thesis using ok by (simp add: blocks_ok_def Let_def)
qed

interpretation blk: id_allocator blocks_ok data_blocks used_blocks take_block_synced give_block_synced
proof
  fix s s' l assume ok: "blocks_ok s" and t: "take_block_synced s = Inr (l, s')"
  show "blocks_ok s' \<and> l \<in> data_blocks s \<and> l \<notin> used_blocks s \<and> used_blocks s' = insert l (used_blocks s) \<and> data_blocks s' = data_blocks s"
  proof (cases "data_blocks s \<subseteq> used_blocks s")
    case True
    with take_block_full [OF ok] t show ?thesis by auto
  next
    case False
    then show ?thesis by (rule take_block_eq [OF ok]) (use t in auto)
  qed
next
  fix s assume "blocks_ok s" and "\<not> data_blocks s \<subseteq> used_blocks s"
  then show "\<exists>r. take_block_synced s = Inr r" by (metis take_block_eq)
next
  fix s assume "blocks_ok s" and "data_blocks s \<subseteq> used_blocks s"
  then show "\<exists>e. take_block_synced s = Inl e" by (rule take_block_full)
next
  fix s l assume "blocks_ok s" and "l \<in> data_blocks s"
  then show "\<exists>s'. give_block_synced l s = Inr s' \<and> blocks_ok s' \<and> used_blocks s' = used_blocks s - {l} \<and> data_blocks s' = data_blocks s"
    by (rule give_block_eq)
qed

text \<open>
  What an operation on the inode at \<open>p\<close> leaves alone when it takes blocks, marks them and writes to data
  blocks: the rest of the state, and of the disk all below the data but the block bitmap.
\<close>

definition kept :: "u32 \<Rightarrow> fs \<Rightarrow> fs \<Rightarrow> bool" where
  "kept p s s' \<longleftrightarrow> part_sb s' = part_sb s \<and> start_lba (cur_part s') = start_lba (cur_part s) \<and> sec_cnt (cur_part s') = sec_cnt (cur_part s)
     \<and> inode_bitmap (cur_part s') = inode_bitmap (cur_part s) \<and> open_inode (cur_part s') = open_inode (cur_part s)
     \<and> heap s' = heap s \<and> dirs s' = dirs s \<and> root_dir s' = root_dir s \<and> file_table s' = file_table s
     \<and> thread_fds s' = thread_fds s \<and> thread_cwd s' = thread_cwd s \<and> (\<forall>q. q \<noteq> p \<longrightarrow> inodes s' q = inodes s q)
     \<and> used_blocks s \<subseteq> used_blocks s' \<and> data_blocks s' = data_blocks s
     \<and> (\<forall>l. l < data_start_lba (part_sb s) \<and> (unat l < unat (block_bitmap_lba (part_sb s))
          \<or> unat (block_bitmap_lba (part_sb s)) + unat (block_bitmap_sects (part_sb s)) \<le> unat l) \<longrightarrow> disk_data s' l = disk_data s l)"

lemma kept_refl [simp]: "kept p s s"
  by (simp add: kept_def)

lemma kept_trans: "kept p s s' \<Longrightarrow> kept p s' s'' \<Longrightarrow> kept p s s''"
  unfolding kept_def by auto

lemma kept_set_inode [simp]: "kept p s (set_inode p i s') \<longleftrightarrow> kept p s s'"
  by (auto simp: kept_def set_inode_def used_blocks_def data_blocks_def block_cnt_def block_def)

lemma kept_write: "data_start_lba (part_sb s) \<le> l \<Longrightarrow> kept p s (s\<lparr>disk_data := (disk_data s)(l := b)\<rparr>)"
  by (auto simp: kept_def data_blocks_def block_cnt_def block_def)

lemma kept_write': "kept p s s' \<Longrightarrow> data_start_lba (part_sb s) \<le> l \<Longrightarrow> kept p s (s'\<lparr>disk_data := (disk_data s')(l := b)\<rparr>)"
  by (rule kept_trans [OF _ kept_write]) (simp_all add: kept_def)

lemma kept_take:
  assumes "used_blocks (upd_part (\<lambda>p. p\<lparr>block_bitmap := m\<rparr>) s\<lparr>disk_data := d\<rparr>) = insert lba (used_blocks s)"
    and "data_blocks (upd_part (\<lambda>p. p\<lparr>block_bitmap := m\<rparr>) s\<lparr>disk_data := d\<rparr>) = data_blocks s"
    and "\<And>l. unat l < unat (block_bitmap_lba (part_sb s))
      \<or> unat (block_bitmap_lba (part_sb s)) + unat (block_bitmap_sects (part_sb s)) \<le> unat l \<Longrightarrow> d l = disk_data s l"
  shows "kept p s (upd_part (\<lambda>p. p\<lparr>block_bitmap := m\<rparr>) s\<lparr>disk_data := d\<rparr>)"
  unfolding kept_def using assms by auto

text \<open>The same partition with the same layout; what is in front of the block bitmap, the super block among it, is as it was.\<close>

definition same_layout :: "fs \<Rightarrow> fs \<Rightarrow> bool" where
  "same_layout s s' \<longleftrightarrow> part_sb s' = part_sb s \<and> start_lba (cur_part s') = start_lba (cur_part s) \<and> sec_cnt (cur_part s') = sec_cnt (cur_part s)
     \<and> data_blocks s' = data_blocks s \<and> (\<forall>l. unat l < unat (block_bitmap_lba (part_sb s)) \<longrightarrow> disk_data s' l = disk_data s l)"

lemma same_layout_refl [simp]: "same_layout s s"
  by (simp add: same_layout_def)

lemma same_layout_trans [trans]: "same_layout s s' \<Longrightarrow> same_layout s' s'' \<Longrightarrow> same_layout s s''"
  by (simp add: same_layout_def)

lemma same_layout_kept: "blocks_ok s \<Longrightarrow> kept p s s' \<Longrightarrow> same_layout s s'"
  by (auto simp: same_layout_def kept_def blocks_ok_def Let_def word_less_nat_alt)

lemma finite_data_blocks [simp]: "finite (data_blocks s)"
  by (simp add: data_blocks_def)

lemma card_data_blocks: "blocks_ok s \<Longrightarrow> card (data_blocks s) = block_cnt s"
  unfolding data_blocks_def by (subst card_image) (auto intro!: inj_onI simp: block_inj)

text \<open>A partition of 2000 sectors with one block in use, for the examples: bitmap at 2, inode table at 3, data from 612.\<close>

definition sample_fs :: fs where
  "sample_fs = \<lparr>disk_data = (\<lambda>_. replicate 512 0)(2 := 1 # replicate 511 0),
     cur_part = \<lparr>start_lba = 0, sec_cnt = 2000, my_disk = (0, 1), part_name = [],
      sb = (decode_super_block [])\<lparr>block_bitmap_lba := 2, block_bitmap_sects := 1, inode_table_lba := 3, data_start_lba := 612,
        dir_entry_size := 24\<rparr>,
      block_bitmap = \<lparr>btmp_bytes_len = 512, bits = 1 # replicate 511 0\<rparr>,
      inode_bitmap = \<lparr>btmp_bytes_len = 0, bits = []\<rparr>, open_inode = []\<rparr>,
      heap = [], inodes = Map.empty, dirs = Map.empty, root_dir = 0, file_table = [], thread_fds = [], thread_cwd = 0\<rparr>"

lemma sample_blocks_ok: "blocks_ok sample_fs"
  by (simp add: sample_fs_def blocks_ok_def disk_ok_def max_lba_def)

lemma sample_used: "used_blocks sample_fs = {612}"
proof -
  have "used (block_bitmap (cur_part sample_fs)) k \<longleftrightarrow> k = 0" if "k < 4096" for k
    by (cases "k div 8") (use that in \<open>auto simp: used_def sample_fs_def bit_1_iff\<close>)
  then have "{k. k < 4096 \<and> used (block_bitmap (cur_part sample_fs)) k} = {0}" by auto
  moreover have "block_cnt sample_fs = 4096" by (simp add: block_cnt_def sample_fs_def)
  ultimately show ?thesis by (simp add: used_blocks_def block_def) (simp add: sample_fs_def)
qed

lemma sample_data: "613 \<in> data_blocks sample_fs"
  unfolding data_blocks_def by (rule image_eqI [of _ _ 1]) (simp_all add: block_def block_cnt_def sample_fs_def)

text \<open>
  C17. Blocks are never shared: as long as \<open>n\<close> data blocks are free, taking \<open>n\<close> of them one after the other
  (\<^verbatim>\<open>block_bitmap_alloc\<close>, then \<^verbatim>\<open>bitmap_sync\<close>) succeeds, gives different blocks of the data area that were
  free, marks exactly these, and leaves on the disk the bitmap that is in memory; clearing the bit of a block makes it free again.
\<close>

theorem blocks_no_sharing:
  assumes "blocks_ok s" and "n \<le> card (data_blocks s - used_blocks s)"
  shows "\<exists>ls s'. alloc_many take_block_synced n s = Inr (ls, s') \<and> length ls = n \<and> distinct ls
    \<and> set ls \<subseteq> data_blocks s - used_blocks s \<and> used_blocks s' = used_blocks s \<union> set ls
    \<and> sectors (disk_data s') (block_bitmap_lba (part_sb s')) (unat (block_bitmap_sects (part_sb s'))) = bits (block_bitmap (cur_part s'))
    \<and> (\<forall>l \<in> set ls. \<exists>s''. give_block_synced l s' = Inr s'' \<and> used_blocks s'' = used_blocks s' - {l})"
proof -
  obtain ls s' where a: "alloc_many take_block_synced n s = Inr (ls, s')"
    using blk.alloc_many_room [OF assms(1) finite_data_blocks assms(2)] by auto
  have d: "distinct ls" "length ls = n" "set ls \<inter> used_blocks s = {}" "set ls \<subseteq> data_blocks s" "blocks_ok s'"
    "used_blocks s' = used_blocks s \<union> set ls" "data_blocks s' = data_blocks s"
    using blk.alloc_many_distinct [OF assms(1) a] by simp_all
  have "\<exists>s''. give_block_synced l s' = Inr s'' \<and> used_blocks s'' = used_blocks s' - {l}" if "l \<in> set ls" for l
  proof -
    have "l \<in> data_blocks s'" using d(4,7) that by auto
    from blk.release_live [OF d(5) this] show ?thesis by metis
  qed
  moreover have "sectors (disk_data s') (block_bitmap_lba (part_sb s')) (unat (block_bitmap_sects (part_sb s'))) = bits (block_bitmap (cur_part s'))"
    using d(5) unfolding blocks_ok_def Let_def by (elim conjE)
  moreover have "set ls \<subseteq> data_blocks s - used_blocks s" using d(3,4) by auto
  ultimately show ?thesis using a d(1,2,6) by (intro exI [of _ ls] exI [of _ s']) simp
qed

lemma blocks_no_sharing_witness:
  "\<exists>ls s'. alloc_many take_block_synced 2 sample_fs = Inr (ls, s') \<and> distinct ls \<and> length ls = 2 \<and> 612 \<notin> set ls"
proof -
  have "card (data_blocks sample_fs) = 4096"
    using card_data_blocks [OF sample_blocks_ok] by (simp add: sample_fs_def block_cnt_def)
  then have "2 \<le> card (data_blocks sample_fs - used_blocks sample_fs)" by (simp add: sample_used card_Diff_singleton_if)
  from blocks_no_sharing [OF sample_blocks_ok this] show ?thesis by (auto simp: sample_used)
qed

end
