(* ===== verification/Dir_Map.thy ===== *)
theory Dir_Map
  imports Blocks
begin

text \<open>
  A directory as a map from names to entries: what \<^verbatim>\<open>search_dir_entry\<close> finds, and that
  \<^verbatim>\<open>sync_dir_entry\<close> adds an entry to the map. The entries of a directory are those of its direct
  blocks, in the order of the blocks, 21 to a block.
\<close>

section \<open>The entries of a directory\<close>

definition valid_name :: "str \<Rightarrow> bool" where
  "valid_name n \<longleftrightarrow> n \<noteq> [] \<and> length n < 16 \<and> 0 \<notin> set n"

definition has_name :: "str \<Rightarrow> dir_entry \<Rightarrow> bool" where
  "has_name n e \<longleftrightarrow> take (Suc (length n)) (filename e) = n @ [0]"

definition nth_entry :: "u8 list \<Rightarrow> nat \<Rightarrow> dir_entry" where
  "nth_entry buf k = decode_dir_entry (piece_of buf (24 * k) 24)"

definition entries :: "u8 list \<Rightarrow> dir_entry list" where
  "entries buf = map (nth_entry buf) [0..<21]"

definition dir_entries :: "(u32 \<Rightarrow> u8 list) \<Rightarrow> u32 list \<Rightarrow> dir_entry list" where
  "dir_entries d bs = concat (map (\<lambda>b. entries (d b)) (filter (\<lambda>b. b \<noteq> 0) bs))"

lemma length_entries [simp]: "length (entries buf) = 21"
  by (simp add: entries_def)

lemma dir_entries_simps [simp]:
  "dir_entries d [] = []"
  "dir_entries d (b # bs) = (if b = 0 then dir_entries d bs else entries (d b) @ dir_entries d bs)"
  "dir_entries d (bs @ cs) = dir_entries d bs @ dir_entries d cs"
  "dir_entries d (replicate n 0) = []"
  by (simp_all add: dir_entries_def)

lemma dir_entries_cong: "(\<And>b. b \<in> set bs \<Longrightarrow> b \<noteq> 0 \<Longrightarrow> d b = d' b) \<Longrightarrow> dir_entries d bs = dir_entries d' bs"
  by (induction bs) auto

lemma entry_at_nth: "length buf = 512 \<Longrightarrow> k < 21 \<Longrightarrow> entry_at buf k = Inr (nth_entry buf k)"
  by (simp add: entry_at_def nth_entry_def)

lemma str_eq_take:
  "length n < length cs \<Longrightarrow> 0 \<notin> set n \<Longrightarrow> str_eq cs n = Inr (take (Suc (length n)) cs = n @ [0])"
  by (induction cs n rule: str_eq.induct) (auto simp: take_Suc)

lemma find_entry_eq:
  assumes "length buf = 512" and "valid_name n" and "set ks \<subseteq> {..<21}"
  shows "find_entry buf n ks = Inr (find (has_name n) (map (nth_entry buf) ks))"
  using assms(3)
proof (induction ks)
  case (Cons k ks)
  then have k: "k < 21" by simp
  have "str_eq (drop (24 * k) buf) n = Inr (take (Suc (length n)) (drop (24 * k) buf) = n @ [0])"
    by (rule str_eq_take) (use assms(1,2) k in \<open>auto simp: valid_name_def\<close>)
  also have "take (Suc (length n)) (drop (24 * k) buf) = take (Suc (length n)) (filename (nth_entry buf k))"
    using assms(2) by (simp add: nth_entry_def decode_dir_entry_def piece_of_def valid_name_def min_def)
  finally show ?case using Cons entry_at_nth [OF assms(1) k] by (simp add: has_name_def)
qed simp

lemma free_entry_eq:
  assumes "length buf = 512" and "set ks \<subseteq> {..<21}"
  shows "free_entry buf ks = Inr (find (\<lambda>k. f_type (nth_entry buf k) = FT_UNKNOWN) ks)"
  using assms(2) by (induction ks) (auto simp: entry_at_nth assms(1))

lemma find_append: "find P (xs @ ys) = (case find P xs of None \<Rightarrow> find P ys | Some x \<Rightarrow> Some x)"
  by (induction xs) auto

lemma search_blocks_eq:
  assumes "disk_ok (disk_data s)" and "valid_name n" and "\<forall>b \<in> set bs. b \<noteq> 0 \<longrightarrow> b \<le> max_lba"
  shows "search_blocks n 21 bs s = Inr (find (has_name n) (dir_entries (disk_data s) bs))"
  using assms(3)
proof (induction bs)
  case (Cons b bs)
  have "find_entry (disk_data s b) n [0..<21] = Inr (find (has_name n) (entries (disk_data s b)))"
    unfolding entries_def by (rule find_entry_eq) (use assms in \<open>auto simp: disk_ok_def\<close>)
  with Cons show ?case by (auto simp: disk_read_1 find_append split: option.split)
qed simp

section \<open>A directory\<close>

text \<open>
  The directory \<open>pd\<close> with inode \<open>i\<close> at \<open>p\<close>: no indirect table, direct blocks that are different and marked
  as used, no trace of a name in an entry that is free, and room for another entry.
\<close>

definition dir_blocks :: "inode \<Rightarrow> u32 list" where
  "dir_blocks i = take 12 (i_sectors i)"

definition dir_ok :: "u32 \<Rightarrow> u32 \<Rightarrow> inode \<Rightarrow> fs \<Rightarrow> bool" where
  "dir_ok pd p i s \<longleftrightarrow> blocks_ok s \<and> dir_entry_size (part_sb s) = 24
     \<and> (\<exists>pos. get_dir pd s = Inr \<lparr>dir_inode = p, dir_pos = pos\<rparr>) \<and> get_inode p s = Inr i
     \<and> length (i_sectors i) = 13 \<and> i_sectors i ! 12 = 0
     \<and> unat (i_size i) = 24 * length (filter (\<lambda>e. f_type e \<noteq> FT_UNKNOWN) (dir_entries (disk_data s) (dir_blocks i)))
     \<and> {b \<in> set (dir_blocks i). b \<noteq> 0} \<subseteq> used_blocks s \<and> distinct (filter (\<lambda>b. b \<noteq> 0) (dir_blocks i))
     \<and> (\<forall>e \<in> set (dir_entries (disk_data s) (dir_blocks i)). f_type e = FT_UNKNOWN \<longrightarrow> filename e ! 0 = 0)"

definition free_slot :: "(u32 \<Rightarrow> u8 list) \<Rightarrow> u32 \<Rightarrow> bool" where
  "free_slot d b \<longleftrightarrow> b = 0 \<or> (\<exists>e \<in> set (entries (d b)). f_type e = FT_UNKNOWN)"

definition dir_room :: "inode \<Rightarrow> fs \<Rightarrow> bool" where
  "dir_room i s \<longleftrightarrow> (\<exists>b \<in> set (dir_blocks i). free_slot (disk_data s) b)
     \<and> (0 \<in> set (dir_blocks i) \<longrightarrow> \<not> data_blocks s \<subseteq> used_blocks s)"

definition dir_lookup :: "inode \<Rightarrow> str \<Rightarrow> fs \<Rightarrow> dir_entry option" where
  "dir_lookup i n s = find (has_name n) (dir_entries (disk_data s) (dir_blocks i))"

text \<open>The entries in use.\<close>

definition live :: "inode \<Rightarrow> fs \<Rightarrow> dir_entry list" where
  "live i s = filter (\<lambda>e. f_type e \<noteq> FT_UNKNOWN) (dir_entries (disk_data s) (dir_blocks i))"

lemma dir_blocks_range: "dir_ok pd p i s \<Longrightarrow> b \<in> set (dir_blocks i) \<Longrightarrow> b \<noteq> 0 \<Longrightarrow> b \<le> max_lba \<and> data_start_lba (part_sb s) \<le> b"
  using used_data [of s] data_blocks_range [of s b] by (auto simp: dir_ok_def)

lemma length_dir_entries: "length (dir_entries d bs) \<le> 21 * length bs"
  by (induction bs) auto

lemma dir_ok_size: "dir_ok pd p i s \<Longrightarrow> unat (i_size i) \<le> 24 * 252" and dir_ok_mod: "dir_ok pd p i s \<Longrightarrow> i_size i mod 24 = 0"
proof -
  assume ok: "dir_ok pd p i s"
  let ?L = "dir_entries (disk_data s) (dir_blocks i)" and ?P = "\<lambda>e. f_type e \<noteq> FT_UNKNOWN"
  have "length (dir_blocks i) = 12" "unat (i_size i) = 24 * length (filter ?P ?L)"
    using ok by (simp_all add: dir_ok_def dir_blocks_def)
  moreover have "length (filter ?P ?L) \<le> length ?L" by (rule length_filter_le)
  ultimately show "unat (i_size i) \<le> 24 * 252" using length_dir_entries [of "disk_data s" "dir_blocks i"] by linarith
  show "i_size i mod 24 = 0" using \<open>unat (i_size i) = _\<close> by (simp add: unat_arith_simps)
qed

text \<open>\<^verbatim>\<open>search_dir_entry\<close> is the lookup.\<close>

lemma search_dir_entry_eq:
  assumes ok: "dir_ok pd p i s" and n: "valid_name n" and h: "heap s = a # h" "a \<noteq> 0"
  shows "\<exists>s'. search_dir_entry pd n s = Inr (dir_lookup i n s, s')"
proof -
  have d: "disk_ok (disk_data s)" using ok by (simp add: dir_ok_def blocks_ok_def Let_def)
  obtain s1 s2 where s1: "fs_malloc s = (a, s1)" "s1 = s\<lparr>heap := h\<rparr>" and s2: "snd (fs_malloc s1) = s2"
    using h by (simp add: fs_malloc_def)
  then have eq: "disk_data s2 = disk_data s" "cur_part s2 = cur_part s" by (auto simp: fs_malloc_def split: list.splits)
  have "\<forall>b \<in> set (dir_blocks i @ replicate 128 0). b \<noteq> 0 \<longrightarrow> b \<le> max_lba"
    using dir_blocks_range [OF ok] by auto
  with d n eq have "search_blocks n 21 (dir_blocks i @ replicate 128 0) s2 = Inr (dir_lookup i n s)"
    by (subst search_blocks_eq) (simp_all add: dir_lookup_def)
  moreover have "get_dir pd s1 = get_dir pd s" "get_inode p s1 = get_inode p s" using s1 by (simp_all add: get_dir_def get_inode_def)
  ultimately show ?thesis using ok s1 s2 h eq
    by (auto simp: search_dir_entry_def dir_ok_def all_blocks_def dir_blocks_def entries_per_sec_def SECTOR_SIZE_def
          case_prod_beta Let_def)
qed

section \<open>Adding an entry\<close>

lemma decode_encode_dir_entry: "length (filename e) = 16 \<Longrightarrow> decode_dir_entry (encode_dir_entry e) = e"
  by (simp add: decode_dir_entry_def encode_dir_entry_def get32_def piece_of_def)

lemma length_encode_dir_entry: "length (filename e) = 16 \<Longrightarrow> length (encode_dir_entry e) = 24"
  by (simp add: encode_dir_entry_def)

lemma entries_splice:
  assumes "length buf = 512" and "k < 21" and "length (filename e) = 16"
  shows "entries (splice buf (24 * k) (encode_dir_entry e)) = (entries buf)[k := e]"
proof (rule nth_equalityI)
  note le = length_encode_dir_entry [OF assms(3)]
  fix j assume "j < length (entries (splice buf (24 * k) (encode_dir_entry e)))"
  then have j: "j < 21" by simp
  consider "j = k" | "j < k" | "k < j" by linarith
  then show "entries (splice buf (24 * k) (encode_dir_entry e)) ! j = (entries buf)[k := e] ! j"
  proof cases
    case 1 with assms le show ?thesis by (simp add: entries_def nth_entry_def decode_encode_dir_entry
        piece_of_splice [of "24 * k" "encode_dir_entry e" buf, unfolded le])
  next
    case 2 with assms le j show ?thesis by (simp add: entries_def nth_entry_def piece_of_splice_before)
  next
    case 3 with assms le j show ?thesis by (simp add: entries_def nth_entry_def piece_of_splice_after)
  qed
qed simp

lemma has_name_iff:
  assumes "valid_name n" and "valid_name m" and "filename e = m @ replicate (16 - length m) 0"
  shows "has_name n e \<longleftrightarrow> n = m"
proof
  assume "has_name n e"
  then have "filename e = n @ [0] @ drop (Suc (length n)) (filename e)"
    unfolding has_name_def by (metis append_take_drop_id append_assoc)
  then have "takeWhile (\<lambda>c. c \<noteq> 0) (filename e) = n" using assms(1)
    by (metis (mono_tags, lifting) append_Cons takeWhile_tail takeWhile_eq_all_conv valid_name_def)
  moreover have "takeWhile (\<lambda>c. c \<noteq> 0) (filename e) = m" using assms(2,3)
    by (subst assms(3), subst takeWhile_append2) (auto simp: valid_name_def takeWhile_replicate)
  ultimately show "n = m" by simp
next
  assume "n = m"
  moreover obtain j where "16 - length m = Suc j" using assms(2) by (metis valid_name_def zero_less_diff gr0_implies_Suc)
  ultimately show "has_name n e" using assms(3) by (simp add: has_name_def)
qed

definition blank :: "dir_entry \<Rightarrow> bool" where
  "blank e \<longleftrightarrow> length (filename e) = 16 \<and> filename e ! 0 = 0"

lemma blank_no_name: "valid_name n \<Longrightarrow> blank e \<Longrightarrow> \<not> has_name n e"
  by (cases n; cases "filename e") (auto simp: valid_name_def has_name_def blank_def)

lemma find_none: "(\<forall>x \<in> set xs. \<not> P x) \<Longrightarrow> find P xs = None"
  by (induction xs) auto

lemma find_insert:
  assumes "\<forall>x \<in> set zs. \<not> P x" and "\<forall>x \<in> set zs'. \<not> P x" and "P y \<Longrightarrow> find P (xs @ zs @ ys) = None"
  shows "find P (xs @ y # zs' @ ys) = (if P y then Some y else find P (xs @ zs @ ys))"
  using assms by (auto simp: find_append find_none split: option.splits)


lemma entry_bytes_eq: "dir_entry_size (part_sb s) = 24 \<Longrightarrow> length (filename e) = 16 \<Longrightarrow> entry_bytes e s = Inr (encode_dir_entry e)"
  by (simp add: entry_bytes_def length_encode_dir_entry)

lemma free_slotE:
  assumes "disk_ok d" and "free_slot d b" and "b \<noteq> 0"
  obtains k where "k < 21" and "free_entry (d b) [0..<21] = Inr (Some k)" and "f_type (entries (d b) ! k) = FT_UNKNOWN"
proof -
  let ?P = "\<lambda>k. f_type (nth_entry (d b) k) = FT_UNKNOWN"
  have f: "free_entry (d b) [0..<21] = Inr (find ?P [0..<21])"
    by (rule free_entry_eq) (use assms(1) in \<open>auto simp: disk_ok_def\<close>)
  have "find ?P [0..<21] \<noteq> None" using assms(2,3) by (auto simp: free_slot_def entries_def find_None_iff)
  then obtain k where k: "find ?P [0..<21] = Some k" by auto
  then have "k < 21" "?P k" by (auto simp: find_Some_iff)
  then show ?thesis using that f k by (simp add: entries_def)
qed

lemma no_free_slot: "disk_ok d \<Longrightarrow> \<not> free_slot d b \<Longrightarrow> free_entry (d b) [0..<21] = Inr None"
  by (subst free_entry_eq) (auto simp: disk_ok_def free_slot_def entries_def find_None_iff)

lemma sync_blocks_skip:
  assumes "entry_bytes e s = Inr bytes" and "disk_ok (disk_data s)"
    and "\<forall>k \<in> set ks. blocks ! k \<le> max_lba \<and> \<not> free_slot (disk_data s) (blocks ! k)"
  shows "sync_blocks e p 21 blocks (ks @ is) s = sync_blocks e p 21 blocks is s"
  using assms(3)
proof (induction ks)
  case (Cons k ks)
  then have "blocks ! k \<noteq> 0" by (auto simp: free_slot_def)
  with Cons assms(1,2) show ?case by (simp add: disk_read_1 no_free_slot)
qed simp

text \<open>The loop reaches the first block with a free entry, or the first index without a block.\<close>

lemma sync_dir_entry_reaches:
  assumes ok: "dir_ok pd p i s" and bs: "dir_blocks i = xs @ b # ys" and xs: "\<forall>x \<in> set xs. \<not> free_slot (disk_data s) x"
    and e: "length (filename e) = 16"
  shows "sync_dir_entry pd e s = sync_blocks e p 21 (dir_blocks i @ replicate 128 0) [length xs..<140] s"
proof -
  have len: "length xs < 12" using ok arg_cong [OF bs, of length] by (simp add: dir_ok_def dir_blocks_def)
  have d: "disk_ok (disk_data s)" "dir_entry_size (part_sb s) = 24" using ok by (simp_all add: dir_ok_def blocks_ok_def Let_def)
  have "[0..<140] = [0..<length xs] @ [length xs..<140]" using len upt_add_eq_append [of 0 "length xs" "140 - length xs"] by simp
  moreover have "sync_blocks e p 21 (dir_blocks i @ replicate 128 0) ([0..<length xs] @ [length xs..<140]) s
      = sync_blocks e p 21 (dir_blocks i @ replicate 128 0) [length xs..<140] s"
  proof (rule sync_blocks_skip [OF entry_bytes_eq [OF d(2) e] d(1)], intro ballI)
    fix k assume "k \<in> set [0..<length xs]"
    then have k: "(dir_blocks i @ replicate 128 0) ! k = xs ! k" "xs ! k \<in> set xs" by (simp_all add: bs nth_append)
    moreover have "xs ! k \<noteq> 0" using k(2) xs by (auto simp: free_slot_def)
    ultimately show "(dir_blocks i @ replicate 128 0) ! k \<le> max_lba \<and> \<not> free_slot (disk_data s) ((dir_blocks i @ replicate 128 0) ! k)"
      using dir_blocks_range [OF ok, of "xs ! k"] xs bs by simp
  qed
  ultimately show ?thesis using ok dir_ok_mod [OF ok]
    by (auto simp: sync_dir_entry_def dir_ok_def dir_blocks_def entries_per_sec_def SECTOR_SIZE_def unat_arith_simps)
qed


lemma sync_in_block:
  assumes ok: "dir_ok pd p i s" and bs: "dir_blocks i = xs @ b # ys" and xs: "\<forall>x \<in> set xs. \<not> free_slot (disk_data s) x"
    and e: "length (filename e) = 16" and b: "b \<noteq> 0" "free_slot (disk_data s) b"
  obtains k buf where "k < 21" and "f_type (entries (disk_data s b) ! k) = FT_UNKNOWN" and "length buf = 512"
    and "entries buf = (entries (disk_data s b))[k := e]"
    and "sync_dir_entry pd e s
      = Inr (True, set_inode p (i\<lparr>i_size := i_size i + 24\<rparr>) (s\<lparr>disk_data := (disk_data s)(b := buf)\<rparr>))"
proof -
  have g: "disk_ok (disk_data s)" "dir_entry_size (part_sb s) = 24" "get_inode p s = Inr i"
    using ok by (simp_all add: dir_ok_def blocks_ok_def Let_def)
  have max: "b \<le> max_lba" using dir_blocks_range [OF ok, of b] b(1) bs by simp
  obtain k where k: "k < 21" "free_entry (disk_data s b) [0..<21] = Inr (Some k)" "f_type (entries (disk_data s b) ! k) = FT_UNKNOWN"
    by (rule free_slotE [OF g(1) b(2,1)])
  let ?buf = "splice (disk_data s b) (24 * k) (encode_dir_entry e)"
  have l: "length (disk_data s b) = 512" "length (encode_dir_entry e) = 24" using g(1) e by (simp_all add: disk_ok_def length_encode_dir_entry)
  then have buf: "length ?buf = 512" using k(1) by simp
  have "length xs < 140" using ok arg_cong [OF bs, of length] by (simp add: dir_ok_def dir_blocks_def)
  then have "sync_dir_entry pd e s
      = Inr (True, set_inode p (i\<lparr>i_size := i_size i + 24\<rparr>) (s\<lparr>disk_data := (disk_data s)(b := ?buf)\<rparr>))"
    using sync_dir_entry_reaches [OF ok bs xs e] k(2) b(1) max g(2,3) buf
    by (simp add: upt_conv_Cons bs nth_append entry_bytes_eq [OF g(2) e] disk_read_1 disk_write_1 grow_inode_def get_inode_def set_inode_def)
  then show ?thesis by (rule that [OF k(1,3) buf entries_splice [OF l(1) k(1) e]])
qed

lemma sync_new_block:
  assumes ok: "dir_ok pd p i s" and bs: "dir_blocks i = xs @ 0 # ys" and xs: "\<forall>x \<in> set xs. \<not> free_slot (disk_data s) x"
    and e: "length (filename e) = 16" and room: "\<not> data_blocks s \<subseteq> used_blocks s"
  obtains lba s1 buf where "lba \<in> data_blocks s" and "lba \<notin> used_blocks s" and "length buf = 512"
    and "entries buf = e # map (nth_entry (replicate 512 0)) [1..<21]"
    and "blocks_ok s1" and "used_blocks s1 = insert lba (used_blocks s)" and "part_sb s1 = part_sb s"
    and "\<And>l. data_start_lba (part_sb s) \<le> l \<Longrightarrow> disk_data s1 l = disk_data s l" and "dirs s1 = dirs s"
    and "sync_dir_entry pd e s = Inr (True, set_inode p (i\<lparr>i_sectors := (i_sectors i)[length xs := lba], i_size := i_size i + 24\<rparr>)
        (s1\<lparr>disk_data := (disk_data s1)(lba := buf)\<rparr>))"
    and "kept p s s1"
proof -
  have g: "blocks_ok s" "dir_entry_size (part_sb s) = 24" "get_inode p s = Inr i" "length (dir_blocks i) = 12"
    using ok by (simp_all add: dir_ok_def dir_blocks_def)
  obtain lba m d where t:
      "blocks_ok (upd_part (\<lambda>p. p\<lparr>block_bitmap := m\<rparr>) s\<lparr>disk_data := d\<rparr>)"
      "block_bitmap_alloc s = Inr (Some lba, upd_part (\<lambda>p. p\<lparr>block_bitmap := m\<rparr>) s)"
      "sync_block_bit lba (upd_part (\<lambda>p. p\<lparr>block_bitmap := m\<rparr>) s) = Inr (upd_part (\<lambda>p. p\<lparr>block_bitmap := m\<rparr>) s\<lparr>disk_data := d\<rparr>)"
      "lba \<in> data_blocks s" "lba \<notin> used_blocks s"
      "used_blocks (upd_part (\<lambda>p. p\<lparr>block_bitmap := m\<rparr>) s\<lparr>disk_data := d\<rparr>) = insert lba (used_blocks s)"
      "\<And>l. data_start_lba (part_sb s) \<le> l \<Longrightarrow> d l = disk_data s l"
      "kept p s (upd_part (\<lambda>p. p\<lparr>block_bitmap := m\<rparr>) s\<lparr>disk_data := d\<rparr>)"
    by (rule take_block_eq [OF g(1) room]) (blast intro: kept_take)
  let ?s1 = "upd_part (\<lambda>p. p\<lparr>block_bitmap := m\<rparr>) s\<lparr>disk_data := d\<rparr>"
  let ?buf = "splice (replicate 512 0) (24 * 0) (encode_dir_entry e)"
  have max: "lba \<le> max_lba" by (rule data_blocks_range(2) [OF g(1) t(4)])
  have buf: "length ?buf = 512" using length_encode_dir_entry [OF e] by simp
  have eb: "entries ?buf = e # map (nth_entry (replicate 512 0)) [1..<21]"
    by (subst entries_splice) (simp_all add: e entries_def upt_conv_Cons [of 0 21])
  have len: "length xs < 12" using g(4) arg_cong [OF bs, of length] by simp
  then have "sync_dir_entry pd e s = Inr (True, set_inode p (i\<lparr>i_sectors := (i_sectors i)[length xs := lba], i_size := i_size i + 24\<rparr>)
      (?s1\<lparr>disk_data := (disk_data ?s1)(lba := ?buf)\<rparr>))"
    using sync_dir_entry_reaches [OF ok bs xs e] t(2,3) max g(2,3) buf
    by (simp add: upt_conv_Cons bs nth_append new_dir_block_def entry_bytes_eq [OF g(2) e] disk_write_1 set_sector_def
          grow_inode_def get_inode_def set_inode_def)
  then show ?thesis using that [OF t(4,5) buf eb t(1,6)] t(7,8) by simp
qed


text \<open>In both cases one entry is added, in the place of one that is free or before a number of new ones.\<close>

definition free_entries :: "dir_entry list \<Rightarrow> bool" where
  "free_entries zs \<longleftrightarrow> (\<forall>e \<in> set zs. f_type e = FT_UNKNOWN \<and> blank e)"

lemma free_entries_no_name: "free_entries zs \<Longrightarrow> valid_name n \<Longrightarrow> \<forall>e \<in> set zs. \<not> has_name n e"
  by (auto simp: free_entries_def blank_no_name)

lemma blank_zeros: "k < 21 \<Longrightarrow> f_type (nth_entry (replicate 512 0) k) = FT_UNKNOWN \<and> blank (nth_entry (replicate 512 0) k)"
  by (simp add: nth_entry_def decode_dir_entry_def get32_def of_le32_def piece_of_def FT_UNKNOWN_def blank_def)

lemma dir_ok_insert:
  assumes ok: "dir_ok pd p i s"
    and l: "dir_entries (disk_data s) (dir_blocks i) = A @ zs @ B" "free_entries zs"
    and l': "dir_entries (disk_data s') (dir_blocks i') = A @ e # zs' @ B" "free_entries zs'" "f_type e \<noteq> FT_UNKNOWN"
    and s': "blocks_ok s'" "dir_entry_size (part_sb s') = 24" "dirs s' = dirs s" "get_inode p s' = Inr i'"
    and i': "length (i_sectors i') = 13" "i_sectors i' ! 12 = 0" "i_size i' = i_size i + 24"
      "{b \<in> set (dir_blocks i'). b \<noteq> 0} \<subseteq> used_blocks s'" "distinct (filter (\<lambda>b. b \<noteq> 0) (dir_blocks i'))"
  shows "dir_ok pd p i' s'"
proof -
  have z: "filter (\<lambda>e. f_type e \<noteq> FT_UNKNOWN) zs = []" "filter (\<lambda>e. f_type e \<noteq> FT_UNKNOWN) zs' = []"
    using l(2) l'(2) by (auto simp: free_entries_def filter_empty_conv)
  have "unat (i_size i') = unat (i_size i) + 24" using dir_ok_size [OF ok] i'(3) by (simp add: unat_word_ariths)
  then have "unat (i_size i') = 24 * length (filter (\<lambda>e. f_type e \<noteq> FT_UNKNOWN) (dir_entries (disk_data s') (dir_blocks i')))"
    using ok l'(3) by (simp add: dir_ok_def l(1) l'(1) z)
  moreover have "\<forall>e \<in> set (dir_entries (disk_data s') (dir_blocks i')). f_type e = FT_UNKNOWN \<longrightarrow> filename e ! 0 = 0"
    using ok l'(2,3) by (auto simp: dir_ok_def l(1) l'(1) free_entries_def blank_def)
  moreover have "\<exists>pos. get_dir pd s' = Inr \<lparr>dir_inode = p, dir_pos = pos\<rparr>" using ok s'(3) by (simp add: dir_ok_def get_dir_def)
  ultimately show ?thesis using s' i' by (simp add: dir_ok_def)
qed

lemma sync_dir_entry_inserts:
  assumes ok: "dir_ok pd p i s" and room: "dir_room i s" and e: "length (filename e) = 16" "f_type e \<noteq> FT_UNKNOWN"
  obtains s' i' A zs zs' B where "sync_dir_entry pd e s = Inr (True, s')" and "dir_ok pd p i' s'"
    and "dir_entries (disk_data s) (dir_blocks i) = A @ zs @ B" and "free_entries zs"
    and "dir_entries (disk_data s') (dir_blocks i') = A @ e # zs' @ B" and "free_entries zs'"
    and "i_size i' = i_size i + 24" and "i_no i' = i_no i" and "kept p s s'"
    and "\<And>l. l \<in> used_blocks s - set (dir_blocks i) \<Longrightarrow> disk_data s' l = disk_data s l"
    and "\<exists>l. used_blocks s' \<subseteq> insert l (used_blocks s)"
    and "\<exists>b \<in> set (takeWhile (\<lambda>b. b \<noteq> 0) (dir_blocks i)). free_slot (disk_data s) b \<Longrightarrow> i_sectors i' = i_sectors i \<and> used_blocks s' = used_blocks s"
proof -
  have g: "blocks_ok s" "disk_ok (disk_data s)" "dir_entry_size (part_sb s) = 24" "length (i_sectors i) = 13" "i_sectors i ! 12 = 0"
    "{b \<in> set (dir_blocks i). b \<noteq> 0} \<subseteq> used_blocks s" "distinct (filter (\<lambda>b. b \<noteq> 0) (dir_blocks i))"
    "\<forall>e \<in> set (dir_entries (disk_data s) (dir_blocks i)). f_type e = FT_UNKNOWN \<longrightarrow> filename e ! 0 = 0"
    using ok by (simp_all add: dir_ok_def blocks_ok_def Let_def)
  obtain xs b ys where bs: "dir_blocks i = xs @ b # ys" "free_slot (disk_data s) b" "\<forall>x \<in> set xs. \<not> free_slot (disk_data s) x"
    using room split_list_first_prop [of "dir_blocks i" "free_slot (disk_data s)"] by (auto simp: dir_room_def)
  let ?d = "disk_data s"
  show ?thesis
  proof (cases "b = 0")
    case False
    have used: "b \<le> max_lba" "data_start_lba (part_sb s) \<le> b" using dir_blocks_range [OF ok, of b] False bs(1) by simp_all
    obtain k buf where k: "k < 21" "f_type (entries (?d b) ! k) = FT_UNKNOWN" "length buf = 512"
        "entries buf = (entries (?d b))[k := e]"
        "sync_dir_entry pd e s = Inr (True, set_inode p (i\<lparr>i_size := i_size i + 24\<rparr>) (s\<lparr>disk_data := ?d(b := buf)\<rparr>))"
      by (rule sync_in_block [OF ok bs(1,3) e(1) False bs(2)])
    let ?s' = "set_inode p (i\<lparr>i_size := i_size i + 24\<rparr>) (s\<lparr>disk_data := ?d(b := buf)\<rparr>)"
    let ?A = "dir_entries ?d xs @ take k (entries (?d b))" and ?B = "drop (Suc k) (entries (?d b)) @ dir_entries ?d ys"
    have "b \<notin> set xs" "b \<notin> set ys" using g(7) False by (auto simp: bs(1))
    then have "dir_entries (?d(b := buf)) xs = dir_entries ?d xs" "dir_entries (?d(b := buf)) ys = dir_entries ?d ys"
      by (auto intro!: dir_entries_cong)
    then have new: "dir_entries (disk_data ?s') (dir_blocks (i\<lparr>i_size := i_size i + 24\<rparr>)) = ?A @ e # [] @ ?B"
      using False k(1) bs(1) by (simp add: dir_blocks_def k(4) upd_conv_take_nth_drop)
    have "dir_entries ?d (dir_blocks i) = dir_entries ?d xs @ entries (?d b) @ dir_entries ?d ys" using False by (simp add: bs(1))
    also have "\<dots> = ?A @ [entries (?d b) ! k] @ ?B" by (subst id_take_nth_drop [of k "entries (?d b)"]) (simp_all add: k(1))
    finally have old: "dir_entries ?d (dir_blocks i) = ?A @ [entries (?d b) ! k] @ ?B" .
    have "length (filename (entries (?d b) ! k)) = 16" using k(1) g(2) by (simp add: entries_def nth_entry_def decode_dir_entry_def disk_ok_def)
    moreover have "entries (?d b) ! k \<in> set (dir_entries ?d (dir_blocks i))" unfolding old by simp
    ultimately have free: "free_entries [entries (?d b) ! k]" "free_entries []"
      using g(8) k(2) by (auto simp: free_entries_def blank_def)
    have "blocks_ok ?s'" using blocks_ok_write [OF g(1) used(2) k(3)] by simp
    then have "dir_ok pd p (i\<lparr>i_size := i_size i + 24\<rparr>) ?s'"
      by (rule dir_ok_insert [OF ok old free(1) new free(2) e(2)]) (use g(3-7) in \<open>simp_all add: dir_blocks_def\<close>)
    moreover have "kept p s ?s'" using kept_write [OF used(2), of p buf] by simp
    moreover have "used_blocks ?s' = used_blocks s" by (simp add: used_blocks_def block_cnt_def block_def)
    ultimately show ?thesis using that [OF k(5) _ old free(1) new free(2)] by (simp add: bs(1)) blast
  next
    case True
    have free: "\<not> data_blocks s \<subseteq> used_blocks s" using room bs(1) True by (auto simp: dir_room_def)
    obtain lba s1 buf where t: "lba \<in> data_blocks s" "lba \<notin> used_blocks s" "length buf = 512"
        "entries buf = e # map (nth_entry (replicate 512 0)) [1..<21]"
        "blocks_ok s1" "used_blocks s1 = insert lba (used_blocks s)" "part_sb s1 = part_sb s"
        "\<And>l. data_start_lba (part_sb s) \<le> l \<Longrightarrow> disk_data s1 l = disk_data s l" "dirs s1 = dirs s"
        "sync_dir_entry pd e s = Inr (True, set_inode p (i\<lparr>i_sectors := (i_sectors i)[length xs := lba], i_size := i_size i + 24\<rparr>)
          (s1\<lparr>disk_data := (disk_data s1)(lba := buf)\<rparr>))" "kept p s s1"
      by (rule sync_new_block [OF ok bs(1) [unfolded True] bs(3) e(1) free]) blast
    let ?i' = "i\<lparr>i_sectors := (i_sectors i)[length xs := lba], i_size := i_size i + 24\<rparr>"
    let ?s' = "set_inode p ?i' (s1\<lparr>disk_data := (disk_data s1)(lba := buf)\<rparr>)"
    let ?zs = "map (nth_entry (replicate 512 0)) [1..<21]"
    have len: "length xs < 12" using g(4) arg_cong [OF bs(1), of length] by (simp add: dir_blocks_def)
    have bs': "dir_blocks ?i' = xs @ lba # ys" using arg_cong [OF bs(1), of "\<lambda>l. l[length xs := lba]"] len
      by (simp add: dir_blocks_def take_update_swap)
    have lba: "lba \<noteq> 0" "lba \<le> max_lba" "data_start_lba (part_sb s) \<le> lba" using data_blocks_range [OF g(1) t(1)] by simp_all
    have other: "x \<noteq> lba" "disk_data s1 x = ?d x" if "x \<in> set (dir_blocks i)" "x \<noteq> 0" for x
      using that g(6) t(2,8) dir_blocks_range [OF ok that] by auto
    then have "dir_entries ((disk_data s1)(lba := buf)) xs = dir_entries ?d xs" "dir_entries ((disk_data s1)(lba := buf)) ys = dir_entries ?d ys"
      by (auto intro!: dir_entries_cong simp: bs(1))
    then have new: "dir_entries (disk_data ?s') (dir_blocks ?i') = dir_entries ?d xs @ e # ?zs @ dir_entries ?d ys"
      using lba(1) by (simp add: bs' t(4))
    have old: "dir_entries ?d (dir_blocks i) = dir_entries ?d xs @ [] @ dir_entries ?d ys" by (simp add: bs(1) True)
    have f: "free_entries []" "free_entries ?zs" by (simp_all add: free_entries_def blank_zeros del: upt_Suc upt.simps)
    have "distinct (filter (\<lambda>b. b \<noteq> 0) (dir_blocks ?i'))" using g(7) other lba(1) by (auto simp: bs' bs(1) True)
    moreover have "{b \<in> set (dir_blocks ?i'). b \<noteq> 0} \<subseteq> insert lba (used_blocks s)" using g(6) by (auto simp: bs' bs(1))
    moreover have "blocks_ok ?s'" using blocks_ok_write [OF t(5) _ t(3), of lba] lba(3) by (simp add: t(7))
    ultimately have "dir_ok pd p ?i' ?s'"
      by (intro dir_ok_insert [OF ok old f(1) new f(2) e(2)]) (use g(3-5) len in \<open>simp_all add: t(6,7,9)\<close>)
    moreover have "kept p s ?s'" using kept_write' [OF t(11) lba(3)] by simp
    moreover have "disk_data ?s' l = ?d l" if "l \<in> used_blocks s" for l
      using that t(2,8) used_data [of s] data_blocks_range(1) [OF g(1), of l] by auto
    moreover have "\<not> (\<exists>b \<in> set (takeWhile (\<lambda>b. b \<noteq> 0) (dir_blocks i)). free_slot ?d b)"
    proof -
      have "takeWhile (\<lambda>b. b \<noteq> 0) (dir_blocks i) = xs" unfolding bs(1) True
        using bs(3) by (subst takeWhile_append2) (auto simp: free_slot_def)
      then show ?thesis using bs(3) by simp
    qed
    ultimately show ?thesis using that [OF t(10) _ old f(1) new f(2)] by (simp add: t(6)) blast
  qed
qed


text \<open>
  C10. A directory is a map from names to entries. While there is room, \<^verbatim>\<open>sync_dir_entry\<close> of the entry that
  \<^verbatim>\<open>create_dir_entry\<close> makes for a new name succeeds, whether it reuses a free entry or takes a new block; the
  directory stays well formed, grows by 24 bytes, and afterwards \<^verbatim>\<open>search_dir_entry\<close> finds exactly this entry under
  the new name and what it found before under every other name.
\<close>

theorem sync_dir_entry_adds:
  assumes ok: "dir_ok pd p i s" and room: "dir_room i s" and n: "valid_name n" and new: "dir_lookup i n s = None"
    and ft: "ucast ft \<noteq> FT_UNKNOWN"
  shows "\<exists>e s' i'. create_dir_entry n ino ft = Inr e \<and> e_i_no e = ino \<and> f_type e = ucast ft
    \<and> sync_dir_entry pd e s = Inr (True, s') \<and> dir_ok pd p i' s' \<and> i_size i' = i_size i + 24
    \<and> (\<forall>m. valid_name m \<longrightarrow> dir_lookup i' m s' = (if m = n then Some e else dir_lookup i m s))
    \<and> (\<forall>m a h. valid_name m \<longrightarrow> heap s' = a # h \<longrightarrow> a \<noteq> 0 \<longrightarrow>
         (\<exists>s''. search_dir_entry pd m s' = Inr (if m = n then Some e else dir_lookup i m s, s'')))"
proof -
  let ?e = "\<lparr>filename = n @ replicate (16 - length n) 0, e_i_no = ino, f_type = ucast ft\<rparr>"
  have e: "length (filename ?e) = 16" "f_type ?e \<noteq> FT_UNKNOWN" using n ft by (simp_all add: valid_name_def)
  obtain s' i' A zs zs' B where s: "sync_dir_entry pd ?e s = Inr (True, s')" "dir_ok pd p i' s'"
      "dir_entries (disk_data s) (dir_blocks i) = A @ zs @ B" "free_entries zs"
      "dir_entries (disk_data s') (dir_blocks i') = A @ ?e # zs' @ B" "free_entries zs'" "i_size i' = i_size i + 24"
    by (rule sync_dir_entry_inserts [OF ok room e]) blast
  have l: "dir_lookup i' m s' = (if m = n then Some ?e else dir_lookup i m s)" if m: "valid_name m" for m
  proof -
    have named: "has_name m ?e \<longleftrightarrow> m = n" by (rule has_name_iff [OF m n]) simp
    show ?thesis unfolding dir_lookup_def s(3,5) named [symmetric]
      by (rule find_insert) (use free_entries_no_name [OF s(4) m] free_entries_no_name [OF s(6) m] new named in
          \<open>simp_all add: dir_lookup_def s(3)\<close>)
  qed
  have "\<exists>s''. search_dir_entry pd m s' = Inr (if m = n then Some ?e else dir_lookup i m s, s'')"
    if "valid_name m" "heap s' = a # h" "a \<noteq> 0" for m a h
    using search_dir_entry_eq [OF s(2) that] by (simp add: l that(1))
  then show ?thesis using s(1,2,7) l n by (intro exI [of _ ?e] exI [of _ s'] exI [of _ i']) (simp add: create_dir_entry_def
      valid_name_def MAX_FILE_NAME_LEN_def)
qed

lemma sync_dir_entry_adds_witness:
  "\<exists>s i e s'. create_dir_entry (ascii ''a'') 1 (ucast FT_REGULAR) = Inr e \<and> sync_dir_entry 4 e s = Inr (True, s')
     \<and> dir_lookup i (ascii ''a'') s = None"
proof -
  define i :: inode where "i = \<lparr>i_no = 0, i_size = 0, i_open_cnts = 1, write_deny = False, i_sectors = replicate 13 0\<rparr>"
  define s where "s = sample_fs\<lparr>inodes := [8 \<mapsto> i], dirs := [4 \<mapsto> \<lparr>dir_inode = 8, dir_pos = 0\<rparr>]\<rparr>"
  have part: "data_blocks s = data_blocks sample_fs" "used_blocks s = used_blocks sample_fs"
    by (simp_all add: s_def data_blocks_def used_blocks_def block_cnt_def block_def)
  have b: "blocks_ok s" using sample_blocks_ok by (simp add: s_def blocks_ok_def Let_def)
  have z: "dir_blocks i = replicate 12 0" by (simp add: i_def dir_blocks_def)
  have ok: "dir_ok 4 8 i s" using b unfolding dir_ok_def z by (simp add: s_def sample_fs_def i_def get_dir_def get_inode_def)
  have "\<not> data_blocks s \<subseteq> used_blocks s" using sample_data by (auto simp: part sample_used)
  then have room: "dir_room i s" by (auto simp: dir_room_def z free_slot_def)
  have n: "valid_name (ascii ''a'')" by (simp add: valid_name_def ascii_def)
  have l: "dir_lookup i (ascii ''a'') s = None" by (simp add: dir_lookup_def z)
  show ?thesis using sync_dir_entry_adds [OF ok room n l, of "ucast FT_REGULAR" 1] l by (auto simp: FT_REGULAR_def FT_UNKNOWN_def)
qed


end
