(* ===== verification/File_Bytes.thy ===== *)
theory File_Bytes
  imports Blocks File
begin

text \<open>
  A file as a string of bytes: what \<^verbatim>\<open>file_read\<close> returns, and that \<^verbatim>\<open>file_write\<close> appends. This is for
  files of less than 12 blocks of 512 bytes, which have no indirect table.
\<close>

section \<open>The bytes of a file\<close>

definition file_blocks :: "inode \<Rightarrow> u32 list" where
  "file_blocks i = take (if i_sectors i ! 0 = 0 then 0 else unat (i_size i) div 512 + 1) (i_sectors i)"

definition block_bytes :: "inode \<Rightarrow> fs \<Rightarrow> u8 list" where
  "block_bytes i s = concat (map (disk_data s) (take 12 (i_sectors i)))"

definition file_bytes :: "inode \<Rightarrow> fs \<Rightarrow> u8 list" where
  "file_bytes i s = take (unat (i_size i)) (block_bytes i s)"

text \<open>The first data block is the root directory's; its index is the 0 that \<^verbatim>\<open>file_write\<close> excludes.\<close>

definition file_ok :: "u32 \<Rightarrow> inode \<Rightarrow> fs \<Rightarrow> bool" where
  "file_ok p i s \<longleftrightarrow> blocks_ok s \<and> data_start_lba (part_sb s) \<in> used_blocks s \<and> get_inode p s = Inr i
     \<and> length (i_sectors i) = 13 \<and> unat (i_size i) < 6144 \<and> (i_sectors i ! 0 = 0 \<longrightarrow> i_size i = 0)
     \<and> set (file_blocks i) \<subseteq> used_blocks s \<and> distinct (file_blocks i)
     \<and> (\<forall>j < 12. length (file_blocks i) \<le> j \<longrightarrow> i_sectors i ! j = 0)"

section \<open>Reading\<close>

lemma piece_of_add: "piece_of xs o' (a + b) = piece_of xs o' a @ piece_of xs (o' + a) b"
  by (simp add: piece_of_def take_add add.commute)

lemma concat_piece:
  assumes "disk_ok d" and "q < length bs" and "off + n \<le> 512"
  shows "piece_of (concat (map d bs)) (512 * q + off) n = piece_of (d (bs ! q)) off n"
  using assms(2)
proof (induction bs arbitrary: q)
  case (Cons b bs)
  have l: "length (d b) = 512" using assms(1) by (simp add: disk_ok_def)
  show ?case
  proof (cases q)
    case 0
    then show ?thesis using l assms(3) by (simp add: piece_of_append1)
  next
    case (Suc r)
    then show ?thesis using Cons l by (simp add: piece_of_append2)
  qed
qed simp

lemma read_chunks_eq:
  assumes "disk_ok (disk_data s)" and "length bs = 12" and "12 \<le> length blocks" and "unat pos + n \<le> 6144"
    and "\<And>j. j < 12 \<Longrightarrow> unat pos div 512 \<le> j \<Longrightarrow> 512 * j < unat pos + n \<Longrightarrow> blocks ! j = bs ! j \<and> bs ! j \<le> max_lba"
  shows "read_chunks blocks pos n s = Inr (piece_of (concat (map (disk_data s) bs)) (unat pos) n)"
  using assms(4,5)
proof (induction n arbitrary: pos rule: less_induct)
  case (less n)
  show ?case
  proof (cases "n = 0")
    case True
    then show ?thesis by (subst read_chunks.simps) (simp add: piece_of_def)
  next
    case False
    let ?q = "unat pos div 512" and ?o = "unat pos mod 512" and ?F = "concat (map (disk_data s) bs)"
    define c where "c = min n (512 - ?o)"
    have u: "unat (pos div BLOCK_SIZE) = ?q" "unat (pos mod BLOCK_SIZE) = ?o"
      by (simp_all add: BLOCK_SIZE_def SECTOR_SIZE_def unat_div unat_mod)
    have c: "0 < c" "c \<le> n" "?o + c \<le> 512" using False by (auto simp: c_def)
    have "512 * ?q \<le> unat pos" by simp
    then have q: "?q < 12" "512 * ?q < unat pos + n" using False less.prems(1) by linarith+
    then have b: "blocks ! ?q = bs ! ?q" "bs ! ?q \<le> max_lba" using less.prems(2) by auto
    have uc: "unat (pos + of_nat c) = unat pos + c" using c less.prems(1) by (simp add: unat_word_ariths unat_word_of_nat32)
    have "?q \<le> (unat pos + c) div 512" by (simp add: div_le_mono)
    then have rest: "read_chunks blocks (pos + of_nat c) (n - c) s = Inr (piece_of ?F (unat pos + c) (n - c))"
      using less.IH [of "n - c" "pos + of_nat c"] less.prems c unfolding uc by simp
    have "piece_of (disk_data s (bs ! ?q)) ?o c = piece_of ?F (unat pos) c"
      using concat_piece [of "disk_data s" ?q bs ?o c] assms(1,2) q(1) c(3) by simp
    then have "Inr (piece_of (disk_data s (bs ! ?q)) ?o c @ piece_of ?F (unat pos + c) (n - c)) = Inr (piece_of ?F (unat pos) n)"
      using piece_of_add [of ?F "unat pos" c "n - c"] c(2) by simp
    moreover have "read_chunks blocks pos n s = Inr (piece_of (disk_data s (bs ! ?q)) ?o c @ piece_of ?F (unat pos + c) (n - c))"
      by (subst read_chunks.simps) (use False b q(1) assms(3) rest in \<open>simp add: u Let_def c_def [symmetric] disk_read_1\<close>)
    ultimately show ?thesis by simp
  qed
qed

lemma file_block:
  assumes ok: "file_ok p i s" and j: "512 * j < unat (i_size i)"
  shows "i_sectors i ! j \<in> used_blocks s" and "j < 12"
proof -
  have b: "i_sectors i ! 0 \<noteq> 0" "unat (i_size i) < 6144" "length (i_sectors i) = 13" "set (file_blocks i) \<subseteq> used_blocks s"
    using ok j by (auto simp: file_ok_def)
  then show "j < 12" using j by simp
  have "i_sectors i ! j \<in> set (file_blocks i)" unfolding file_blocks_def set_conv_nth
    by (rule CollectI, rule exI [of _ j]) (use b j in auto)
  with b(4) show "i_sectors i ! j \<in> used_blocks s" by blast
qed

lemma used_block_range:
  assumes "blocks_ok s" and "l \<in> used_blocks s"
  shows "l \<noteq> 0" and "l \<le> max_lba" and "data_start_lba (part_sb s) \<le> l"
  using data_blocks_range [OF assms(1), of l] assms(2) used_data [of s] by auto

text \<open>The run of a read.\<close>

lemma file_read_run:
  assumes ok: "file_ok p i s" and f: "k < length (file_table s)" "file_table s ! k = f" "fd_inode f = p"
    and pos: "fd_pos f \<le> i_size i" and cnt: "unat (fd_pos f) + unat count < 2 ^ 32"
    and h: "heap s = a # b # h" "a \<noteq> 0" "b \<noteq> 0" and m: "m = min (unat count) (unat (i_size i) - unat (fd_pos f))"
  shows "file_read k count s = (if m = 0 \<and> count \<noteq> 0 then Inr (- 1, [], s)
    else Inr (of_nat m, piece_of (file_bytes i s) (unat (fd_pos f)) m,
           set_file k (f\<lparr>fd_pos := fd_pos f + of_nat m\<rparr>) (s\<lparr>heap := h\<rparr>)))"
proof -
  let ?pos = "unat (fd_pos f)" and ?size = "unat (i_size i)"
  have g: "blocks_ok s" "disk_ok (disk_data s)" "get_inode p s = Inr i" "length (i_sectors i) = 13" "?size < 6144"
    using ok by (simp_all add: file_ok_def blocks_ok_def Let_def)
  have le: "?pos \<le> ?size" using pos by (simp add: word_le_nat_alt)
  define over where "over \<longleftrightarrow> fd_pos f + count > i_size i"
  define sz where "sz = (if over then i_size i - fd_pos f else count)"
  have ov: "over \<longleftrightarrow> ?size < ?pos + unat count" using cnt by (simp add: over_def word_less_nat_alt unat_word_ariths)
  have sz: "unat sz = m" using ov le by (auto simp: sz_def m unat_sub word_le_nat_alt)
  have szm: "sz = of_nat m" by (simp flip: sz)
  have sz0: "over \<and> sz = 0 \<longleftrightarrow> m = 0 \<and> count \<noteq> 0" using sz ov le by (auto simp: unat_eq_0 m min_def split: if_splits)
  have end_le: "?pos + m \<le> ?size" using le by (simp add: m)
  then have u: "unat (fd_pos f + sz) = ?pos + m" using sz g(5) by (simp add: unat_word_ariths)
  define st where "st = unat (fd_pos f div BLOCK_SIZE)"
  define en where "en = unat ((fd_pos f + sz) div BLOCK_SIZE)"
  have st: "st = ?pos div 512" by (simp add: st_def BLOCK_SIZE_def SECTOR_SIZE_def unat_div)
  have en: "en = (?pos + m) div 512" using u by (simp add: en_def BLOCK_SIZE_def SECTOR_SIZE_def unat_div)
  have "(?pos + m) div 512 < 12" "?pos div 512 \<le> (?pos + m) div 512" using end_le g(5) by (simp_all add: div_le_mono)
  then have r: "st < 139" "en < 139" "en < 12" unfolding st en by simp_all
  define direct where "direct = (\<lambda>j. if st \<le> j \<and> j \<le> en then i_sectors i ! j else 0)"
  have c: "collect_read i st en t = Inr (map direct [0..<12] @ replicate 128 0)" for t
    using r(3) by (simp add: collect_read_def direct_def Let_def)
  have "read_chunks (map direct [0..<12] @ replicate 128 0) (fd_pos f) m (s\<lparr>heap := h\<rparr>) = Inr (piece_of (block_bytes i (s\<lparr>heap := h\<rparr>)) ?pos m)"
    unfolding block_bytes_def
  proof (rule read_chunks_eq)
    fix j assume j: "j < 12" "?pos div 512 \<le> j" "512 * j < ?pos + m"
    then have "j \<le> en" unfolding en by (simp add: less_eq_div_iff_mult_less_eq mult.commute)
    then have "(map direct [0..<12] @ replicate 128 0) ! j = i_sectors i ! j" using j(1,2) by (simp add: nth_append direct_def st)
    moreover have "i_sectors i ! j \<le> max_lba" using used_block_range(2) [OF g(1)] file_block(1) [OF ok] j(3) end_le by simp
    ultimately show "(map direct [0..<12] @ replicate 128 0) ! j = take 12 (i_sectors i) ! j \<and> take 12 (i_sectors i) ! j \<le> max_lba"
      using j(1) by simp
  qed (use g end_le in simp_all)
  moreover have "piece_of (block_bytes i (s\<lparr>heap := h\<rparr>)) ?pos m = piece_of (file_bytes i s) ?pos m"
    using end_le by (simp add: file_bytes_def piece_of_def block_bytes_def drop_take min_def)
  ultimately have rd: "read_chunks (map direct [0..<12] @ replicate 128 0) (fd_pos f) (unat sz) (s\<lparr>heap := h\<rparr>)
      = Inr (piece_of (file_bytes i s) ?pos m)" by (simp add: sz)
  have gf: "get_file k s = Inr f" using f(1,2) by simp
  show ?thesis
  proof (cases "over \<and> sz = 0")
    case True
    then have "i_size i < fd_pos f + count" "i_size i = fd_pos f" by (auto simp: over_def sz_def split: if_splits)
    then have "file_read k count s = Inr (- 1, [], s)" using gf f(3) g(3) by (simp add: file_read_def Let_def)
    moreover have "m = 0 \<and> count \<noteq> 0" using True unfolding sz0 .
    ultimately show ?thesis by simp
  next
    case False
    have "file_read k count s = Inr (sz, piece_of (file_bytes i s) ?pos m, set_file k (f\<lparr>fd_pos := fd_pos f + sz\<rparr>) (s\<lparr>heap := h\<rparr>))"
      using False gf f(3) g(3) h r c rd unfolding file_read_def
      by (simp add: over_def [symmetric] sz_def [symmetric] fs_malloc_def st_def [symmetric] en_def [symmetric] Let_def del: not_gr_zero not_less)
    moreover have "\<not> (m = 0 \<and> count \<noteq> 0)" using False unfolding sz0 .
    ultimately show ?thesis by (simp only: if_False szm)
  qed
qed

text \<open>
  \<^verbatim>\<open>file_read\<close> returns the bytes of the file from its position on: \<open>count\<close> of them, or as many as there are
  up to the end, and advances the position by as much. At the end of the file it returns \<open>-1\<close> and changes nothing.
\<close>

theorem file_read_returns:
  assumes ok: "file_ok p i s" and f: "k < length (file_table s)" "file_table s ! k = f" "fd_inode f = p"
    and pos: "fd_pos f \<le> i_size i" and cnt: "unat (fd_pos f) + unat count < 2 ^ 32"
    and h: "heap s = a # b # h" "a \<noteq> 0" "b \<noteq> 0" and m: "m = min (unat count) (unat (i_size i) - unat (fd_pos f))"
  shows "file_read k count s = (if m = 0 \<and> count \<noteq> 0 then Inr (- 1, [], s)
    else Inr (of_nat m, piece_of (file_bytes i s) (unat (fd_pos f)) m,
           set_file k (f\<lparr>fd_pos := fd_pos f + of_nat m\<rparr>) (s\<lparr>heap := h\<rparr>)))"
  by (rule file_read_run [OF assms])

lemma sample_start [simp]: "data_start_lba (part_sb sample_fs) = 612"
  by (simp add: sample_fs_def)

lemma file_read_returns_witness:
  "\<exists>s i s'. file_ok 8 i s \<and> i_size i = 5 \<and> file_read 3 9 s = Inr (3, piece_of (file_bytes i s) 2 3, s')"
proof -
  define i :: inode where "i = \<lparr>i_no = 1, i_size = 5, i_open_cnts = 1, write_deny = False, i_sectors = 612 # replicate 12 0\<rparr>"
  define f where "f = \<lparr>fd_pos = 2, fd_flag = 0, fd_inode = 8\<rparr>"
  define s :: fs where "s = sample_fs\<lparr>heap := [16, 32], inodes := [8 \<mapsto> i], file_table := replicate 4 f\<rparr>"
  have ok: "file_ok 8 i s" using sample_blocks_ok sample_used
    by (simp add: file_ok_def file_blocks_def s_def i_def get_inode_def blocks_ok_def used_blocks_def block_cnt_def block_def Let_def)
  have "file_read 3 9 s = (if (3 :: nat) = 0 \<and> (9 :: u32) \<noteq> 0 then Inr (- 1, [], s)
    else Inr (of_nat 3, piece_of (file_bytes i s) (unat (fd_pos f)) 3, set_file 3 (f\<lparr>fd_pos := fd_pos f + of_nat 3\<rparr>) (s\<lparr>heap := []\<rparr>)))"
    by (rule file_read_returns [OF ok, of 3 f 9 16 32]) (simp_all add: s_def f_def i_def)
  then have "file_read 3 9 s = Inr (3, piece_of (file_bytes i s) 2 3, set_file 3 (f\<lparr>fd_pos := 5\<rparr>) (s\<lparr>heap := []\<rparr>))" by (simp add: f_def)
  moreover have "i_size i = 5" by (simp add: i_def)
  ultimately show ?thesis using ok by blast
qed

section \<open>Taking blocks\<close>

text \<open>What a write changes besides the file's inode at \<open>p\<close>: the bitmap and the disk.\<close>

definition after_blocks :: "u32 \<Rightarrow> inode \<Rightarrow> bitmap \<Rightarrow> (u32 \<Rightarrow> u8 list) \<Rightarrow> fs \<Rightarrow> fs" where
  "after_blocks p i m d s = set_inode p i (upd_part (\<lambda>q. q\<lparr>block_bitmap := m\<rparr>) s\<lparr>disk_data := d\<rparr>)"

lemma after_blocks_simps [simp]:
  "disk_data (after_blocks p i m d s) = d" "get_inode p (after_blocks p i m d s) = Inr i"
  "part_sb (after_blocks p i m d s) = part_sb s" "heap (after_blocks p i m d s) = heap s"
  "file_table (after_blocks p i m d s) = file_table s" "block_bitmap (cur_part (after_blocks p i m d s)) = m"
  "start_lba (cur_part (after_blocks p i m d s)) = start_lba (cur_part s)" "sec_cnt (cur_part (after_blocks p i m d s)) = sec_cnt (cur_part s)"
  "after_blocks p i' m' d' (after_blocks p i m d s) = after_blocks p i' m' d' s"
  "set_inode p i' (after_blocks p i m d s) = after_blocks p i' m d s"
  by (simp_all add: after_blocks_def set_inode_def get_inode_def)

lemma get_inode_Some: "get_inode p s = Inr i \<Longrightarrow> inodes s p = Some i"
  by (simp add: get_inode_def split: option.splits)

lemma after_blocks_same: "get_inode p s = Inr i \<Longrightarrow> after_blocks p i (block_bitmap (cur_part s)) (disk_data s) s = s"
  using get_inode_Some [of p s i] by (simp add: after_blocks_def set_inode_def map_upd_triv)

lemma set_sector_after [simp]:
  "set_sector p j l (after_blocks p i m d s) = Inr (after_blocks p (i\<lparr>i_sectors := (i_sectors i)[j := l]\<rparr>) m d s)"
  by (simp add: set_sector_def)

lemma bitmap_sync_set_inode: "bitmap_sync k b s = Inr t \<Longrightarrow> bitmap_sync k b (set_inode p i s) = Inr (set_inode p i t)"
  by (auto simp: bitmap_sync_def disk_write_def set_inode_def rbind_Inr_iff Let_def split: bitmap_type.splits)

lemma data_blocks_set_inode [simp]: "data_blocks (set_inode p i s) = data_blocks s"
  by (simp add: data_blocks_def block_cnt_def block_def)

text \<open>The sectors that do not belong to the block bitmap.\<close>

abbreviation off_bitmap :: "fs \<Rightarrow> u32 \<Rightarrow> bool" where
  "off_bitmap s l \<equiv> unat l < unat (block_bitmap_lba (part_sb s))
     \<or> unat (block_bitmap_lba (part_sb s)) + unat (block_bitmap_sects (part_sb s)) \<le> unat l"

text \<open>One block: the bit is set, then the address stored, then the bitmap synced.\<close>

lemma grab:
  assumes ok: "blocks_ok s" and i: "get_inode p s = Inr i" and free: "\<not> data_blocks s \<subseteq> used_blocks s"
  obtains lba m d where "block_bitmap_alloc s = Inr (Some lba, after_blocks p i m (disk_data s) s)"
    and "\<And>i'. bitmap_sync (lba - data_start_lba (part_sb s)) BLOCK_BITMAP (after_blocks p i' m (disk_data s) s) = Inr (after_blocks p i' m d s)"
    and "\<And>i'. blocks_ok (after_blocks p i' m d s)" and "lba \<in> data_blocks s" and "lba \<notin> used_blocks s"
    and "\<And>i'. used_blocks (after_blocks p i' m d s) = insert lba (used_blocks s)"
    and "\<And>i'. data_blocks (after_blocks p i' m d s) = data_blocks s"
    and "\<And>l. off_bitmap s l \<Longrightarrow> d l = disk_data s l"
proof -
  obtain lba m d where t:
      "blocks_ok (upd_part (\<lambda>p. p\<lparr>block_bitmap := m\<rparr>) s\<lparr>disk_data := d\<rparr>)"
      "block_bitmap_alloc s = Inr (Some lba, upd_part (\<lambda>p. p\<lparr>block_bitmap := m\<rparr>) s)"
      "sync_block_bit lba (upd_part (\<lambda>p. p\<lparr>block_bitmap := m\<rparr>) s) = Inr (upd_part (\<lambda>p. p\<lparr>block_bitmap := m\<rparr>) s\<lparr>disk_data := d\<rparr>)"
      "lba \<in> data_blocks s" "lba \<notin> used_blocks s"
      "used_blocks (upd_part (\<lambda>p. p\<lparr>block_bitmap := m\<rparr>) s\<lparr>disk_data := d\<rparr>) = insert lba (used_blocks s)"
      "data_blocks (upd_part (\<lambda>p. p\<lparr>block_bitmap := m\<rparr>) s\<lparr>disk_data := d\<rparr>) = data_blocks s"
      "\<And>l. off_bitmap s l \<Longrightarrow> d l = disk_data s l"
    by (rule take_block_eq [OF ok free]) blast
  have "upd_part (\<lambda>p. p\<lparr>block_bitmap := m\<rparr>) s = after_blocks p i m (disk_data s) s"
    using get_inode_Some [OF i] by (simp add: after_blocks_def set_inode_def map_upd_triv)
  with t(2) have 1: "block_bitmap_alloc s = Inr (Some lba, after_blocks p i m (disk_data s) s)" by simp
  have 2: "bitmap_sync (lba - data_start_lba (part_sb s)) BLOCK_BITMAP (after_blocks p i' m (disk_data s) s) = Inr (after_blocks p i' m d s)" for i'
  proof -
    have "bitmap_sync (lba - data_start_lba (part_sb s)) BLOCK_BITMAP (upd_part (\<lambda>p. p\<lparr>block_bitmap := m\<rparr>) s)
        = Inr (upd_part (\<lambda>p. p\<lparr>block_bitmap := m\<rparr>) s\<lparr>disk_data := d\<rparr>)"
      using t(3) by (simp add: sync_block_bit_def Let_def rbind_Inr_iff)
    from bitmap_sync_set_inode [OF this, of p i'] show ?thesis by (simp add: after_blocks_def set_inode_def)
  qed
  show ?thesis
    by (rule that [OF 1 2 _ t(4,5) _ _ t(8)]) (use t(1,6,7) in \<open>simp_all add: after_blocks_def\<close>)
qed

text \<open>Storing a list at an index.\<close>

definition put :: "'a list \<Rightarrow> nat \<Rightarrow> 'a list \<Rightarrow> 'a list" where
  "put xs n ys = take n xs @ ys @ drop (n + length ys) xs"

lemma put_Nil [simp]: "put xs n [] = xs"
  by (simp add: put_def)

lemma length_put [simp]: "n + length ys \<le> length xs \<Longrightarrow> length (put xs n ys) = length xs"
  by (simp add: put_def)

lemma put_Cons: "n < length xs \<Longrightarrow> put (xs[n := y]) (Suc n) ys = put xs n (y # ys)"
  by (simp add: put_def take_Suc_conv_app_nth)

lemma nth_put: "n + length ys \<le> length xs \<Longrightarrow> j < length xs \<Longrightarrow>
    put xs n ys ! j = (if n \<le> j \<and> j < n + length ys then ys ! (j - n) else xs ! j)"
  by (auto simp: put_def nth_append)

lemma add_blocks_eq:
  assumes "blocks_ok s" and "get_inode p s = Inr i" and "length (i_sectors i) = 13" and "a + n \<le> 12" and "length blocks = 140"
    and "\<forall>j. a \<le> j \<and> j < a + n \<longrightarrow> i_sectors i ! j = 0" and "data_start_lba (part_sb s) \<in> used_blocks s"
    and "n \<le> card (data_blocks s - used_blocks s)"
  shows "\<exists>ls m d. add_blocks p True [a..<a + n] blocks s = Inr (Some (put blocks a ls), after_blocks p (i\<lparr>i_sectors := put (i_sectors i) a ls\<rparr>) m d s)
    \<and> length ls = n \<and> distinct ls \<and> set ls \<subseteq> data_blocks s - used_blocks s
    \<and> blocks_ok (after_blocks p (i\<lparr>i_sectors := put (i_sectors i) a ls\<rparr>) m d s)
    \<and> used_blocks (after_blocks p (i\<lparr>i_sectors := put (i_sectors i) a ls\<rparr>) m d s) = used_blocks s \<union> set ls
    \<and> (\<forall>l. off_bitmap s l \<longrightarrow> d l = disk_data s l)"
  using assms
proof (induction n arbitrary: a i blocks s)
  case 0
  then show ?case by (intro exI [of _ "[]"] exI [of _ "block_bitmap (cur_part s)"] exI [of _ "disk_data s"]) (simp add: after_blocks_same)
next
  case (Suc n)
  have "\<not> data_blocks s \<subseteq> used_blocks s" using Suc.prems(8) by (metis Diff_eq_empty_iff card.empty not_less_eq_eq zero_le)
  then obtain lba m d where t: "block_bitmap_alloc s = Inr (Some lba, after_blocks p i m (disk_data s) s)"
      "\<And>i'. bitmap_sync (lba - data_start_lba (part_sb s)) BLOCK_BITMAP (after_blocks p i' m (disk_data s) s) = Inr (after_blocks p i' m d s)"
      "\<And>i'. blocks_ok (after_blocks p i' m d s)" "lba \<in> data_blocks s" "lba \<notin> used_blocks s"
      "\<And>i'. used_blocks (after_blocks p i' m d s) = insert lba (used_blocks s)"
      "\<And>i'. data_blocks (after_blocks p i' m d s) = data_blocks s"
      "\<And>l. off_bitmap s l \<Longrightarrow> d l = disk_data s l"
    by (rule grab [OF Suc.prems(1,2)]) blast
  let ?i = "i\<lparr>i_sectors := (i_sectors i)[a := lba]\<rparr>"
  let ?s = "after_blocks p ?i m d s"
  have "data_blocks s - insert lba (used_blocks s) = (data_blocks s - used_blocks s) - {lba}" by auto
  then have c: "n \<le> card (data_blocks ?s - used_blocks ?s)" using Suc.prems(8) t(4,5,6,7) by simp
  have "lba \<noteq> data_start_lba (part_sb s)" using t(5) Suc.prems(7) by auto
  then have step: "add_blocks p True [a..<a + Suc n] blocks s = add_blocks p True [Suc a..<Suc a + n] (blocks[a := lba]) ?s"
    using Suc.prems(4,6) t(1,2) by (simp add: upt_conv_Cons del: upt_Suc)
  have "\<exists>ls m d. add_blocks p True [Suc a..<Suc a + n] (blocks[a := lba]) ?s
        = Inr (Some (put (blocks[a := lba]) (Suc a) ls), after_blocks p (?i\<lparr>i_sectors := put (i_sectors ?i) (Suc a) ls\<rparr>) m d ?s)
    \<and> length ls = n \<and> distinct ls \<and> set ls \<subseteq> data_blocks ?s - used_blocks ?s
    \<and> blocks_ok (after_blocks p (?i\<lparr>i_sectors := put (i_sectors ?i) (Suc a) ls\<rparr>) m d ?s)
    \<and> used_blocks (after_blocks p (?i\<lparr>i_sectors := put (i_sectors ?i) (Suc a) ls\<rparr>) m d ?s) = used_blocks ?s \<union> set ls
    \<and> (\<forall>l. off_bitmap ?s l \<longrightarrow> d l = disk_data ?s l)"
    by (rule Suc.IH) (use Suc.prems t(3,6) c in \<open>simp_all\<close>)
  then obtain ls m' d' where r: "add_blocks p True [Suc a..<Suc a + n] (blocks[a := lba]) ?s
        = Inr (Some (put (blocks[a := lba]) (Suc a) ls), after_blocks p (?i\<lparr>i_sectors := put (i_sectors ?i) (Suc a) ls\<rparr>) m' d' ?s)"
    "length ls = n" "distinct ls" "set ls \<subseteq> data_blocks ?s - used_blocks ?s"
    "blocks_ok (after_blocks p (?i\<lparr>i_sectors := put (i_sectors ?i) (Suc a) ls\<rparr>) m' d' ?s)"
    "used_blocks (after_blocks p (?i\<lparr>i_sectors := put (i_sectors ?i) (Suc a) ls\<rparr>) m' d' ?s) = used_blocks ?s \<union> set ls"
    "\<forall>l. off_bitmap ?s l \<longrightarrow> d' l = disk_data ?s l" by blast
  have p: "put (blocks[a := lba]) (Suc a) ls = put blocks a (lba # ls)" "put (i_sectors ?i) (Suc a) ls = put (i_sectors i) a (lba # ls)"
    using Suc.prems(3-5) by (simp_all add: put_Cons)
  show ?case
    using r t(4-8) unfolding step p by (intro exI [of _ "lba # ls"] exI [of _ m'] exI [of _ d']) auto
qed

section \<open>The writing loop\<close>

lemma length_concat_blocks: "disk_ok d \<Longrightarrow> length (concat (map d bs)) = 512 * length bs"
  by (induction bs) (simp_all add: disk_ok_def)

lemma write_piece:
  assumes d: "disk_ok d" and q: "q < length bs" "\<And>j. j < q \<Longrightarrow> bs ! j \<noteq> bs ! q" and io: "length io = 512" "take off io = take off (d (bs ! q))"
    and c: "off + length src \<le> 512"
  shows "take (512 * q + off + length src) (concat (map (d(bs ! q := splice io off src)) bs)) = take (512 * q + off) (concat (map d bs)) @ src"
proof -
  let ?d = "d(bs ! q := splice io off src)"
  have bs: "bs = take q bs @ bs ! q # drop (Suc q) bs" using q(1) by (rule id_take_nth_drop)
  have "bs ! q \<notin> set (take q bs)" using q by (auto simp: in_set_conv_nth)
  then have same: "concat (map ?d (take q bs)) = concat (map d (take q bs))" by (intro arg_cong [of _ _ concat] map_cong) auto
  have l: "length (concat (map d (take q bs))) = 512 * q" using length_concat_blocks [OF d, of "take q bs"] q(1) by simp
  have F: "concat (map e bs) = concat (map e (take q bs)) @ e (bs ! q) @ concat (map e (drop (Suc q) bs))" for e
    by (subst bs) simp
  have "length (d (bs ! q)) = 512" using d by (simp add: disk_ok_def)
  then show ?thesis using l c io by (simp only: F same) (simp add: splice_def)
qed

lemma write_chunk_eq:
  assumes "get_inode p s = Inr i" and "k < length (file_table s)" and "unat (i_size i) div 512 < length blocks"
    and lba: "lba = blocks ! (unat (i_size i) div 512)" "lba \<le> max_lba" and d: "disk_ok (disk_data s)"
    and io: "io = (if first then disk_data s lba else replicate 512 0)" and c: "c = min (length src) (512 - unat (i_size i) mod 512)"
  shows "write_chunk k p blocks first src s = Inr (c, set_file k ((file_table s ! k)\<lparr>fd_pos := fd_pos (file_table s ! k) + of_nat c\<rparr>)
    (set_inode p (i\<lparr>i_size := i_size i + of_nat c\<rparr>) (s\<lparr>disk_data := (disk_data s)(lba := splice io (unat (i_size i) mod 512) (take c src))\<rparr>)))"
proof -
  let ?o = "unat (i_size i) mod 512"
  have u: "unat (i_size i div BLOCK_SIZE) = unat (i_size i) div 512" "unat (i_size i mod BLOCK_SIZE) = ?o"
    by (simp_all add: BLOCK_SIZE_def SECTOR_SIZE_def unat_div unat_mod)
  have "?o + c \<le> 512" "c \<le> length src" by (auto simp: c)
  then have "length (splice io ?o (take c src)) = 512" using d by (simp add: io disk_ok_def)
  moreover have "(if first then disk_read lba 1 s else Inr (replicate 512 0)) = Inr io" using lba(2) by (simp add: io disk_read_1)
  ultimately show ?thesis using assms(1-3) lba
    by (simp add: write_chunk_def u c [symmetric] lba(1) [symmetric] Let_def disk_write_1 set_inode_def set_file_def)
qed

text \<open>The state after some bytes have been written.\<close>

definition written :: "nat \<Rightarrow> u32 \<Rightarrow> inode \<Rightarrow> nat \<Rightarrow> (u32 \<Rightarrow> u8 list) \<Rightarrow> fs \<Rightarrow> fs" where
  "written k p i n d s = set_file k ((file_table s ! k)\<lparr>fd_pos := fd_pos (file_table s ! k) + of_nat n\<rparr>)
     (set_inode p (i\<lparr>i_size := i_size i + of_nat n\<rparr>) (s\<lparr>disk_data := d\<rparr>))"

lemma written_simps [simp]:
  "get_inode p (written k p i n d s) = Inr (i\<lparr>i_size := i_size i + of_nat n\<rparr>)" "disk_data (written k p i n d s) = d"
  "cur_part (written k p i n d s) = cur_part s" "length (file_table (written k p i n d s)) = length (file_table s)"
  "heap (written k p i n d s) = heap s"
  by (simp_all add: written_def set_file_def set_inode_def get_inode_def)

lemma written_written: "k < length (file_table s) \<Longrightarrow>
    written k p (i\<lparr>i_size := i_size i + of_nat a\<rparr>) b d' (written k p i a d s) = written k p i (a + b) d' s"
  by (simp add: written_def set_file_def set_inode_def add.assoc)

lemma blocks_ok_written [simp]: "blocks_ok (written k p i n d s) = blocks_ok (s\<lparr>disk_data := d\<rparr>)"
  by (simp add: blocks_ok_def Let_def)

text \<open>The blocks that the bytes from \<open>a\<close> to \<open>a + n\<close> lie in.\<close>

definition touched :: "u32 list \<Rightarrow> nat \<Rightarrow> nat \<Rightarrow> u32 set" where
  "touched bs a n = {bs ! j | j. a div 512 \<le> j \<and> 512 * j < a + n}"

lemma write_chunks_eq:
  assumes "blocks_ok s" and "get_inode p s = Inr i" and "k < length (file_table s)" and "length (i_sectors i) = 13"
    and "unat (i_size i) + length src < 6144" and "12 \<le> length blocks"
    and "\<And>j. unat (i_size i) div 512 \<le> j \<Longrightarrow> 512 * j < unat (i_size i) + length src \<Longrightarrow>
          blocks ! j = i_sectors i ! j \<and> i_sectors i ! j \<le> max_lba \<and> data_start_lba (part_sb s) \<le> i_sectors i ! j
          \<and> (\<forall>j' < j. i_sectors i ! j' \<noteq> i_sectors i ! j)"
    and "first \<or> unat (i_size i) mod 512 = 0"
  shows "\<exists>d. write_chunks k p blocks first src s = Inr (written k p i (length src) d s) \<and> blocks_ok (s\<lparr>disk_data := d\<rparr>)
    \<and> take (unat (i_size i) + length src) (concat (map d (take 12 (i_sectors i))))
        = take (unat (i_size i)) (concat (map (disk_data s) (take 12 (i_sectors i)))) @ src
    \<and> (\<forall>l. l \<notin> touched (i_sectors i) (unat (i_size i)) (length src) \<longrightarrow> d l = disk_data s l)"
  using assms
proof (induction "length src" arbitrary: first src s i rule: less_induct)
  case less
  show ?case
  proof (cases "src = []")
    case True
    have "written k p i 0 (disk_data s) s = s" using get_inode_Some [OF less.prems(2)] less.prems(3)
      by (simp add: written_def set_file_def set_inode_def map_upd_triv)
    then show ?thesis using True less.prems(1) by (subst write_chunks.simps) (intro exI [of _ "disk_data s"], simp)
  next
    case False
    let ?z = "unat (i_size i)" and ?bs = "take 12 (i_sectors i)"
    let ?q = "?z div 512" and ?o = "?z mod 512"
    define c where "c = min (length src) (512 - ?o)"
    define io where "io = (if first then disk_data s (i_sectors i ! ?q) else replicate 512 0)"
    let ?d = "(disk_data s)(i_sectors i ! ?q := splice io ?o (take c src))"
    let ?s = "written k p i c ?d s" and ?i = "i\<lparr>i_size := i_size i + of_nat c\<rparr>"
    have d: "disk_ok (disk_data s)" using less.prems(1) by (simp add: blocks_ok_def Let_def)
    have "?o < 512" by simp
    with False have c: "0 < c" "c \<le> length src" "?o + c \<le> 512" "c = length src \<or> ?o + c = 512" by (auto simp: c_def)
    have "512 * ?q \<le> ?z" by simp
    moreover have "0 < length src" using False by simp
    ultimately have q: "?q < 12" "512 * ?q < ?z + length src" using less.prems(5) by linarith+
    note b = less.prems(7) [OF order_refl q(2)]
    have uz: "unat (i_size i + of_nat c) = ?z + c" using c(2) less.prems(5) by (simp add: unat_word_ariths unat_word_of_nat32)
    have wc: "write_chunk k p blocks first src s = Inr (c, ?s)" unfolding written_def
      by (rule write_chunk_eq) (use less.prems b q d io_def c_def in auto)
    have lio: "length io = 512" using d by (simp add: io_def disk_ok_def)
    have ok': "blocks_ok (s\<lparr>disk_data := ?d\<rparr>)"
      by (rule blocks_ok_write [OF less.prems(1)]) (use b c lio in auto)
    have "take ?o io = take ?o (disk_data s (?bs ! ?q))" using less.prems(8) q(1) by (auto simp: io_def)
    then have content: "take (?z + c) (concat (map ?d ?bs)) = take ?z (concat (map (disk_data s) ?bs)) @ take c src"
      using write_piece [OF d, of ?q ?bs io ?o "take c src"] lio q(1) b c(2,3) less.prems(4) by simp
    have next_q: "(?z + c) div 512 \<le> j \<Longrightarrow> ?q \<le> j" for j by (rule order_trans [OF div_le_mono]) simp_all
    have "\<exists>d'. write_chunks k p blocks False (drop c src) ?s = Inr (written k p ?i (length (drop c src)) d' ?s) \<and> blocks_ok (?s\<lparr>disk_data := d'\<rparr>)
      \<and> take (unat (i_size ?i) + length (drop c src)) (concat (map d' (take 12 (i_sectors ?i))))
          = take (unat (i_size ?i)) (concat (map (disk_data ?s) (take 12 (i_sectors ?i)))) @ drop c src
      \<and> (\<forall>l. l \<notin> touched (i_sectors ?i) (unat (i_size ?i)) (length (drop c src)) \<longrightarrow> d' l = disk_data ?s l)"
    proof (cases "c = length src")
      case True
      then show ?thesis
        using less.prems(3) ok' by (intro exI [of _ ?d], subst write_chunks.simps) (simp add: written_def set_file_def set_inode_def blocks_ok_def Let_def)
    next
      case False
      then have "(?z + c) mod 512 = 0" using c(4) by (metis mod_add_left_eq mod_self)
      then show ?thesis
        by (intro less.hyps) (use less.prems ok' c False uz next_q in \<open>simp_all\<close>)
    qed
    then obtain d' where r: "write_chunks k p blocks False (drop c src) ?s = Inr (written k p ?i (length (drop c src)) d' ?s)"
      "blocks_ok (?s\<lparr>disk_data := d'\<rparr>)"
      "take (?z + length src) (concat (map d' ?bs)) = take (?z + c) (concat (map ?d ?bs)) @ drop c src"
      "\<forall>l. l \<notin> touched (i_sectors i) (?z + c) (length src - c) \<longrightarrow> d' l = ?d l" using c(2) by (auto simp: uz)
    have t: "touched (i_sectors i) (?z + c) (length src - c) \<union> {i_sectors i ! ?q} \<subseteq> touched (i_sectors i) ?z (length src)"
      using c(2) q(2) next_q by (auto simp: touched_def)
    have "write_chunks k p blocks first src s = Inr (written k p i (length src) d' s)"
      using False wc r(1) c(2) less.prems(3) by (subst write_chunks.simps) (simp add: written_written)
    moreover have "blocks_ok (s\<lparr>disk_data := d'\<rparr>)" using r(2) by (simp add: blocks_ok_def Let_def)
    ultimately show ?thesis using r(3,4) content t by (intro exI [of _ d']) auto
  qed
qed

section \<open>Writing\<close>

text \<open>
  \<open>ls\<close> are the blocks that are new after a step of a write: they were free, are marked now, and their addresses are
  stored behind those the file had.
\<close>

definition grown :: "u32 \<Rightarrow> inode \<Rightarrow> fs \<Rightarrow> u32 list \<Rightarrow> inode \<Rightarrow> fs \<Rightarrow> bool" where
  "grown p i s ls i' s' \<longleftrightarrow> i' = i\<lparr>i_sectors := put (i_sectors i) (length (file_blocks i)) ls\<rparr>
     \<and> (\<exists>m d. s' = after_blocks p i' m d s \<and> (\<forall>l. off_bitmap s l \<longrightarrow> d l = disk_data s l))
     \<and> blocks_ok s' \<and> distinct ls \<and> set ls \<subseteq> data_blocks s - used_blocks s \<and> used_blocks s' = used_blocks s \<union> set ls"

lemma grown_refl: "blocks_ok s \<Longrightarrow> get_inode p s = Inr i \<Longrightarrow> grown p i s [] i s"
  using after_blocks_same [of p s i] unfolding grown_def by (metis (no_types, lifting) Diff_iff List.list.set(1) Un_empty_right
      distinct.simps(1) empty_iff put_Nil subsetI inode.surjective inode.update_convs(5))

lemma data_blocks_part:
  assumes "blocks_ok s" and "blocks_ok s'" and "part_sb s' = part_sb s"
  shows "data_blocks s' = data_blocks s"
  using assms by (simp add: data_blocks_def block_cnt_def block_def blocks_ok_def Let_def)

lemma length_file_blocks: "file_ok p i s \<Longrightarrow> i_sectors i ! 0 \<noteq> 0 \<Longrightarrow> length (file_blocks i) = unat (i_size i) div 512 + 1"
  by (auto simp: file_ok_def file_blocks_def)

lemma first_block_eq:
  assumes ok: "file_ok p i s" and room: "i_sectors i ! 0 = 0 \<Longrightarrow> \<not> data_blocks s \<subseteq> used_blocks s"
  shows "\<exists>ls i' s'. first_block p s = Inr (True, s') \<and> grown p i s ls i' s' \<and> file_ok p i' s' \<and> i_sectors i' ! 0 \<noteq> 0
    \<and> length (file_blocks i) + length ls = unat (i_size i) div 512 + 1"
proof (cases "i_sectors i ! 0 = 0")
  case False
  then show ?thesis using ok grown_refl [of s p i] length_file_blocks [OF ok]
    by (intro exI [of _ "[]"] exI [of _ i] exI [of _ s]) (simp add: first_block_def file_ok_def)
next
  case True
  have g: "blocks_ok s" "get_inode p s = Inr i" "data_start_lba (part_sb s) \<in> used_blocks s" "length (i_sectors i) = 13" "i_size i = 0"
    "\<forall>j < 12. i_sectors i ! j = 0" using ok True by (auto simp: file_ok_def file_blocks_def)
  obtain lba m d where t: "block_bitmap_alloc s = Inr (Some lba, after_blocks p i m (disk_data s) s)"
      "\<And>i'. bitmap_sync (lba - data_start_lba (part_sb s)) BLOCK_BITMAP (after_blocks p i' m (disk_data s) s) = Inr (after_blocks p i' m d s)"
      "\<And>i'. blocks_ok (after_blocks p i' m d s)" "lba \<in> data_blocks s" "lba \<notin> used_blocks s"
      "\<And>i'. used_blocks (after_blocks p i' m d s) = insert lba (used_blocks s)"
      "\<And>l. off_bitmap s l \<Longrightarrow> d l = disk_data s l"
    by (rule grab [OF g(1,2) room [OF True]]) blast
  let ?i = "i\<lparr>i_sectors := (i_sectors i)[0 := lba]\<rparr>"
  let ?s = "after_blocks p ?i m d s"
  have "lba \<noteq> 0" by (rule data_blocks_range(3) [OF g(1) t(4)])
  then have "i_sectors ?i ! 0 = lba" "file_blocks ?i = [lba]" using g(4,5) by (simp_all add: file_blocks_def take_Suc_conv_app_nth)
  moreover have "lba \<noteq> data_start_lba (part_sb s)" using g(3) t(5) by auto
  then have "first_block p s = Inr (True, ?s)" using g(2) t(1,2) True by (simp add: first_block_def)
  moreover have "put (i_sectors i) 0 [lba] = (i_sectors i)[0 := lba]" using g(4) put_Cons [of 0 "i_sectors i" lba "[]"] by simp
  moreover have "\<exists>m' d'. ?s = after_blocks p ?i m' d' s \<and> (\<forall>l. off_bitmap s l \<longrightarrow> d' l = disk_data s l)" using t(7) by blast
  ultimately show ?thesis using g t(3-6) True \<open>lba \<noteq> 0\<close>
    by (intro exI [of _ "[lba]"] exI [of _ ?i] exI [of _ ?s]) (auto simp: grown_def file_ok_def file_blocks_def)
qed

lemma collect_blocks_eq:
  assumes ok: "file_ok p i s" and i: "i_sectors i ! 0 \<noteq> 0" and w: "w \<le> 12" "unat (i_size i) div 512 < w"
    and room: "w - (unat (i_size i) div 512 + 1) \<le> card (data_blocks s - used_blocks s)"
  shows "\<exists>blocks ls i' s'. collect_blocks p (unat (i_size i) div 512 + 1) w s = Inr (Some blocks, s') \<and> grown p i s ls i' s'
    \<and> length blocks = 140 \<and> (\<forall>j. unat (i_size i) div 512 \<le> j \<and> j < w \<longrightarrow> blocks ! j = i_sectors i' ! j)
    \<and> length (file_blocks i) + length ls = w"
proof -
  let ?n = "unat (i_size i) div 512"
  define last where "last = (replicate 140 (0 :: u32))[?n := i_sectors i ! ?n]"
  have g: "blocks_ok s" "get_inode p s = Inr i" "data_start_lba (part_sb s) \<in> used_blocks s" "length (i_sectors i) = 13"
    "set (file_blocks i) \<subseteq> used_blocks s" using ok by (simp_all add: file_ok_def)
  have fb: "length (file_blocks i) = ?n + 1" using i g(4) w by (simp add: file_blocks_def)
  show ?thesis
  proof (cases "w = ?n + 1")
    case True
    then have "collect_blocks p (?n + 1) w s = Inr (Some last, s)" using g(2) w by (simp add: collect_blocks_def last_def Let_def)
    moreover have "last ! j = i_sectors i ! j" if "?n \<le> j" "j < w" for j
    proof -
      have "j = ?n" using that True by linarith
      then show ?thesis using w by (simp add: last_def)
    qed
    moreover have "length last = 140" by (simp add: last_def)
    ultimately show ?thesis using True fb grown_refl [OF g(1,2)]
      by (intro exI [of _ last] exI [of _ "[]"] exI [of _ i] exI [of _ s]) simp
  next
    case False
    have "i_sectors i ! ?n \<in> set (file_blocks i)" unfolding in_set_conv_nth
      by (rule exI [of _ ?n]) (use i w g(4) fb in \<open>auto simp: file_blocks_def\<close>)
    then have n0: "i_sectors i ! ?n \<noteq> 0" using used_block_range(1) [OF g(1)] g(5) by blast
    have e: "?n + 1 + (w - (?n + 1)) = w" using w by simp
    have "\<exists>ls m d. add_blocks p True [?n + 1..<?n + 1 + (w - (?n + 1))] last s = Inr (Some (put last (?n + 1) ls),
        after_blocks p (i\<lparr>i_sectors := put (i_sectors i) (?n + 1) ls\<rparr>) m d s)
      \<and> length ls = w - (?n + 1) \<and> distinct ls \<and> set ls \<subseteq> data_blocks s - used_blocks s
      \<and> blocks_ok (after_blocks p (i\<lparr>i_sectors := put (i_sectors i) (?n + 1) ls\<rparr>) m d s)
      \<and> used_blocks (after_blocks p (i\<lparr>i_sectors := put (i_sectors i) (?n + 1) ls\<rparr>) m d s) = used_blocks s \<union> set ls
      \<and> (\<forall>l. off_bitmap s l \<longrightarrow> d l = disk_data s l)"
    proof (rule add_blocks_eq [OF g(1,2,4) _ _ _ g(3) room])
      have "\<forall>j < 12. length (file_blocks i) \<le> j \<longrightarrow> i_sectors i ! j = 0" using ok by (simp add: file_ok_def)
      then show "\<forall>j. ?n + 1 \<le> j \<and> j < ?n + 1 + (w - (?n + 1)) \<longrightarrow> i_sectors i ! j = 0" using w unfolding fb e by simp
    qed (use w e in \<open>simp_all add: last_def\<close>)
    then obtain ls m d where r: "add_blocks p True [?n + 1..<w] last s = Inr (Some (put last (?n + 1) ls),
        after_blocks p (i\<lparr>i_sectors := put (i_sectors i) (?n + 1) ls\<rparr>) m d s)"
      "length ls = w - (?n + 1)" "grown p i s ls (i\<lparr>i_sectors := put (i_sectors i) (?n + 1) ls\<rparr>)
        (after_blocks p (i\<lparr>i_sectors := put (i_sectors i) (?n + 1) ls\<rparr>) m d s)"
      unfolding e grown_def fb by blast
    have "collect_blocks p (?n + 1) w s = Inr (Some (put last (?n + 1) ls), after_blocks p (i\<lparr>i_sectors := put (i_sectors i) (?n + 1) ls\<rparr>) m d s)"
      using False g(2) w n0 r(1) by (simp add: collect_blocks_def last_def Let_def)
    moreover have "put last (?n + 1) ls ! j = put (i_sectors i) (?n + 1) ls ! j" if "?n \<le> j" "j < w" for j
      using that r(2) w g(4) by (cases "j = ?n") (simp_all add: nth_put last_def)
    moreover have "length (put last (?n + 1) ls) = 140" using r(2) w by (simp add: last_def)
    ultimately show ?thesis using r(2,3) fb e
      by (intro exI [of _ "put last (?n + 1) ls"] exI [of _ ls] exI [of _ "i\<lparr>i_sectors := put (i_sectors i) (?n + 1) ls\<rparr>"]
          exI [of _ "after_blocks p (i\<lparr>i_sectors := put (i_sectors i) (?n + 1) ls\<rparr>) m d s"]) simp
  qed
qed

lemma take_put: "n + length ys \<le> length xs \<Longrightarrow> take (n + length ys) (put xs n ys) = take n xs @ ys"
  by (simp add: put_def)

lemma grown_same: "grown p i s ls i' s' \<Longrightarrow> part_sb s' = part_sb s \<and> heap s' = heap s \<and> file_table s' = file_table s
    \<and> start_lba (cur_part s') = start_lba (cur_part s) \<and> sec_cnt (cur_part s') = sec_cnt (cur_part s) \<and> get_inode p s' = Inr i'
    \<and> i_size i' = i_size i \<and> i_no i' = i_no i \<and> (\<forall>l. data_start_lba (part_sb s) \<le> l \<longrightarrow> disk_data s' l = disk_data s l)"
  by (auto simp: grown_def blocks_ok_def Let_def word_le_nat_alt)

lemma grown_kept: "grown p i s ls i' s' \<Longrightarrow> inode_bitmap (cur_part s') = inode_bitmap (cur_part s)
    \<and> open_inode (cur_part s') = open_inode (cur_part s) \<and> thread_fds s' = thread_fds s \<and> dirs s' = dirs s \<and> root_dir s' = root_dir s
    \<and> i_open_cnts i' = i_open_cnts i \<and> write_deny i' = write_deny i \<and> (\<forall>q. q \<noteq> p \<longrightarrow> inodes s' q = inodes s q)
    \<and> used_blocks s' = used_blocks s \<union> set ls \<and> (\<forall>l. off_bitmap s l \<longrightarrow> disk_data s' l = disk_data s l)"
  by (auto simp: grown_def after_blocks_def set_inode_def)

lemma grown_old: "grown p i s ls i' s' \<Longrightarrow> j < length (file_blocks i) \<Longrightarrow> i_sectors i' ! j = i_sectors i ! j"
  by (simp add: grown_def put_def nth_append file_blocks_def)

lemma grown_blocks:
  assumes ok: "file_ok p i s" and g: "grown p i s ls i' s'" and w: "length (file_blocks i) + length ls = w" "w \<le> 12"
  shows "take w (i_sectors i') = file_blocks i @ ls" and "length (i_sectors i') = 13"
    and "set (file_blocks i @ ls) \<subseteq> used_blocks s'" and "distinct (file_blocks i @ ls)"
    and "\<And>j. w \<le> j \<Longrightarrow> j < 12 \<Longrightarrow> i_sectors i' ! j = 0" and "data_start_lba (part_sb s') \<in> used_blocks s'" and "blocks_ok s'"
proof -
  let ?n = "length (file_blocks i)"
  have i: "length (i_sectors i) = 13" "set (file_blocks i) \<subseteq> used_blocks s" "distinct (file_blocks i)"
    "\<forall>j < 12. ?n \<le> j \<longrightarrow> i_sectors i ! j = 0" "data_start_lba (part_sb s) \<in> used_blocks s" using ok by (simp_all add: file_ok_def)
  have s: "i_sectors i' = put (i_sectors i) ?n ls" "distinct ls" "set ls \<subseteq> data_blocks s - used_blocks s"
    "used_blocks s' = used_blocks s \<union> set ls" and b: "blocks_ok s'" using g by (simp_all add: grown_def)
  have "take ?n (i_sectors i) = file_blocks i" by (simp add: file_blocks_def min_def)
  then show "take w (i_sectors i') = file_blocks i @ ls" using take_put [of ?n ls "i_sectors i"] w i(1) by (simp add: s(1))
  show "length (i_sectors i') = 13" using w i(1) by (simp add: s(1))
  show "set (file_blocks i @ ls) \<subseteq> used_blocks s'" "distinct (file_blocks i @ ls)" using i(2,3) s(2-4) by auto
  show "i_sectors i' ! j = 0" if "w \<le> j" "j < 12" for j using that w i(1,4) by (simp add: s(1) nth_put)
  show "data_start_lba (part_sb s') \<in> used_blocks s'" using i(5) s(4) grown_same [OF g] by simp
  show "blocks_ok s'" by (rule b)
qed

lemma take_concat_cong:
  assumes "disk_ok d" and "disk_ok d'" and "length bs = length bs'" and "\<And>j. 512 * j < n \<Longrightarrow> j < length bs \<Longrightarrow> d (bs ! j) = d' (bs' ! j)"
  shows "take n (concat (map d bs)) = take n (concat (map d' bs'))"
  using assms(3,4)
proof (induction bs bs' arbitrary: n rule: list_induct2)
  case (Cons b bs b' bs')
  have "take (n - 512) (concat (map d bs)) = take (n - 512) (concat (map d' bs'))"
  proof (rule Cons.IH)
    fix j assume "512 * j < n - 512" "j < length bs"
    then show "d (bs ! j) = d' (bs' ! j)" using Cons.prems [of "Suc j"] by simp
  qed
  moreover have "n = 0 \<or> d b = d' b'" using Cons.prems [of 0] by auto
  ultimately show ?case using assms(1,2) by (auto simp: disk_ok_def)
qed simp

lemma block_index: "512 * j < (n :: nat) \<Longrightarrow> j < n div 512 + 1"
  using div_le_mono [of "512 * j" n 512] by simp

text \<open>The order of the parts of a partition: the block bitmap, the inode table, the data blocks.\<close>

definition layout_ok :: "fs \<Rightarrow> bool" where
  "layout_ok s \<longleftrightarrow> table_ok s
     \<and> unat (block_bitmap_lba (part_sb s)) + unat (block_bitmap_sects (part_sb s)) \<le> unat (inode_table_lba (part_sb s))
     \<and> unat (inode_table_lba (part_sb s)) + 608 \<le> unat (data_start_lba (part_sb s))"

lemma unat_less32: "unat (w :: u32) < 2 ^ 32"
  using unsigned_less [of w] by simp

lemma table_unat: "layout_ok s \<Longrightarrow> k < 608 \<Longrightarrow> unat (inode_table_lba (part_sb s) + of_nat k) = unat (inode_table_lba (part_sb s)) + k"
  using unat_less32 [of "data_start_lba (part_sb s)"] by (simp add: layout_ok_def unat_word_ariths unat_word_of_nat32)

text \<open>Writing to the inode table leaves the blocks alone.\<close>

lemma table_frame:
  assumes lay: "layout_ok s" and b: "blocks_ok s" and m: "disk_ok m"
    and other: "\<forall>l. (\<forall>k < 608. l \<noteq> inode_table_lba (part_sb s) + of_nat k) \<longrightarrow> m l = disk_data s l"
  shows "blocks_ok (s\<lparr>disk_data := m\<rparr>)" and "\<And>l. data_start_lba (part_sb s) \<le> l \<Longrightarrow> m l = disk_data s l"
    and "\<And>l. unat l < unat (inode_table_lba (part_sb s)) \<Longrightarrow> m l = disk_data s l"
proof -
  show low: "m l = disk_data s l" if "unat l < unat (inode_table_lba (part_sb s))" for l
  proof -
    have "l \<noteq> inode_table_lba (part_sb s) + of_nat k" if "k < 608" for k
      using table_unat [OF lay that] \<open>unat l < _\<close> by auto
    with other show ?thesis by blast
  qed
  show "m l = disk_data s l" if l: "data_start_lba (part_sb s) \<le> l" for l
  proof -
    have "l \<noteq> inode_table_lba (part_sb s) + of_nat k" if "k < 608" for k
      using table_unat [OF lay that] lay l that by (auto simp: layout_ok_def word_le_nat_alt)
    with other show ?thesis by blast
  qed
  have "sectors m (block_bitmap_lba (part_sb s)) (unat (block_bitmap_sects (part_sb s)))
      = sectors (disk_data s) (block_bitmap_lba (part_sb s)) (unat (block_bitmap_sects (part_sb s)))"
  proof (rule sectors_cong)
    fix j assume j: "j < unat (block_bitmap_sects (part_sb s))"
    have "unat (block_bitmap_sects (part_sb s)) < 2 ^ 32" "unat (inode_table_lba (part_sb s)) < 2 ^ 32" by (rule unat_less32)+
    then have "unat (block_bitmap_lba (part_sb s) + of_nat j) = unat (block_bitmap_lba (part_sb s)) + j"
      using j lay by (simp add: layout_ok_def unat_word_ariths unat_word_of_nat32)
    then show "m (block_bitmap_lba (part_sb s) + of_nat j) = disk_data s (block_bitmap_lba (part_sb s) + of_nat j)"
      using j lay by (intro low) (simp add: layout_ok_def)
  qed
  then show "blocks_ok (s\<lparr>disk_data := m\<rparr>)" using b m by (simp add: blocks_ok_def Let_def)
qed

lemma sync_keeps_blocks:
  assumes lay: "layout_ok s" and b: "blocks_ok s" and i: "length (i_sectors i) = 13"
  obtains m where "inode_sync i s = Inr (s\<lparr>disk_data := m\<rparr>)" and "blocks_ok (s\<lparr>disk_data := m\<rparr>)"
    and "stored_inode (i_no i AND 0xff) (s\<lparr>disk_data := m\<rparr>) = i\<lparr>i_open_cnts := 0, write_deny := False\<rparr>"
    and "\<And>l. data_start_lba (part_sb s) \<le> l \<Longrightarrow> m l = disk_data s l"
    and "\<And>l. unat l < unat (inode_table_lba (part_sb s)) \<Longrightarrow> m l = disk_data s l"
    and "\<And>n. n < 4096 \<Longrightarrow> n \<noteq> i_no i AND 0xff \<Longrightarrow> stored_inode n (s\<lparr>disk_data := m\<rparr>) = stored_inode n s"
proof -
  have t: "table_ok s" using lay by (simp add: layout_ok_def)
  obtain m where m: "inode_sync i s = Inr (s\<lparr>disk_data := m\<rparr>)" "table_ok (s\<lparr>disk_data := m\<rparr>)"
    "\<forall>n < 4096. stored_inode n (s\<lparr>disk_data := m\<rparr>) =
          (if n = i_no i AND 0xff then i\<lparr>i_open_cnts := 0, write_deny := False\<rparr> else stored_inode n s)"
    "\<forall>l. (\<forall>k < 608. l \<noteq> inode_table_lba (part_sb s) + of_nat k) \<longrightarrow> m l = disk_data s l"
    using inode_sync_table [OF t i] by blast
  have "i_no i AND 0xff \<le> 0xff" by (rule word_and_le1)
  then have "i_no i AND 0xff < 4096" by (rule le_less_trans) simp
  then have st: "stored_inode (i_no i AND 0xff) (s\<lparr>disk_data := m\<rparr>) = i\<lparr>i_open_cnts := 0, write_deny := False\<rparr>" using m(3) by simp
  have "disk_ok m" using m(2) by (simp add: table_ok_def)
  note f = table_frame [OF lay b this m(4)]
  show ?thesis by (rule that [OF m(1) f(1) st f(2,3)]) (use m(3) in auto)
qed

text \<open>Clearing an inode on the disk.\<close>

lemma inode_delete_keeps:
  assumes lay: "layout_ok s" and b: "blocks_ok s" and n: "n < 4096"
  obtains m where "inode_delete n s = Inr (s\<lparr>disk_data := m\<rparr>)" and "blocks_ok (s\<lparr>disk_data := m\<rparr>)"
    and "\<And>l. data_start_lba (part_sb s) \<le> l \<Longrightarrow> m l = disk_data s l"
    and "\<And>l. unat l < unat (inode_table_lba (part_sb s)) \<Longrightarrow> m l = disk_data s l"
    and "\<And>q. q < 4096 \<Longrightarrow> q \<noteq> n \<Longrightarrow> stored_inode q (s\<lparr>disk_data := m\<rparr>) = stored_inode q s"
proof -
  have t: "table_ok s" using lay by (simp add: layout_ok_def)
  have len: "length (replicate 76 (0 :: u8)) = 76" by simp
  obtain pos m where m: "inode_locate n s = Inr pos" "sec_lba pos \<le> start_lba (cur_part s) + sec_cnt (cur_part s)"
    "patch_inode pos (replicate 76 0) s = Inr (s\<lparr>disk_data := m\<rparr>)" "disk_ok m"
    "sectors m (inode_table_lba (part_sb s)) 609 = splice (sectors (disk_data s) (inode_table_lba (part_sb s)) 609) (76 * unat n) (replicate 76 0)"
    "\<forall>l. (\<forall>i < 608. l \<noteq> inode_table_lba (part_sb s) + of_nat i) \<longrightarrow> m l = disk_data s l"
    by (rule patch_inode_table [OF t n len])
  have run: "inode_delete n s = Inr (s\<lparr>disk_data := m\<rparr>)" using n m(1-3) by (simp add: inode_delete_def del: replicate.simps)
  have d: "disk_ok (disk_data s)" using t by (simp add: table_ok_def)
  note f = table_frame [OF lay b m(4,6)]
  show ?thesis by (rule that [OF run f]) (use stored_inode_splice [OF d len n _ m(5)] in auto)
qed

text \<open>The entries of the inode table lie in 608 sectors.\<close>

lemma stored_cong:
  assumes lay: "layout_ok s" and n: "n < 4096" and sb: "part_sb s' = part_sb s" and d: "disk_ok (disk_data s')"
    and eq: "\<And>l. unat (inode_table_lba (part_sb s)) \<le> unat l \<Longrightarrow> l < data_start_lba (part_sb s) \<Longrightarrow> disk_data s' l = disk_data s l"
  shows "stored_inode n s' = stored_inode n s"
proof -
  let ?t = "inode_table_lba (part_sb s)"
  have "unat n < 4096" using n by (simp add: word_less_nat_alt)
  then have n: "76 * unat n + 76 \<le> 512 * 608" by simp
  have "disk_ok (disk_data s)" using lay by (simp add: layout_ok_def table_ok_def)
  then have p: "piece_of (sectors e ?t 609) (76 * unat n) 76 = piece_of (sectors e ?t 608) (76 * unat n) 76"
    if "e = disk_data s \<or> e = disk_data s'" for e
    using sectors_add [of e ?t 608 1] d n that by (auto simp: piece_of_append1 length_sectors)
  have "sectors (disk_data s') ?t 608 = sectors (disk_data s) ?t 608"
  proof (rule sectors_cong)
    fix j assume j: "j < (608 :: nat)"
    show "disk_data s' (?t + of_nat j) = disk_data s (?t + of_nat j)"
      by (rule eq) (use table_unat [OF lay j] j lay in \<open>simp_all add: layout_ok_def word_less_nat_alt\<close>)
  qed
  then show ?thesis by (simp add: stored_inode_def sb p)
qed

text \<open>The two steps that reserve the blocks of a write.\<close>

lemma put_put: "n + length ys + length zs \<le> length xs \<Longrightarrow> put (put xs n ys) (n + length ys) zs = put xs n (ys @ zs)"
  by (cases ys) (auto simp: put_def min_def ac_simps)

lemma grown_trans:
  assumes ok: "file_ok p i s" and g: "grown p i s ls i1 s1" "grown p i1 s1 ls' i2 s2"
    and n: "length (file_blocks i1) = length (file_blocks i) + length ls" "length (file_blocks i1) + length ls' \<le> 12"
  shows "grown p i s (ls @ ls') i2 s2"
proof -
  have "data_blocks s1 = data_blocks s" using data_blocks_part [of s s1] ok g(1) grown_same [OF g(1)]
    by (simp add: file_ok_def grown_def)
  moreover have "put (put (i_sectors i) (length (file_blocks i)) ls) (length (file_blocks i) + length ls) ls'
      = put (i_sectors i) (length (file_blocks i)) (ls @ ls')" by (rule put_put) (use ok n in \<open>simp add: file_ok_def\<close>)
  ultimately show ?thesis using g n(1) by (auto simp: grown_def) blast
qed

lemma reserve_blocks:
  assumes ok: "file_ok p i s" and size: "unat (i_size i) + n < 6144" and w: "w = (unat (i_size i) + n) div 512 + 1"
    and room: "w - length (file_blocks i) \<le> card (data_blocks s - used_blocks s)"
  obtains s1 blocks ls i' s' where "first_block p s = Inr (True, s1)"
    and "collect_blocks p (unat (i_size i) div 512 + 1) w s1 = Inr (Some blocks, s')" and "grown p i s ls i' s'"
    and "length (file_blocks i) + length ls = w" and "length blocks = 140"
    and "\<And>j. unat (i_size i) div 512 \<le> j \<Longrightarrow> j < w \<Longrightarrow> blocks ! j = i_sectors i' ! j"
proof -
  let ?n = "unat (i_size i) div 512"
  have w': "w \<le> 12" "?n < w" using size by (simp_all add: w div_le_mono less_Suc_eq_le)
  have "\<not> data_blocks s \<subseteq> used_blocks s" if "i_sectors i ! 0 = 0"
  proof -
    have "0 < card (data_blocks s - used_blocks s)" using room w' that by (simp add: file_blocks_def)
    then show ?thesis by (auto simp: card_gt_0_iff)
  qed
  then obtain ls i1 s1 where 1: "first_block p s = Inr (True, s1)" "grown p i s ls i1 s1" "file_ok p i1 s1" "i_sectors i1 ! 0 \<noteq> 0"
      "length (file_blocks i) + length ls = ?n + 1" using first_block_eq [OF ok] by blast
  have z1: "unat (i_size i1) = unat (i_size i)" using grown_same [OF 1(2)] by simp
  have "card (data_blocks s1 - used_blocks s1) = card (data_blocks s - used_blocks s) - length ls"
  proof -
    have g: "distinct ls" "set ls \<subseteq> data_blocks s - used_blocks s" "used_blocks s1 = used_blocks s \<union> set ls"
      using 1(2) by (simp_all add: grown_def)
    moreover have "data_blocks s1 = data_blocks s"
      using data_blocks_part [of s s1] 1(3) ok grown_same [OF 1(2)] by (simp add: file_ok_def)
    ultimately have "data_blocks s1 - used_blocks s1 = (data_blocks s - used_blocks s) - set ls" by auto
    then show ?thesis using card_Diff_subset [OF _ g(2)] by (simp add: distinct_card [OF g(1)])
  qed
  then have "w - (unat (i_size i1) div 512 + 1) \<le> card (data_blocks s1 - used_blocks s1)" using room 1(5) z1 by linarith
  with w' z1 collect_blocks_eq [OF 1(3,4), of w] obtain blocks ls' i2 s2 where
      2: "collect_blocks p (?n + 1) w s1 = Inr (Some blocks, s2)" "grown p i1 s1 ls' i2 s2" "length blocks = 140"
      "\<forall>j. ?n \<le> j \<and> j < w \<longrightarrow> blocks ! j = i_sectors i2 ! j" "length (file_blocks i1) + length ls' = w" by auto
  have n1: "length (file_blocks i1) = length (file_blocks i) + length ls" using length_file_blocks [OF 1(3,4)] 1(5) z1 by simp
  have "grown p i s (ls @ ls') i2 s2" by (rule grown_trans [OF ok 1(2) 2(2) n1]) (use w' 2(5) in simp)
  then show ?thesis by (rule that [OF 1(1) 2(1) _ _ 2(3)]) (use 2(4,5) n1 in auto)
qed

text \<open>The loop on the reserved blocks.\<close>

lemma write_reserved:
  assumes ok: "file_ok p i s" and size: "unat (i_size i) + length src < 6144" and w: "w = (unat (i_size i) + length src) div 512 + 1"
    and g: "grown p i s ls i' s'" "length (file_blocks i) + length ls = w"
    and blocks: "length blocks = 140" "\<And>j. unat (i_size i) div 512 \<le> j \<Longrightarrow> j < w \<Longrightarrow> blocks ! j = i_sectors i' ! j"
    and k: "k < length (file_table s)"
  obtains d where "write_chunks k p blocks True src (set_file k f s') = Inr (written k p i' (length src) d (set_file k f s'))"
    and "blocks_ok (s'\<lparr>disk_data := d\<rparr>)"
    and "take (unat (i_size i) + length src) (concat (map d (take 12 (i_sectors i')))) = file_bytes i s @ src"
    and "\<And>l. l \<in> used_blocks s - set (file_blocks i) \<Longrightarrow> d l = disk_data s l"
    and "\<And>l. l < data_start_lba (part_sb s) \<Longrightarrow> d l = disk_data s' l"
proof -
  let ?z = "unat (i_size i)" and ?s = "set_file k f s'"
  have w12: "w \<le> 12" using size by (simp add: w)
  note same = grown_same [OF g(1)] and b = grown_blocks [OF ok g w12]
  have nth: "j < w \<Longrightarrow> i_sectors i' ! j = (file_blocks i @ ls) ! j" for j by (simp add: b(1) [symmetric])
  have used: "j < w \<Longrightarrow> i_sectors i' ! j \<in> used_blocks s'" for j
    using b(3) g(2) nth_mem [of j "file_blocks i @ ls"] unfolding nth by auto
  have "\<exists>d. write_chunks k p blocks True src ?s = Inr (written k p i' (length src) d ?s) \<and> blocks_ok (?s\<lparr>disk_data := d\<rparr>)
    \<and> take (unat (i_size i') + length src) (concat (map d (take 12 (i_sectors i'))))
        = take (unat (i_size i')) (concat (map (disk_data ?s) (take 12 (i_sectors i')))) @ src
    \<and> (\<forall>l. l \<notin> touched (i_sectors i') (unat (i_size i')) (length src) \<longrightarrow> d l = disk_data ?s l)"
  proof (rule write_chunks_eq)
    fix j assume j: "unat (i_size i') div 512 \<le> j" "512 * j < unat (i_size i') + length src"
    then have jw: "j < w" using block_index same by (simp add: w)
    then have "i_sectors i' ! j' \<noteq> i_sectors i' ! j" if "j' < j" for j'
      using that b(4) g(2) by (simp add: nth nth_eq_iff_index_eq)
    then show "blocks ! j = i_sectors i' ! j \<and> i_sectors i' ! j \<le> max_lba \<and> data_start_lba (part_sb ?s) \<le> i_sectors i' ! j
        \<and> (\<forall>j' < j. i_sectors i' ! j' \<noteq> i_sectors i' ! j)"
      using blocks(2) j(1) jw used_block_range(2,3) [OF b(7) used [OF jw]] same by (simp add: set_file_def)
  qed (use b(2,7) same k size blocks(1) in \<open>simp_all add: set_file_def get_inode_def blocks_ok_def\<close>)
  then obtain d where d: "write_chunks k p blocks True src ?s = Inr (written k p i' (length src) d ?s)" "blocks_ok (?s\<lparr>disk_data := d\<rparr>)"
    "take (?z + length src) (concat (map d (take 12 (i_sectors i')))) = take ?z (concat (map (disk_data s') (take 12 (i_sectors i')))) @ src"
    "\<forall>l. l \<notin> touched (i_sectors i') ?z (length src) \<longrightarrow> d l = disk_data s' l" using same by (auto simp: set_file_def)
  have s: "blocks_ok s" "disk_ok (disk_data s)" "disk_ok (disk_data s')" using ok b(7) by (simp_all add: file_ok_def blocks_ok_def Let_def)
  have "take ?z (concat (map (disk_data s') (take 12 (i_sectors i')))) = take ?z (concat (map (disk_data s) (take 12 (i_sectors i))))"
  proof (rule take_concat_cong [OF s(3,2)])
    fix j assume j: "512 * j < ?z" "j < length (take 12 (i_sectors i'))"
    have i0: "i_sectors i ! 0 \<noteq> 0" using j(1) ok by (auto simp: file_ok_def)
    have "i_sectors i' ! j = i_sectors i ! j" using grown_old [OF g(1)] length_file_blocks [OF ok i0] block_index [OF j(1)] by simp
    moreover have "data_start_lba (part_sb s) \<le> i_sectors i ! j" by (rule used_block_range(3) [OF s(1) file_block(1) [OF ok j(1)]])
    ultimately show "disk_data s' (take 12 (i_sectors i') ! j) = disk_data s (take 12 (i_sectors i) ! j)" using j(2) same by simp
  qed (use b(2) ok in \<open>simp add: file_ok_def\<close>)
  then have bytes: "take (?z + length src) (concat (map d (take 12 (i_sectors i')))) = file_bytes i s @ src"
    using d(3) by (simp add: file_bytes_def block_bytes_def)
  have others: "d l = disk_data s l" if l: "l \<in> used_blocks s - set (file_blocks i)" for l
  proof -
    have "touched (i_sectors i') ?z (length src) \<subseteq> set (file_blocks i @ ls)"
      using block_index nth nth_mem [of _ "file_blocks i @ ls", unfolded length_append g(2)] w by (fastforce simp: touched_def)
    moreover have "set ls \<inter> used_blocks s = {}" using g(1) by (auto simp: grown_def)
    ultimately have "l \<notin> touched (i_sectors i') ?z (length src)" using l by auto
    then show ?thesis using d(4) same used_block_range(3) [OF s(1), of l] l by simp
  qed
  have low: "d l = disk_data s' l" if l: "l < data_start_lba (part_sb s)" for l
  proof -
    have "data_start_lba (part_sb s) \<le> i_sectors i' ! j" if "j < w" for j
      using used_block_range(3) [OF b(7) used [OF that]] same by simp
    then have "l \<notin> touched (i_sectors i') ?z (length src)" using block_index l w by (fastforce simp: touched_def)
    then show ?thesis using d(4) by simp
  qed
  have "blocks_ok (s'\<lparr>disk_data := d\<rparr>)" using d(2) by (simp add: blocks_ok_def set_file_def)
  then show ?thesis by (rule that [OF d(1) _ bytes others low])
qed

text \<open>Writing the inode back changes no data block.\<close>

lemma file_bytes_synced:
  assumes m: "\<And>l. data_start_lba (part_sb s) \<le> l \<Longrightarrow> m l = d l" and dok: "disk_ok m" "disk_ok d"
    and used: "\<And>j. 512 * j < n \<Longrightarrow> j < 12 \<Longrightarrow> data_start_lba (part_sb s) \<le> bs ! j"
  shows "take n (concat (map m (take 12 bs))) = take n (concat (map d (take 12 bs)))"
  by (rule take_concat_cong [OF dok]) (use m used in auto)

text \<open>The run of a write, with all that it leaves alone.\<close>

lemma file_write_run:
  assumes ok: "file_ok p i s" and lay: "layout_ok s" and f: "k < length (file_table s)" "file_table s ! k = f" "fd_inode f = p"
    and size: "unat (i_size i) + length src < 6144"
    and room: "(unat (i_size i) + length src) div 512 + 1 - length (file_blocks i) \<le> card (data_blocks s - used_blocks s)"
    and h: "heap s = a # b # c # h" "a \<noteq> 0" "b \<noteq> 0" "c \<noteq> 0"
  shows "\<exists>s' i'. file_write k src s = Inr (of_nat (length src), s') \<and> file_ok p i' s'
    \<and> file_bytes i' s' = file_bytes i s @ src \<and> i_no i' = i_no i
    \<and> (\<forall>l \<in> used_blocks s - set (file_blocks i). disk_data s' l = disk_data s l)
    \<and> stored_inode (i_no i AND 0xff) s' = i'\<lparr>i_open_cnts := 0, write_deny := False\<rparr>
    \<and> file_table s' = (file_table s)[k := f\<lparr>fd_pos := i_size i' - 1\<rparr>] \<and> i_size i' = i_size i + of_nat (length src)
    \<and> thread_fds s' = thread_fds s \<and> heap s' = h \<and> dirs s' = dirs s \<and> root_dir s' = root_dir s \<and> part_sb s' = part_sb s
    \<and> (\<forall>q. q \<noteq> p \<longrightarrow> inodes s' q = inodes s q) \<and> used_blocks s \<subseteq> used_blocks s'
    \<and> layout_ok s' \<and> (\<forall>l. off_bitmap s l \<and> unat l < unat (inode_table_lba (part_sb s)) \<longrightarrow> disk_data s' l = disk_data s l)
    \<and> (\<forall>n < 4096. n \<noteq> i_no i AND 0xff \<longrightarrow> stored_inode n s' = stored_inode n s)
    \<and> start_lba (cur_part s') = start_lba (cur_part s) \<and> sec_cnt (cur_part s') = sec_cnt (cur_part s)
    \<and> inode_bitmap (cur_part s') = inode_bitmap (cur_part s) \<and> open_inode (cur_part s') = open_inode (cur_part s)
    \<and> i_open_cnts i' = i_open_cnts i \<and> write_deny i' = write_deny i \<and> i_sectors i' ! 12 = i_sectors i ! 12
    \<and> set (file_blocks i') \<subseteq> set (file_blocks i) \<union> (used_blocks s' - used_blocks s) \<and> used_blocks s' = used_blocks s \<union> set (file_blocks i')
    \<and> same_layout s s' \<and> set (file_blocks i) \<subseteq> set (file_blocks i')"
proof -
  let ?z = "unat (i_size i)" and ?s = "s\<lparr>heap := c # h\<rparr>"
  define w where "w = (?z + length src) div 512 + 1"
  have w12: "w \<le> 12" using size by (simp add: w_def)
  have same: "data_blocks ?s = data_blocks s" "used_blocks ?s = used_blocks s" "blocks_ok ?s = blocks_ok s" "get_inode p ?s = get_inode p s"
    by (simp_all add: data_blocks_def used_blocks_def block_cnt_def block_def blocks_ok_def get_inode_def)
  have ok0: "file_ok p i ?s" using ok by (simp add: file_ok_def same)
  obtain s1 blocks ls i2 s2 where 1: "first_block p ?s = Inr (True, s1)" "collect_blocks p (?z div 512 + 1) w s1 = Inr (Some blocks, s2)"
      "grown p i ?s ls i2 s2" "length (file_blocks i) + length ls = w" "length blocks = 140"
      "\<And>j. ?z div 512 \<le> j \<Longrightarrow> j < w \<Longrightarrow> blocks ! j = i_sectors i2 ! j"
    by (rule reserve_blocks [OF ok0 size w_def]) (use room in \<open>simp_all add: same w_def\<close>)
  note s2 = grown_same [OF 1(3)] and b2 = grown_blocks [OF ok0 1(3,4) w12]
  let ?s2 = "set_file k (f\<lparr>fd_pos := i_size i - 1\<rparr>) s2" and ?i3 = "i2\<lparr>i_size := i_size i2 + of_nat (length src)\<rparr>"
  obtain d where 2: "write_chunks k p blocks True src ?s2 = Inr (written k p i2 (length src) d ?s2)" "blocks_ok (s2\<lparr>disk_data := d\<rparr>)"
    "take (?z + length src) (concat (map d (take 12 (i_sectors i2)))) = file_bytes i ?s @ src"
    "\<And>l. l \<in> used_blocks s - set (file_blocks i) \<Longrightarrow> d l = disk_data s l" "\<And>l. l < data_start_lba (part_sb s) \<Longrightarrow> d l = disk_data s2 l"
    by (rule write_reserved [OF ok0 size w_def 1(3-6), of k "f\<lparr>fd_pos := i_size i - 1\<rparr>"]) (use f(1) in \<open>simp_all add: same\<close>)
  let ?s3 = "written k p i2 (length src) d ?s2\<lparr>heap := h\<rparr>"
  have part3: "cur_part ?s3 = cur_part s2" "disk_data ?s3 = d" by (simp_all add: set_file_def)
  have ok3: "blocks_ok ?s3" using 2(2) by (simp add: blocks_ok_def Let_def set_file_def)
  then have lay3: "layout_ok ?s3" using lay part3 s2 by (simp add: layout_ok_def table_ok_def blocks_ok_def Let_def set_file_def)
  obtain m where 3: "inode_sync ?i3 ?s3 = Inr (?s3\<lparr>disk_data := m\<rparr>)" "blocks_ok (?s3\<lparr>disk_data := m\<rparr>)"
    "stored_inode (i_no ?i3 AND 0xff) (?s3\<lparr>disk_data := m\<rparr>) = ?i3\<lparr>i_open_cnts := 0, write_deny := False\<rparr>"
    "\<And>l. data_start_lba (part_sb ?s3) \<le> l \<Longrightarrow> m l = disk_data ?s3 l"
    "\<And>l. unat l < unat (inode_table_lba (part_sb ?s3)) \<Longrightarrow> m l = disk_data ?s3 l"
    "\<And>n. n < 4096 \<Longrightarrow> n \<noteq> i_no ?i3 AND 0xff \<Longrightarrow> stored_inode n (?s3\<lparr>disk_data := m\<rparr>) = stored_inode n ?s3"
    by (rule sync_keeps_blocks [OF lay3 ok3, of ?i3]) (use b2(2) in auto)
  let ?s' = "?s3\<lparr>disk_data := m\<rparr>"
  have gi: "get_inode p ?s3 = Inr ?i3" by (simp add: written_def set_file_def set_inode_def get_inode_def)
  have z: "unat (of_nat (length src) :: u32) = length src" using size by (intro unat_word_of_nat32) simp
  then have z3: "unat (i_size i + of_nat (length src)) = ?z + length src" using size by (simp add: unat_word_ariths)
  have run: "file_write k src s = Inr (of_nat (length src), ?s')"
  proof -
    have le: "\<not> i_size i + of_nat (length src) > BLOCK_SIZE * 140" using size z3
      by (simp add: word_less_nat_alt BLOCK_SIZE_def SECTOR_SIZE_def)
    have has: "unat (i_size i div BLOCK_SIZE + 1) = ?z div 512 + 1" "unat ((i_size i + of_nat (length src)) div BLOCK_SIZE + 1) = w"
      using size z3 by (simp_all add: BLOCK_SIZE_def SECTOR_SIZE_def unat_word_ariths unat_div w_def)
    have files: "get_file k s = Inr f" "get_file k s2 = Inr f" "heap ?s2 = c # h" using f(1,2) s2 by (simp_all add: set_file_def)
    have "fs_malloc s = (a, s\<lparr>heap := b # c # h\<rparr>)" "fs_malloc (s\<lparr>heap := b # c # h\<rparr>) = (b, ?s)"
      "fs_malloc (written k p i2 (length src) d ?s2) = (c, ?s3)" using h(1) files(3) by (simp_all add: fs_malloc_def)
    then show ?thesis using ok le w12 files(1,2) f(3) h(2-4) 1(1,2) 2(1) 3(1) gi
      by (simp add: file_write_def file_ok_def has Let_def del: not_less)
  qed
  have used2: "i_sectors i2 ! j \<in> used_blocks s2" if "j < w" for j
    using that b2(3) 1(4) nth_mem [of j "take w (i_sectors i2)"] w12 b2(2) unfolding b2(1) [symmetric] by auto
  have i0: "i_sectors i2 ! 0 \<noteq> 0" by (rule used_block_range(1) [OF b2(7) used2]) (simp add: w_def)
  have i3: "unat (i_size ?i3) = ?z + length src" using z3 s2 by simp
  have "file_blocks ?i3 = take w (i_sectors i2)" unfolding file_blocks_def i3 using i0 by (simp add: w_def)
  then have fb: "file_blocks ?i3 = file_blocks i @ ls" unfolding b2(1) .
  have "used_blocks ?s' = used_blocks s2" by (simp add: used_blocks_def block_cnt_def block_def set_file_def)
  moreover have "part_sb ?s' = part_sb s2" "get_inode p ?s' = Inr ?i3" using gi by (simp_all add: set_file_def get_inode_def)
  ultimately have final: "file_ok p ?i3 ?s'" using 3(2) b2(2-6) i3 size 1(4) i0 unfolding file_ok_def fb by simp
  have m: "m l = d l" if "data_start_lba (part_sb s2) \<le> l" for l using 3(4) [of l] that part3 by simp
  have "take (?z + length src) (concat (map m (take 12 (i_sectors i2)))) = take (?z + length src) (concat (map d (take 12 (i_sectors i2))))"
  proof (rule file_bytes_synced [of s2])
    fix j assume "512 * j < ?z + length src"
    then show "data_start_lba (part_sb s2) \<le> i_sectors i2 ! j" using block_index used_block_range(3) [OF b2(7) used2] by (simp add: w_def)
  qed (use m 3(2) 2(2) in \<open>simp_all add: blocks_ok_def Let_def\<close>)
  then have bytes: "file_bytes ?i3 ?s' = file_bytes i s @ src" using 2(3) unfolding file_bytes_def block_bytes_def i3 by simp
  have others: "\<forall>l \<in> used_blocks s - set (file_blocks i). disk_data ?s' l = disk_data s l"
    using 2(4) m used_block_range(3) [of s] ok s2 by (simp add: file_ok_def)
  have pos: "file_table ?s' = (file_table s)[k := f\<lparr>fd_pos := i_size ?i3 - 1\<rparr>]" using f(1) s2
    by (simp add: written_def set_file_def set_inode_def diff_add_eq)
  have rest: "thread_fds ?s' = thread_fds s" "dirs ?s' = dirs s" "root_dir ?s' = root_dir s" "part_sb ?s' = part_sb s"
    "\<forall>q. q \<noteq> p \<longrightarrow> inodes ?s' q = inodes s q" "used_blocks s \<subseteq> used_blocks ?s'"
    using 1(3) same(2) by (auto simp: grown_def after_blocks_def written_def set_file_def set_inode_def used_blocks_def block_cnt_def block_def)
  note kept = grown_kept [OF 1(3)]
  have lay': "layout_ok ?s'" using lay3 3(2) by (simp add: layout_ok_def table_ok_def blocks_ok_def Let_def)
  have low: "\<forall>l. off_bitmap s l \<and> unat l < unat (inode_table_lba (part_sb s)) \<longrightarrow> disk_data ?s' l = disk_data s l"
    using 2(5) 3(5) kept lay s2 part3 by (auto simp: layout_ok_def word_less_nat_alt)
  have stored: "stored_inode n ?s' = stored_inode n s" if "n < 4096" "n \<noteq> i_no i AND 0xff" for n
  proof -
    have "disk_ok (disk_data ?s3)" using ok3 by (simp only: blocks_ok_def Let_def)
    then have "stored_inode n ?s3 = stored_inode n s"
      by (intro stored_cong [OF lay that(1)]) (use 2(5) kept lay s2 part3 in \<open>auto simp: layout_ok_def\<close>)
    then show ?thesis using 3(6) [OF that(1)] that(2) s2 by simp
  qed
  have more: "start_lba (cur_part ?s') = start_lba (cur_part s)" "sec_cnt (cur_part ?s') = sec_cnt (cur_part s)"
    "inode_bitmap (cur_part ?s') = inode_bitmap (cur_part s)" "open_inode (cur_part ?s') = open_inode (cur_part s)"
    "i_open_cnts ?i3 = i_open_cnts i" "write_deny ?i3 = write_deny i"
    using s2 kept by (simp_all add: set_file_def)
  have "i_sectors i2 = put (i_sectors i) (length (file_blocks i)) ls" using 1(3) by (simp add: grown_def)
  then have table: "i_sectors ?i3 ! 12 = i_sectors i ! 12" using 1(4) w12 ok by (simp add: nth_put file_ok_def)
  have "set ls \<inter> used_blocks s = {}" "used_blocks ?s' = used_blocks s \<union> set ls"
    using 1(3) same(2) by (auto simp: grown_def used_blocks_def block_cnt_def block_def set_file_def)
  then have fresh: "set (file_blocks ?i3) \<subseteq> set (file_blocks i) \<union> (used_blocks ?s' - used_blocks s)"
    "used_blocks ?s' = used_blocks s \<union> set (file_blocks ?i3)" "set (file_blocks i) \<subseteq> set (file_blocks ?i3)" unfolding fb using ok by (auto simp: file_ok_def)
  have front: "same_layout s ?s'"
  proof -
    have "data_blocks ?s' = data_blocks s"
      by (rule data_blocks_part) (use ok 3(2) rest(4) in \<open>simp_all only: file_ok_def\<close>)
    moreover have "unat (block_bitmap_lba (part_sb s)) \<le> unat (inode_table_lba (part_sb s))" using lay by (simp add: layout_ok_def)
    ultimately show ?thesis using low more(1,2) rest(4) by (simp add: same_layout_def)
  qed
  have "i_no ?i3 = i_no i" "i_size ?i3 = i_size i + of_nat (length src)" using s2 by simp_all
  then show ?thesis using run final bytes others pos rest 3(3) lay' low stored more table fresh front
    by (intro exI [of _ ?s'] exI [of _ ?i3]) (simp only: simp_thms, simp)
qed

text \<open>
  C9. \<^verbatim>\<open>file_write\<close> appends. When the file stays below 12 blocks, and as many data blocks are free as the file will
  need in addition, writing succeeds and returns the number of bytes; the file is well formed again and its bytes are the old
  ones followed by those written; the blocks of all other files keep their bytes; and the inode table on the disk holds the
  new size and blocks, in the entry \<^verbatim>\<open>inode_sync\<close> uses. The position is left on the last byte, not behind it.
\<close>

theorem file_write_appends:
  assumes ok: "file_ok p i s" and lay: "layout_ok s" and f: "k < length (file_table s)" "file_table s ! k = f" "fd_inode f = p"
    and size: "unat (i_size i) + length src < 6144"
    and room: "(unat (i_size i) + length src) div 512 + 1 - length (file_blocks i) \<le> card (data_blocks s - used_blocks s)"
    and h: "heap s = a # b # c # h" "a \<noteq> 0" "b \<noteq> 0" "c \<noteq> 0"
  shows "\<exists>s' i'. file_write k src s = Inr (of_nat (length src), s') \<and> file_ok p i' s'
    \<and> file_bytes i' s' = file_bytes i s @ src \<and> i_no i' = i_no i
    \<and> (\<forall>l \<in> used_blocks s - set (file_blocks i). disk_data s' l = disk_data s l)
    \<and> stored_inode (i_no i AND 0xff) s' = i'\<lparr>i_open_cnts := 0, write_deny := False\<rparr>
    \<and> file_table s' ! k = f\<lparr>fd_pos := i_size i' - 1\<rparr>"
  using file_write_run [OF assms] f(1) by (elim exE conjE) (rule exI, rule exI, intro conjI, assumption+, simp)

lemma file_write_appends_witness:
  "\<exists>s i s' i'. file_ok 8 i s \<and> file_write 3 (ascii ''hello'') s = Inr (5, s') \<and> file_ok 8 i' s' \<and> file_bytes i' s' = ascii ''hello''"
proof -
  define i :: inode where "i = \<lparr>i_no = 1, i_size = 0, i_open_cnts = 1, write_deny = True, i_sectors = replicate 13 0\<rparr>"
  define f where "f = \<lparr>fd_pos = 0, fd_flag = 0, fd_inode = 8\<rparr>"
  define s :: fs where "s = sample_fs\<lparr>heap := [16, 32, 48], inodes := [8 \<mapsto> i], file_table := replicate 4 f\<rparr>"
  have part: "data_blocks s = data_blocks sample_fs" "used_blocks s = used_blocks sample_fs"
    by (simp_all add: s_def data_blocks_def used_blocks_def block_cnt_def block_def)
  have ok: "file_ok 8 i s" using sample_blocks_ok sample_used
    by (simp add: file_ok_def file_blocks_def part) (simp add: s_def i_def get_inode_def blocks_ok_def Let_def)
  have lay: "layout_ok s" using sample_blocks_ok by (simp add: s_def layout_ok_def table_ok_def blocks_ok_def sample_fs_def max_lba_def Let_def)
  have "613 \<in> data_blocks sample_fs - used_blocks sample_fs" by (simp add: sample_used sample_data)
  then have "1 \<le> card (data_blocks s - used_blocks s)" by (simp add: part card_gt_0_iff Suc_le_eq) blast
  then show ?thesis using file_write_appends [OF ok lay, of 3 f "ascii ''hello''" 16 32 48 "[]"] ok
    by (auto simp: s_def f_def i_def ascii_def file_blocks_def file_bytes_def)
qed

end
