(* ===== verification/Format.thy ===== *)
theory Format
  imports Fs Dir_Map
begin

text \<open>
  Making a file system and mounting it (\<^verbatim>\<open>partition_format\<close>, \<^verbatim>\<open>mount_partition\<close>, \<^verbatim>\<open>open_root_dir\<close>
  of \<^verbatim>\<open>fs/fs.c\<close> and \<^verbatim>\<open>fs/dir.c\<close>) establish the invariants that the theorems on blocks and directories
  start from.
\<close>

section \<open>Writing apart\<close>

lemma write_sectors_apart:
  assumes "unat lba + n < 2 ^ 32" and "unat l < unat lba \<or> unat lba + n \<le> unat l"
  shows "write_sectors lba n bs m l = m l"
proof (rule write_sectors_other)
  show "n < 2 ^ 32" using assms(1) by simp
  fix i assume i: "i < n"
  then have "unat (of_nat i :: u32) = i" using assms(1) by (intro unat_word_of_nat32) simp
  then have "unat (lba + of_nat i) = unat lba + i" using assms(1) i by (simp add: unat_word_ariths)
  then show "l \<noteq> lba + of_nat i" using assms(2) i by auto
qed

lemma sectors_apart:
  assumes "unat lba + n < 2 ^ 32" and "unat l + k < 2 ^ 32" and "unat l + k \<le> unat lba \<or> unat lba + n \<le> unat l"
  shows "sectors (write_sectors lba n bs m) l k = sectors m l k"
proof (rule sectors_cong)
  fix i assume i: "i < k"
  then have "unat (of_nat i :: u32) = i" using assms(2) by (intro unat_word_of_nat32) simp
  then have "unat (l + of_nat i) = unat l + i" using assms(2) i by (simp add: unat_word_ariths)
  then show "write_sectors lba n bs m (l + of_nat i) = m (l + of_nat i)"
    using assms i by (intro write_sectors_apart) auto
qed

section \<open>The layout\<close>

text \<open>
  Partitions that end 16 MB before the end of the disk the driver can address, with at least 20 sectors
  beside the 611 for the boot sector, the super block, the inode bitmap and the inode table.
\<close>

definition part_fits :: "partition \<Rightarrow> bool" where
  "part_fits p \<longleftrightarrow> 631 \<le> unat (sec_cnt p) \<and> unat (start_lba p) + unat (sec_cnt p) + 4096 \<le> unat max_lba"

definition room :: "partition \<Rightarrow> nat" where
  "room p = unat (block_bitmap_bit_len p)"

definition bitmap_sects :: "partition \<Rightarrow> nat" where
  "bitmap_sects p = unat (block_bitmap_sects (new_super_block p))"

lemma unat_round_up: "unat x + 4095 < 2 ^ 32 \<Longrightarrow> unat (round_up x BITS_PER_SECTOR) = (unat x + 4095) div 4096"
proof -
  assume a: "unat x + 4095 < 2 ^ 32"
  have "x + 4096 - 1 = x + 4095" by simp
  then have "unat (x + 4096 - 1) = unat x + 4095" using a by (simp add: unat_word_ariths)
  then show ?thesis by (simp add: round_up_def BITS_PER_SECTOR_def unat_div)
qed

lemma round_up_const [simp]:
  "round_up MAX_FILES_PER_PART BITS_PER_SECTOR = 1" "round_up (sizeof_inode * MAX_FILES_PER_PART) SECTOR_SIZE = 608"
  "round_up (MAX_FILES_PER_PART * sizeof_inode) SECTOR_SIZE = 608"
  by (simp_all add: round_up_def MAX_FILES_PER_PART_def BITS_PER_SECTOR_def sizeof_inode_def SECTOR_SIZE_def)

lemma room_eq:
  assumes "part_fits p"
  shows "room p = unat (sec_cnt p) - 611 - (unat (sec_cnt p) - 611 + 4095) div 4096"
    and "bitmap_sects p = (room p + 4095) div 4096"
    and "8 \<le> room p" and "611 + bitmap_sects p + room p \<le> unat (sec_cnt p)" and "1 \<le> bitmap_sects p" and "bitmap_sects p \<le> 40"
proof -
  define n where "n = unat (sec_cnt p)"
  have n: "631 \<le> n" "n \<le> 159743" using assms unat_max_lba by (auto simp: part_fits_def n_def)
  have f: "unat (sec_cnt p - 611) = n - 611" using n by (subst unat_sub) (auto simp: word_le_nat_alt n_def)
  have r: "unat (round_up (sec_cnt p - 611) BITS_PER_SECTOR) = (n - 611 + 4095) div 4096"
    using n f by (subst unat_round_up) auto
  have le: "(n - 611 + 4095) div 4096 \<le> n - 611" using n by linarith
  have rm: "room p = n - 611 - (n - 611 + 4095) div 4096"
    using le f r by (simp add: room_def block_bitmap_bit_len_def Let_def unat_sub word_le_nat_alt)
  then show "room p = unat (sec_cnt p) - 611 - (unat (sec_cnt p) - 611 + 4095) div 4096" by (simp add: n_def)
  have "room p \<le> n" using rm by simp
  then show b: "bitmap_sects p = (room p + 4095) div 4096"
    using n by (simp add: bitmap_sects_def new_super_block_def Let_def room_def unat_round_up)
  show "8 \<le> room p" "1 \<le> bitmap_sects p" "bitmap_sects p \<le> 40" unfolding b using n rm by linarith+
  show "611 + bitmap_sects p + room p \<le> unat (sec_cnt p)" unfolding b using n rm by (fold n_def) linarith
qed

text \<open>The regions of the partition, as numbers.\<close>

lemma layout:
  assumes "part_fits p"
  defines "b \<equiv> new_super_block p"
  shows "unat (start_lba p + 1) = unat (start_lba p) + 1"
    and "unat (block_bitmap_lba b) = unat (start_lba p) + 2" and "unat (block_bitmap_sects b) = bitmap_sects p"
    and "unat (inode_bitmap_lba b) = unat (start_lba p) + 2 + bitmap_sects p" and "inode_bitmap_sects b = 1"
    and "unat (inode_table_lba b) = unat (start_lba p) + 3 + bitmap_sects p" and "inode_table_sects b = 608"
    and "unat (data_start_lba b) = unat (start_lba p) + 611 + bitmap_sects p"
    and "root_inode_no b = 0" and "dir_entry_size b = 24"
proof -
  note r = room_eq [OF assms(1)]
  have m: "unat (start_lba p) + 700 < 2 ^ 32" using assms(1) unat_max_lba by (simp add: part_fits_def)
  have s: "unat (block_bitmap_sects b) = bitmap_sects p" by (simp add: bitmap_sects_def b_def)
  have lbas: "block_bitmap_lba b = start_lba p + 2" "inode_bitmap_lba b = start_lba p + (2 + block_bitmap_sects b)"
    "inode_table_lba b = start_lba p + (3 + block_bitmap_sects b)" "data_start_lba b = start_lba p + (611 + block_bitmap_sects b)"
    by (simp_all add: b_def new_super_block_def Let_def algebra_simps)
  show "unat (block_bitmap_sects b) = bitmap_sects p" by (rule s)
  show "unat (start_lba p + 1) = unat (start_lba p) + 1" using m by (simp add: unat_word_ariths)
  show "unat (block_bitmap_lba b) = unat (start_lba p) + 2" using m by (simp add: lbas unat_word_ariths)
  have c: "unat (c + block_bitmap_sects b) = unat c + bitmap_sects p" if "unat c < 700" for c
    using that r(6) s by (simp add: unat_word_ariths)
  show "unat (inode_bitmap_lba b) = unat (start_lba p) + 2 + bitmap_sects p"
    "unat (inode_table_lba b) = unat (start_lba p) + 3 + bitmap_sects p"
    "unat (data_start_lba b) = unat (start_lba p) + 611 + bitmap_sects p"
    using m r(6) c [of 2] c [of 3] c [of 611] by (simp_all add: lbas unat_word_ariths)
qed (simp_all add: b_def new_super_block_def Let_def)
section \<open>The block bitmap\<close>

lemma nth_splice_eq:
  "off + length bs \<le> length buf \<Longrightarrow> j < length buf \<Longrightarrow>
    splice buf off bs ! j = (if off \<le> j \<and> j < off + length bs then bs ! (j - off) else buf ! j)"
  by (auto simp: splice_def nth_append)

lemma new_block_bitmap_eq:
  assumes "8 \<le> L" and S: "S = (L + 4095) div 4096" "S \<le> 40"
  obtains buf where "new_block_bitmap 311296 L = Inr buf" and "length buf = 311296"
    and "\<And>k. k < 4096 * S \<Longrightarrow> bit (buf ! (k div 8)) (k mod 8) \<longleftrightarrow> k = 0 \<or> L < k"
proof -
  define e where "e = 512 - L div 8 mod 512"
  define b0 :: "u8 list" where "b0 = (replicate 311296 0)[0 := 1]"
  define b1 where "b1 = splice b0 (L div 8) (replicate e 0xff)"
  define buf where "buf = b1[L div 8 := b1 ! (L div 8) AND NOT (mask (L mod 8 + 1))]"
  have end_eq: "L div 8 + e = 512 * (L div 4096 + 1)" and e: "0 < e"
  proof -
    define r where "r = L div 8 mod 512"
    have "L div 8 = 512 * (L div 4096) + r" unfolding r_def by (simp add: div_mult2_eq [of L 8 512, simplified])
    moreover have "r < 512" by (simp add: r_def)
    ultimately show "L div 8 + e = 512 * (L div 4096 + 1)" "0 < e" by (simp_all add: e_def r_def [symmetric])
  qed
  have lim: "L div 4096 \<le> 40" "512 * S \<le> L div 8 + e"
    using S div_le_mono [of L "L + 4095" 4096] div_le_mono [of "L + 4095" "L + 4096" 4096] div_add_self2 [of 4096 L]
    unfolding end_eq by simp_all
  have fit: "L div 8 + e \<le> 311296" unfolding end_eq using lim(1) by simp
  have l0: "length b0 = 311296" by (simp add: b0_def)
  then have l1: "length b1 = 311296" using fit by (simp add: b1_def)
  have nth1: "b1 ! j = (if L div 8 \<le> j \<and> j < L div 8 + e then 0xff else if j = 0 then 1 else 0)" if "j < 311296" for j
    using fit that l0 by (auto simp: b1_def nth_splice_eq b0_def nth_list_update)
  show ?thesis
  proof (rule that)
    show "new_block_bitmap 311296 L = Inr buf"
      using fit [unfolded e_def]
      by (simp add: new_block_bitmap_def Let_def e_def b0_def b1_def buf_def del: replicate.simps)
    show "length buf = 311296" using l1 by (simp add: buf_def)
    fix k assume k: "k < 4096 * S"
    obtain j i where ji: "k div 8 = j" "k mod 8 = i" and m: "i < 8" and kj: "k = 8 * j + i"
      by (metis div_mult_mod_eq mod_less_divisor mult.commute zero_less_numeral)
    have j: "j < 512 * S" using k kj by linarith
    with fit lim(2) have j': "j < 311296" "j < L div 8 + e" by linarith+
    have n: "buf ! j = (if j = L div 8 then 0xff AND NOT (mask (L mod 8 + 1)) else b1 ! j)"
      using j' l1 e fit nth1 [of "L div 8"] by (simp add: buf_def nth_list_update)
    have L: "L = 8 * (L div 8) + L mod 8" "L mod 8 < 8" by simp_all
    have ones: "bit (0xff :: u8) i" using u8_all_ones_iff [of 255] m by blast
    consider "j < L div 8" | "j = L div 8" | "L div 8 < j" by linarith
    then have "bit (buf ! j) i \<longleftrightarrow> k = 0 \<or> L < k"
    proof cases
      case 1
      then have "\<not> L < k" using kj m by linarith
      moreover have "buf ! j = (if j = 0 then 1 else 0)" using 1 n j' nth1 [of j] by simp
      ultimately show ?thesis by (simp add: bit_1_iff kj)
    next
      case 2
      have "L < k \<longleftrightarrow> L mod 8 < i" using L kj 2 by linarith
      moreover have "k \<noteq> 0" using 2 kj assms(1) by auto
      ultimately show ?thesis using 2 n ones by (auto simp: bit_and_iff bit_not_iff bit_mask_iff m)
    next
      case 3
      then have "L < k" using L kj by linarith
      with 3 n j' nth1 [of j] ones show ?thesis by simp
    qed
    then show "bit (buf ! (k div 8)) (k mod 8) \<longleftrightarrow> k = 0 \<or> L < k" by (simp add: ji)
  qed
qed
section \<open>The disk after formatting\<close>

definition root_inode :: "partition \<Rightarrow> inode" where
  "root_inode p = (inode_init 0)\<lparr>i_size := 48, i_sectors := (replicate 13 0)[0 := data_start_lba (new_super_block p)]\<rparr>"

definition formatted :: "partition \<Rightarrow> u8 list \<Rightarrow> (u32 \<Rightarrow> u8 list) \<Rightarrow> u32 \<Rightarrow> u8 list" where
  "formatted p buf m = (let b = new_super_block p in
     write_sectors (data_start_lba b) 1 (dot_entries 0 0)
     (write_sectors (inode_table_lba b) 608 (splice (replicate 311296 0) 0 (encode_inode (root_inode p)))
     (write_sectors (inode_bitmap_lba b) 1 ((replicate 512 0)[0 := 1])
     (write_sectors (block_bitmap_lba b) (bitmap_sects p) (take (512 * bitmap_sects p) buf)
     (write_sectors (start_lba p + 1) 1 (encode_super_block b) m)))))"

lemma disk_write_eq:
  "lba \<le> max_lba \<Longrightarrow> 0 < cnt \<Longrightarrow> 512 * unat cnt \<le> length buf \<Longrightarrow> disk_write lba buf cnt s =
    Inr (s\<lparr>disk_data := write_sectors lba (unat cnt) (take (512 * unat cnt) buf) (disk_data s)\<rparr>)"
  by (simp add: disk_write_def)

lemma length_dot_entries [simp]: "length (dot_entries a b) = 512"
  by (simp add: dot_entries_def encode_dir_entry_def ascii_def)

lemma length_root_inode [simp]: "length (i_sectors (root_inode p)) = 13"
  by (simp add: root_inode_def)

lemma partition_format_eq:
  assumes p: "part_fits p" and h: "heap s = a # h"
    and buf: "new_block_bitmap 311296 (room p) = Inr buf" "length buf = 311296"
  shows "partition_format p s = Inr (s\<lparr>heap := h, disk_data := formatted p buf (disk_data s)\<rparr>)"
proof -
  let ?b = "new_super_block p"
  note l = layout [OF p] and r = room_eq [OF p]
  have max: "max (max (block_bitmap_sects ?b) 1) 608 = 608"
    using l(3,5,7) r(6) by (auto simp: max_def word_le_nat_alt)
  have lim: "unat (start_lba p) + 611 + bitmap_sects p \<le> unat max_lba" using p r by (simp add: part_fits_def)
  have le: "start_lba p + 1 \<le> max_lba" "block_bitmap_lba ?b \<le> max_lba" "inode_bitmap_lba ?b \<le> max_lba"
    "inode_table_lba ?b \<le> max_lba" "data_start_lba ?b \<le> max_lba"
    unfolding word_le_nat_alt using l lim by linarith+
  have pos: "0 < block_bitmap_sects ?b" using l(3) r(5) by (simp add: word_less_nat_alt)
  have "take 512 ((replicate 311296 0)[0 := 1]) = (replicate 512 0)[0 := 1 :: u8]" by (simp add: take_update_swap del: replicate.simps)
  moreover have "length (splice (replicate 311296 0) 0 (encode_inode (root_inode p))) = 311296"
    by (simp del: replicate.simps)
  moreover have "512 * bitmap_sects p \<le> 311296" using r(6) by simp
  ultimately show ?thesis
    using h buf le pos l(3,5,7,10)
    by (simp add: partition_format_def Let_def max disk_write_eq fs_malloc_def room_def [symmetric] formatted_def root_inode_def [symmetric]
        SECTOR_SIZE_def del: replicate.simps)
qed

text \<open>What lies where: each region is behind the one written before it.\<close>

lemma formatted_regions:
  assumes p: "part_fits p" and m: "disk_ok m" and buf: "length buf = 311296"
  defines "b \<equiv> new_super_block p" and "D \<equiv> formatted p buf m"
  shows "sectors D (start_lba p + 1) 1 = encode_super_block b"
    and "sectors D (block_bitmap_lba b) (bitmap_sects p) = take (512 * bitmap_sects p) buf"
    and "sectors D (inode_bitmap_lba b) 1 = (replicate 512 0)[0 := 1]"
    and "sectors D (inode_table_lba b) 608 = splice (replicate 311296 0) 0 (encode_inode (root_inode p))"
    and "D (data_start_lba b) = dot_entries 0 0" and "disk_ok D"
    and "unat l \<le> unat (start_lba p) \<or> unat (start_lba p) + 611 + bitmap_sects p < unat l \<Longrightarrow> D l = m l"
proof -
  note l = layout [OF p, folded b_def] and r = room_eq [OF p]
  have lim: "unat (start_lba p) + 700 + bitmap_sects p < 2 ^ 32" using p r unat_max_lba by (simp add: part_fits_def)
  have len: "length (take (512 * bitmap_sects p) buf) = 512 * bitmap_sects p" using buf r(6) by simp
  have small: "bitmap_sects p < 2 ^ 32" using lim by simp
  have lt: "length (splice (replicate 311296 0) 0 (encode_inode (root_inode p))) = 512 * 608"
    by (simp del: replicate.simps)
  note D = D_def [unfolded formatted_def Let_def, folded b_def]
  show "sectors D (start_lba p + 1) 1 = encode_super_block b"
    unfolding D using l lim by (simp add: sectors_apart sectors_write_sectors del: write_sectors.simps One_nat_def)
  show "sectors D (block_bitmap_lba b) (bitmap_sects p) = take (512 * bitmap_sects p) buf"
    unfolding D using l lim len small by (simp add: sectors_apart sectors_write_sectors del: write_sectors.simps One_nat_def)
  show "sectors D (inode_bitmap_lba b) 1 = (replicate 512 0)[0 := 1]"
    unfolding D using l lim by (simp add: sectors_apart sectors_write_sectors del: write_sectors.simps One_nat_def replicate.simps)
  show "sectors D (inode_table_lba b) 608 = splice (replicate 311296 0) 0 (encode_inode (root_inode p))"
    unfolding D using l lim lt by (simp add: sectors_apart sectors_write_sectors del: write_sectors.simps One_nat_def replicate.simps)
  show "D (data_start_lba b) = dot_entries 0 0"
    unfolding D by simp
  show "disk_ok D"
    unfolding D using m len lt by (simp add: write_sectors_disk_ok del: write_sectors.simps replicate.simps)
  show "D l = m l" if "unat l \<le> unat (start_lba p) \<or> unat (start_lba p) + 611 + bitmap_sects p < unat l"
    using that
  proof (elim disjE)
    assume "unat l \<le> unat (start_lba p)"
    then show ?thesis unfolding D
      using l lim by (simp add: write_sectors_apart del: write_sectors.simps One_nat_def replicate.simps)
  next
    assume "unat (start_lba p) + 611 + bitmap_sects p < unat l"
    then show ?thesis unfolding D
      using l lim by (simp add: write_sectors_apart del: write_sectors.simps One_nat_def replicate.simps)
  qed
qed
section \<open>The mounted partition\<close>

definition mounted :: "partition \<Rightarrow> u8 list \<Rightarrow> fs_part" where
  "mounted p buf = partition.extend p (fs_part.fields (new_super_block p)
     \<lparr>btmp_bytes_len = 512 * bitmap_sects p, bits = take (512 * bitmap_sects p) buf\<rparr>
     \<lparr>btmp_bytes_len = 512, bits = (replicate 512 0)[0 := 1]\<rparr> [])"

lemma mounted_simps [simp]:
  "sb (mounted p buf) = new_super_block p" "start_lba (mounted p buf) = start_lba p" "sec_cnt (mounted p buf) = sec_cnt p"
  "block_bitmap (mounted p buf) = \<lparr>btmp_bytes_len = 512 * bitmap_sects p, bits = take (512 * bitmap_sects p) buf\<rparr>"
  "inode_bitmap (mounted p buf) = \<lparr>btmp_bytes_len = 512, bits = (replicate 512 0)[0 := 1]\<rparr>"
  "open_inode (mounted p buf) = []"
  by (simp_all add: mounted_def partition.defs fs_part.defs)

lemma mount_partition_eq:
  assumes p: "part_fits p" and m: "disk_ok m" and buf: "length buf = 311296"
    and s: "disk_data s = formatted p buf m" and h: "heap s = a # b # c # d # h" "b \<noteq> 0" "c \<noteq> 0" "d \<noteq> 0"
  shows "mount_partition p s = Inr (s\<lparr>heap := h, cur_part := mounted p buf\<rparr>)"
proof -
  let ?b = "new_super_block p"
  note l = layout [OF p] and r = room_eq [OF p] and f = formatted_regions [OF p m buf]
  have lim: "unat (start_lba p) + 611 + bitmap_sects p \<le> unat max_lba" using p r by (simp add: part_fits_def)
  have le: "start_lba p + 1 \<le> max_lba" "block_bitmap_lba ?b \<le> max_lba" "inode_bitmap_lba ?b \<le> max_lba"
    unfolding word_le_nat_alt using l lim by linarith+
  have pos: "0 < block_bitmap_sects ?b" using l(3) r(5) by (simp add: word_less_nat_alt)
  have len: "unat (block_bitmap_sects ?b * 512) = 512 * bitmap_sects p" using l(3) r(6) by (simp add: unat_word_ariths)
  have sb: "disk_data s (start_lba p + 1) = encode_super_block ?b"
    and ib: "disk_data s (inode_bitmap_lba ?b) = (replicate 512 0)[0 := 1]"
    and bb: "sectors (disk_data s) (block_bitmap_lba ?b) (bitmap_sects p) = take (512 * bitmap_sects p) buf"
    using f(1-3) s by simp_all
  show ?thesis
    using h le pos l(3,5) len
    by (simp add: mount_partition_def Let_def fs_malloc_def disk_read_def sb ib bb mounted_def SECTOR_SIZE_def del: replicate.simps)
qed

text \<open>The invariants of the mounted partition.\<close>

definition fresh :: "partition \<Rightarrow> u8 list \<Rightarrow> (u32 \<Rightarrow> u8 list) \<Rightarrow> fs \<Rightarrow> bool" where
  "fresh p buf m s \<longleftrightarrow> sb (cur_part s) = new_super_block p \<and> start_lba (cur_part s) = start_lba p \<and> sec_cnt (cur_part s) = sec_cnt p
     \<and> block_bitmap (cur_part s) = \<lparr>btmp_bytes_len = 512 * bitmap_sects p, bits = take (512 * bitmap_sects p) buf\<rparr>
     \<and> disk_data s = formatted p buf m"

lemma fresh_block_cnt: "fresh p buf m s \<Longrightarrow> part_fits p \<Longrightarrow> length buf = 311296 \<Longrightarrow> block_cnt s = 4096 * bitmap_sects p"
  using room_eq(6) [of p] by (simp add: block_cnt_def fresh_def)

lemma fresh_blocks_ok:
  assumes p: "part_fits p" and m: "disk_ok m" and buf: "length buf = 311296" and s: "fresh p buf m s"
  shows "blocks_ok s" and "table_ok s"
proof -
  note l = layout [OF p] and r = room_eq [OF p] and f = formatted_regions [OF p m buf]
  have "4096 * bitmap_sects p \<le> room p + 4095" unfolding r(2) by simp
  then have lim: "unat (start_lba p) + 611 + bitmap_sects p + 4096 * bitmap_sects p \<le> unat max_lba"
    using p r(4) by (simp add: part_fits_def)
  have "512 * bitmap_sects p \<le> 311296" using r(6) by simp
  then show "blocks_ok s"
    using s f(2,6) l lim buf by (simp add: blocks_ok_def fresh_def Let_def)
  have "unat (start_lba p + sec_cnt p) = unat (start_lba p) + unat (sec_cnt p)"
    using p unat_max_lba by (simp add: unat_word_ariths part_fits_def)
  then show "table_ok s" using s f(6) l lim r(4) by (simp add: table_ok_def fresh_def)
qed

lemma fresh_used:
  assumes p: "part_fits p" and buf: "new_block_bitmap 311296 (room p) = Inr buf"
    and s: "fresh p buf m s" and k: "k < block_cnt s"
  shows "used (block_bitmap (cur_part s)) k \<longleftrightarrow> k = 0 \<or> room p < k"
proof -
  note r = room_eq [OF p]
  obtain buf' where "new_block_bitmap 311296 (room p) = Inr buf'" and len: "length buf' = 311296"
    and bits: "\<And>k. k < 4096 * bitmap_sects p \<Longrightarrow> bit (buf' ! (k div 8)) (k mod 8) \<longleftrightarrow> k = 0 \<or> room p < k"
    using new_block_bitmap_eq [OF r(3,2,6)] by blast
  with buf have b: "buf' = buf" by simp
  have k: "k < 4096 * bitmap_sects p" using k fresh_block_cnt [OF s p] len b by simp
  then have "k div 8 < 512 * bitmap_sects p" by linarith
  then have "used (block_bitmap (cur_part s)) k \<longleftrightarrow> bit (buf ! (k div 8)) (k mod 8)"
    using s by (simp add: used_def fresh_def)
  with bits [OF k] b show ?thesis by simp
qed

section \<open>The root directory\<close>

definition dot_entry :: "u32 \<Rightarrow> dir_entry" where
  "dot_entry n = \<lparr>filename = ascii ''.'' @ replicate 15 0, e_i_no = n, f_type = FT_DIRECTORY\<rparr>"

definition dotdot_entry :: "u32 \<Rightarrow> dir_entry" where
  "dotdot_entry n = \<lparr>filename = ascii ''..'' @ replicate 14 0, e_i_no = n, f_type = FT_DIRECTORY\<rparr>"

definition empty_entry :: dir_entry where
  "empty_entry = \<lparr>filename = replicate 16 0, e_i_no = 0, f_type = 0\<rparr>"

lemma nth_entry_zero: "k < 21 \<Longrightarrow> nth_entry (replicate 512 0) k = empty_entry"
proof -
  assume k: "k < 21"
  then have "min 24 (512 - 24 * k) = 24" by simp
  then have "piece_of (replicate 512 (0 :: u8)) (24 * k) 24 = replicate 24 0" unfolding piece_of_def drop_replicate take_replicate by simp
  then show ?thesis by (simp add: nth_entry_def decode_dir_entry_def get32_def piece_of_def of_le32_def empty_entry_def numeral_nat)
qed

lemma entries_dots: "entries (dot_entries a b) = dot_entry a # dotdot_entry b # replicate 19 empty_entry"
proof -
  let ?z = "replicate 512 (0 :: u8)"
  have e: "entries ?z = replicate 21 empty_entry"
    by (rule nth_equalityI) (simp_all add: entries_def nth_entry_zero del: replicate.simps)
  have len: "length (filename (dot_entry a)) = 16" "length (filename (dotdot_entry b)) = 16"
    by (simp_all add: dot_entry_def dotdot_entry_def ascii_def)
  have "dot_entries a b = splice (splice ?z (24 * 0) (encode_dir_entry (dot_entry a))) (24 * 1) (encode_dir_entry (dotdot_entry b))"
    by (simp add: dot_entries_def dot_entry_def dotdot_entry_def del: replicate.simps)
  then have "entries (dot_entries a b) = (entries ?z)[0 := dot_entry a, 1 := dotdot_entry b]"
    using len by (simp add: entries_splice [where k = 1, simplified] entries_splice [where k = 0, simplified]
        length_encode_dir_entry del: replicate.simps)
  then show ?thesis unfolding e by (simp add: numeral_nat)
qed
lemma stored_root:
  assumes p: "part_fits p" and m: "disk_ok m" and buf: "length buf = 311296" and s: "fresh p buf m s"
  shows "stored_inode 0 s = root_inode p"
proof -
  note f = formatted_regions [OF p m buf]
  let ?t = "inode_table_lba (new_super_block p)" and ?e = "encode_inode (root_inode p)"
  have "piece_of (sectors (formatted p buf m) ?t 609) 0 76 = piece_of (sectors (formatted p buf m) ?t 608) 0 76"
    using sectors_add [of "formatted p buf m" ?t 608 1] f(6) by (simp add: piece_of_append1 length_sectors)
  also have "\<dots> = ?e" unfolding f(4) by (simp del: replicate.simps)
  finally show ?thesis using s by (simp add: stored_inode_def fresh_def)
qed

lemma open_root_dir_eq:
  assumes p: "part_fits p" and m: "disk_ok m" and buf: "length buf = 311296" and s: "fresh p buf m s"
    and o: "open_inode (cur_part s) = []" and h: "heap s = a # b # h"
  shows "open_root_dir s = Inr (set_dir (root_dir s) \<lparr>dir_inode = a, dir_pos = 0\<rparr>
    (set_inode a ((root_inode p)\<lparr>i_open_cnts := 1\<rparr>) (upd_part (\<lambda>q. q\<lparr>open_inode := [a]\<rparr>) (s\<lparr>heap := h\<rparr>))))"
proof -
  have "root_inode_no (part_sb s) = 0" using s layout(9) [OF p] by (simp add: fresh_def)
  moreover have "find_open (open_inode (cur_part s)) 0 s = Inr None" using o by simp
  ultimately show ?thesis
    using inode_open_loads [OF fresh_blocks_ok(2) [OF p m buf s] _ _ h, of 0] stored_root [OF p m buf s] o
    by (simp add: open_root_dir_def set_inode_def)
qed

text \<open>A fresh file system whose root directory is open.\<close>

lemma fresh_root:
  assumes p: "part_fits p" and m: "disk_ok m" and buf: "new_block_bitmap 311296 (room p) = Inr buf" "length buf = 311296"
    and s: "fresh p buf m s" and d: "dirs s r = Some \<lparr>dir_inode = a, dir_pos = 0\<rparr>"
    and a: "inodes s a = Some i" "i = (root_inode p)\<lparr>i_open_cnts := 1\<rparr>"
  shows "dir_ok r a i s" and "dir_room i s"
    and "dir_entries (disk_data s) (dir_blocks i) = dot_entry 0 # dotdot_entry 0 # replicate 19 empty_entry"
proof -
  let ?l = "data_start_lba (new_super_block p)"
  note l = layout [OF p] and f = formatted_regions [OF p m buf(2)] and b = fresh_blocks_ok [OF p m buf(2) s]
    and cnt = fresh_block_cnt [OF s p buf(2)] and u = fresh_used [OF p buf(1) s]
  have sb: "part_sb s = new_super_block p" and dd: "disk_data s = formatted p buf m" using s by (simp_all add: fresh_def)
  have sec: "i_sectors i = ?l # replicate 12 0" using a(2) by (simp add: root_inode_def numeral_nat)
  have size: "i_size i = 48" using a(2) by (simp add: root_inode_def)
  have "unat ?l \<noteq> 0" using l(8) by simp
  then have l0: "?l \<noteq> 0" by auto
  have c: "8 \<le> block_cnt s" using cnt room_eq(5) [OF p] by simp
  have bl: "dir_blocks i = ?l # replicate 11 0" by (simp add: dir_blocks_def sec)
  have en: "entries (disk_data s ?l) = dot_entry 0 # dotdot_entry 0 # replicate 19 empty_entry"
    using f(5) dd by (simp only: entries_dots)
  then show ents: "dir_entries (disk_data s) (dir_blocks i) = dot_entry 0 # dotdot_entry 0 # replicate 19 empty_entry"
    unfolding bl using l0 by (simp del: replicate.simps)
  have types: "f_type (dot_entry 0) \<noteq> FT_UNKNOWN" "f_type (dotdot_entry 0) \<noteq> FT_UNKNOWN" "f_type empty_entry = FT_UNKNOWN"
    "filename empty_entry ! 0 = 0"
    by (simp_all add: dot_entry_def dotdot_entry_def empty_entry_def FT_DIRECTORY_def FT_UNKNOWN_def)
  have "?l \<in> used_blocks s" unfolding used_blocks_def
    by (rule image_eqI [of _ _ 0]) (use u [of 0] c sb in \<open>auto simp: block_def\<close>)
  then show "dir_ok r a i s"
    using b(1) d a(1) types l(10) l0 unfolding dir_ok_def bl
    by (auto simp: get_dir_def get_inode_def sb sec size filter_replicate en simp del: replicate.simps)
  have "block 1 s \<in> data_blocks s" using c by (auto simp: data_blocks_def)
  moreover have "block 1 s \<notin> used_blocks s"
    using u [of 1] c room_eq(3) [OF p] block_inj [OF b(1), of 1] by (auto simp: used_blocks_def)
  ultimately show "dir_room i s" unfolding dir_room_def bl by (auto simp: free_slot_def)
qed

text \<open>
  C16. A partition that \<^verbatim>\<open>partition_format\<close> made a file system on can be mounted and its root directory
  opened: the super block is the one computed, bitmap and inode table lie in the partition, block 0 is
  in use and the blocks up to the number of free sectors are free, and the root directory is a
  well-formed directory with room, whose entries are the two dots. No sector before the super
  block or behind the root directory's block has changed.
\<close>

theorem format_mount_root:
  assumes p: "part_fits p" and m: "disk_ok (disk_data s)" and h: "heap s = hs @ h" "length hs = 7" "0 \<notin> set hs"
  shows "\<exists>s1 s2 s3 a i. partition_format p s = Inr s1 \<and> mount_partition p s1 = Inr s2 \<and> open_root_dir s2 = Inr s3 \<and>
    part_sb s3 = new_super_block p \<and> blocks_ok s3 \<and> table_ok s3 \<and> block_cnt s3 = 4096 * bitmap_sects p \<and>
    used_blocks s3 = {block k s3 | k. k < block_cnt s3 \<and> (k = 0 \<or> room p < k)} \<and>
    dir_ok (root_dir s3) a i s3 \<and> dir_room i s3 \<and>
    dir_entries (disk_data s3) (dir_blocks i) = dot_entry 0 # dotdot_entry 0 # replicate 19 empty_entry \<and>
    (\<forall>l. unat l \<le> unat (start_lba p) \<or> unat (start_lba p) + 611 + bitmap_sects p < unat l \<longrightarrow> disk_data s3 l = disk_data s l)"
proof -
  let ?m = "disk_data s"
  obtain x a b c d e f where hs: "hs = [x, a, b, c, d, e, f]" using h(2) by (auto simp: length_Suc_conv numeral_nat)
  obtain buf where buf: "new_block_bitmap 311296 (room p) = Inr buf" "length buf = 311296"
    using new_block_bitmap_eq [OF room_eq(3,2,6) [OF p]] by blast
  let ?s1 = "s\<lparr>heap := [a, b, c, d, e, f] @ h, disk_data := formatted p buf ?m\<rparr>"
  have 1: "partition_format p s = Inr ?s1" by (rule partition_format_eq [OF p _ buf]) (simp add: h hs)
  let ?s2 = "?s1\<lparr>heap := [e, f] @ h, cur_part := mounted p buf\<rparr>"
  have 2: "mount_partition p ?s1 = Inr ?s2" by (rule mount_partition_eq [OF p m buf(2)]) (use h(3) hs in auto)
  have f2: "fresh p buf ?m ?s2" by (simp add: fresh_def)
  let ?i = "(root_inode p)\<lparr>i_open_cnts := 1\<rparr>"
  let ?s3 = "set_dir (root_dir ?s2) \<lparr>dir_inode = e, dir_pos = 0\<rparr>
    (set_inode e ?i (upd_part (\<lambda>q. q\<lparr>open_inode := [e]\<rparr>) (?s2\<lparr>heap := h\<rparr>)))"
  have 3: "open_root_dir ?s2 = Inr ?s3" by (rule open_root_dir_eq [OF p m buf(2) f2]) simp_all
  define s3 where "s3 = ?s3"
  have f3: "fresh p buf ?m s3" by (simp add: s3_def fresh_def set_dir_def set_inode_def)
  have root: "dirs s3 (root_dir s3) = Some \<lparr>dir_inode = e, dir_pos = 0\<rparr>" "inodes s3 e = Some ?i"
    by (simp_all add: s3_def set_dir_def set_inode_def)
  note r = fresh_root [OF p m buf f3 root refl]
  have u: "used_blocks s3 = {block k s3 | k. k < block_cnt s3 \<and> (k = 0 \<or> room p < k)}"
    using fresh_used [OF p buf(1) f3] by (auto simp: used_blocks_def)
  have out: "disk_data s3 l = ?m l" if "unat l \<le> unat (start_lba p) \<or> unat (start_lba p) + 611 + bitmap_sects p < unat l" for l
    using formatted_regions(7) [OF p m buf(2) that] f3 by (simp add: fresh_def)
  have sb: "part_sb s3 = new_super_block p" using f3 by (simp add: fresh_def)
  show ?thesis
    by (intro exI conjI) (rule 1, rule 2, rule 3 [folded s3_def], rule sb, rule fresh_blocks_ok(1) [OF p m buf(2) f3],
      rule fresh_blocks_ok(2) [OF p m buf(2) f3], rule fresh_block_cnt [OF f3 p buf(2)], rule u, rule r(1), rule r(2),
      rule r(3), use out in blast)
qed

text \<open>
  A partition of 2000 sectors from sector 2048 on. Its last free bit stands for sector 4048, the first one
  behind the partition.
\<close>

definition sample_part :: partition where
  "sample_part = \<lparr>start_lba = 2048, sec_cnt = 2000, my_disk = (0, 1), part_name = ascii ''sdb1'' @ replicate 4 0\<rparr>"

definition unformatted :: fs where
  "unformatted = sample_fs\<lparr>heap := [1, 2, 3, 4, 5, 6, 7]\<rparr>"

lemma format_mount_root_witness:
  "\<exists>s1 s2 s3 a i. partition_format sample_part unformatted = Inr s1 \<and> mount_partition sample_part s1 = Inr s2 \<and>
    open_root_dir s2 = Inr s3 \<and> dir_ok (root_dir s3) a i s3 \<and> dir_room i s3 \<and> blocks_ok s3 \<and>
    4048 \<in> data_blocks s3 - used_blocks s3"
proof -
  have p: "part_fits sample_part" using unat_max_lba by (simp add: part_fits_def sample_part_def)
  have m: "disk_ok (disk_data unformatted)" using sample_blocks_ok by (simp add: unformatted_def blocks_ok_def Let_def)
  have n: "room sample_part = 1388" "bitmap_sects sample_part = 1"
    using room_eq(1,2) [OF p] by (simp_all add: sample_part_def)
  have l: "data_start_lba (new_super_block sample_part) = 2660"
    using layout(8) [OF p] n by (simp add: word_unat_eq_iff sample_part_def)
  obtain s1 s2 s3 a i where r: "partition_format sample_part unformatted = Inr s1" "mount_partition sample_part s1 = Inr s2"
    "open_root_dir s2 = Inr s3" "dir_ok (root_dir s3) a i s3" "dir_room i s3" "blocks_ok s3"
    and sb: "part_sb s3 = new_super_block sample_part" "block_cnt s3 = 4096"
    and u: "used_blocks s3 = {block k s3 | k. k < 4096 \<and> (k = 0 \<or> 1388 < k)}"
    using format_mount_root [OF p m, of "[1, 2, 3, 4, 5, 6, 7]" "[]"] n by (auto simp: unformatted_def)
  have k: "4048 = block 1388 s3" using l sb by (simp add: block_def)
  then have "4048 \<in> data_blocks s3" using sb(2) by (auto simp: data_blocks_def)
  moreover have "4048 \<notin> used_blocks s3" unfolding u k using block_inj [OF r(6), of 1388] sb(2) by auto
  ultimately show ?thesis using r by blast
qed

end
