(* ===== verification/Create.thy ===== *)
theory Create
  imports Dir_Map File_Bytes
begin

text \<open>
  Creating a file (\<^verbatim>\<open>file_create\<close> of \<^verbatim>\<open>fs/file.c\<close>) puts the layers of the file system together: an inode is
  taken from the bitmap, an entry added to the directory, the two inodes and the bitmap are written to the
  disk, and a descriptor is opened on an empty file.
\<close>

section \<open>The invariant of a mounted file system\<close>

text \<open>The inode bitmap has one sector, between the block bitmap and the inode table, equal to the copy in memory.\<close>

definition inodes_ok :: "fs \<Rightarrow> bool" where
  "inodes_ok s \<longleftrightarrow> (let b = part_sb s; m = inode_bitmap (cur_part s) in
     btmp_bytes_len m = 512 \<and> length (bits m) = 512
     \<and> unat (block_bitmap_lba b) + unat (block_bitmap_sects b) \<le> unat (inode_bitmap_lba b)
     \<and> unat (inode_bitmap_lba b) < unat (inode_table_lba b)
     \<and> disk_data s (inode_bitmap_lba b) = bits m)"

definition used_inodes :: "fs \<Rightarrow> nat set" where
  "used_inodes s = {k. k < 4096 \<and> used (inode_bitmap (cur_part s)) k}"

text \<open>Block 0 belongs to the root directory.\<close>

definition fs_ok :: "fs \<Rightarrow> bool" where
  "fs_ok s \<longleftrightarrow> blocks_ok s \<and> layout_ok s \<and> inodes_ok s \<and> data_start_lba (part_sb s) \<in> used_blocks s"

text \<open>What depends on few components of the state.\<close>

lemma used_blocks_cong:
  assumes "part_sb s' = part_sb s" and "block_bitmap (cur_part s') = block_bitmap (cur_part s)"
  shows "used_blocks s' = used_blocks s" and "data_blocks s' = data_blocks s" and "block_cnt s' = block_cnt s"
  using assms by (simp_all add: used_blocks_def data_blocks_def block_cnt_def block_def)

definition same_mem :: "fs \<Rightarrow> fs \<Rightarrow> bool" where
  "same_mem s s' \<longleftrightarrow> part_sb s' = part_sb s \<and> start_lba (cur_part s') = start_lba (cur_part s)
     \<and> sec_cnt (cur_part s') = sec_cnt (cur_part s) \<and> block_bitmap (cur_part s') = block_bitmap (cur_part s)"

lemma fs_ok_cong:
  assumes "same_mem s s'" and "disk_data s' = disk_data s" and "inode_bitmap (cur_part s') = inode_bitmap (cur_part s)"
  shows "fs_ok s' = fs_ok s"
  using assms used_blocks_cong(1) [of s' s]
  by (simp add: fs_ok_def blocks_ok_def layout_ok_def table_ok_def inodes_ok_def same_mem_def)

text \<open>A directory stays as it is as long as its blocks do, whatever else is taken.\<close>

lemma dir_ok_mono:
  assumes "part_sb s' = part_sb s" and "blocks_ok s'" and "dir_ok pd p i s" and "dirs s' pd = dirs s pd" and "inodes s' p = inodes s p"
    and "used_blocks s \<subseteq> used_blocks s'" and d: "\<And>b. b \<in> set (dir_blocks i) \<Longrightarrow> b \<noteq> 0 \<Longrightarrow> disk_data s' b = disk_data s b"
  shows "dir_ok pd p i s'" and "dir_lookup i n s' = dir_lookup i n s"
    and "dir_entries (disk_data s') (dir_blocks i) = dir_entries (disk_data s) (dir_blocks i)"
proof -
  show ents: "dir_entries (disk_data s') (dir_blocks i) = dir_entries (disk_data s) (dir_blocks i)"
    by (rule dir_entries_cong) (rule d)
  show "dir_ok pd p i s'" using assms(1-6) unfolding dir_ok_def ents by (auto simp: get_dir_def get_inode_def)
  show "dir_lookup i n s' = dir_lookup i n s" unfolding dir_lookup_def ents ..
qed

lemma dir_ok_cong:
  assumes "same_mem s s'" and "blocks_ok s'" and "dir_ok pd p i s" and "dirs s' pd = dirs s pd" and "inodes s' p = inodes s p"
    and "\<And>l. data_start_lba (part_sb s) \<le> l \<Longrightarrow> disk_data s' l = disk_data s l"
  shows "dir_ok pd p i s'" and "dir_lookup i n s' = dir_lookup i n s" and "dir_room i s' = dir_room i s"
    and "dir_entries (disk_data s') (dir_blocks i) = dir_entries (disk_data s) (dir_blocks i)"
proof -
  have e: "part_sb s' = part_sb s" and u: "used_blocks s' = used_blocks s" "data_blocks s' = data_blocks s"
    using assms(1) used_blocks_cong [of s' s] by (simp_all add: same_mem_def)
  have d: "disk_data s' b = disk_data s b" if "b \<in> set (dir_blocks i)" "b \<noteq> 0" for b
    using dir_blocks_range [OF assms(3) that] assms(6) by simp
  note m = dir_ok_mono [OF e assms(2-5) eq_refl [OF u(1) [symmetric]] d]
  show "dir_ok pd p i s'" "dir_lookup i n s' = dir_lookup i n s"
    "dir_entries (disk_data s') (dir_blocks i) = dir_entries (disk_data s) (dir_blocks i)" using m by simp_all
  have "free_slot (disk_data s') b = free_slot (disk_data s) b" if "b \<in> set (dir_blocks i)" for b
    using d [OF that] by (auto simp: free_slot_def)
  then show "dir_room i s' = dir_room i s" unfolding dir_room_def u by auto
qed

section \<open>The inode bitmap\<close>

lemma inode_bitmap_alloc_eq:
  assumes ok: "inodes_ok s" and free: "used_inodes s \<noteq> {..<4096}"
  obtains k m where "k < 4096" and "k \<notin> used_inodes s" and "\<And>j. j < k \<Longrightarrow> j \<in> used_inodes s"
    and "inode_bitmap_alloc s = Inr (Some (of_nat k), upd_part (\<lambda>p. p\<lparr>inode_bitmap := m\<rparr>) s)"
    and "btmp_bytes_len m = 512" and "length (bits m) = 512" and "\<And>j. used m j \<longleftrightarrow> j = k \<or> used (inode_bitmap (cur_part s)) j"
proof -
  let ?m = "inode_bitmap (cur_part s)"
  have l: "btmp_bytes_len ?m = 512" "length (bits ?m) = 512" using ok by (simp_all add: inodes_ok_def Let_def)
  have wf: "wf_bitmap ?m" by (simp add: wf_bitmap_def l)
  have "\<exists>k < 4096. \<not> used ?m k" using free by (auto simp: used_inodes_def)
  with bit_alloc_spec [OF wf] l obtain k m where k: "bitmap_scan ?m 1 = Inr (int k)" "bitmap_set ?m k 1 = Inr m" "k < 4096"
    "\<not> used ?m k" "\<forall>j < k. used ?m j" "btmp_bytes_len m = 512" "length (bits m) = 512" "\<forall>j. used m j \<longleftrightarrow> j = k \<or> used ?m j"
    by auto
  then have "inode_bitmap_alloc s = Inr (Some (of_nat k), upd_part (\<lambda>p. p\<lparr>inode_bitmap := m\<rparr>) s)"
    by (simp add: inode_bitmap_alloc_def)
  then show ?thesis by (rule that [of k m, rotated 3]) (use k in \<open>auto simp: used_inodes_def\<close>)
qed

text \<open>Writing the sector of the bitmap establishes the invariant for the bitmap in memory.\<close>

lemma sync_inode_bitmap:
  assumes ok: "blocks_ok s" "layout_ok s" and m: "btmp_bytes_len (inode_bitmap (cur_part s)) = 512"
      "length (bits (inode_bitmap (cur_part s))) = 512"
    and lay: "unat (block_bitmap_lba (part_sb s)) + unat (block_bitmap_sects (part_sb s)) \<le> unat (inode_bitmap_lba (part_sb s))"
      "unat (inode_bitmap_lba (part_sb s)) < unat (inode_table_lba (part_sb s))"
    and k: "k < 4096"
  obtains d where "bitmap_sync (of_nat k) INODE_BITMAP s = Inr (s\<lparr>disk_data := d\<rparr>)"
    and "blocks_ok (s\<lparr>disk_data := d\<rparr>)" and "layout_ok (s\<lparr>disk_data := d\<rparr>)" and "inodes_ok (s\<lparr>disk_data := d\<rparr>)"
    and "\<And>l. data_start_lba (part_sb s) \<le> l \<Longrightarrow> d l = disk_data s l"
    and "\<And>n. n < 4096 \<Longrightarrow> stored_inode n (s\<lparr>disk_data := d\<rparr>) = stored_inode n s"
    and "\<And>l. unat l < unat (block_bitmap_lba (part_sb s)) \<Longrightarrow> d l = disk_data s l"
proof -
  let ?b = "part_sb s"
  let ?l = "inode_bitmap_lba ?b" and ?m = "bits (inode_bitmap (cur_part s))"
  let ?d = "(disk_data s)(?l := ?m)"
  have uk: "unat (of_nat k :: u32) = k" using k by (intro unat_word_of_nat32) simp
  then have z: "(of_nat k :: u32) div 4096 = 0" using k by (simp add: word_arith_nat_div)
  have t: "unat (inode_table_lba ?b) + 608 \<le> unat (data_start_lba ?b)" "disk_ok (disk_data s)"
    "unat (inode_table_lba ?b) + 608 \<le> unat max_lba" using ok(2) by (simp_all add: layout_ok_def table_ok_def)
  have le: "?l \<le> max_lba" using t lay(2) by (simp add: word_le_nat_alt)
  have 1: "bitmap_sync (of_nat k) INODE_BITMAP s = Inr (s\<lparr>disk_data := ?d\<rparr>)"
    using le m by (simp add: bitmap_sync_def disk_write_def Let_def z)
  have dok: "disk_ok ?d" using t(2) m(2) by (simp add: disk_ok_def)
  have bb: "sectors ?d (block_bitmap_lba ?b) (unat (block_bitmap_sects ?b)) = sectors (disk_data s) (block_bitmap_lba ?b) (unat (block_bitmap_sects ?b))"
  proof (rule sectors_cong)
    fix j assume j: "j < unat (block_bitmap_sects ?b)"
    have "unat (block_bitmap_lba ?b + of_nat j) = unat (block_bitmap_lba ?b) + j"
      using j lay(1) unat_less32 [of ?l] by (simp add: unat_word_ariths unat_word_of_nat32)
    then show "?d (block_bitmap_lba ?b + of_nat j) = disk_data s (block_bitmap_lba ?b + of_nat j)" using j lay(1) by auto
  qed
  have 2: "blocks_ok (s\<lparr>disk_data := ?d\<rparr>)" using ok(1) dok bb by (simp add: blocks_ok_def Let_def)
  have 3: "layout_ok (s\<lparr>disk_data := ?d\<rparr>)" using ok(2) dok by (simp add: layout_ok_def table_ok_def)
  have 4: "inodes_ok (s\<lparr>disk_data := ?d\<rparr>)" using m lay by (simp add: inodes_ok_def Let_def)
  have 5: "?d l = disk_data s l" if "data_start_lba ?b \<le> l" for l
    using that t(1) lay(2) by (auto simp: word_le_nat_alt)
  have "sectors ?d (inode_table_lba ?b) 609 = sectors (disk_data s) (inode_table_lba ?b) 609"
  proof (rule sectors_cong)
    fix j assume j: "j < (609 :: nat)"
    have "unat (inode_table_lba ?b + of_nat j) = unat (inode_table_lba ?b) + j"
      using j t(3) by (simp add: unat_word_ariths unat_word_of_nat32 unat_max_lba)
    then show "?d (inode_table_lba ?b + of_nat j) = disk_data s (inode_table_lba ?b + of_nat j)" using lay(2) by auto
  qed
  then have 6: "stored_inode n (s\<lparr>disk_data := ?d\<rparr>) = stored_inode n s" for n by (simp add: stored_inode_def)
  have 7: "?d l = disk_data s l" if "unat l < unat (block_bitmap_lba ?b)" for l using that lay(1) by auto
  show ?thesis by (rule that [OF 1 2 3 4]) (use 5 6 7 in auto)
qed

section \<open>Creating a file\<close>

text \<open>The entry that is added, and what finding it means for the lookups.\<close>

definition new_entry :: "str \<Rightarrow> u32 \<Rightarrow> u32 \<Rightarrow> dir_entry" where
  "new_entry n ino ft = \<lparr>filename = n @ replicate (16 - length n) 0, e_i_no = ino, f_type = ft\<rparr>"

lemma dir_lookup_insert:
  assumes "dir_entries (disk_data s) (dir_blocks i) = A @ zs @ B" "free_entries zs"
    and "dir_entries (disk_data s') (dir_blocks i') = A @ new_entry n ino ft # zs' @ B" "free_entries zs'"
    and n: "valid_name n" and new: "dir_lookup i n s = None" and m: "valid_name m"
  shows "dir_lookup i' m s' = (if m = n then Some (new_entry n ino ft) else dir_lookup i m s)"
proof -
  have named: "has_name m (new_entry n ino ft) \<longleftrightarrow> m = n" by (rule has_name_iff [OF m n]) (simp add: new_entry_def)
  show ?thesis unfolding dir_lookup_def assms(1,3) named [symmetric]
    by (rule find_insert)
      (use free_entries_no_name [OF assms(2) m] free_entries_no_name [OF assms(4) m] new named in \<open>simp_all add: dir_lookup_def assms(1)\<close>)
qed

text \<open>A first free slot from index 3 on.\<close>

lemma first_from_ex: "\<exists>j. n \<le> j \<and> j < length xs \<and> P (xs ! j) \<Longrightarrow> \<exists>j. first_from n P xs = Some j \<and> n \<le> j \<and> j < length xs \<and> P (xs ! j)"
proof -
  assume "\<exists>j. n \<le> j \<and> j < length xs \<and> P (xs ! j)"
  then have "find (\<lambda>i. P (xs ! i)) [n..<length xs] \<noteq> None" by (auto simp: find_None_iff)
  then obtain j where "find (\<lambda>i. P (xs ! i)) [n..<length xs] = Some j" by auto
  then show ?thesis by (auto simp: first_from_def find_Some_iff)
qed

lemma low_inode: "n < 256 \<Longrightarrow> n AND 0xff = (n :: u32)"
proof -
  assume "n < 256"
  then have "take_bit 8 (unat n) = unat n" by (simp add: take_bit_nat_eq_self_iff word_less_nat_alt)
  then have "take_bit 8 n = n" by (simp only: word_unat_eq_iff unsigned_take_bit_eq)
  then have "n AND mask 8 = n" by (simp add: take_bit_eq_mask)
  then show ?thesis by (simp add: mask_eq_exp_minus_1)
qed

text \<open>The two inodes and the bitmap reach the disk; the data blocks stay.\<close>

lemma sync_created:
  assumes ok: "blocks_ok s" "layout_ok s" and m: "btmp_bytes_len (inode_bitmap (cur_part s)) = 512"
      "length (bits (inode_bitmap (cur_part s))) = 512"
    and lay: "unat (block_bitmap_lba (part_sb s)) + unat (block_bitmap_sects (part_sb s)) \<le> unat (inode_bitmap_lba (part_sb s))"
      "unat (inode_bitmap_lba (part_sb s)) < unat (inode_table_lba (part_sb s))"
    and k: "k < 256" and i: "length (i_sectors i) = 13" "i_no i < 256" "i_no i \<noteq> of_nat k"
    and j: "length (i_sectors j) = 13" "i_no j = of_nat k" "i_open_cnts j = 0" "\<not> write_deny j"
  obtains m1 d where "inode_sync i s = Inr (s\<lparr>disk_data := m1\<rparr>)"
    and "rbind (inode_sync j (s\<lparr>disk_data := m1\<rparr>)) (bitmap_sync (of_nat k) INODE_BITMAP) = Inr (s\<lparr>disk_data := d\<rparr>)"
    and "blocks_ok (s\<lparr>disk_data := d\<rparr>)" and "layout_ok (s\<lparr>disk_data := d\<rparr>)" and "inodes_ok (s\<lparr>disk_data := d\<rparr>)"
    and "\<And>l. data_start_lba (part_sb s) \<le> l \<Longrightarrow> d l = disk_data s l"
    and "stored_inode (of_nat k) (s\<lparr>disk_data := d\<rparr>) = j"
    and "stored_inode (i_no i) (s\<lparr>disk_data := d\<rparr>) = i\<lparr>i_open_cnts := 0, write_deny := False\<rparr>"
    and "\<And>n. n < 4096 \<Longrightarrow> n \<noteq> i_no i \<Longrightarrow> n \<noteq> of_nat k \<Longrightarrow> stored_inode n (s\<lparr>disk_data := d\<rparr>) = stored_inode n s"
    and "\<And>l. unat l < unat (block_bitmap_lba (part_sb s)) \<Longrightarrow> d l = disk_data s l"
proof -
  have uk: "unat (of_nat k :: u32) = k" using k by (intro unat_word_of_nat32) simp
  then have k8: "(of_nat k :: u32) < 256" using k by (simp add: word_less_nat_alt)
  have small: "(of_nat k :: u32) < 4096" "i_no i < 4096" by (rule less_trans [OF k8] less_trans [OF i(2)], simp)+
  obtain m1 where 1: "inode_sync i s = Inr (s\<lparr>disk_data := m1\<rparr>)" "blocks_ok (s\<lparr>disk_data := m1\<rparr>)"
    "stored_inode (i_no i AND 0xff) (s\<lparr>disk_data := m1\<rparr>) = i\<lparr>i_open_cnts := 0, write_deny := False\<rparr>"
    "\<And>l. data_start_lba (part_sb s) \<le> l \<Longrightarrow> m1 l = disk_data s l"
    "\<And>n. n < 4096 \<Longrightarrow> n \<noteq> i_no i AND 0xff \<Longrightarrow> stored_inode n (s\<lparr>disk_data := m1\<rparr>) = stored_inode n s"
    "\<And>l. unat l < unat (inode_table_lba (part_sb s)) \<Longrightarrow> m1 l = disk_data s l"
    by (rule sync_keeps_blocks [OF ok(2,1) i(1)]) blast
  let ?s1 = "s\<lparr>disk_data := m1\<rparr>"
  have lay1: "layout_ok ?s1" using ok(2) 1(2) by (simp add: layout_ok_def table_ok_def blocks_ok_def Let_def)
  obtain m2 where 2: "inode_sync j ?s1 = Inr (?s1\<lparr>disk_data := m2\<rparr>)" "blocks_ok (?s1\<lparr>disk_data := m2\<rparr>)"
    "stored_inode (i_no j AND 0xff) (?s1\<lparr>disk_data := m2\<rparr>) = j\<lparr>i_open_cnts := 0, write_deny := False\<rparr>"
    "\<And>l. data_start_lba (part_sb ?s1) \<le> l \<Longrightarrow> m2 l = disk_data ?s1 l"
    "\<And>n. n < 4096 \<Longrightarrow> n \<noteq> i_no j AND 0xff \<Longrightarrow> stored_inode n (?s1\<lparr>disk_data := m2\<rparr>) = stored_inode n ?s1"
    "\<And>l. unat l < unat (inode_table_lba (part_sb ?s1)) \<Longrightarrow> m2 l = disk_data ?s1 l"
    by (rule sync_keeps_blocks [OF lay1 1(2) j(1)]) blast
  let ?s2 = "s\<lparr>disk_data := m2\<rparr>"
  have s2: "?s1\<lparr>disk_data := m2\<rparr> = ?s2" by simp
  note 2 = 2 [unfolded s2]
  have lay2: "layout_ok ?s2" using ok(2) 2(2) by (simp add: layout_ok_def table_ok_def blocks_ok_def Let_def)
  obtain d where 3: "bitmap_sync (of_nat k) INODE_BITMAP ?s2 = Inr (?s2\<lparr>disk_data := d\<rparr>)"
    "blocks_ok (?s2\<lparr>disk_data := d\<rparr>)" "layout_ok (?s2\<lparr>disk_data := d\<rparr>)" "inodes_ok (?s2\<lparr>disk_data := d\<rparr>)"
    "\<And>l. data_start_lba (part_sb ?s2) \<le> l \<Longrightarrow> d l = disk_data ?s2 l"
    "\<And>n. n < 4096 \<Longrightarrow> stored_inode n (?s2\<lparr>disk_data := d\<rparr>) = stored_inode n ?s2"
    "\<And>l. unat l < unat (block_bitmap_lba (part_sb ?s2)) \<Longrightarrow> d l = disk_data ?s2 l"
    by (rule sync_inode_bitmap [OF 2(2) lay2, of k]) (use m lay k in auto)
  have s3: "?s2\<lparr>disk_data := d\<rparr> = s\<lparr>disk_data := d\<rparr>" by simp
  note 3 = 3 [unfolded s3]
  show ?thesis
  proof (rule that [OF 1(1) _ 3(2-4)])
    show "rbind (inode_sync j ?s1) (bitmap_sync (of_nat k) INODE_BITMAP) = Inr (s\<lparr>disk_data := d\<rparr>)" using 2(1) 3(1) by simp
    show "d l = disk_data s l" if "data_start_lba (part_sb s) \<le> l" for l using that 1(4) 2(4) 3(5) by simp
    have "j\<lparr>i_open_cnts := 0, write_deny := False\<rparr> = j" using j(3,4) by (cases j) simp
    then show "stored_inode (of_nat k) (s\<lparr>disk_data := d\<rparr>) = j"
      using 2(3) 3(6) [OF small(1)] low_inode [OF k8] j(2) by simp
    show "stored_inode (i_no i) (s\<lparr>disk_data := d\<rparr>) = i\<lparr>i_open_cnts := 0, write_deny := False\<rparr>"
      using 1(3) 2(5) [OF small(2)] 3(6) [OF small(2)] low_inode [OF i(2)] low_inode [OF k8] j(2) i(3) by simp
    show "stored_inode n (s\<lparr>disk_data := d\<rparr>) = stored_inode n s" if "n < 4096" "n \<noteq> i_no i" "n \<noteq> of_nat k" for n
      using that 1(5) 2(5) 3(6) low_inode [OF i(2)] low_inode [OF k8] j(2) by simp
    show "d l = disk_data s l" if "unat l < unat (block_bitmap_lba (part_sb s))" for l
      using that 1(6) [of l] 2(6) [of l] 3(7) [of l] lay by simp
  qed
qed

text \<open>A new inode at \<open>f\<close> in memory, in the file table and in the bitmap is no concern of the directory.\<close>

lemma fs_ok_parts:
  assumes "fs_ok s"
  shows "blocks_ok s" and "layout_ok s" and "inodes_ok s" and "data_start_lba (part_sb s) \<in> used_blocks s"
  using assms by (simp_all add: fs_ok_def)

lemma file_create_run:
  assumes fs: "fs_ok s" and dir: "dir_ok pd p i s" and room: "dir_room i s" and n: "valid_name n" and new: "dir_lookup i n s = None"
    and parent: "i_no i < 256" "unat (i_no i) \<in> used_inodes s" and free: "\<exists>k < 256. k \<notin> used_inodes s"
    and h: "heap s = a # f # h" "a \<noteq> 0" "f \<noteq> 0" "f \<noteq> p"
    and slot: "\<exists>j \<ge> 3. j < length (file_table s) \<and> fd_inode (file_table s ! j) = 0"
    and fd: "\<exists>j \<ge> 3. j < length (thread_fds s) \<and> thread_fds s ! j = - 1"
  obtains k j g i' s' where "file_create pd n flag s = Inr (of_nat g, s')" and "fs_ok s'" and "dir_ok pd p i' s'"
    and "\<And>m. valid_name m \<Longrightarrow> dir_lookup i' m s' = (if m = n then Some (new_entry n (of_nat k) FT_REGULAR) else dir_lookup i m s)"
    and "k < 256" and "k \<notin> used_inodes s" and "used_inodes s' = insert k (used_inodes s)"
    and "file_ok f ((inode_init (of_nat k))\<lparr>i_open_cnts := 1\<rparr>) s'"
    and "stored_inode (of_nat k) s' = inode_init (of_nat k)" and "stored_inode (i_no i) s' = i'\<lparr>i_open_cnts := 0, write_deny := False\<rparr>"
    and "3 \<le> j" and "j < length (file_table s)" and "file_table s' = (file_table s)[j := \<lparr>fd_pos = 0, fd_flag = flag, fd_inode = f\<rparr>]"
    and "3 \<le> g" and "g < length (thread_fds s)" and "thread_fds s ! g = - 1" and "thread_fds s' = (thread_fds s)[g := of_nat j]"
    and "heap s' = h" and "root_dir s' = root_dir s" and "data_blocks s' = data_blocks s"
    and "used_blocks s \<subseteq> used_blocks s'" and "\<exists>l. used_blocks s' \<subseteq> insert l (used_blocks s)"
    and "\<And>l. l \<in> used_blocks s - set (dir_blocks i) \<Longrightarrow> disk_data s' l = disk_data s l"
    and "\<And>n. n < 4096 \<Longrightarrow> n \<noteq> i_no i \<Longrightarrow> n \<noteq> of_nat k \<Longrightarrow> stored_inode n s' = stored_inode n s"
    and "open_inode (cur_part s') = f # open_inode (cur_part s)" and "part_sb s' = part_sb s" and "dirs s' = dirs s"
    and "\<And>q. q \<noteq> f \<Longrightarrow> q \<noteq> p \<Longrightarrow> inodes s' q = inodes s q" and "i_no i' = i_no i"
    and "\<exists>A B. live i s = A @ B \<and> live i' s' = A @ new_entry n (of_nat k) FT_REGULAR # B"
    and "\<exists>b \<in> set (takeWhile (\<lambda>b. b \<noteq> 0) (dir_blocks i)). free_slot (disk_data s) b \<Longrightarrow> i_sectors i' = i_sectors i \<and> used_blocks s' = used_blocks s"
    and "same_layout s s'"
proof -
  note ok = fs_ok_parts [OF fs]
  let ?s1 = "s\<lparr>heap := f # h\<rparr>"
  obtain j where j: "get_free_slot_in_global s = Some j" "3 \<le> j" "j < length (file_table s)"
    using first_from_ex [of 3 "file_table s" "\<lambda>f. fd_inode f = 0"] slot unfolding get_free_slot_in_global_def by auto
  obtain g where g: "first_from 3 (\<lambda>fd. fd = - 1) (thread_fds s) = Some g" "3 \<le> g" "g < length (thread_fds s)" "thread_fds s ! g = - 1"
    using first_from_ex [of 3 "thread_fds s" "\<lambda>fd. fd = - 1"] fd by auto
  have same1: "used_inodes ?s1 = used_inodes s" by (simp add: used_inodes_def)
  have ok1: "inodes_ok ?s1" using ok(3) by (simp add: inodes_ok_def)
  from free obtain c where c: "c < 256" "c \<notin> used_inodes s" by blast
  then have "c \<in> {..<4096} - used_inodes s" by simp
  then have "used_inodes s \<noteq> {..<4096}" by blast
  then obtain k m where k: "k < 4096" "k \<notin> used_inodes s" "\<And>j. j < k \<Longrightarrow> j \<in> used_inodes s"
    "inode_bitmap_alloc ?s1 = Inr (Some (of_nat k), upd_part (\<lambda>p. p\<lparr>inode_bitmap := m\<rparr>) ?s1)"
    "btmp_bytes_len m = 512" "length (bits m) = 512" "\<And>j. used m j \<longleftrightarrow> j = k \<or> used (inode_bitmap (cur_part ?s1)) j"
    using inode_bitmap_alloc_eq [OF ok1] unfolding same1 by blast
  have k8: "k < 256" using k(3) [of c] c by (cases "c < k") auto
  let ?i = "inode_init (of_nat k)" and ?F = "\<lparr>fd_pos = 0, fd_flag = flag, fd_inode = f\<rparr>" and ?e = "new_entry n (of_nat k) FT_REGULAR"
  let ?s3 = "(upd_part (\<lambda>p. p\<lparr>inode_bitmap := m\<rparr>) s)\<lparr>heap := h\<rparr>"
  let ?s4 = "set_file j ?F (set_inode f ?i ?s3)"
  have e: "create_dir_entry n (of_nat k) (ucast FT_REGULAR) = Inr ?e" "length (filename ?e) = 16" "f_type ?e \<noteq> FT_UNKNOWN"
    using n by (simp_all add: create_dir_entry_def new_entry_def valid_name_def MAX_FILE_NAME_LEN_def FT_REGULAR_def FT_UNKNOWN_def)
  have same4: "same_mem s ?s4" "disk_data ?s4 = disk_data s" "dirs ?s4 = dirs s" "inodes ?s4 p = inodes s p"
    using h(4) by (simp_all add: same_mem_def set_file_def set_inode_def)
  have b4: "blocks_ok ?s4" using ok(1) by (simp add: blocks_ok_def set_file_def set_inode_def)
  note d4 = dir_ok_cong [OF same4(1) b4 dir]
  have dir4: "dir_ok pd p i ?s4" "dir_room i ?s4" using room d4(1,3) same4(2-4) by simp_all
  obtain s5 i' A zs zs' B where s5: "sync_dir_entry pd ?e ?s4 = Inr (True, s5)" "dir_ok pd p i' s5"
    "dir_entries (disk_data ?s4) (dir_blocks i) = A @ zs @ B" "free_entries zs"
    "dir_entries (disk_data s5) (dir_blocks i') = A @ ?e # zs' @ B" "free_entries zs'" "i_no i' = i_no i"
    and kept: "kept p ?s4 s5" "\<And>l. l \<in> used_blocks ?s4 - set (dir_blocks i) \<Longrightarrow> disk_data s5 l = disk_data ?s4 l"
      "\<exists>l. used_blocks s5 \<subseteq> insert l (used_blocks ?s4)"
      "\<exists>b \<in> set (takeWhile (\<lambda>b. b \<noteq> 0) (dir_blocks i)). free_slot (disk_data ?s4) b \<Longrightarrow> i_sectors i' = i_sectors i \<and> used_blocks s5 = used_blocks ?s4"
    by (rule sync_dir_entry_inserts [OF dir4 e(2,3)]) blast
  have u4: "used_blocks ?s4 = used_blocks s" "data_blocks ?s4 = data_blocks s"
    by (rule used_blocks_cong; simp add: set_file_def set_inode_def)+
  have s5eq: "part_sb s5 = part_sb s" "inode_bitmap (cur_part s5) = m" "heap s5 = h" "file_table s5 = (file_table s)[j := ?F]"
    "thread_fds s5 = thread_fds s" "root_dir s5 = root_dir s" "get_inode f s5 = Inr ?i" "dirs s5 = dirs s"
    "used_blocks s \<subseteq> used_blocks s5" "data_blocks s5 = data_blocks s" "get_dir pd s5 = get_dir pd s"
    "start_lba (cur_part s5) = start_lba (cur_part s)" "sec_cnt (cur_part s5) = sec_cnt (cur_part s)"
    using kept(1) h(4) u4 by (simp_all add: kept_def set_file_def set_inode_def get_inode_def get_dir_def)
  have b5: "blocks_ok s5" and gi5: "get_inode p s5 = Inr i'" and gd5: "\<exists>pos. get_dir pd s5 = Inr \<lparr>dir_inode = p, dir_pos = pos\<rparr>"
    and i13: "length (i_sectors i') = 13" using s5(2) by (simp_all add: dir_ok_def)
  have lay5: "layout_ok s5" using ok(2) b5 s5eq by (simp add: layout_ok_def table_ok_def blocks_ok_def Let_def)
  have uk: "unat (of_nat k :: u32) = k" using k8 by (intro unat_word_of_nat32) simp
  then have neq: "i_no i' \<noteq> of_nat k" using parent(2) k(2) s5(7) by auto
  obtain m1 d where sy: "inode_sync i' s5 = Inr (s5\<lparr>disk_data := m1\<rparr>)"
    "rbind (inode_sync ?i (s5\<lparr>disk_data := m1\<rparr>)) (bitmap_sync (of_nat k) INODE_BITMAP) = Inr (s5\<lparr>disk_data := d\<rparr>)"
    "blocks_ok (s5\<lparr>disk_data := d\<rparr>)" "layout_ok (s5\<lparr>disk_data := d\<rparr>)" "inodes_ok (s5\<lparr>disk_data := d\<rparr>)"
    "\<And>l. data_start_lba (part_sb s5) \<le> l \<Longrightarrow> d l = disk_data s5 l"
    "stored_inode (of_nat k) (s5\<lparr>disk_data := d\<rparr>) = ?i"
    "stored_inode (i_no i') (s5\<lparr>disk_data := d\<rparr>) = i'\<lparr>i_open_cnts := 0, write_deny := False\<rparr>"
    "\<And>n. n < 4096 \<Longrightarrow> n \<noteq> i_no i' \<Longrightarrow> n \<noteq> of_nat k \<Longrightarrow> stored_inode n (s5\<lparr>disk_data := d\<rparr>) = stored_inode n s5"
    "\<And>l. unat l < unat (block_bitmap_lba (part_sb s5)) \<Longrightarrow> d l = disk_data s5 l"
    by (rule sync_created [OF b5 lay5, of k i' ?i]) (use ok(3) s5eq k8 k(5,6) i13 neq parent(1) s5(7) in \<open>auto simp: inodes_ok_def Let_def inode_init_def\<close>)
  let ?s8 = "s5\<lparr>disk_data := d\<rparr>"
  let ?s9 = "set_inode f (?i\<lparr>i_open_cnts := 1\<rparr>) (upd_part (\<lambda>p. p\<lparr>open_inode := f # open_inode p\<rparr>) ?s8)"
  let ?s' = "?s9\<lparr>thread_fds := (thread_fds s)[g := of_nat j]\<rparr>"
  have run: "file_create pd n flag s = Inr (of_nat g, ?s')"
  proof -
    have sl: "get_free_slot_in_global (set_inode f ?i ?s3) = Some j" using j(1) by (simp add: get_free_slot_in_global_def set_inode_def)
    have pcb: "pcb_fd_install j ?s9 = (of_nat g, ?s')" using g(1) s5eq(5) by (simp add: pcb_fd_install_def set_inode_def)
    have gi6: "get_inode f (s5\<lparr>disk_data := m1\<rparr>) = Inr ?i" using s5eq(7) by (simp add: get_inode_def)
    obtain pos where gd: "get_dir pd s5 = Inr \<lparr>dir_inode = p, dir_pos = pos\<rparr>" using gd5 by blast
    have end1: "rbind (inode_sync ?i (s5\<lparr>disk_data := m1\<rparr>)) (\<lambda>s. rbind (bitmap_sync (of_nat k) INODE_BITMAP s) F) = F ?s8" for F :: "fs \<Rightarrow> 'x res"
      using sy(2) by (simp add: rbind_assoc [symmetric] eta_contract_eq)
    show ?thesis using h(1-3) k(4) sl e(1) s5(1) gd gi5 sy(1) gi6 pcb
      by (simp add: file_create_def fs_malloc_def Let_def end1)
  qed
  have same8: "same_mem s5 ?s'" "same_mem ?s8 ?s'" "disk_data ?s' = d" "inode_bitmap (cur_part ?s') = m" "dirs ?s' = dirs s5"
    "inodes ?s' p = inodes s5 p" "get_inode f ?s' = Inr (?i\<lparr>i_open_cnts := 1\<rparr>)"
    using h(4) s5eq(2) by (simp_all add: same_mem_def set_inode_def get_inode_def)
  have u8: "used_blocks ?s' = used_blocks s5" "data_blocks ?s' = data_blocks s5"
    by (rule used_blocks_cong; simp add: set_inode_def)+
  have "data_start_lba (part_sb ?s8) \<in> used_blocks ?s8" using subsetD [OF s5eq(9) ok(4)] s5eq(1) by simp
  with sy(3-5) have "fs_ok ?s8" unfolding fs_ok_def by blast
  then have fs': "fs_ok ?s'" by (subst fs_ok_cong [OF same8(2)]) (simp_all add: set_inode_def)
  have b': "blocks_ok ?s'" by (rule fs_ok_parts [OF fs'])
  note d8 = dir_ok_cong [OF same8(1) b' s5(2) _ same8(6)]
  have dir': "dir_ok pd p i' ?s'" and look': "dir_lookup i' q ?s' = dir_lookup i' q s5" for q
    using d8(1,2) same8(3,5) sy(6) by auto
  have look: "dir_lookup i' q ?s' = (if q = n then Some ?e else dir_lookup i q s)" if "valid_name q" for q
    using dir_lookup_insert [OF s5(3,4,5,6) n _ that] d4(2) new same4(2-4) unfolding look' by simp
  have ui: "used_inodes ?s' = insert k (used_inodes s)" unfolding used_inodes_def same8(4) k(7) using k(1) by (intro set_eqI) (simp, blast)
  have fil: "file_ok f (?i\<lparr>i_open_cnts := 1\<rparr>) ?s'" using fs_ok_parts(1,4) [OF fs'] same8(7)
    by (simp add: file_ok_def inode_init_def file_blocks_def)
  have st: "stored_inode q ?s' = stored_inode q ?s8" for q by (simp add: stored_inode_def set_inode_def)
  have d5: "disk_data s5 l = disk_data s l" if "off_bitmap s l" "l < data_start_lba (part_sb s)" for l
    using kept(1) that by (simp add: kept_def set_file_def set_inode_def)
  have "stored_inode q s5 = stored_inode q s" if "q < 4096" for q
    by (rule stored_cong [OF ok(2) that s5eq(1)]) (use b5 d5 ok(2) in \<open>simp_all add: blocks_ok_def layout_ok_def Let_def\<close>)
  then have others: "stored_inode q ?s' = stored_inode q s" if "q < 4096" "q \<noteq> i_no i" "q \<noteq> of_nat k" for q
    using st sy(9) s5(7) that by simp
  have rest: "open_inode (cur_part ?s') = f # open_inode (cur_part s)" "\<And>q. q \<noteq> f \<Longrightarrow> q \<noteq> p \<Longrightarrow> inodes ?s' q = inodes s q"
    using kept(1) by (simp_all add: kept_def set_file_def set_inode_def)
  have data: "disk_data ?s' l = disk_data s l" if "l \<in> used_blocks s - set (dir_blocks i)" for l
    using that kept(2) [of l] sy(6) [of l] used_data [of s] data_blocks_range(1) [OF ok(1), of l] u4(1) s5eq(1) same4(2) same8(3)
    by auto
  have lv: "\<exists>A B. live i s = A @ B \<and> live i' ?s' = A @ ?e # B"
  proof -
    let ?P = "\<lambda>e. f_type e \<noteq> FT_UNKNOWN"
    have "filter ?P zs = []" "filter ?P zs' = []" using s5(4,6) by (auto simp: free_entries_def filter_empty_conv)
    moreover have "dir_entries (disk_data ?s') (dir_blocks i') = dir_entries (disk_data s5) (dir_blocks i')"
      by (rule d8(4)) (use same8(3,5) sy(6) in auto)
    ultimately have "live i s = filter ?P A @ filter ?P B" "live i' ?s' = filter ?P A @ ?e # filter ?P B"
      using s5(3,5) same4(2) e(3) by (simp_all add: live_def)
    then show ?thesis by blast
  qed
  have stay: "i_sectors i' = i_sectors i \<and> used_blocks ?s' = used_blocks s"
    if "\<exists>b \<in> set (takeWhile (\<lambda>b. b \<noteq> 0) (dir_blocks i)). free_slot (disk_data s) b"
    using kept(4) that same4(2) u8(1) u4(1) by simp
  have front: "same_layout s ?s'"
  proof -
    have "same_layout ?s4 s5" by (rule same_layout_kept [OF b4 kept(1)])
    then have "same_layout s s5" using same4(1,2) u4(2) by (simp add: same_layout_def same_mem_def)
    moreover have "same_layout s5 ?s'" using sy(10) same8(1,3) u8(2) by (simp add: same_layout_def same_mem_def)
    ultimately show ?thesis by (rule same_layout_trans)
  qed
  show ?thesis
    by (rule that [OF run fs' dir' look k8 k(2) ui fil])
      (use front lv stay st sy(7,8) s5(7) j(2,3) g(2-4) s5eq u8 kept(3) u4 data others rest in \<open>simp_all add: set_inode_def\<close>)
qed

end
