(* ===== verification/Descriptors.thy ===== *)
theory Descriptors
  imports Fs Create
begin

text \<open>
  The system calls on files in the root directory, from the path of the file down to the sectors: the invariant of a mounted file
  system with its open inodes and descriptors, and what \<^verbatim>\<open>sys_open\<close>, \<^verbatim>\<open>sys_write\<close>, \<^verbatim>\<open>sys_lseek\<close>, \<^verbatim>\<open>sys_read\<close> and \<^verbatim>\<open>sys_close\<close> of
  \<^verbatim>\<open>fs/fs.c\<close> do to it.
\<close>

section \<open>The path of a file in the root directory\<close>

definition plain_name :: "str \<Rightarrow> bool" where
  "plain_name n \<longleftrightarrow> valid_name n \<and> slash \<notin> set n \<and> n \<noteq> ascii ''.'' \<and> n \<noteq> ascii ''..''"

lemma top_components: "plain_name n \<Longrightarrow> components (slash # n) = [n]"
  using components_render [of "[n]"] by (simp add: render_one proper_def plain_name_def valid_name_def)

lemma top_depth: "plain_name n \<Longrightarrow> length junk = 16 \<Longrightarrow> path_depth_cnt junk (slash # n) = Inr 1"
  using path_depth_components [of "slash # n" junk] top_components [of n] by (simp add: plain_name_def valid_name_def fits_def)

lemma top_parse: "plain_name n \<Longrightarrow> path_parse (slash # n) (replicate 512 0) = Inr (None, n @ replicate (512 - length n) 0)"
proof -
  assume n: "plain_name n"
  then have t: "takeWhile (\<lambda>c. c \<noteq> slash) n = n" "dropWhile (\<lambda>c. c \<noteq> slash) n = []"
    by (auto simp: plain_name_def takeWhile_eq_all_conv dropWhile_eq_Nil_conv)
  have "n = dropWhile (\<lambda>c. c = slash) (slash # n)" using n by (cases n) (auto simp: plain_name_def valid_name_def)
  from path_parse_eq [OF this, of "replicate 512 0", unfolded t] n show ?thesis
    by (simp add: put_bytes_def plain_name_def valid_name_def del: replicate.simps)
qed

lemma top_base: "plain_name n \<Longrightarrow> base_name (slash # n) = n"
  using last_slash_snoc [of n "[]"] by (simp add: base_name_def plain_name_def)

lemma top_last: "plain_name n \<Longrightarrow> aread (slash # n) (length n) = Inr (last n) \<and> last n \<noteq> slash"
proof -
  assume n: "plain_name n"
  then have "n \<noteq> []" by (simp add: plain_name_def valid_name_def)
  then have "last n \<in> set n" "(slash # n) ! length n = last n" by (simp_all add: last_conv_nth nth_Cons')
  then show ?thesis using n by (auto simp: plain_name_def aread_def)
qed

lemma top_string: "plain_name n \<Longrightarrow> buf_string (n @ replicate (512 - length n) 0) = Inr n"
  using buf_strlen_zeros [of n "512 - length n"] by (simp add: buf_string_def plain_name_def valid_name_def)

section \<open>Searching the root directory\<close>

lemma search_dir_entry_run:
  assumes ok: "dir_ok pd p i s" and n: "valid_name n" and h: "heap s = a # b # h" "a \<noteq> 0"
  shows "search_dir_entry pd n s = Inr (dir_lookup i n s, s\<lparr>heap := h\<rparr>)"
proof -
  have d: "disk_ok (disk_data s)" using ok by (simp add: dir_ok_def blocks_ok_def Let_def)
  have "\<forall>b \<in> set (dir_blocks i @ replicate 128 0). b \<noteq> 0 \<longrightarrow> b \<le> max_lba" using dir_blocks_range [OF ok] by auto
  with d n have "search_blocks n 21 (dir_blocks i @ replicate 128 0) (s\<lparr>heap := h\<rparr>) = Inr (dir_lookup i n s)"
    by (subst search_blocks_eq) (simp_all add: dir_lookup_def)
  moreover obtain pos where "get_dir pd s = Inr \<lparr>dir_inode = p, dir_pos = pos\<rparr>" "get_inode p s = Inr i" "i_sectors i ! 12 = 0"
    "dir_entry_size (part_sb s) = 24" using ok by (auto simp: dir_ok_def)
  ultimately show ?thesis using h
    by (simp add: search_dir_entry_def fs_malloc_def all_blocks_def dir_blocks_def entries_per_sec_def SECTOR_SIZE_def
          get_dir_def get_inode_def)
qed

definition found_at :: "u32 \<Rightarrow> str \<Rightarrow> u32 \<Rightarrow> path_search_record" where
  "found_at d n ft = \<lparr>searched_path = slash # n, parent_dir = d, file_type = ft\<rparr>"

lemma search_file_top:
  assumes ok: "dir_ok (root_dir s) p i s" and n: "plain_name n" and h: "heap s = a # b # h" "a \<noteq> 0"
    and reg: "\<And>e. dir_lookup i n s = Some e \<Longrightarrow> f_type e = FT_REGULAR"
  shows "search_file J (slash # n) s = Inr (case dir_lookup i n s of
      None \<Rightarrow> (- 1, found_at (root_dir s) n FT_UNKNOWN, s\<lparr>heap := h\<rparr>)
    | Some e \<Rightarrow> (e_i_no e, found_at (root_dir s) n FT_REGULAR, s\<lparr>heap := h\<rparr>))"
proof -
  let ?buf = "n @ replicate (512 - length n) (0 :: u8)"
  have v: "valid_name n" using n by (simp add: plain_name_def)
  then have l: "0 < length n" "length n < 16" "?buf ! 0 \<noteq> 0" by (cases n; auto simp: valid_name_def)+
  have out: "slash # n \<notin> {ascii ''/'', ascii ''/.'', ascii ''/..''}" using n l by (auto simp: plain_name_def ascii_def)
  have cl: "clear_name ?buf = replicate 512 0" using l
    by (simp add: clear_name_def splice_def MAX_FILE_NAME_LEN_def flip: replicate_add)
  show ?thesis
    unfolding search_file_def using out l top_parse [OF n] top_string [OF n] search_dir_entry_run [OF ok v h] reg
    by (subst search_loop.simps) (simp add: MAX_PATH_LEN_def path_cat_def ascii_def next_name_def found_at_def
        FT_REGULAR_def FT_DIRECTORY_def split: option.split del: replicate.simps)
qed


section \<open>The invariant\<close>

text \<open>
  A mounted file system with its root directory open, the inode of which is at \<open>p\<close>: 32 entries of the file table, 8 descriptors,
  and inodes in memory that are marked as used, each of them once.
\<close>

abbreviation number_at :: "fs \<Rightarrow> u32 \<Rightarrow> u32" where
  "number_at s q \<equiv> i_no (the (inodes s q))"

definition opens_ok :: "fs \<Rightarrow> bool" where
  "opens_ok s \<longleftrightarrow> (\<forall>q \<in> set (open_inode (cur_part s)). inodes s q \<noteq> None \<and> unat (number_at s q) \<in> used_inodes s)
     \<and> distinct (map (number_at s) (open_inode (cur_part s)))"

definition mount_ok :: "u32 \<Rightarrow> inode \<Rightarrow> fs \<Rightarrow> bool" where
  "mount_ok p i s \<longleftrightarrow> fs_ok s \<and> dir_ok (root_dir s) p i s \<and> i_no i = 0 \<and> 0 \<in> used_inodes s
     \<and> length (file_table s) = 32 \<and> length (thread_fds s) = 8 \<and> opens_ok s"

lemma mount_ok_parts:
  assumes "mount_ok p i s"
  shows "fs_ok s" and "dir_ok (root_dir s) p i s" and "i_no i = 0" and "0 \<in> used_inodes s" and "length (file_table s) = 32"
    and "length (thread_fds s) = 8" and "opens_ok s" and "get_inode p s = Inr i" and "inodes s p = Some i"
  using assms get_inode_Some [of p s i] by (simp_all add: mount_ok_def dir_ok_def)

lemma opens_ok_cong:
  assumes "opens_ok s" and "open_inode (cur_part s') = open_inode (cur_part s)" and "used_inodes s \<subseteq> used_inodes s'"
    and "\<And>q. q \<in> set (open_inode (cur_part s)) \<Longrightarrow> inodes s' q \<noteq> None \<and> number_at s' q = number_at s q"
  shows "opens_ok s'"
  using assms by (auto simp: opens_ok_def cong: map_cong)

lemma opens_ok_add:
  assumes "opens_ok s" and "open_inode (cur_part s') = f # open_inode (cur_part s)" and "used_inodes s \<subseteq> used_inodes s'"
    and "\<And>q. q \<in> set (open_inode (cur_part s)) \<Longrightarrow> inodes s' q \<noteq> None \<and> number_at s' q = number_at s q"
    and "inodes s' f = Some i" and "unat (i_no i) \<in> used_inodes s'" and "i_no i \<notin> number_at s ` set (open_inode (cur_part s))"
  shows "opens_ok s'"
proof -
  have m: "map (number_at s') (open_inode (cur_part s)) = map (number_at s) (open_inode (cur_part s))"
    "number_at s' ` set (open_inode (cur_part s)) = number_at s ` set (open_inode (cur_part s))"
    using assms(4) by (auto intro: map_cong image_cong)
  show ?thesis unfolding opens_ok_def assms(2) list.map distinct.simps set_map m
    using assms(1,3-7) by (auto simp: opens_ok_def)
qed

text \<open>A descriptor of a process that stands for the entry \<open>F\<close> at \<open>j\<close> of the file table.\<close>

definition opened :: "nat \<Rightarrow> nat \<Rightarrow> open_file \<Rightarrow> fs \<Rightarrow> bool" where
  "opened g j F s \<longleftrightarrow> 3 \<le> g \<and> g < 8 \<and> 3 \<le> j \<and> j < 32 \<and> length (file_table s) = 32 \<and> length (thread_fds s) = 8
     \<and> thread_fds s ! g = of_nat j \<and> file_table s ! j = F"

text \<open>There is a free entry in the file table and a free descriptor.\<close>

definition slots :: "fs \<Rightarrow> bool" where
  "slots s \<longleftrightarrow> (\<exists>j \<ge> 3. j < length (file_table s) \<and> fd_inode (file_table s ! j) = 0)
     \<and> (\<exists>j \<ge> 3. j < length (thread_fds s) \<and> thread_fds s ! j = - 1)"

section \<open>The calls on a descriptor\<close>

lemma small_word: "g < 32 \<Longrightarrow> unat (of_nat g :: u32) = g \<and> sint (of_nat g :: u32) = int g"
  using sint_small [of "of_nat g"] by (simp add: unat_word_of_nat32)

lemma descriptor:
  assumes "opened g j F s"
  shows "fd_local2global (of_nat g) s = Inr j" and "get_file j s = Inr F" and "0 \<le> sint (of_nat g :: u32)" and "2 < sint (of_nat g :: u32)"
    and "(of_nat g :: u32) \<noteq> 0" and "(of_nat g :: u32) \<noteq> 1" and "(of_nat g :: u32) \<noteq> 2" and "unat (of_nat g :: u32) = g"
  using assms small_word [of g] small_word [of j] by (auto simp: opened_def fd_local2global_def)


lemma sys_write_eq:
  assumes "opened g j F s" and "for_writing (fd_flag F)"
  shows "sys_write (of_nat g) src s = rbind (file_write j src s) (\<lambda>(n, s). Inr (n, [], s))"
  using descriptor [OF assms(1)] assms(2) by (simp add: sys_write_def)

lemma sys_read_eq:
  assumes "opened g j F s"
  shows "sys_read (of_nat g) n keys s = file_read j n s"
  using descriptor [OF assms] by (simp add: sys_read_def)

lemma sys_lseek_start:
  assumes "opened g j F s" and "get_inode (fd_inode F) s = Inr i" and "unat (i_size i) < 6144"
  shows "sys_lseek (of_nat g) 0 1 s = Inr (0, set_file j (F\<lparr>fd_pos := 0\<rparr>) s)"
proof -
  have "unat (i_size i + 1) = unat (i_size i) + 1" using assms(3) by (simp add: unat_word_ariths)
  then have "sint (i_size i + 1) = int (unat (i_size i) + 1)" using sint_small [of "i_size i + 1"] assms(3) by simp
  then have "0 \<le> sint (i_size i + 1)" by (simp only: of_nat_0_le_iff)
  then have "\<not> i_size i + 1 <s 0" by (simp add: word_sless_alt)
  then show ?thesis using descriptor [OF assms(1)] assms(2) by (simp add: sys_lseek_def)
qed

text \<open>The last close of a file takes its inode out of the memory.\<close>

lemma sys_close_last:
  assumes "opened g j F s" and "fd_inode F = f" and "get_inode f s = Inr i" and "i_open_cnts i = 1"
    and "open_inode (cur_part s) = f # ps" and "f \<notin> set ps"
  shows "sys_close (of_nat g) s = Inr (0, upd_part (\<lambda>q. q\<lparr>open_inode := ps\<rparr>) s\<lparr>inodes := (inodes s)(f := None),
      file_table := (file_table s)[j := F\<lparr>fd_inode := 0\<rparr>], thread_fds := (thread_fds s)[g := - 1]\<rparr>)"
proof -
  let ?s = "set_inode f (i\<lparr>write_deny := False\<rparr>) s"
  have "removeAll f (f # ps) = ps" using assms(6) by simp
  then have "inode_close f ?s = Inr (upd_part (\<lambda>q. q\<lparr>open_inode := ps\<rparr>) s\<lparr>inodes := (inodes s)(f := None)\<rparr>)"
    using assms(4,5) by (simp add: inode_close_def set_inode_def get_inode_def Let_def)
  then show ?thesis using descriptor [OF assms(1)] assms(2,3)
    by (simp add: sys_close_def file_close_def set_file_def)
qed


section \<open>Creating a file with a path\<close>

lemma sys_open_creates_run:
  assumes ok: "mount_ok p i s" and n: "plain_name n" and new: "dir_lookup i n s = None" and room: "dir_room i s"
    and free: "\<exists>k < 256. k \<notin> used_inodes s" and sl: "slots s" and J: "length (junk_name J) = 16"
    and h: "heap s = x # y # a # f # h" "x \<noteq> 0" "a \<noteq> 0" "f \<noteq> 0" "inodes s f = None"
    and fl: "flags \<le> 7" "flags AND O_CREAT \<noteq> 0"
  obtains k j g i' s' where "sys_open J (slash # n) flags s = Inr (of_nat g, s')" and "mount_ok p i' s'"
    and "opened g j \<lparr>fd_pos = 0, fd_flag = flags, fd_inode = f\<rparr> s'" and "k < 256" and "k \<notin> used_inodes s"
    and "used_inodes s' = insert k (used_inodes s)" and "file_ok f ((inode_init (of_nat k))\<lparr>i_open_cnts := 1\<rparr>) s'"
    and "\<And>m. valid_name m \<Longrightarrow> dir_lookup i' m s' = (if m = n then Some (new_entry n (of_nat k) FT_REGULAR) else dir_lookup i m s)"
    and "stored_inode (of_nat k) s' = inode_init (of_nat k)" and "heap s' = h" and "root_dir s' = root_dir s"
    and "\<And>q. q < 4096 \<Longrightarrow> q \<noteq> 0 \<Longrightarrow> q \<noteq> of_nat k \<Longrightarrow> stored_inode q s' = stored_inode q s"
    and "open_inode (cur_part s') = f # open_inode (cur_part s)" and "f \<notin> set (open_inode (cur_part s))" and "f \<noteq> p"
    and "data_blocks s' = data_blocks s" and "used_blocks s \<subseteq> used_blocks s'" and "\<exists>l. used_blocks s' \<subseteq> insert l (used_blocks s)"
    and "\<And>l. l \<in> used_blocks s - set (dir_blocks i) \<Longrightarrow> disk_data s' l = disk_data s l"
    and "\<And>q. q \<noteq> f \<Longrightarrow> q \<noteq> p \<Longrightarrow> inodes s' q = inodes s q"
    and "\<exists>A B. live i s = A @ B \<and> live i' s' = A @ new_entry n (of_nat k) FT_REGULAR # B"
    and "\<exists>b \<in> set (takeWhile (\<lambda>b. b \<noteq> 0) (dir_blocks i)). free_slot (disk_data s) b \<Longrightarrow> i_sectors i' = i_sectors i \<and> used_blocks s' = used_blocks s"
    and "stored_inode 0 s' = i'\<lparr>i_open_cnts := 0, write_deny := False\<rparr>" and "thread_fds s' = (thread_fds s)[g := of_nat j]"
    and "file_table s' = (file_table s)[j := \<lparr>fd_pos = 0, fd_flag = flags, fd_inode = f\<rparr>]" and "same_layout s s'"
proof -
  note M = mount_ok_parts [OF ok]
  let ?s = "s\<lparr>heap := a # f # h\<rparr>"
  have fp: "f \<noteq> p" using h(5) M(9) by auto
  have fo: "f \<notin> set (open_inode (cur_part s))" using M(7) h(5) by (auto simp: opens_ok_def)
  have same: "same_mem s ?s" "disk_data ?s = disk_data s" "inode_bitmap (cur_part ?s) = inode_bitmap (cur_part s)" "used_inodes ?s = used_inodes s"
    by (simp_all add: same_mem_def used_inodes_def)
  have fs: "fs_ok ?s" using fs_ok_cong [OF same(1-3)] M(1) by simp
  note d = dir_ok_cong [OF same(1) fs_ok_parts(1) [OF fs] M(2)]
  have dir: "dir_ok (root_dir s) p i ?s" "dir_room i ?s" "\<And>m. dir_lookup i m ?s = dir_lookup i m s"
    using d room by simp_all
  have u: "used_blocks ?s = used_blocks s" "data_blocks ?s = data_blocks s" by (rule used_blocks_cong; simp)+
  have st: "stored_inode q ?s = stored_inode q s" for q by (simp add: stored_inode_def)
  have par: "i_no i < 256" "unat (i_no i) \<in> used_inodes ?s" using M(3,4) same(4) by simp_all
  obtain k j g i' s' where r: "file_create (root_dir s) n flags ?s = Inr (of_nat g, s')" "fs_ok s'" "dir_ok (root_dir s) p i' s'"
    "\<And>m. valid_name m \<Longrightarrow> dir_lookup i' m s' = (if m = n then Some (new_entry n (of_nat k) FT_REGULAR) else dir_lookup i m ?s)"
    "k < 256" "k \<notin> used_inodes ?s" "used_inodes s' = insert k (used_inodes ?s)"
    "file_ok f ((inode_init (of_nat k))\<lparr>i_open_cnts := 1\<rparr>) s'" "stored_inode (of_nat k) s' = inode_init (of_nat k)"
    "3 \<le> j" "j < length (file_table ?s)" "file_table s' = (file_table ?s)[j := \<lparr>fd_pos = 0, fd_flag = flags, fd_inode = f\<rparr>]"
    "3 \<le> g" "g < length (thread_fds ?s)" "thread_fds s' = (thread_fds ?s)[g := of_nat j]"
    "heap s' = h" "root_dir s' = root_dir ?s" "data_blocks s' = data_blocks ?s" "used_blocks ?s \<subseteq> used_blocks s'"
    "\<exists>l. used_blocks s' \<subseteq> insert l (used_blocks ?s)"
    "\<And>l. l \<in> used_blocks ?s - set (dir_blocks i) \<Longrightarrow> disk_data s' l = disk_data ?s l"
    "\<And>q. q < 4096 \<Longrightarrow> q \<noteq> i_no i \<Longrightarrow> q \<noteq> of_nat k \<Longrightarrow> stored_inode q s' = stored_inode q ?s"
    "open_inode (cur_part s') = f # open_inode (cur_part ?s)" "\<And>q. q \<noteq> f \<Longrightarrow> q \<noteq> p \<Longrightarrow> inodes s' q = inodes ?s q" "i_no i' = i_no i"
    "\<exists>A B. live i ?s = A @ B \<and> live i' s' = A @ new_entry n (of_nat k) FT_REGULAR # B"
    "\<exists>b \<in> set (takeWhile (\<lambda>b. b \<noteq> 0) (dir_blocks i)). free_slot (disk_data ?s) b \<Longrightarrow> i_sectors i' = i_sectors i \<and> used_blocks s' = used_blocks ?s"
    "stored_inode (i_no i) s' = i'\<lparr>i_open_cnts := 0, write_deny := False\<rparr>" "same_layout ?s s'"
    by (rule file_create_run [OF fs dir(1,2) _ _ par, of n a f h flags])
      (use n new dir(3) free same(4) h fp sl in \<open>simp_all add: plain_name_def slots_def\<close>)
  have "dir_ok (root_dir s') p i' s'" "i_no i' = 0" "0 \<in> used_inodes s'" "length (file_table s') = 32" "length (thread_fds s') = 8"
    using r(3,7,12,15,17,25) same(4) M(3-6) by simp_all
  moreover have "opens_ok s'"
  proof (rule opens_ok_add [OF M(7) r(23)[simplified]])
    have uk: "unat (of_nat k :: u32) = k" using r(5) by (intro unat_word_of_nat32) simp
    show "inodes s' f = Some ((inode_init (of_nat k))\<lparr>i_open_cnts := 1\<rparr>)" using r(8) get_inode_Some by (simp add: file_ok_def)
    show "unat (i_no ((inode_init (of_nat k))\<lparr>i_open_cnts := 1\<rparr>)) \<in> used_inodes s'" using uk r(7) by (simp add: inode_init_def)
    show "i_no ((inode_init (of_nat k))\<lparr>i_open_cnts := 1\<rparr>) \<notin> number_at s ` set (open_inode (cur_part s))"
      using M(7) r(6) same(4) uk by (fastforce simp: opens_ok_def inode_init_def)
    have pi: "inodes s' p = Some i'" using r(3) get_inode_Some by (simp add: dir_ok_def)
    show "inodes s' q \<noteq> None \<and> number_at s' q = number_at s q" if q: "q \<in> set (open_inode (cur_part s))" for q
    proof (cases "q = p")
      case True
      then show ?thesis using pi M(9) r(25) by simp
    next
      case False
      have "q \<noteq> f" "inodes s q \<noteq> None" using M(7) q fo by (auto simp: opens_ok_def)
      then show ?thesis using r(24) [of q] False by simp
    qed
    show "used_inodes s \<subseteq> used_inodes s'" using r(7) same(4) by auto
  qed
  ultimately have ok': "mount_ok p i' s'" using r(2) by (simp add: mount_ok_def)
  have run: "sys_open J (slash # n) flags s = Inr (of_nat g, s')"
    using top_last [OF n] fl top_depth [OF n J] search_file_top [OF M(2) n h(1,2), of J] new top_base [OF n] r(1,17)
    by (simp add: sys_open_def found_at_def FT_DIRECTORY_def FT_UNKNOWN_def dir_close_def)
  have op: "opened g j \<lparr>fd_pos = 0, fd_flag = flags, fd_inode = f\<rparr> s'"
    using r(10-15) M(5,6) by (simp add: opened_def)
  have "same_layout s ?s" using u(2) by (simp add: same_layout_def)
  then have "same_layout s s'" using r(29) by (rule same_layout_trans)
  moreover have "live i ?s = live i s" by (simp add: live_def)
  ultimately show ?thesis
    by (intro that [OF run ok' op r(5)]) (use r same(4) dir(3) st u fp fo M(3) in \<open>simp_all add: ac_simps\<close>)
qed


section \<open>Writing through a descriptor\<close>

lemma sys_write_run:
  assumes ok: "mount_ok p i s" and op: "opened g j F s" and F: "fd_inode F = f" "for_writing (fd_flag F)" and fo: "file_ok f fi s"
    and fp: "f \<noteq> p" and apart: "set (file_blocks fi) \<inter> set (dir_blocks i) = {}" and no: "i_no fi < 256"
    and size: "unat (i_size fi) + length src < 6144"
    and room: "(unat (i_size fi) + length src) div 512 + 1 - length (file_blocks fi) \<le> card (data_blocks s - used_blocks s)"
    and h: "heap s = a # b # c # h" "a \<noteq> 0" "b \<noteq> 0" "c \<noteq> 0"
  obtains fi' s' where "sys_write (of_nat g) src s = Inr (of_nat (length src), [], s')" and "mount_ok p i s'"
    and "opened g j (F\<lparr>fd_pos := i_size fi' - 1\<rparr>) s'" and "file_ok f fi' s'" and "file_bytes fi' s' = file_bytes fi s @ src"
    and "i_no fi' = i_no fi" and "i_size fi' = i_size fi + of_nat (length src)" and "i_open_cnts fi' = i_open_cnts fi"
    and "stored_inode (i_no fi) s' = fi'\<lparr>i_open_cnts := 0, write_deny := False\<rparr>"
    and "\<And>q. q < 4096 \<Longrightarrow> q \<noteq> i_no fi \<Longrightarrow> stored_inode q s' = stored_inode q s"
    and "\<And>m. dir_lookup i m s' = dir_lookup i m s" and "heap s' = h" and "root_dir s' = root_dir s"
    and "used_inodes s' = used_inodes s" and "open_inode (cur_part s') = open_inode (cur_part s)"
    and "\<And>l. l \<in> used_blocks s - set (file_blocks fi) \<Longrightarrow> disk_data s' l = disk_data s l" and "used_blocks s \<subseteq> used_blocks s'"
    and "\<And>q. q \<noteq> f \<Longrightarrow> inodes s' q = inodes s q" and "thread_fds s' = thread_fds s"
    and "file_table s' = (file_table s)[j := F\<lparr>fd_pos := i_size fi' - 1\<rparr>]" and "i_sectors fi' ! 12 = i_sectors fi ! 12"
    and "set (file_blocks fi') \<subseteq> set (file_blocks fi) \<union> (used_blocks s' - used_blocks s)" and "used_blocks s' = used_blocks s \<union> set (file_blocks fi')"
    and "same_layout s s'" and "set (file_blocks fi) \<subseteq> set (file_blocks fi')"
proof -
  note M = mount_ok_parts [OF ok]
  note fs = fs_ok_parts [OF M(1)]
  have f: "j < length (file_table s)" "file_table s ! j = F" using op by (simp_all add: opened_def)
  obtain s' fi' where r: "file_write j src s = Inr (of_nat (length src), s')" "file_ok f fi' s'" "file_bytes fi' s' = file_bytes fi s @ src"
    "i_no fi' = i_no fi" "\<forall>l \<in> used_blocks s - set (file_blocks fi). disk_data s' l = disk_data s l"
    "stored_inode (i_no fi AND 0xff) s' = fi'\<lparr>i_open_cnts := 0, write_deny := False\<rparr>"
    "file_table s' = (file_table s)[j := F\<lparr>fd_pos := i_size fi' - 1\<rparr>]" "i_size fi' = i_size fi + of_nat (length src)"
    "thread_fds s' = thread_fds s" "heap s' = h" "dirs s' = dirs s" "root_dir s' = root_dir s" "part_sb s' = part_sb s"
    "\<forall>q. q \<noteq> f \<longrightarrow> inodes s' q = inodes s q" "used_blocks s \<subseteq> used_blocks s'" "layout_ok s'"
    "\<forall>l. off_bitmap s l \<and> unat l < unat (inode_table_lba (part_sb s)) \<longrightarrow> disk_data s' l = disk_data s l"
    "\<forall>n < 4096. n \<noteq> i_no fi AND 0xff \<longrightarrow> stored_inode n s' = stored_inode n s"
    "inode_bitmap (cur_part s') = inode_bitmap (cur_part s)" "open_inode (cur_part s') = open_inode (cur_part s)"
    "i_open_cnts fi' = i_open_cnts fi" "i_sectors fi' ! 12 = i_sectors fi ! 12"
    "set (file_blocks fi') \<subseteq> set (file_blocks fi) \<union> (used_blocks s' - used_blocks s)" "used_blocks s' = used_blocks s \<union> set (file_blocks fi')"
    "same_layout s s'" "set (file_blocks fi) \<subseteq> set (file_blocks fi')"
    using file_write_run [OF fo fs(2) f F(1) size room h] by blast
  have u: "used_inodes s' = used_inodes s" using r(19) by (simp add: used_inodes_def)
  have b': "blocks_ok s'" "data_start_lba (part_sb s') \<in> used_blocks s'" using r(2) by (simp_all add: file_ok_def)
  have "inodes_ok s'" using fs(3) r(13,17,19) by (simp add: inodes_ok_def Let_def)
  then have fs': "fs_ok s'" using b' r(16) by (simp add: fs_ok_def)
  have d: "disk_data s' l = disk_data s l" if "l \<in> set (dir_blocks i)" "l \<noteq> 0" for l
    using that r(5) apart M(2) by (auto simp: dir_ok_def)
  have e: "dirs s' (root_dir s) = dirs s (root_dir s)" "inodes s' p = inodes s p" using r(11,14) fp by simp_all
  note m = dir_ok_mono [OF r(13) b'(1) M(2) e r(15) d]
  have "inodes s' f = Some fi'" "inodes s f = Some fi" using r(2) fo get_inode_Some by (simp_all add: file_ok_def)
  then have "number_at s' q = number_at s q" "inodes s q \<noteq> None \<Longrightarrow> inodes s' q \<noteq> None" for q
    using r(4,14) by (cases "q = f"; simp)+
  then have "opens_ok s'" using M(7) by (intro opens_ok_cong [OF M(7) r(20)]) (auto simp: u opens_ok_def)
  then have ok': "mount_ok p i s'" using fs' m(1) r(7,9,12) M(3-6) u by (simp add: mount_ok_def)
  have "opened g j (F\<lparr>fd_pos := i_size fi' - 1\<rparr>) s'" using op r(7,9) by (simp add: opened_def)
  moreover have "sys_write (of_nat g) src s = Inr (of_nat (length src), [], s')" using sys_write_eq [OF op F(2)] r(1) by simp
  ultimately show ?thesis
    by (intro that [of s' fi']) (use ok' r u m low_inode [OF no] in simp_all)
qed


section \<open>Closing and opening again\<close>

definition closed :: "nat \<Rightarrow> nat \<Rightarrow> open_file \<Rightarrow> u32 list \<Rightarrow> fs \<Rightarrow> fs" where
  "closed g j F ps s = upd_part (\<lambda>q. q\<lparr>open_inode := ps\<rparr>) s\<lparr>inodes := (inodes s)(fd_inode F := None),
      file_table := (file_table s)[j := F\<lparr>fd_inode := 0\<rparr>], thread_fds := (thread_fds s)[g := - 1]\<rparr>"

lemma closed_simps [simp]:
  "disk_data (closed g j F ps s) = disk_data s" "heap (closed g j F ps s) = heap s" "root_dir (closed g j F ps s) = root_dir s"
  "dirs (closed g j F ps s) = dirs s" "part_sb (closed g j F ps s) = part_sb s" "open_inode (cur_part (closed g j F ps s)) = ps"
  "inodes (closed g j F ps s) = (inodes s)(fd_inode F := None)" "used_blocks (closed g j F ps s) = used_blocks s"
  "used_inodes (closed g j F ps s) = used_inodes s" "stored_inode n (closed g j F ps s) = stored_inode n s"
  "data_blocks (closed g j F ps s) = data_blocks s"
  by (simp_all add: closed_def used_blocks_def data_blocks_def block_cnt_def block_def used_inodes_def stored_inode_def)

lemma closed_ok:
  assumes ok: "mount_ok p i s" and op: "opened g j F s" and fp: "fd_inode F \<noteq> p"
    and ps: "open_inode (cur_part s) = fd_inode F # ps" "fd_inode F \<notin> set ps"
  shows "mount_ok p i (closed g j F ps s)" and "dir_lookup i n (closed g j F ps s) = dir_lookup i n s" and "slots (closed g j F ps s)"
proof -
  let ?s = "closed g j F ps s"
  note M = mount_ok_parts [OF ok]
  have same: "same_mem s ?s" by (simp add: same_mem_def closed_def)
  have fs: "fs_ok ?s" by (subst fs_ok_cong [OF same]) (use M(1) in \<open>simp_all add: closed_def\<close>)
  note d = dir_ok_cong [OF same fs_ok_parts(1) [OF fs] M(2)]
  show "dir_lookup i n ?s = dir_lookup i n s" using d(2) fp by simp
  have "number_at ?s q = number_at s q" "inodes ?s q = inodes s q" if "q \<in> set ps" for q using that ps(2) by auto
  then have "opens_ok ?s" using M(7) ps(1) by (auto simp: opens_ok_def cong: map_cong)
  then show "mount_ok p i ?s" using fs d(1) M(3-6) fp by (simp add: mount_ok_def) (simp add: closed_def)
  show "slots ?s" using op by (auto simp: slots_def closed_def opened_def)
qed

lemma sys_close_run:
  assumes op: "opened g j F s" and i: "get_inode (fd_inode F) s = Inr fi" "i_open_cnts fi = 1"
    and ps: "open_inode (cur_part s) = fd_inode F # ps" "fd_inode F \<notin> set ps"
  shows "sys_close (of_nat g) s = Inr (0, closed g j F ps s)"
  using sys_close_last [OF op refl i ps] by (simp add: closed_def)

lemma find_open_none:
  "(\<And>q. q \<in> set ps \<Longrightarrow> \<exists>j. inodes s q = Some j \<and> i_no j \<noteq> n) \<Longrightarrow> find_open ps n s = Inr None"
proof (induction ps)
  case (Cons q ps)
  then obtain j where "inodes s q = Some j" "i_no j \<noteq> n" by (metis list.set_intros(1))
  moreover have "find_open ps n s = Inr None" by (rule Cons.IH) (use Cons.prems in simp)
  ultimately show ?case by (simp add: get_inode_def)
qed simp

lemma sys_open_file_run:
  assumes ok: "mount_ok p i s" and n: "plain_name n" and e: "dir_lookup i n s = Some e" "f_type e = FT_REGULAR" "e_i_no e < 4096"
    and sl: "slots s" and J: "length (junk_name J) = 16" and h: "heap s = x # y # f # z # h" "x \<noteq> 0"
    and fl: "flags \<le> 7" "flags AND O_CREAT = 0" "for_writing flags \<Longrightarrow> \<not> write_deny (stored_inode (e_i_no e) s)"
    and new: "e_i_no e \<notin> number_at s ` set (open_inode (cur_part s))" "inodes s f = None"
    and st: "i_no (stored_inode (e_i_no e) s) = e_i_no e" "unat (e_i_no e) \<in> used_inodes s"
  obtains g j s' where "sys_open J (slash # n) flags s = Inr (of_nat g, s')" and "opened g j \<lparr>fd_pos = 0, fd_flag = flags, fd_inode = f\<rparr> s'"
    and "get_inode f s' = Inr (if for_writing flags then (stored_inode (e_i_no e) s)\<lparr>i_open_cnts := 1, write_deny := True\<rparr>
      else (stored_inode (e_i_no e) s)\<lparr>i_open_cnts := 1\<rparr>)" and "disk_data s' = disk_data s" and "part_sb s' = part_sb s"
    and "block_bitmap (cur_part s') = block_bitmap (cur_part s)" and "inode_bitmap (cur_part s') = inode_bitmap (cur_part s)"
    and "heap s' = h" and "mount_ok p i s'" and "open_inode (cur_part s') = f # open_inode (cur_part s)" and "root_dir s' = root_dir s"
    and "\<And>q. q \<noteq> f \<Longrightarrow> inodes s' q = inodes s q" and "thread_fds s' = (thread_fds s)[g := of_nat j]"
    and "file_table s' = (file_table s)[j := \<lparr>fd_pos = 0, fd_flag = flags, fd_inode = f\<rparr>]" and "same_layout s s'"
proof -
  note M = mount_ok_parts [OF ok]
  let ?s = "s\<lparr>heap := f # z # h\<rparr>"
  obtain j where j: "get_free_slot_in_global ?s = Some j" "3 \<le> j" "j < length (file_table s)"
    using first_from_ex [of 3 "file_table s" "\<lambda>f. fd_inode f = 0"] sl by (auto simp: slots_def get_free_slot_in_global_def)
  obtain g where g: "first_from 3 (\<lambda>fd. fd = - 1) (thread_fds s) = Some g" "3 \<le> g" "g < length (thread_fds s)"
    using first_from_ex [of 3 "thread_fds s" "\<lambda>fd. fd = - 1"] sl by (auto simp: slots_def)
  have t: "table_ok ?s" using fs_ok_parts(2) [OF M(1)] by (simp add: layout_ok_def table_ok_def)
  have nf: "find_open (open_inode (cur_part ?s)) (e_i_no e) ?s = Inr None"
  proof (rule find_open_none)
    fix q assume "q \<in> set (open_inode (cur_part ?s))"
    then have q: "q \<in> set (open_inode (cur_part s))" by simp
    then obtain l where "inodes s q = Some l" using M(7) by (auto simp: opens_ok_def)
    moreover have "e_i_no e \<noteq> number_at s q" using new(1) q by blast
    ultimately show "\<exists>l. inodes ?s q = Some l \<and> i_no l \<noteq> e_i_no e" by auto
  qed
  let ?i1 = "(stored_inode (e_i_no e) s)\<lparr>i_open_cnts := 1\<rparr>" and ?F = "\<lparr>fd_pos = 0, fd_flag = flags, fd_inode = f\<rparr>"
  let ?i = "if for_writing flags then (stored_inode (e_i_no e) s)\<lparr>i_open_cnts := 1, write_deny := True\<rparr> else ?i1"
  let ?s2 = "set_file j ?F (set_inode f ?i (upd_part (\<lambda>p. p\<lparr>open_inode := f # open_inode p\<rparr>) (s\<lparr>heap := h\<rparr>)))"
  let ?s3 = "?s2\<lparr>thread_fds := (thread_fds s)[g := of_nat j]\<rparr>"
  have "stored_inode (e_i_no e) ?s = stored_inode (e_i_no e) s" by (simp add: stored_inode_def)
  then have "inode_open (e_i_no e) ?s = Inr (f, set_inode f ?i1 (upd_part (\<lambda>p. p\<lparr>open_inode := f # open_inode p\<rparr>) (s\<lparr>heap := h\<rparr>)))"
    using inode_open_loads [OF t e(3) nf, of f z h] by simp
  then have fo: "file_open (e_i_no e) flags ?s = Inr (of_nat g, ?s3)" using j(1) fl(3) g(1)
    by (auto simp: file_open_def pcb_fd_install_def set_file_def set_inode_def get_inode_def intro!: fs.equality)
  have ne: "e_i_no e \<noteq> - 1" using e(3) by auto
  have run: "sys_open J (slash # n) flags s = Inr (of_nat g, ?s3)"
    using top_last [OF n] fl top_depth [OF n J] search_file_top [OF M(2) n h, of J] e(1,2) ne fo
    by (simp add: sys_open_def found_at_def FT_DIRECTORY_def FT_REGULAR_def)
  have same: "same_mem s ?s3" "disk_data ?s3 = disk_data s" "inode_bitmap (cur_part ?s3) = inode_bitmap (cur_part s)"
    by (simp_all add: same_mem_def set_file_def set_inode_def)
  have fs: "fs_ok ?s3" using fs_ok_cong [OF same] M(1) by simp
  have fp: "f \<noteq> p" using new(2) M(9) by auto
  have u: "used_inodes ?s3 = used_inodes s" unfolding used_inodes_def same(3) ..
  have "opens_ok ?s3"
  proof (rule opens_ok_add [OF M(7), of _ f ?i])
    fix q assume "q \<in> set (open_inode (cur_part s))"
    then have "inodes s q \<noteq> None" using M(7) by (simp add: opens_ok_def)
    then show "inodes ?s3 q \<noteq> None \<and> number_at ?s3 q = number_at s q" using new(2) by (auto simp: set_file_def set_inode_def)
  qed (use new(1) st in \<open>simp_all add: set_file_def set_inode_def used_inodes_def\<close>)
  moreover have "dir_ok (root_dir s) p i ?s3"
    by (rule dir_ok_cong(1) [OF same(1) fs_ok_parts(1) [OF fs] M(2)]) (use fp in \<open>simp_all add: set_file_def set_inode_def\<close>)
  moreover have len: "root_dir ?s3 = root_dir s" "length (file_table ?s3) = 32" "length (thread_fds ?s3) = 8"
    using M(5,6) by (simp_all add: set_file_def set_inode_def)
  ultimately have "mount_ok p i ?s3" using fs M(3,4) unfolding mount_ok_def len u by blast
  moreover have "same_layout s ?s3" using same(1,2) used_blocks_cong(2) [of ?s3 s] by (simp add: same_layout_def same_mem_def)
  ultimately show ?thesis
    by (intro that [OF run, of j]) (use j g M(5,6) in \<open>simp_all add: opened_def set_file_def set_inode_def get_inode_def\<close>)
qed

lemma closed_layout: "same_layout s (closed g j F ps s)"
  by (simp add: same_layout_def) (simp add: closed_def)

text \<open>A file is the same seen through another inode in memory with its size and blocks.\<close>

lemma file_ok_again:
  assumes "file_ok f i s" and "part_sb s' = part_sb s" and "used_blocks s' = used_blocks s" and "blocks_ok s'" and "disk_data s' = disk_data s"
    and "get_inode f' s' = Inr i'" and "i_sectors i' = i_sectors i" and "i_size i' = i_size i"
  shows "file_ok f' i' s'" and "file_bytes i' s' = file_bytes i s"
proof -
  have fb: "file_blocks i' = file_blocks i" by (simp only: file_blocks_def assms(7,8))
  show "file_ok f' i' s'" using assms(1,4,6) unfolding file_ok_def fb assms(2,3,7,8) by blast
  show "file_bytes i' s' = file_bytes i s" by (simp only: file_bytes_def block_bytes_def assms(5,7,8))
qed


text \<open>Positions in the file table and addresses in the heap are no concern of the invariant.\<close>

lemma mount_ok_file: "mount_ok p i s \<Longrightarrow> mount_ok p i (set_file j F (s\<lparr>heap := h\<rparr>))"
proof -
  assume ok: "mount_ok p i s"
  let ?s = "set_file j F (s\<lparr>heap := h\<rparr>)"
  note M = mount_ok_parts [OF ok]
  have same: "same_mem s ?s" "disk_data ?s = disk_data s" "inode_bitmap (cur_part ?s) = inode_bitmap (cur_part s)"
    by (simp_all add: same_mem_def set_file_def)
  have fs: "fs_ok ?s" using fs_ok_cong [OF same] M(1) by simp
  have d: "dir_ok (root_dir s) p i ?s"
    by (rule dir_ok_cong(1) [OF same(1) fs_ok_parts(1) [OF fs] M(2)]) (simp_all add: set_file_def)
  have "opens_ok ?s" by (rule opens_ok_cong [OF M(7)]) (use M(7) in \<open>simp_all add: set_file_def opens_ok_def used_inodes_def\<close>)
  then show ?thesis using fs d M(3-6) by (simp add: mount_ok_def set_file_def used_inodes_def)
qed

text \<open>Reading a file from its start, as many bytes as it has.\<close>

lemma sys_read_all:
  assumes op: "opened g j F s" and fo: "file_ok (fd_inode F) i s" and pos: "fd_pos F = 0" and bytes: "file_bytes i s = src" "i_size i = of_nat (length src)"
    and len: "length src < 6144" and h: "heap s = a # b # h" "a \<noteq> 0" "b \<noteq> 0"
  shows "sys_read (of_nat g) (of_nat (length src)) keys s =
    Inr (of_nat (length src), src, set_file j (F\<lparr>fd_pos := of_nat (length src)\<rparr>) (s\<lparr>heap := h\<rparr>))"
proof -
  have u: "unat (of_nat (length src) :: u32) = length src" using len by (intro unat_word_of_nat32) simp
  have f: "j < length (file_table s)" "file_table s ! j = F" using op by (simp_all add: opened_def)
  have "src = [] \<or> (of_nat (length src) :: u32) \<noteq> 0" using u by auto
  then show ?thesis
    using file_read_run [OF fo f refl _ _ h, of "of_nat (length src)" "length src"] pos bytes len u sys_read_eq [OF op]
    by (auto simp: piece_of_def)
qed

end
