(* ===== verification/Mounting.thy ===== *)
theory Mounting
  imports Descriptors Format
begin

text \<open>
  \<^verbatim>\<open>filesys_init\<close> of \<^verbatim>\<open>fs/fs.c\<close>: on a disk without a file system it makes one, mounts it and opens the root directory; the state it
  leaves satisfies the invariant that the calls on files keep.
\<close>

section \<open>A fresh file system\<close>

definition first_bit :: bitmap where
  "first_bit = \<lparr>btmp_bytes_len = 512, bits = (replicate 512 0)[0 := 1]\<rparr>"

lemma used_first_bit: "j < 4096 \<Longrightarrow> used first_bit j \<longleftrightarrow> j = 0"
proof -
  assume "j < 4096"
  then have "j div 8 < 512" by linarith
  moreover have "bit (1 :: u8) n \<longleftrightarrow> n = 0" for n by (simp add: bit_1_iff)
  ultimately show ?thesis by (auto simp: used_def first_bit_def nth_list_update div_eq_0_iff simp del: replicate.simps)
qed

lemma fresh_fs_ok:
  assumes p: "part_fits p" and m: "disk_ok m" and buf: "new_block_bitmap 311296 (room p) = Inr buf" "length buf = 311296"
    and s: "fresh p buf m s" and i: "inode_bitmap (cur_part s) = first_bit"
  shows "fs_ok s" and "used_inodes s = {0}" and "room p \<le> card (data_blocks s - used_blocks s) + 1"
proof -
  note l = layout [OF p] and f = formatted_regions [OF p m buf(2)] and b = fresh_blocks_ok [OF p m buf(2) s]
    and cnt = fresh_block_cnt [OF s p buf(2)] and u = fresh_used [OF p buf(1) s] and r = room_eq [OF p]
  have sb: "part_sb s = new_super_block p" and dd: "disk_data s = formatted p buf m" using s by (simp_all add: fresh_def)
  have lay: "layout_ok s" using b(2) l by (simp add: layout_ok_def sb)
  have "inodes_ok s" using l f(3) by (simp add: inodes_ok_def Let_def sb dd i first_bit_def del: replicate.simps)
  moreover have "data_start_lba (part_sb s) \<in> used_blocks s" unfolding used_blocks_def
    by (rule image_eqI [of _ _ 0]) (use u [of 0] cnt r(5) in \<open>auto simp: block_def\<close>)
  ultimately show "fs_ok s" using b(1) lay by (simp add: fs_ok_def)
  show "used_inodes s = {0}" using used_first_bit by (auto simp: used_inodes_def i)
  have "room p \<le> 4096 * bitmap_sects p" unfolding r(2) by simp
  then have c: "k < block_cnt s" if "k < room p" for k using that cnt by simp
  have "(\<lambda>k. block k s) ` {1..<room p} \<subseteq> data_blocks s - used_blocks s"
  proof
    fix x assume "x \<in> (\<lambda>k. block k s) ` {1..<room p}"
    then obtain k where k: "x = block k s" "1 \<le> k" "k < room p" by auto
    have "block k s \<noteq> block j s" if "used (block_bitmap (cur_part s)) j" "j < block_cnt s" for j
      using that u [OF c [OF k(3)]] k block_inj [OF b(1) c [OF k(3)] that(2)] by auto
    then show "x \<in> data_blocks s - used_blocks s" using c [OF k(3)] k(1) by (auto simp: data_blocks_def used_blocks_def)
  qed
  moreover have "inj_on (\<lambda>k. block k s) {1..<room p}" by (rule inj_onI) (use c block_inj [OF b(1)] in auto)
  ultimately have "card {1..<room p} \<le> card (data_blocks s - used_blocks s)" by (metis card_image card_mono finite_Diff finite_data_blocks)
  then show "room p \<le> card (data_blocks s - used_blocks s) + 1" by simp
qed

section \<open>Starting\<close>

lemma format_all_empty: "\<forall>q \<in> set qs. sec_cnt q = 0 \<Longrightarrow> format_all qs s = Inr s"
  by (induction qs arbitrary: s) simp_all

lemma c_string_name: "c_string (part_name p) = ascii ''sdb1'' \<Longrightarrow> find (\<lambda>p. c_string (part_name p) = ascii ''sdb1'') (p # qs) = Some p"
  by simp

text \<open>The state \<^verbatim>\<open>filesys_init\<close> leaves.\<close>

definition started :: "partition \<Rightarrow> u8 list \<Rightarrow> u32 \<Rightarrow> u32 list \<Rightarrow> fs \<Rightarrow> fs" where
  "started p buf a h s = set_dir (root_dir s) \<lparr>dir_inode = a, dir_pos = 0\<rparr> (set_inode a ((root_inode p)\<lparr>i_open_cnts := 1\<rparr>)
     (s\<lparr>heap := h, disk_data := formatted p buf (disk_data s), cur_part := (mounted p buf)\<lparr>open_inode := [a]\<rparr>,
        file_table := map (\<lambda>f. f\<lparr>fd_inode := 0\<rparr>) (file_table s)\<rparr>))"

lemma filesys_init_run:
  assumes p: "part_fits p" and m: "disk_ok (disk_data s)" and h: "heap s = hs @ h" "length hs = 8" "0 \<notin> set hs"
    and name: "c_string (part_name p) = ascii ''sdb1''" and other: "\<forall>q \<in> set qs. sec_cnt q = 0"
    and raw: "magic (decode_super_block (disk_data s (start_lba p + 1))) \<noteq> 0x12345678"
    and buf: "new_block_bitmap 311296 (room p) = Inr buf" "length buf = 311296"
  shows "filesys_init (p # qs) s = Inr (started p buf (hs ! 6) h s)"
proof -
  obtain z x a b c d e f where hs: "hs = [z, x, a, b, c, d, e, f]" using h(2) by (auto simp: length_Suc_conv numeral_nat)
  let ?s0 = "s\<lparr>heap := [x, a, b, c, d, e, f] @ h\<rparr>" and ?m = "disk_data s"
  let ?s1 = "s\<lparr>heap := [a, b, c, d, e, f] @ h, disk_data := formatted p buf ?m\<rparr>"
  have 1: "partition_format p ?s0 = Inr ?s1" using partition_format_eq [OF p _ buf, of ?s0] by simp
  let ?s2 = "?s1\<lparr>heap := [e, f] @ h, cur_part := mounted p buf\<rparr>"
  have 2: "mount_partition p ?s1 = Inr ?s2" by (rule mount_partition_eq [OF p m buf(2)]) (use h(3) hs in auto)
  have f2: "fresh p buf ?m ?s2" by (simp add: fresh_def)
  have 3: "open_root_dir ?s2 = Inr (set_dir (root_dir ?s2) \<lparr>dir_inode = e, dir_pos = 0\<rparr>
    (set_inode e ((root_inode p)\<lparr>i_open_cnts := 1\<rparr>) (upd_part (\<lambda>q. q\<lparr>open_inode := [e]\<rparr>) (?s2\<lparr>heap := h\<rparr>))))"
    by (rule open_root_dir_eq [OF p m buf(2) f2]) simp_all
  have le: "start_lba p + 1 \<le> max_lba" and pos: "sec_cnt p \<noteq> 0"
    using p layout(1) [OF p] by (auto simp: part_fits_def word_le_nat_alt)
  have "format_all (p # qs) ?s0 = Inr ?s1"
    using 1 le pos raw format_all_empty [OF other] by (simp add: disk_read_1)
  then show ?thesis using h hs 2 3 name
    by (simp add: filesys_init_def fs_malloc_def started_def set_dir_def set_inode_def)
qed


lemma fresh_lookup:
  assumes "dir_entries (disk_data s) (dir_blocks i) = dot_entry 0 # dotdot_entry 0 # replicate 19 empty_entry" and n: "plain_name n"
  shows "dir_lookup i n s = None"
proof -
  have v: "valid_name n" "valid_name (ascii ''.'')" "valid_name (ascii ''..'')" using n by (simp_all add: plain_name_def valid_name_def ascii_def)
  have "\<not> has_name n (dot_entry 0)" "\<not> has_name n (dotdot_entry 0)"
    using has_name_iff [OF v(1,2), of "dot_entry 0"] has_name_iff [OF v(1,3), of "dotdot_entry 0"] n
    by (simp_all add: plain_name_def dot_entry_def dotdot_entry_def ascii_def)
  moreover have "\<not> has_name n empty_entry" using v(1) by (cases n) (auto simp: has_name_def empty_entry_def valid_name_def)
  ultimately show ?thesis unfolding dir_lookup_def assms(1) by (auto simp: find_None_iff)
qed

text \<open>
  C8. \<^verbatim>\<open>filesys_init\<close> on a disk with one partition, called \<^verbatim>\<open>sdb1\<close>, that has no file system: it makes one, mounts it and opens its root
  directory, and leaves a state that satisfies the invariant of the calls on files: the block bitmap, the inode bitmap and the
  inode table on the disk agree with those in memory, the root directory is well-formed and has room; its entries are exactly the
  two dots, so no other name is found in it. Only inode 0 is used. The blocks marked as used are block 0, which is the root
  directory's, and those whose number is above \<open>room p\<close>, the number of free sectors: every other block of the partition is free.
  All open files are closed, the addresses left are those not needed, and no other inode in memory has changed.
\<close>

theorem filesys_init_mounts:
  assumes p: "part_fits p" and m: "disk_ok (disk_data s)" and h: "heap s = hs @ h" "length hs = 8" "0 \<notin> set hs"
    and name: "c_string (part_name p) = ascii ''sdb1''" and other: "\<forall>q \<in> set qs. sec_cnt q = 0"
    and raw: "magic (decode_super_block (disk_data s (start_lba p + 1))) \<noteq> 0x12345678"
    and tables: "length (file_table s) = 32" "length (thread_fds s) = 8" "thread_fds s ! 3 = - 1"
  shows "\<exists>s' i. filesys_init (p # qs) s = Inr s' \<and> mount_ok (hs ! 6) i s' \<and> dir_room i s' \<and> slots s' \<and> used_inodes s' = {0}
    \<and> block_cnt s' = 4096 * bitmap_sects p \<and> used_blocks s' = {block k s' | k. k < block_cnt s' \<and> (k = 0 \<or> room p < k)}
    \<and> room p \<le> card (data_blocks s' - used_blocks s') + 1 \<and> set (dir_blocks i) - {0} = {block 0 s'}
    \<and> dir_entries (disk_data s') (dir_blocks i) = dot_entry 0 # dotdot_entry 0 # replicate 19 empty_entry
    \<and> (\<forall>n. plain_name n \<longrightarrow> dir_lookup i n s' = None) \<and> (\<forall>F \<in> set (file_table s'). fd_inode F = 0)
    \<and> heap s' = h \<and> (\<forall>q. q \<noteq> hs ! 6 \<longrightarrow> inodes s' q = inodes s q)"
proof -
  obtain buf where buf: "new_block_bitmap 311296 (room p) = Inr buf" "length buf = 311296"
    using new_block_bitmap_eq [OF room_eq(3,2,6) [OF p]] by blast
  define s' where "s' = started p buf (hs ! 6) h s"
  let ?i = "(root_inode p)\<lparr>i_open_cnts := 1\<rparr>"
  have run: "filesys_init (p # qs) s = Inr s'" unfolding s'_def by (rule filesys_init_run [OF p m h name other raw buf])
  note simps = started_def set_dir_def set_inode_def
  have f: "fresh p buf (disk_data s) s'" by (simp add: s'_def simps fresh_def)
  have root: "dirs s' (root_dir s') = Some \<lparr>dir_inode = hs ! 6, dir_pos = 0\<rparr>" "inodes s' (hs ! 6) = Some ?i"
    by (simp_all add: s'_def simps)
  note r = fresh_root [OF p m buf f root refl]
  have ib: "inode_bitmap (cur_part s') = first_bit" by (simp add: s'_def simps first_bit_def)
  note ok = fresh_fs_ok [OF p m buf f ib]
  have o: "open_inode (cur_part s') = [hs ! 6]" by (simp add: s'_def simps)
  have i: "i_no ?i = 0" by (simp add: root_inode_def inode_init_def)
  have t: "length (file_table s') = 32" "length (thread_fds s') = 8" "thread_fds s' ! 3 = - 1" "fd_inode (file_table s' ! 3) = 0"
    using tables by (simp_all add: s'_def simps)
  have "opens_ok s'" using o root(2) i ok(2) by (simp add: opens_ok_def)
  then have "mount_ok (hs ! 6) ?i s'" using ok(1,2) r(1) i t(1,2) by (simp add: mount_ok_def)
  moreover have "slots s'" unfolding slots_def by (intro conjI exI [of _ 3]) (use t in simp_all)
  moreover have "used_blocks s' = {block k s' | k. k < block_cnt s' \<and> (k = 0 \<or> room p < k)}"
    using fresh_used [OF p buf(1) f] by (auto simp: used_blocks_def)
  moreover have "block_cnt s' = 4096 * bitmap_sects p" by (rule fresh_block_cnt [OF f p buf(2)])
  moreover have "set (dir_blocks ?i) - {0} = {block 0 s'}"
    using f layout(8) [OF p] by (simp add: dir_blocks_def root_inode_def inode_init_def block_def fresh_def numeral_nat) auto
  moreover have "\<forall>F \<in> set (file_table s'). fd_inode F = 0" by (auto simp: s'_def simps)
  moreover have "heap s' = h" "\<forall>q. q \<noteq> hs ! 6 \<longrightarrow> inodes s' q = inodes s q" by (simp_all add: s'_def simps)
  ultimately show ?thesis using run r(2,3) ok(2,3) fresh_lookup [OF r(3)] by blast
qed


text \<open>A machine with a blank disk, before \<^verbatim>\<open>filesys_init\<close>.\<close>

definition blank :: "u32 list \<Rightarrow> fs" where
  "blank h = sample_fs\<lparr>heap := h, disk_data := (\<lambda>_. replicate 512 0), inodes := (\<lambda>_. None),
     file_table := replicate 32 no_file, thread_fds := [0, 1, 2] @ replicate 5 (- 1)\<rparr>"

lemma blank_simps:
  "disk_data (blank h) = (\<lambda>_. replicate 512 0)" "heap (blank h) = h" "inodes (blank h) = (\<lambda>_. None)"
  "file_table (blank h) = replicate 32 no_file" "thread_fds (blank h) = [0, 1, 2] @ replicate 5 (- 1)"
  by (simp_all add: blank_def)

lemma blank_premises:
  shows "part_fits sample_part" and "disk_ok (disk_data (blank h))" and "c_string (part_name sample_part) = ascii ''sdb1''"
    and "magic (decode_super_block (disk_data (blank h) (start_lba sample_part + 1))) \<noteq> 0x12345678"
    and "length (file_table (blank h)) = 32" and "length (thread_fds (blank h)) = 8" and "thread_fds (blank h) ! 3 = - 1"
    and "room sample_part = 1388"
proof -
  show p: "part_fits sample_part" using unat_max_lba by (simp add: part_fits_def sample_part_def)
  show "room sample_part = 1388" using room_eq(1) [OF p] by (simp add: sample_part_def)
  show "c_string (part_name sample_part) = ascii ''sdb1''" by (simp add: sample_part_def c_string_def ascii_def)
  show "magic (decode_super_block (disk_data (blank h) (start_lba sample_part + 1))) \<noteq> 0x12345678"
  proof -
    have "magic (decode_super_block (replicate 512 0)) = 0" by code_simp
    then show ?thesis by (simp add: blank_simps del: replicate.simps)
  qed
qed (simp_all add: blank_simps disk_ok_def numeral_nat)

lemma filesys_init_mounts_witness:
  "\<exists>s' i. filesys_init [sample_part] (blank [1, 2, 3, 4, 5, 6, 7, 8]) = Inr s' \<and> mount_ok 7 i s' \<and> used_inodes s' = {0} \<and> dir_room i s'"
proof -
  let ?h = "[1, 2, 3, 4, 5, 6, 7, 8]"
  have "disk_ok (disk_data (blank ?h))" by (rule blank_premises)
  then show ?thesis
    using filesys_init_mounts [where s = "blank ?h" and hs = ?h and qs = "[]" and p = sample_part] blank_premises by (auto simp: blank_simps)
qed

end
