(* ===== verification/Roundtrip.thy ===== *)
theory Roundtrip
  imports Mounting
begin

text \<open>
  The calls on files put together: creating a file by its path, and that reading it returns what was written, while it is open and after it
  has been closed and opened again.
\<close>

section \<open>From the path to the bytes and back\<close>

lemma card_room:
  assumes "data_blocks s' = data_blocks s" and "used_blocks s' \<subseteq> insert l (used_blocks s)"
  shows "card (data_blocks s - used_blocks s) \<le> card (data_blocks s' - used_blocks s') + 1"
proof -
  have "data_blocks s - used_blocks s \<subseteq> insert l (data_blocks s' - used_blocks s')" using assms by auto
  then have "card (data_blocks s - used_blocks s) \<le> card (insert l (data_blocks s' - used_blocks s'))" by (intro card_mono) auto
  then show ?thesis by (rule order_trans) (simp add: card_insert_if)
qed

lemma create_write_run:
  assumes ok: "mount_ok p i s" and n: "plain_name n" and new: "dir_lookup i n s = None" and room: "dir_room i s"
    and free: "\<exists>k < 256. k \<notin> used_inodes s" and sl: "slots s" and J: "length (junk_name J) = 16"
    and h: "heap s = [x, y, a, f, b1, b2, b3] @ h" "0 \<notin> {x, a, f, b1, b2, b3}" "inodes s f = None"
    and len: "length src < 6144" and blocks: "length src div 512 + 2 \<le> card (data_blocks s - used_blocks s)"
  obtains k j g i' F fi s1 s2 where "sys_open J (slash # n) (O_CREAT OR O_RDWR) s = Inr (of_nat g, s1)"
    and "sys_write (of_nat g) src s1 = Inr (of_nat (length src), [], s2)" and "mount_ok p i' s2" and "opened g j F s2" and "fd_inode F = f"
    and "file_ok f fi s2" and "file_bytes fi s2 = src" and "i_size fi = of_nat (length src)" and "i_open_cnts fi = 1"
    and "k < 256" and "k \<notin> used_inodes s" and "used_inodes s2 = insert k (used_inodes s)"
    and "stored_inode (of_nat k) s2 = fi\<lparr>i_open_cnts := 0, write_deny := False\<rparr>" and "i_no fi = of_nat k"
    and "\<And>q. q < 4096 \<Longrightarrow> q \<noteq> 0 \<Longrightarrow> q \<noteq> of_nat k \<Longrightarrow> stored_inode q s2 = stored_inode q s"
    and "\<And>m. valid_name m \<Longrightarrow> dir_lookup i' m s2 = (if m = n then Some (new_entry n (of_nat k) FT_REGULAR) else dir_lookup i m s)"
    and "heap s2 = h" and "open_inode (cur_part s2) = f # open_inode (cur_part s)" and "f \<notin> set (open_inode (cur_part s))" and "f \<noteq> p"
    and "\<And>l. l \<in> used_blocks s - set (dir_blocks i) \<Longrightarrow> disk_data s2 l = disk_data s l"
    and "\<And>q. q \<noteq> f \<Longrightarrow> q \<noteq> p \<Longrightarrow> inodes s2 q = inodes s q"
    and "\<exists>A B. live i s = A @ B \<and> live i' s2 = A @ new_entry n (of_nat k) FT_REGULAR # B"
    and "\<exists>b \<in> set (takeWhile (\<lambda>b. b \<noteq> 0) (dir_blocks i)). free_slot (disk_data s) b \<Longrightarrow> i_sectors i' = i_sectors i"
    and "stored_inode 0 s2 = i'\<lparr>i_open_cnts := 0, write_deny := False\<rparr>" and "thread_fds s2 = (thread_fds s)[g := of_nat j]"
    and "file_table s2 = (file_table s)[j := F]" and "i_sectors fi ! 12 = 0" and "set (file_blocks fi) \<inter> used_blocks s = {}"
    and "used_blocks s \<subseteq> used_blocks s2"
    and "\<exists>b \<in> set (takeWhile (\<lambda>b. b \<noteq> 0) (dir_blocks i)). free_slot (disk_data s) b \<Longrightarrow> used_blocks s2 = used_blocks s \<union> set (file_blocks fi)"
    and "same_layout s s2"
proof -
  have fl: "(O_CREAT OR O_RDWR) \<le> 7" "(O_CREAT OR O_RDWR) AND O_CREAT \<noteq> 0" "for_writing (O_CREAT OR O_RDWR)"
    by (simp_all add: O_CREAT_def O_RDWR_def for_writing_def O_WRONLY_def)
  have h1: "heap s = x # y # a # f # [b1, b2, b3] @ h" "x \<noteq> 0" "a \<noteq> 0" "f \<noteq> 0" using h(1,2) by auto
  obtain k j g i' s1 where c: "sys_open J (slash # n) (O_CREAT OR O_RDWR) s = Inr (of_nat g, s1)" "mount_ok p i' s1"
    "opened g j \<lparr>fd_pos = 0, fd_flag = O_CREAT OR O_RDWR, fd_inode = f\<rparr> s1" "k < 256" "k \<notin> used_inodes s"
    "used_inodes s1 = insert k (used_inodes s)" "file_ok f ((inode_init (of_nat k))\<lparr>i_open_cnts := 1\<rparr>) s1"
    "\<And>m. valid_name m \<Longrightarrow> dir_lookup i' m s1 = (if m = n then Some (new_entry n (of_nat k) FT_REGULAR) else dir_lookup i m s)"
    "heap s1 = [b1, b2, b3] @ h" "\<And>q. q < 4096 \<Longrightarrow> q \<noteq> 0 \<Longrightarrow> q \<noteq> of_nat k \<Longrightarrow> stored_inode q s1 = stored_inode q s"
    "open_inode (cur_part s1) = f # open_inode (cur_part s)" "f \<notin> set (open_inode (cur_part s))" "f \<noteq> p"
    "data_blocks s1 = data_blocks s" "used_blocks s \<subseteq> used_blocks s1" "\<exists>l. used_blocks s1 \<subseteq> insert l (used_blocks s)"
    "\<And>l. l \<in> used_blocks s - set (dir_blocks i) \<Longrightarrow> disk_data s1 l = disk_data s l"
    "\<And>q. q \<noteq> f \<Longrightarrow> q \<noteq> p \<Longrightarrow> inodes s1 q = inodes s q"
    "\<exists>A B. live i s = A @ B \<and> live i' s1 = A @ new_entry n (of_nat k) FT_REGULAR # B"
    "\<exists>b \<in> set (takeWhile (\<lambda>b. b \<noteq> 0) (dir_blocks i)). free_slot (disk_data s) b \<Longrightarrow> i_sectors i' = i_sectors i \<and> used_blocks s1 = used_blocks s"
    "stored_inode 0 s1 = i'\<lparr>i_open_cnts := 0, write_deny := False\<rparr>" "thread_fds s1 = (thread_fds s)[g := of_nat j]"
    "file_table s1 = (file_table s)[j := \<lparr>fd_pos = 0, fd_flag = O_CREAT OR O_RDWR, fd_inode = f\<rparr>]" "same_layout s s1"
    by (rule sys_open_creates_run [OF ok n new room free sl J h1 h(3) fl(1,2)]) blast
  let ?F = "\<lparr>fd_pos = 0, fd_flag = O_CREAT OR O_RDWR, fd_inode = f\<rparr>" and ?i = "(inode_init (of_nat k))\<lparr>i_open_cnts := 1\<rparr>"
  have k: "(of_nat k :: u32) < 256" using c(4) by (simp add: word_less_nat_alt unat_word_of_nat32)
  have e: "file_blocks ?i = []" "i_size ?i = 0" "i_no ?i = of_nat k" by (simp_all add: file_blocks_def inode_init_def)
  have card: "length src div 512 + 1 \<le> card (data_blocks s1 - used_blocks s1)" using card_room [OF c(14)] c(16) blocks by fastforce
  obtain fi s2 where w: "sys_write (of_nat g) src s1 = Inr (of_nat (length src), [], s2)" "mount_ok p i' s2"
    "opened g j (?F\<lparr>fd_pos := i_size fi - 1\<rparr>) s2" "file_ok f fi s2" "file_bytes fi s2 = file_bytes ?i s1 @ src" "i_no fi = i_no ?i"
    "i_size fi = i_size ?i + of_nat (length src)" "i_open_cnts fi = i_open_cnts ?i"
    "stored_inode (i_no ?i) s2 = fi\<lparr>i_open_cnts := 0, write_deny := False\<rparr>"
    "\<And>q. q < 4096 \<Longrightarrow> q \<noteq> i_no ?i \<Longrightarrow> stored_inode q s2 = stored_inode q s1" "\<And>m. dir_lookup i' m s2 = dir_lookup i' m s1"
    "heap s2 = h" "used_inodes s2 = used_inodes s1" "open_inode (cur_part s2) = open_inode (cur_part s1)"
    "\<And>l. l \<in> used_blocks s1 - set (file_blocks ?i) \<Longrightarrow> disk_data s2 l = disk_data s1 l" "\<And>q. q \<noteq> f \<Longrightarrow> inodes s2 q = inodes s1 q"
    "thread_fds s2 = thread_fds s1" "file_table s2 = (file_table s1)[j := ?F\<lparr>fd_pos := i_size fi - 1\<rparr>]" "i_sectors fi ! 12 = i_sectors ?i ! 12"
    "set (file_blocks fi) \<subseteq> set (file_blocks ?i) \<union> (used_blocks s2 - used_blocks s1)" "used_blocks s2 = used_blocks s1 \<union> set (file_blocks fi)"
    "same_layout s1 s2"
    by (rule sys_write_run [OF c(2,3) _ _ c(7) c(13), of src b1 b2 b3 h]) (use e k len card c(9) h(2) fl(3) in auto)
  have k0: "of_nat k \<noteq> (0 :: u32)" using mount_ok_parts(4) [OF ok] c(4,5) unat_word_of_nat32 [of k] by (cases "k = 0") auto
  have "dir_entries (disk_data s2) (dir_blocks i') = dir_entries (disk_data s1) (dir_blocks i')"
  proof (rule dir_entries_cong)
    fix b assume "b \<in> set (dir_blocks i')" "b \<noteq> 0"
    then have "b \<in> used_blocks s1" using mount_ok_parts(2) [OF c(2)] by (auto simp: dir_ok_def)
    then show "disk_data s2 b = disk_data s1 b" using w(15) e(1) by simp
  qed
  then have lv: "live i' s2 = live i' s1" by (simp add: live_def)
  show ?thesis
  proof (rule that [OF c(1) w(1,2,3) _ w(4)])
    show "file_bytes fi s2 = src" using w(5) e(2) by (simp add: file_bytes_def)
    show "disk_data s2 l = disk_data s l" if "l \<in> used_blocks s - set (dir_blocks i)" for l
      using that w(15) [of l] c(15,17) e(1) by auto
    show "\<exists>A B. live i s = A @ B \<and> live i' s2 = A @ new_entry n (of_nat k) FT_REGULAR # B" unfolding lv by (rule c(19))
    show "stored_inode 0 s2 = i'\<lparr>i_open_cnts := 0, write_deny := False\<rparr>" using w(10) [of 0] k0 c(21) e(3) by simp
    show "file_table s2 = (file_table s)[j := ?F\<lparr>fd_pos := i_size fi - 1\<rparr>]" using w(18) c(23) by simp
    show "i_sectors fi ! 12 = 0" using w(19) by (simp add: inode_init_def)
    show "set (file_blocks fi) \<inter> used_blocks s = {}" using w(20) c(15) e(1) by auto
    show "same_layout s s2" by (rule same_layout_trans [OF c(24) w(22)])
  qed (use w c e in \<open>simp_all add: subset_insertI2\<close>, auto)
qed

text \<open>The parts of the state that the calls on an open file do not write to.\<close>

definition same_disk :: "fs \<Rightarrow> fs \<Rightarrow> bool" where
  "same_disk s s' \<longleftrightarrow> disk_data s' = disk_data s \<and> part_sb s' = part_sb s \<and> block_bitmap (cur_part s') = block_bitmap (cur_part s)
     \<and> inode_bitmap (cur_part s') = inode_bitmap (cur_part s)"

lemma same_disk:
  assumes "same_disk s s'"
  shows "disk_data s' = disk_data s" and "part_sb s' = part_sb s" and "used_blocks s' = used_blocks s" and "used_inodes s' = used_inodes s"
    and "dir_lookup i n s' = dir_lookup i n s" and "stored_inode q s' = stored_inode q s"
  using assms used_blocks_cong(1) [of s' s] by (simp_all add: same_disk_def used_inodes_def dir_lookup_def stored_inode_def)

lemma same_disk_trans: "same_disk s s' \<Longrightarrow> same_disk s' s'' \<Longrightarrow> same_disk s s''"
  by (simp add: same_disk_def)

lemma seek_read_close_run:
  assumes ok: "mount_ok p i s" and op: "opened g j F s" and fp: "fd_inode F \<noteq> p" and fo: "file_ok (fd_inode F) fi s"
    and bytes: "file_bytes fi s = src" "i_size fi = of_nat (length src)" and cnt: "i_open_cnts fi = 1" and len: "length src < 6144"
    and ps: "open_inode (cur_part s) = fd_inode F # ps" "fd_inode F \<notin> set ps" and h: "heap s = a # b # h" "a \<noteq> 0" "b \<noteq> 0"
  obtains s1 s2 s3 where "sys_lseek (of_nat g) 0 1 s = Inr (0, s1)"
    and "sys_read (of_nat g) (of_nat (length src)) keys s1 = Inr (of_nat (length src), src, s2)" and "sys_close (of_nat g) s2 = Inr (0, s3)"
    and "mount_ok p i s3" and "slots s3" and "heap s3 = h" and "inodes s3 = (inodes s)(fd_inode F := None)"
    and "open_inode (cur_part s3) = ps" and "same_disk s s3"
proof -
  have gi: "get_inode (fd_inode F) s = Inr fi" using fo by (simp add: file_ok_def)
  have sz: "unat (i_size fi) < 6144" using len unfolding bytes(2) by (subst unat_word_of_nat32) simp_all
  let ?F1 = "F\<lparr>fd_pos := 0\<rparr>" and ?F2 = "F\<lparr>fd_pos := of_nat (length src)\<rparr>"
  let ?s1 = "set_file j ?F1 s"
  let ?s2 = "set_file j ?F2 (?s1\<lparr>heap := h\<rparr>)"
  let ?s3 = "closed g j ?F2 ps ?s2"
  have seek: "sys_lseek (of_nat g) 0 1 s = Inr (0, ?s1)" by (rule sys_lseek_start [OF op gi sz])
  have op1: "opened g j ?F1 ?s1" using op by (simp add: opened_def set_file_def)
  have p1: "part_sb ?s1 = part_sb s" "used_blocks ?s1 = used_blocks s" "blocks_ok ?s1" "disk_data ?s1 = disk_data s"
    "get_inode (fd_inode ?F1) ?s1 = Inr fi"
    using fo gi by (simp_all add: set_file_def get_inode_def file_ok_def blocks_ok_def used_blocks_def block_cnt_def block_def)
  note fo1 = file_ok_again [OF fo p1 refl refl]
  have rd: "sys_read (of_nat g) (of_nat (length src)) keys ?s1 = Inr (of_nat (length src), src, ?s2)"
    using sys_read_all [OF op1 fo1(1) _ _ bytes(2) len, of a b h keys] fo1(2) bytes(1) h by (simp add: set_file_def)
  have op2: "opened g j ?F2 ?s2" using op by (simp add: opened_def set_file_def)
  have ok2: "mount_ok p i ?s2" using mount_ok_file [OF mount_ok_file [OF ok], of j ?F2 h j ?F1 "heap s"] by (simp add: set_file_def)
  have i2: "get_inode (fd_inode ?F2) ?s2 = Inr fi" "open_inode (cur_part ?s2) = fd_inode ?F2 # ps" "fd_inode ?F2 \<notin> set ps" "fd_inode ?F2 \<noteq> p"
    using gi ps fp by (simp_all add: get_inode_def set_file_def)
  have close: "sys_close (of_nat g) ?s2 = Inr (0, ?s3)" by (rule sys_close_run [OF op2 i2(1) cnt i2(2,3)])
  note ok3 = closed_ok [OF ok2 op2 i2(4,2,3)]
  have "heap ?s3 = h" "inodes ?s3 = (inodes s)(fd_inode F := None)" "open_inode (cur_part ?s3) = ps" "same_disk s ?s3"
    by (simp_all add: set_file_def same_disk_def) (simp_all add: closed_def)
  then show ?thesis by (rule that [OF seek rd close ok3(1,3)])
qed

lemma reopen_read_run:
  assumes ok: "mount_ok p i s" and n: "plain_name n" and e: "dir_lookup i n s = Some e" "f_type e = FT_REGULAR" "e_i_no e < 4096"
    and sl: "slots s" and J: "length (junk_name J) = 16" and h: "heap s = x # y # f # z # a # b # h" "x \<noteq> 0" "a \<noteq> 0" "b \<noteq> 0"
    and new: "e_i_no e \<notin> number_at s ` set (open_inode (cur_part s))" "inodes s f = None"
    and st: "stored_inode (e_i_no e) s = fi\<lparr>i_open_cnts := 0, write_deny := False\<rparr>" "i_no fi = e_i_no e" "unat (e_i_no e) \<in> used_inodes s"
    and fo: "file_ok f0 fi s0" "same_disk s0 s" and bytes: "file_bytes fi s0 = src" "i_size fi = of_nat (length src)" "length src < 6144"
  obtains g s1 s2 where "sys_open J (slash # n) 0 s = Inr (of_nat g, s1)"
    and "sys_read (of_nat g) (of_nat (length src)) keys s1 = Inr (of_nat (length src), src, s2)" and "mount_ok p i s2" and "same_disk s s2"
proof -
  have ro: "(0 :: u32) \<le> 7" "(0 :: u32) AND O_CREAT = 0" "for_writing 0 \<Longrightarrow> \<not> write_deny (stored_inode (e_i_no e) s)"
    by (simp_all add: for_writing_def)
  have no: "i_no (stored_inode (e_i_no e) s) = e_i_no e" unfolding st(1) using st(2) by simp
  obtain g j s1 where o: "sys_open J (slash # n) 0 s = Inr (of_nat g, s1)" "opened g j \<lparr>fd_pos = 0, fd_flag = 0, fd_inode = f\<rparr> s1"
    "get_inode f s1 = Inr (if for_writing 0 then (stored_inode (e_i_no e) s)\<lparr>i_open_cnts := 1, write_deny := True\<rparr>
      else (stored_inode (e_i_no e) s)\<lparr>i_open_cnts := 1\<rparr>)" "disk_data s1 = disk_data s" "part_sb s1 = part_sb s"
    "block_bitmap (cur_part s1) = block_bitmap (cur_part s)" "inode_bitmap (cur_part s1) = inode_bitmap (cur_part s)"
    "heap s1 = a # b # h" "mount_ok p i s1"
    by (rule sys_open_file_run [OF ok n e sl J h(1,2) ro new no st(3)]) blast+
  let ?i = "fi\<lparr>i_open_cnts := 1, write_deny := False\<rparr>"
  have gi: "get_inode f s1 = Inr ?i" using o(3) unfolding st(1) by (cases fi) (simp add: for_writing_def)
  have sd: "same_disk s s1" using o(4-7) by (simp add: same_disk_def)
  note sd0 = same_disk [OF same_disk_trans [OF fo(2) sd]]
  note fo1 = file_ok_again [OF fo(1) sd0(2,3) fs_ok_parts(1) [OF mount_ok_parts(1) [OF o(9)]] sd0(1) gi, simplified]
  let ?F = "\<lparr>fd_pos = 0, fd_flag = 0, fd_inode = f\<rparr>"
  let ?s2 = "set_file j (?F\<lparr>fd_pos := of_nat (length src)\<rparr>) (s1\<lparr>heap := h\<rparr>)"
  have rd: "sys_read (of_nat g) (of_nat (length src)) keys s1 = Inr (of_nat (length src), src, ?s2)"
    by (rule sys_read_all [OF o(2) _ _ _ _ bytes(3), of ?i a b]) (use fo1 bytes(1,2) o(8) h(3,4) in simp_all)
  have "same_disk s1 ?s2" by (simp add: same_disk_def set_file_def)
  then show ?thesis by (rule that [OF o(1) rd mount_ok_file [OF o(9)] same_disk_trans [OF sd]])
qed

text \<open>
  C7. \<^verbatim>\<open>sys_open\<close> with \<^verbatim>\<open>O_CREAT\<close> makes a file. For a name that the root directory does not have yet, it returns a free descriptor of the
  process; the invariant of the mounted file system holds again; the directory maps the name to a free inode number, which is
  marked as used now, and every other name to what it was; the descriptor stands for an empty file with position 0; its inode
  is in the inode table on the disk; all other inodes on the disk and the blocks of all other files are as they were.
\<close>

theorem sys_open_creates:
  assumes "mount_ok p i s" and "plain_name n" and "dir_lookup i n s = None" and "dir_room i s" and "\<exists>k < 256. k \<notin> used_inodes s"
    and "slots s" and "length (junk_name J) = 16" and "heap s = x # y # a # f # h" and "x \<noteq> 0" and "a \<noteq> 0" and "f \<noteq> 0" and "inodes s f = None"
    and "flags \<le> 7" and "flags AND O_CREAT \<noteq> 0"
  shows "\<exists>k j g i' s'. sys_open J (slash # n) flags s = Inr (of_nat g, s') \<and> mount_ok p i' s'
    \<and> (\<forall>m. valid_name m \<longrightarrow> dir_lookup i' m s' = (if m = n then Some (new_entry n (of_nat k) FT_REGULAR) else dir_lookup i m s))
    \<and> k < 256 \<and> k \<notin> used_inodes s \<and> used_inodes s' = insert k (used_inodes s)
    \<and> opened g j \<lparr>fd_pos = 0, fd_flag = flags, fd_inode = f\<rparr> s' \<and> file_ok f ((inode_init (of_nat k))\<lparr>i_open_cnts := 1\<rparr>) s'
    \<and> stored_inode (of_nat k) s' = inode_init (of_nat k)
    \<and> (\<forall>q. q < 4096 \<and> q \<noteq> 0 \<and> q \<noteq> of_nat k \<longrightarrow> stored_inode q s' = stored_inode q s)
    \<and> (\<forall>l. l \<in> used_blocks s - set (dir_blocks i) \<longrightarrow> disk_data s' l = disk_data s l)"
  by (rule sys_open_creates_run [OF assms]) blast

text \<open>
  C6. What is written to a new file is what is read from it. A file is created by its path and written; after \<^verbatim>\<open>lseek\<close> to the start, reading
  returns the bytes written; and so it does after the file has been closed, which takes its inode out of the memory, and opened
  again by its path, which loads the inode from the disk. In between the invariant of the file system holds and the directory has
  exactly one name more; the inodes and blocks of all other files are as they were.
\<close>

theorem file_calls_roundtrip:
  assumes ok: "mount_ok p i s" and n: "plain_name n" and new: "dir_lookup i n s = None" and room: "dir_room i s"
    and free: "\<exists>k < 256. k \<notin> used_inodes s" and sl: "slots s" and J: "length (junk_name J) = 16"
    and h: "heap s = hs @ h" "length hs = 15" "0 \<notin> set hs" "inodes s (hs ! 3) = None" "inodes s (hs ! 11) = None"
    and len: "length src < 6144" and blocks: "length src div 512 + 2 \<le> card (data_blocks s - used_blocks s)"
  shows "\<exists>k fd fd' i' s1 s2 s3 s4 s5 s6 s7. sys_open J (slash # n) (O_CREAT OR O_RDWR) s = Inr (fd, s1)
    \<and> sys_write fd src s1 = Inr (of_nat (length src), [], s2) \<and> sys_lseek fd 0 1 s2 = Inr (0, s3)
    \<and> sys_read fd (of_nat (length src)) keys s3 = Inr (of_nat (length src), src, s4) \<and> sys_close fd s4 = Inr (0, s5)
    \<and> sys_open J (slash # n) 0 s5 = Inr (fd', s6) \<and> sys_read fd' (of_nat (length src)) keys s6 = Inr (of_nat (length src), src, s7)
    \<and> mount_ok p i' s7 \<and> k \<notin> used_inodes s \<and> used_inodes s7 = insert k (used_inodes s)
    \<and> (\<forall>m. valid_name m \<longrightarrow> dir_lookup i' m s7 = (if m = n then Some (new_entry n (of_nat k) FT_REGULAR) else dir_lookup i m s))
    \<and> (\<forall>q. q < 4096 \<and> q \<noteq> 0 \<and> q \<noteq> of_nat k \<longrightarrow> stored_inode q s7 = stored_inode q s)
    \<and> (\<forall>l. l \<in> used_blocks s - set (dir_blocks i) \<longrightarrow> disk_data s7 l = disk_data s l)"
proof -
  obtain x y a f b1 b2 b3 c1 c2 x' y' f' z d1 d2 where hs: "hs = [x, y, a, f, b1, b2, b3, c1, c2, x', y', f', z, d1, d2]"
    using h(2) by (auto simp: length_Suc_conv numeral_nat)
  let ?h = "[c1, c2, x', y', f', z, d1, d2] @ h"
  have h0: "heap s = [x, y, a, f, b1, b2, b3] @ ?h" "0 \<notin> {x, a, f, b1, b2, b3}" "inodes s f = None" "inodes s f' = None"
    "c1 \<noteq> 0" "c2 \<noteq> 0" "x' \<noteq> 0" "d1 \<noteq> 0" "d2 \<noteq> 0" using h hs by auto
  obtain k j g i' F fi s1 s2 where w: "sys_open J (slash # n) (O_CREAT OR O_RDWR) s = Inr (of_nat g, s1)"
    "sys_write (of_nat g) src s1 = Inr (of_nat (length src), [], s2)" "mount_ok p i' s2" "opened g j F s2" "fd_inode F = f"
    "file_ok f fi s2" "file_bytes fi s2 = src" "i_size fi = of_nat (length src)" "i_open_cnts fi = 1"
    "k < 256" "k \<notin> used_inodes s" "used_inodes s2 = insert k (used_inodes s)"
    "stored_inode (of_nat k) s2 = fi\<lparr>i_open_cnts := 0, write_deny := False\<rparr>" "i_no fi = of_nat k"
    "\<And>q. q < 4096 \<Longrightarrow> q \<noteq> 0 \<Longrightarrow> q \<noteq> of_nat k \<Longrightarrow> stored_inode q s2 = stored_inode q s"
    "\<And>m. valid_name m \<Longrightarrow> dir_lookup i' m s2 = (if m = n then Some (new_entry n (of_nat k) FT_REGULAR) else dir_lookup i m s)"
    "heap s2 = ?h" "open_inode (cur_part s2) = f # open_inode (cur_part s)" "f \<notin> set (open_inode (cur_part s))" "f \<noteq> p"
    "\<And>l. l \<in> used_blocks s - set (dir_blocks i) \<Longrightarrow> disk_data s2 l = disk_data s l"
    "\<And>q. q \<noteq> f \<Longrightarrow> q \<noteq> p \<Longrightarrow> inodes s2 q = inodes s q"
    by (rule create_write_run [OF ok n new room free sl J h0(1-3) len blocks]) blast
  have fp: "fd_inode F \<noteq> p" "fd_inode F \<notin> set (open_inode (cur_part s))" using w(5,19,20) by simp_all
  have h2: "heap s2 = c1 # c2 # [x', y', f', z, d1, d2] @ h" using w(17) by simp
  obtain s3 s4 s5 where r: "sys_lseek (of_nat g) 0 1 s2 = Inr (0, s3)"
    "sys_read (of_nat g) (of_nat (length src)) keys s3 = Inr (of_nat (length src), src, s4)" "sys_close (of_nat g) s4 = Inr (0, s5)"
    "mount_ok p i' s5" "slots s5" "heap s5 = [x', y', f', z, d1, d2] @ h" "inodes s5 = (inodes s2)(fd_inode F := None)"
    "open_inode (cur_part s5) = open_inode (cur_part s)" "same_disk s2 s5"
    by (rule seek_read_close_run [OF w(3,4) fp(1) _ w(7,8,9) len _ fp(2) h2 h0(5,6)]) (use w(5,6,18) in auto)
  note sd5 = same_disk [OF r(9)]
  let ?e = "new_entry n (of_nat k) FT_REGULAR"
  have kw: "(of_nat k :: u32) < 4096" "unat (of_nat k :: u32) = k" using w(10) by (simp_all add: word_less_nat_alt unat_word_of_nat32)
  have e: "e_i_no ?e = of_nat k" "f_type ?e = FT_REGULAR" by (simp_all add: new_entry_def)
  have "valid_name n" using n by (simp add: plain_name_def)
  then have look: "dir_lookup i' n s5 = Some ?e" unfolding sd5(5) using w(16) by simp
  have num: "e_i_no ?e \<notin> number_at s5 ` set (open_inode (cur_part s5))"
  proof -
    have "opens_ok s2" by (rule mount_ok_parts [OF w(3)])
    moreover have "number_at s2 f = of_nat k" using get_inode_Some [of f s2 fi] w(6,14) by (simp add: file_ok_def)
    ultimately have "of_nat k \<notin> number_at s2 ` set (open_inode (cur_part s))" using w(18) by (auto simp: opens_ok_def)
    then show ?thesis using w(5,19) unfolding e(1) r(7,8) by auto
  qed
  have "f' \<noteq> p" using mount_ok_parts(9) [OF ok] h0(4) by auto
  then have f': "inodes s5 f' = None" using w(5) w(22) [of f'] h0(4) unfolding r(7) by auto
  have e5: "e_i_no ?e < 4096" "stored_inode (e_i_no ?e) s5 = fi\<lparr>i_open_cnts := 0, write_deny := False\<rparr>" "i_no fi = e_i_no ?e"
    "unat (e_i_no ?e) \<in> used_inodes s5" using kw w(12-14) unfolding e(1) sd5 by simp_all
  have h5: "heap s5 = x' # y' # f' # z # d1 # d2 # h" using r(6) by simp
  obtain g' s6 s7 where o: "sys_open J (slash # n) 0 s5 = Inr (of_nat g', s6)"
    "sys_read (of_nat g') (of_nat (length src)) keys s6 = Inr (of_nat (length src), src, s7)" "mount_ok p i' s7" "same_disk s5 s7"
    by (rule reopen_read_run [OF r(4) n look e(2) e5(1) r(5) J h5 h0(7-9) num f' e5(2-4) w(6) r(9) w(7,8) len])
  note sd7 = same_disk [OF same_disk_trans [OF r(9) o(4)]]
  show ?thesis
    by (intro exI conjI) (rule w(1), rule w(2), rule r(1), rule r(2), rule r(3), rule o(1), rule o(2), rule o(3),
      use w(11,12,15,16,21) in \<open>auto simp: sd7\<close>)
qed


section \<open>From a blank disk\<close>

text \<open>The heap serves \<^verbatim>\<open>filesys_init\<close> with 8 addresses, the calls with 15.\<close>

lemma blank_started:
  obtains s i where "filesys_init [sample_part] (blank [1, 2, 3, 4, 5, 6, 7, 8, 9, 10, 11, 12, 13, 14, 15, 16, 17, 18, 19, 20, 21, 22, 23]) = Inr s"
    and "mount_ok 7 i s" and "dir_room i s" and "slots s" and "used_inodes s = {0}" and "1388 \<le> card (data_blocks s - used_blocks s) + 1"
    and "\<And>n. plain_name n \<Longrightarrow> dir_lookup i n s = None" and "heap s = [9, 10, 11, 12, 13, 14, 15, 16, 17, 18, 19, 20, 21, 22, 23]"
    and "\<And>q. q \<noteq> 7 \<Longrightarrow> inodes s q = None"
proof -
  let ?h = "[9, 10, 11, 12, 13, 14, 15, 16, 17, 18, 19, 20, 21, 22, 23] :: u32 list"
  obtain s i where r: "filesys_init [sample_part] (blank ([1, 2, 3, 4, 5, 6, 7, 8] @ ?h)) = Inr s" "mount_ok 7 i s" "dir_room i s" "slots s"
    "used_inodes s = {0}" "1388 \<le> card (data_blocks s - used_blocks s) + 1" "\<forall>n. plain_name n \<longrightarrow> dir_lookup i n s = None" "heap s = ?h"
    "\<forall>q. q \<noteq> 7 \<longrightarrow> inodes s q = None"
    using filesys_init_mounts [where s = "blank ([1, 2, 3, 4, 5, 6, 7, 8] @ ?h)" and hs = "[1, 2, 3, 4, 5, 6, 7, 8]" and h = ?h and qs = "[]" and p = sample_part]
      blank_premises by (auto simp: blank_simps)
  show ?thesis by (rule that [of s i]) (use r in simp_all)
qed


definition no_junk :: junk where
  "no_junk = \<lparr>junk_name = replicate 16 0, junk_entry = empty_entry\<rparr>"

lemma plain_a: "plain_name (ascii ''a'')" "slash # ascii ''a'' = ascii ''/a''" "length (junk_name no_junk) = 16" "\<exists>k < 256. k \<notin> {0 :: nat}"
  by (simp_all add: plain_name_def valid_name_def ascii_def no_junk_def del: replicate.simps) (rule exI [of _ 1], simp)

lemma sys_open_creates_witness:
  "\<exists>s fd i' s'. sys_open no_junk (ascii ''/a'') 4 s = Inr (fd, s') \<and> mount_ok 7 i' s' \<and> dir_lookup i' (ascii ''a'') s' \<noteq> None"
proof -
  obtain s i where s: "mount_ok 7 i s" "dir_room i s" "slots s" "used_inodes s = {0}" "\<And>n. plain_name n \<Longrightarrow> dir_lookup i n s = None"
    "heap s = [9, 10, 11, 12, 13, 14, 15, 16, 17, 18, 19, 20, 21, 22, 23]" "\<And>q. q \<noteq> 7 \<Longrightarrow> inodes s q = None"
    by (rule blank_started) blast
  have fl: "(4 :: u32) \<le> 7" "(4 :: u32) AND O_CREAT \<noteq> 0" by (simp_all add: O_CREAT_def)
  have v: "valid_name (ascii ''a'')" using plain_a(1) by (simp add: plain_name_def)
  have free: "\<exists>k < 256. k \<notin> used_inodes s" unfolding s(4) by (rule plain_a(4))
  have h: "(9 :: u32) \<noteq> 0" "(11 :: u32) \<noteq> 0" "(12 :: u32) \<noteq> 0" "inodes s 12 = None" using s(7) by simp_all
  obtain k j g i' s' where "sys_open no_junk (slash # ascii ''a'') 4 s = Inr (of_nat g, s')" "mount_ok 7 i' s'"
    "\<forall>m. valid_name m \<longrightarrow> dir_lookup i' m s' = (if m = ascii ''a'' then Some (new_entry (ascii ''a'') (of_nat k) FT_REGULAR) else dir_lookup i m s)"
    using sys_open_creates [OF s(1) plain_a(1) s(5) [OF plain_a(1)] s(2) free s(3) plain_a(3) s(6) h fl] by blast
  then show ?thesis using v unfolding plain_a(2) by (intro exI conjI) (assumption, assumption, simp)
qed

lemma file_calls_roundtrip_witness:
  "\<exists>s fd fd' s1 s2 s3 s4 s5 s6 s7.
     filesys_init [sample_part] (blank [1, 2, 3, 4, 5, 6, 7, 8, 9, 10, 11, 12, 13, 14, 15, 16, 17, 18, 19, 20, 21, 22, 23]) = Inr s
     \<and> sys_open no_junk (ascii ''/a'') (O_CREAT OR O_RDWR) s = Inr (fd, s1) \<and> sys_write fd (ascii ''hello'') s1 = Inr (5, [], s2)
     \<and> sys_lseek fd 0 1 s2 = Inr (0, s3) \<and> sys_read fd 5 [] s3 = Inr (5, ascii ''hello'', s4) \<and> sys_close fd s4 = Inr (0, s5)
     \<and> sys_open no_junk (ascii ''/a'') 0 s5 = Inr (fd', s6) \<and> sys_read fd' 5 [] s6 = Inr (5, ascii ''hello'', s7)"
proof -
  obtain s i where s: "filesys_init [sample_part] (blank [1, 2, 3, 4, 5, 6, 7, 8, 9, 10, 11, 12, 13, 14, 15, 16, 17, 18, 19, 20, 21, 22, 23]) = Inr s"
    "mount_ok 7 i s" "dir_room i s" "slots s" "used_inodes s = {0}" "1388 \<le> card (data_blocks s - used_blocks s) + 1"
    "\<And>n. plain_name n \<Longrightarrow> dir_lookup i n s = None" "heap s = [9, 10, 11, 12, 13, 14, 15, 16, 17, 18, 19, 20, 21, 22, 23]"
    "\<And>q. q \<noteq> 7 \<Longrightarrow> inodes s q = None"
    by (rule blank_started) blast
  let ?hs = "[9, 10, 11, 12, 13, 14, 15, 16, 17, 18, 19, 20, 21, 22, 23] :: u32 list"
  have l: "length (ascii ''hello'') = 5" by (simp add: ascii_def)
  have h: "heap s = ?hs @ []" "length ?hs = 15" "0 \<notin> set ?hs" "inodes s (?hs ! 3) = None" "inodes s (?hs ! 11) = None"
    using s(8,9) by simp_all
  have "\<exists>k < 256. k \<notin> used_inodes s" unfolding s(5) by (rule plain_a(4))
  from file_calls_roundtrip [OF s(2) plain_a(1) s(7) [OF plain_a(1)] s(3) this s(4) plain_a(3) h, of "ascii ''hello''" "[]"] s(6)
  show ?thesis using s(1) unfolding plain_a(2) l by fastforce
qed

end
