(* ===== verification/Unlink.thy ===== *)
theory Unlink
  imports Roundtrip
begin

text \<open>
  Deleting a file: \<^verbatim>\<open>delete_dir_entry\<close> (\<^verbatim>\<open>fs/dir.c\<close>) in a directory of one block, \<^verbatim>\<open>inode_release\<close> (\<^verbatim>\<open>fs/inode.c\<close>) for an inode
  of direct blocks, and \<^verbatim>\<open>sys_unlink\<close>.
\<close>

section \<open>Scanning a block\<close>

text \<open>The entries that \<^verbatim>\<open>delete_dir_entry\<close> counts, and the one it looks for.\<close>

definition dotted :: "dir_entry \<Rightarrow> bool" where
  "dotted e \<longleftrightarrow> f_type e \<noteq> FT_UNKNOWN \<and> has_name (ascii ''.'') e"

definition counted :: "dir_entry \<Rightarrow> bool" where
  "counted e \<longleftrightarrow> f_type e \<noteq> FT_UNKNOWN \<and> \<not> has_name (ascii ''.'') e \<and> \<not> has_name (ascii ''..'') e"

definition hit :: "u32 \<Rightarrow> dir_entry \<Rightarrow> bool" where
  "hit no e \<longleftrightarrow> counted e \<and> e_i_no e = no"

lemma str_eq_entry:
  assumes "length buf = 512" and "k < 21" and "valid_name n"
  shows "str_eq (drop (24 * k) buf) n = Inr (has_name n (nth_entry buf k))"
proof -
  have "str_eq (drop (24 * k) buf) n = Inr (take (Suc (length n)) (drop (24 * k) buf) = n @ [0])"
    by (rule str_eq_take) (use assms in \<open>auto simp: valid_name_def\<close>)
  also have "take (Suc (length n)) (drop (24 * k) buf) = take (Suc (length n)) (filename (nth_entry buf k))"
    using assms(3) by (simp add: nth_entry_def decode_dir_entry_def piece_of_def valid_name_def min_def)
  finally show ?thesis by (simp add: has_name_def)
qed

lemma scan_block_eq:
  assumes buf: "length buf = 512" and "set ks \<subseteq> {..<21}" and "distinct ks"
    and "\<And>j k. j \<in> set ks \<Longrightarrow> k \<in> set ks \<Longrightarrow> hit no (nth_entry buf j) \<Longrightarrow> hit no (nth_entry buf k) \<Longrightarrow> j = k"
    and "dir_entry_found a = None \<or> (\<forall>k \<in> set ks. \<not> hit no (nth_entry buf k))"
  shows "scan_block buf no ks a = Inr \<lparr>is_dir_first_block = is_dir_first_block a \<or> (\<exists>k \<in> set ks. dotted (nth_entry buf k)),
    dir_entry_cnt = dir_entry_cnt a + length (filter (\<lambda>k. counted (nth_entry buf k)) ks),
    dir_entry_found = (case find (\<lambda>k. hit no (nth_entry buf k)) ks of None \<Rightarrow> dir_entry_found a | Some k \<Rightarrow> Some k)\<rparr>"
  using assms(2-5)
proof (induction ks arbitrary: a)
  case Nil
  then show ?case by simp
next
  case (Cons k ks)
  let ?e = "nth_entry buf k"
  have k: "k < 21" using Cons.prems(1) by simp
  have v: "valid_name (ascii ''.'')" "valid_name (ascii ''..'')" by (simp_all add: valid_name_def ascii_def)
  note se = str_eq_entry [OF buf k v(1)] str_eq_entry [OF buf k v(2)]
  have none: "find (\<lambda>k. hit no (nth_entry buf k)) ks = None" if "hit no ?e"
    using Cons.prems(2,3) that by (fastforce simp: find_None_iff)
  have IH: "scan_block buf no ks b = Inr \<lparr>is_dir_first_block = is_dir_first_block b \<or> (\<exists>k \<in> set ks. dotted (nth_entry buf k)),
      dir_entry_cnt = dir_entry_cnt b + length (filter (\<lambda>k. counted (nth_entry buf k)) ks),
      dir_entry_found = (case find (\<lambda>k. hit no (nth_entry buf k)) ks of None \<Rightarrow> dir_entry_found b | Some k \<Rightarrow> Some k)\<rparr>"
    if "dir_entry_found b = None \<or> (\<forall>k \<in> set ks. \<not> hit no (nth_entry buf k))" for b
    by (rule Cons.IH) (use Cons.prems that in auto)
  have rest: "hit no ?e \<Longrightarrow> \<forall>k \<in> set ks. \<not> hit no (nth_entry buf k)" using none by (simp add: find_None_iff)
  show ?case
  proof (cases "counted ?e")
    case False
    then consider "f_type ?e = FT_UNKNOWN" | "dotted ?e" | "f_type ?e \<noteq> FT_UNKNOWN" "\<not> has_name (ascii ''.'') ?e" "has_name (ascii ''..'') ?e"
      by (auto simp: counted_def dotted_def)
    then show ?thesis
    proof cases
      case 1
      then have "\<not> dotted ?e" "\<not> hit no ?e" by (simp_all add: dotted_def hit_def counted_def)
      then show ?thesis using 1 False Cons.prems(4) IH [of a] entry_at_nth [OF buf k] by simp
    next
      case 2
      then have "\<not> hit no ?e" "f_type ?e \<noteq> FT_UNKNOWN" "has_name (ascii ''.'') ?e" by (simp_all add: dotted_def hit_def counted_def)
      then show ?thesis using 2 False Cons.prems(4) IH [of "a\<lparr>is_dir_first_block := True\<rparr>"] entry_at_nth [OF buf k] se
        by (simp split: option.split)
    next
      case 3
      then have "\<not> dotted ?e" "\<not> hit no ?e" by (simp_all add: dotted_def hit_def counted_def)
      then show ?thesis using 3 False Cons.prems(4) IH [of a] entry_at_nth [OF buf k] se by simp
    qed
  next
    case True
    then have c: "f_type ?e \<noteq> FT_UNKNOWN" "\<not> has_name (ascii ''.'') ?e" "\<not> has_name (ascii ''..'') ?e" "\<not> dotted ?e"
      by (simp_all add: counted_def dotted_def)
    show ?thesis
    proof (cases "e_i_no ?e = no")
      case True
      then have h: "hit no ?e" using \<open>counted ?e\<close> by (simp add: hit_def)
      then have "dir_entry_found a = None" using Cons.prems(4) by auto
      then show ?thesis using c True h none [OF h] \<open>counted ?e\<close> rest IH [of "a\<lparr>dir_entry_cnt := dir_entry_cnt a + 1, dir_entry_found := Some k\<rparr>"]
        entry_at_nth [OF buf k] se by simp
    next
      case False
      then have "\<not> hit no ?e" by (simp add: hit_def)
      then show ?thesis using c False \<open>counted ?e\<close> Cons.prems(4) IH [of "a\<lparr>dir_entry_cnt := dir_entry_cnt a + 1\<rparr>"]
        entry_at_nth [OF buf k] se by (simp split: option.split)
    qed
  qed
qed


section \<open>Deleting an entry\<close>

lemma encode_empty: "encode_dir_entry empty_entry = replicate 24 0" "length (filename empty_entry) = 16"
  by code_simp+

lemma empty_free: "f_type empty_entry = FT_UNKNOWN" "filename empty_entry ! 0 = 0"
  by (simp_all add: empty_entry_def FT_UNKNOWN_def)

lemma filter_update:
  assumes "k < length xs" and "P (xs ! k)" and "\<not> P y"
  shows "\<exists>A B. filter P xs = A @ xs ! k # B \<and> filter P (xs[k := y]) = A @ B"
proof -
  have "filter P xs = filter P (take k xs) @ filter P (xs ! k # drop (Suc k) xs)"
    by (subst id_take_nth_drop [OF assms(1)]) (simp only: filter_append)
  moreover have "filter P (xs[k := y]) = filter P (take k xs) @ filter P (y # drop (Suc k) xs)"
    by (subst upd_conv_take_nth_drop [OF assms(1)]) (simp only: filter_append)
  ultimately show ?thesis using assms(2,3) by (intro exI [of _ "filter P (take k xs)"] exI [of _ "filter P (drop (Suc k) xs)"]) simp
qed

lemma find_upt:
  assumes "k < n" and "P k" and "\<And>j. j < n \<Longrightarrow> P j \<Longrightarrow> j = k"
  shows "find P [0..<n] = Some k"
  unfolding find_Some_iff
proof (intro exI [of _ k] conjI allI impI notI)
  fix j assume j: "j < k" "P ([0..<n] ! j)"
  then have "j = k" using assms(1) by (intro assms(3)) simp_all
  with j(1) show False by simp
qed (use assms(1,2) in simp_all)

lemma delete_dir_entry_run:
  assumes ok: "dir_ok pd p i s" and lay: "layout_ok s" and one: "dir_blocks i = b # replicate 11 0" "b \<noteq> 0" and no: "i_no i < 256"
    and k: "k < 21" "hit ino (entries (disk_data s b) ! k)"
    and uniq: "\<And>j. j < 21 \<Longrightarrow> hit ino (entries (disk_data s b) ! j) \<Longrightarrow> j = k" and first: "j < 21" "dotted (entries (disk_data s b) ! j)"
  obtains i' buf m where "delete_dir_entry pd ino s = Inr (True, set_inode p i' (s\<lparr>disk_data := m\<rparr>))"
    and "i' = i\<lparr>i_size := i_size i - 24\<rparr>" and "dir_ok pd p i' (set_inode p i' (s\<lparr>disk_data := m\<rparr>))"
    and "entries buf = (entries (disk_data s b))[k := empty_entry]"
    and "\<And>l. data_start_lba (part_sb s) \<le> l \<Longrightarrow> m l = ((disk_data s)(b := buf)) l"
    and "\<And>l. unat l < unat (inode_table_lba (part_sb s)) \<Longrightarrow> m l = disk_data s l"
    and "blocks_ok (s\<lparr>disk_data := m\<rparr>)" and "stored_inode (i_no i) (s\<lparr>disk_data := m\<rparr>) = i'\<lparr>i_open_cnts := 0, write_deny := False\<rparr>"
    and "\<And>q. q < 4096 \<Longrightarrow> q \<noteq> i_no i \<Longrightarrow> stored_inode q (s\<lparr>disk_data := m\<rparr>) = stored_inode q s"
proof -
  let ?d = "disk_data s" and ?D = "entries (disk_data s b)" and ?P = "\<lambda>e. f_type e \<noteq> FT_UNKNOWN"
  have g: "blocks_ok s" "disk_ok ?d" "dir_entry_size (part_sb s) = 24" "get_inode p s = Inr i" "length (i_sectors i) = 13" "i_sectors i ! 12 = 0"
    "b \<in> used_blocks s" "\<forall>e \<in> set (dir_entries ?d (dir_blocks i)). f_type e = FT_UNKNOWN \<longrightarrow> filename e ! 0 = 0"
    "unat (i_size i) = 24 * length (filter ?P (dir_entries ?d (dir_blocks i)))"
    using ok one by (auto simp: dir_ok_def blocks_ok_def Let_def)
  have D: "dir_entries ?d (dir_blocks i) = ?D" using one by (simp del: replicate.simps)
  have b: "b \<le> max_lba" "data_start_lba (part_sb s) \<le> b" using dir_blocks_range [OF ok, of b] one by simp_all
  have io: "length (?d b) = 512" using g(2) by (simp add: disk_ok_def)
  have nth: "nth_entry (?d b) j = ?D ! j" if "j < 21" for j using that by (simp add: entries_def)
  define buf where "buf = splice (?d b) (24 * k) (replicate 24 0)"
  have buf: "length buf = 512" "entries buf = ?D[k := empty_entry]"
    using k(1) io entries_splice [OF io k(1) encode_empty(2)] by (simp_all add: buf_def encode_empty(1))
  have cnt: "counted (?D ! k)" "?P (?D ! k)" using k(2) by (simp_all add: hit_def counted_def)
  obtain A B where AB: "filter ?P ?D = A @ ?D ! k # B" "filter ?P (?D[k := empty_entry]) = A @ B"
    using filter_update [of k ?D ?P empty_entry] k(1) cnt(2) empty_free(1) by auto
  have size: "unat (i_size i) = 24 * (length (A @ B) + 1)" using g(9) unfolding D AB(1) by simp
  let ?i = "i\<lparr>i_size := i_size i - 24\<rparr>"
  have "24 \<le> i_size i" using size by (simp add: word_le_nat_alt)
  then have size': "unat (i_size i - 24) = 24 * length (A @ B)" using size by (simp add: unat_sub)
  let ?s1 = "set_inode p ?i (s\<lparr>disk_data := ?d(b := buf)\<rparr>)"
  have b1: "blocks_ok ?s1" using blocks_ok_write [OF g(1) b(2) buf(1)] by simp
  then have lay1: "layout_ok ?s1" using lay by (simp add: layout_ok_def table_ok_def blocks_ok_def Let_def)
  obtain m where m: "inode_sync ?i ?s1 = Inr (?s1\<lparr>disk_data := m\<rparr>)" "blocks_ok (?s1\<lparr>disk_data := m\<rparr>)"
    "stored_inode (i_no ?i AND 0xff) (?s1\<lparr>disk_data := m\<rparr>) = ?i\<lparr>i_open_cnts := 0, write_deny := False\<rparr>"
    "\<And>l. data_start_lba (part_sb ?s1) \<le> l \<Longrightarrow> m l = disk_data ?s1 l"
    "\<And>l. unat l < unat (inode_table_lba (part_sb ?s1)) \<Longrightarrow> m l = disk_data ?s1 l"
    "\<And>q. q < 4096 \<Longrightarrow> q \<noteq> i_no ?i AND 0xff \<Longrightarrow> stored_inode q (?s1\<lparr>disk_data := m\<rparr>) = stored_inode q ?s1"
    by (rule sync_keeps_blocks [OF lay1 b1, of ?i]) (use g(5) in auto)
  let ?s2 = "set_inode p ?i (s\<lparr>disk_data := m\<rparr>)"
  have s2: "?s1\<lparr>disk_data := m\<rparr> = ?s2" by (simp add: set_inode_def)
  have scan: "scan_block (?d b) ino [0..<21] \<lparr>is_dir_first_block = False, dir_entry_cnt = 0, dir_entry_found = None\<rparr> =
      Inr \<lparr>is_dir_first_block = True, dir_entry_cnt = length (filter (\<lambda>k. counted (nth_entry (?d b) k)) [0..<21]), dir_entry_found = Some k\<rparr>"
  proof -
    have f: "find (\<lambda>k. hit ino (nth_entry (?d b) k)) [0..<21] = Some k"
    proof (rule find_upt [OF k(1)])
      show "hit ino (nth_entry (?d b) k)" unfolding nth [OF k(1)] by (rule k(2))
      show "i = k" if "i < 21" "hit ino (nth_entry (?d b) i)" for i
        by (rule uniq [OF that(1)]) (use that(2) nth [OF that(1)] in simp)
    qed
    have "\<exists>k \<in> set [0..<21]. dotted (nth_entry (?d b) k)" by (rule bexI [of _ j]) (use first nth in simp_all)
    moreover have "j = k'" if "j \<in> set [0..<21]" "k' \<in> set [0..<21]" "hit ino (nth_entry (?d b) j)" "hit ino (nth_entry (?d b) k')" for j k'
    proof -
      have "j < 21" "k' < 21" using that(1,2) by simp_all
      then have "j = k" "k' = k" using that(3,4) nth by (auto intro: uniq simp del: upt_Suc)
      then show ?thesis by simp
    qed
    moreover have "set [0..<21] \<subseteq> {..<21}" "distinct [0..<21]" by auto
    ultimately show ?thesis using scan_block_eq [OF io, of "[0..<21]" ino "\<lparr>is_dir_first_block = False, dir_entry_cnt = 0, dir_entry_found = None\<rparr>"]
      by (simp add: f del: upt_Suc upt.simps)
  qed
  have "0 < length (filter (\<lambda>k. counted (nth_entry (?d b) k)) [0..<21])"
  proof -
    have "k \<in> set (filter (\<lambda>k. counted (nth_entry (?d b) k)) [0..<21])" using k(1) cnt(1) nth [OF k(1)] by simp
    then show ?thesis by (rule length_pos_if_in_set)
  qed
  then have pos: "1 \<le> length (filter (\<lambda>k. counted (nth_entry (?d b) k)) [0..<21])" by linarith
  have run: "delete_dir_entry pd ino s = Inr (True, ?s2)"
  proof -
    obtain ps where "get_dir pd s = Inr \<lparr>dir_inode = p, dir_pos = ps\<rparr>" using ok by (auto simp: dir_ok_def)
    moreover have "all_blocks i s = Inr (b # replicate 11 0 @ replicate 128 0)" using g(6) one by (simp add: all_blocks_def dir_blocks_def)
    moreover have "[0..<140] = 0 # [1..<140]" by (simp add: upt_conv_Cons)
    moreover have "get_inode p (s\<lparr>disk_data := ?d(b := buf)\<rparr>) = Inr i" using g(4) by (simp add: get_inode_def)
    ultimately show ?thesis using g(3,4) b one(2) scan pos m(1) s2 disk_write_1 [OF b(1) buf(1), of s] \<open>24 \<le> i_size i\<close>
      by (simp add: delete_dir_entry_def entries_per_sec_def SECTOR_SIZE_def disk_read_1 buf_def [symmetric] Let_def del: replicate.simps upt.simps upt_Suc)
  qed
  have data: "m l = (?d(b := buf)) l" if "data_start_lba (part_sb s) \<le> l" for l using m(4) that by simp
  have low: "m l = ?d l" if "unat l < unat (inode_table_lba (part_sb s))" for l
    using m(5) that b(2) lay by (auto simp: layout_ok_def word_le_nat_alt)
  have bm: "blocks_ok (s\<lparr>disk_data := m\<rparr>)" using m(2) by (simp add: s2)
  have "dir_entries m (dir_blocks ?i) = entries buf" using data [of b] b(2) one by (simp add: dir_blocks_def del: replicate.simps)
  then have D': "dir_entries (disk_data ?s2) (dir_blocks ?i) = ?D[k := empty_entry]" unfolding buf(2) by simp
  have "dir_ok pd p ?i ?s2"
  proof -
    have "\<forall>e \<in> set (?D[k := empty_entry]). f_type e = FT_UNKNOWN \<longrightarrow> filename e ! 0 = 0"
      using g(8) empty_free set_update_subset_insert [of ?D k empty_entry] unfolding D by auto
    moreover have "blocks_ok ?s2" using m(2) by (simp only: s2)
    ultimately show ?thesis using ok size' unfolding dir_ok_def D' AB(2)
      by (auto simp: get_dir_def set_inode_def dir_blocks_def get_inode_def used_blocks_def block_cnt_def block_def)
  qed
  moreover have st: "stored_inode (i_no i) (s\<lparr>disk_data := m\<rparr>) = ?i\<lparr>i_open_cnts := 0, write_deny := False\<rparr>"
    "\<And>q. q < 4096 \<Longrightarrow> q \<noteq> i_no i \<Longrightarrow> stored_inode q (s\<lparr>disk_data := m\<rparr>) = stored_inode q ?s1"
    using m(3,6) low_inode [OF no] unfolding s2 by (simp_all add: stored_inode_def)
  moreover have "stored_inode q ?s1 = stored_inode q s" if "q < 4096" for q
    by (rule stored_cong [OF lay that]) (use b1 b(2) in \<open>auto simp: blocks_ok_def Let_def\<close>)
  ultimately show ?thesis by (intro that [OF run refl _ buf(2) data low bm]) simp_all
qed

section \<open>Releasing an inode\<close>

lemma release_blocks_run:
  assumes "blocks_ok s" and "{b \<in> set bs. b \<noteq> 0} \<subseteq> data_blocks s - {data_start_lba (part_sb s)}"
  obtains m d where "release_blocks bs s = Inr (upd_part (\<lambda>p. p\<lparr>block_bitmap := m\<rparr>) s\<lparr>disk_data := d\<rparr>)"
    and "blocks_ok (upd_part (\<lambda>p. p\<lparr>block_bitmap := m\<rparr>) s\<lparr>disk_data := d\<rparr>)"
    and "used_blocks (upd_part (\<lambda>p. p\<lparr>block_bitmap := m\<rparr>) s\<lparr>disk_data := d\<rparr>) = used_blocks s - {b \<in> set bs. b \<noteq> 0}"
    and "data_blocks (upd_part (\<lambda>p. p\<lparr>block_bitmap := m\<rparr>) s\<lparr>disk_data := d\<rparr>) = data_blocks s"
    and "\<And>l. unat l < unat (block_bitmap_lba (part_sb s))
      \<or> unat (block_bitmap_lba (part_sb s)) + unat (block_bitmap_sects (part_sb s)) \<le> unat l \<Longrightarrow> d l = disk_data s l"
proof -
  have "\<exists>m d. release_blocks bs s = Inr (upd_part (\<lambda>p. p\<lparr>block_bitmap := m\<rparr>) s\<lparr>disk_data := d\<rparr>)
    \<and> blocks_ok (upd_part (\<lambda>p. p\<lparr>block_bitmap := m\<rparr>) s\<lparr>disk_data := d\<rparr>)
    \<and> used_blocks (upd_part (\<lambda>p. p\<lparr>block_bitmap := m\<rparr>) s\<lparr>disk_data := d\<rparr>) = used_blocks s - {b \<in> set bs. b \<noteq> 0}
    \<and> data_blocks (upd_part (\<lambda>p. p\<lparr>block_bitmap := m\<rparr>) s\<lparr>disk_data := d\<rparr>) = data_blocks s
    \<and> (\<forall>l. unat l < unat (block_bitmap_lba (part_sb s))
      \<or> unat (block_bitmap_lba (part_sb s)) + unat (block_bitmap_sects (part_sb s)) \<le> unat l \<longrightarrow> d l = disk_data s l)"
    using assms
  proof (induction bs arbitrary: s)
    case Nil
    then show ?case by (intro exI [of _ "block_bitmap (cur_part s)"] exI [of _ "disk_data s"]) simp
  next
    case (Cons b bs)
    show ?case
    proof (cases "b = 0")
      case True
      then have "{x \<in> set (b # bs). x \<noteq> 0} = {x \<in> set bs. x \<noteq> 0}" by auto
      then show ?thesis using Cons.IH [OF Cons.prems(1)] Cons.prems(2) True by simp
    next
      case False
      then have b: "b \<in> data_blocks s" "0 < b - data_start_lba (part_sb s)" using Cons.prems(2) by (auto simp: word_gt_0)
      obtain m d where 1: "free_block_bit (b - data_start_lba (part_sb s)) s = Inr (upd_part (\<lambda>p. p\<lparr>block_bitmap := m\<rparr>) s\<lparr>disk_data := d\<rparr>)"
        "blocks_ok (upd_part (\<lambda>p. p\<lparr>block_bitmap := m\<rparr>) s\<lparr>disk_data := d\<rparr>)"
        "used_blocks (upd_part (\<lambda>p. p\<lparr>block_bitmap := m\<rparr>) s\<lparr>disk_data := d\<rparr>) = used_blocks s - {b}"
        "data_blocks (upd_part (\<lambda>p. p\<lparr>block_bitmap := m\<rparr>) s\<lparr>disk_data := d\<rparr>) = data_blocks s"
        "\<And>l. unat l < unat (block_bitmap_lba (part_sb s))
          \<or> unat (block_bitmap_lba (part_sb s)) + unat (block_bitmap_sects (part_sb s)) \<le> unat l \<Longrightarrow> d l = disk_data s l"
        by (rule free_block_bit_eq [OF Cons.prems(1) b(1)]) blast
      let ?s = "upd_part (\<lambda>p. p\<lparr>block_bitmap := m\<rparr>) s\<lparr>disk_data := d\<rparr>"
      have "{x \<in> set bs. x \<noteq> 0} \<subseteq> data_blocks ?s - {data_start_lba (part_sb ?s)}" using Cons.prems(2) unfolding 1(4) by auto
      from Cons.IH [OF 1(2) this] obtain m' d' where 2: "release_blocks bs ?s = Inr (upd_part (\<lambda>p. p\<lparr>block_bitmap := m'\<rparr>) ?s\<lparr>disk_data := d'\<rparr>)"
        "blocks_ok (upd_part (\<lambda>p. p\<lparr>block_bitmap := m'\<rparr>) ?s\<lparr>disk_data := d'\<rparr>)"
        "used_blocks (upd_part (\<lambda>p. p\<lparr>block_bitmap := m'\<rparr>) ?s\<lparr>disk_data := d'\<rparr>) = used_blocks ?s - {b \<in> set bs. b \<noteq> 0}"
        "data_blocks (upd_part (\<lambda>p. p\<lparr>block_bitmap := m'\<rparr>) ?s\<lparr>disk_data := d'\<rparr>) = data_blocks ?s"
        "\<forall>l. unat l < unat (block_bitmap_lba (part_sb ?s))
          \<or> unat (block_bitmap_lba (part_sb ?s)) + unat (block_bitmap_sects (part_sb ?s)) \<le> unat l \<longrightarrow> d' l = disk_data ?s l"
        by blast
      have e: "upd_part (\<lambda>p. p\<lparr>block_bitmap := m'\<rparr>) ?s\<lparr>disk_data := d'\<rparr> = upd_part (\<lambda>p. p\<lparr>block_bitmap := m'\<rparr>) s\<lparr>disk_data := d'\<rparr>"
        by simp
      have "used_blocks s - {b} - {x \<in> set bs. x \<noteq> 0} = used_blocks s - {x \<in> set (b # bs). x \<noteq> 0}" using False by auto
      then show ?thesis using False b(2) 1(1,5) 2(1,2,5) 2(3) [unfolded 1(3)] 2(4) [unfolded 1(4)]
        by (intro exI [of _ m'] exI [of _ d']) (simp add: Let_def del: set_simps)
    qed
  qed
  then show ?thesis using that by blast
qed

text \<open>The first address of the heap is that of the inode in memory; it is free again afterwards.\<close>

lemma inode_release_run:
  assumes fs: "fs_ok s" and k: "k < 4096" and closed: "find_open (open_inode (cur_part s)) k s = Inr None"
    and h: "heap s = f # b # c # h" and new: "inodes s f = None" "f \<notin> set (open_inode (cur_part s))"
    and st: "i_no (stored_inode k s) = k" "i_sectors (stored_inode k s) ! 12 = 0"
      "{b \<in> set (dir_blocks (stored_inode k s)). b \<noteq> 0} \<subseteq> data_blocks s - {data_start_lba (part_sb s)}"
  obtains s' where "inode_release k s = Inr s'" and "fs_ok s'" and "used_blocks s' = used_blocks s - {b \<in> set (dir_blocks (stored_inode k s)). b \<noteq> 0}"
    and "used_inodes s' = used_inodes s - {unat k}" and "data_blocks s' = data_blocks s"
    and "\<And>l. data_start_lba (part_sb s) \<le> l \<Longrightarrow> disk_data s' l = disk_data s l"
    and "\<And>q. q < 4096 \<Longrightarrow> q \<noteq> k \<Longrightarrow> stored_inode q s' = stored_inode q s" and "heap s' = h" and "inodes s' = inodes s"
    and "open_inode (cur_part s') = open_inode (cur_part s)" and "part_sb s' = part_sb s" and "dirs s' = dirs s" and "root_dir s' = root_dir s"
    and "file_table s' = file_table s" and "thread_fds s' = thread_fds s" and "same_layout s s'"
proof -
  note ok = fs_ok_parts [OF fs]
  have t: "table_ok s" using ok(2) by (simp add: layout_ok_def)
  let ?st = "stored_inode k s"
  let ?i = "?st\<lparr>i_open_cnts := 1\<rparr>" and ?bs = "{b \<in> set (dir_blocks ?st). b \<noteq> 0}"
  let ?s1 = "set_inode f ?i (upd_part (\<lambda>p. p\<lparr>open_inode := f # open_inode p\<rparr>) (s\<lparr>heap := c # h\<rparr>))"
  have 1: "inode_open k s = Inr (f, ?s1)" by (rule inode_open_loads [OF t k closed h])
  have e1: "part_sb ?s1 = part_sb s" "disk_data ?s1 = disk_data s" "block_bitmap (cur_part ?s1) = block_bitmap (cur_part s)"
    by (simp_all add: set_inode_def)
  have same1: "same_mem s ?s1" "inode_bitmap (cur_part ?s1) = inode_bitmap (cur_part s)" by (simp_all add: same_mem_def set_inode_def)
  have fs1: "fs_ok ?s1" using fs_ok_cong [OF same1(1) e1(2) same1(2)] fs by simp
  note ok1 = fs_ok_parts [OF fs1] and u1 = used_blocks_cong [OF e1(1,3)]
  have blocks: "all_blocks ?i ?s1 = Inr (dir_blocks ?st @ replicate 128 0)" using st(2) by (simp add: all_blocks_def dir_blocks_def)
  have "{b \<in> set (dir_blocks ?st). b \<noteq> 0} \<subseteq> data_blocks ?s1 - {data_start_lba (part_sb ?s1)}" using st(3) u1(2) e1(1) by simp
  from ok1(1) this obtain m d where 2: "release_blocks (dir_blocks ?st) ?s1 = Inr (upd_part (\<lambda>p. p\<lparr>block_bitmap := m\<rparr>) ?s1\<lparr>disk_data := d\<rparr>)"
    "blocks_ok (upd_part (\<lambda>p. p\<lparr>block_bitmap := m\<rparr>) ?s1\<lparr>disk_data := d\<rparr>)"
    "used_blocks (upd_part (\<lambda>p. p\<lparr>block_bitmap := m\<rparr>) ?s1\<lparr>disk_data := d\<rparr>) = used_blocks ?s1 - ?bs"
    "data_blocks (upd_part (\<lambda>p. p\<lparr>block_bitmap := m\<rparr>) ?s1\<lparr>disk_data := d\<rparr>) = data_blocks ?s1"
    "\<And>l. unat l < unat (block_bitmap_lba (part_sb ?s1))
      \<or> unat (block_bitmap_lba (part_sb ?s1)) + unat (block_bitmap_sects (part_sb ?s1)) \<le> unat l \<Longrightarrow> d l = disk_data ?s1 l"
    by (rule release_blocks_run) blast
  let ?s2 = "upd_part (\<lambda>p. p\<lparr>block_bitmap := m\<rparr>) ?s1\<lparr>disk_data := d\<rparr>"
  have lay: "unat (block_bitmap_lba (part_sb s)) + unat (block_bitmap_sects (part_sb s)) \<le> unat (inode_bitmap_lba (part_sb s))"
    "unat (inode_bitmap_lba (part_sb s)) < unat (inode_table_lba (part_sb s))"
    "unat (inode_table_lba (part_sb s)) + 608 \<le> unat (data_start_lba (part_sb s))"
    using ok(2,3) by (simp_all add: inodes_ok_def layout_ok_def Let_def)
  have d2: "d l = disk_data s l" if "unat (inode_bitmap_lba (part_sb s)) \<le> unat l" for l using 2(5) [of l] that lay(1) e1 by simp
  have lay2: "layout_ok ?s2" using ok1(2) 2(2) by (simp add: layout_ok_def table_ok_def blocks_ok_def Let_def)
  have st2: "stored_inode q ?s2 = stored_inode q s" if "q < 4096" for q
    by (rule stored_cong [OF ok(2) that]) (use 2(2) d2 lay(2) e1(1) in \<open>simp_all add: blocks_ok_def Let_def\<close>)
  have ib: "btmp_bytes_len (inode_bitmap (cur_part s)) = 512" "length (bits (inode_bitmap (cur_part s))) = 512"
    using ok(3) by (simp_all add: inodes_ok_def Let_def)
  have uk: "unat k < 4096" "of_nat (unat k) = k" using k by (simp_all add: word_less_nat_alt)
  have "backed (inode_bitmap (cur_part s)) (unat k)" using ib uk(1) by (intro wf_backed) (simp_all add: wf_bitmap_def)
  from bitmap_set_backed [OF this, of 0] obtain w where w: "bitmap_set (inode_bitmap (cur_part s)) (unat k) 0 = Inr w"
    "btmp_bytes_len w = 512" "length (bits w) = 512" "\<And>j. used w j \<longleftrightarrow> j \<noteq> unat k \<and> used (inode_bitmap (cur_part s)) j" using ib by auto
  let ?s3 = "upd_part (\<lambda>p. p\<lparr>inode_bitmap := w\<rparr>) ?s2"
  have b3: "blocks_ok ?s3" "layout_ok ?s3" using 2(2) lay2 by (simp_all add: blocks_ok_def layout_ok_def table_ok_def)
  have i3: "btmp_bytes_len (inode_bitmap (cur_part ?s3)) = 512" "length (bits (inode_bitmap (cur_part ?s3))) = 512" using w by simp_all
  have l3: "unat (block_bitmap_lba (part_sb ?s3)) + unat (block_bitmap_sects (part_sb ?s3)) \<le> unat (inode_bitmap_lba (part_sb ?s3))"
    "unat (inode_bitmap_lba (part_sb ?s3)) < unat (inode_table_lba (part_sb ?s3))" using lay e1(1) by simp_all
  obtain d4 where 4: "bitmap_sync (of_nat (unat k)) INODE_BITMAP ?s3 = Inr (?s3\<lparr>disk_data := d4\<rparr>)"
    "blocks_ok (?s3\<lparr>disk_data := d4\<rparr>)" "layout_ok (?s3\<lparr>disk_data := d4\<rparr>)" "inodes_ok (?s3\<lparr>disk_data := d4\<rparr>)"
    "\<And>l. data_start_lba (part_sb ?s3) \<le> l \<Longrightarrow> d4 l = disk_data ?s3 l"
    "\<And>n. n < 4096 \<Longrightarrow> stored_inode n (?s3\<lparr>disk_data := d4\<rparr>) = stored_inode n ?s3"
    "\<And>l. unat l < unat (block_bitmap_lba (part_sb ?s3)) \<Longrightarrow> d4 l = disk_data ?s3 l"
    by (rule sync_inode_bitmap [OF b3 i3 l3 uk(1)]) blast
  let ?s4 = "?s3\<lparr>disk_data := d4, heap := h\<rparr>"
  have b4: "layout_ok ?s4" "blocks_ok ?s4" using 4(2,3) by (simp_all add: blocks_ok_def layout_ok_def table_ok_def)
  obtain d5 where 5: "inode_delete k ?s4 = Inr (?s4\<lparr>disk_data := d5\<rparr>)" "blocks_ok (?s4\<lparr>disk_data := d5\<rparr>)"
    "\<And>l. data_start_lba (part_sb ?s4) \<le> l \<Longrightarrow> d5 l = disk_data ?s4 l"
    "\<And>l. unat l < unat (inode_table_lba (part_sb ?s4)) \<Longrightarrow> d5 l = disk_data ?s4 l"
    "\<And>q. q < 4096 \<Longrightarrow> q \<noteq> k \<Longrightarrow> stored_inode q (?s4\<lparr>disk_data := d5\<rparr>) = stored_inode q ?s4"
    by (rule inode_delete_keeps [OF b4 k]) blast
  let ?s5 = "?s4\<lparr>disk_data := d5\<rparr>"
  let ?s6 = "upd_part (\<lambda>q. q\<lparr>open_inode := open_inode (cur_part s)\<rparr>) ?s5\<lparr>inodes := inodes s\<rparr>"
  have in5: "inodes ?s5 = (inodes s)(f \<mapsto> ?i)" "open_inode (cur_part ?s5) = f # open_inode (cur_part s)" by (simp_all add: set_inode_def)
  have "(inodes s)(f := None) = inodes s" using new(1) by (simp add: fun_upd_idem)
  moreover have "removeAll f (f # open_inode (cur_part s)) = open_inode (cur_part s)" using new(2) by simp
  ultimately have 6: "inode_close f ?s5 = Inr ?s6" using in5 by (simp add: inode_close_def get_inode_def set_inode_def)
  have free: "free_inode_bit k ?s2 = Inr (?s3\<lparr>disk_data := d4\<rparr>)" using w(1) 4(1) uk(2) by (simp add: free_inode_bit_def)
  have "length (i_sectors ?st) = 13" by (simp add: stored_inode_def decode_inode_def Let_def)
  then have t12: "take 12 (dir_blocks ?st @ replicate 128 0) = dir_blocks ?st" by (simp add: dir_blocks_def)
  have m4: "fs_malloc (?s3\<lparr>disk_data := d4\<rparr>) = (c, ?s4)" by (simp add: fs_malloc_def set_inode_def)
  have g1: "get_inode f ?s1 = Inr ?i" by (simp add: get_inode_def set_inode_def)
  have run: "inode_release k s = Inr ?s6"
    unfolding inode_release_def 1 rbind_simps prod.case g1
    using st(1,2) blocks t12 2(1) free m4 5(1) 6 by (simp add: Let_def del: replicate.simps)
  have sb: "part_sb ?s6 = part_sb s" using e1(1) by simp
  have d6: "disk_data ?s6 = d5" by simp
  have data: "d5 l = disk_data s l" if "data_start_lba (part_sb s) \<le> l" for l
  proof -
    have "unat (inode_bitmap_lba (part_sb s)) \<le> unat l" using that lay(2,3) by (simp add: word_le_nat_alt)
    then show ?thesis using 5(3) [of l] 4(5) [of l] d2 [of l] that e1(1) by simp
  qed
  have u6: "used_blocks ?s6 = used_blocks ?s2" "data_blocks ?s6 = data_blocks ?s2" by (rule used_blocks_cong; simp)+
  have ib6: "inode_bitmap (cur_part ?s6) = w" by simp
  have "inodes_ok ?s6"
  proof -
    have "d5 (inode_bitmap_lba (part_sb s)) = d4 (inode_bitmap_lba (part_sb s))" using 5(4) lay(2) e1(1) by simp
    then show ?thesis using 4(4) e1(1) by (simp add: inodes_ok_def Let_def)
  qed
  moreover have "blocks_ok ?s6" "layout_ok ?s6" using 5(2) b4(1) by (simp_all add: blocks_ok_def layout_ok_def table_ok_def Let_def)
  moreover have "data_start_lba (part_sb s) \<in> used_blocks ?s6" using ok(4) u1(1) st(3) unfolding u6 2(3) by auto
  ultimately have "fs_ok ?s6" using sb by (simp add: fs_ok_def)
  moreover have "used_inodes ?s6 = used_inodes s - {unat k}" unfolding used_inodes_def ib6 w(4) by auto
  moreover have "stored_inode q ?s6 = stored_inode q s" if "q < 4096" "q \<noteq> k" for q
    using 5(5) [OF that] 4(6) [OF that(1)] st2 [OF that(1)] by (simp add: stored_inode_def)
  moreover have "heap ?s6 = h" "inodes ?s6 = inodes s" "open_inode (cur_part ?s6) = open_inode (cur_part s)" "dirs ?s6 = dirs s"
    "root_dir ?s6 = root_dir s" "file_table ?s6 = file_table s" "thread_fds ?s6 = thread_fds s" by (simp_all add: set_inode_def)
  moreover have "same_layout s ?s6"
  proof -
    have "d5 l = disk_data s l" if "unat l < unat (block_bitmap_lba (part_sb s))" for l
      using 5(4) [of l] 4(7) [of l] 2(5) [of l] that lay e1(1,2) by simp
    moreover have "data_blocks ?s6 = data_blocks s" using u1(2) unfolding u6 2(4) .
    ultimately show ?thesis using sb d6 by (simp add: same_layout_def set_inode_def)
  qed
  ultimately show ?thesis using data u1 by (intro that [OF run]) (simp_all only: u6 2(3,4) d6 sb)
qed

section \<open>The files of a directory\<close>

text \<open>The entries of a directory but the two of every directory.\<close>

definition files :: "inode \<Rightarrow> fs \<Rightarrow> dir_entry list" where
  "files i s = filter counted (dir_entries (disk_data s) (dir_blocks i))"

definition entry_name :: "dir_entry \<Rightarrow> str" where
  "entry_name e = takeWhile (\<lambda>c. c \<noteq> 0) (filename e)"

text \<open>A root directory that has never needed a second block, with each name and each inode once.\<close>

definition root_ok :: "inode \<Rightarrow> fs \<Rightarrow> bool" where
  "root_ok i s \<longleftrightarrow> (\<exists>b. b \<noteq> 0 \<and> dir_blocks i = b # replicate 11 0) \<and> (\<exists>e \<in> set (live i s). dotted e)
     \<and> distinct (map e_i_no (files i s)) \<and> distinct (map entry_name (files i s))"

lemma files_live: "files i s = filter counted (live i s)"
proof -
  have "counted = (\<lambda>e. f_type e \<noteq> FT_UNKNOWN \<and> counted e)" by (rule ext) (auto simp: counted_def)
  then show ?thesis unfolding files_def live_def filter_filter by (rule arg_cong)
qed

lemma entry_name_eq: "valid_name n \<Longrightarrow> has_name n e \<Longrightarrow> entry_name e = n"
proof -
  assume n: "valid_name n" and "has_name n e"
  then have "filename e = n @ 0 # drop (Suc (length n)) (filename e)"
    unfolding has_name_def by (metis append_take_drop_id append_assoc append_Cons append_Nil)
  then show ?thesis using n unfolding entry_name_def valid_name_def
    by (metis (mono_tags, lifting) takeWhile_eq_all_conv takeWhile_tail)
qed

lemma find_filter: "(\<And>x. x \<in> set xs \<Longrightarrow> P x \<Longrightarrow> Q x) \<Longrightarrow> find P (filter Q xs) = find P xs"
  by (induction xs) auto

lemma lookup_files:
  assumes "dir_ok pd p i s" and "plain_name n"
  shows "dir_lookup i n s = find (has_name n) (files i s)"
  unfolding dir_lookup_def files_def
proof (rule find_filter [symmetric])
  fix e assume e: "e \<in> set (dir_entries (disk_data s) (dir_blocks i))" "has_name n e"
  have v: "valid_name n" "valid_name (ascii ''.'')" "valid_name (ascii ''..'')"
    using assms(2) by (simp_all add: plain_name_def valid_name_def ascii_def)
  have "f_type e \<noteq> FT_UNKNOWN"
  proof
    assume "f_type e = FT_UNKNOWN"
    then have "filename e ! 0 = 0" using assms(1) e(1) by (simp add: dir_ok_def)
    then show False using v(1) e(2) by (cases n; cases "filename e") (auto simp: has_name_def valid_name_def)
  qed
  moreover have "entry_name e = n" by (rule entry_name_eq [OF v(1) e(2)])
  then have "\<not> has_name (ascii ''.'') e" "\<not> has_name (ascii ''..'') e"
    using entry_name_eq [OF v(2), of e] entry_name_eq [OF v(3), of e] assms(2) by (auto simp: plain_name_def)
  ultimately show "counted e" by (simp add: counted_def)
qed

lemma distinct_filter_nth:
  assumes "distinct (map f (filter P xs))" and "j < length xs" and "k < length xs" and "P (xs ! j)" and "P (xs ! k)" and "f (xs ! j) = f (xs ! k)"
  shows "j = k"
  using assms
proof (induction xs arbitrary: j k)
  case (Cons x xs)
  have d: "distinct (map f (filter P xs))" using Cons.prems(1) by (simp split: if_splits)
  have out: "f (xs ! m) \<noteq> f x" if "P x" "m < length xs" "P (xs ! m)" for m
  proof -
    have "xs ! m \<in> set (filter P xs)" using that(2,3) by simp
    then have "f (xs ! m) \<in> f ` set (filter P xs)" by (rule imageI)
    then show ?thesis using Cons.prems(1) that(1) by (metis distinct.simps(2) filter.simps(2) list.map(2) list.set_map)
  qed
  show ?case
  proof (cases j)
    case 0
    then show ?thesis using Cons.prems out [of "k - 1"] by (cases k) auto
  next
    case (Suc m)
    note j = Suc
    show ?thesis
    proof (cases k)
      case 0
      then show ?thesis using Cons.prems out [of m] j by auto
    next
      case (Suc l)
      have "m = l" by (rule Cons.IH [OF d]) (use Cons.prems j Suc in simp_all)
      then show ?thesis using j Suc by simp
    qed
  qed
qed simp

lemma find_removed:
  assumes "distinct (map entry_name (A @ e # B))" and "valid_name n" and "has_name n e" and "valid_name m"
  shows "find (has_name m) (A @ B) = (if m = n then None else find (has_name m) (A @ e # B))"
proof -
  note ne = entry_name_eq [OF assms(2,3)]
  have "\<not> has_name n x" if "x \<in> set (A @ B)" for x
    using entry_name_eq [OF assms(2), of x] ne assms(1) that by (auto simp: image_iff)
  then have "find (has_name n) (A @ B) = None" by (auto simp: find_None_iff)
  moreover have "\<not> has_name m e" if "m \<noteq> n" using entry_name_eq [OF assms(4), of e] ne that by auto
  ultimately show ?thesis by (cases "m = n") (simp_all add: find_append split: option.splits)
qed

section \<open>Removing a file by its path\<close>

lemma not_in_use:
  "(\<And>F. F \<in> set fs \<Longrightarrow> fd_inode F \<noteq> 0 \<Longrightarrow> \<exists>j. inodes s (fd_inode F) = Some j \<and> i_no j \<noteq> k) \<Longrightarrow> in_use k fs s = Inr False"
proof (induction fs)
  case (Cons F fs)
  have "in_use k fs s = Inr False" by (rule Cons.IH) (use Cons.prems in simp)
  then show ?case using Cons.prems [of F] by (auto simp: get_inode_def)
qed simp

lemma sys_unlink_run:
  assumes ok: "mount_ok p i s" and n: "plain_name n" and root: "root_ok i s" and e: "dir_lookup i n s = Some e" "f_type e = FT_REGULAR"
      "e_i_no e \<noteq> 0" "e_i_no e < 4096"
    and h: "heap s = x # y # w # f # b' # c # h" "x \<noteq> 0" "inodes s f = None"
    and idle: "\<And>F. F \<in> set (file_table s) \<Longrightarrow> fd_inode F \<noteq> 0 \<Longrightarrow> \<exists>j. inodes s (fd_inode F) = Some j \<and> i_no j \<noteq> e_i_no e"
    and closed: "e_i_no e \<notin> number_at s ` set (open_inode (cur_part s))"
    and st: "i_no (stored_inode (e_i_no e) s) = e_i_no e" "i_sectors (stored_inode (e_i_no e) s) ! 12 = 0"
      "{b \<in> set (dir_blocks (stored_inode (e_i_no e) s)). b \<noteq> 0} \<subseteq> data_blocks s - {data_start_lba (part_sb s)}"
    and apart: "{b \<in> set (dir_blocks (stored_inode (e_i_no e) s)). b \<noteq> 0} \<inter> set (dir_blocks i) = {}"
  obtains i' s' where "sys_unlink J (slash # n) s = Inr (0, s')" and "mount_ok p i' s'" and "\<exists>A B. live i s = A @ e # B \<and> live i' s' = A @ B"
    and "i_sectors i' = i_sectors i" and "used_inodes s' = used_inodes s - {unat (e_i_no e)}"
    and "used_blocks s' = used_blocks s - {b \<in> set (dir_blocks (stored_inode (e_i_no e) s)). b \<noteq> 0}" and "data_blocks s' = data_blocks s"
    and "stored_inode 0 s' = i'\<lparr>i_open_cnts := 0, write_deny := False\<rparr>"
    and "\<And>q. q < 4096 \<Longrightarrow> q \<noteq> 0 \<Longrightarrow> q \<noteq> e_i_no e \<Longrightarrow> stored_inode q s' = stored_inode q s"
    and "\<And>l. data_start_lba (part_sb s) \<le> l \<Longrightarrow> l \<notin> set (dir_blocks i) \<Longrightarrow> disk_data s' l = disk_data s l"
    and "heap s' = h" and "\<And>q. q \<noteq> p \<Longrightarrow> inodes s' q = inodes s q" and "open_inode (cur_part s') = open_inode (cur_part s)"
    and "file_table s' = file_table s" and "thread_fds s' = thread_fds s" and "root_dir s' = root_dir s" and "same_layout s s'"
proof -
  note M = mount_ok_parts [OF ok]
  note fs = fs_ok_parts [OF M(1)]
  obtain b where b: "b \<noteq> 0" "dir_blocks i = b # replicate 11 0" using root by (auto simp: root_ok_def)
  let ?D = "entries (disk_data s b)" and ?k = "e_i_no e"
  have D: "dir_entries (disk_data s) (dir_blocks i) = ?D" using b by (simp del: replicate.simps)
  have "e \<in> set (files i s)" using e(1) unfolding lookup_files [OF M(2) n] by (auto simp: find_Some_iff)
  then have ce: "counted e" "e \<in> set ?D" by (simp_all add: files_def D)
  then obtain k where k: "k < 21" "?D ! k = e" by (auto simp: in_set_conv_nth)
  have hk: "hit ?k (?D ! k)" using ce(1) k(2) by (simp add: hit_def)
  have dist: "distinct (map e_i_no (filter counted ?D))" using root by (simp add: root_ok_def files_def D)
  have uniq: "j = k" if "j < 21" "hit ?k (?D ! j)" for j
    by (rule distinct_filter_nth [OF dist]) (use that k ce in \<open>simp_all add: hit_def\<close>)
  obtain d where "d \<in> set ?D" "dotted d" using root by (auto simp: root_ok_def live_def D)
  then obtain j where j: "j < 21" "dotted (?D ! j)" by (auto simp: in_set_conv_nth)
  let ?s1 = "s\<lparr>heap := f # b' # c # h\<rparr>"
  have same1: "same_mem s ?s1" "disk_data ?s1 = disk_data s" "inode_bitmap (cur_part ?s1) = inode_bitmap (cur_part s)"
    by (simp_all add: same_mem_def)
  have fs1: "fs_ok ?s1" using fs_ok_cong [OF same1] M(1) by simp
  have d1: "dir_ok (root_dir s) p i ?s1" by (rule dir_ok_cong(1) [OF same1(1) fs_ok_parts(1) [OF fs1] M(2)]) simp_all
  have no: "i_no i < 256" using M(3) by simp
  have on_disk: "hit ?k (entries (disk_data ?s1 b) ! k)" "dotted (entries (disk_data ?s1 b) ! j)" using hk j(2) by simp_all
  have once: "l = k" if "l < 21" "hit ?k (entries (disk_data ?s1 b) ! l)" for l by (rule uniq [OF that(1)]) (use that(2) in simp)
  obtain i' buf m where del: "delete_dir_entry (root_dir s) ?k ?s1 = Inr (True, set_inode p i' (?s1\<lparr>disk_data := m\<rparr>))"
    "i' = i\<lparr>i_size := i_size i - 24\<rparr>" "dir_ok (root_dir s) p i' (set_inode p i' (?s1\<lparr>disk_data := m\<rparr>))"
    "entries buf = (entries (disk_data ?s1 b))[k := empty_entry]"
    "\<And>l. data_start_lba (part_sb ?s1) \<le> l \<Longrightarrow> m l = ((disk_data ?s1)(b := buf)) l"
    "\<And>l. unat l < unat (inode_table_lba (part_sb ?s1)) \<Longrightarrow> m l = disk_data ?s1 l"
    "blocks_ok (?s1\<lparr>disk_data := m\<rparr>)" "stored_inode (i_no i) (?s1\<lparr>disk_data := m\<rparr>) = i'\<lparr>i_open_cnts := 0, write_deny := False\<rparr>"
    "\<And>q. q < 4096 \<Longrightarrow> q \<noteq> i_no i \<Longrightarrow> stored_inode q (?s1\<lparr>disk_data := m\<rparr>) = stored_inode q ?s1"
    by (rule delete_dir_entry_run [OF d1 fs_ok_parts(2) [OF fs1] b(2,1) no k(1) on_disk(1) _ j(1) on_disk(2)], rule once, assumption, assumption) (rule that)
  let ?s2 = "set_inode p i' (?s1\<lparr>disk_data := m\<rparr>)"
  have i': "dir_blocks i' = dir_blocks i" "i_no i' = 0" "i_sectors i' = i_sectors i" using del(2) M(3) by (simp_all add: dir_blocks_def)
  have e2: "part_sb ?s2 = part_sb s" "block_bitmap (cur_part ?s2) = block_bitmap (cur_part s)" "disk_data ?s2 = m"
    "inode_bitmap (cur_part ?s2) = inode_bitmap (cur_part s)" "heap ?s2 = f # b' # c # h"
    "open_inode (cur_part ?s2) = open_inode (cur_part s)" "inodes ?s2 = (inodes s)(p \<mapsto> i')" by (simp_all add: set_inode_def)
  note u2 = used_blocks_cong [OF e2(1,2)]
  have bd: "data_start_lba (part_sb s) \<le> b" using dir_blocks_range [OF M(2), of b] b by simp
  have data2: "m l = ((disk_data s)(b := buf)) l" if "data_start_lba (part_sb s) \<le> l" for l using del(5) that by simp
  have low2: "m l = disk_data s l" if "unat l < unat (inode_table_lba (part_sb s))" for l using del(6) that by simp
  have st2: "stored_inode 0 ?s2 = i'\<lparr>i_open_cnts := 0, write_deny := False\<rparr>"
    "\<And>q. q < 4096 \<Longrightarrow> q \<noteq> 0 \<Longrightarrow> stored_inode q ?s2 = stored_inode q s"
    using del(8,9) M(3) by (simp_all add: stored_inode_def)
  have fs2: "fs_ok ?s2"
  proof -
    have "blocks_ok ?s2" using del(7) by simp
    moreover have "layout_ok ?s2" using fs(2) \<open>blocks_ok ?s2\<close> e2 by (simp add: layout_ok_def table_ok_def blocks_ok_def Let_def)
    moreover have "inodes_ok ?s2" using fs(3) low2 e2 by (simp add: inodes_ok_def Let_def)
    ultimately show ?thesis using fs(4) e2(1) u2(1) by (simp add: fs_ok_def)
  qed
  have num: "number_at ?s2 q = number_at s q" if "q \<in> set (open_inode (cur_part s))" for q
    using e2(7) M(3,9) i'(2) by (cases "q = p") simp_all
  have nf: "find_open (open_inode (cur_part ?s2)) ?k ?s2 = Inr None"
  proof (rule find_open_none)
    fix q assume "q \<in> set (open_inode (cur_part ?s2))"
    then have q: "q \<in> set (open_inode (cur_part s))" by (simp add: e2(6))
    then have "inodes ?s2 q \<noteq> None" using M(7) e2(7) by (simp add: opens_ok_def)
    moreover have "number_at ?s2 q \<noteq> ?k" using closed q num [OF q] by (metis imageI)
    ultimately show "\<exists>l. inodes ?s2 q = Some l \<and> i_no l \<noteq> ?k" by auto
  qed
  have fp: "f \<noteq> p" "f \<notin> set (open_inode (cur_part s))" using h(3) M(7,9) by (auto simp: opens_ok_def)
  let ?st = "stored_inode ?k s"
  let ?bs = "{b \<in> set (dir_blocks ?st). b \<noteq> 0}"
  have stk: "stored_inode ?k ?s2 = ?st" by (rule st2(2) [OF e(4,3)])
  have rel: "inodes ?s2 f = None" "f \<notin> set (open_inode (cur_part ?s2))" "i_no (stored_inode ?k ?s2) = ?k" "i_sectors (stored_inode ?k ?s2) ! 12 = 0"
    "{b \<in> set (dir_blocks (stored_inode ?k ?s2)). b \<noteq> 0} \<subseteq> data_blocks ?s2 - {data_start_lba (part_sb ?s2)}"
    using h(3) fp st unfolding stk u2(2) e2 by simp_all
  obtain s3 where s3: "inode_release ?k ?s2 = Inr s3" "fs_ok s3" "used_blocks s3 = used_blocks ?s2 - {b \<in> set (dir_blocks (stored_inode ?k ?s2)). b \<noteq> 0}"
    "used_inodes s3 = used_inodes ?s2 - {unat ?k}" "data_blocks s3 = data_blocks ?s2"
    "\<And>l. data_start_lba (part_sb ?s2) \<le> l \<Longrightarrow> disk_data s3 l = disk_data ?s2 l"
    "\<And>q. q < 4096 \<Longrightarrow> q \<noteq> ?k \<Longrightarrow> stored_inode q s3 = stored_inode q ?s2" "heap s3 = h" "inodes s3 = inodes ?s2"
    "open_inode (cur_part s3) = open_inode (cur_part ?s2)" "part_sb s3 = part_sb ?s2" "dirs s3 = dirs ?s2" "root_dir s3 = root_dir ?s2"
    "file_table s3 = file_table ?s2" "thread_fds s3 = thread_fds ?s2" "same_layout ?s2 s3"
    by (rule inode_release_run [OF fs2 e(4) nf e2(5) rel]) (rule that)
  have sb: "part_sb s3 = part_sb s" "inodes s3 = (inodes s)(p \<mapsto> i')" "open_inode (cur_part s3) = open_inode (cur_part s)"
    "dirs s3 = dirs s" "root_dir s3 = root_dir s" "file_table s3 = file_table s" "thread_fds s3 = thread_fds s"
    using s3(9-15) e2 by (simp_all add: set_inode_def)
  have bm: "b \<in> used_blocks s" "b \<notin> ?bs" using M(2) apart b by (auto simp: dir_ok_def)
  have u3: "used_blocks s3 = used_blocks s - ?bs" "used_inodes s3 = used_inodes s - {unat ?k}" "data_blocks s3 = data_blocks s"
    using s3(3-5) u2 by (simp_all add: stk used_inodes_def e2(4))
  have data3: "disk_data s3 l = ((disk_data s)(b := buf)) l" if "data_start_lba (part_sb s) \<le> l" for l
    using s3(6) [of l] data2 [OF that] that e2 by simp
  have D3: "dir_entries (disk_data s3) (dir_blocks i') = ?D[k := empty_entry]"
    using data3 [OF bd] b(1) del(4) unfolding i'(1) b(2) by (simp del: replicate.simps)
  have D2: "dir_entries (disk_data ?s2) (dir_blocks i') = ?D[k := empty_entry]"
    using data2 [OF bd] b(1) del(4) unfolding i'(1) b(2) e2(3) by (simp del: replicate.simps)
  have dir3: "dir_ok (root_dir s) p i' s3"
  proof -
    have "{x \<in> set (dir_blocks i'). x \<noteq> 0} \<subseteq> used_blocks s3" unfolding i'(1) b(2) u3(1) using bm by auto
    moreover have "get_dir (root_dir s) s3 = get_dir (root_dir s) ?s2" "get_inode p s3 = get_inode p ?s2" "part_sb s3 = part_sb ?s2"
      using s3(9,11,12) by (simp_all add: get_dir_def get_inode_def)
    ultimately show ?thesis using del(3) fs_ok_parts(1) [OF s3(2)] unfolding dir_ok_def D2 D3 by simp
  qed
  have run: "sys_unlink J (slash # n) s = Inr (0, s3)"
  proof -
    let ?s0 = "s\<lparr>heap := w # f # b' # c # h\<rparr>"
    have "search_file J (slash # n) s = Inr (?k, found_at (root_dir s) n FT_REGULAR, ?s0)"
      using search_file_top [OF M(2) n h(1,2), of J] e(1,2) by simp
    moreover have "in_use ?k (file_table ?s0) ?s0 = Inr False"
    proof (rule not_in_use)
      fix F assume F: "F \<in> set (file_table ?s0)" "fd_inode F \<noteq> 0"
      have "F \<in> set (file_table s)" using F(1) by simp
      from idle [OF this F(2)] show "\<exists>j. inodes ?s0 (fd_inode F) = Some j \<and> i_no j \<noteq> ?k" by simp
    qed
    moreover have "fs_malloc ?s0 = (w, ?s1)" by (simp add: fs_malloc_def)
    moreover have "?k \<noteq> - 1" using e(4) by auto
    moreover have "dir_close (root_dir s) s3 = Inr s3" using sb(5) by (simp add: dir_close_def)
    ultimately show ?thesis using del(1) s3(1) e(3)
      by (simp add: sys_unlink_def found_at_def FT_REGULAR_def FT_DIRECTORY_def)
  qed
  have "opens_ok s3"
  proof -
    have at: "number_at s3 q = number_at s q" "inodes s3 q \<noteq> None" if "q \<in> set (open_inode (cur_part s))" for q
      using num [OF that] M(7) that unfolding sb(2) e2(7) by (auto simp: opens_ok_def)
    moreover have "unat (number_at s q) \<noteq> unat ?k" if "q \<in> set (open_inode (cur_part s))" for q
      using closed that by (metis imageI word_unat_eq_iff)
    moreover have m: "map (number_at s3) (open_inode (cur_part s)) = map (number_at s) (open_inode (cur_part s))"
      by (rule map_cong [OF refl]) (rule at)
    ultimately show ?thesis using M(7) unfolding opens_ok_def sb(3) u3(2) m by (simp del: map_eq_conv)
  qed
  moreover have "0 \<in> used_inodes s3" using M(4) e(3) unfolding u3(2) by (auto simp: unat_eq_0)
  ultimately have ok3: "mount_ok p i' s3" using s3(2) dir3 i'(2) M(5,6) sb by (simp add: mount_ok_def)
  have "\<exists>A B. filter (\<lambda>e. f_type e \<noteq> FT_UNKNOWN) ?D = A @ ?D ! k # B
    \<and> filter (\<lambda>e. f_type e \<noteq> FT_UNKNOWN) (?D[k := empty_entry]) = A @ B"
    by (rule filter_update) (use k ce(1) empty_free in \<open>simp_all add: counted_def\<close>)
  then have lv: "\<exists>A B. live i s = A @ e # B \<and> live i' s3 = A @ B" unfolding live_def D D3 k(2) .
  show ?thesis
  proof (rule that [OF run ok3 lv i'(3) u3(2,1,3)])
    show "stored_inode 0 s3 = i'\<lparr>i_open_cnts := 0, write_deny := False\<rparr>" using s3(7) [of 0] e(3) st2(1) by simp
    show "stored_inode q s3 = stored_inode q s" if "q < 4096" "q \<noteq> 0" "q \<noteq> ?k" for q
      using s3(7) [OF that(1,3)] st2(2) [OF that(1,2)] by simp
    show "disk_data s3 l = disk_data s l" if "data_start_lba (part_sb s) \<le> l" "l \<notin> set (dir_blocks i)" for l
      using data3 [OF that(1)] that(2) b by auto
    have "same_layout s ?s2" using fs(2) low2 u2(2) e2(1,3) by (simp add: same_layout_def layout_ok_def)
    then show "same_layout s s3" using s3(16) by (rule same_layout_trans)
  qed (use s3(8) sb in simp_all)
qed

end
