(* ===== verification/Nodes.thy ===== *)
theory Nodes
  imports Unlink
begin

text \<open>
  The calls on files as a store. Behind a mounted file system with a root directory of one block and no open file there is a map from names
  to strings of bytes; creating, appending to, reading and removing a file, each a short program of system calls, are the operations
  of that map, and none of them loses a block or an inode.
\<close>

section \<open>Files that are closed\<close>

text \<open>The inode \<open>k\<close> on the disk is that of a file of less than 12 blocks; its blocks.\<close>

definition node_ok :: "u32 \<Rightarrow> fs \<Rightarrow> bool" where
  "node_ok k s \<longleftrightarrow> (let i = stored_inode k s in i_no i = k \<and> i_open_cnts i = 0 \<and> \<not> write_deny i \<and> i_sectors i ! 12 = 0
     \<and> unat (i_size i) < 6144 \<and> (i_sectors i ! 0 = 0 \<longrightarrow> i_size i = 0) \<and> distinct (file_blocks i)
     \<and> (\<forall>j < 12. length (file_blocks i) \<le> j \<longrightarrow> i_sectors i ! j = 0))"

definition owned :: "u32 \<Rightarrow> fs \<Rightarrow> u32 set" where
  "owned k s = set (file_blocks (stored_inode k s))"

text \<open>The bytes of the file.\<close>

definition node_bytes :: "u32 \<Rightarrow> fs \<Rightarrow> u8 list" where
  "node_bytes k s = file_bytes (stored_inode k s) s"

text \<open>
  Every inode and every block that is marked as used has one owner: the root directory has the inode 0, the blocks \<open>U\<close> are reserved for
  ever (among them that of the root directory), and all others belong to one of the files, whose inodes are \<open>K\<close>.
\<close>

definition nodes_ok :: "u32 set \<Rightarrow> u32 set \<Rightarrow> fs \<Rightarrow> bool" where
  "nodes_ok K U s \<longleftrightarrow> (\<forall>k \<in> K. k \<noteq> 0 \<and> k < 256 \<and> node_ok k s) \<and> used_inodes s = insert 0 (unat ` K)
     \<and> used_blocks s = U \<union> (\<Union>k \<in> K. owned k s) \<and> (\<forall>k \<in> K. owned k s \<inter> U = {})
     \<and> (\<forall>k \<in> K. \<forall>l \<in> K. k \<noteq> l \<longrightarrow> owned k s \<inter> owned l s = {})"

lemma length_stored [simp]: "length (i_sectors (stored_inode k s)) = 13"
  by (simp add: stored_inode_def decode_inode_def Let_def)

lemma node_cong:
  assumes "stored_inode k s' = stored_inode k s"
  shows "node_ok k s' = node_ok k s" and "owned k s' = owned k s"
  by (simp_all add: node_ok_def owned_def assms)

text \<open>An inode on the disk that was written from one in memory.\<close>

lemma node_stored:
  assumes "stored_inode k s = i\<lparr>i_open_cnts := 0, write_deny := False\<rparr>" and "file_ok f i s" and "i_no i = k" and "i_sectors i ! 12 = 0"
  shows "node_ok k s" and "owned k s = set (file_blocks i)" and "node_bytes k s = file_bytes i s"
proof -
  have fb: "file_blocks (i\<lparr>i_open_cnts := 0, write_deny := False\<rparr>) = file_blocks i" by (simp add: file_blocks_def)
  show "node_ok k s" using assms(2-4) unfolding node_ok_def assms(1) Let_def fb by (simp add: file_ok_def)
  show "owned k s = set (file_blocks i)" unfolding owned_def assms(1) fb ..
  show "node_bytes k s = file_bytes i s" unfolding node_bytes_def assms(1) by (simp add: file_bytes_def block_bytes_def)
qed

text \<open>The inode in memory after opening the file.\<close>

lemma node_file_ok:
  assumes n: "nodes_ok K U s" "k \<in> K" and "fs_ok s'" and "used_blocks s' = used_blocks s"
    and "get_inode f s' = Inr i" and "i_sectors i = i_sectors (stored_inode k s)" and "i_size i = i_size (stored_inode k s)"
  shows "file_ok f i s'" and "set (file_blocks i) = owned k s"
proof -
  have fb: "file_blocks i = file_blocks (stored_inode k s)" by (simp only: file_blocks_def assms(6,7))
  have "set (file_blocks i) \<subseteq> used_blocks s'" unfolding assms(4) fb using n by (auto simp: nodes_ok_def owned_def)
  then show "file_ok f i s'" using n fs_ok_parts [OF assms(3)] assms(5)
    unfolding file_ok_def fb assms(6,7) by (auto simp: nodes_ok_def node_ok_def Let_def)
  show "set (file_blocks i) = owned k s" unfolding owned_def fb ..
qed

text \<open>The blocks of a file by the array of its inode.\<close>

lemma length_node: "node_ok k s \<Longrightarrow> length (file_blocks (stored_inode k s)) \<le> 12"
proof -
  assume "node_ok k s"
  then have "unat (i_size (stored_inode k s)) < 12 * 512" by (simp add: node_ok_def Let_def)
  then have "unat (i_size (stored_inode k s)) div 512 < 12" by (rule less_mult_imp_div_less)
  then show ?thesis by (simp add: file_blocks_def)
qed

lemma owned_sectors:
  assumes "node_ok k s" and "0 \<notin> owned k s"
  shows "{b \<in> set (dir_blocks (stored_inode k s)). b \<noteq> 0} = owned k s"
proof -
  let ?i = "stored_inode k s"
  let ?n = "length (file_blocks ?i)"
  have n: "?n \<le> 12" "file_blocks ?i = take ?n (i_sectors ?i)"
  proof -
    show "?n \<le> 12" by (rule length_node [OF assms(1)])
    show "file_blocks ?i = take ?n (i_sectors ?i)" by (simp add: file_blocks_def min_def)
  qed
  have "b \<in> owned k s" if b: "b \<in> set (dir_blocks ?i)" "b \<noteq> 0" for b
  proof -
    obtain j where j: "j < 12" "b = i_sectors ?i ! j" using b(1) by (auto simp: dir_blocks_def in_set_conv_nth)
    then have "j < ?n" using assms(1) b(2) by (auto simp: node_ok_def Let_def not_le [symmetric])
    then have "b = file_blocks ?i ! j" using j(2) n(2) by (metis nth_take)
    then show ?thesis using \<open>j < ?n\<close> by (simp add: owned_def)
  qed
  moreover have "set (file_blocks ?i) \<subseteq> set (dir_blocks ?i)" unfolding dir_blocks_def
    by (subst n(2)) (rule set_take_subset_set_take [OF n(1)])
  ultimately show ?thesis using assms(2) unfolding owned_def by auto
qed

lemma node_bytes_cong:
  assumes "node_ok k s" and d: "disk_ok (disk_data s)" "disk_ok (disk_data s')" and st: "stored_inode k s' = stored_inode k s"
    and same: "\<And>b. b \<in> owned k s \<Longrightarrow> disk_data s' b = disk_data s b"
  shows "node_bytes k s' = node_bytes k s"
proof -
  let ?i = "stored_inode k s"
  have "take (unat (i_size ?i)) (concat (map (disk_data s') (take 12 (i_sectors ?i))))
      = take (unat (i_size ?i)) (concat (map (disk_data s) (take 12 (i_sectors ?i))))"
  proof (rule take_concat_cong [OF d(2,1) refl])
    fix j assume j: "512 * j < unat (i_size ?i)" "j < length (take 12 (i_sectors ?i))"
    then have "i_size ?i \<noteq> 0" by auto
    then have "file_blocks ?i = take (unat (i_size ?i) div 512 + 1) (i_sectors ?i)" using assms(1)
      by (auto simp: file_blocks_def node_ok_def Let_def)
    moreover have "j < unat (i_size ?i) div 512 + 1" by (rule block_index [OF j(1)])
    ultimately have "i_sectors ?i ! j \<in> owned k s" using j(2) by (auto simp: owned_def in_set_conv_nth intro!: exI [of _ j])
    then show "disk_data s' (take 12 (i_sectors ?i) ! j) = disk_data s (take 12 (i_sectors ?i) ! j)" using j(2) same by simp
  qed
  then show ?thesis by (simp add: node_bytes_def file_bytes_def block_bytes_def st)
qed

text \<open>A new file, a file that has grown, and a file that is gone.\<close>

lemma nodes_insert:
  assumes n: "nodes_ok K U s" and k: "k \<noteq> 0" "k < 256" "unat k \<notin> used_inodes s" "node_ok k s'"
    and ui: "used_inodes s' = insert (unat k) (used_inodes s)" and ub: "used_blocks s' = used_blocks s \<union> owned k s'"
    and new: "owned k s' \<inter> used_blocks s = {}" and st: "\<And>l. l \<in> K \<Longrightarrow> stored_inode l s' = stored_inode l s"
  shows "nodes_ok (insert k K) U s'" and "k \<notin> K"
proof -
  show "k \<notin> K" using n k(3) by (auto simp: nodes_ok_def)
  note c = node_cong [OF st]
  have "(\<Union>l \<in> K. owned l s') = (\<Union>l \<in> K. owned l s)" using c(2) by simp
  then show "nodes_ok (insert k K) U s'" using n k new unfolding nodes_ok_def ui ub
    by (auto simp: c Int_Un_distrib)
qed

lemma nodes_change:
  assumes n: "nodes_ok K U s" "k \<in> K" and ok: "node_ok k s'" and ui: "used_inodes s' = used_inodes s"
    and ub: "used_blocks s' = used_blocks s \<union> owned k s'" and own: "owned k s \<subseteq> owned k s'" "owned k s' \<subseteq> owned k s \<union> (used_blocks s' - used_blocks s)"
    and st: "\<And>l. l \<in> K \<Longrightarrow> l \<noteq> k \<Longrightarrow> stored_inode l s' = stored_inode l s"
  shows "nodes_ok K U s'"
proof -
  note c = node_cong [OF st]
  have u: "used_blocks s = U \<union> (\<Union>l \<in> K. owned l s)" using n(1) by (simp add: nodes_ok_def)
  have "(\<Union>l \<in> K. owned l s') = owned k s' \<union> (\<Union>l \<in> K - {k}. owned l s')" using n(2) by auto
  also have "(\<Union>l \<in> K - {k}. owned l s') = (\<Union>l \<in> K - {k}. owned l s)" using c(2) by auto
  finally have "used_blocks s' = U \<union> (\<Union>l \<in> K. owned l s')" using ub u n(2) own(1) by auto
  moreover have "node_ok l s'" "l \<noteq> 0" "l < 256" if "l \<in> K" for l
    using that n(1) ok c(1) [of l] by (cases "l = k"; simp add: nodes_ok_def)+
  moreover have apart: "owned k s' \<inter> owned l s' = {}" if "l \<in> K" "l \<noteq> k" for l
  proof -
    have "owned l s \<subseteq> used_blocks s" "owned k s \<inter> owned l s = {}" using n that by (auto simp: nodes_ok_def)
    then show ?thesis using own(2) c(2) [OF that] by auto
  qed
  moreover have "owned l s' \<inter> U = {}" if "l \<in> K" for l
  proof (cases "l = k")
    case True
    have "owned k s \<inter> U = {}" using n by (simp add: nodes_ok_def)
    then show ?thesis using own(2) u True by auto
  qed (use that n(1) c(2) in \<open>simp add: nodes_ok_def\<close>)
  moreover have "owned l s' \<inter> owned m s' = {}" if "l \<in> K" "m \<in> K" "l \<noteq> m" for l m
  proof (cases "l = k \<or> m = k")
    case True
    then show ?thesis using apart that by (metis Int_commute)
  next
    case False
    then show ?thesis using that n(1) c(2) by (simp add: nodes_ok_def)
  qed
  ultimately show ?thesis using n(1) unfolding nodes_ok_def ui by simp
qed

lemma nodes_delete:
  assumes n: "nodes_ok K U s" "k \<in> K" and ui: "used_inodes s' = used_inodes s - {unat k}" and ub: "used_blocks s' = used_blocks s - owned k s"
    and st: "\<And>l. l \<in> K \<Longrightarrow> l \<noteq> k \<Longrightarrow> stored_inode l s' = stored_inode l s"
  shows "nodes_ok (K - {k}) U s'"
proof -
  have c: "node_ok l s' = node_ok l s" "owned l s' = owned l s" if "l \<in> K - {k}" for l
    using that by (intro node_cong st; simp)+
  have k: "unat k \<noteq> 0" using n by (auto simp: nodes_ok_def unat_eq_0)
  have "insert 0 (unat ` K) - {unat k} = insert 0 (unat ` (K - {k}))" using k by (auto simp: word_unat_eq_iff)
  moreover have "U \<union> (\<Union>l \<in> K. owned l s) - owned k s = U \<union> (\<Union>l \<in> K - {k}. owned l s)"
  proof -
    have d: "owned l s \<inter> owned k s = {}" if "l \<in> K - {k}" for l using n that by (simp add: nodes_ok_def)
    have "(\<Union>l \<in> K. owned l s) = owned k s \<union> (\<Union>l \<in> K - {k}. owned l s)"
      by (rule UN_insert [of "\<lambda>l. owned l s" k "K - {k}", unfolded insert_Diff [OF n(2)]])
    moreover have "(\<Union>l \<in> K - {k}. owned l s) \<inter> owned k s = {}"
    proof (rule equals0I)
      fix b assume "b \<in> (\<Union>l \<in> K - {k}. owned l s) \<inter> owned k s"
      then obtain l where "l \<in> K - {k}" "b \<in> owned l s \<inter> owned k s" by (elim IntE UN_E) simp
      then show False using d by (metis empty_iff)
    qed
    moreover have "owned k s \<inter> U = {}" using n by (simp add: nodes_ok_def)
    ultimately show ?thesis by (simp add: Un_Diff Diff_triv Int_commute)
  qed
  moreover have "(\<Union>l \<in> K - {k}. owned l s) = (\<Union>l \<in> K - {k}. owned l s')" by (rule SUP_cong [OF refl]) (simp only: c(2))
  moreover have "l \<noteq> 0 \<and> l < 256 \<and> node_ok l s'" "owned l s' \<inter> U = {}" if "l \<in> K - {k}" for l
    using n(1) that by (simp_all only: nodes_ok_def c [OF that], blast+)
  moreover have "owned l s' \<inter> owned m s' = {}" if "l \<in> K - {k}" "m \<in> K - {k}" "l \<noteq> m" for l m
    using n(1) that(1,2) that(3) unfolding c(2) [OF that(1)] c(2) [OF that(2)] by (simp add: nodes_ok_def)
  ultimately show ?thesis using n(1) unfolding nodes_ok_def ui ub by (intro conjI ballI impI) simp_all
qed

text \<open>There is room for another file.\<close>

lemma nodes_room:
  assumes n: "nodes_ok K U s" and K: "finite K" "card K \<le> m" and U: "240 \<le> card (data_blocks s - U)"
  shows "240 \<le> card (data_blocks s - used_blocks s) + 12 * m" and "card (used_inodes s) \<le> m + 1"
proof -
  have "card (owned k s) \<le> 12" if "k \<in> K" for k
  proof -
    have "length (file_blocks (stored_inode k s)) \<le> 12" using n that by (intro length_node) (simp add: nodes_ok_def)
    then show ?thesis unfolding owned_def using card_length order_trans by blast
  qed
  then have "card (\<Union>k \<in> K. owned k s) \<le> 12 * card K" using card_UN_le [OF K(1), of "\<lambda>k. owned k s"] sum_bounded_above [of K "\<lambda>k. card (owned k s)" 12]
    by (simp add: mult.commute)
  then have c: "card (\<Union>k \<in> K. owned k s) \<le> 12 * m" using K(2) by linarith
  have f: "finite (\<Union>k \<in> K. owned k s)" using K(1) by (simp add: owned_def)
  have "data_blocks s - used_blocks s = (data_blocks s - U) - (\<Union>k \<in> K. owned k s)" using n by (auto simp: nodes_ok_def)
  then have "card (data_blocks s - U) - card (\<Union>k \<in> K. owned k s) \<le> card (data_blocks s - used_blocks s)"
    using diff_card_le_card_Diff [OF f, of "data_blocks s - U"] by simp
  then show "240 \<le> card (data_blocks s - used_blocks s) + 12 * m" using U c by linarith
  have "card (unat ` K) \<le> card K" by (rule card_image_le [OF K(1)])
  then have "card (insert 0 (unat ` K)) \<le> card K + 1" using K(1) by (simp add: card_insert_if)
  then show "card (used_inodes s) \<le> m + 1" using n K(2) by (simp add: nodes_ok_def)
qed

section \<open>The names\<close>

text \<open>The entries of the root directory that are files all have a name of their own.\<close>

definition tree_ok :: "inode \<Rightarrow> fs \<Rightarrow> bool" where
  "tree_ok i s \<longleftrightarrow> root_ok i s \<and> length (live i s) = length (files i s) + 2
     \<and> (\<forall>e \<in> set (files i s). f_type e = FT_REGULAR \<and> plain_name (entry_name e) \<and> has_name (entry_name e) e)"

text \<open>The map from names to bytes that the file system stands for.\<close>

definition contents :: "inode \<Rightarrow> fs \<Rightarrow> str \<Rightarrow> u8 list option" where
  "contents i s n = (if plain_name n then map_option (\<lambda>e. node_bytes (e_i_no e) s) (find (has_name n) (files i s)) else None)"

definition numbers :: "inode \<Rightarrow> fs \<Rightarrow> u32 set" where
  "numbers i s = e_i_no ` set (files i s)"

lemma plain_valid: "plain_name n \<Longrightarrow> valid_name n"
  by (simp add: plain_name_def)

lemma lookup_iff:
  assumes "tree_ok i s" and "plain_name n"
  shows "find (has_name n) (files i s) = Some e \<longleftrightarrow> e \<in> set (files i s) \<and> entry_name e = n"
proof
  assume "find (has_name n) (files i s) = Some e"
  then have "e \<in> set (files i s)" "has_name n e" by (auto simp: find_Some_iff)
  then show "e \<in> set (files i s) \<and> entry_name e = n" using entry_name_eq plain_valid [OF assms(2)] by blast
next
  assume e: "e \<in> set (files i s) \<and> entry_name e = n"
  then have "has_name n e" using assms(1) by (auto simp: tree_ok_def)
  then obtain d where d: "find (has_name n) (files i s) = Some d" using e find_None_iff [of "has_name n" "files i s"] by (metis not_Some_eq)
  then have "d \<in> set (files i s)" "has_name n d" by (auto simp: find_Some_iff)
  then have "d \<in> set (files i s)" "entry_name d = n" using entry_name_eq plain_valid [OF assms(2)] by blast+
  moreover have "inj_on entry_name (set (files i s))" using assms(1) by (simp add: tree_ok_def root_ok_def distinct_map)
  ultimately show "find (has_name n) (files i s) = Some e" using e d by (metis inj_onD)
qed

lemma contents_Some:
  assumes "tree_ok i s"
  shows "contents i s n = Some b \<longleftrightarrow> (\<exists>e \<in> set (files i s). entry_name e = n \<and> node_bytes (e_i_no e) s = b)"
proof (cases "plain_name n")
  case True
  then show ?thesis using lookup_iff [OF assms True] by (auto simp: contents_def)
next
  case False
  then show ?thesis using assms by (auto simp: contents_def tree_ok_def)
qed

lemma contents_None: "tree_ok i s \<Longrightarrow> contents i s n = None \<longleftrightarrow> n \<notin> entry_name ` set (files i s)"
  using contents_Some [of i s n] by (cases "contents i s n") auto

lemma contents_lookup:
  assumes "tree_ok i s" and "dir_ok pd p i s" and "plain_name n"
  shows "contents i s n = map_option (\<lambda>e. node_bytes (e_i_no e) s) (dir_lookup i n s)"
  using assms(3) unfolding lookup_files [OF assms(2,3)] by (simp add: contents_def)

lemma card_contents:
  assumes "tree_ok i s"
  shows "card (dom (contents i s)) = length (files i s)" and "finite (numbers i s)" and "card (numbers i s) = length (files i s)"
proof -
  have "dom (contents i s) = entry_name ` set (files i s)" by (rule set_eqI) (simp only: dom_def mem_Collect_eq contents_None [OF assms] not_not)
  moreover have "distinct (map entry_name (files i s))" "distinct (map e_i_no (files i s))" using assms by (simp_all add: tree_ok_def root_ok_def)
  ultimately show "card (dom (contents i s)) = length (files i s)" "card (numbers i s) = length (files i s)"
    using distinct_card [of "map entry_name (files i s)"] distinct_card [of "map e_i_no (files i s)"] by (simp_all add: numbers_def)
  show "finite (numbers i s)" by (simp add: numbers_def)
qed

text \<open>Adding an entry and taking one away.\<close>

lemma new_entry_file:
  assumes "plain_name n"
  shows "counted (new_entry n k FT_REGULAR)" and "entry_name (new_entry n k FT_REGULAR) = n" and "has_name n (new_entry n k FT_REGULAR)"
    and "f_type (new_entry n k FT_REGULAR) = FT_REGULAR" and "e_i_no (new_entry n k FT_REGULAR) = k"
proof -
  let ?e = "new_entry n k FT_REGULAR"
  have v: "valid_name n" "valid_name (ascii ''.'')" "valid_name (ascii ''..'')" using assms by (simp_all add: plain_name_def valid_name_def ascii_def)
  have f: "filename ?e = n @ replicate (16 - length n) 0" by (simp add: new_entry_def)
  note h = has_name_iff [OF _ v(1) f]
  show "has_name n ?e" using h [OF v(1)] by simp
  then show "entry_name ?e = n" by (rule entry_name_eq [OF v(1)])
  show "counted ?e" using h [OF v(2)] h [OF v(3)] assms
    by (auto simp: counted_def plain_name_def) (simp add: new_entry_def FT_REGULAR_def FT_UNKNOWN_def)
qed (simp_all add: new_entry_def)

lemma tree_insert:
  assumes t: "tree_ok i s" and n: "plain_name n" "n \<notin> entry_name ` set (files i s)" and k: "k \<notin> numbers i s"
    and l: "live i s = A @ B" "live i' s' = A @ new_entry n k FT_REGULAR # B" and i': "i_sectors i' = i_sectors i"
  shows "tree_ok i' s'" and "set (files i' s') = insert (new_entry n k FT_REGULAR) (set (files i s))" and "numbers i' s' = insert k (numbers i s)"
proof -
  note e = new_entry_file [OF n(1), of k]
  have f: "files i s = filter counted A @ filter counted B" "files i' s' = filter counted A @ new_entry n k FT_REGULAR # filter counted B"
    using e(1) by (simp_all add: files_live l)
  show s: "set (files i' s') = insert (new_entry n k FT_REGULAR) (set (files i s))" by (simp add: f)
  show "numbers i' s' = insert k (numbers i s)" unfolding numbers_def s using e(5) by simp
  have "dir_blocks i' = dir_blocks i" using i' by (simp add: dir_blocks_def)
  moreover have "length (live i' s') = length (files i' s') + 2" using t by (simp add: tree_ok_def f l)
  moreover have "\<exists>d \<in> set (live i' s'). dotted d" using t by (auto simp: tree_ok_def root_ok_def l)
  moreover have "distinct (map e_i_no (files i' s'))" using t k e(5) by (auto simp: tree_ok_def root_ok_def numbers_def f)
  moreover have "distinct (map entry_name (files i' s'))" using t n(2) e(2) by (auto simp: tree_ok_def root_ok_def f)
  ultimately show "tree_ok i' s'" using t n(1) e(2-4) unfolding tree_ok_def root_ok_def s by auto
qed

lemma tree_delete:
  assumes t: "tree_ok i s" and e: "e \<in> set (files i s)" and l: "live i s = A @ e # B" "live i' s' = A @ B" and i': "i_sectors i' = i_sectors i"
  shows "tree_ok i' s'" and "set (files i' s') = set (files i s) - {e}" and "numbers i' s' = numbers i s - {e_i_no e}"
proof -
  have c: "counted e" using e by (simp add: files_live)
  have f: "files i s = filter counted A @ e # filter counted B" "files i' s' = filter counted A @ filter counted B"
    using c by (simp_all add: files_live l)
  have d: "distinct (map e_i_no (files i s))" "distinct (map entry_name (files i s))" using t by (simp_all add: tree_ok_def root_ok_def)
  then have "distinct (files i s)" by (simp add: distinct_map)
  then show s: "set (files i' s') = set (files i s) - {e}" by (auto simp: f)
  have "e_i_no ` (set (files i s) - {e}) = e_i_no ` set (files i s) - e_i_no ` {e}"
    by (rule inj_on_image_set_diff [of _ "set (files i s)"]) (use d e in \<open>auto simp: distinct_map\<close>)
  then show "numbers i' s' = numbers i s - {e_i_no e}" unfolding numbers_def s by simp
  have "dir_blocks i' = dir_blocks i" using i' by (simp add: dir_blocks_def)
  moreover have "length (live i' s') = length (files i' s') + 2" using t by (simp add: tree_ok_def f l)
  moreover have "\<not> dotted e" using c by (simp add: counted_def dotted_def)
  then have "\<exists>d \<in> set (live i' s'). dotted d" using t by (auto simp: tree_ok_def root_ok_def l)
  moreover have "distinct (map e_i_no (files i' s'))" "distinct (map entry_name (files i' s'))" using d by (simp_all add: f)
  ultimately show "tree_ok i' s'" using t unfolding tree_ok_def root_ok_def s by auto
qed

lemma tree_cong: "i_sectors i' = i_sectors i \<Longrightarrow> live i' s' = live i s \<Longrightarrow> tree_ok i' s' = tree_ok i s \<and> files i' s' = files i s \<and> numbers i' s' = numbers i s"
  by (simp add: tree_ok_def root_ok_def files_live numbers_def dir_blocks_def)

text \<open>The block of the root directory has 21 entries.\<close>

lemma tree_room:
  assumes "tree_ok i s" and "length (files i s) < 19"
  shows "\<exists>b \<in> set (takeWhile (\<lambda>b. b \<noteq> 0) (dir_blocks i)). free_slot (disk_data s) b"
proof -
  obtain b where b: "b \<noteq> 0" "dir_blocks i = b # replicate 11 0" using assms(1) by (auto simp: tree_ok_def root_ok_def)
  let ?D = "entries (disk_data s b)"
  have l: "live i s = filter (\<lambda>e. f_type e \<noteq> FT_UNKNOWN) ?D" using b by (simp add: live_def del: replicate.simps)
  have "length (live i s) < length ?D" using assms by (simp add: tree_ok_def)
  then have "\<exists>e \<in> set ?D. f_type e = FT_UNKNOWN" unfolding l by (metis (mono_tags, lifting) filter_True less_irrefl)
  then show ?thesis using b by (auto simp: free_slot_def)
qed

end
