(* ===== verification/Store.thy ===== *)
theory Store
  imports Nodes
begin

text \<open>
  The calls on files as operations of a store. Creating a file, appending to it, reading it and removing it, each a short program of
  system calls, behave on a mounted file system as on a map from names to strings of bytes, in any order; no block and no inode is lost.
\<close>

section \<open>The invariant\<close>

text \<open>The blocks \<open>U\<close> that belong to no file, among them that of the root directory; at least 240 others are there.\<close>

definition reserved :: "inode \<Rightarrow> u32 set \<Rightarrow> fs \<Rightarrow> bool" where
  "reserved i U s \<longleftrightarrow> set (dir_blocks i) - {0} \<subseteq> U \<and> data_start_lba (part_sb s) \<in> U \<and> 240 \<le> card (data_blocks s - U)"

definition files_ok :: "u32 \<Rightarrow> inode \<Rightarrow> u32 set \<Rightarrow> fs \<Rightarrow> bool" where
  "files_ok p i U s \<longleftrightarrow> mount_ok p i s \<and> tree_ok i s \<and> nodes_ok (numbers i s) U s \<and> reserved i U s
     \<and> stored_inode 0 s = i\<lparr>i_open_cnts := 0, write_deny := False\<rparr>"

text \<open>No file is open, or just one.\<close>

definition store_ok :: "u32 \<Rightarrow> inode \<Rightarrow> u32 set \<Rightarrow> fs \<Rightarrow> bool" where
  "store_ok p i U s \<longleftrightarrow> files_ok p i U s \<and> slots s \<and> open_inode (cur_part s) = [p] \<and> (\<forall>q. q \<noteq> p \<longrightarrow> inodes s q = None)
     \<and> (\<forall>F \<in> set (file_table s). fd_inode F = 0)"

definition one_open :: "u32 \<Rightarrow> inode \<Rightarrow> u32 set \<Rightarrow> nat \<Rightarrow> nat \<Rightarrow> open_file \<Rightarrow> inode \<Rightarrow> fs \<Rightarrow> bool" where
  "one_open p i U g j F fi s \<longleftrightarrow> files_ok p i U s \<and> opened g j F s \<and> fd_inode F \<noteq> p \<and> get_inode (fd_inode F) s = Inr fi
     \<and> i_open_cnts fi = 1 \<and> open_inode (cur_part s) = [fd_inode F, p] \<and> (\<forall>q. q \<noteq> p \<and> q \<noteq> fd_inode F \<longrightarrow> inodes s q = None)
     \<and> (\<exists>ft. file_table s = ft[j := F] \<and> (\<forall>G \<in> set ft. fd_inode G = 0))"

lemma files_okD:
  assumes "files_ok p i U s"
  shows "mount_ok p i s" and "tree_ok i s" and "nodes_ok (numbers i s) U s" and "reserved i U s"
    and "stored_inode 0 s = i\<lparr>i_open_cnts := 0, write_deny := False\<rparr>" and "dir_ok (root_dir s) p i s" and "disk_ok (disk_data s)"
  using assms mount_ok_parts(2) [of p i s] by (simp_all add: files_ok_def dir_ok_def blocks_ok_def Let_def)

text \<open>What depends on the disk and the bitmaps only.\<close>

lemma nodes_cong:
  assumes "used_inodes s' = used_inodes s" and "used_blocks s' = used_blocks s" and "\<And>k. stored_inode k s' = stored_inode k s"
  shows "nodes_ok K U s' = nodes_ok K U s"
  using assms by (simp add: nodes_ok_def node_cong [OF assms(3)])

lemma files_cong:
  assumes f: "files_ok p i U s" and sd: "same_disk s s'" and ok: "mount_ok p i s'"
  shows "files_ok p i U s'" and "contents i s' = contents i s"
proof -
  note d = same_disk [OF sd]
  have "data_blocks s' = data_blocks s" using sd by (intro used_blocks_cong) (simp_all add: same_disk_def)
  then have "reserved i U s'" using files_okD(4) [OF f] d(2) by (simp add: reserved_def)
  moreover have "live i s' = live i s" by (simp add: live_def d(1))
  then have t: "tree_ok i s' = tree_ok i s" "files i s' = files i s" "numbers i s' = numbers i s" using tree_cong [of i i s' s] by simp_all
  moreover have "nodes_ok K U s' = nodes_ok K U s" for K by (rule nodes_cong) (simp_all add: d)
  ultimately show "files_ok p i U s'" using f ok by (simp add: files_ok_def d(6))
  show "contents i s' = contents i s" by (rule ext) (simp add: contents_def t(2) node_bytes_def file_bytes_def block_bytes_def d(1,6))
qed

lemma mount_ok_heap: "mount_ok p i s \<Longrightarrow> mount_ok p i (s\<lparr>heap := h\<rparr>)"
  using mount_ok_file [of p i s 0 "file_table s ! 0" h] by (simp add: set_file_def)

lemma store_heap:
  assumes "store_ok p i U s"
  shows "store_ok p i U (s\<lparr>heap := h\<rparr>)" and "contents i (s\<lparr>heap := h\<rparr>) = contents i s" and "same_layout s (s\<lparr>heap := h\<rparr>)"
proof -
  have f: "files_ok p i U s" using assms by (simp add: store_ok_def)
  have sd: "same_disk s (s\<lparr>heap := h\<rparr>)" by (simp add: same_disk_def)
  note c = files_cong [OF f sd mount_ok_heap [OF files_okD(1) [OF f]]]
  show "contents i (s\<lparr>heap := h\<rparr>) = contents i s" by (rule c)
  show "store_ok p i U (s\<lparr>heap := h\<rparr>)" using c(1) assms by (simp add: store_ok_def slots_def)
  show "same_layout s (s\<lparr>heap := h\<rparr>)" by (simp add: same_layout_def data_blocks_def block_cnt_def block_def)
qed

section \<open>Opening and closing\<close>

text \<open>A file of the store.\<close>

lemma store_file:
  assumes "files_ok p i U s" and "contents i s n = Some bs"
  obtains e where "plain_name n" and "dir_lookup i n s = Some e" and "e \<in> set (files i s)" and "entry_name e = n" and "f_type e = FT_REGULAR"
    and "e_i_no e \<in> numbers i s" and "e_i_no e \<noteq> 0" and "e_i_no e < 256" and "e_i_no e < 4096" and "node_ok (e_i_no e) s" and "node_bytes (e_i_no e) s = bs"
    and "unat (e_i_no e) \<in> used_inodes s"
proof -
  note f = files_okD [OF assms(1)]
  obtain e where e: "e \<in> set (files i s)" "entry_name e = n" "node_bytes (e_i_no e) s = bs" using assms(2) contents_Some [OF f(2)] by blast
  have p: "plain_name n" "f_type e = FT_REGULAR" using f(2) e(1,2) by (auto simp: tree_ok_def)
  have l: "dir_lookup i n s = Some e" using lookup_iff [OF f(2) p(1)] e(1,2) lookup_files [OF f(6) p(1)] by simp
  have k: "e_i_no e \<in> numbers i s" using e(1) by (simp add: numbers_def)
  then have n: "e_i_no e \<noteq> 0" "e_i_no e < 256" "node_ok (e_i_no e) s" "unat (e_i_no e) \<in> used_inodes s" using f(3) by (simp_all add: nodes_ok_def)
  have "e_i_no e < 4096" by (rule less_trans [OF n(2)]) simp
  then show ?thesis by (rule that [OF p(1) l e(1,2) p(2) k n(1,2) _ n(3) e(3) n(4)])
qed

lemma not_minus_one: "g < 8 \<Longrightarrow> of_nat g \<noteq> (- 1 :: u32)"
  using small_word [of g] by auto

lemma store_open_run:
  assumes st: "store_ok p i U s" and c: "contents i s n = Some bs" and J: "length (junk_name J) = 16"
    and h: "heap s = x # y # f # z # h" "x \<noteq> 0" "f \<noteq> p" and fl: "flags \<le> 7" "flags AND O_CREAT = 0"
  obtains g j fi k s' where "sys_open J (slash # n) flags s = Inr (of_nat g, s')" and "g < 8"
    and "one_open p i U g j \<lparr>fd_pos = 0, fd_flag = flags, fd_inode = f\<rparr> fi s'" and "same_disk s s'" and "contents i s' = contents i s"
    and "heap s' = h" and "same_layout s s'" and "k \<in> numbers i s'" and "file_ok f fi s'" and "file_bytes fi s' = bs" and "set (file_blocks fi) = owned k s'"
    and "i_no fi = k" and "i_sectors fi ! 12 = 0" and "\<forall>d \<in> set (files i s'). entry_name d \<noteq> n \<longrightarrow> e_i_no d \<noteq> k"
    and "\<exists>d \<in> set (files i s'). entry_name d = n \<and> e_i_no d = k"
proof -
  have S: "files_ok p i U s" "slots s" "open_inode (cur_part s) = [p]" "\<forall>q. q \<noteq> p \<longrightarrow> inodes s q = None" "\<forall>F \<in> set (file_table s). fd_inode F = 0"
    using st by (simp_all add: store_ok_def)
  note f = files_okD [OF S(1)] and M = mount_ok_parts [OF files_okD(1) [OF S(1)]]
  obtain e where e: "plain_name n" "dir_lookup i n s = Some e" "e \<in> set (files i s)" "entry_name e = n" "f_type e = FT_REGULAR"
    "e_i_no e \<in> numbers i s" "e_i_no e \<noteq> 0" "e_i_no e < 256" "e_i_no e < 4096" "node_ok (e_i_no e) s" "node_bytes (e_i_no e) s = bs"
    "unat (e_i_no e) \<in> used_inodes s" by (rule store_file [OF S(1) c])
  let ?k = "e_i_no e" and ?F = "\<lparr>fd_pos = 0, fd_flag = flags, fd_inode = f\<rparr>"
  let ?st = "stored_inode ?k s"
  have no: "i_no ?st = ?k" "\<not> write_deny ?st" "i_sectors ?st ! 12 = 0" using e(10) by (simp_all add: node_ok_def Let_def)
  have new: "?k \<notin> number_at s ` set (open_inode (cur_part s))" "inodes s f = None" using S(3,4) M(3,9) e(7) h(3) by simp_all
  obtain g j s' where o: "sys_open J (slash # n) flags s = Inr (of_nat g, s')" "opened g j ?F s'"
    "get_inode f s' = Inr (if for_writing flags then ?st\<lparr>i_open_cnts := 1, write_deny := True\<rparr> else ?st\<lparr>i_open_cnts := 1\<rparr>)"
    "disk_data s' = disk_data s" "part_sb s' = part_sb s" "block_bitmap (cur_part s') = block_bitmap (cur_part s)"
    "inode_bitmap (cur_part s') = inode_bitmap (cur_part s)" "heap s' = h" "mount_ok p i s'" "open_inode (cur_part s') = f # open_inode (cur_part s)"
    "\<And>q. q \<noteq> f \<Longrightarrow> inodes s' q = inodes s q" "file_table s' = (file_table s)[j := ?F]" "same_layout s s'"
    by (rule sys_open_file_run [OF f(1) e(1,2,5,9) S(2) J h(1,2) fl _ new no(1) e(12)]) (use no(2) in \<open>simp, blast\<close>)
  define fi where "fi = (if for_writing flags then ?st\<lparr>i_open_cnts := 1, write_deny := True\<rparr> else ?st\<lparr>i_open_cnts := 1\<rparr>)"
  have fi: "get_inode f s' = Inr fi" "i_sectors fi = i_sectors ?st" "i_size fi = i_size ?st" "i_no fi = ?k" "i_open_cnts fi = 1"
    using o(3) no(1) by (simp_all add: fi_def)
  have sd: "same_disk s s'" using o(4-7) by (simp add: same_disk_def)
  note fc = files_cong [OF S(1) sd o(9)] and d = same_disk [OF sd]
  have one: "one_open p i U g j ?F fi s'" using fc(1) o(2,10) fi h(3) S(3) unfolding one_open_def
    by (simp add: o(11)) (use S(4,5) o(12) in blast)
  note nf = node_file_ok [OF f(3) e(6) mount_ok_parts(1) [OF o(9)] d(3) fi(1-3)]
  have own: "owned ?k s' = owned ?k s" by (rule node_cong) (rule d)
  have fs: "files i s' = files i s" by (simp add: files_def d(1))
  have "file_bytes fi s' = bs" using e(11) by (simp add: node_bytes_def file_bytes_def block_bytes_def fi(2,3) d(1))
  moreover have "\<forall>x \<in> set (files i s'). entry_name x \<noteq> n \<longrightarrow> e_i_no x \<noteq> ?k"
  proof (intro ballI impI notI)
    fix x assume x: "x \<in> set (files i s')" "entry_name x \<noteq> n" "e_i_no x = ?k"
    have "inj_on e_i_no (set (files i s))" using f(2) by (simp add: tree_ok_def root_ok_def distinct_map)
    then have "x = e" using x(1,3) e(3) unfolding fs by (metis inj_onD)
    then show False using x(2) e(4) by simp
  qed
  moreover have "g < 8" using o(2) by (simp add: opened_def)
  ultimately show ?thesis using o(1,8,13) one sd fc(2) e(3,4,6) nf own fi(2,4) no(3) fs
    by (intro that [of g s' j fi ?k]) (auto simp: numbers_def)
qed

lemma store_close_run:
  assumes "one_open p i U g j F fi s"
  obtains s' where "sys_close (of_nat g) s = Inr (0, s')" and "store_ok p i U s'" and "contents i s' = contents i s" and "heap s' = heap s"
    and "same_layout s s'"
proof -
  obtain ft where o: "files_ok p i U s" "opened g j F s" "fd_inode F \<noteq> p" "get_inode (fd_inode F) s = Inr fi" "i_open_cnts fi = 1"
    "open_inode (cur_part s) = [fd_inode F, p]" "\<forall>q. q \<noteq> p \<and> q \<noteq> fd_inode F \<longrightarrow> inodes s q = None"
    "file_table s = ft[j := F]" "\<forall>G \<in> set ft. fd_inode G = 0" using assms by (auto simp: one_open_def)
  let ?s = "closed g j F [p] s"
  have ps: "fd_inode F \<notin> set [p]" using o(3) by simp
  have run: "sys_close (of_nat g) s = Inr (0, ?s)" by (rule sys_close_run [OF o(2,4,5,6) ps])
  note c = closed_ok [OF files_okD(1) [OF o(1)] o(2,3,6) ps]
  have sd: "same_disk s ?s" by (simp add: same_disk_def) (simp add: closed_def)
  note f = files_cong [OF o(1) sd c(1)]
  have "file_table ?s = ft[j := F\<lparr>fd_inode := 0\<rparr>]" by (simp add: closed_def o(8))
  then have "fd_inode G = 0" if "G \<in> set (file_table ?s)" for G
    using that o(9) set_update_subset_insert [of ft j "F\<lparr>fd_inode := 0\<rparr>"] by auto
  then have "store_ok p i U ?s" using f(1) c(3) o(7) by (simp add: store_ok_def)
  then show ?thesis using f(2) by (intro that [OF run]) (simp_all add: closed_layout)
qed

section \<open>The operations\<close>

lemma contents_insert:
  assumes t: "tree_ok i s" "tree_ok i' s'" and f: "set (files i' s') = insert e (set (files i s))" and n: "entry_name e = n" "n \<notin> entry_name ` set (files i s)"
    and b: "node_bytes (e_i_no e) s' = bs" "\<And>k. k \<in> numbers i s \<Longrightarrow> node_bytes k s' = node_bytes k s"
  shows "contents i' s' = (contents i s)(n \<mapsto> bs)"
proof (rule ext)
  fix m
  have "contents i' s' m = Some c \<longleftrightarrow> ((contents i s)(n \<mapsto> bs)) m = Some c" for c
  proof (cases "m = n")
    case True
    have "(\<exists>d \<in> set (files i' s'). entry_name d = n \<and> node_bytes (e_i_no d) s' = c) \<longleftrightarrow> bs = c"
      unfolding f bex_simps using n b(1) by (metis imageI)
    then show ?thesis using True by (simp add: contents_Some [OF t(2)])
  next
    case False
    have "node_bytes (e_i_no d) s' = node_bytes (e_i_no d) s" if "d \<in> set (files i s)" for d using that by (intro b(2)) (simp add: numbers_def)
    then have "(\<exists>d \<in> set (files i' s'). entry_name d = m \<and> node_bytes (e_i_no d) s' = c)
        \<longleftrightarrow> (\<exists>d \<in> set (files i s). entry_name d = m \<and> node_bytes (e_i_no d) s = c)" unfolding f using n(1) False by auto
    then show ?thesis using False by (simp add: contents_Some [OF t(1)] contents_Some [OF t(2)])
  qed
  then show "contents i' s' m = ((contents i s)(n \<mapsto> bs)) m" by (metis not_Some_eq)
qed

text \<open>Blocks of files keep their bytes when only others are written.\<close>

lemma nodes_bytes:
  assumes n: "nodes_ok K U s" "k \<in> K" and d: "disk_ok (disk_data s)" "disk_ok (disk_data s')" and st: "stored_inode k s' = stored_inode k s"
    and w: "\<And>l. l \<in> used_blocks s - W \<Longrightarrow> disk_data s' l = disk_data s l" and a: "owned k s \<inter> W = {}"
  shows "node_bytes k s' = node_bytes k s"
proof (rule node_bytes_cong [OF _ d st])
  show "node_ok k s" using n by (simp add: nodes_ok_def)
  fix b assume "b \<in> owned k s"
  then show "disk_data s' b = disk_data s b" using n a by (intro w) (auto simp: nodes_ok_def)
qed

lemma nodes_disjoint: "nodes_ok K U s \<Longrightarrow> k \<in> K \<Longrightarrow> l \<in> K \<Longrightarrow> k \<noteq> l \<Longrightarrow> owned k s \<inter> owned l s = {}"
  by (simp add: nodes_ok_def)

lemma owned_nonzero: "nodes_ok K U s \<Longrightarrow> blocks_ok s \<Longrightarrow> k \<in> K \<Longrightarrow> 0 \<notin> owned k s"
  using used_block_range(1) [of s 0] by (auto simp: nodes_ok_def)

lemma owned_dir:
  assumes "files_ok p i U s" and "k \<in> numbers i s"
  shows "owned k s \<inter> set (dir_blocks i) = {}"
proof -
  note f = files_okD [OF assms(1)]
  have "0 \<notin> owned k s" by (rule owned_nonzero [OF f(3) fs_ok_parts(1) [OF mount_ok_parts(1) [OF f(1)]] assms(2)])
  moreover have "owned k s \<inter> U = {}" using f(3) assms(2) by (simp add: nodes_ok_def)
  ultimately show ?thesis using f(4) by (auto simp: reserved_def)
qed

lemma store_put_run:
  assumes st: "store_ok p i U s" and n: "plain_name n" "contents i s n = None" and few: "card (dom (contents i s)) < 19"
    and J: "length (junk_name J) = 16" and len: "length src < 6144"
    and h: "heap s = [x, y, a, f, b1, b2, b3] @ h" "0 \<notin> {x, a, f, b1, b2, b3}" "f \<noteq> p"
  obtains g s1 s2 s3 i' where "sys_open J (slash # n) (O_CREAT OR O_RDWR) s = Inr (of_nat g, s1)" and "g < 8"
    and "sys_write (of_nat g) src s1 = Inr (of_nat (length src), [], s2)" and "sys_close (of_nat g) s2 = Inr (0, s3)" and "store_ok p i' U s3"
    and "contents i' s3 = (contents i s)(n \<mapsto> src)" and "heap s3 = h" and "same_layout s s3"
proof -
  have S: "files_ok p i U s" "slots s" "open_inode (cur_part s) = [p]" "\<forall>q. q \<noteq> p \<longrightarrow> inodes s q = None" "\<forall>F \<in> set (file_table s). fd_inode F = 0"
    using st by (simp_all add: store_ok_def)
  note f = files_okD [OF S(1)]
  have U: "240 \<le> card (data_blocks s - U)" using f(4) by (simp add: reserved_def)
  have K: "finite (numbers i s)" "card (numbers i s) \<le> 18" "length (files i s) < 19" using card_contents [OF f(2)] few by simp_all
  note r = nodes_room [OF f(3) K(1,2) U]
  have slot: "\<exists>b \<in> set (takeWhile (\<lambda>b. b \<noteq> 0) (dir_blocks i)). free_slot (disk_data s) b" by (rule tree_room [OF f(2) K(3)])
  have "length src div 512 < 12" using len by (intro less_mult_imp_div_less) simp
  then have blocks: "length src div 512 + 2 \<le> card (data_blocks s - used_blocks s)" using r(1) by linarith
  have room: "dir_room i s"
  proof -
    have "\<not> data_blocks s \<subseteq> used_blocks s" using blocks by (metis Diff_eq_empty_iff card.empty le_zero_eq add_is_0 zero_neq_numeral)
    then show ?thesis using slot set_takeWhileD by (fastforce simp: dir_room_def)
  qed
  have free: "\<exists>k < 256. k \<notin> used_inodes s"
  proof (rule ccontr)
    assume "\<not> (\<exists>k < 256. k \<notin> used_inodes s)"
    then have "{..<256} \<subseteq> used_inodes s" by auto
    moreover have "finite (used_inodes s)" by (simp add: used_inodes_def)
    ultimately have "256 \<le> card (used_inodes s)" using card_mono [of "used_inodes s" "{..<256 :: nat}"] by simp
    then show False using r(2) by simp
  qed
  have new: "dir_lookup i n s = None" using n(2) contents_lookup [OF f(2,6) n(1)] by simp
  have fresh: "inodes s f = None" using S(4) h(3) by simp
  obtain k j g i' F fi s1 s2 where w: "sys_open J (slash # n) (O_CREAT OR O_RDWR) s = Inr (of_nat g, s1)"
    "sys_write (of_nat g) src s1 = Inr (of_nat (length src), [], s2)" "mount_ok p i' s2" "opened g j F s2" "fd_inode F = f"
    "file_ok f fi s2" "file_bytes fi s2 = src" "i_size fi = of_nat (length src)" "i_open_cnts fi = 1"
    "k < 256" "k \<notin> used_inodes s" "used_inodes s2 = insert k (used_inodes s)"
    "stored_inode (of_nat k) s2 = fi\<lparr>i_open_cnts := 0, write_deny := False\<rparr>" "i_no fi = of_nat k"
    "\<And>q. q < 4096 \<Longrightarrow> q \<noteq> 0 \<Longrightarrow> q \<noteq> of_nat k \<Longrightarrow> stored_inode q s2 = stored_inode q s"
    "heap s2 = h" "open_inode (cur_part s2) = f # open_inode (cur_part s)" "f \<notin> set (open_inode (cur_part s))" "f \<noteq> p"
    "\<And>l. l \<in> used_blocks s - set (dir_blocks i) \<Longrightarrow> disk_data s2 l = disk_data s l"
    "\<And>q. q \<noteq> f \<Longrightarrow> q \<noteq> p \<Longrightarrow> inodes s2 q = inodes s q"
    "\<exists>A B. live i s = A @ B \<and> live i' s2 = A @ new_entry n (of_nat k) FT_REGULAR # B"
    "i_sectors i' = i_sectors i" "stored_inode 0 s2 = i'\<lparr>i_open_cnts := 0, write_deny := False\<rparr>"
    "file_table s2 = (file_table s)[j := F]" "i_sectors fi ! 12 = 0" "set (file_blocks fi) \<inter> used_blocks s = {}"
    "used_blocks s2 = used_blocks s \<union> set (file_blocks fi)" "same_layout s s2"
    by (rule create_write_run [OF f(1) n(1) new room free S(2) J h(1,2) fresh len blocks]) (use slot in blast)
  let ?k = "of_nat k :: u32" and ?e = "new_entry n (of_nat k) FT_REGULAR"
  have k: "unat ?k = k" using w(10) by (simp add: unat_word_of_nat32)
  have k0: "?k \<noteq> 0" "?k < 256" using k w(10,11) mount_ok_parts(4) [OF f(1)] by (auto simp: word_less_nat_alt unat_eq_0)
  have kn: "stored_inode q s2 = stored_inode q s" if "q \<in> numbers i s" for q
  proof -
    have q: "q \<noteq> 0" "q < 256" "unat q \<in> used_inodes s" using f(3) that by (simp_all add: nodes_ok_def)
    have "q < 4096" by (rule less_trans [OF q(2)]) simp
    moreover have "q \<noteq> ?k" using q(3) w(11) k by auto
    ultimately show ?thesis by (rule w(15) [OF _ q(1)])
  qed
  note nd = node_stored [OF w(13,6,14,26)]
  have N: "nodes_ok (insert ?k (numbers i s)) U s2" "?k \<notin> numbers i s"
    using nodes_insert [OF f(3) k0 _ nd(1) _ _ _ kn] w(11,12,27,28) k nd(2) by simp_all
  obtain A B where AB: "live i s = A @ B" "live i' s2 = A @ ?e # B" using w(22) by blast
  have nn: "n \<notin> entry_name ` set (files i s)" using n(2) contents_None [OF f(2)] by simp
  note T = tree_insert [OF f(2) n(1) nn N(2) AB w(23)]
  have d2: "disk_ok (disk_data s2)" using mount_ok_parts(2) [OF w(3)] by (simp add: dir_ok_def blocks_ok_def Let_def)
  have C: "contents i' s2 = (contents i s)(n \<mapsto> src)"
  proof (rule contents_insert [OF f(2) T(1,2) new_entry_file(2) [OF n(1)] nn])
    show "node_bytes (e_i_no ?e) s2 = src" using nd(3) w(7) new_entry_file(5) [OF n(1)] by simp
    show "node_bytes l s2 = node_bytes l s" if "l \<in> numbers i s" for l
      by (rule nodes_bytes [OF f(3) that f(7) d2 kn [OF that] w(20) owned_dir [OF S(1) that]])
  qed
  have R: "reserved i' U s2" using f(4) w(23,29) by (simp add: reserved_def same_layout_def dir_blocks_def)
  have "files_ok p i' U s2" using w(3,24) T(1) N(1) R by (simp add: files_ok_def T(3))
  moreover have "get_inode f s2 = Inr fi" using w(6) by (simp add: file_ok_def)
  ultimately have one: "one_open p i' U g j F fi s2" using w(4,5,9,17,19,21,25) S(3-5) by (auto simp: one_open_def)
  obtain s3 where c: "sys_close (of_nat g) s2 = Inr (0, s3)" "store_ok p i' U s3" "contents i' s3 = contents i' s2" "heap s3 = heap s2"
    "same_layout s2 s3" by (rule store_close_run [OF one])
  show ?thesis
    by (rule that [OF w(1) _ w(2) c(1,2)]) (use w(4,16) c(3,4) C same_layout_trans [OF w(29) c(5)] in \<open>simp_all add: opened_def\<close>)
qed

lemma contents_update:
  assumes t: "tree_ok i s" "tree_ok i s'" and f: "files i s' = files i s" and e: "e \<in> set (files i s)" "entry_name e = n"
    and b: "node_bytes (e_i_no e) s' = bs" "\<And>d. d \<in> set (files i s) \<Longrightarrow> entry_name d \<noteq> n \<Longrightarrow> node_bytes (e_i_no d) s' = node_bytes (e_i_no d) s"
  shows "contents i s' = (contents i s)(n \<mapsto> bs)"
proof (rule ext)
  fix m
  have "contents i s' m = Some c \<longleftrightarrow> ((contents i s)(n \<mapsto> bs)) m = Some c" for c
  proof (cases "m = n")
    case True
    have "inj_on entry_name (set (files i s))" using t(1) by (simp add: tree_ok_def root_ok_def distinct_map)
    then have "(\<exists>d \<in> set (files i s'). entry_name d = n \<and> node_bytes (e_i_no d) s' = c) \<longleftrightarrow> bs = c"
      unfolding f using e b(1) by (metis inj_onD)
    then show ?thesis using True by (simp add: contents_Some [OF t(2)])
  next
    case False
    have "(\<exists>d \<in> set (files i s'). entry_name d = m \<and> node_bytes (e_i_no d) s' = c)
        \<longleftrightarrow> (\<exists>d \<in> set (files i s). entry_name d = m \<and> node_bytes (e_i_no d) s = c)" unfolding f using b(2) False by auto
    then show ?thesis using False by (simp add: contents_Some [OF t(1)] contents_Some [OF t(2)])
  qed
  then show "contents i s' m = ((contents i s)(n \<mapsto> bs)) m" by (metis not_Some_eq)
qed

lemma tree_max: "tree_ok i s \<Longrightarrow> length (files i s) \<le> 19"
proof -
  assume t: "tree_ok i s"
  then obtain b where b: "b \<noteq> 0" "dir_blocks i = b # replicate 11 0" by (auto simp: tree_ok_def root_ok_def)
  have "live i s = filter (\<lambda>e. f_type e \<noteq> FT_UNKNOWN) (entries (disk_data s b))" using b by (simp add: live_def del: replicate.simps)
  then have "length (live i s) \<le> 21" using length_filter_le [of _ "entries (disk_data s b)"] by (metis length_entries)
  then show ?thesis using t by (simp add: tree_ok_def)
qed

lemma length_file_bytes: "disk_ok (disk_data s) \<Longrightarrow> length (i_sectors i) = 13 \<Longrightarrow> unat (i_size i) < 6144 \<Longrightarrow> length (file_bytes i s) = unat (i_size i)"
  by (simp add: file_bytes_def block_bytes_def length_concat_blocks)

lemma store_append_run:
  assumes st: "store_ok p i U s" and n: "contents i s n = Some bs" and J: "length (junk_name J) = 16" and len: "length bs + length src < 6144"
    and h: "heap s = [x, y, f, z, b1, b2, b3] @ h" "0 \<notin> {x, b1, b2, b3}" "f \<noteq> p"
  obtains g s1 s2 s3 where "sys_open J (slash # n) O_RDWR s = Inr (of_nat g, s1)" and "g < 8"
    and "sys_write (of_nat g) src s1 = Inr (of_nat (length src), [], s2)" and "sys_close (of_nat g) s2 = Inr (0, s3)" and "store_ok p i U s3"
    and "contents i s3 = (contents i s)(n \<mapsto> bs @ src)" and "heap s3 = h" and "same_layout s s3"
proof -
  have fl: "O_RDWR \<le> 7" "O_RDWR AND O_CREAT = 0" "for_writing O_RDWR" by (simp_all add: O_RDWR_def O_CREAT_def for_writing_def O_WRONLY_def)
  have h1: "heap s = x # y # f # z # [b1, b2, b3] @ h" "x \<noteq> 0" using h by auto
  let ?F = "\<lparr>fd_pos = 0, fd_flag = O_RDWR, fd_inode = f\<rparr>"
  obtain g j fi k s1 where o: "sys_open J (slash # n) O_RDWR s = Inr (of_nat g, s1)" "g < 8" "one_open p i U g j ?F fi s1" "same_disk s s1"
    "contents i s1 = contents i s" "heap s1 = [b1, b2, b3] @ h" "same_layout s s1" "k \<in> numbers i s1" "file_ok f fi s1" "file_bytes fi s1 = bs"
    "set (file_blocks fi) = owned k s1" "i_no fi = k" "i_sectors fi ! 12 = 0"
    "\<forall>d \<in> set (files i s1). entry_name d \<noteq> n \<longrightarrow> e_i_no d \<noteq> k" "\<exists>d \<in> set (files i s1). entry_name d = n \<and> e_i_no d = k"
    by (rule store_open_run [OF st n J h1 h(3) fl(1,2)])
  have O: "files_ok p i U s1" "opened g j ?F s1" "f \<noteq> p" "i_open_cnts fi = 1" "open_inode (cur_part s1) = [f, p]"
    "\<forall>q. q \<noteq> p \<and> q \<noteq> f \<longrightarrow> inodes s1 q = None" using o(3) by (simp_all add: one_open_def)
  obtain ft where ft: "file_table s1 = ft[j := ?F]" "\<forall>G \<in> set ft. fd_inode G = 0" using o(3) by (auto simp: one_open_def)
  note f = files_okD [OF O(1)]
  have k: "k \<noteq> 0" "k < 256" using f(3) o(8) by (simp_all add: nodes_ok_def)
  have sz: "unat (i_size fi) = length bs" using length_file_bytes [OF f(7), of fi] o(9,10) by (simp add: file_ok_def)
  have U: "240 \<le> card (data_blocks s1 - U)" using f(4) by (simp add: reserved_def)
  have "card (numbers i s1) \<le> 19" using card_contents(3) [OF f(2)] tree_max [OF f(2)] by simp
  note r = nodes_room(1) [OF f(3) card_contents(2) [OF f(2)] this U]
  have "(unat (i_size fi) + length src) div 512 < 12" using len sz by (intro less_mult_imp_div_less) simp
  then have room: "(unat (i_size fi) + length src) div 512 + 1 - length (file_blocks fi) \<le> card (data_blocks s1 - used_blocks s1)" using r by linarith
  have apart: "set (file_blocks fi) \<inter> set (dir_blocks i) = {}" unfolding o(11) by (rule owned_dir [OF O(1) o(8)])
  have F: "fd_inode ?F = f" "for_writing (fd_flag ?F)" "i_no fi < 256" "unat (i_size fi) + length src < 6144"
    "heap s1 = b1 # b2 # b3 # h" "b1 \<noteq> 0" "b2 \<noteq> 0" "b3 \<noteq> 0" using fl(3) k(2) o(6,12) len sz h(2) by simp_all
  obtain fi2 s2 where w: "sys_write (of_nat g) src s1 = Inr (of_nat (length src), [], s2)" "mount_ok p i s2"
    "opened g j (?F\<lparr>fd_pos := i_size fi2 - 1\<rparr>) s2" "file_ok f fi2 s2" "file_bytes fi2 s2 = file_bytes fi s1 @ src" "i_no fi2 = i_no fi"
    "i_open_cnts fi2 = i_open_cnts fi" "stored_inode (i_no fi) s2 = fi2\<lparr>i_open_cnts := 0, write_deny := False\<rparr>"
    "\<And>q. q < 4096 \<Longrightarrow> q \<noteq> i_no fi \<Longrightarrow> stored_inode q s2 = stored_inode q s1" "heap s2 = h"
    "used_inodes s2 = used_inodes s1" "open_inode (cur_part s2) = open_inode (cur_part s1)"
    "\<And>l. l \<in> used_blocks s1 - set (file_blocks fi) \<Longrightarrow> disk_data s2 l = disk_data s1 l" "\<And>q. q \<noteq> f \<Longrightarrow> inodes s2 q = inodes s1 q"
    "file_table s2 = (file_table s1)[j := ?F\<lparr>fd_pos := i_size fi2 - 1\<rparr>]" "i_sectors fi2 ! 12 = i_sectors fi ! 12"
    "set (file_blocks fi2) \<subseteq> set (file_blocks fi) \<union> (used_blocks s2 - used_blocks s1)" "used_blocks s2 = used_blocks s1 \<union> set (file_blocks fi2)"
    "same_layout s1 s2" "set (file_blocks fi) \<subseteq> set (file_blocks fi2)"
    by (rule sys_write_run [OF f(1) O(2) F(1,2) o(9) O(3) apart F(3,4) room F(5-8)]) blast
  have st2: "stored_inode k s2 = fi2\<lparr>i_open_cnts := 0, write_deny := False\<rparr>" "i_no fi2 = k" "i_sectors fi2 ! 12 = 0" using w(6,8,16) o(12,13) by simp_all
  note nd = node_stored [OF st2(1) w(4) st2(2,3)]
  have kn: "stored_inode q s2 = stored_inode q s1" if "q \<in> numbers i s1" "q \<noteq> k" for q
  proof -
    have "q < 256" using f(3) that(1) by (simp add: nodes_ok_def)
    then have "q < 4096" by (rule less_trans) simp
    then show ?thesis using w(9) that(2) o(12) by simp
  qed
  have N: "nodes_ok (numbers i s1) U s2"
    by (rule nodes_change [OF f(3) o(8) nd(1) w(11) _ _ _ kn]) (use w(17,18,20) nd(2) o(11) in simp_all)
  have "dir_entries (disk_data s2) (dir_blocks i) = dir_entries (disk_data s1) (dir_blocks i)"
  proof (rule dir_entries_cong)
    fix b assume b: "b \<in> set (dir_blocks i)" "b \<noteq> 0"
    then have "b \<in> used_blocks s1" using f(6) by (auto simp: dir_ok_def)
    then show "disk_data s2 b = disk_data s1 b" using apart b(1) by (intro w(13)) blast
  qed
  then have "live i s2 = live i s1" by (simp add: live_def)
  then have T: "tree_ok i s2" "files i s2 = files i s1" "numbers i s2 = numbers i s1" using tree_cong [of i i s2 s1] f(2) by simp_all
  have d2: "disk_ok (disk_data s2)" using mount_ok_parts(2) [OF w(2)] by (simp add: dir_ok_def blocks_ok_def Let_def)
  obtain e where e: "e \<in> set (files i s1)" "entry_name e = n" "e_i_no e = k" using o(15) by blast
  have C: "contents i s2 = (contents i s1)(n \<mapsto> bs @ src)"
  proof (rule contents_update [OF f(2) T(1,2) e(1,2)])
    show "node_bytes (e_i_no e) s2 = bs @ src" using nd(3) w(5) o(10) e(3) by simp
    fix d assume d: "d \<in> set (files i s1)" "entry_name d \<noteq> n"
    have dk: "e_i_no d \<in> numbers i s1" "e_i_no d \<noteq> k" using d o(14) by (auto simp: numbers_def)
    show "node_bytes (e_i_no d) s2 = node_bytes (e_i_no d) s1"
    proof (rule nodes_bytes [OF f(3) dk(1) f(7) d2 kn [OF dk] w(13)])
      show "owned (e_i_no d) s1 \<inter> set (file_blocks fi) = {}" unfolding o(11) by (rule nodes_disjoint [OF f(3) dk(1) o(8) dk(2)])
    qed
  qed
  have "stored_inode 0 s2 = i\<lparr>i_open_cnts := 0, write_deny := False\<rparr>" using w(9) [of 0] k(1) o(12) f(5) by simp
  moreover have "reserved i U s2" using f(4) w(19) by (simp add: reserved_def same_layout_def)
  ultimately have "files_ok p i U s2" using w(2) T(1) N by (simp add: files_ok_def T(3))
  moreover have "get_inode f s2 = Inr fi2" using w(4) by (simp add: file_ok_def)
  moreover have "file_table s2 = ft[j := ?F\<lparr>fd_pos := i_size fi2 - 1\<rparr>]" using w(15) ft(1) by simp
  ultimately have one: "one_open p i U g j (?F\<lparr>fd_pos := i_size fi2 - 1\<rparr>) fi2 s2" using w(3,7,12,14) O(3-6) ft(2) by (auto simp: one_open_def)
  obtain s3 where c: "sys_close (of_nat g) s2 = Inr (0, s3)" "store_ok p i U s3" "contents i s3 = contents i s2" "heap s3 = heap s2"
    "same_layout s2 s3" by (rule store_close_run [OF one])
  show ?thesis
    by (rule that [OF o(1,2) w(1) c(1,2)])
      (use w(10) c(3,4) C o(5) same_layout_trans [OF o(7) same_layout_trans [OF w(19) c(5)]] in simp_all)
qed

text \<open>The position and the heap are no concern of the store.\<close>

lemma one_open_moved:
  assumes "one_open p i U g j F fi s" and "fd_inode F' = fd_inode F"
  shows "one_open p i U g j F' fi (set_file j F' (s\<lparr>heap := h\<rparr>))" and "contents i (set_file j F' (s\<lparr>heap := h\<rparr>)) = contents i s"
    and "same_layout s (set_file j F' (s\<lparr>heap := h\<rparr>))"
proof -
  let ?s = "set_file j F' (s\<lparr>heap := h\<rparr>)"
  obtain ft where o: "files_ok p i U s" "opened g j F s" "fd_inode F \<noteq> p" "get_inode (fd_inode F) s = Inr fi" "i_open_cnts fi = 1"
    "open_inode (cur_part s) = [fd_inode F, p]" "\<forall>q. q \<noteq> p \<and> q \<noteq> fd_inode F \<longrightarrow> inodes s q = None"
    "file_table s = ft[j := F]" "\<forall>G \<in> set ft. fd_inode G = 0" using assms(1) by (auto simp: one_open_def)
  have sd: "same_disk s ?s" by (simp add: same_disk_def set_file_def)
  note f = files_cong [OF o(1) sd mount_ok_file [OF files_okD(1) [OF o(1)]]]
  show "contents i ?s = contents i s" by (rule f)
  have "opened g j F' ?s" "get_inode (fd_inode F') ?s = Inr fi" "file_table ?s = ft[j := F']" "open_inode (cur_part ?s) = [fd_inode F', p]"
    "\<forall>q. q \<noteq> p \<and> q \<noteq> fd_inode F' \<longrightarrow> inodes ?s q = None"
    using o(2,4,6,7,8) assms(2) by (simp_all add: opened_def set_file_def get_inode_def)
  then show "one_open p i U g j F' fi ?s" using f(1) o(3,5,9) assms(2) unfolding one_open_def by auto
  show "same_layout s ?s" by (simp add: same_layout_def set_file_def data_blocks_def block_cnt_def block_def)
qed

lemma store_read_run:
  assumes st: "store_ok p i U s" and n: "contents i s n = Some bs" and J: "length (junk_name J) = 16"
    and h: "heap s = [x, y, f, z, b1, b2] @ h" "0 \<notin> {x, b1, b2}" "f \<noteq> p"
  obtains g s1 s2 s3 r where "sys_open J (slash # n) 0 s = Inr (of_nat g, s1)" and "g < 8"
    and "sys_read (of_nat g) cnt keys s1 = Inr (r, take (unat cnt) bs, s2)" and "sys_close (of_nat g) s2 = Inr (0, s3)" and "store_ok p i U s3"
    and "contents i s3 = contents i s" and "heap s3 = h \<or> heap s3 = [b1, b2] @ h" and "same_layout s s3"
proof -
  have h1: "heap s = x # y # f # z # [b1, b2] @ h" "x \<noteq> 0" using h by auto
  have fl: "(0 :: u32) \<le> 7" "(0 :: u32) AND O_CREAT = 0" by simp_all
  let ?F = "\<lparr>fd_pos = 0, fd_flag = 0, fd_inode = f\<rparr>"
  obtain g j fi k s1 where o: "sys_open J (slash # n) 0 s = Inr (of_nat g, s1)" "g < 8" "one_open p i U g j ?F fi s1" "same_disk s s1"
    "contents i s1 = contents i s" "heap s1 = [b1, b2] @ h" "same_layout s s1" "k \<in> numbers i s1" "file_ok f fi s1" "file_bytes fi s1 = bs"
    by (rule store_open_run [OF st n J h1 h(3) fl])
  have op: "opened g j ?F s1" "files_ok p i U s1" using o(3) by (simp_all add: one_open_def)
  have tab: "j < length (file_table s1)" "file_table s1 ! j = ?F" using op(1) by (simp_all add: opened_def)
  define m where "m = min (unat cnt) (unat (i_size fi))"
  have sz: "unat (i_size fi) = length bs" using length_file_bytes [OF files_okD(7) [OF op(2)], of fi] o(9,10) by (simp add: file_ok_def)
  have tk: "piece_of bs 0 m = take (unat cnt) bs" by (simp add: m_def sz piece_of_def min_def)
  have b: "heap s1 = b1 # b2 # h" "b1 \<noteq> 0" "b2 \<noteq> 0" using o(6) h(2) by auto
  have rd: "file_read j cnt s1 = (if m = 0 \<and> cnt \<noteq> 0 then Inr (- 1, [], s1)
    else Inr (of_nat m, take (unat cnt) bs, set_file j (?F\<lparr>fd_pos := of_nat m\<rparr>) (s1\<lparr>heap := h\<rparr>)))"
  proof -
    have F0: "fd_inode ?F = f" "fd_pos ?F \<le> i_size fi" "unat (fd_pos ?F) + unat cnt < 2 ^ 32" "m = min (unat cnt) (unat (i_size fi) - unat (fd_pos ?F))"
      using unat_less32 [of cnt] by (simp_all add: m_def)
    show ?thesis unfolding file_read_run [OF o(9) tab F0(1-3) b F0(4)] by (simp add: o(10) tk)
  qed
  define s2 where "s2 = (if m = 0 \<and> cnt \<noteq> 0 then s1 else set_file j (?F\<lparr>fd_pos := of_nat m\<rparr>) (s1\<lparr>heap := h\<rparr>))"
  have t0: "take (unat cnt) bs = []" if "m = 0" "cnt \<noteq> 0"
    using that sz unat_eq_0 [of cnt] by (auto simp: m_def min_def split: if_splits)
  have run: "sys_read (of_nat g) cnt keys s1 = Inr (if m = 0 \<and> cnt \<noteq> 0 then - 1 else of_nat m, take (unat cnt) bs, s2)"
    unfolding sys_read_eq [OF op(1)] rd s2_def using t0 by simp
  have "\<exists>F'. one_open p i U g j F' fi s2 \<and> contents i s2 = contents i s1 \<and> same_layout s1 s2 \<and> (heap s2 = h \<or> heap s2 = [b1, b2] @ h)"
  proof (cases "m = 0 \<and> cnt \<noteq> 0")
    case True
    then show ?thesis using o(3,6) by (auto simp: s2_def)
  next
    case False
    then have "s2 = set_file j (?F\<lparr>fd_pos := of_nat m\<rparr>) (s1\<lparr>heap := h\<rparr>)" unfolding s2_def by (rule if_not_P)
    moreover have "heap (set_file j (?F\<lparr>fd_pos := of_nat m\<rparr>) (s1\<lparr>heap := h\<rparr>)) = h" by (simp add: set_file_def)
    ultimately show ?thesis using one_open_moved [OF o(3), of "?F\<lparr>fd_pos := of_nat m\<rparr>" h] by auto
  qed
  then obtain F' where s2: "one_open p i U g j F' fi s2" "contents i s2 = contents i s1" "same_layout s1 s2" "heap s2 = h \<or> heap s2 = [b1, b2] @ h"
    by blast
  obtain s3 where c: "sys_close (of_nat g) s2 = Inr (0, s3)" "store_ok p i U s3" "contents i s3 = contents i s2" "heap s3 = heap s2"
    "same_layout s2 s3" by (rule store_close_run [OF s2(1)])
  show ?thesis
    by (rule that [OF o(1,2) run c(1,2)]) (use o(5) s2(2,4) c(3,4) same_layout_trans [OF o(7) same_layout_trans [OF s2(3) c(5)]] in simp_all)
qed

lemma contents_delete:
  assumes t: "tree_ok i s" "tree_ok i' s'" and f: "set (files i' s') = set (files i s) - {e}" and e: "e \<in> set (files i s)" "entry_name e = n"
    and b: "\<And>k. k \<in> numbers i s \<Longrightarrow> k \<noteq> e_i_no e \<Longrightarrow> node_bytes k s' = node_bytes k s"
  shows "contents i' s' = (contents i s)(n := None)"
proof (rule ext)
  fix m
  have inj: "inj_on entry_name (set (files i s))" "inj_on e_i_no (set (files i s))" using t(1) by (simp_all add: tree_ok_def root_ok_def distinct_map)
  have "contents i' s' m = Some c \<longleftrightarrow> ((contents i s)(n := None)) m = Some c" for c
  proof (cases "m = n")
    case True
    have "\<not> (\<exists>d \<in> set (files i' s'). entry_name d = n \<and> node_bytes (e_i_no d) s' = c)"
      unfolding f using inj(1) e by (metis DiffE inj_onD insertI1)
    then show ?thesis using True by (simp add: contents_Some [OF t(2)])
  next
    case False
    have "node_bytes (e_i_no d) s' = node_bytes (e_i_no d) s" if "d \<in> set (files i s)" "d \<noteq> e" for d
      using that e(1) inj(2) by (intro b) (auto simp: numbers_def dest: inj_onD)
    then have "(\<exists>d \<in> set (files i' s'). entry_name d = m \<and> node_bytes (e_i_no d) s' = c)
        \<longleftrightarrow> (\<exists>d \<in> set (files i s). entry_name d = m \<and> node_bytes (e_i_no d) s = c)" unfolding f using e(2) False by auto
    then show ?thesis using False by (simp add: contents_Some [OF t(1)] contents_Some [OF t(2)])
  qed
  then show "contents i' s' m = ((contents i s)(n := None)) m" by (metis not_Some_eq)
qed

lemma store_delete_run:
  assumes st: "store_ok p i U s" and n: "contents i s n = Some bs"
    and h: "heap s = [x, y, w, f, b', c] @ h" "x \<noteq> 0" "f \<noteq> p"
  obtains s' i' where "sys_unlink J (slash # n) s = Inr (0, s')" and "store_ok p i' U s'" and "contents i' s' = (contents i s)(n := None)"
    and "heap s' = h" and "same_layout s s'"
proof -
  have S: "files_ok p i U s" "slots s" "open_inode (cur_part s) = [p]" "\<forall>q. q \<noteq> p \<longrightarrow> inodes s q = None" "\<forall>F \<in> set (file_table s). fd_inode F = 0"
    using st by (simp_all add: store_ok_def)
  note f = files_okD [OF S(1)] and M = mount_ok_parts [OF files_okD(1) [OF S(1)]]
  obtain e where e: "plain_name n" "dir_lookup i n s = Some e" "e \<in> set (files i s)" "entry_name e = n" "f_type e = FT_REGULAR"
    "e_i_no e \<in> numbers i s" "e_i_no e \<noteq> 0" "e_i_no e < 256" "e_i_no e < 4096" "node_ok (e_i_no e) s" "node_bytes (e_i_no e) s = bs"
    "unat (e_i_no e) \<in> used_inodes s" by (rule store_file [OF S(1) n])
  let ?k = "e_i_no e"
  let ?st = "stored_inode ?k s"
  have root: "root_ok i s" using f(2) by (simp add: tree_ok_def)
  have own: "{b \<in> set (dir_blocks ?st). b \<noteq> 0} = owned ?k s"
    by (rule owned_sectors [OF e(10) owned_nonzero [OF f(3) fs_ok_parts(1) [OF M(1)] e(6)]])
  have no: "i_no ?st = ?k" "i_sectors ?st ! 12 = 0" using e(10) by (simp_all add: node_ok_def Let_def)
  have "owned ?k s \<subseteq> used_blocks s" "owned ?k s \<inter> U = {}" "data_start_lba (part_sb s) \<in> U"
    using f(3,4) e(6) by (auto simp: nodes_ok_def reserved_def)
  then have sub: "{b \<in> set (dir_blocks ?st). b \<noteq> 0} \<subseteq> data_blocks s - {data_start_lba (part_sb s)}" unfolding own using used_data [of s] by blast
  have apart: "{b \<in> set (dir_blocks ?st). b \<noteq> 0} \<inter> set (dir_blocks i) = {}" unfolding own by (rule owned_dir [OF S(1) e(6)])
  have fresh: "inodes s f = None" "?k \<notin> number_at s ` set (open_inode (cur_part s))" using S(3,4) h(3) M(3,9) e(7) by simp_all
  have idle: "\<exists>j. inodes s (fd_inode F) = Some j \<and> i_no j \<noteq> ?k" if "F \<in> set (file_table s)" "fd_inode F \<noteq> 0" for F using S(5) that by simp
  have hh: "heap s = x # y # w # f # b' # c # h" using h(1) by simp
  obtain i' s' where u: "sys_unlink J (slash # n) s = Inr (0, s')" "mount_ok p i' s'" "\<exists>A B. live i s = A @ e # B \<and> live i' s' = A @ B"
    "i_sectors i' = i_sectors i" "used_inodes s' = used_inodes s - {unat ?k}"
    "used_blocks s' = used_blocks s - {b \<in> set (dir_blocks ?st). b \<noteq> 0}" "stored_inode 0 s' = i'\<lparr>i_open_cnts := 0, write_deny := False\<rparr>"
    "\<And>q. q < 4096 \<Longrightarrow> q \<noteq> 0 \<Longrightarrow> q \<noteq> ?k \<Longrightarrow> stored_inode q s' = stored_inode q s"
    "\<And>l. data_start_lba (part_sb s) \<le> l \<Longrightarrow> l \<notin> set (dir_blocks i) \<Longrightarrow> disk_data s' l = disk_data s l"
    "heap s' = h" "\<And>q. q \<noteq> p \<Longrightarrow> inodes s' q = inodes s q" "open_inode (cur_part s') = open_inode (cur_part s)"
    "file_table s' = file_table s" "thread_fds s' = thread_fds s" "same_layout s s'"
    by (rule sys_unlink_run [OF f(1) e(1) root e(2,5,7,9) hh h(2) fresh(1) idle fresh(2) no sub apart]) blast+
  obtain A B where AB: "live i s = A @ e # B" "live i' s' = A @ B" using u(3) by blast
  note T = tree_delete [OF f(2) e(3) AB u(4)]
  have kn: "stored_inode q s' = stored_inode q s" if "q \<in> numbers i s" "q \<noteq> ?k" for q
  proof -
    have "q \<noteq> 0" "q < 256" using f(3) that(1) by (simp_all add: nodes_ok_def)
    moreover from this(2) have "q < 4096" by (rule less_trans) simp
    ultimately show ?thesis using u(8) that(2) by simp
  qed
  have N: "nodes_ok (numbers i s - {?k}) U s'" by (rule nodes_delete [OF f(3) e(6) u(5) _ kn]) (use u(6) own in simp_all)
  have d2: "disk_ok (disk_data s')" using mount_ok_parts(2) [OF u(2)] by (simp add: dir_ok_def blocks_ok_def Let_def)
  have C: "contents i' s' = (contents i s)(n := None)"
  proof (rule contents_delete [OF f(2) T(1,2) e(3,4)])
    fix k assume k: "k \<in> numbers i s" "k \<noteq> ?k"
    show "node_bytes k s' = node_bytes k s"
    proof (rule nodes_bytes [OF f(3) k(1) f(7) d2 kn [OF k] _ owned_dir [OF S(1) k(1)]])
      fix l assume "l \<in> used_blocks s - set (dir_blocks i)"
      then show "disk_data s' l = disk_data s l" using used_block_range(3) [OF fs_ok_parts(1) [OF M(1)]] by (intro u(9)) auto
    qed
  qed
  have "reserved i' U s'" using f(4) u(4,15) by (simp add: reserved_def same_layout_def dir_blocks_def)
  then have "files_ok p i' U s'" using u(2,7) T(1) N by (simp add: files_ok_def T(3))
  then have "store_ok p i' U s'" using S(2-5) u(11-14) by (simp add: store_ok_def slots_def)
  then show ?thesis by (rule that [OF u(1) _ C u(10,15)])
qed

text \<open>Names that are not there, and names that are.\<close>

lemma store_lookup:
  assumes "store_ok p i U s" and "plain_name n"
  shows "dir_lookup i n s = None \<longleftrightarrow> contents i s n = None" and "dir_lookup i n s = Some e \<Longrightarrow> f_type e = FT_REGULAR \<and> e_i_no e < 4096"
proof -
  have "files_ok p i U s" using assms(1) by (simp add: store_ok_def)
  note f = files_okD [OF this]
  show "dir_lookup i n s = None \<longleftrightarrow> contents i s n = None" using contents_lookup [OF f(2,6) assms(2)] by simp
  assume "dir_lookup i n s = Some e"
  then have e: "e \<in> set (files i s)" unfolding lookup_files [OF f(6) assms(2)] by (auto simp: find_Some_iff)
  then have "e_i_no e < 256" using f(3) by (simp add: nodes_ok_def numbers_def)
  then have "e_i_no e < 4096" by (rule less_trans) simp
  then show "f_type e = FT_REGULAR \<and> e_i_no e < 4096" using f(2) e by (simp add: tree_ok_def)
qed

lemma store_open_refused:
  assumes st: "store_ok p i U s" and n: "plain_name n" and J: "length (junk_name J) = 16" and h: "heap s = x # y # h" "x \<noteq> 0"
    and fl: "flags \<le> 7" "contents i s n = None \<longleftrightarrow> flags AND O_CREAT = 0"
  shows "sys_open J (slash # n) flags s = Inr (- 1, s\<lparr>heap := h\<rparr>)"
proof -
  have "mount_ok p i s" using st by (simp add: store_ok_def files_ok_def)
  note d = mount_ok_parts(2) [OF this]
  have e: "f_type e = FT_REGULAR" "e_i_no e \<noteq> - 1" if "dir_lookup i n s = Some e" for e using store_lookup(2) [OF st n that] by auto
  have "search_file J (slash # n) s = Inr (case dir_lookup i n s of
      None \<Rightarrow> (- 1, found_at (root_dir s) n FT_UNKNOWN, s\<lparr>heap := h\<rparr>) | Some e \<Rightarrow> (e_i_no e, found_at (root_dir s) n FT_REGULAR, s\<lparr>heap := h\<rparr>))"
    by (rule search_file_top [OF d n h e(1)])
  then show ?thesis using top_last [OF n] fl top_depth [OF n J] store_lookup(1) [OF st n] e(2)
    by (cases "dir_lookup i n s")
       (auto simp: sys_open_def found_at_def FT_DIRECTORY_def FT_REGULAR_def FT_UNKNOWN_def fail_close_def dir_close_def)
qed

lemma store_unlink_refused:
  assumes st: "store_ok p i U s" and n: "plain_name n" "contents i s n = None" and h: "heap s = x # y # h" "x \<noteq> 0"
  shows "sys_unlink J (slash # n) s = Inr (- 1, s\<lparr>heap := h\<rparr>)"
proof -
  have "mount_ok p i s" using st by (simp add: store_ok_def files_ok_def)
  note d = mount_ok_parts(2) [OF this]
  have l: "dir_lookup i n s = None" using store_lookup(1) [OF st n(1)] n(2) by simp
  show ?thesis using search_file_top [OF d n(1) h, of J] l by (simp add: sys_unlink_def found_at_def fail_close_def dir_close_def)
qed

section \<open>Commands\<close>

text \<open>
  A command is a short program of system calls: a file is opened, written or read, and closed, or it is removed.
\<close>

datatype command = Put str "u8 list" | Append str "u8 list" | Read str u32 | Delete str

datatype reply = Done | Refused | Bytes "u8 list"

definition with_file :: "junk \<Rightarrow> str \<Rightarrow> u32 \<Rightarrow> (u32 \<Rightarrow> fs \<Rightarrow> (reply \<times> fs) res) \<Rightarrow> fs \<Rightarrow> (reply \<times> fs) res" where
  "with_file J n flags body s =
     rbind (sys_open J (slash # n) flags s) (\<lambda>(fd, s).
     if fd = - 1 then Inr (Refused, s)
     else rbind (body fd s) (\<lambda>(r, s). rbind (sys_close fd s) (\<lambda>(_, s). Inr (r, s))))"

definition write_all :: "u8 list \<Rightarrow> u32 \<Rightarrow> fs \<Rightarrow> (reply \<times> fs) res" where
  "write_all bs fd s = rbind (sys_write fd bs s) (\<lambda>(n, _, s). Inr (if n = of_nat (length bs) then Done else Refused, s))"

definition read_some :: "u32 \<Rightarrow> u32 \<Rightarrow> fs \<Rightarrow> (reply \<times> fs) res" where
  "read_some cnt fd s = rbind (sys_read fd cnt [] s) (\<lambda>(_, bs, s). Inr (Bytes bs, s))"

fun call :: "junk \<Rightarrow> command \<Rightarrow> fs \<Rightarrow> (reply \<times> fs) res" where
  "call J (Put n bs) s = with_file J n (O_CREAT OR O_RDWR) (write_all bs) s"
| "call J (Append n bs) s = with_file J n O_RDWR (write_all bs) s"
| "call J (Read n cnt) s = with_file J n 0 (read_some cnt) s"
| "call J (Delete n) s = rbind (sys_unlink J (slash # n) s) (\<lambda>(r, s). Inr (if r = 0 then Done else Refused, s))"

text \<open>What a command is to do to the map from names to bytes.\<close>

fun spec :: "command \<Rightarrow> (str \<Rightarrow> u8 list option) \<Rightarrow> reply \<times> (str \<Rightarrow> u8 list option)" where
  "spec (Put n bs) M = (if M n = None then (Done, M(n \<mapsto> bs)) else (Refused, M))"
| "spec (Append n bs) M = (case M n of None \<Rightarrow> (Refused, M) | Some old \<Rightarrow> (Done, M(n \<mapsto> old @ bs)))"
| "spec (Read n cnt) M = (case M n of None \<Rightarrow> (Refused, M) | Some old \<Rightarrow> (Bytes (take (unat cnt) old), M))"
| "spec (Delete n) M = (if M n = None then (Refused, M) else (Done, M(n := None)))"

text \<open>The bounds: names of up to 15 characters, 19 files, and 12 blocks for a file.\<close>

fun fits :: "command \<Rightarrow> (str \<Rightarrow> u8 list option) \<Rightarrow> bool" where
  "fits (Put n bs) M \<longleftrightarrow> plain_name n \<and> length bs < 6144 \<and> (M n = None \<longrightarrow> card (dom M) < 19)"
| "fits (Append n bs) M \<longleftrightarrow> plain_name n \<and> (case M n of None \<Rightarrow> True | Some old \<Rightarrow> length old + length bs < 6144)"
| "fits (Read n cnt) M \<longleftrightarrow> plain_name n"
| "fits (Delete n) M \<longleftrightarrow> plain_name n"

text \<open>
  The state \<open>s\<close> stands for the map \<open>M\<close> and has addresses for \<open>b\<close> more commands; its layout is that of \<open>s0\<close>.
\<close>

definition serves :: "junk \<Rightarrow> u32 \<Rightarrow> u32 set \<Rightarrow> fs \<Rightarrow> nat \<Rightarrow> fs \<Rightarrow> (str \<Rightarrow> u8 list option) \<Rightarrow> bool" where
  "serves J p U s0 b s M \<longleftrightarrow> length (junk_name J) = 16 \<and> (\<exists>i. store_ok p i U s \<and> contents i s = M)
     \<and> 7 * b \<le> length (heap s) \<and> 0 \<notin> set (heap s) \<and> p \<notin> set (heap s) \<and> same_layout s0 s"

lemma servesI:
  assumes "serves J p U s0 (Suc b) s M" and "store_ok p i U s'" and "contents i s' = M'" and "same_layout s s'"
    and "heap s = hs @ heap s'" and "length hs \<le> 7"
  shows "serves J p U s0 b s' M'"
proof -
  have "7 * b \<le> length (heap s')" using assms(1,6) unfolding serves_def assms(5) by simp
  moreover have "0 \<notin> set (heap s')" "p \<notin> set (heap s')" using assms(1) unfolding serves_def assms(5) by simp_all
  moreover have "same_layout s0 s'" using assms(1,4) same_layout_trans by (auto simp: serves_def)
  ultimately show ?thesis using assms(1-3) by (auto simp: serves_def)
qed

lemma call_refines:
  assumes sv: "serves J p U s0 (Suc b) s M" and ok: "fits c M"
  shows "\<exists>s'. call J c s = Inr (fst (spec c M), s') \<and> serves J p U s0 b s' (snd (spec c M))"
proof -
  obtain i where st: "store_ok p i U s" "contents i s = M" and J: "length (junk_name J) = 16" and l: "7 \<le> length (heap s)"
    and np: "0 \<notin> set (heap s)" "p \<notin> set (heap s)" using sv by (auto simp: serves_def)
  obtain x y a f b1 b2 b3 h where h: "heap s = [x, y, a, f, b1, b2, b3] @ h"
  proof -
    define ts where "ts = take 7 (heap s)"
    have "length ts = 7" using l by (simp add: ts_def)
    then obtain x y a f b1 b2 b3 where "ts = [x, y, a, f, b1, b2, b3]" by (auto simp: length_Suc_conv numeral_nat)
    then have "heap s = [x, y, a, f, b1, b2, b3] @ drop 7 (heap s)" using append_take_drop_id [of 7 "heap s"] unfolding ts_def by metis
    then show ?thesis by (rule that)
  qed
  have nz: "0 \<notin> {x, y, a, f, b1, b2, b3}" "p \<notin> {x, y, a, f, b1, b2, b3}" using np h by auto
  have hx: "heap s = x # y # [a, f, b1, b2, b3] @ h" "x \<noteq> 0" using h nz by auto
  let ?r = "s\<lparr>heap := [a, f, b1, b2, b3] @ h\<rparr>"
  note rf = store_heap [OF st(1), of "[a, f, b1, b2, b3] @ h"]
  have refused: "serves J p U s0 b ?r M" by (rule servesI [OF sv rf(1) _ rf(3), of _ "[x, y]"]) (use rf(2) st(2) h in simp_all)
  have open_refused: "with_file J n flags body s = Inr (Refused, ?r)"
    if "plain_name n" "flags \<le> 7" "contents i s n = None \<longleftrightarrow> flags AND O_CREAT = 0" for n flags body
    using store_open_refused [OF st(1) that(1) J hx that(2,3)] by (simp add: with_file_def)
  have fl: "O_CREAT OR O_RDWR \<le> 7" "(O_CREAT OR O_RDWR) AND O_CREAT \<noteq> 0" "O_RDWR \<le> 7" "O_RDWR AND O_CREAT = 0"
    by (simp_all add: O_CREAT_def O_RDWR_def)
  show ?thesis
  proof (cases c)
    case (Put n bs)
    then have n: "plain_name n" "length bs < 6144" using ok by simp_all
    show ?thesis
    proof (cases "M n")
      case (Some old)
      then show ?thesis using Put refused open_refused [OF n(1) fl(1)] fl(2) st(2) by auto
    next
      case None
      then have few: "contents i s n = None" "card (dom (contents i s)) < 19" using ok Put st(2) by simp_all
      have h0: "0 \<notin> {x, a, f, b1, b2, b3}" "f \<noteq> p" using nz by auto
      obtain g s1 s2 s3 i' where r: "sys_open J (slash # n) (O_CREAT OR O_RDWR) s = Inr (of_nat g, s1)" "g < 8"
        "sys_write (of_nat g) bs s1 = Inr (of_nat (length bs), [], s2)" "sys_close (of_nat g) s2 = Inr (0, s3)" "store_ok p i' U s3"
        "contents i' s3 = (contents i s)(n \<mapsto> bs)" "heap s3 = h" "same_layout s s3"
        by (rule store_put_run [OF st(1) n(1) few J n(2) h h0])
      have "call J c s = Inr (Done, s3)" using r(1,3,4) not_minus_one [OF r(2)] by (simp add: Put with_file_def write_all_def)
      moreover have "serves J p U s0 b s3 (M(n \<mapsto> bs))"
        by (rule servesI [OF sv r(5) _ r(8), of _ "[x, y, a, f, b1, b2, b3]"]) (use r(6,7) st(2) h in simp_all)
      ultimately show ?thesis using None Put by simp
    qed
  next
    case (Append n bs)
    then have n: "plain_name n" using ok by simp
    show ?thesis
    proof (cases "M n")
      case None
      then show ?thesis using Append refused open_refused [OF n fl(3)] fl(4) st(2) by simp
    next
      case (Some old)
      then have c: "contents i s n = Some old" "length old + length bs < 6144" using ok Append st(2) by simp_all
      have h0: "0 \<notin> {x, b1, b2, b3}" "a \<noteq> p" using nz by auto
      obtain g s1 s2 s3 where r: "sys_open J (slash # n) O_RDWR s = Inr (of_nat g, s1)" "g < 8"
        "sys_write (of_nat g) bs s1 = Inr (of_nat (length bs), [], s2)" "sys_close (of_nat g) s2 = Inr (0, s3)" "store_ok p i U s3"
        "contents i s3 = (contents i s)(n \<mapsto> old @ bs)" "heap s3 = h" "same_layout s s3"
        by (rule store_append_run [OF st(1) c(1) J c(2) h h0])
      have "call J c s = Inr (Done, s3)" using r(1,3,4) not_minus_one [OF r(2)] by (simp add: Append with_file_def write_all_def)
      moreover have "serves J p U s0 b s3 (M(n \<mapsto> old @ bs))"
        by (rule servesI [OF sv r(5) _ r(8), of _ "[x, y, a, f, b1, b2, b3]"]) (use r(6,7) st(2) h in simp_all)
      ultimately show ?thesis using Some Append by simp
    qed
  next
    case (Read n cnt)
    then have n: "plain_name n" using ok by simp
    show ?thesis
    proof (cases "M n")
      case None
      then show ?thesis using Read refused open_refused [OF n, of 0] st(2) by simp
    next
      case (Some old)
      then have c: "contents i s n = Some old" using st(2) by simp
      have h0: "heap s = [x, y, a, f, b1, b2] @ b3 # h" "0 \<notin> {x, b1, b2}" "a \<noteq> p" using nz h by auto
      obtain g s1 s2 s3 r where r: "sys_open J (slash # n) 0 s = Inr (of_nat g, s1)" "g < 8"
        "sys_read (of_nat g) cnt [] s1 = Inr (r, take (unat cnt) old, s2)" "sys_close (of_nat g) s2 = Inr (0, s3)" "store_ok p i U s3"
        "contents i s3 = contents i s" "heap s3 = b3 # h \<or> heap s3 = [b1, b2] @ b3 # h" "same_layout s s3"
        by (rule store_read_run [OF st(1) c J h0])
      have "call J c s = Inr (Bytes (take (unat cnt) old), s3)" using r(1,3,4) not_minus_one [OF r(2)]
        by (simp add: Read with_file_def read_some_def)
      moreover have "serves J p U s0 b s3 M" using r(7)
      proof
        assume e: "heap s3 = b3 # h"
        show ?thesis by (rule servesI [OF sv r(5) _ r(8), of _ "[x, y, a, f, b1, b2]"]) (use r(6) st(2) h e in simp_all)
      next
        assume e: "heap s3 = [b1, b2] @ b3 # h"
        show ?thesis by (rule servesI [OF sv r(5) _ r(8), of _ "[x, y, a, f]"]) (use r(6) st(2) h e in simp_all)
      qed
      ultimately show ?thesis using Some Read by simp
    qed
  next
    case (Delete n)
    then have n: "plain_name n" using ok by simp
    show ?thesis
    proof (cases "M n")
      case None
      then have "sys_unlink J (slash # n) s = Inr (- 1, ?r)" using store_unlink_refused [OF st(1) n _ hx, of J] st(2) by simp
      then show ?thesis using Delete None refused by simp
    next
      case (Some old)
      then have c: "contents i s n = Some old" using st(2) by simp
      have h0: "heap s = [x, y, a, f, b1, b2] @ b3 # h" "x \<noteq> 0" "f \<noteq> p" using nz h by auto
      obtain s3 i' where r: "sys_unlink J (slash # n) s = Inr (0, s3)" "store_ok p i' U s3" "contents i' s3 = (contents i s)(n := None)"
        "heap s3 = b3 # h" "same_layout s s3" by (rule store_delete_run [OF st(1) c h0])
      have "serves J p U s0 b s3 (M(n := None))"
        by (rule servesI [OF sv r(2) _ r(5), of _ "[x, y, a, f, b1, b2]"]) (use r(3,4) st(2) h in simp_all)
      then show ?thesis using r(1) Some Delete by simp
    qed
  qed
qed

section \<open>Sequences of commands\<close>

fun run_all :: "('c \<Rightarrow> 's \<Rightarrow> ('r \<times> 's) res) \<Rightarrow> 'c list \<Rightarrow> 's \<Rightarrow> ('r list \<times> 's) res" where
  "run_all f [] s = Inr ([], s)"
| "run_all f (c # cs) s = rbind (f c s) (\<lambda>(r, s). rbind (run_all f cs s) (\<lambda>(rs, s). Inr (r # rs, s)))"

fun spec_all :: "('c \<Rightarrow> 'a \<Rightarrow> 'r \<times> 'a) \<Rightarrow> 'c list \<Rightarrow> 'a \<Rightarrow> 'r list \<times> 'a" where
  "spec_all g [] a = ([], a)"
| "spec_all g (c # cs) a = (case g c a of (r, a) \<Rightarrow> case spec_all g cs a of (rs, a) \<Rightarrow> (r # rs, a))"

fun fits_all :: "('c \<Rightarrow> 'a \<Rightarrow> bool) \<Rightarrow> ('c \<Rightarrow> 'a \<Rightarrow> 'r \<times> 'a) \<Rightarrow> 'c list \<Rightarrow> 'a \<Rightarrow> bool" where
  "fits_all ok g [] a \<longleftrightarrow> True"
| "fits_all ok g (c # cs) a \<longleftrightarrow> ok c a \<and> fits_all ok g cs (snd (g c a))"

text \<open>
  An implementation refines an abstract machine as long as its budget lasts: each command uses up one unit and gives the
  answer of the abstract machine.
\<close>

locale refinement =
  fixes impl :: "'c \<Rightarrow> 's \<Rightarrow> ('r \<times> 's) res"
    and abstract :: "'c \<Rightarrow> 'a \<Rightarrow> 'r \<times> 'a"
    and ok :: "'c \<Rightarrow> 'a \<Rightarrow> bool"
    and rel :: "nat \<Rightarrow> 's \<Rightarrow> 'a \<Rightarrow> bool"
  assumes step: "rel (Suc b) s a \<Longrightarrow> ok c a \<Longrightarrow> \<exists>s'. impl c s = Inr (fst (abstract c a), s') \<and> rel b s' (snd (abstract c a))"
begin

lemma run:
  "rel (length cs + b) s a \<Longrightarrow> fits_all ok abstract cs a \<Longrightarrow>
    \<exists>s'. run_all impl cs s = Inr (fst (spec_all abstract cs a), s') \<and> rel b s' (snd (spec_all abstract cs a))"
proof (induction cs arbitrary: s a)
  case Nil
  then show ?case by simp
next
  case (Cons c cs)
  have f: "ok c a" "fits_all ok abstract cs (snd (abstract c a))" using Cons.prems(2) by simp_all
  obtain s' where s': "impl c s = Inr (fst (abstract c a), s')" "rel (length cs + b) s' (snd (abstract c a))"
    using step [OF _ f(1), of "length cs + b" s] Cons.prems(1) by auto
  show ?case using Cons.IH [OF s'(2) f(2)] s'(1) by (auto split: prod.split)
qed

end

interpretation store: refinement "call J" spec fits "serves J p U s0"
  by unfold_locales (rule call_refines)

end
