(* ===== verification/Reboot.thy ===== *)
theory Reboot
  imports Store
begin

text \<open>
  From a blank disk through any sequence of commands to a reboot: \<^verbatim>\<open>filesys_init\<close> makes an empty store, the commands act on it as on a map,
  and \<^verbatim>\<open>filesys_init\<close> on the disk they leave finds the same map again.
\<close>

section \<open>An empty store\<close>

lemma dot_entries_kinds: "dotted (dot_entry 0)" "\<not> counted (dot_entry 0)" "\<not> counted (dotdot_entry 0)" "\<not> counted empty_entry"
proof -
  have v: "valid_name (ascii ''.'')" "valid_name (ascii ''..'')" by (simp_all add: valid_name_def ascii_def)
  have "has_name (ascii ''.'') (dot_entry 0)" "has_name (ascii ''..'') (dotdot_entry 0)"
    using has_name_iff [OF v(1) v(1), of "dot_entry 0"] has_name_iff [OF v(2) v(2), of "dotdot_entry 0"]
    by (simp_all add: dot_entry_def dotdot_entry_def ascii_def)
  then show "dotted (dot_entry 0)" "\<not> counted (dot_entry 0)" "\<not> counted (dotdot_entry 0)"
    by (simp_all add: dotted_def counted_def) (simp add: dot_entry_def FT_DIRECTORY_def FT_UNKNOWN_def)
  show "\<not> counted empty_entry" by (simp add: counted_def empty_free(1))
qed

lemma filesys_init_store:
  assumes p: "part_fits p" and m: "disk_ok (disk_data s)" and h: "heap s = hs @ h" "length hs = 8" "0 \<notin> set hs"
    and name: "c_string (part_name p) = ascii ''sdb1''" and other: "\<forall>q \<in> set qs. sec_cnt q = 0"
    and raw: "magic (decode_super_block (disk_data s (start_lba p + 1))) \<noteq> 0x12345678"
    and tables: "length (file_table s) = 32" "length (thread_fds s) = 8" "thread_fds s ! 3 = - 1"
    and mem: "inodes s = (\<lambda>_. None)" and big: "241 \<le> room p"
  obtains s' i where "filesys_init (p # qs) s = Inr s'" and "store_ok (hs ! 6) i (used_blocks s') s'" and "contents i s' = (\<lambda>_. None)"
    and "heap s' = h" and "part_sb s' = new_super_block p" and "start_lba (cur_part s') = start_lba p" and "sec_cnt (cur_part s') = sec_cnt p"
    and "disk_data s' (start_lba p + 1) = encode_super_block (new_super_block p)"
proof -
  obtain buf where buf: "new_block_bitmap 311296 (room p) = Inr buf" "length buf = 311296"
    using new_block_bitmap_eq [OF room_eq(3,2,6) [OF p]] by blast
  define s' where "s' = started p buf (hs ! 6) h s"
  let ?a = "hs ! 6" and ?i = "(root_inode p)\<lparr>i_open_cnts := 1\<rparr>" and ?l = "data_start_lba (new_super_block p)"
  have run: "filesys_init (p # qs) s = Inr s'" unfolding s'_def by (rule filesys_init_run [OF p m h name other raw buf])
  note simps = started_def set_dir_def set_inode_def
  have f: "fresh p buf (disk_data s) s'" by (simp add: s'_def simps fresh_def)
  have root: "dirs s' (root_dir s') = Some \<lparr>dir_inode = ?a, dir_pos = 0\<rparr>" "inodes s' ?a = Some ?i" by (simp_all add: s'_def simps)
  note r = fresh_root [OF p m buf f root refl]
  have ib: "inode_bitmap (cur_part s') = first_bit" by (simp add: s'_def simps first_bit_def)
  note ok = fresh_fs_ok [OF p m buf f ib]
  have o: "open_inode (cur_part s') = [?a]" by (simp add: s'_def simps)
  have i: "i_no ?i = 0" by (simp add: root_inode_def inode_init_def)
  have t: "length (file_table s') = 32" "length (thread_fds s') = 8" "thread_fds s' ! 3 = - 1" "\<forall>F \<in> set (file_table s'). fd_inode F = 0"
    "inodes s' = [?a \<mapsto> ?i]" "heap s' = h" using tables mem by (simp_all add: s'_def simps)
  have "opens_ok s'" using o root(2) i ok(2) by (simp add: opens_ok_def)
  then have mount: "mount_ok ?a ?i s'" using ok(1,2) r(1) i t(1,2) by (simp add: mount_ok_def)
  have "fd_inode (file_table s' ! 3) = 0" using t(1,4) by simp
  then have sl: "slots s'" unfolding slots_def by (intro conjI exI [of _ 3]) (use t in simp_all)
  have sb: "part_sb s' = new_super_block p" "disk_data s' = formatted p buf (disk_data s)" using f by (simp_all add: fresh_def)
  have files: "files ?i s' = []" unfolding files_def r(3) using dot_entries_kinds by simp
  have live: "live ?i s' = [dot_entry 0, dotdot_entry 0]" unfolding live_def r(3)
    by (simp add: empty_free(1)) (simp add: dot_entry_def dotdot_entry_def FT_DIRECTORY_def FT_UNKNOWN_def)
  have db: "dir_blocks ?i = ?l # replicate 11 0" by (simp add: dir_blocks_def root_inode_def numeral_eq_Suc)
  have lu: "?l \<in> used_blocks s'" using fs_ok_parts(4) [OF ok(1)] sb(1) by simp
  then have "?l \<noteq> 0" by (rule used_block_range(1) [OF fs_ok_parts(1) [OF ok(1)]])
  then have tree: "tree_ok ?i s'" using dot_entries_kinds(1) db by (simp add: tree_ok_def root_ok_def files live)
  have nodes: "nodes_ok (numbers ?i s') (used_blocks s') s'" using ok(2) by (simp add: nodes_ok_def numbers_def files)
  have res: "reserved ?i (used_blocks s') s'" using lu ok(3) big sb(1) by (auto simp: reserved_def db)
  have "root_inode p = ?i\<lparr>i_open_cnts := 0, write_deny := False\<rparr>" by (simp add: root_inode_def inode_init_def)
  then have st: "stored_inode 0 s' = ?i\<lparr>i_open_cnts := 0, write_deny := False\<rparr>" using stored_root [OF p m buf(2) f] by simp
  have store: "store_ok ?a ?i (used_blocks s') s'"
    using mount tree nodes res st sl o t(4,5) by (simp add: store_ok_def files_ok_def)
  have "contents ?i s' = (\<lambda>_. None)" by (rule ext) (simp add: contents_def files)
  moreover have "disk_data s' (start_lba p + 1) = encode_super_block (new_super_block p)"
    using formatted_regions(1) [OF p m buf(2)] by (simp add: sb(2))
  ultimately show ?thesis using f t(6) sb(1) by (intro that [OF run store]) (simp_all add: fresh_def)
qed

section \<open>After a reboot\<close>

text \<open>What a mount looks for on the disk: the super block of the partition that \<^verbatim>\<open>partition_format\<close> wrote.\<close>

definition mountable :: "partition \<Rightarrow> fs \<Rightarrow> bool" where
  "mountable p s \<longleftrightarrow> part_sb s = new_super_block p \<and> start_lba (cur_part s) = start_lba p \<and> sec_cnt (cur_part s) = sec_cnt p
     \<and> disk_data s (start_lba p + 1) = encode_super_block (new_super_block p)"

lemma mountable_kept: "mountable p s0 \<Longrightarrow> part_fits p \<Longrightarrow> same_layout s0 s \<Longrightarrow> mountable p s"
  using layout(1,2) [of p] by (auto simp: mountable_def same_layout_def)

lemma remount_part:
  assumes p: "part_fits p" and ok: "fs_ok s" and mp: "mountable p s" and d: "disk_data t = disk_data s"
    and h: "heap t = x # a # b # c # h" "0 \<notin> {a, b, c}"
  obtains t' where "mount_partition p t = Inr t'" and "t' = t\<lparr>heap := h, cur_part := cur_part t'\<rparr>" and "part_sb t' = part_sb s"
    and "start_lba (cur_part t') = start_lba p" and "sec_cnt (cur_part t') = sec_cnt p" and "block_bitmap (cur_part t') = block_bitmap (cur_part s)"
    and "inode_bitmap (cur_part t') = inode_bitmap (cur_part s)" and "open_inode (cur_part t') = []"
proof -
  note f = fs_ok_parts [OF ok] and l = layout [OF p] and r = room_eq [OF p]
  let ?b = "new_super_block p"
  have sb: "part_sb s = ?b" "disk_data s (start_lba p + 1) = encode_super_block ?b" using mp by (simp_all add: mountable_def)
  have lim: "unat (start_lba p) + 611 + bitmap_sects p \<le> unat max_lba" using p r by (simp add: part_fits_def)
  have le: "start_lba p + 1 \<le> max_lba" "block_bitmap_lba ?b \<le> max_lba" "inode_bitmap_lba ?b \<le> max_lba"
    unfolding word_le_nat_alt using l lim by linarith+
  have pos: "0 < block_bitmap_sects ?b" using l(3) r(5) by (simp add: word_less_nat_alt)
  have len: "unat (block_bitmap_sects ?b * 512) = 512 * bitmap_sects p" using l(3) r(6) by (simp add: unat_word_ariths)
  have bm: "sectors (disk_data s) (block_bitmap_lba ?b) (bitmap_sects p) = bits (block_bitmap (cur_part s))"
    "btmp_bytes_len (block_bitmap (cur_part s)) = 512 * bitmap_sects p"
    using f(1) l(3) by (simp_all add: blocks_ok_def Let_def sb(1))
  have im: "disk_data s (inode_bitmap_lba ?b) = bits (inode_bitmap (cur_part s))" "btmp_bytes_len (inode_bitmap (cur_part s)) = 512"
    using f(3) by (simp_all add: inodes_ok_def Let_def sb(1))
  let ?c = "partition.extend p (fs_part.fields ?b \<lparr>btmp_bytes_len = 512 * bitmap_sects p, bits = bits (block_bitmap (cur_part s))\<rparr>
    \<lparr>btmp_bytes_len = 512, bits = bits (inode_bitmap (cur_part s))\<rparr> [])"
  have run: "mount_partition p t = Inr (t\<lparr>heap := h, cur_part := ?c\<rparr>)"
    using h le pos l(3,5) len by (simp add: mount_partition_def Let_def fs_malloc_def disk_read_def d sb(2) im bm(1) SECTOR_SIZE_def del: replicate.simps)
  show ?thesis
    by (rule that [OF run]) (use bm(2) im(2) sb(1) in \<open>simp_all add: partition.defs fs_part.defs\<close>)
qed

lemma reboot_run:
  assumes p: "part_fits p" and st: "store_ok a i U s" and mp: "mountable p s" and d: "disk_data t = disk_data s"
    and h: "heap t = hs @ h" "length hs = 7" "0 \<notin> set hs" and name: "c_string (part_name p) = ascii ''sdb1''" and other: "\<forall>q \<in> set qs. sec_cnt q = 0"
    and tables: "length (file_table t) = 32" "length (thread_fds t) = 8" "thread_fds t ! 3 = - 1" and mem: "inodes t = (\<lambda>_. None)"
  obtains t' i' where "filesys_init (p # qs) t = Inr t'" and "store_ok (hs ! 5) i' U t'" and "contents i' t' = contents i s" and "heap t' = h"
    and "mountable p t'"
proof -
  obtain z x b1 b2 b3 f g where hs: "hs = [z, x, b1, b2, b3, f, g]" using h(2) by (auto simp: length_Suc_conv numeral_nat)
  have S: "files_ok a i U s" using st by (simp add: store_ok_def)
  note F = files_okD [OF S] and M = mount_ok_parts [OF files_okD(1) [OF S]]
  note fs = fs_ok_parts [OF M(1)] and l = layout [OF p]
  let ?t0 = "t\<lparr>heap := [x, b1, b2, b3, f, g] @ h\<rparr>"
  have h0: "heap ?t0 = x # b1 # b2 # b3 # [f, g] @ h" "0 \<notin> {b1, b2, b3}" using h(3) hs by auto
  have d0: "disk_data ?t0 = disk_data s" using d by simp
  obtain t1 where t1: "mount_partition p ?t0 = Inr t1" "t1 = ?t0\<lparr>heap := [f, g] @ h, cur_part := cur_part t1\<rparr>" "part_sb t1 = part_sb s"
    "start_lba (cur_part t1) = start_lba p" "sec_cnt (cur_part t1) = sec_cnt p" "block_bitmap (cur_part t1) = block_bitmap (cur_part s)"
    "inode_bitmap (cur_part t1) = inode_bitmap (cur_part s)" "open_inode (cur_part t1) = []"
    by (rule remount_part [OF p M(1) mp d0 h0])
  have same: "disk_data t1 = disk_data s" "heap t1 = f # g # h" "inodes t1 = (\<lambda>_. None)" "file_table t1 = file_table t" "thread_fds t1 = thread_fds t"
    using d mem by (subst t1(2), simp)+
  have lba: "start_lba (cur_part s) = start_lba p" "sec_cnt (cur_part s) = sec_cnt p" "part_sb s = new_super_block p"
    "disk_data s (start_lba p + 1) = encode_super_block (new_super_block p)" using mp by (simp_all add: mountable_def)
  have tab: "table_ok t1" using fs(2) t1(3-5) lba same(1) by (simp add: layout_ok_def table_ok_def)
  have "stored_inode 0 t1 = stored_inode 0 s" by (simp add: stored_inode_def t1(3) same(1))
  then have st1: "(stored_inode 0 t1)\<lparr>i_open_cnts := 1\<rparr> = i\<lparr>i_open_cnts := 1, write_deny := False\<rparr>" using F(5) by simp
  let ?i = "i\<lparr>i_open_cnts := 1, write_deny := False\<rparr>"
  let ?t2 = "set_dir (root_dir t1) \<lparr>dir_inode = f, dir_pos = 0\<rparr> (set_inode f ?i (upd_part (\<lambda>q. q\<lparr>open_inode := [f]\<rparr>) (t1\<lparr>heap := h\<rparr>)))"
  have fo: "find_open (open_inode (cur_part t1)) 0 t1 = Inr None" by (simp add: t1(8))
  have rn: "root_inode_no (part_sb t1) = 0" using l(9) t1(3) lba(3) by simp
  have 2: "open_root_dir t1 = Inr ?t2"
    using inode_open_loads [OF tab _ fo same(2)] rn st1 by (simp add: open_root_dir_def t1(8) set_inode_def)
  define t' where "t' = ?t2\<lparr>file_table := map (\<lambda>f. f\<lparr>fd_inode := 0\<rparr>) (file_table ?t2)\<rparr>"
  have "start_lba p + 1 \<le> max_lba"
  proof -
    have "unat (start_lba p) + 1 \<le> unat max_lba" using p by (simp add: part_fits_def)
    then show ?thesis using l(1) by (simp add: word_le_nat_alt)
  qed
  moreover have "magic (new_super_block p) = 0x12345678" by (simp add: new_super_block_def Let_def)
  ultimately have fa: "format_all (p # qs) ?t0 = Inr ?t0" using d lba(4) format_all_empty [OF other] by (simp add: disk_read_1)
  have zm: "fs_malloc t = (z, ?t0)" "z \<noteq> 0" using h hs by (auto simp: fs_malloc_def)
  have run: "filesys_init (p # qs) t = Inr t'"
    unfolding filesys_init_def zm(1) prod.case Let_def c_string_name [OF name] using zm(2) fa t1(1) 2 by (simp add: t'_def)
  have T: "part_sb t' = part_sb s" "start_lba (cur_part t') = start_lba p" "sec_cnt (cur_part t') = sec_cnt p"
    "block_bitmap (cur_part t') = block_bitmap (cur_part s)" "inode_bitmap (cur_part t') = inode_bitmap (cur_part s)" "disk_data t' = disk_data s"
    "heap t' = h" "inodes t' = [f \<mapsto> ?i]" "open_inode (cur_part t') = [f]" "dirs t' (root_dir t') = Some \<lparr>dir_inode = f, dir_pos = 0\<rparr>"
    "thread_fds t' = thread_fds t" "length (file_table t') = 32" "\<forall>F \<in> set (file_table t'). fd_inode F = 0"
    using t1(3-7) same tables(1) by (simp_all add: t'_def set_dir_def set_inode_def)
  note u = used_blocks_cong [OF T(1,4)]
  have ui: "used_inodes t' = used_inodes s" by (simp add: used_inodes_def T(5))
  have sm: "same_mem s t'" using T(1-4) lba by (simp add: same_mem_def)
  have fs': "fs_ok t'" using fs_ok_cong [OF sm T(6,5)] M(1) by simp
  have stq: "stored_inode q t' = stored_inode q s" for q by (simp add: stored_inode_def T(1,6))
  have db: "dir_blocks ?i = dir_blocks i" by (simp add: dir_blocks_def)
  have "get_dir (root_dir t') t' = Inr \<lparr>dir_inode = f, dir_pos = 0\<rparr>" "get_inode f t' = Inr ?i" using T(8,10) by (simp_all add: get_dir_def get_inode_def)
  then have dir: "dir_ok (root_dir t') f ?i t'" using F(6) fs_ok_parts(1) [OF fs'] unfolding dir_ok_def db T(1,6) u(1) by simp
  have live: "live ?i t' = live i s" by (simp add: live_def db T(6))
  then have tr: "tree_ok ?i t'" "files ?i t' = files i s" "numbers ?i t' = numbers i s" using tree_cong [of ?i i t' s] F(2) by simp_all
  have nd: "nodes_ok (numbers ?i t') U t'" using nodes_cong [OF ui u(1) stq] F(3) tr(3) by simp
  have res: "reserved ?i U t'" using F(4) u(2) T(1) by (simp add: reserved_def db)
  have "opens_ok t'" using T(8,9) M(3,4) ui by (simp add: opens_ok_def)
  then have mt: "mount_ok f ?i t'" using fs' dir M(3,4) ui T(11,12) tables(2) by (simp add: mount_ok_def)
  have "stored_inode 0 t' = ?i\<lparr>i_open_cnts := 0, write_deny := False\<rparr>" using F(5) stq by simp
  then have fl: "files_ok f ?i U t'" using mt tr(1) nd res by (simp add: files_ok_def)
  have "fd_inode (file_table t' ! 3) = 0" using T(12,13) by simp
  then have "slots t'" unfolding slots_def by (intro conjI exI [of _ 3]) (use T(11,12) tables in simp_all)
  then have store: "store_ok (hs ! 5) ?i U t'" using fl T(8,9,13) hs by (simp add: store_ok_def)
  have "contents ?i t' = contents i s" by (rule ext) (simp add: contents_def tr(2) node_bytes_def file_bytes_def block_bytes_def stq T(6))
  moreover have "mountable p t'" using T(1-3,6) lba by (simp add: mountable_def)
  ultimately show ?thesis by (rule that [OF run store _ T(7)])
qed

section \<open>The contract\<close>

text \<open>The commands on a state that serves as a store.\<close>

lemma serves_run:
  assumes st: "store_ok p i U s" and J: "length (junk_name J) = 16" and h: "7 * length cs \<le> length (heap s)" "0 \<notin> set (heap s)" "p \<notin> set (heap s)"
    and ok: "fits_all fits spec cs (contents i s)"
  obtains s' i' where "run_all (call J) cs s = Inr (fst (spec_all spec cs (contents i s)), s')" and "store_ok p i' U s'"
    and "contents i' s' = snd (spec_all spec cs (contents i s))" and "same_layout s s'"
proof -
  have "serves J p U s (length cs + 0) s (contents i s)" using assms by (auto simp: serves_def)
  from store.run [OF this ok] show ?thesis by (auto simp: serves_def intro: that)
qed

lemma store_empty:
  assumes "store_ok p i U s" and "contents i s = (\<lambda>_. None)"
  shows "used_blocks s = U" and "used_inodes s = {0}"
proof -
  have "files_ok p i U s" using assms(1) by (simp add: store_ok_def)
  note f = files_okD [OF this]
  have "files i s = []" using card_contents(1) [OF f(2)] assms(2) by (simp add: dom_def)
  then have "numbers i s = {}" by (simp add: numbers_def)
  then show "used_blocks s = U" "used_inodes s = {0}" using f(3) by (simp_all add: nodes_ok_def)
qed

text \<open>
  C3. The file system is a map from names to bytes. On a blank disk \<^verbatim>\<open>filesys_init\<close> makes an empty one; from then on every sequence of
  commands that fits (names of up to 15 characters, 19 files in the root directory, files of less than 12 blocks), each of them a file
  opened, written or read, and closed, or removed, answers just as the map does: a file that is there cannot be created again, what is
  read is what was written and appended, files that are not there cannot be read, written or removed. The state stays well-formed,
  and no block and no inode is lost: when all files are gone, just those of the root directory are in use again.
\<close>

theorem commands_refine_map:
  assumes p: "part_fits p" and m: "disk_ok (disk_data s)" and h: "heap s = hs @ h" "length hs = 8" "0 \<notin> set hs"
    and name: "c_string (part_name p) = ascii ''sdb1''" and other: "\<forall>q \<in> set qs. sec_cnt q = 0"
    and raw: "magic (decode_super_block (disk_data s (start_lba p + 1))) \<noteq> 0x12345678"
    and tables: "length (file_table s) = 32" "length (thread_fds s) = 8" "thread_fds s ! 3 = - 1"
    and mem: "inodes s = (\<lambda>_. None)" and big: "241 \<le> room p"
    and J: "length (junk_name J) = 16" and h': "7 * length cs \<le> length h" "0 \<notin> set h" "hs ! 6 \<notin> set h"
    and ok: "fits_all fits spec cs (\<lambda>_. None)"
  shows "\<exists>s1 s2 i. filesys_init (p # qs) s = Inr s1 \<and> run_all (call J) cs s1 = Inr (fst (spec_all spec cs (\<lambda>_. None)), s2)
    \<and> store_ok (hs ! 6) i (used_blocks s1) s2 \<and> contents i s2 = snd (spec_all spec cs (\<lambda>_. None)) \<and> mountable p s2
    \<and> (contents i s2 = (\<lambda>_. None) \<longrightarrow> used_blocks s2 = used_blocks s1 \<and> used_inodes s2 = {0})"
proof -
  obtain s1 i where 1: "filesys_init (p # qs) s = Inr s1" "store_ok (hs ! 6) i (used_blocks s1) s1" "contents i s1 = (\<lambda>_. None)"
    "heap s1 = h" "part_sb s1 = new_super_block p" "start_lba (cur_part s1) = start_lba p" "sec_cnt (cur_part s1) = sec_cnt p"
    "disk_data s1 (start_lba p + 1) = encode_super_block (new_super_block p)"
    by (rule filesys_init_store [OF p m h name other raw tables mem big])
  have h1: "7 * length cs \<le> length (heap s1)" "0 \<notin> set (heap s1)" "hs ! 6 \<notin> set (heap s1)" using h' 1(4) by simp_all
  obtain s2 i' where 2: "run_all (call J) cs s1 = Inr (fst (spec_all spec cs (contents i s1)), s2)" "store_ok (hs ! 6) i' (used_blocks s1) s2"
    "contents i' s2 = snd (spec_all spec cs (contents i s1))" "same_layout s1 s2"
    by (rule serves_run [OF 1(2) J h1]) (use ok 1(3) in simp_all)
  have "mountable p s1" using 1(5-8) by (simp add: mountable_def)
  then have "mountable p s2" by (rule mountable_kept [OF _ p 2(4)])
  then show ?thesis using 1(1) 2(1-3) store_empty [OF 2(2)] unfolding 1(3) by blast
qed

text \<open>
  C4. Files survive a reboot. When the machine goes down and comes up again with nothing but the disk, \<^verbatim>\<open>filesys_init\<close> does not format
  it, but mounts the file system it finds, with the same files under the same names; every sequence of commands that fits goes
  on from there as if nothing had happened, and the disk it leaves can be mounted again.
\<close>

theorem reboot_keeps_files:
  assumes p: "part_fits p" and st: "store_ok a i U s" and mp: "mountable p s" and d: "disk_data t = disk_data s"
    and h: "heap t = hs @ h" "length hs = 7" "0 \<notin> set hs" and name: "c_string (part_name p) = ascii ''sdb1''" and other: "\<forall>q \<in> set qs. sec_cnt q = 0"
    and tables: "length (file_table t) = 32" "length (thread_fds t) = 8" "thread_fds t ! 3 = - 1" and mem: "inodes t = (\<lambda>_. None)"
    and J: "length (junk_name J) = 16" and h': "7 * length cs \<le> length h" "0 \<notin> set h" "hs ! 5 \<notin> set h"
    and ok: "fits_all fits spec cs (contents i s)"
  shows "\<exists>t1 t2 i'. filesys_init (p # qs) t = Inr t1 \<and> run_all (call J) cs t1 = Inr (fst (spec_all spec cs (contents i s)), t2)
    \<and> store_ok (hs ! 5) i' U t2 \<and> contents i' t2 = snd (spec_all spec cs (contents i s)) \<and> mountable p t2"
proof -
  obtain t1 i' where 1: "filesys_init (p # qs) t = Inr t1" "store_ok (hs ! 5) i' U t1" "contents i' t1 = contents i s" "heap t1 = h" "mountable p t1"
    by (rule reboot_run [OF p st mp d h name other tables mem])
  have h1: "7 * length cs \<le> length (heap t1)" "0 \<notin> set (heap t1)" "hs ! 5 \<notin> set (heap t1)" using h' 1(4) by simp_all
  obtain t2 i'' where 2: "run_all (call J) cs t1 = Inr (fst (spec_all spec cs (contents i' t1)), t2)" "store_ok (hs ! 5) i'' U t2"
    "contents i'' t2 = snd (spec_all spec cs (contents i' t1))" "same_layout t1 t2"
    by (rule serves_run [OF 1(2) J h1]) (use ok 1(3) in simp_all)
  show ?thesis using 1(1) 2(1-3) mountable_kept [OF 1(5) p 2(4)] unfolding 1(3) by blast
qed

section \<open>An example\<close>

definition addresses :: "nat \<Rightarrow> nat \<Rightarrow> u32 list" where
  "addresses a b = map of_nat [a..<b]"

lemma sample_fits: "fits_all fits spec [Put (ascii ''a'') (ascii ''hello''), Append (ascii ''a'') (ascii ''!''), Read (ascii ''a'') 9, Delete (ascii ''a'')] (\<lambda>_. None)"
  using plain_a(1) by (simp add: ascii_def)

lemma commands_refine_map_witness:
  "\<exists>s1 s2 i. filesys_init [sample_part] (blank (addresses 1 9 @ addresses 9 37)) = Inr s1
    \<and> run_all (call no_junk) [Put (ascii ''a'') (ascii ''hello''), Append (ascii ''a'') (ascii ''!''), Read (ascii ''a'') 9, Delete (ascii ''a'')] s1
      = Inr ([Done, Done, Bytes (ascii ''hello!''), Done], s2) \<and> contents i s2 = (\<lambda>_. None) \<and> used_inodes s2 = {0}"
proof -
  let ?cs = "[Put (ascii ''a'') (ascii ''hello''), Append (ascii ''a'') (ascii ''!''), Read (ascii ''a'') 9, Delete (ascii ''a'')]"
  have h: "heap (blank (addresses 1 9 @ addresses 9 37)) = addresses 1 9 @ addresses 9 37" "length (addresses 1 9) = 8" "0 \<notin> set (addresses 1 9)"
    "7 * length ?cs \<le> length (addresses 9 37)" "0 \<notin> set (addresses 9 37)" "addresses 1 9 ! 6 \<notin> set (addresses 9 37)"
    by (simp_all add: blank_simps addresses_def upt_conv_Cons)
  have s: "spec_all spec ?cs (\<lambda>_. None) = ([Done, Done, Bytes (ascii ''hello!''), Done], \<lambda>_. None)"
    by (simp add: ascii_def fun_upd_idem)
  have b: "part_fits sample_part" "disk_ok (disk_data (blank (addresses 1 9 @ addresses 9 37)))" "c_string (part_name sample_part) = ascii ''sdb1''"
    "magic (decode_super_block (disk_data (blank (addresses 1 9 @ addresses 9 37)) (start_lba sample_part + 1))) \<noteq> 0x12345678"
    "length (file_table (blank (addresses 1 9 @ addresses 9 37))) = 32" "length (thread_fds (blank (addresses 1 9 @ addresses 9 37))) = 8"
    "thread_fds (blank (addresses 1 9 @ addresses 9 37)) ! 3 = - 1" "room sample_part = 1388"
    by (rule blank_premises)+
  from commands_refine_map [OF b(1,2) h(1-3) b(3) _ b(4,5,6,7) _ _ plain_a(3) h(4-6) sample_fits, of "[]"]
  show ?thesis unfolding s by (auto simp: blank_simps b(8))
qed

lemma reboot_keeps_files_witness:
  "\<exists>s1 s2 t1 t2. filesys_init [sample_part] (blank (addresses 1 9 @ addresses 9 16)) = Inr s1
    \<and> run_all (call no_junk) [Put (ascii ''a'') (ascii ''hello'')] s1 = Inr ([Done], s2)
    \<and> filesys_init [sample_part] ((blank (addresses 1 8 @ addresses 8 15))\<lparr>disk_data := disk_data s2\<rparr>) = Inr t1
    \<and> run_all (call no_junk) [Read (ascii ''a'') 9] t1 = Inr ([Bytes (ascii ''hello'')], t2)"
proof -
  let ?cs = "[Put (ascii ''a'') (ascii ''hello'')]"
  let ?M = "[ascii ''a'' \<mapsto> ascii ''hello'']"
  have f: "fits_all fits spec ?cs (\<lambda>_. None)" using plain_a(1) by (simp add: ascii_def)
  have h: "heap (blank (addresses 1 9 @ addresses 9 16)) = addresses 1 9 @ addresses 9 16" "length (addresses 1 9) = 8" "0 \<notin> set (addresses 1 9)"
    "7 * length ?cs \<le> length (addresses 9 16)" "0 \<notin> set (addresses 9 16)" "addresses 1 9 ! 6 \<notin> set (addresses 9 16)"
    by (simp_all add: blank_simps addresses_def upt_conv_Cons)
  have b: "part_fits sample_part" "disk_ok (disk_data (blank (addresses 1 9 @ addresses 9 16)))" "c_string (part_name sample_part) = ascii ''sdb1''"
    "magic (decode_super_block (disk_data (blank (addresses 1 9 @ addresses 9 16)) (start_lba sample_part + 1))) \<noteq> 0x12345678"
    "length (file_table (blank (addresses 1 9 @ addresses 9 16))) = 32" "length (thread_fds (blank (addresses 1 9 @ addresses 9 16))) = 8"
    "thread_fds (blank (addresses 1 9 @ addresses 9 16)) ! 3 = - 1" "room sample_part = 1388"
    by (rule blank_premises)+
  have mem: "inodes (blank (addresses 1 9 @ addresses 9 16)) = (\<lambda>_. None)" "241 \<le> room sample_part" by (simp_all add: blank_simps b(8))
  obtain s1 i where 1: "filesys_init [sample_part] (blank (addresses 1 9 @ addresses 9 16)) = Inr s1" "store_ok (addresses 1 9 ! 6) i (used_blocks s1) s1"
    "contents i s1 = (\<lambda>_. None)" "heap s1 = addresses 9 16" "part_sb s1 = new_super_block sample_part"
    "start_lba (cur_part s1) = start_lba sample_part" "sec_cnt (cur_part s1) = sec_cnt sample_part"
    "disk_data s1 (start_lba sample_part + 1) = encode_super_block (new_super_block sample_part)"
    by (rule filesys_init_store [OF b(1,2) h(1-3) b(3) _ b(4,5,6,7) mem, of "[]"]) (simp, blast)
  obtain s2 i' where 2: "run_all (call no_junk) ?cs s1 = Inr (fst (spec_all spec ?cs (contents i s1)), s2)"
    "store_ok (addresses 1 9 ! 6) i' (used_blocks s1) s2" "contents i' s2 = snd (spec_all spec ?cs (contents i s1))" "same_layout s1 s2"
    by (rule serves_run [OF 1(2) plain_a(3), where cs = ?cs]) (use h(4-6) 1(3,4) f in \<open>simp_all only: not_False_eq_True\<close>)
  have s: "spec_all spec ?cs (contents i s1) = ([Done], ?M)" by (simp add: 1(3))
  have "mountable sample_part s1" using 1(5-8) by (simp add: mountable_def)
  then have mp: "mountable sample_part s2" by (rule mountable_kept [OF _ b(1) 2(4)])
  let ?t = "(blank (addresses 1 8 @ addresses 8 15))\<lparr>disk_data := disk_data s2\<rparr>"
  have t: "disk_data ?t = disk_data s2" "heap ?t = addresses 1 8 @ addresses 8 15" "length (addresses 1 8) = 7" "0 \<notin> set (addresses 1 8)"
    "length (file_table ?t) = 32" "length (thread_fds ?t) = 8" "thread_fds ?t ! 3 = - 1" "inodes ?t = (\<lambda>_. None)"
    "7 * length [Read (ascii ''a'') 9] \<le> length (addresses 8 15)" "0 \<notin> set (addresses 8 15)" "addresses 1 8 ! 5 \<notin> set (addresses 8 15)"
    by (simp_all add: blank_simps addresses_def upt_conv_Cons)
  have c: "contents i' s2 = ?M" using 2(3) s by simp
  have f': "fits_all fits spec [Read (ascii ''a'') 9] (contents i' s2)" using plain_a(1) by simp
  have s': "spec_all spec [Read (ascii ''a'') 9] (contents i' s2) = ([Bytes (ascii ''hello'')], ?M)" by (simp add: c ascii_def)
  from reboot_keeps_files [OF b(1) 2(2) mp t(1-4) b(3) _ t(5-8) plain_a(3) t(9-11) f', of "[]"]
  show ?thesis using 1(1) 2(1) unfolding s' s by auto
qed

end
